(* ===== verification/Prelude.thy ===== *)
theory Prelude
  imports Main "HOL-Library.Word" "HOL-Library.Char_ord"
begin

unbundle bit_operations_syntax

text \<open>
  Shared vocabulary of the development: the machine types of the C code (ILP32, little-endian,
  plain \<^verbatim>\<open>char\<close> unsigned, as on the ARM32 target that \<^verbatim>\<open>env.sh\<close> selects), a flat byte memory,
  zero-terminated strings in that memory, and the rules on lists, words and loops that the
  component theories share.
\<close>

named_theorems mem_simps \<open>reading and writing the byte memory\<close>
named_theorems cstr_intros \<open>zero-terminated strings in memory\<close>

type_synonym u8 = "8 word"
type_synonym u16 = "16 word"
type_synonym u32 = "32 word"
type_synonym u64 = "64 word"

text \<open>Addresses are natural numbers (0 is NULL); a byte is a HOL \<open>char\<close>, which has exactly 256 values.\<close>

type_synonym addr = nat
type_synonym mem = "addr \<Rightarrow> char"

abbreviation NUL :: char where "NUL \<equiv> CHR 0x00"

text \<open>A byte read by C is promoted to \<^verbatim>\<open>int\<close> (0..255); storing an \<^verbatim>\<open>int\<close> keeps its low 8 bits.\<close>

abbreviation chr_int :: "char \<Rightarrow> int" where "chr_int c \<equiv> of_char c"
abbreviation int_chr :: "int \<Rightarrow> char" where "int_chr i \<equiv> char_of i"

text \<open>Wrap an integer to a signed or an unsigned 32-bit value.\<close>

definition s32 :: "int \<Rightarrow> int" where "s32 i = sint (word_of_int i :: 32 word)"
definition u32i :: "int \<Rightarrow> int" where "u32i i = uint (word_of_int i :: 32 word)"

lemma s32_small [simp]: "- (2 ^ 31) \<le> i \<Longrightarrow> i < 2 ^ 31 \<Longrightarrow> s32 i = i"
  by (simp add: s32_def signed_of_int signed_take_bit_int_eq_self)

lemma s32_bounds: "- (2 ^ 31) \<le> s32 i" "s32 i < 2 ^ 31"
  using sint_ge [of "word_of_int i :: 32 word"] sint_lt [of "word_of_int i :: 32 word"]
  by (simp_all add: s32_def)

lemma u32i_mod: "u32i i = i mod 2 ^ 32"
  by (simp add: u32i_def uint_word_of_int)

lemma u32i_small [simp]: "0 \<le> i \<Longrightarrow> i < 2 ^ 32 \<Longrightarrow> u32i i = i"
  by (simp add: u32i_mod)

text \<open>Characters as numbers.\<close>

lemma chr_int_range [simp]: "0 \<le> chr_int c" "chr_int c < 256"
  using of_nat_of_char [of c, where ?'a = int, symmetric] nat_of_char_less_256 [of c]
  by (simp_all del: nat_of_char_less_256)

lemma chr_int_0_iff [simp]: "chr_int c = 0 \<longleftrightarrow> c = NUL"
proof -
  have "chr_int NUL = 0" by simp
  then show ?thesis by (metis of_char_eq_iff)
qed

lemma chr_int_le_0_iff [simp]: "chr_int c \<le> 0 \<longleftrightarrow> c = NUL" "0 < chr_int c \<longleftrightarrow> c \<noteq> NUL"
  using chr_int_range(1) [of c] chr_int_0_iff [of c] by linarith+

lemma less_char_int: "c < d \<longleftrightarrow> chr_int c < chr_int d"
proof -
  have i: "chr_int x = int (of_char x)" for x by (rule of_nat_of_char [symmetric])
  show ?thesis by (simp only: less_char_def i of_nat_less_iff)
qed

lemma find_map: "List.find P (map f xs) = map_option f (List.find (\<lambda>x. P (f x)) xs)"
  by (induction xs) auto

subsection \<open>Regions and zero-terminated strings\<close>

text \<open>\<open>fill\<close> and \<open>blit\<close> are the reference meaning of the block operations: set or copy \<open>n\<close> bytes.\<close>

definition fill :: "addr \<Rightarrow> nat \<Rightarrow> char \<Rightarrow> mem \<Rightarrow> mem" where
  "fill a n c m = (\<lambda>x. if a \<le> x \<and> x < a + n then c else m x)"

definition blit :: "addr \<Rightarrow> string \<Rightarrow> mem \<Rightarrow> mem" where
  "blit a cs m = (\<lambda>x. if a \<le> x \<and> x < a + length cs then cs ! (x - a) else m x)"

definition region :: "addr \<Rightarrow> nat \<Rightarrow> mem \<Rightarrow> string" where
  "region a n m = map (\<lambda>i. m (a + i)) [0..<n]"

text \<open>\<open>cstr m a s\<close>: at address \<open>a\<close> memory holds the characters of \<open>s\<close>, none of them zero, and then a zero.\<close>

fun cstr :: "mem \<Rightarrow> addr \<Rightarrow> string \<Rightarrow> bool" where
  "cstr m a [] \<longleftrightarrow> m a = NUL"
| "cstr m a (c # cs) \<longleftrightarrow> m a = c \<and> c \<noteq> NUL \<and> cstr m (Suc a) cs"

lemma fill_0 [mem_simps]: "fill a 0 c m = m"
  by (auto simp: fill_def fun_eq_iff)

lemma fill_fill [mem_simps]: "fill (a + n) k c (fill a n c m) = fill a (n + k) c m"
  by (auto simp: fill_def)

lemma fill_upd: "fill (Suc a) n c (m(a := c)) = fill a (Suc n) c m"
  by (auto simp: fill_def)

lemma blit_Nil [mem_simps]: "blit a [] m = m"
  by (auto simp: blit_def fun_eq_iff)

lemma blit_Cons: "blit (Suc a) cs (m(a := c)) = blit a (c # cs) m"
  by (auto simp: blit_def nth_Cons')

lemma blit_append: "blit (a + length cs) ds (blit a cs m) = blit a (cs @ ds) m"
  by (auto simp: blit_def nth_append fun_eq_iff)

lemma length_region [simp]: "length (region a n m) = n"
  by (simp add: region_def)

lemma region_0 [simp]: "region a 0 m = []"
  by (simp add: region_def)

lemma region_Suc: "region a (Suc n) m = m a # region (Suc a) n m"
  by (simp add: region_def upt_conv_Cons map_Suc_upt [symmetric] comp_def del: upt_Suc)

lemma region_upd_out: "x < a \<or> a + n \<le> x \<Longrightarrow> region a n (m(x := c)) = region a n m"
  by (auto simp: region_def)

lemma region_blit: "region a (length cs) (blit a cs m) = cs"
  by (rule nth_equalityI) (auto simp: region_def blit_def)

lemma region_cong: "(\<And>x. a \<le> x \<Longrightarrow> x < a + n \<Longrightarrow> m x = m' x) \<Longrightarrow> region a n m = region a n m'"
  by (simp add: region_def)

lemma cstr_nth: "cstr m a s \<Longrightarrow> i < length s \<Longrightarrow> m (a + i) = s ! i \<and> s ! i \<noteq> NUL"
  by (induction s arbitrary: a i) (auto simp: nth_Cons split: nat.splits, (metis add_Suc_right add_Suc_shift)+)

lemma cstr_end: "cstr m a s \<Longrightarrow> m (a + length s) = NUL"
  by (induction s arbitrary: a) (auto, metis add_Suc_right add_Suc_shift)

lemma cstr_iff: "cstr m a s \<longleftrightarrow> region a (length s) m = s \<and> NUL \<notin> set s \<and> m (a + length s) = NUL"
  by (induction s arbitrary: a) (auto simp: region_Suc)

lemma cstr_cong:
  "(\<And>x. a \<le> x \<Longrightarrow> x \<le> a + length s \<Longrightarrow> m x = m' x) \<Longrightarrow> cstr m a s = cstr m' a s"
  using region_cong [of a "length s" m m'] by (simp add: cstr_iff)

lemma cstr_upd [cstr_intros]: "cstr m a s \<Longrightarrow> x < a \<or> a + length s < x \<Longrightarrow> cstr (m(x := c)) a s"
  by (subst cstr_cong [of _ _ _ m]) auto

lemma cstr_blit [cstr_intros]:
  "NUL \<notin> set s \<Longrightarrow> cstr (blit a (s @ [NUL]) m) a s"
proof -
  assume "NUL \<notin> set s"
  moreover have "region a (length s) (blit a (s @ [NUL]) m) = s"
    by (rule nth_equalityI) (auto simp: region_def blit_def nth_append)
  moreover have "blit a (s @ [NUL]) m (a + length s) = NUL"
    by (simp add: blit_def nth_append)
  ultimately show ?thesis by (simp add: cstr_iff)
qed

lemma cstr_unique: "cstr m a s \<Longrightarrow> cstr m a t \<Longrightarrow> s = t"
proof (induction s arbitrary: a t)
  case Nil
  then show ?case by (cases t) auto
next
  case (Cons c s)
  then show ?case by (cases t) auto
qed

lemma cstr_no_nul: "cstr m a s \<Longrightarrow> NUL \<notin> set s"
  by (simp add: cstr_iff)

lemma cstr_drop: "cstr m a s \<Longrightarrow> n \<le> length s \<Longrightarrow> cstr m (a + n) (drop n s)"
proof (induction n arbitrary: a s)
  case (Suc n)
  then obtain c cs where "s = c # cs" by (cases s) auto
  with Suc.prems Suc.IH [of "Suc a" cs] show ?case by simp
qed simp

subsection \<open>Numbers printed in a base\<close>

text \<open>The digits of a number, most significant first, as the C library prints them.\<close>

definition digit_char :: "nat \<Rightarrow> char" where
  "digit_char n = (if n < 10 then char_of (48 + n) else char_of (87 + n))"

function base_digits :: "nat \<Rightarrow> nat \<Rightarrow> string" where
  "base_digits b n =
     (if n < b \<or> b < 2 then [digit_char n] else base_digits b (n div b) @ [digit_char (n mod b)])"
  by pat_completeness auto
termination by (relation "measure snd") auto

declare base_digits.simps [simp del]

definition dec_str :: "int \<Rightarrow> string" where
  "dec_str i = (if i < 0 then CHR ''-'' # base_digits 10 (nat (- i)) else base_digits 10 (nat i))"

definition hex_str :: "nat \<Rightarrow> string" where "hex_str n = base_digits 16 n"

lemma length_base_digits:
  "2 \<le> b \<Longrightarrow> n < b ^ Suc k \<Longrightarrow> length (base_digits b n) \<le> Suc k"
proof (induction k arbitrary: n)
  case 0
  then show ?case by (simp add: base_digits.simps [of b n])
next
  case (Suc k)
  have "n div b < b ^ Suc k" using Suc.prems by (intro less_mult_imp_div_less) (simp add: mult.commute)
  then have "length (base_digits b (n div b)) \<le> Suc k" using Suc.IH Suc.prems(1) by blast
  then show ?case by (simp add: base_digits.simps [of b n])
qed

end
