(* ===== verification/MatMul.thy ===== *)
theory MatMul
  imports Prelude
begin

unbundle bit_operations_syntax

text \<open>
  The matrix multiplier and its drivers: the software device of \<^verbatim>\<open>pure/matrix.h\<close>, the SystemC
  device of \<^verbatim>\<open>tlm/matMul_2x2.h\<close>, the driver \<^verbatim>\<open>pure/matMul.c\<close>, and the SystemC test bench
  \<^verbatim>\<open>tlm/matMul.cpp\<close>.  A driver reaches its device through two operations only: the macros WRITE and
  READ in C, one transaction in the test bench.  The locale \<open>mm_device\<close> states what they promise, and
  both devices interpret it.  The driver \<^verbatim>\<open>prazor-tests/matMul.c\<close>, whose accesses reach the SystemC
  device through the bus access unit of a simulated ARM core, is in the theory \<open>MatMulArm\<close>: there the
  promise is not kept.
\<close>

subsection \<open>Data: 2x2 matrices packed into words\<close>

text \<open>Byte \<open>n\<close> of a little-endian 32-bit word, and two 16-bit halves stored as one word.\<close>

definition byte_of :: "u32 \<Rightarrow> nat \<Rightarrow> u8" where
  "byte_of w n = ucast (drop_bit (8 * n) w)"

definition pack16 :: "u16 \<Rightarrow> u16 \<Rightarrow> u32" where
  "pack16 lo hi = ucast lo OR push_bit 16 (ucast hi)"

text \<open>
  The triple loop of \<open>matrix_multiply\<close> and of \<open>b_transact\<close>: the \<^verbatim>\<open>u8\<close> factors are promoted to
  \<^verbatim>\<open>int\<close>, the sum is truncated when it is stored back into the \<^verbatim>\<open>u16\<close> array.
\<close>

definition mm_step :: "(nat \<Rightarrow> u8) \<Rightarrow> (nat \<Rightarrow> u8) \<Rightarrow> nat \<Rightarrow> nat \<Rightarrow> nat \<Rightarrow> u16 list \<Rightarrow> u16 list" where
  "mm_step a b i j k res =
     res[i * 2 + j := word_of_int (uint (res ! (i * 2 + j)) + uint (a (i * 2 + k)) * uint (b (k * 2 + j)))]"

definition mm_res :: "(nat \<Rightarrow> u8) \<Rightarrow> (nat \<Rightarrow> u8) \<Rightarrow> u16 list" where
  "mm_res a b =
     fold (\<lambda>i. fold (\<lambda>j. fold (\<lambda>k. mm_step a b i j k) [0..<2]) [0..<2]) [0..<2] [0, 0, 0, 0]"

text \<open>Specification: entry \<open>(i, j)\<close> of the product, truncated to 16 bits, and the two result words.\<close>

definition dot :: "(nat \<Rightarrow> u8) \<Rightarrow> (nat \<Rightarrow> u8) \<Rightarrow> nat \<Rightarrow> nat \<Rightarrow> int" where
  "dot a b i j = (\<Sum>k<2. uint (a (i * 2 + k)) * uint (b (k * 2 + j)))"

definition prod_lo :: "u32 \<Rightarrow> u32 \<Rightarrow> u32" where
  "prod_lo a b = pack16 (word_of_int (dot (byte_of a) (byte_of b) 0 0))
                        (word_of_int (dot (byte_of a) (byte_of b) 0 1))"

definition prod_hi :: "u32 \<Rightarrow> u32 \<Rightarrow> u32" where
  "prod_hi a b = pack16 (word_of_int (dot (byte_of a) (byte_of b) 1 0))
                        (word_of_int (dot (byte_of a) (byte_of b) 1 1))"

lemma upt2: "[0..<2] = [0, Suc 0]"
  by (simp add: upt_rec)

lemma sum2: "(\<Sum>k<2. f k) = f 0 + f (Suc 0)" for f :: "nat \<Rightarrow> int"
  by (simp add: numeral_2_eq_2)

lemma wadd_trunc [simp]:
  "word_of_int (uint (word_of_int x :: u16) + y) = (word_of_int (x + y) :: u16)"
  by (simp add: word_of_int_eq_iff take_bit_add uint_word_of_int_eq)

lemma mm_res_dot:
  "mm_res a b = [word_of_int (dot a b 0 0), word_of_int (dot a b 0 1),
                 word_of_int (dot a b 1 0), word_of_int (dot a b 1 1)]"
  by (simp add: mm_res_def mm_step_def upt2 dot_def sum2 add.commute numeral_eq_Suc)

subsection \<open>The software device (\<^verbatim>\<open>pure/matrix.h\<close>)\<close>

text \<open>The array \<open>_data\<close>: words 0 and 1 hold the operands, 2 and 3 the low and high results.\<close>

definition matrix_multiply :: "u32 list \<Rightarrow> u32 list" where
  "matrix_multiply d =
     (let res = mm_res (byte_of (d ! 0)) (byte_of (d ! 1))
      in d[2 := pack16 (res ! 0) (res ! 1), 3 := pack16 (res ! 2) (res ! 3)])"

text \<open>Offsets used by the driver, and the macros WRITE (store, then multiply) and READ.\<close>

definition MATA :: u32 where "MATA = 0x00"
definition MATB :: u32 where "MATB = 0x04"
definition RES_LO :: u32 where "RES_LO = 0x08"
definition RES_HI :: u32 where "RES_HI = 0x0C"

definition pure_write :: "u32 \<Rightarrow> u32 \<Rightarrow> u32 list \<Rightarrow> u32 list" where
  "pure_write off x d = matrix_multiply (d[unat off div 4 := x])"

definition pure_read :: "u32 \<Rightarrow> u32 list \<Rightarrow> u32" where
  "pure_read off d = d ! (unat off div 4)"

lemmas mm_offsets = MATA_def MATB_def RES_LO_def RES_HI_def

subsection \<open>The SystemC device (\<^verbatim>\<open>tlm/matMul_2x2.h\<close>)\<close>

record tlm_dev =
  d_matA :: "u8 list"
  d_matB :: "u8 list"
  d_res :: "u16 list"

definition matMul_2x2_init :: tlm_dev where
  "matMul_2x2_init = \<lparr>d_matA = [0, 0, 0, 0], d_matB = [0, 0, 0, 0], d_res = [0, 0, 0, 0]\<rparr>"

definition MEM_BASE :: u64 where "MEM_BASE = 0xE0002000"

definition bytes4 :: "u32 \<Rightarrow> u8 list" where
  "bytes4 w = map (byte_of w) [0..<4]"

text \<open>One transaction: a write latches an operand and recomputes, a read returns a result half.\<close>

definition b_transact :: "bool \<Rightarrow> u64 \<Rightarrow> u32 \<Rightarrow> tlm_dev \<Rightarrow> u32 \<times> tlm_dev" where
  "b_transact is_write address data dv =
     (let offset = address XOR MEM_BASE in
      if is_write then
        let dv1 = (if offset = ucast MATA then dv\<lparr>d_matA := bytes4 data\<rparr>
                   else if offset = ucast MATB then dv\<lparr>d_matB := bytes4 data\<rparr> else dv)
        in (data, dv1\<lparr>d_res := mm_res (\<lambda>n. d_matA dv1 ! n) (\<lambda>n. d_matB dv1 ! n)\<rparr>)
      else if offset = ucast RES_LO then (pack16 (d_res dv ! 0) (d_res dv ! 1), dv)
      else if offset = ucast RES_HI then (pack16 (d_res dv ! 2) (d_res dv ! 3), dv)
      else (data, dv))"

text \<open>The transactions of the test bench \<^verbatim>\<open>tlm/matMul.cpp\<close>: the address is that of the register itself,
  without byte enables.\<close>

definition txn_write :: "u32 \<Rightarrow> u32 \<Rightarrow> tlm_dev \<Rightarrow> tlm_dev" where
  "txn_write off x dv = snd (b_transact True (MEM_BASE + ucast off) x dv)"

definition txn_read :: "u32 \<Rightarrow> tlm_dev \<Rightarrow> u32" where
  "txn_read off dv = fst (b_transact False (MEM_BASE + ucast off) 0 dv)"

subsection \<open>What a device promises its driver\<close>

locale mm_device =
  fixes wr :: "u32 \<Rightarrow> u32 \<Rightarrow> 'd \<Rightarrow> 'd"
    and rd :: "u32 \<Rightarrow> 'd \<Rightarrow> u32"
    and ok :: "'d \<Rightarrow> bool"
  assumes ok_wr: "ok d \<Longrightarrow> off \<in> {MATA, MATB} \<Longrightarrow> ok (wr off x d)"
    and rd_lo: "ok d \<Longrightarrow> rd RES_LO (wr MATB b (wr MATA a d)) = prod_lo a b"
    and rd_hi: "ok d \<Longrightarrow> rd RES_HI (wr MATB b (wr MATA a d)) = prod_hi a b"
    and wr_idem: "ok d \<Longrightarrow> wr MATB b (wr MATA a (wr MATB b (wr MATA a d))) = wr MATB b (wr MATA a d)"

subsection \<open>The driver (\<^verbatim>\<open>pure/matMul.c\<close>)\<close>

text \<open>
  Console output is kept as the sequence of \<^verbatim>\<open>printf\<close> calls with their evaluated arguments. The
  parameters are the two macros WRITE and READ, the library's \<^verbatim>\<open>strtoul\<close>, the value of MEM_BASE
  and whether the caches are turned on (bare metal builds only).
\<close>

datatype event = Printf string "u32 list" | Fprintf string | Enable_caches

record 'd mm =
  dev :: 'd
  matA :: u32
  matB :: u32
  iters :: u32
  lRes :: u32
  hRes :: u32
  log :: "event list"

definition emit :: "event list \<Rightarrow> 'd mm \<Rightarrow> 'd mm" where
  "emit es s = s\<lparr>log := log s @ es\<rparr>"

text \<open>The busy-wait \<open>do res = READ(RES_LO) + READ(RES_HI); while (res != 0)\<close>.\<close>

partial_function (option) wait_clear :: "(u32 \<Rightarrow> 'd \<Rightarrow> u32) \<Rightarrow> 'd \<Rightarrow> 'd option" where
  "wait_clear rd d =
     (let res = rd RES_LO d + rd RES_HI d in if res \<noteq> 0 then wait_clear rd d else Some d)"

definition usage :: event where
  "usage = Fprintf ''Usage: matMul <matrixA> <matrixB> [iterations]\<newline>\<newline>\<newline>''"

definition byte_arg :: "u32 \<Rightarrow> nat \<Rightarrow> u32" where
  "byte_arg w n = drop_bit n w AND 0xFF"

definition show_args :: "u32 \<Rightarrow> u32 \<Rightarrow> u32 \<Rightarrow> event list" where
  "show_args a b n =
     [Printf ''\<newline>'' [],
      Printf ''input = 0x%08x 0x%08x\<newline>'' [a, b],
      Printf ''matrix A:\<newline>%d %d\<newline>%d %d\<newline>'' [byte_arg a 0, byte_arg a 8, byte_arg a 16, byte_arg a 24],
      Printf ''matrix B:\<newline>%d %d\<newline>%d %d\<newline>\<newline>'' [byte_arg b 0, byte_arg b 8, byte_arg b 16, byte_arg b 24],
      Printf ''iterations: %u\<newline>'' [n]]"

definition mm_init ::
  "(u32 \<Rightarrow> u32 \<Rightarrow> 'd \<Rightarrow> 'd) \<Rightarrow> (u32 \<Rightarrow> 'd \<Rightarrow> u32) \<Rightarrow> (string \<Rightarrow> int \<Rightarrow> u32) \<Rightarrow> u32 \<Rightarrow> bool \<Rightarrow>
   string list \<Rightarrow> 'd mm \<Rightarrow> (int \<times> 'd mm) option" where
  "mm_init wr rd stou base bare argv s =
     (let argc = length argv in
      if argc < 3 \<or> argc > 5 then Some (1, emit [usage] s)
      else
        let s1 = s\<lparr>iters := (if argc = 4 then stou (argv ! 3) 10 else 1)\<rparr>;
            s2 = s1\<lparr>matA := stou (argv ! 1) 16, matB := stou (argv ! 2) 16\<rparr>;
            s3 = emit [Printf ''Mapping memory\<newline>'' []] s2
        in if base = 0 then Some (1, s3)
           else
             let s4 = emit [Printf ''Waiting for last results to clear...\<newline>'' []] s3;
                 d1 = wr MATB 0 (wr MATA 0 (dev s4))
             in (case wait_clear rd d1 of
                   None \<Rightarrow> None
                 | Some d2 \<Rightarrow>
                     Some (0, emit ((if bare then [Printf ''Turning on L1 and L2 caches\<newline>'' [], Enable_caches] else [])
                                    @ show_args (matA s4) (matB s4) (iters s4)) (s4\<lparr>dev := d2\<rparr>))))"

definition half_arg :: "u32 \<Rightarrow> nat \<Rightarrow> u32" where
  "half_arg w n = drop_bit n w AND 0xFFFF"

definition mm_deinit :: "'d mm \<Rightarrow> int \<times> 'd mm" where
  "mm_deinit s =
     (0, emit [Printf ''res = 0x%08x 0x%08x\<newline>'' [hRes s, lRes s],
               Printf ''res in matrix form:\<newline>%d %d\<newline>%d %d\<newline>''
                 [half_arg (lRes s) 0, half_arg (lRes s) 16, half_arg (hRes s) 0, half_arg (hRes s) 16],
               Printf ''\<newline>'' [], Printf ''Unmapping memory\<newline>'' [], Printf ''\<newline>'' []] s)"

text \<open>One pass of the measured loop, the loop itself (its counter is not read by the body), and main.\<close>

definition mm_body :: "(u32 \<Rightarrow> u32 \<Rightarrow> 'd \<Rightarrow> 'd) \<Rightarrow> (u32 \<Rightarrow> 'd \<Rightarrow> u32) \<Rightarrow> 'd mm \<Rightarrow> 'd mm" where
  "mm_body wr rd s =
     (let d = wr MATB (matB s) (wr MATA (matA s) (dev s))
      in s\<lparr>dev := d, lRes := rd RES_LO d, hRes := rd RES_HI d\<rparr>)"

definition mm_loop :: "(u32 \<Rightarrow> u32 \<Rightarrow> 'd \<Rightarrow> 'd) \<Rightarrow> (u32 \<Rightarrow> 'd \<Rightarrow> u32) \<Rightarrow> 'd mm \<Rightarrow> 'd mm" where
  "mm_loop wr rd s = (mm_body wr rd ^^ unat (iters s)) s"

definition mm_main ::
  "(u32 \<Rightarrow> u32 \<Rightarrow> 'd \<Rightarrow> 'd) \<Rightarrow> (u32 \<Rightarrow> 'd \<Rightarrow> u32) \<Rightarrow> (string \<Rightarrow> int \<Rightarrow> u32) \<Rightarrow> u32 \<Rightarrow> bool \<Rightarrow>
   string list \<Rightarrow> 'd mm \<Rightarrow> (int \<times> 'd mm) option" where
  "mm_main wr rd stou base bare argv s =
     (case mm_init wr rd stou base bare argv s of
        None \<Rightarrow> None
      | Some (rc, s1) \<Rightarrow> if rc \<noteq> 0 then Some (rc, s1) else Some (mm_deinit (mm_loop wr rd s1)))"

subsection \<open>The driver over any device\<close>

context mm_device
begin

lemma zero_product: "prod_lo 0 0 = 0" "prod_hi 0 0 = 0"
  by (simp_all add: prod_lo_def prod_hi_def dot_def sum2 pack16_def byte_of_def)

lemma clear_returns:
  assumes "ok d"
  shows "wait_clear rd (wr MATB 0 (wr MATA 0 d)) = Some (wr MATB 0 (wr MATA 0 d))"
  using assms by (simp add: wait_clear.simps rd_lo rd_hi zero_product)

lemma ok_pair: "ok d \<Longrightarrow> ok (wr MATB b (wr MATA a d))"
  by (simp add: ok_wr)

lemma body_step:
  "ok (dev s) \<Longrightarrow>
   mm_body wr rd s = s\<lparr>dev := wr MATB (matB s) (wr MATA (matA s) (dev s)),
                       lRes := prod_lo (matA s) (matB s), hRes := prod_hi (matA s) (matB s)\<rparr>"
  by (simp add: mm_body_def Let_def rd_lo rd_hi)

lemma body_again: "ok (dev s) \<Longrightarrow> mm_body wr rd (mm_body wr rd s) = mm_body wr rd s"
  by (simp add: body_step ok_pair wr_idem)

lemma body_power: "ok (dev s) \<Longrightarrow> (mm_body wr rd ^^ Suc n) s = mm_body wr rd s"
  by (induction n) (simp_all add: body_again)

lemma loop_result:
  assumes "ok (dev s)"
  shows "mm_loop wr rd s = (if iters s = 0 then s else mm_body wr rd s)"
proof (cases "unat (iters s)")
  case 0
  then show ?thesis by (simp add: mm_loop_def unat_eq_0)
next
  case (Suc n)
  then have "iters s \<noteq> 0" by auto
  with Suc assms show ?thesis by (simp add: mm_loop_def body_power del: funpow.simps)
qed

lemma init_fields:
  assumes "ok (dev s)" and "3 \<le> length argv" and "length argv \<le> 5" and "base \<noteq> 0"
  shows "\<exists>s'. mm_init wr rd stou base bare argv s = Some (0, s') \<and> ok (dev s') \<and>
           matA s' = stou (argv ! 1) 16 \<and> matB s' = stou (argv ! 2) 16 \<and>
           iters s' = (if length argv = 4 then stou (argv ! 3) 10 else 1) \<and>
           lRes s' = lRes s \<and> hRes s' = hRes s"
  using assms by (simp add: mm_init_def Let_def emit_def clear_returns ok_pair)

lemma init_usage:
  assumes "length argv < 3 \<or> 5 < length argv"
  shows "mm_init wr rd stou base bare argv s = Some (1, s\<lparr>log := log s @ [usage]\<rparr>)"
  using assms by (auto simp: mm_init_def emit_def)

lemma main_cases:
  assumes "ok (dev s)" and "3 \<le> length argv" and "length argv \<le> 5" and "base \<noteq> 0"
  shows "\<exists>s'. mm_main wr rd stou base bare argv s = Some (0, s') \<and>
           (if length argv = 4 \<and> stou (argv ! 3) 10 = 0 then lRes s' = lRes s \<and> hRes s' = hRes s
            else lRes s' = prod_lo (stou (argv ! 1) 16) (stou (argv ! 2) 16) \<and>
                 hRes s' = prod_hi (stou (argv ! 1) 16) (stou (argv ! 2) 16))"
proof -
  from init_fields [OF assms] obtain s1 where
    "mm_init wr rd stou base bare argv s = Some (0, s1)" "ok (dev s1)"
    "matA s1 = stou (argv ! 1) 16" "matB s1 = stou (argv ! 2) 16"
    "iters s1 = (if length argv = 4 then stou (argv ! 3) 10 else 1)" "lRes s1 = lRes s" "hRes s1 = hRes s"
    by blast
  then show ?thesis
    by (auto simp: mm_main_def mm_deinit_def emit_def loop_result body_step)
qed

text \<open>The whole program: its result registers hold the product, whatever the iteration count above 0.\<close>

lemma main_result:
  assumes "ok (dev s)" and "3 \<le> length argv" and "length argv \<le> 5" and "base \<noteq> 0"
    and "length argv \<noteq> 4 \<or> stou (argv ! 3) 10 \<noteq> 0"
  shows "\<exists>s'. mm_main wr rd stou base bare argv s = Some (0, s') \<and>
           lRes s' = prod_lo (stou (argv ! 1) 16) (stou (argv ! 2) 16) \<and>
           hRes s' = prod_hi (stou (argv ! 1) 16) (stou (argv ! 2) 16)"
  using main_cases [OF assms(1-4), of stou bare] assms(5) by auto

end

subsection \<open>Both devices keep the promise\<close>

lemma tlm_offsets [simp]:
  "(MEM_BASE + 4) XOR MEM_BASE = 4" "(MEM_BASE + 8) XOR MEM_BASE = 8" "(MEM_BASE + 12) XOR MEM_BASE = 12"
  by (simp_all add: MEM_BASE_def)

lemma bytes4_nth [simp]: "n < 4 \<Longrightarrow> bytes4 w ! n = byte_of w n"
  by (simp add: bytes4_def)

lemma nths4: "[a, b, c, d] ! 2 = c" "[a, b, c, d] ! 3 = d"
  by (simp_all add: numeral_2_eq_2 numeral_3_eq_3)

lemma upds4:
  "[a, b, c, d][0 := x] = [x, b, c, d]" "[a, b, c, d][Suc 0 := x] = [a, x, c, d]"
  "[a, b, c, d][2 := x] = [a, b, x, d]" "[a, b, c, d][3 := x] = [a, b, c, x]"
  by (simp_all add: numeral_2_eq_2 numeral_3_eq_3)

lemma matrix_multiply_words:
  "matrix_multiply [a, b, l, h] = [a, b, prod_lo a b, prod_hi a b]"
  by (simp add: matrix_multiply_def Let_def mm_res_dot nths4 upds4 prod_lo_def prod_hi_def)

lemma off_index:
  "unat MATA div 4 = 0" "unat MATB div 4 = Suc 0" "unat RES_LO div 4 = 2" "unat RES_HI div 4 = 3"
  by (simp_all add: mm_offsets)

lemma pure_access:
  "pure_write MATA x [a, b, l, h] = [x, b, prod_lo x b, prod_hi x b]"
  "pure_write MATB x [a, b, l, h] = [a, x, prod_lo a x, prod_hi a x]"
  "pure_read RES_LO [a, b, l, h] = l" "pure_read RES_HI [a, b, l, h] = h"
  by (simp_all only: pure_write_def pure_read_def off_index upds4 nths4 matrix_multiply_words)

lemma length4E: "length d = 4 \<Longrightarrow> \<exists>w x y z. d = [w, x, y, z]"
  by (auto simp: numeral_eq_Suc length_Suc_conv)

interpretation pure: mm_device pure_write pure_read "\<lambda>d. length d = 4"
  by unfold_locales (auto dest!: length4E simp: pure_access)

lemma dot_bytes4:
  "i < 2 \<Longrightarrow> j < 2 \<Longrightarrow> dot ((!) (bytes4 a)) ((!) (bytes4 b)) i j = dot (byte_of a) (byte_of b) i j"
  by (simp add: dot_def sum2)

lemma txn_access:
  "txn_write MATA x dv = dv\<lparr>d_matA := bytes4 x, d_res := mm_res ((!) (bytes4 x)) ((!) (d_matB dv))\<rparr>"
  "txn_write MATB x dv = dv\<lparr>d_matB := bytes4 x, d_res := mm_res ((!) (d_matA dv)) ((!) (bytes4 x))\<rparr>"
  "txn_read RES_LO dv = pack16 (d_res dv ! 0) (d_res dv ! 1)"
  "txn_read RES_HI dv = pack16 (d_res dv ! 2) (d_res dv ! 3)"
  by (simp_all add: txn_write_def txn_read_def b_transact_def Let_def mm_offsets)

interpretation tlm: mm_device txn_write txn_read "\<lambda>d. True"
  by unfold_locales
    (simp_all add: txn_access mm_res_dot dot_bytes4 prod_lo_def prod_hi_def)

subsection \<open>The SystemC test bench (\<^verbatim>\<open>tlm/matMul.cpp\<close>)\<close>

text \<open>One iteration of the thread \<open>run\<close>: one buffer serves all four transactions.\<close>

record bench =
  b_lRes :: u32
  b_hRes :: u32
  b_dev :: tlm_dev

definition bench_body :: "u32 \<Rightarrow> u32 \<Rightarrow> bench \<Rightarrow> bench" where
  "bench_body a b s =
     (let (v1, d1) = b_transact True (MEM_BASE + ucast MATA) a (b_dev s);
          (v2, d2) = b_transact True (MEM_BASE + ucast MATB) b d1;
          (v3, d3) = b_transact False (MEM_BASE + ucast RES_LO) v2 d2;
          (v4, d4) = b_transact False (MEM_BASE + ucast RES_HI) v3 d3
      in s\<lparr>b_lRes := v3, b_hRes := v4, b_dev := d4\<rparr>)"

definition bench_run :: "u32 \<Rightarrow> u32 \<Rightarrow> u32 \<Rightarrow> bench" where
  "bench_run a b n =
     (bench_body a b ^^ unat n) \<lparr>b_lRes = 0, b_hRes = 0, b_dev = matMul_2x2_init\<rparr>"

text \<open>\<open>sc_main\<close>: the argument handling, then the simulation.\<close>

definition sc_main :: "(string \<Rightarrow> int \<Rightarrow> u32) \<Rightarrow> string list \<Rightarrow> int + bench" where
  "sc_main stou argv =
     (let argc = length argv in
      if argc < 3 \<or> argc > 5 then Inl 1
      else Inr (bench_run (stou (argv ! 1) 16) (stou (argv ! 2) 16)
                          (if argc = 4 then stou (argv ! 3) 10 else 1)))"

lemma bench_body_txn:
  "b_lRes (bench_body a b s) = txn_read RES_LO (txn_write MATB b (txn_write MATA a (b_dev s)))"
  "b_hRes (bench_body a b s) = txn_read RES_HI (txn_write MATB b (txn_write MATA a (b_dev s)))"
  by (simp_all add: bench_body_def txn_access) (simp_all add: b_transact_def Let_def mm_offsets)

lemma bench_body_result:
  "b_lRes (bench_body a b s) = prod_lo a b" "b_hRes (bench_body a b s) = prod_hi a b"
  by (simp_all add: bench_body_txn tlm.rd_lo tlm.rd_hi)

lemma bench_run_result:
  "b_lRes (bench_run a b n) = (if n = 0 then 0 else prod_lo a b)"
  "b_hRes (bench_run a b n) = (if n = 0 then 0 else prod_hi a b)"
proof -
  have "n \<noteq> 0 \<Longrightarrow> \<exists>s. bench_run a b n = bench_body a b s"
    by (cases "unat n") (auto simp: bench_run_def unat_eq_0)
  then show "b_lRes (bench_run a b n) = (if n = 0 then 0 else prod_lo a b)"
    "b_hRes (bench_run a b n) = (if n = 0 then 0 else prod_hi a b)"
    by (auto simp: bench_body_result) (simp_all add: bench_run_def)
qed

subsection \<open>The programs, and their properties\<close>

text \<open>The C program is the driver over the software device.\<close>

definition pure_main ::
  "(string \<Rightarrow> int \<Rightarrow> u32) \<Rightarrow> u32 \<Rightarrow> string list \<Rightarrow> u32 list mm \<Rightarrow> (int \<times> u32 list mm) option" where
  "pure_main stou base argv s = mm_main pure_write pure_read stou base False argv s"

lemma sc_main_result:
  assumes "3 \<le> length argv" and "length argv \<le> 5" and "length argv \<noteq> 4 \<or> stou (argv ! 3) 10 \<noteq> 0"
  shows "\<exists>t. sc_main stou argv = Inr t \<and> b_lRes t = prod_lo (stou (argv ! 1) 16) (stou (argv ! 2) 16) \<and>
           b_hRes t = prod_hi (stou (argv ! 1) 16) (stou (argv ! 2) 16)"
  using assms by (auto simp: sc_main_def bench_run_result)

lemma uint16_word_of_int: "uint (word_of_int x :: u16) = x mod 65536"
  by (simp add: uint_word_of_int)

lemma dot_bounds:
  assumes "\<And>n. uint (a n) \<le> m" and "\<And>n. uint (b n) \<le> m" and "0 \<le> m"
  shows "0 \<le> dot a b i j" "dot a b i j \<le> 2 * (m * m)"
proof -
  have "uint (a x) * uint (b y) \<le> m * m" for x y
    using assms by (intro mult_mono) auto
  from this [of "i * 2" j] this [of "Suc (i * 2)" "Suc (Suc j)"]
  show "dot a b i j \<le> 2 * (m * m)" by (simp add: dot_def sum2)
  show "0 \<le> dot a b i j" by (simp add: dot_def sum2)
qed

text \<open>C6: The multiply loop computes every entry of the 2x2 product modulo 65536; the entry is
  exact when no input byte exceeds 181, and it is not exact in general (the accumulators are 16 bits
  wide while a full-range entry needs 17), as the all-ones matrices show.\<close>

theorem mm_res_entries:
  "(\<forall>a b. \<forall>i<2. \<forall>j<2. uint (mm_res a b ! (i * 2 + j)) = dot a b i j mod 65536) \<and>
   (\<forall>a b. (\<forall>n. uint (a n) \<le> 181 \<and> uint (b n) \<le> 181) \<longrightarrow>
      (\<forall>i<2. \<forall>j<2. uint (mm_res a b ! (i * 2 + j)) = dot a b i j)) \<and>
   uint (mm_res (\<lambda>_. 255) (\<lambda>_. 255) ! 0) = 64514 \<and> dot (\<lambda>_. 255) (\<lambda>_. 255) 0 0 = 130050"
proof -
  have A: "uint (mm_res a b ! (i * 2 + j)) = dot a b i j mod 65536" if "i < 2" "j < 2" for a b i j
    using that by (auto simp: mm_res_dot less_2_cases_iff nths4 uint16_word_of_int)
  have B: "uint (mm_res a b ! (i * 2 + j)) = dot a b i j"
    if "\<forall>n. uint (a n) \<le> 181 \<and> uint (b n) \<le> 181" and ij: "i < 2" "j < 2" for a b i j
    using A [OF ij, of a b] dot_bounds [of a 181 b i j] that(1) by simp
  have C: "dot (\<lambda>_. 255) (\<lambda>_. 255) 0 0 = 130050" by (simp add: dot_def sum2)
  then have "uint (mm_res (\<lambda>_. 255) (\<lambda>_. 255) ! 0) = 64514"
    using A [of 0 0 "\<lambda>_. 255" "\<lambda>_. 255"] by simp
  with A B C show ?thesis by blast
qed

theorem mm_res_entries_witness:
  "uint (mm_res (\<lambda>_. 181) (\<lambda>_. 181) ! 3) = 65522"
proof -
  have "\<forall>i<2. \<forall>j<2. uint (mm_res (\<lambda>_. 181) (\<lambda>_. 181) ! (i * 2 + j)) = dot (\<lambda>_. 181) (\<lambda>_. 181) i j"
    using mm_res_entries [THEN conjunct2, THEN conjunct1] by simp
  from this [rule_format, of 1 1] show ?thesis by (simp add: dot_def sum2)
qed

text \<open>C5: The pure C program, run with two or three numeric arguments (a third one not zero) on the
  four-word data area, returns 0 and leaves the product of its two arguments, low and high word, in
  lRes and hRes: the wait for cleared results ends and extra iterations change nothing.\<close>

theorem pure_main_product:
  assumes "length (dev s) = 4" and "3 \<le> length argv" and "length argv \<le> 5" and "base \<noteq> 0"
    and "length argv \<noteq> 4 \<or> stou (argv ! 3) 10 \<noteq> 0"
  shows "\<exists>s'. pure_main stou base argv s = Some (0, s') \<and>
           lRes s' = prod_lo (stou (argv ! 1) 16) (stou (argv ! 2) 16) \<and>
           hRes s' = prod_hi (stou (argv ! 1) 16) (stou (argv ! 2) 16)"
  unfolding pure_main_def using assms by (intro pure.main_result) simp_all

definition mm0 :: "'d \<Rightarrow> 'd mm" where
  "mm0 d = \<lparr>dev = d, matA = 0, matB = 0, iters = 0, lRes = 0, hRes = 0, log = []\<rparr>"

text \<open>A stand-in for \<^verbatim>\<open>strtoul\<close> in the witnesses: the three arguments of the \<^verbatim>\<open>run\<close> target.\<close>

definition stou_ex :: "string \<Rightarrow> int \<Rightarrow> u32" where
  "stou_ex t base = (if t = ''0x01020304'' then 0x01020304 else if t = ''0x02000002'' then 0x02000002 else 7)"

theorem pure_main_product_witness:
  "\<exists>s'. pure_main stou_ex 0x1000 [''matMul'', ''0x01020304'', ''0x02000002'', ''7''] (mm0 [0, 0, 0, 0]) = Some (0, s') \<and>
     lRes s' = 0x00060008 \<and> hRes s' = 0x00020004"
proof -
  have "prod_lo 0x01020304 0x02000002 = 0x00060008" "prod_hi 0x01020304 0x02000002 = 0x00020004"
    by (simp_all add: prod_lo_def prod_hi_def dot_def sum2 pack16_def byte_of_def)
  then show ?thesis
    using pure_main_product [where s = "mm0 [0, 0, 0, 0]" and base = "0x1000" and stou = stou_ex
        and argv = "[''matMul'', ''0x01020304'', ''0x02000002'', ''7'']"]
    by (simp add: mm0_def stou_ex_def nths4)
qed

text \<open>The pure C program and the SystemC test bench agree on every argument vector, from the zero result
  words with which both start: either both refuse it with the code 1, or both end and leave the same two
  result words (no word is computed when the iteration count is 0).\<close>

lemma drivers_agree:
  assumes "length (dev s) = 4" and "lRes s = 0" and "hRes s = 0" and "base \<noteq> 0"
  shows "\<exists>rc s1. pure_main stou base argv s = Some (rc, s1) \<and>
           (case sc_main stou argv of
              Inl rc' \<Rightarrow> rc = rc' \<and> rc = 1
            | Inr t \<Rightarrow> rc = 0 \<and> b_lRes t = lRes s1 \<and> b_hRes t = hRes s1)"
proof (cases "length argv < 3 \<or> 5 < length argv")
  case True
  then show ?thesis by (simp add: pure_main_def mm_main_def pure.init_usage sc_main_def)
next
  case False
  then show ?thesis
    using pure.main_cases [where s = s and argv = argv and base = base and stou = stou and bare = False] assms
    by (auto simp: pure_main_def sc_main_def bench_run_result split: if_splits)
qed

end
