(* ===== verification/ArmState.thy ===== *)
theory ArmState
  imports Prelude "HOL-Library.Monad_Syntax"
begin

unbundle bit_operations_syntax

text \<open>
  The ARM core of the simulator (\<^verbatim>\<open>vhls/src/arm/armisa.h\<close>, \<^verbatim>\<open>armisa.cpp\<close>): its registers with their banks,
  the processor modes, the condition flags, traps, branches and the moves to and from the status
  registers.  An assertion that fails is \<open>None\<close>.

  Statistics, instruction tracing, the analysis of register dependences and the calls of the branch
  predictor (which only count, since \<open>m_abtb\<close> is null unless a platform installs one) are left out.
  Signed arithmetic wraps.
\<close>

section \<open>State\<close>

datatype arm_bank = UserBank | FiqBank | SupervisorBank | AbortBank | IrqBank | UndefinedBank

datatype arm_mode = UserMode | FiqMode | IrqMode | SupervisorMode | AbortMode | UndefinedMode | SystemMode

datatype arm_vector = ResetVector | UndefinedVector | SwiVector | PrefetchVector | DataVector
  | ReservedVector | IrqVector | FiqVector

datatype arm_run_state = ResettingS | StartingS | RunningS | MidSingleS | MidHalfwordS | MidCoproXferS
  | MidMultipleS | MidMultiple2S

datatype arm_instr_type = UnknownT | AluT | ParallelAluT | MulT | MulLongT | SwapT | BxT | HalfwordRegT
  | HalfwordImmT | SingleT | SynchronisationT | UndefinedT | BlockT | BranchT | CoprocXferT | CoprocOpT
  | CoprocRegT | SwiT | TableBranchT | FloatT | ThumbExecutedT | ARM32ExecutedT | FloatMemoryT | FloatALUT

datatype mult_op = MULT_Signed | MULT_SignedLong | MULT_Unsigned | MULT_UnsignedLong

datatype wp_style = Watch | Break | SingleStep

datatype fmode = FMODE_logic32 | FMODE_arith32 | FMODE_logic64 | FMODE_arith64

datatype sim_command = CORE_HALT | SIM_DONE u32 | WRCH u32 | TRACE100 u32

type_synonym breakpoint = "u32 \<times> wp_style"

text \<open>The fields of the class that the modelled operations use.  Register numbers are \<open>nat\<close>, one-bit
  fields are \<open>bool\<close>; the two words of the union \<open>read_data\<close>, \<open>read_data64\<close> are the field \<open>read_data64\<close>.\<close>

record arm =
  m_core_no :: nat
  raw_reg :: "nat \<Rightarrow> u32"
  currentMode :: arm_mode
  currentBank :: arm_bank
  thumb_mode :: bool
  prev_thumb_mode :: bool
  ITSTATE :: u8
  vectorBase :: u32
  runstate :: arm_run_state
  instruction :: u32
  insAddress :: u32
  insDecodeT :: arm_instr_type
  insCcodeTest :: bool
  insWBdefault :: bool
  insS :: bool
  insRn :: nat
  insRd :: nat
  insRs :: nat
  insRm :: nat
  insRdHi :: nat
  insRdLo :: nat
  insOffset :: u32
  insP :: bool
  insU :: bool
  insW :: bool
  insL :: bool
  insB :: bool
  insAluOperand1 :: u32
  insAluOperand2 :: u32
  insShiftCarryOut :: bool
  insAluResult :: u32
  insAluResultHi :: u32
  insDataAddress :: u32
  insDataOffset :: u32
  insMultCount :: nat
  insMultWriteback :: u32
  insMultRegisters :: u16
  insSigned :: bool
  insEXCF :: bool
  insSUser :: bool
  insSizeCode :: nat
  insALUOpcode :: nat
  insShiftType :: nat
  insShiftComputed :: bool
  insShiftValue :: u32
  insMultAccum :: u64
  insMultOp :: mult_op
  insSWIArg :: u32
  read_data64 :: u64
  interrupt_wait :: nat
  wait_for_interrupt :: bool
  wait_for_event :: bool
  event_register :: bool
  last_event :: u32
  inter_core_event :: u32
  shutdown_sequence :: bool
  last_shutdown_sequence :: bool
  stop_after_ins_count :: int
  instruction_grace :: bool
  pc_breakpoints :: "breakpoint list"
  watchpoints :: "breakpoint list"
  sigval_trap :: bool
  sim_commands :: "sim_command list"
  reset_or_yield_countdown :: nat

abbreviation read_data :: "arm \<Rightarrow> u32" where "read_data k \<equiv> ucast (read_data64 k)"

definition MAX_BREAKPOINTS :: nat where "MAX_BREAKPOINTS = 4"
definition MAX_WATCHPOINTS :: nat where "MAX_WATCHPOINTS = 4"
definition ARM_PC_CORRECTION :: u32 where "ARM_PC_CORRECTION = 4"

abbreviation (input) SpReg :: nat where "SpReg \<equiv> 13"
abbreviation (input) LrReg :: nat where "LrReg \<equiv> 14"
abbreviation (input) PcReg :: nat where "PcReg \<equiv> 15"
abbreviation (input) CpsrReg :: nat where "CpsrReg \<equiv> 16"
abbreviation (input) SpsrReg :: nat where "SpsrReg \<equiv> 17"
abbreviation (input) UndefinedReg :: nat where "UndefinedReg \<equiv> 99"

section \<open>Bit fields\<close>

definition Bits :: "u32 \<Rightarrow> nat \<Rightarrow> nat \<Rightarrow> u32" where
  "Bits a bitno width = drop_bit bitno a AND mask width"

definition Bits4 :: "u32 \<Rightarrow> nat \<Rightarrow> nat" where
  "Bits4 a bitno = unat (drop_bit bitno a AND 15)"

definition Bit :: "u32 \<Rightarrow> nat \<Rightarrow> bool" where
  "Bit a bitno \<longleftrightarrow> drop_bit bitno a AND 1 \<noteq> 0"

definition Ror :: "u32 \<Rightarrow> nat \<Rightarrow> u32" where
  "Ror a count = (if count = 0 then a else drop_bit count a OR push_bit (32 - count) a)"

definition POS :: "u32 \<Rightarrow> bool" where "POS x \<longleftrightarrow> drop_bit 31 (NOT x) \<noteq> 0"
definition NEG :: "u32 \<Rightarrow> bool" where "NEG x \<longleftrightarrow> drop_bit 31 x \<noteq> 0"

definition sex16 :: "u32 \<Rightarrow> u32" where
  "sex16 d = (if d AND 0x8000 \<noteq> 0 then d OR 0xFFFF0000 else d)"

definition sex8 :: "u32 \<Rightarrow> u32" where
  "sex8 d = (if d AND 0x80 \<noteq> 0 then d OR 0xFFFFFF00 else d)"

section \<open>Registers and modes\<close>

text \<open>\<open>reg_slot\<close> is the place of a register in \<open>raw_reg\<close>, \<open>None\<close> when an assertion of \<^verbatim>\<open>armisa::Reg\<close> fails.
  Four-bit register numbers always have a place, as has the current status register; the saved status
  register has none in the user bank.\<close>

fun bank_no :: "arm_bank \<Rightarrow> nat" where
  "bank_no UserBank = 0"
| "bank_no FiqBank = 1"
| "bank_no SupervisorBank = 2"
| "bank_no AbortBank = 3"
| "bank_no IrqBank = 4"
| "bank_no UndefinedBank = 5"

definition reg_ix :: "arm_bank \<Rightarrow> nat \<Rightarrow> nat" where
  "reg_ix bank r =
    (if bank = UserBank \<or> r = 15 \<or> r = 16 then r
     else if bank = FiqBank then (if r < 8 then r else 18 + r)
     else if r < 13 then r else 18 * bank_no bank + r)"

definition reg_slot :: "arm_bank \<Rightarrow> nat \<Rightarrow> nat option" where
  "reg_slot bank r = (if r \<ge> 18 \<or> bank = UserBank \<and> r = 17 then None else Some (reg_ix bank r))"

definition rd :: "arm \<Rightarrow> nat \<Rightarrow> u32" where
  "rd k r = raw_reg k (reg_ix (currentBank k) r)"

definition wr :: "nat \<Rightarrow> u32 \<Rightarrow> arm \<Rightarrow> arm" where
  "wr r v k = k\<lparr>raw_reg := (raw_reg k)(reg_ix (currentBank k) r := v)\<rparr>"

definition raw_wr :: "nat \<Rightarrow> u32 \<Rightarrow> arm \<Rightarrow> arm" where
  "raw_wr r v k = k\<lparr>raw_reg := (raw_reg k)(r := v)\<rparr>"

definition spsr :: "arm \<Rightarrow> u32 option" where
  "spsr k = map_option (raw_reg k) (reg_slot (currentBank k) SpsrReg)"

definition NFlag :: "arm \<Rightarrow> bool" where "NFlag k \<longleftrightarrow> raw_reg k CpsrReg AND 0x80000000 \<noteq> 0"
definition ZFlag :: "arm \<Rightarrow> bool" where "ZFlag k \<longleftrightarrow> raw_reg k CpsrReg AND 0x40000000 \<noteq> 0"
definition CFlag :: "arm \<Rightarrow> bool" where "CFlag k \<longleftrightarrow> raw_reg k CpsrReg AND 0x20000000 \<noteq> 0"
definition VFlag :: "arm \<Rightarrow> bool" where "VFlag k \<longleftrightarrow> raw_reg k CpsrReg AND 0x10000000 \<noteq> 0"
definition IRQFlag :: "arm \<Rightarrow> bool" where "IRQFlag k \<longleftrightarrow> raw_reg k CpsrReg AND 0x80 \<noteq> 0"

fun mode_bank :: "arm_mode \<Rightarrow> arm_bank" where
  "mode_bank UserMode = UserBank"
| "mode_bank FiqMode = FiqBank"
| "mode_bank IrqMode = IrqBank"
| "mode_bank SupervisorMode = SupervisorBank"
| "mode_bank AbortMode = AbortBank"
| "mode_bank UndefinedMode = UndefinedBank"
| "mode_bank SystemMode = UserBank"

fun mode_bits :: "arm_mode \<Rightarrow> u32" where
  "mode_bits UserMode = 0x10"
| "mode_bits FiqMode = 0x11"
| "mode_bits IrqMode = 0x12"
| "mode_bits SupervisorMode = 0x13"
| "mode_bits AbortMode = 0x17"
| "mode_bits UndefinedMode = 0x1B"
| "mode_bits SystemMode = 0x1F"

text \<open>\<^verbatim>\<open>SetMode\<close>.  Entering IRQ mode also masks interrupts.\<close>

definition SetMode :: "arm_mode \<Rightarrow> bool \<Rightarrow> arm \<Rightarrow> arm" where
  "SetMode m thumb_flag k =
    (let cpsr = (raw_reg k CpsrReg AND 0xFFFFFFE0) OR mode_bits m;
         cpsr = (if m = IrqMode \<and> cpsr AND 0x80 = 0 then cpsr OR 0x80 else cpsr)
     in k\<lparr>prev_thumb_mode := thumb_mode k, thumb_mode := thumb_flag, currentMode := m,
          currentBank := mode_bank m, raw_reg := (raw_reg k)(CpsrReg := cpsr)\<rparr>)"

definition DecodeSetModeFromCpsr :: "arm \<Rightarrow> arm" where
  "DecodeSetModeFromCpsr k =
    (let m = rd k CpsrReg AND 31
     in if m = 0x10 then SetMode UserMode False k
        else if m = 0x11 then SetMode FiqMode False k
        else if m = 0x12 then SetMode IrqMode False k
        else if m = 0x13 then SetMode SupervisorMode False k
        else if m = 0x17 then SetMode AbortMode False k
        else if m = 0x1B then SetMode UndefinedMode False k
        else if m = 0x1F then SetMode SystemMode False k
        else k)"

definition iss_reset :: "arm \<Rightarrow> arm" where
  "iss_reset k =
    (let k = SetMode SystemMode False (k\<lparr>instruction := 0, raw_reg := (\<lambda>_. 0)\<rparr>);
         k = wr CpsrReg (rd k CpsrReg OR 0xDF) k
     in (wr PcReg 0x20000 k)\<lparr>runstate := ResettingS\<rparr>)"

text \<open>The constructor; the fields it leaves uninitialised are 0 here.\<close>

definition arm_new :: "nat \<Rightarrow> arm" where
  "arm_new core_no =
    \<lparr>m_core_no = core_no, raw_reg = (\<lambda>_. 0), currentMode = UserMode, currentBank = UserBank,
     thumb_mode = False, prev_thumb_mode = False, ITSTATE = 0, vectorBase = 0, runstate = ResettingS,
     instruction = 0, insAddress = 0, insDecodeT = UnknownT, insCcodeTest = False, insWBdefault = False,
     insS = False, insRn = 0, insRd = 0, insRs = 0, insRm = 0, insRdHi = 0, insRdLo = 0, insOffset = 0,
     insP = False, insU = False, insW = False, insL = False, insB = False, insAluOperand1 = 0,
     insAluOperand2 = 0, insShiftCarryOut = False, insAluResult = 0, insAluResultHi = 0,
     insDataAddress = 0, insDataOffset = 0, insMultCount = 0, insMultWriteback = 0,
     insMultRegisters = 0, insSigned = False, insEXCF = False, insSUser = False, insSizeCode = 0,
     insALUOpcode = 0, insShiftType = 0, insShiftComputed = False, insShiftValue = 0, insMultAccum = 0,
     insMultOp = MULT_Signed, insSWIArg = 0, read_data64 = 0, interrupt_wait = 0,
     wait_for_interrupt = False, wait_for_event = False, event_register = False, last_event = 0,
     inter_core_event = 0, shutdown_sequence = False, last_shutdown_sequence = False,
     stop_after_ins_count = -1, instruction_grace = False, pc_breakpoints = [], watchpoints = [],
     sigval_trap = False, sim_commands = [], reset_or_yield_countdown = 0\<rparr>"

section \<open>Flags and conditions\<close>

definition DecodeCcode :: "nat \<Rightarrow> arm \<Rightarrow> arm option" where
  "DecodeCcode conder k =
    map_option (\<lambda>t. k\<lparr>insCcodeTest := t\<rparr>)
     (if conder = 0 then Some (ZFlag k)
      else if conder = 1 then Some (\<not> ZFlag k)
      else if conder = 2 then Some (CFlag k)
      else if conder = 3 then Some (\<not> CFlag k)
      else if conder = 4 then Some (NFlag k)
      else if conder = 5 then Some (\<not> NFlag k)
      else if conder = 6 then Some (VFlag k)
      else if conder = 7 then Some (\<not> VFlag k)
      else if conder = 8 then Some (CFlag k \<and> \<not> ZFlag k)
      else if conder = 9 then Some (\<not> CFlag k \<or> ZFlag k)
      else if conder = 10 then Some (NFlag k = VFlag k)
      else if conder = 11 then Some (NFlag k \<noteq> VFlag k)
      else if conder = 12 then Some (\<not> ZFlag k \<and> NFlag k = VFlag k)
      else if conder = 13 then Some (ZFlag k \<or> NFlag k \<noteq> VFlag k)
      else if conder = 14 then Some True
      else None)"

definition flag_bits :: "bool \<Rightarrow> bool \<Rightarrow> bool \<Rightarrow> bool \<Rightarrow> u32" where
  "flag_bits n z c v = push_bit 31 (of_bool n) + push_bit 30 (of_bool z) + push_bit 29 (of_bool c)
     + push_bit 28 (of_bool v)"

text \<open>\<^verbatim>\<open>updateFlags\<close>: the modes for 64-bit results end in a failed assertion.  (Their \<open>newN\<close>, a comparison
  of an unsigned result with zero, is never used.)\<close>

definition updateFlags :: "fmode \<Rightarrow> bool \<Rightarrow> bool \<Rightarrow> arm \<Rightarrow> arm option" where
  "updateFlags fmode carry overflow k =
    (let newN = Bit (insAluResult k) 31; newZ = (insAluResult k = 0)
     in case fmode of
          FMODE_arith32 \<Rightarrow>
            Some (if insRd k \<noteq> 15 \<or> \<not> insWBdefault k
                  then wr CpsrReg ((rd k CpsrReg AND 0x0FFFFFFF) OR flag_bits newN newZ carry overflow) k
                  else k)
        | FMODE_logic32 \<Rightarrow>
            Some (wr CpsrReg ((rd k CpsrReg AND 0x1FFFFFFF)
                    OR flag_bits newN newZ (insShiftCarryOut k) False) k)
        | FMODE_logic64 \<Rightarrow> None
        | FMODE_arith64 \<Rightarrow> None)"

section \<open>Traps and branches\<close>

fun vector_address :: "arm_vector \<Rightarrow> u32" where
  "vector_address ResetVector = 0xFFFF0000"
| "vector_address UndefinedVector = 0xFFFF0004"
| "vector_address SwiVector = 0xFFFF0008"
| "vector_address PrefetchVector = 0xFFFF000C"
| "vector_address DataVector = 0xFFFF0010"
| "vector_address ReservedVector = 0xFFFF0014"
| "vector_address IrqVector = 0xFFFF0018"
| "vector_address FiqVector = 0xFFFF001C"

definition InITBlock :: "arm \<Rightarrow> bool" where "InITBlock k \<longleftrightarrow> ITSTATE k AND 0xF \<noteq> 0"

definition DecodeTrap :: "arm_mode \<Rightarrow> arm_vector \<Rightarrow> arm \<Rightarrow> arm option" where
  "DecodeTrap m vector k =
    (let newpc = vector_address vector + vectorBase k + ARM_PC_CORRECTION;
         prev_cpsr = rd k CpsrReg;
         prev_pc = rd k PcReg
           + (if thumb_mode k \<and> rd k PcReg - ARM_PC_CORRECTION - insAddress k = 2 then 2 else 0)
     in do {
       k \<leftarrow> (if thumb_mode k
             then if InITBlock k then None
                  else Some (wr CpsrReg (rd k CpsrReg AND NOT (push_bit 5 1)) k)
             else Some k);
       let k = wr LrReg prev_pc (SetMode m False k);
       slot \<leftarrow> reg_slot (currentBank k) SpsrReg;
       Some (wr PcReg newpc (raw_wr slot prev_cpsr k))
     })"

definition ExecuteBL :: "u32 \<Rightarrow> arm \<Rightarrow> arm" where
  "ExecuteBL dest k =
    wr PcReg (dest + ARM_PC_CORRECTION)
      (if insL k
       then wr LrReg (if \<not> thumb_mode k then rd k PcReg - ARM_PC_CORRECTION
                      else ((rd k PcReg - 2) AND NOT 1) OR 1) k
       else k)"

text \<open>\<^verbatim>\<open>hw_interrupt\<close> returns whether the interrupt was taken.\<close>

definition hw_interrupt :: "arm \<Rightarrow> (bool \<times> arm) option" where
  "hw_interrupt k =
    (if currentMode k \<noteq> IrqMode \<and> \<not> IRQFlag k \<and> currentMode k \<noteq> FiqMode
     then if runstate k \<noteq> RunningS then Some (False, k\<lparr>interrupt_wait := interrupt_wait k + 1\<rparr>)
          else map_option (Pair True)
                 (DecodeTrap IrqMode IrqVector
                   (if interrupt_wait k > 0 then k\<lparr>interrupt_wait := 0\<rparr> else k))
     else Some (False, k))"

section \<open>Status registers\<close>

definition DecodeMrs :: "arm \<Rightarrow> arm option" where
  "DecodeMrs k =
    do { v \<leftarrow> (if Bit (instruction k) 22 then spsr k else Some (rd k CpsrReg));
         Some (wr (Bits4 (instruction k) 12) v (k\<lparr>insAluResult := v\<rparr>)) }"

definition psr_mask :: "nat \<Rightarrow> u32" where
  "psr_mask msk = (if odd msk then 0xFF else 0) OR (if odd (msk div 2) then 0xFF00 else 0)
     OR (if odd (msk div 4) then 0xFF0000 else 0) OR (if odd (msk div 8) then 0xFF000000 else 0)"

text \<open>An immediate with rotation 0 is shifted left by 32 in the source, which is undefined: the host
  shifts by 0, and so does the model.\<close>

definition DecodeMsr :: "nat \<Rightarrow> arm \<Rightarrow> arm option" where
  "DecodeMsr msk k =
    (let Pd = Bit (instruction k) 22;
         imm = Bits (instruction k) 0 8;
         rotate = 2 * Bits4 (instruction k) 8;
         v = (if \<not> Bit (instruction k) 25 then rd k (Bits4 (instruction k) 0)
              else drop_bit rotate imm OR push_bit ((32 - rotate) mod 32) imm);
         k = k\<lparr>insAluResult := v\<rparr>
     in do {
       slot \<leftarrow> (if Pd then reg_slot (currentBank k) SpsrReg else Some CpsrReg);
       let k = raw_wr slot ((v AND psr_mask msk) OR (raw_reg k slot AND NOT (psr_mask msk))) k;
       Some (if Pd then k else DecodeSetModeFromCpsr k)
     })"

section \<open>Breakpoints and watchpoints\<close>

text \<open>The arrays with their counts of active entries are lists.  Both searches of \<^verbatim>\<open>set_breakpoint\<close> and
  \<^verbatim>\<open>set_watchpoint\<close> stop at the first entry for the address.\<close>

fun restyle :: "u32 \<Rightarrow> wp_style \<Rightarrow> breakpoint list \<Rightarrow> breakpoint list option" where
  "restyle addr st [] = None"
| "restyle addr st ((a, s) # bs) =
    (if a = addr then Some ((a, st) # bs) else map_option ((#) (a, s)) (restyle addr st bs))"

definition add_point :: "nat \<Rightarrow> u32 \<Rightarrow> wp_style \<Rightarrow> breakpoint list \<Rightarrow> int \<times> breakpoint list" where
  "add_point limit addr st bs =
    (case restyle addr st bs of
       Some bs' \<Rightarrow> (0, bs')
     | None \<Rightarrow> if length bs < limit then (0, bs @ [(addr, st)]) else (-1, bs))"

definition set_breakpoint :: "u32 \<Rightarrow> wp_style \<Rightarrow> arm \<Rightarrow> int \<times> arm" where
  "set_breakpoint addr st k =
    (case add_point MAX_BREAKPOINTS addr st (pc_breakpoints k) of
       (rc, bs) \<Rightarrow> (rc, k\<lparr>instruction_grace := True, pc_breakpoints := bs\<rparr>))"

definition set_watchpoint :: "u32 \<Rightarrow> wp_style \<Rightarrow> arm \<Rightarrow> int \<times> arm" where
  "set_watchpoint addr st k =
    (case add_point MAX_WATCHPOINTS addr st (watchpoints k) of (rc, bs) \<Rightarrow> (rc, k\<lparr>watchpoints := bs\<rparr>))"

definition point_index :: "u32 \<Rightarrow> breakpoint list \<Rightarrow> nat" where
  "point_index addr bs = length (takeWhile (\<lambda>p. fst p \<noteq> addr) bs)"

text \<open>\<^verbatim>\<open>delete_breakpoint\<close> with an index (\<open>n \<ge> 0\<close>) or an address.\<close>

definition delete_breakpoint :: "u32 \<Rightarrow> int \<Rightarrow> arm \<Rightarrow> (int \<times> arm) option" where
  "delete_breakpoint addr specific_which k =
    (let bs = pc_breakpoints k;
         n = (if specific_which < 0 then point_index addr bs else nat specific_which)
     in if specific_which < 0 \<and> n = length bs then Some (-2, k)
        else if n \<ge> length bs then None
        else Some (0, k\<lparr>pc_breakpoints := take n bs @ drop (Suc n) bs\<rparr>))"

section \<open>Lemmas\<close>

named_theorems arm_flags \<open>the condition flags as bits of the status register\<close>

lemma Bit_iff: "Bit a n \<longleftrightarrow> bit a n"
  by (simp add: Bit_def and_one_eq bit_iff_odd_drop_bit odd_iff_mod_2_eq_one)

lemma NEG_iff: "NEG a \<longleftrightarrow> bit a 31"
proof -
  have "drop_bit 31 a AND 1 = drop_bit 31 a" for a :: u32
    by (rule bit_eqI) (auto simp: bit_simps dest: bit_imp_le_length)
  then show ?thesis
    using Bit_iff [of a 31] by (simp add: NEG_def Bit_def)
qed

lemma POS_iff: "POS a \<longleftrightarrow> \<not> bit a 31"
  using NEG_iff [of "NOT a"] by (simp add: POS_def NEG_def bit_not_iff)

lemma NFlag_iff [arm_flags]: "NFlag k \<longleftrightarrow> bit (raw_reg k CpsrReg) 31"
  and ZFlag_iff [arm_flags]: "ZFlag k \<longleftrightarrow> bit (raw_reg k CpsrReg) 30"
  and CFlag_iff [arm_flags]: "CFlag k \<longleftrightarrow> bit (raw_reg k CpsrReg) 29"
  and VFlag_iff [arm_flags]: "VFlag k \<longleftrightarrow> bit (raw_reg k CpsrReg) 28"
  and IRQFlag_iff [arm_flags]: "IRQFlag k \<longleftrightarrow> bit (raw_reg k CpsrReg) 7"
  using and_exp_eq_0_iff_not_bit [of "raw_reg k CpsrReg" 31] and_exp_eq_0_iff_not_bit [of "raw_reg k CpsrReg" 30]
    and_exp_eq_0_iff_not_bit [of "raw_reg k CpsrReg" 29] and_exp_eq_0_iff_not_bit [of "raw_reg k CpsrReg" 28]
    and_exp_eq_0_iff_not_bit [of "raw_reg k CpsrReg" 7]
  by (simp_all add: NFlag_def ZFlag_def CFlag_def VFlag_def IRQFlag_def)

lemma flag_bits_bit [arm_flags]:
  "bit (flag_bits n z c v) 31 \<longleftrightarrow> n" "bit (flag_bits n z c v) 30 \<longleftrightarrow> z"
  "bit (flag_bits n z c v) 29 \<longleftrightarrow> c" "bit (flag_bits n z c v) 28 \<longleftrightarrow> v"
  by (cases n; cases z; cases c; cases v; simp add: flag_bits_def)+

lemma flag_bits_low [arm_flags]:
  assumes "i < 28"
  shows "\<not> bit (flag_bits n z c v) i"
proof -
  have "take_bit 28 (flag_bits n z c v) = 0"
    by (cases n; cases z; cases c; cases v; simp add: flag_bits_def)
  then have "\<not> bit (take_bit 28 (flag_bits n z c v)) i" by simp
  then show ?thesis using assms by (simp add: bit_take_bit_iff)
qed

lemma reg_ix_status [simp]: "reg_ix bank 15 = 15" "reg_ix bank 16 = 16"
  by (simp_all add: reg_ix_def)

lemma reg_ix_eq [simp]:
  assumes "r < 17" "q < 17"
  shows "reg_ix bank r = reg_ix bank q \<longleftrightarrow> r = q"
  using assms by (cases bank) (auto simp: reg_ix_def)

lemma reg_ix_ne [simp]:
  assumes "r < 15"
  shows "reg_ix bank r \<noteq> 15" "reg_ix bank r \<noteq> 16" "15 \<noteq> reg_ix bank r" "16 \<noteq> reg_ix bank r"
  using assms by (cases bank; auto simp: reg_ix_def)+

lemma reg_ix_general [simp]:
  assumes "r < 16"
  shows "reg_ix bank r \<noteq> 16" "16 \<noteq> reg_ix bank r"
  using assms by (cases bank; auto simp: reg_ix_def)+

lemma wr_sel [simp]:
  "currentBank (wr r v k) = currentBank k" "currentMode (wr r v k) = currentMode k"
  "raw_reg (wr r v k) = (raw_reg k)(reg_ix (currentBank k) r := v)"
  by (simp_all add: wr_def)

lemma rd_wr: "r < 17 \<Longrightarrow> q < 17 \<Longrightarrow> rd (wr r v k) q = (if q = r then v else rd k q)"
  by (simp add: rd_def)

end
