(* ===== verification/ArmAlu.thy ===== *)
theory ArmAlu
  imports ArmState
begin

unbundle bit_operations_syntax

text \<open>
  Data processing on the ARM core (\<^verbatim>\<open>armisa.cpp\<close>): the barrel shifter, the arithmetic unit with its
  flags, the multiplier and the parallel addition; their agreement with the arithmetic of the
  architecture, the meaning of the conditions after a comparison, and where they differ.
\<close>

section \<open>The operations\<close>

text \<open>\<^verbatim>\<open>exec_shift_operand_instr\<close>: shift type, amount and carry flag to operand and carry out.\<close>

definition shifter :: "nat \<Rightarrow> u32 \<Rightarrow> nat \<Rightarrow> bool \<Rightarrow> u32 \<times> bool" where
  "shifter kind rm shift c =
    (if kind = 0 then
       (if shift = 0 then (rm, c)
        else if shift > 31 then (0, Bit rm 0)
        else (push_bit shift rm, Bit rm (32 - shift)))
     else if kind = 1 then
       (if shift = 0 then (rm, c)
        else if shift > 31 then (0, Bit rm 31)
        else (drop_bit shift rm, Bit rm (shift - 1)))
     else if kind = 2 then
       (if shift = 0 then (rm, c)
        else if shift > 31 then (0 - of_bool (Bit rm 31), Bit rm 31)
        else ((if Bit rm 31 then drop_bit shift rm OR push_bit (32 - shift) 0xFFFFFFFF
               else drop_bit shift rm), Bit rm (shift - 1)))
     else
       (let shift = shift mod 32
        in if shift = 0 then (rm, c) else (Ror rm shift, Bit rm (shift - 1))))"

definition exec_shift_operand_instr :: "arm \<Rightarrow> arm option" where
  "exec_shift_operand_instr k =
    (let shift = unat (if insShiftComputed k then insShiftValue k AND 255 else insShiftValue k);
         rm = (if insShiftComputed k \<and> insRm k = 15 then rd k (insRm k) + 4 else rd k (insRm k))
     in if insShiftType k > 3 then None
        else case shifter (insShiftType k) rm shift (CFlag k) of
               (v, c) \<Rightarrow> Some (k\<lparr>insAluOperand2 := v, insShiftCarryOut := c\<rparr>))"

definition uadd8_sum :: "u32 \<Rightarrow> u32 \<Rightarrow> nat \<Rightarrow> u32" where
  "uadd8_sum a b i = (drop_bit (8 * i) a AND 0xFF) + (drop_bit (8 * i) b AND 0xFF)"

definition exec_parallel_alu_operand_instr :: "arm \<Rightarrow> arm option" where
  "exec_parallel_alu_operand_instr k =
    (if insALUOpcode k \<noteq> 0 then None
     else let s = uadd8_sum (rd k (insRn k)) (rd k (insRm k));
              k = wr (insRd k) ((s 0 AND 0xFF) OR push_bit 8 (s 1 AND 0xFF)
                    OR push_bit 16 (s 2 AND 0xFF) OR push_bit 24 (s 3 AND 0xFF)) k;
              ge = (\<lambda>i cpsr. if s i \<ge> 256 then cpsr OR push_bit (16 + i) 1 else cpsr)
          in Some (wr CpsrReg (ge 3 (ge 2 (ge 1 (ge 0 (rd k CpsrReg AND 0xFFF0FFFF))))) k))"

text \<open>The sixteen operations: result, whether it is written back, whether the flags are arithmetic, carry
  and overflow.\<close>

definition sub_carry :: "u32 \<Rightarrow> u32 \<Rightarrow> bool" where "sub_carry a b \<longleftrightarrow> a \<ge> b"

definition sub_overflow :: "u32 \<Rightarrow> u32 \<Rightarrow> u32 \<Rightarrow> bool" where
  "sub_overflow a b r \<longleftrightarrow> NEG a \<and> POS b \<and> POS r \<or> POS a \<and> NEG b \<and> NEG r"

definition add_overflow :: "u32 \<Rightarrow> u32 \<Rightarrow> u32 \<Rightarrow> bool" where
  "add_overflow a b r \<longleftrightarrow> NEG a \<and> NEG b \<and> POS r \<or> POS a \<and> POS b \<and> NEG r"

record alu_out =
  alu_result :: u32
  alu_wb :: bool
  alu_arith :: bool
  alu_carry :: bool
  alu_overflow :: bool

abbreviation logic_out :: "u32 \<Rightarrow> bool \<Rightarrow> alu_out" where
  "logic_out r wb \<equiv> \<lparr>alu_result = r, alu_wb = wb, alu_arith = False, alu_carry = False, alu_overflow = False\<rparr>"

abbreviation arith_out :: "u32 \<Rightarrow> bool \<Rightarrow> bool \<Rightarrow> bool \<Rightarrow> alu_out" where
  "arith_out r wb c v \<equiv> \<lparr>alu_result = r, alu_wb = wb, alu_arith = True, alu_carry = c, alu_overflow = v\<rparr>"

definition alu_op :: "nat \<Rightarrow> u32 \<Rightarrow> u32 \<Rightarrow> bool \<Rightarrow> bool \<Rightarrow> u32 \<Rightarrow> alu_out" where
  "alu_op opc a b c thumb ins =
    (let cf = of_bool c
     in if opc = 0 then logic_out (a AND b) True
        else if opc = 1 then logic_out (a XOR b) True
        else if opc = 2 then let r = a - b in arith_out r True (sub_carry a b) (sub_overflow a b r)
        else if opc = 3 then let r = b - a in arith_out r True (sub_carry b a) (sub_overflow b a r)
        else if opc = 4 then let r = a + b in arith_out r True (r < a) (add_overflow a b r)
        else if opc = 5 then
          let r = a + b + cf in arith_out r True (if c then r \<le> a else r < a) (add_overflow a b r)
        else if opc = 6 then
          let r = a - b + cf - 1 in arith_out r True (if c then a \<ge> b else a > b) (sub_overflow a b r)
        else if opc = 7 then
          let r = b - a + cf - 1 in arith_out r True (if c then b \<ge> a else b > a) (sub_overflow b a r)
        else if opc = 8 then
          if \<not> thumb \<and> \<not> Bit ins 20
          then logic_out (push_bit 12 (of_nat (Bits4 ins 16)) OR Bits ins 0 12) True
          else logic_out (a AND b) False
        else if opc = 9 then logic_out (a XOR b) False
        else if opc = 10 then let r = a - b in arith_out r False (sub_carry a b) (sub_overflow a b r)
        else if opc = 11 then let r = a + b in arith_out r False (r < a) (add_overflow a b r)
        else if opc = 12 then logic_out (a OR b) True
        else if opc = 13 then logic_out b True
        else if opc = 14 then logic_out (a AND NOT b) True
        else logic_out (NOT b) True)"

text \<open>The write-back of a result: to the program counter it is a branch, with the S bit a return from an
  exception, which restores the current status register from the saved one.\<close>

definition alu_writeback :: "arm \<Rightarrow> arm option" where
  "alu_writeback k =
    (let r = insAluResult k; k = wr (insRd k) r k
     in if insRd k \<noteq> 15 then Some k
        else let k = wr (insRd k) (r + ARM_PC_CORRECTION) k
             in if \<not> insS k then Some k
                else do { newv \<leftarrow> spsr k; Some (DecodeSetModeFromCpsr (wr CpsrReg newv k)) })"

definition exec_alu_operand_instr :: "arm \<Rightarrow> arm option" where
  "exec_alu_operand_instr k =
    (if insALUOpcode k > 15 then None
     else
       let out = alu_op (insALUOpcode k) (insAluOperand1 k) (insAluOperand2 k) (CFlag k)
                   (thumb_mode k) (instruction k);
           k = k\<lparr>insAluResult := alu_result out, insWBdefault := alu_wb out\<rparr>
       in do {
         k \<leftarrow> (if insS k
               then updateFlags (if alu_arith out then FMODE_arith32 else FMODE_logic32)
                      (alu_carry out) (alu_overflow out) k
               else Some k);
         (if insWBdefault k then alu_writeback k else Some k)
       })"

definition exec_mul_operand_instr :: "arm \<Rightarrow> arm option" where
  "exec_mul_operand_instr k =
    (let long = (\<lambda>r :: u64. \<lambda>k.
           let k = k\<lparr>insAluResult := ucast r, insAluResultHi := ucast (drop_bit 32 r)\<rparr>
           in wr (insRdHi k) (insAluResultHi k) (wr (insRdLo k) (insAluResult k) k));
         (mode, k) = (case insMultOp k of
           MULT_Signed \<Rightarrow>
             let r = insAluOperand1 k * insAluOperand2 k + ucast (insMultAccum k)
             in (FMODE_logic32, wr (insRd k) r (k\<lparr>insAluResult := r\<rparr>))
         | MULT_SignedLong \<Rightarrow>
             (FMODE_logic64,
              long (scast (insAluOperand1 k) * scast (insAluOperand2 k) + insMultAccum k) k)
         | MULT_Unsigned \<Rightarrow>
             let r = insAluOperand1 k * insAluOperand2 k + ucast (insMultAccum k)
             in (FMODE_logic32, wr (insRd k) r (k\<lparr>insAluResult := r\<rparr>))
         | MULT_UnsignedLong \<Rightarrow>
             (FMODE_logic64,
              long (ucast (insAluOperand1 k) * ucast (insAluOperand2 k) + insMultAccum k) k));
         k = k\<lparr>insShiftCarryOut := CFlag k\<rparr>
     in if insS k then updateFlags mode False False k else Some k)"

section \<open>The arithmetic of the architecture\<close>

text \<open>The reference: the sum of two operands and a carry over the integers, once unsigned and once signed;
  subtraction adds the complement.\<close>

definition add_with_carry :: "u32 \<Rightarrow> u32 \<Rightarrow> bool \<Rightarrow> u32 \<times> bool \<times> bool" where
  "add_with_carry x y c =
    (let usum = uint x + uint y + of_bool c; ssum = sint x + sint y + of_bool c;
         r = word_of_int usum
     in (r, uint r \<noteq> usum, sint r \<noteq> ssum))"

definition arith_spec :: "nat \<Rightarrow> u32 \<Rightarrow> u32 \<Rightarrow> bool \<Rightarrow> u32 \<times> bool \<times> bool" where
  "arith_spec opc a b c =
    (if opc = 2 \<or> opc = 10 then add_with_carry a (NOT b) True
     else if opc = 3 then add_with_carry (NOT a) b True
     else if opc = 4 \<or> opc = 11 then add_with_carry a b False
     else if opc = 5 then add_with_carry a b c
     else if opc = 6 then add_with_carry a (NOT b) c
     else add_with_carry (NOT a) b c)"

lemma uint_add32: "uint (x + y :: u32) = (if uint x + uint y < 2 ^ 32 then uint x + uint y
    else uint x + uint y - 2 ^ 32)"
  using uint_bounded [of x] uint_bounded [of y] by (simp add: uint_plus_if' word_size)

lemma take_uint32: "take_bit 32 (uint (x :: u32)) = uint x"
  using uint_bounded [of x] by (simp add: take_bit_int_eq_self)

lemma uint_not32: "uint (NOT x :: u32) = 2 ^ 32 - 1 - uint x"
  by (simp add: unsigned_not_eq take_bit_not_eq_mask_diff mask_eq_exp_minus_1 take_uint32)

lemma bit31: "bit (x :: u32) 31 \<longleftrightarrow> 2 ^ 31 \<le> uint x"
proof -
  have "uint x div 2 ^ 31 = (if 2 ^ 31 \<le> uint x then 1 else 0)"
    using uint_bounded [of x] by (simp add: div_pos_pos_trivial int_div_pos_eq [of _ _ 1 "uint x - 2 ^ 31"])
  moreover have "bit x 31 \<longleftrightarrow> bit (uint x) 31" by (simp add: bit_uint_iff)
  moreover have "bit (uint x) 31 \<longleftrightarrow> odd (uint x div 2 ^ 31)" by (rule bit_iff_odd)
  ultimately show ?thesis by auto
qed

lemma sint32: "sint (x :: u32) = (if bit x 31 then uint x - 2 ^ 32 else uint x)"
  by (simp add: sint_uint signed_take_bit_eq_take_bit_minus bit_uint_iff take_uint32)

lemma word_of_int_sum:
  fixes x y :: u32
  shows "word_of_int (uint x + uint y + of_bool c) = x + y + of_bool c"
  by (simp add: of_bool_def)


lemma signed_overflow:
  fixes R X Y B :: int
  assumes "R = (if X + Y + B < 2 ^ 32 then X + Y + B else X + Y + B - 2 ^ 32)"
    "0 \<le> X" "X < 2 ^ 32" "0 \<le> Y" "Y < 2 ^ 32" "0 \<le> B" "B \<le> 1"
  shows "(if 2 ^ 31 \<le> R then R - 2 ^ 32 else R) \<noteq>
      (if 2 ^ 31 \<le> X then X - 2 ^ 32 else X) + (if 2 ^ 31 \<le> Y then Y - 2 ^ 32 else Y) + B
    \<longleftrightarrow> 2 ^ 31 \<le> X \<and> 2 ^ 31 \<le> Y \<and> \<not> 2 ^ 31 \<le> R \<or> \<not> 2 ^ 31 \<le> X \<and> \<not> 2 ^ 31 \<le> Y \<and> 2 ^ 31 \<le> R"
  using assms by (cases "X + Y + B < 2 ^ 32"; cases "2 ^ 31 \<le> X"; cases "2 ^ 31 \<le> Y"; cases "2 ^ 31 \<le> R")
    (auto split: if_splits)

lemma uint_sum32:
  fixes x y :: u32
  shows "uint (x + y + of_bool c) =
    (if uint x + uint y + of_bool c < 2 ^ 32 then uint x + uint y + of_bool c
     else uint x + uint y + of_bool c - 2 ^ 32)"
  using uint_bounded [of x] uint_bounded [of y] by (cases c) (auto simp: uint_add32)

lemma add_with_carry_eq:
  "add_with_carry x y c =
    (let r = x + y + of_bool c
     in (r, if c then r \<le> x else r < x, add_overflow x y r))"
proof -
  let ?r = "x + y + of_bool c"
  let ?b = "of_bool c :: int"
  have b: "uint x \<ge> 0" "uint x < 2 ^ 32" "uint y \<ge> 0" "uint y < 2 ^ 32" using uint_bounded [of x] uint_bounded [of y] by simp_all
  note r = uint_sum32 [of x y c]
  have carry: "uint ?r \<noteq> uint x + uint y + ?b \<longleftrightarrow> (if c then ?r \<le> x else ?r < x)"
  proof (cases c)
    case True
    with b r show ?thesis by (simp only: word_le_def if_True of_bool_eq split: if_splits) linarith+
  next
    case False
    with b r show ?thesis by (simp only: word_less_def if_False of_bool_eq split: if_splits) linarith+
  qed
  have v: "sint ?r \<noteq> sint x + sint y + ?b \<longleftrightarrow> add_overflow x y ?r"
  proof -
    have s: "sint x = (if 2 ^ 31 \<le> uint x then uint x - 2 ^ 32 else uint x)"
      "sint y = (if 2 ^ 31 \<le> uint y then uint y - 2 ^ 32 else uint y)"
      "sint ?r = (if 2 ^ 31 \<le> uint ?r then uint ?r - 2 ^ 32 else uint ?r)"
      by (simp_all only: sint32 bit31)
    have o: "add_overflow x y ?r \<longleftrightarrow> 2 ^ 31 \<le> uint x \<and> 2 ^ 31 \<le> uint y \<and> \<not> 2 ^ 31 \<le> uint ?r
        \<or> \<not> 2 ^ 31 \<le> uint x \<and> \<not> 2 ^ 31 \<le> uint y \<and> 2 ^ 31 \<le> uint ?r"
      by (simp only: add_overflow_def NEG_iff POS_iff bit31)
    have c: "0 \<le> ?b" "?b \<le> 1" by simp_all
    from signed_overflow [OF r b c] show ?thesis unfolding s o .
  qed
  show ?thesis using carry v by (simp add: add_with_carry_def word_of_int_sum Let_def)
qed

lemma add_with_carry_swap: "add_with_carry x y c = add_with_carry y x c"
  by (simp add: add_with_carry_def ac_simps)

lemma sub_overflow_add: "sub_overflow a b r \<longleftrightarrow> add_overflow a (NOT b) r"
  by (simp add: sub_overflow_def add_overflow_def NEG_iff POS_iff bit_not_iff)

lemma no_borrow:
  fixes A B R C :: int
  assumes "R = (if A + (2 ^ 32 - 1 - B) + C < 2 ^ 32 then A + (2 ^ 32 - 1 - B) + C
      else A + (2 ^ 32 - 1 - B) + C - 2 ^ 32)" "0 \<le> A" "A < 2 ^ 32" "0 \<le> B" "B < 2 ^ 32"
  shows "R \<noteq> A + (2 ^ 32 - 1 - B) + C \<longleftrightarrow> B + 1 - C \<le> A"
  using assms by (auto split: if_splits)

lemma sub_with_carry_eq:
  "add_with_carry a (NOT b) c =
    (let r = a - b + of_bool c - 1
     in (r, if c then a \<ge> b else a > b, sub_overflow a b r))"
proof -
  let ?r = "a + NOT b + of_bool c"
  have r: "?r = a - b + of_bool c - 1" by (simp add: not_eq_complement)
  have b: "uint a \<ge> 0" "uint a < 2 ^ 32" "uint b \<ge> 0" "uint b < 2 ^ 32"
    using uint_bounded [of a] uint_bounded [of b] by simp_all
  have carry: "uint ?r \<noteq> uint a + uint (NOT b) + of_bool c \<longleftrightarrow> (if c then a \<ge> b else a > b)"
    using no_borrow [OF uint_sum32 [of a "NOT b" c, unfolded uint_not32] b]
    by (cases c) (auto simp: uint_not32 word_le_def word_less_def)
  from add_with_carry_eq [of a "NOT b" c] carry show ?thesis
    by (simp add: add_with_carry_def word_of_int_sum sub_overflow_add r Let_def)
qed

text \<open>Every arithmetic operation of \<^verbatim>\<open>exec_alu_operand_instr\<close> computes the reference.\<close>

lemma alu_op_arith:
  assumes "opc \<in> {2, 3, 4, 5, 6, 7, 10, 11}"
  shows "alu_op opc a b c thumb ins =
    (case arith_spec opc a b c of (r, cy, ov) \<Rightarrow> arith_out r (opc < 8) cy ov)"
proof -
  note eqs = alu_op_def arith_spec_def sub_carry_def add_with_carry_eq [of a b] sub_with_carry_eq
    add_with_carry_swap [of "NOT a" b]
  from assms show ?thesis
    by (elim insertE) (simp_all add: eqs Let_def del: not_less not_le)
qed

section \<open>Instructions\<close>

lemma sint_neg_iff: "sint (r :: u32) < 0 \<longleftrightarrow> bit r 31"
  using bit_last_iff [of r] by simp

text \<open>Arithmetic with the S bit: the new flags, then the write-back.\<close>

lemma exec_alu_arith:
  assumes "insALUOpcode k \<in> {2, 3, 4, 5, 6, 7, 10, 11}" "insS k" "insRd k < 15"
    and spec: "arith_spec (insALUOpcode k) (insAluOperand1 k) (insAluOperand2 k) (CFlag k) = (r, cy, ov)"
  defines "wb \<equiv> insALUOpcode k < 8"
  defines "k1 \<equiv> k\<lparr>insAluResult := r, insWBdefault := wb\<rparr>"
  defines "k2 \<equiv> wr CpsrReg ((rd k1 CpsrReg AND 0x0FFFFFFF) OR flag_bits (bit r 31) (r = 0) cy ov) k1"
  shows "exec_alu_operand_instr k = Some (if wb then wr (insRd k) r k2 else k2)"
proof -
  have "\<not> insALUOpcode k > 15" using assms(1) by auto
  then show ?thesis
    using assms(2,3) alu_op_arith [OF assms(1), of "insAluOperand1 k" "insAluOperand2 k" "CFlag k"]
    by (simp add: exec_alu_operand_instr_def spec updateFlags_def alu_writeback_def Bit_iff Let_def
        k1_def k2_def wb_def wr_def)
qed

text \<open>C16: An arithmetic instruction with the S bit (SUB, RSB, ADD, ADC, SBC, RSC, CMP, CMN) leaves in the
  flags N, Z, C and V the sign, the zero test, the unsigned and the signed overflow of the sum over the
  integers, writes its result to the destination register (the comparisons do not), and changes no other
  register of any bank and no other bit of the status register.\<close>

theorem alu_arithmetic:
  assumes "insALUOpcode k \<in> {2, 3, 4, 5, 6, 7, 10, 11}" "insS k" "insRd k < 15"
    and "arith_spec (insALUOpcode k) (insAluOperand1 k) (insAluOperand2 k) (CFlag k) = (r, cy, ov)"
  shows "\<exists>k'. exec_alu_operand_instr k = Some k' \<and>
      (NFlag k' \<longleftrightarrow> sint r < 0) \<and> (ZFlag k' \<longleftrightarrow> r = 0) \<and> (CFlag k' \<longleftrightarrow> cy) \<and> (VFlag k' \<longleftrightarrow> ov) \<and>
      rd k' (insRd k) = (if insALUOpcode k < 8 then r else rd k (insRd k)) \<and>
      (\<forall>i. i \<noteq> CpsrReg \<longrightarrow> i \<noteq> reg_ix (currentBank k) (insRd k) \<longrightarrow> raw_reg k' i = raw_reg k i) \<and>
      (\<forall>i < 28. bit (raw_reg k' CpsrReg) i = bit (raw_reg k CpsrReg) i)"
proof -
  have "(0x0FFFFFFF :: int) = mask 28" by (simp add: mask_eq_exp_minus_1)
  then have low: "bit (0x0FFFFFFF :: int) i" if "i < 28" for i
    using that by (simp only: bit_mask_iff possible_bit_def) simp
  show ?thesis
    unfolding exec_alu_arith [OF assms]
    by (intro exI conjI allI impI, rule refl)
      (use assms in \<open>simp_all add: arm_flags rd_def bit_or_iff bit_and_iff low sint_neg_iff\<close>)
qed

theorem alu_arithmetic_witness:
  "\<exists>k'. exec_alu_operand_instr
      ((arm_new 0)\<lparr>insALUOpcode := 4, insS := True, insRd := 3, insAluOperand1 := 0x7FFFFFFF, insAluOperand2 := 1\<rparr>)
      = Some k' \<and> NFlag k' \<and> \<not> ZFlag k' \<and> \<not> CFlag k' \<and> VFlag k' \<and> rd k' 3 = 0x80000000"
proof -
  let ?k = "(arm_new 0)\<lparr>insALUOpcode := 4, insS := True, insRd := 3, insAluOperand1 := 0x7FFFFFFF, insAluOperand2 := 1\<rparr>"
  have "\<exists>k'. exec_alu_operand_instr ?k = Some k' \<and>
      (NFlag k' \<longleftrightarrow> sint (0x80000000 :: u32) < 0) \<and> (ZFlag k' \<longleftrightarrow> (0x80000000 :: u32) = 0) \<and> (CFlag k' \<longleftrightarrow> False) \<and>
      (VFlag k' \<longleftrightarrow> True) \<and>
      rd k' (insRd ?k) = (if insALUOpcode ?k < 8 then 0x80000000 else rd ?k (insRd ?k)) \<and>
      (\<forall>i. i \<noteq> CpsrReg \<longrightarrow> i \<noteq> reg_ix (currentBank ?k) (insRd ?k) \<longrightarrow> raw_reg k' i = raw_reg ?k i) \<and>
      (\<forall>i < 28. bit (raw_reg k' CpsrReg) i = bit (raw_reg ?k CpsrReg) i)"
    by (rule alu_arithmetic) (simp_all add: arith_spec_def add_with_carry_def arm_new_def)
  then show ?thesis by auto
qed

text \<open>What each condition says of the two operands of a comparison.\<close>

definition cond_holds :: "nat \<Rightarrow> u32 \<Rightarrow> u32 \<Rightarrow> bool" where
  "cond_holds cond a b \<longleftrightarrow>
    [a = b, a \<noteq> b, a \<ge> b, a < b, sint (a - b) < 0, sint (a - b) \<ge> 0,
     sint (a - b) \<noteq> sint a - sint b, sint (a - b) = sint a - sint b,
     a > b, a \<le> b, sint a \<ge> sint b, sint a < sint b, sint a > sint b, sint a \<le> sint b, True] ! cond"

lemma sint_eq: "sint (a :: u32) = sint b \<longleftrightarrow> a = b"
  by (metis signed_word_eqI)

lemma signed_diff:
  fixes X Y R :: int
  assumes "R = (if Y \<le> X then X - Y else X - Y + 2 ^ 32)" "0 \<le> X" "X < 2 ^ 32" "0 \<le> Y" "Y < 2 ^ 32"
    and "SX = (if 2 ^ 31 \<le> X then X - 2 ^ 32 else X)" "SY = (if 2 ^ 31 \<le> Y then Y - 2 ^ 32 else Y)"
    and "SR = (if 2 ^ 31 \<le> R then R - 2 ^ 32 else R)"
  shows "SR = SX - SY \<or> SR = SX - SY + 2 ^ 32 \<and> SX < SY \<and> SR \<ge> 0 \<or> SR = SX - SY - 2 ^ 32 \<and> SY < SX \<and> SR < 0"
  using assms by (auto split: if_splits)

lemma sint_diff_cases:
  fixes a b :: u32
  shows "sint (a - b) = sint a - sint b
    \<or> sint (a - b) = sint a - sint b + 2 ^ 32 \<and> sint a < sint b \<and> sint (a - b) \<ge> 0
    \<or> sint (a - b) = sint a - sint b - 2 ^ 32 \<and> sint b < sint a \<and> sint (a - b) < 0"
proof -
  have r: "uint (a - b) = (if uint b \<le> uint a then uint a - uint b else uint a - uint b + 2 ^ 32)"
    by (simp add: uint_sub_if')
  show ?thesis
    by (rule signed_diff [OF r])
      (use uint_bounded [of a] uint_bounded [of b] in \<open>simp_all add: sint32 bit31\<close>)
qed

lemma DecodeCcode_table:
  assumes "cond < 15"
  shows "DecodeCcode cond k = Some (k\<lparr>insCcodeTest :=
    [ZFlag k, \<not> ZFlag k, CFlag k, \<not> CFlag k, NFlag k, \<not> NFlag k, VFlag k, \<not> VFlag k,
     CFlag k \<and> \<not> ZFlag k, \<not> CFlag k \<or> ZFlag k, NFlag k = VFlag k, NFlag k \<noteq> VFlag k,
     \<not> ZFlag k \<and> NFlag k = VFlag k, ZFlag k \<or> NFlag k \<noteq> VFlag k, True] ! cond\<rparr>)"
proof -
  have "set [0..<15] = {0, 1, 2, 3, 4, 5, 6, 7, 8, 9, 10, 11, 12, 13, 14}" by code_simp
  moreover have "cond \<in> set [0..<15]" using assms by simp
  ultimately show ?thesis
    unfolding DecodeCcode_def by (simp only: insert_iff empty_iff) (elim disjE; simp)
qed

text \<open>C17: After a comparison of two register values, the condition of the next instruction holds exactly
  when its name says so of them (equal, unsigned higher, signed less, and so on), and the comparison
  changes no general register.\<close>

theorem compare_conditions:
  assumes "insALUOpcode k = 10" "insS k" "insRd k < 15" "cond < 15"
  shows "\<exists>k1 k2. exec_alu_operand_instr k = Some k1 \<and> DecodeCcode cond k1 = Some k2 \<and>
      insCcodeTest k2 = cond_holds cond (insAluOperand1 k) (insAluOperand2 k) \<and> (\<forall>r < 16. rd k2 r = rd k r)"
proof -
  let ?a = "insAluOperand1 k" and ?b = "insAluOperand2 k"
  have op: "insALUOpcode k \<in> {2, 3, 4, 5, 6, 7, 10, 11}" using assms(1) by simp
  have n: "sint (NOT ?b) = - sint ?b - 1" by (simp add: sint32 bit_not_iff uint_not32)
  have d: "?a + NOT ?b + 1 = ?a - ?b" by (simp add: not_eq_complement)
  have "sub_overflow ?a ?b (?a - ?b) \<longleftrightarrow> sint (?a + NOT ?b + 1) \<noteq> sint ?a + sint (NOT ?b) + 1"
    using sub_with_carry_eq [of ?a ?b True] by (simp add: add_with_carry_def Let_def)
  then have ov: "sub_overflow ?a ?b (?a - ?b) \<longleftrightarrow> sint (?a - ?b) \<noteq> sint ?a - sint ?b"
    by (simp only: n d) simp
  have spec: "arith_spec (insALUOpcode k) ?a ?b (CFlag k)
      = (?a - ?b, ?a \<ge> ?b, sint (?a - ?b) \<noteq> sint ?a - sint ?b)"
    using assms(1) ov by (simp add: arith_spec_def sub_with_carry_eq Let_def)
  define k1 where "k1 = the (exec_alu_operand_instr k)"
  have k1: "exec_alu_operand_instr k = Some k1" "NFlag k1 \<longleftrightarrow> sint (?a - ?b) < 0" "ZFlag k1 \<longleftrightarrow> ?a = ?b"
      "CFlag k1 \<longleftrightarrow> ?a \<ge> ?b" "VFlag k1 \<longleftrightarrow> sint (?a - ?b) \<noteq> sint ?a - sint ?b"
      "\<And>r. r < 16 \<Longrightarrow> rd k1 r = rd k r"
    unfolding k1_def using exec_alu_arith [OF op assms(2,3) spec] assms(1)
    by (simp_all add: arm_flags rd_def bit_or_iff bit_and_iff sint_neg_iff)
  let ?k2 = "k1\<lparr>insCcodeTest := cond_holds cond ?a ?b\<rparr>"
  have ge: "(sint (?a - ?b) < 0) = (sint (?a - ?b) \<noteq> sint ?a - sint ?b) \<longleftrightarrow> sint ?b \<le> sint ?a"
    using sint_diff_cases [of ?a ?b] by linarith
  have gt: "sint ?b < sint ?a \<longleftrightarrow> ?a \<noteq> ?b \<and> sint ?b \<le> sint ?a"
    using sint_eq [of ?a ?b] by linarith
  have hi: "?b < ?a \<longleftrightarrow> ?b \<le> ?a \<and> ?a \<noteq> ?b" and ls: "?a \<le> ?b \<longleftrightarrow> \<not> ?b \<le> ?a \<or> ?a = ?b"
    and cc: "?a < ?b \<longleftrightarrow> \<not> ?b \<le> ?a"
    by (auto simp: not_le)
  have lt: "sint ?a < sint ?b \<longleftrightarrow> \<not> sint ?b \<le> sint ?a" "sint ?a \<le> sint ?b \<longleftrightarrow> ?a = ?b \<or> \<not> sint ?b \<le> sint ?a"
    and pl: "0 \<le> sint (?a - ?b) \<longleftrightarrow> \<not> sint (?a - ?b) < 0"
    using sint_eq [of ?a ?b] by linarith+
  have "DecodeCcode cond k1 = Some ?k2"
    unfolding DecodeCcode_table [OF assms(4)] cond_holds_def k1(2-5) ge gt hi ls cc lt pl
    by (simp only: not_not)
  then show ?thesis using k1 by (intro exI [of _ k1] exI [of _ ?k2]) (simp add: rd_def)
qed

theorem compare_conditions_witness:
  "\<exists>k1 k2. exec_alu_operand_instr
      ((arm_new 0)\<lparr>insALUOpcode := 10, insS := True, insAluOperand1 := 0xFFFFFFFF, insAluOperand2 := 1\<rparr>) = Some k1 \<and>
      DecodeCcode 11 k1 = Some k2 \<and> insCcodeTest k2"
proof -
  let ?k = "(arm_new 0)\<lparr>insALUOpcode := 10, insS := True, insAluOperand1 := 0xFFFFFFFF, insAluOperand2 := 1\<rparr>"
  have "\<exists>k1 k2. exec_alu_operand_instr ?k = Some k1 \<and> DecodeCcode 11 k1 = Some k2 \<and>
      insCcodeTest k2 = cond_holds 11 (insAluOperand1 ?k) (insAluOperand2 ?k) \<and> (\<forall>r < 16. rd k2 r = rd ?k r)"
    by (rule compare_conditions) (simp_all add: arm_new_def)
  moreover have "cond_holds 11 0xFFFFFFFF 1" by (simp add: cond_holds_def)
  ultimately show ?thesis by auto
qed

section \<open>Shifts\<close>

text \<open>The reference: shifts of the value over the integers, with the last bit shifted out as carry; an
  arithmetic shift divides the signed value.\<close>

definition shift_result :: "nat \<Rightarrow> u32 \<Rightarrow> nat \<Rightarrow> u32" where
  "shift_result kind x n =
    (if kind = 0 then word_of_int (uint x * 2 ^ n)
     else if kind = 1 then word_of_int (uint x div 2 ^ n)
     else if kind = 2 then word_of_int (sint x div 2 ^ n)
     else word_rotr n x)"

definition shift_carry :: "nat \<Rightarrow> u32 \<Rightarrow> nat \<Rightarrow> bool" where
  "shift_carry kind x n \<longleftrightarrow>
    (if kind = 0 then bit (uint x * 2 ^ n) 32
     else if kind = 1 then bit (uint x) (n - 1)
     else if kind = 2 then bit (sint x) (n - 1)
     else bit (word_rotr n x) 31)"

lemma bit_uint32: "bit (uint (x :: u32)) i \<longleftrightarrow> bit x i"
  by (auto simp: bit_uint_iff dest: bit_imp_le_length)

lemma shift_result_left: "shift_result 0 x n = push_bit n x"
  by (rule bit_word_eqI)
    (simp add: shift_result_def bit_word_of_int_iff bit_push_bit_iff bit_uint32 flip: push_bit_eq_mult)

lemma shift_result_right: "shift_result 1 x n = drop_bit n x"
  by (rule bit_word_eqI)
    (simp add: shift_result_def bit_word_of_int_iff bit_drop_bit_eq bit_uint32 flip: drop_bit_eq_div)

lemma shift_result_arith: "bit (shift_result 2 x n) i \<longleftrightarrow> i < 32 \<and> bit (sint x) (n + i)"
  by (simp add: shift_result_def bit_word_of_int_iff bit_drop_bit_eq flip: drop_bit_eq_div)

lemma bit_sint32: "bit (sint (x :: u32)) i \<longleftrightarrow> bit x (min i 31)"
  by (auto simp: bit_sint_iff min_def dest: bit_imp_le_length)

lemma push_bit_carry: "bit (uint x * 2 ^ n) 32 \<longleftrightarrow> n \<le> 32 \<and> bit (x :: u32) (32 - n)"
  by (simp add: bit_push_bit_iff bit_uint32 flip: push_bit_eq_mult)

lemma wide_shift: "n > 31 \<Longrightarrow> push_bit n (x :: u32) = 0" "n > 31 \<Longrightarrow> drop_bit n (x :: u32) = 0"
  by (rule bit_word_eqI; simp add: bit_simps; fastforce dest: bit_imp_le_length)+

lemma shifter_left: "shifter 0 x n c = (shift_result 0 x n,
    if n = 0 then c else if n > 32 then bit x 0 else shift_carry 0 x n)"
proof (cases "n \<le> 32")
  case True
  then consider "n = 0" | "n = 32" | "0 < n" "n < 32" by linarith
  then show ?thesis
    by cases (simp_all add: shifter_def shift_result_left wide_shift Bit_iff shift_carry_def push_bit_carry
        push_bit_carry [of x 32, simplified])
next
  case False
  then show ?thesis by (simp add: shifter_def shift_result_left wide_shift Bit_iff)
qed

lemma shifter_right: "shifter 1 x n c = (shift_result 1 x n,
    if n = 0 then c else if n > 32 then bit x 31 else shift_carry 1 x n)"
proof (cases "n \<le> 32")
  case True
  then consider "n = 0" | "n = 32" | "0 < n" "n < 32" by linarith
  then show ?thesis
    by cases (simp_all add: shifter_def shift_result_right [simplified] wide_shift Bit_iff shift_carry_def bit_uint32)
next
  case False
  then show ?thesis by (simp add: shifter_def shift_result_right [simplified] wide_shift Bit_iff)
qed

lemma shifter_arith: "shifter 2 x n c = (shift_result 2 x n, if n = 0 then c else shift_carry 2 x n)"
proof -
  have "(0xFFFFFFFF :: int) = mask 32" by (simp add: mask_eq_exp_minus_1)
  then have ones: "bit (0xFFFFFFFF :: int) i \<longleftrightarrow> i < 32" for i
    by (simp only: bit_mask_iff possible_bit_def) simp
  have "fst (shifter 2 x n c) = shift_result 2 x n"
    by (rule bit_word_eqI)
      (auto simp: shifter_def shift_result_arith bit_sint32 Bit_iff bit_simps min_def ones
        dest: bit_imp_le_length)
  moreover have "snd (shifter 2 x n c) = (if n = 0 then c else shift_carry 2 x n)"
  proof (cases "n = 32")
    case False
    then have "31 < n \<longleftrightarrow> \<not> n - Suc 0 \<le> 31" by linarith
    then show ?thesis by (auto simp: shifter_def shift_carry_def bit_sint32 Bit_iff min_def)
  qed (simp add: shifter_def shift_carry_def bit_sint32 Bit_iff)
  ultimately show ?thesis by (simp add: prod_eq_iff)
qed

lemma shifter_rotate: "shifter 3 x n c = (shift_result 3 x n, if n mod 32 = 0 then c else shift_carry 3 x n)"
proof -
  have m: "(i + n) mod 32 = (if i + n mod 32 < 32 then i + n mod 32 else i + n mod 32 - 32)" if "i < 32" for i
  proof -
    have "(i + n) mod 32 = (i + n mod 32) mod 32" by (simp add: mod_add_right_eq)
    moreover have "i + n mod 32 < 2 * 32" using that mod_less_divisor [of 32 n] by linarith
    ultimately show ?thesis by (simp add: mod_if [of "i + n mod 32"] mod_if [of "i + n mod 32 - 32"])
  qed
  have "fst (shifter 3 x n c) = shift_result 3 x n"
    by (rule bit_word_eqI)
      (auto simp: shifter_def shift_result_def Ror_def Let_def bit_word_rotr_iff bit_simps m ac_simps
        dest: bit_imp_le_length)
  moreover have "snd (shifter 3 x n c) = (if n mod 32 = 0 then c else shift_carry 3 x n)"
    by (auto simp: shifter_def shift_carry_def bit_word_rotr_iff Bit_iff Let_def m)
  ultimately show ?thesis by (simp add: prod_eq_iff)
qed

text \<open>C18: The shifter computes for every amount the shift of the value over the integers, with the last bit
  shifted out as carry, except that a left or logical right shift by more than 32 takes bit 0 or 31 for
  the carry instead of 0, and a rotation by a multiple of 32 other than 0 keeps the old carry.\<close>

theorem shifter_exact:
  assumes "insShiftType k \<le> 3"
  shows "exec_shift_operand_instr k =
    (let n = unat (if insShiftComputed k then insShiftValue k AND 255 else insShiftValue k);
         x = (if insShiftComputed k \<and> insRm k = 15 then rd k 15 + 4 else rd k (insRm k))
     in Some (k\<lparr>insAluOperand2 := shift_result (insShiftType k) x n,
          insShiftCarryOut :=
            (if n = 0 then CFlag k
             else if insShiftType k < 2 \<and> n > 32 then bit x (if insShiftType k = 0 then 0 else 31)
             else if insShiftType k = 3 \<and> n mod 32 = 0 then CFlag k
             else shift_carry (insShiftType k) x n)\<rparr>))"
proof -
  consider "insShiftType k = 0" | "insShiftType k = 1" | "insShiftType k = 2" | "insShiftType k = 3"
    using assms by linarith
  then show ?thesis
    by cases (auto simp: exec_shift_operand_instr_def Let_def shifter_left shifter_right [simplified]
        shifter_arith shifter_rotate)
qed

theorem shifter_exact_witness:
  "exec_shift_operand_instr ((arm_new 0)\<lparr>insShiftType := 0, insShiftValue := 1, insRm := 15\<rparr>)
    = Some ((arm_new 0)\<lparr>insShiftType := 0, insShiftValue := 1, insRm := 15, insAluOperand2 := 0,
        insShiftCarryOut := False\<rparr>)"
  by (subst shifter_exact) (simp_all add: arm_new_def shift_result_def shift_carry_def rd_def)

end
