(* ===== verification/ArmMem.thy ===== *)
theory ArmMem
  imports ArmState
begin

unbundle bit_operations_syntax

text \<open>
  Loads and stores of the ARM core (\<^verbatim>\<open>armisa.cpp\<close>) over a bus, and the flat memory that the stand-alone
  simulator \<^verbatim>\<open>arm/fastiss.cpp\<close> puts behind it.  The bus is the pair of virtual methods
  \<^verbatim>\<open>armisa_read1\<close> and \<^verbatim>\<open>armisa_write1\<close>; the interface \<open>arm_bus\<close> states what block transfers and
  instruction fetches need of it.
\<close>

section \<open>The bus\<close>

text \<open>A read takes an address, a size code (0 to 3 for 1, 2, 4, 8 bytes), whether it is an instruction
  fetch and whether it is linked.  Its value is \<open>None\<close> when the access is refused.  A write returns the
  success code and, for a store conditional, the outcome (1 for success).  \<open>None\<close> is an assertion that
  fails.\<close>

record 'm bus =
  read1 :: "'m \<Rightarrow> u32 \<Rightarrow> nat \<Rightarrow> bool \<Rightarrow> bool \<Rightarrow> (u64 option \<times> 'm) option"
  write1 :: "'m \<Rightarrow> u32 \<Rightarrow> u64 \<Rightarrow> nat \<Rightarrow> bool \<Rightarrow> (bool \<times> nat \<times> 'm) option"

section \<open>Loads and stores\<close>

definition user_slot :: "arm \<Rightarrow> nat \<Rightarrow> nat" where
  "user_slot k r = (if insSUser k then r else reg_ix (currentBank k) r)"

text \<open>A value loaded to the program counter switches the instruction set.\<close>

definition load_pc :: "nat \<Rightarrow> arm \<Rightarrow> arm" where
  "load_pc slot k =
    (let v = raw_reg k slot;
         k = (if v AND 1 = 1
              then raw_wr slot (v AND NOT 1) (wr CpsrReg (rd k CpsrReg OR push_bit 5 1) k)
              else if drop_bit 1 v AND 1 = 0 then wr CpsrReg (rd k CpsrReg AND NOT (push_bit 5 1)) k
              else k)
     in raw_wr slot (raw_reg k slot + ARM_PC_CORRECTION) k)"

definition mem_load :: "'m bus \<Rightarrow> arm \<Rightarrow> 'm \<Rightarrow> (bool \<times> arm \<times> 'm) option" where
  "mem_load bus k m =
    do {
      (d, m) \<leftarrow> read1 bus m (insDataAddress k) (insSizeCode k) False (insEXCF k);
      (case d of None \<Rightarrow> Some (False, k, m)
       | Some v \<Rightarrow>
         do {
           let k = k\<lparr>read_data64 := v\<rparr>;
           let r1 = user_slot k (insRd k);
           k \<leftarrow> (if insSizeCode k = 0 then
                    Some (raw_wr r1 (if insSigned k then sex8 (read_data k AND 0xFF) else read_data k AND 0xFF) k)
                  else if insSizeCode k = 1 then
                    Some (raw_wr r1 (if insSigned k then sex16 (read_data k AND 0xFFFF) else read_data k AND 0xFFFF) k)
                  else if insSizeCode k = 2 then Some (raw_wr r1 (read_data k) k)
                  else if insSizeCode k = 3 then
                    Some (raw_wr (user_slot k (insRd k + 1)) (ucast (drop_bit 32 (read_data64 k)))
                           (raw_wr r1 (ucast (read_data64 k)) k))
                  else None);
           Some (True, if insRd k = 15 then load_pc r1 k else k, m)
         })
    }"

definition write_value :: "arm \<Rightarrow> u64" where
  "write_value k = ucast (insAluResult k) OR push_bit 32 (ucast (insAluResultHi k))"

definition mem_store_ex :: "'m bus \<Rightarrow> arm \<Rightarrow> 'm \<Rightarrow> (bool \<times> arm \<times> 'm) option" where
  "mem_store_ex bus k m =
    (if insSUser k then None
     else
       let k = k\<lparr>insAluResult := rd k (insRm k),
                 insAluResultHi := (if insSizeCode k = 3 then rd k (insRm k + 1) else 0)\<rparr>
       in do {
         (rc, outcome, m) \<leftarrow> write1 bus m (insDataAddress k) (write_value k) (insSizeCode k) True;
         Some (if outcome = 2 \<or> \<not> rc then (False, k, m)
               else (True, wr (insRd k) (if outcome \<noteq> 0 then 0 else 1) k, m))
       })"

definition mem_store :: "'m bus \<Rightarrow> arm \<Rightarrow> 'm \<Rightarrow> (bool \<times> arm \<times> 'm) option" where
  "mem_store bus k m =
    (if insSizeCode k = 3 \<and> insSUser k then None
     else
       let k = k\<lparr>insAluResult := raw_reg k (user_slot k (insRd k)),
                 insAluResultHi := (if insSizeCode k = 3 then rd k (insRd k + 1) else 0)\<rparr>
       in do {
         (rc, outcome, m) \<leftarrow> write1 bus m (insDataAddress k) (write_value k) (insSizeCode k) False;
         Some (rc, k, m)
       })"

text \<open>The base register is updated except within a block transfer.\<close>

definition mem_writeback :: "arm \<Rightarrow> arm" where
  "mem_writeback k =
    (if runstate k \<noteq> MidMultiple2S \<and> (insW k \<or> \<not> insP k)
     then let k = (if \<not> insP k then k\<lparr>insDataAddress := insDataAddress k + insDataOffset k\<rparr> else k)
          in if insDataOffset k \<noteq> 0 then wr (insRn k) (insDataAddress k) k else k
     else k)"

definition exec_mem_operand_instr :: "'m bus \<Rightarrow> arm \<Rightarrow> 'm \<Rightarrow> (bool \<times> arm \<times> 'm) option" where
  "exec_mem_operand_instr bus k m =
    do {
      (ok, k, m) \<leftarrow> (if insL k then mem_load bus k m
                     else if insEXCF k then mem_store_ex bus k m
                     else mem_store bus k m);
      Some (ok, if ok then mem_writeback k else k, m)
    }"

section \<open>Addresses of single transfers\<close>

text \<open>The offset of \<^verbatim>\<open>DecodeSingle\<close>: an immediate or a register shifted by a constant.  An arithmetic shift
  by 0 takes its sign from the carry out of an earlier instruction, not from the register.\<close>

definition single_offset :: "arm \<Rightarrow> u32 option" where
  "single_offset k =
    (let ins = instruction k
     in if \<not> Bit ins 25 then Some (Bits ins 0 12)
        else
          let kind = unat (Bits ins 5 2); shift = unat (Bits ins 7 5); rm = rd k (Bits4 ins 0)
          in if Bit ins 4 then None
             else if kind = 0 then Some (push_bit shift rm)
             else if kind = 1 then Some (if shift = 0 then 0 else drop_bit shift rm)
             else if kind = 2 then
               Some (if shift = 0 then 0 - of_bool (insShiftCarryOut k)
                     else if Bit rm 31 then drop_bit shift rm OR push_bit (32 - shift) 0xFFFFFFFF
                     else drop_bit shift rm)
             else Some (if shift = 0 then drop_bit 1 rm OR push_bit 31 (of_bool (CFlag k)) else Ror rm shift))"

definition DecodeSingle :: "arm \<Rightarrow> arm option" where
  "DecodeSingle k =
    (let ins = instruction k
     in if Bits ins 26 2 \<noteq> 1 \<or> insRn k \<noteq> Bits4 ins 16 \<or> insRd k \<noteq> Bits4 ins 12 then None
        else do {
          off \<leftarrow> single_offset k;
          let off = (if \<not> insU k then 0 - off else off);
          Some (k\<lparr>insDataOffset := off,
                  insDataAddress := (if insP k then rd k (insRn k) + off else rd k (insRn k)),
                  insSizeCode := (if insB k then 0 else 2), insSigned := False, insEXCF := False,
                  insDecodeT := SingleT\<rparr>)
        })"

definition DecodeHalfword :: "arm \<Rightarrow> arm" where
  "DecodeHalfword k =
    (let ins = instruction k;
         k = k\<lparr>insRd := Bits4 ins 12, insRn := Bits4 ins 16, insSigned := Bit ins 6, insL := Bit ins 20,
               insW := Bit ins 21, insP := Bit ins 24, insEXCF := False\<rparr>;
         preaddr = rd k (insRn k);
         v = (if Bit ins 22 then Bits ins 0 4 OR push_bit 4 (Bits ins 8 4) else rd k (Bits4 ins 0));
         postaddr = (if Bit ins 23 then preaddr + v else preaddr - v)
     in k\<lparr>insDataAddress := (if insP k then postaddr else preaddr),
          insSizeCode := (if Bit ins 5 then 1 else 0), insDecodeT := SingleT\<rparr>)"

section \<open>Block transfers\<close>

definition reg_count :: "u16 \<Rightarrow> nat" where
  "reg_count regs = length (filter (bit regs) [0..<16])"

definition reg_from :: "u16 \<Rightarrow> nat \<Rightarrow> nat option" where
  "reg_from regs r = find (bit regs) [r..<16]"

definition DecodeMultiple :: "arm \<Rightarrow> arm option" where
  "DecodeMultiple k =
    (let n = reg_count (insMultRegisters k);
         base = rd k (insRn k);
         wback = (if insU k then base + 4 * of_nat n else base - of_nat n * 4);
         a = (if insU k then base else wback + 4);
         a = (if insP k then if insU k then a + 4 else a - 4 else a);
         has_pc = bit (insMultRegisters k) 15
     in do {
       lowest \<leftarrow> reg_from (insMultRegisters k) 0;
       Some (k\<lparr>insMultCount := n, insMultWriteback := wback, insDataAddress := a, insRd := lowest,
               insSUser := insL k \<and> insS k \<and> \<not> has_pc \<or> \<not> insL k \<and> insS k,
               insSizeCode := 2, insEXCF := False, insSigned := False\<rparr>)
     })"

text \<open>\<^verbatim>\<open>DecodeMultiple2\<close> runs after each transfer; the first component tells whether the block is done.\<close>

definition DecodeMultiple2 :: "arm \<Rightarrow> (bool \<times> arm) option" where
  "DecodeMultiple2 k =
    do {
      k \<leftarrow> (if insL k \<and> insS k \<and> bit (insMultRegisters k) 15 \<and> insRd k = 15
             then map_option (\<lambda>v. DecodeSetModeFromCpsr (wr CpsrReg v k)) (spsr k)
             else Some k);
      let k = (if insRd k = 15 \<and> rd k 15 AND 1 = 1
               then wr CpsrReg (rd k CpsrReg OR push_bit 5 1) (wr 15 (rd k 15 AND NOT 1) k)
               else k);
      (if insMultCount k = 1
       then Some (True, if insW k then wr (insRn k) (insMultWriteback k) k else k)
       else do {
         r \<leftarrow> reg_from (insMultRegisters k) (insRd k + 1);
         Some (False, k\<lparr>insDataAddress := insDataAddress k + 4, insRd := r,
                        insMultCount := insMultCount k - 1\<rparr>)
       })
    }"

section \<open>The flat memory of the stand-alone simulator\<close>

text \<open>The byte array of class \<^verbatim>\<open>memory\<close> (with \<^verbatim>\<open>mem_base\<close> 0) and the table of linked addresses.\<close>

record flat =
  flat_data :: "nat \<Rightarrow> u8"
  llsc_addrs :: "u32 \<rightharpoonup> nat"

definition mem_size_bytes :: nat where "mem_size_bytes = 2 ^ 26"

definition set_mem8 :: "u32 \<Rightarrow> u8 \<Rightarrow> flat \<Rightarrow> flat option" where
  "set_mem8 a d m =
    (if unat a < mem_size_bytes then Some (m\<lparr>flat_data := (flat_data m)(unat a := d)\<rparr>) else None)"

definition set_mem16 :: "u32 \<Rightarrow> u16 \<Rightarrow> flat \<Rightarrow> flat option" where
  "set_mem16 a d m =
    (let p = unat a div 2 * 2
     in if unat a < mem_size_bytes
        then Some (m\<lparr>flat_data := (flat_data m)(p := ucast d, p + 1 := ucast (drop_bit 8 d))\<rparr>) else None)"

definition set_mem32 :: "u32 \<Rightarrow> u32 \<Rightarrow> flat \<Rightarrow> flat option" where
  "set_mem32 a d m =
    (let p = unat a div 4 * 4
     in if unat a < mem_size_bytes
        then Some (m\<lparr>flat_data := (flat_data m)(p := ucast d, p + 1 := ucast (drop_bit 8 d),
               p + 2 := ucast (drop_bit 16 d), p + 3 := ucast (drop_bit 24 d))\<rparr>) else None)"

definition eval_mem8 :: "u32 \<Rightarrow> flat \<Rightarrow> u8 option" where
  "eval_mem8 a m = (if unat a < mem_size_bytes then Some (flat_data m (unat a)) else None)"

definition eval_mem16 :: "u32 \<Rightarrow> flat \<Rightarrow> u16 option" where
  "eval_mem16 a m =
    (let p = unat a div 2 * 2
     in if unat a < mem_size_bytes
        then Some (ucast (flat_data m p) OR push_bit 8 (ucast (flat_data m (p + 1)))) else None)"

definition eval_mem32 :: "u32 \<Rightarrow> flat \<Rightarrow> u32 option" where
  "eval_mem32 a m =
    (let p = unat a div 4 * 4; b = (\<lambda>i. push_bit (8 * i) (ucast (flat_data m (p + i))))
     in if unat a < mem_size_bytes then Some (b 0 OR b 1 OR b 2 OR b 3) else None)"

definition fast_read1 :: "nat \<Rightarrow> flat \<Rightarrow> u32 \<Rightarrow> nat \<Rightarrow> bool \<Rightarrow> bool \<Rightarrow> (u64 option \<times> flat) option" where
  "fast_read1 procID m memaddr sf opf linked =
    (let m = (if linked then m\<lparr>llsc_addrs := (llsc_addrs m)(memaddr \<mapsto> procID)\<rparr> else m);
         answer = map_option (\<lambda>v. (Some v, m));
         base = memaddr AND NOT 3; off = unat (memaddr AND 3)
     in if memaddr = 0xFFFFFFFC then answer (Some 0)
        else if memaddr \<ge> 0xE0000000 then None
        else if opf then
          answer (map_option (\<lambda>w. ucast (if sf = 1
            then (if Bit memaddr 1 then drop_bit 16 w else w) AND 0xFFFF else w)) (eval_mem32 memaddr m))
        else if sf = 0 then answer (map_option ucast (eval_mem8 memaddr m))
        else if sf = 1 then
          if Bit memaddr 0 then
            answer (do { d1 \<leftarrow> eval_mem8 memaddr m; d2 \<leftarrow> eval_mem8 (memaddr + 1) m;
                         Some (push_bit 8 (ucast d2) OR ucast d1) })
          else answer (map_option ucast (eval_mem16 memaddr m))
        else if sf = 2 then
          if off \<noteq> 0 then
            answer (do { part1 \<leftarrow> eval_mem32 base m; part2 \<leftarrow> eval_mem32 (base + 4) m;
                         Some (ucast (drop_bit (8 * off) part1 OR push_bit (32 - 8 * off) part2)) })
          else answer (map_option ucast (eval_mem32 memaddr m))
        else if sf = 3 then
          answer (do { lo \<leftarrow> eval_mem32 memaddr m; hi \<leftarrow> eval_mem32 (memaddr + 4) m;
                       Some (ucast lo OR push_bit 32 (ucast hi)) })
        else None)"

text \<open>A store conditional stores whatever its outcome.\<close>

definition fast_write1 :: "nat \<Rightarrow> flat \<Rightarrow> u32 \<Rightarrow> u64 \<Rightarrow> nat \<Rightarrow> bool \<Rightarrow> (bool \<times> nat \<times> flat) option" where
  "fast_write1 procID m memaddr wdata sf scp =
    (let linked = scp \<and> llsc_addrs m memaddr = Some procID;
         m = (if linked then m\<lparr>llsc_addrs := (llsc_addrs m)(memaddr := None)\<rparr> else m);
         byte = (\<lambda>i. ucast (drop_bit (8 * i) wdata) :: u8)
     in map_option (\<lambda>m. (True, of_bool linked, m))
         (if memaddr \<ge> 0xE0000000 then None
          else if sf = 0 then set_mem8 memaddr (byte 0) m
          else if sf = 1 then
            if Bit memaddr 0 then do { m \<leftarrow> set_mem8 memaddr (byte 0) m; set_mem8 (memaddr + 1) (byte 1) m }
            else set_mem16 memaddr (ucast wdata) m
          else if sf = 2 then
            if memaddr AND 3 \<noteq> 0 then
              do { m \<leftarrow> set_mem8 memaddr (byte 0) m; m \<leftarrow> set_mem8 (memaddr + 1) (byte 1) m;
                   m \<leftarrow> set_mem8 (memaddr + 2) (byte 2) m; set_mem8 (memaddr + 3) (byte 3) m }
            else set_mem32 memaddr (ucast wdata) m
          else if sf = 3 then
            do { m \<leftarrow> set_mem32 memaddr (ucast wdata) m;
                 set_mem32 (memaddr + 4) (ucast (drop_bit 32 wdata)) m }
          else None))"

definition fast_bus :: "nat \<Rightarrow> flat bus" where
  "fast_bus procID = \<lparr>read1 = fast_read1 procID, write1 = fast_write1 procID\<rparr>"

section \<open>The flat memory as bytes\<close>

lemma bit8_out: "8 \<le> n \<Longrightarrow> \<not> bit (x :: u8) n"
  by (auto dest: bit_imp_le_length)

lemma bit_eval8: "eval_mem8 a m = Some w \<Longrightarrow> bit w i \<longleftrightarrow> bit (flat_data m (unat a)) i"
  by (simp add: eval_mem8_def split: if_splits)

lemma split8:
  fixes i :: nat
  assumes "i < 32"
  obtains r where "r < 8" "i = r" | r where "r < 8" "i = 8 + r" | r where "r < 8" "i = 16 + r"
    | r where "r < 8" "i = 24 + r"
proof -
  have "i < 8 \<or> (\<exists>r < 8. i = 8 + r) \<or> (\<exists>r < 8. i = 16 + r) \<or> (\<exists>r < 8. i = 24 + r)"
    using assms by presburger
  then show ?thesis using that by blast
qed

lemma div8 [simp]: "r < 8 \<Longrightarrow> (8 + r) div 8 = 1" "r < 8 \<Longrightarrow> (16 + r) div 8 = 2" "r < 8 \<Longrightarrow> (24 + r) div 8 = (3 :: nat)"
  and mod8 [simp]: "r < 8 \<Longrightarrow> (8 + r) mod 8 = r" "r < 8 \<Longrightarrow> (16 + r) mod 8 = r" "r < 8 \<Longrightarrow> (24 + r) mod 8 = r" for r :: nat
  by presburger+

lemma bit_eval32:
  assumes "eval_mem32 a m = Some w"
  shows "bit w i \<longleftrightarrow> i < 32 \<and> bit (flat_data m (unat a div 4 * 4 + i div 8)) (i mod 8)"
proof (cases "i < 32")
  case True
  then show ?thesis
    using assms by (elim split8)
      (auto simp: eval_mem32_def Let_def bit_or_iff bit_push_bit_iff bit_ucast_iff bit8_out split: if_splits)
qed (auto dest: bit_imp_le_length)

lemma bit_eval16:
  assumes "eval_mem16 a m = Some w"
  shows "bit w i \<longleftrightarrow> i < 16 \<and> bit (flat_data m (unat a div 2 * 2 + i div 8)) (i mod 8)"
proof (cases "i < 16")
  case True
  then have "i < 32" by simp
  then show ?thesis
    using assms True by (elim split8)
      (auto simp: eval_mem16_def Let_def bit_or_iff bit_push_bit_iff bit_ucast_iff bit8_out split: if_splits)
qed (auto dest: bit_imp_le_length)

lemma low_bits_3: "unat (a AND 3 :: u32) = unat a mod 4"
proof -
  have "a AND 3 = take_bit 2 a" by (simp add: take_bit_eq_mask mask_eq_exp_minus_1)
  then show ?thesis by (simp only: unsigned_take_bit_eq) (simp add: take_bit_eq_mod)
qed

lemma high_bits_3: "unat (a AND NOT 3 :: u32) = unat a div 4 * 4"
proof -
  have two: "Suc (Suc (n - 2)) = n" if "2 \<le> n" for n using that by simp
  have "a AND NOT (mask 2) = push_bit 2 (drop_bit 2 a)"
    by (rule bit_word_eqI) (auto simp: bit_simps two simp del: mask_numeral)
  moreover have "mask 2 = (3 :: u32)" by (simp add: mask_eq_exp_minus_1)
  ultimately have "a AND NOT 3 = push_bit 2 (drop_bit 2 a)" by simp
  then have "unat (a AND NOT 3) = take_bit 32 (push_bit 2 (drop_bit 2 (unat a)))"
    using unsigned_less [of a, where ?'a = nat]
    by (simp only: unsigned_push_bit_eq unsigned_drop_bit_eq) (simp add: take_bit_eq_mod)
  also have "\<dots> = unat a div 4 * 4"
    using unsigned_less [of a, where ?'a = nat] div_times_less_eq_dividend [of "unat a" 4]
    by (simp add: take_bit_eq_mod push_bit_eq_mult drop_bit_eq_div)
  finally show ?thesis .
qed

lemma odd_Bit: "Bit a 0 \<longleftrightarrow> odd (unat a)"
proof -
  have "bit (unat a) 0 \<longleftrightarrow> bit a 0" by (simp add: bit_unsigned_iff)
  then show ?thesis by (simp add: Bit_iff bit_0)
qed

lemma unat_plus: "unat a + n < 2 ^ 32 \<Longrightarrow> unat (a + of_nat n :: u32) = unat a + n"
  by (simp add: unat_word_ariths unat_of_nat)

text \<open>Reading and writing in terms of bytes.  Doublewords start at a multiple of four, words and halfwords
  anywhere.\<close>

definition flat_start :: "u32 \<Rightarrow> nat \<Rightarrow> nat" where
  "flat_start a sf = (if sf = 3 then unat a div 4 * 4 else unat a)"

lemma in_range:
  assumes "unat (a :: u32) + 8 \<le> mem_size_bytes"
  shows "unat a < mem_size_bytes" "a \<noteq> 0xFFFFFFFC" "\<not> a \<ge> 0xE0000000" "j < 8 \<Longrightarrow> unat (a + of_nat j) = unat a + j"
    "j < 8 \<Longrightarrow> unat a + j < mem_size_bytes"
proof -
  show "j < 8 \<Longrightarrow> unat (a + of_nat j) = unat a + j"
    using assms by (intro unat_plus) (simp add: mem_size_bytes_def)
qed (use assms in \<open>auto simp: mem_size_bytes_def word_le_nat_alt\<close>)

lemma sub_div8: "8 * c \<le> i \<Longrightarrow> (i - 8 * c) div 8 = i div 8 - c" "8 * c \<le> i \<Longrightarrow> (i - 8 * c) mod 8 = i mod 8"
    "8 * c \<le> i \<Longrightarrow> c \<le> i div 8" for i c :: nat
  by (auto simp: le_iff_add)

lemma misaligned_bits:
  assumes p1: "\<And>i. bit p1 i \<longleftrightarrow> i < 32 \<and> bit (f (q + i div 8)) (i mod 8)"
    and p2: "\<And>i. bit p2 i \<longleftrightarrow> i < 32 \<and> bit (f (q + 4 + i div 8)) (i mod 8)"
    and off: "0 < r" "r < 4"
  shows "bit (drop_bit (8 * r) p1 OR push_bit (32 - 8 * r) p2 :: u32) i \<longleftrightarrow>
    i < 32 \<and> bit (f (q + r + i div 8)) (i mod 8)"
proof -
  have c: "32 - 8 * r = 8 * (4 - r)" by simp
  show ?thesis
  proof (cases "8 * (4 - r) \<le> i")
    case True
    then have "\<not> 8 * r + i < 32" using off by linarith
    moreover have "q + 4 + (i div 8 - (4 - r)) = q + r + i div 8"
      using sub_div8(3) [OF True] off by linarith
    then have "bit (f (q + 4 + (i - 8 * (4 - r)) div 8)) ((i - 8 * (4 - r)) mod 8) = bit (f (q + r + i div 8)) (i mod 8)"
      by (simp only: sub_div8(1,2) [OF True])
    moreover have "i - 8 * (4 - r) < 32 \<or> \<not> i < 32" by linarith
    ultimately show ?thesis
      using True by (auto simp: c bit_or_iff bit_drop_bit_eq bit_push_bit_iff p1 p2)
  next
    case False
    then have "8 * r + i < 32" "\<not> 32 - 8 * r \<le> i" using off by linarith+
    moreover have "q + (8 * r + i) div 8 = q + r + i div 8" "(8 * r + i) mod 8 = i mod 8" by simp_all
    ultimately show ?thesis
      by (simp only: bit_or_iff bit_drop_bit_eq bit_push_bit_iff p1 comp_apply) auto
  qed
qed

lemma eval_in_range:
  assumes "unat a < mem_size_bytes"
  shows "\<exists>w. eval_mem8 a m = Some w" "\<exists>w. eval_mem16 a m = Some w" "\<exists>w. eval_mem32 a m = Some w"
  using assms by (simp_all add: eval_mem8_def eval_mem16_def eval_mem32_def Let_def)

definition reads :: "u32 \<Rightarrow> nat \<Rightarrow> flat \<Rightarrow> u64 \<Rightarrow> bool" where
  "reads a sf m v \<longleftrightarrow>
    (\<forall>i. bit v i \<longleftrightarrow> i < 8 * 2 ^ sf \<and> bit (flat_data m (flat_start a sf + i div 8)) (i mod 8))"

lemma readsI:
  assumes "\<And>i. bit v i \<longleftrightarrow> i < n \<and> bit (flat_data m (s + i div 8)) (i mod 8)"
    and "n = 8 * 2 ^ sf" "s = flat_start a sf"
  shows "reads a sf m v"
  using assms unfolding reads_def by blast

lemma read_byte:
  assumes a: "unat a + 8 \<le> mem_size_bytes"
  shows "\<exists>v. fast_read1 p m a 0 False False = Some (Some v, m) \<and> reads a 0 m v"
proof -
  obtain w where w: "eval_mem8 a m = Some w" using eval_in_range(1) [OF in_range(1) [OF a]] by blast
  have "bit (ucast w :: u64) i \<longleftrightarrow> i < 8 \<and> bit (flat_data m (unat a + i div 8)) (i mod 8)" for i
    by (cases "i < 8") (simp_all add: bit_ucast_iff bit_eval8 [OF w, symmetric] bit8_out)
  then have "reads a 0 m (ucast w)" by (rule readsI) (simp_all add: flat_start_def)
  moreover have "fast_read1 p m a 0 False False = Some (Some (ucast w), m)"
    using in_range(2,3) [OF a] w by (simp add: fast_read1_def Let_def)
  ultimately show ?thesis by (intro exI conjI)
qed

lemma read_half:
  assumes a: "unat a + 8 \<le> mem_size_bytes"
  shows "\<exists>v. fast_read1 p m a 1 False False = Some (Some v, m) \<and> reads a 1 m v"
proof (cases "odd (unat a)")
  case True
  have s: "unat (a + 1) = unat a + 1" using in_range(4) [OF a, of 1] by simp
  obtain w1 where w1: "eval_mem8 a m = Some w1" using eval_in_range(1) [OF in_range(1) [OF a]] by blast
  obtain w2 where w2: "eval_mem8 (a + 1) m = Some w2"
    using eval_in_range(1) [of "a + 1"] in_range(5) [OF a, of 1] s by auto
  let ?v = "push_bit 8 (ucast w2) OR ucast w1 :: u64"
  have "bit ?v i \<longleftrightarrow> i < 16 \<and> bit (flat_data m (unat a + i div 8)) (i mod 8)" for i
  proof (cases "i < 16")
    case True
    then have "i < 32" by simp
    then show ?thesis using True
      by (elim split8)
        (simp_all add: bit_or_iff bit_push_bit_iff bit_ucast_iff bit8_out bit_eval8 [OF w1, symmetric]
          bit_eval8 [OF w2, unfolded s, symmetric, simplified])
  next
    case False
    then show ?thesis by (simp add: bit_or_iff bit_push_bit_iff bit_ucast_iff bit8_out)
  qed
  then have "reads a 1 m ?v" by (rule readsI) (simp_all add: flat_start_def)
  moreover have "fast_read1 p m a 1 False False = Some (Some ?v, m)"
    using in_range(2,3) [OF a] w1 w2 True by (simp add: fast_read1_def Let_def odd_Bit)
  ultimately show ?thesis by (intro exI conjI)
next
  case False
  obtain w where w: "eval_mem16 a m = Some w" using eval_in_range(2) [OF in_range(1) [OF a]] by blast
  have "unat a div 2 * 2 = unat a" using False by simp
  then have "bit (ucast w :: u64) i \<longleftrightarrow> i < 16 \<and> bit (flat_data m (unat a + i div 8)) (i mod 8)" for i
    by (auto simp: bit_ucast_iff bit_eval16 [OF w])
  then have "reads a 1 m (ucast w)" by (rule readsI) (simp_all add: flat_start_def)
  moreover have "fast_read1 p m a 1 False False = Some (Some (ucast w), m)"
    using in_range(2,3) [OF a] w False by (simp add: fast_read1_def Let_def odd_Bit)
  ultimately show ?thesis by (intro exI conjI)
qed

lemma read_word:
  assumes a: "unat a + 8 \<le> mem_size_bytes"
  shows "\<exists>v. fast_read1 p m a 2 False False = Some (Some v, m) \<and> reads a 2 m v"
proof (cases "unat a mod 4 = 0")
  case True
  obtain w where w: "eval_mem32 a m = Some w" using eval_in_range(3) [OF in_range(1) [OF a]] by blast
  have "unat a div 4 * 4 = unat a" using True by auto
  then have "bit (ucast w :: u64) i \<longleftrightarrow> i < 32 \<and> bit (flat_data m (unat a + i div 8)) (i mod 8)" for i
    by (auto simp: bit_ucast_iff bit_eval32 [OF w])
  then have "reads a 2 m (ucast w)" by (rule readsI) (simp_all add: flat_start_def)
  moreover have "fast_read1 p m a 2 False False = Some (Some (ucast w), m)"
    using in_range(2,3) [OF a] w True by (simp add: fast_read1_def Let_def low_bits_3)
  ultimately show ?thesis by (intro exI conjI)
next
  case False
  define b r where "b = a AND NOT 3" and "r = unat (a AND 3)"
  have b: "unat b = unat a div 4 * 4" "r = unat a mod 4"
    unfolding b_def r_def by (rule high_bits_3, rule low_bits_3)
  have br: "unat b + 8 \<le> mem_size_bytes" using a by (simp only: b)
  have b4: "unat (b + 4) = unat b + 4" using in_range(4) [OF br, of 4] by simp
  have q: "unat (b + 4) div 4 * 4 = unat b + 4" unfolding b4 b(1) by simp
  obtain w1 where w1: "eval_mem32 b m = Some w1" using eval_in_range(3) [OF in_range(1) [OF br]] by blast
  obtain w2 where w2: "eval_mem32 (b + 4) m = Some w2"
    using eval_in_range(3) [of "b + 4" m] in_range(5) [OF br, of 4] by (auto simp: b4)
  let ?v = "drop_bit (8 * r) w1 OR push_bit (32 - 8 * r) w2"
  have v: "bit ?v i \<longleftrightarrow> i < 32 \<and> bit (flat_data m (unat b + r + i div 8)) (i mod 8)" for i
  proof (rule misaligned_bits)
    show "bit w1 i \<longleftrightarrow> i < 32 \<and> bit (flat_data m (unat b + i div 8)) (i mod 8)" for i
      using bit_eval32 [OF w1] by (simp add: b)
    show "bit w2 i \<longleftrightarrow> i < 32 \<and> bit (flat_data m (unat b + 4 + i div 8)) (i mod 8)" for i
      using bit_eval32 [OF w2] by (simp only: q)
  qed (use False b in auto)
  have "unat b + r = unat a" by (simp add: b)
  then have "bit (ucast ?v :: u64) i \<longleftrightarrow> i < 32 \<and> bit (flat_data m (unat a + i div 8)) (i mod 8)" for i
    by (auto simp: bit_ucast_iff v)
  then have "reads a 2 m (ucast ?v)" by (rule readsI) (simp_all add: flat_start_def)
  moreover have "fast_read1 p m a 2 False False = Some (Some (ucast ?v), m)"
    using in_range(2,3) [OF a] w1 w2 False b(2) unfolding b_def r_def by (simp add: fast_read1_def Let_def)
  ultimately show ?thesis by (intro exI conjI)
qed

lemma read_double:
  assumes a: "unat a + 8 \<le> mem_size_bytes"
  shows "\<exists>v. fast_read1 p m a 3 False False = Some (Some v, m) \<and> reads a 3 m v"
proof -
  have a4: "unat (a + 4) = unat a + 4" using in_range(4) [OF a, of 4] by simp
  obtain w1 where w1: "eval_mem32 a m = Some w1" using eval_in_range(3) [OF in_range(1) [OF a]] by blast
  obtain w2 where w2: "eval_mem32 (a + 4) m = Some w2"
    using eval_in_range(3) [of "a + 4"] in_range(5) [OF a, of 4] by (auto simp: a4)
  have "(unat a + 4) div 4 = unat a div 4 + 1" by simp
  then have s: "unat (a + 4) div 4 * 4 = unat a div 4 * 4 + 4" by (simp add: a4)
  let ?v = "ucast w1 OR push_bit 32 (ucast w2) :: u64"
  have "bit ?v i \<longleftrightarrow> i < 64 \<and> bit (flat_data m (unat a div 4 * 4 + i div 8)) (i mod 8)" for i
  proof (cases "i < 32")
    case True
    then show ?thesis by (simp add: bit_or_iff bit_push_bit_iff bit_ucast_iff bit_eval32 [OF w1])
  next
    case False
    then obtain j where j: "i = 32 + j" by (metis le_Suc_ex not_less)
    have "unat a div 4 * 4 + i div 8 = unat (a + 4) div 4 * 4 + j div 8" by (simp add: j s)
    moreover have "i mod 8 = j mod 8" unfolding j by presburger
    ultimately show ?thesis
      using False by (auto simp: j bit_or_iff bit_push_bit_iff bit_ucast_iff bit_eval32 [OF w1] bit_eval32 [OF w2])
  qed
  then have "reads a 3 m ?v" by (rule readsI) (simp_all add: flat_start_def)
  moreover have "fast_read1 p m a 3 False False = Some (Some ?v, m)"
    using in_range(2,3) [OF a] w1 w2 by (simp add: fast_read1_def Let_def)
  ultimately show ?thesis by (intro exI conjI)
qed

lemma fast_read_bytes:
  assumes "sf < 4" "unat a + 8 \<le> mem_size_bytes"
  shows "\<exists>v. fast_read1 p m a sf False False = Some (Some v, m) \<and> reads a sf m v"
proof -
  consider "sf = 0" | "sf = 1" | "sf = 2" | "sf = 3" using assms(1) by linarith
  then show ?thesis
    by cases (simp_all only: read_byte read_half read_word read_double assms(2))
qed

text \<open>Writing.\<close>

definition writes :: "u32 \<Rightarrow> nat \<Rightarrow> u64 \<Rightarrow> flat \<Rightarrow> flat \<Rightarrow> bool" where
  "writes a sf v m m' \<longleftrightarrow>
    (\<forall>i. flat_data m' i = (if flat_start a sf \<le> i \<and> i < flat_start a sf + 2 ^ sf
       then ucast (drop_bit (8 * (i - flat_start a sf)) v) else flat_data m i))"

lemma writes_1: "writes a 0 v m (m\<lparr>flat_data := (flat_data m)(unat a := ucast v)\<rparr>)"
  by (auto simp: writes_def flat_start_def)

lemma byte_of_ucast32:
  assumes "n + 8 \<le> 32"
  shows "(ucast (drop_bit n (ucast (v :: u64) :: u32)) :: u8) = ucast (drop_bit n v)"
  using assms by (intro bit_word_eqI) (auto simp: bit_ucast_iff bit_drop_bit_eq)

lemma byte_of_ucast16:
  assumes "n + 8 \<le> 16"
  shows "(ucast (drop_bit n (ucast (v :: u64) :: u16)) :: u8) = ucast (drop_bit n v)"
  using assms by (intro bit_word_eqI) (auto simp: bit_ucast_iff bit_drop_bit_eq)

lemmas byte_casts = byte_of_ucast32 [of 0, simplified] byte_of_ucast32 [of 8, simplified]
  byte_of_ucast32 [of 16, simplified] byte_of_ucast32 [of 24, simplified]
  byte_of_ucast16 [of 0, simplified] byte_of_ucast16 [of 8, simplified]

lemma near_cases:
  fixes x i :: nat
  shows "x \<le> i \<and> i < x + 4 \<longleftrightarrow> i = x \<or> i = x + 1 \<or> i = x + 2 \<or> i = x + 3"
    "x \<le> i \<and> i < x + 2 \<longleftrightarrow> i = x \<or> i = x + 1"
  by linarith+

lemma fast_write_half:
  assumes a: "unat a + 8 \<le> mem_size_bytes"
  shows "\<exists>m'. fast_write1 p m a v 1 scp = Some (True, of_bool (scp \<and> llsc_addrs m a = Some p), m')
    \<and> writes a 1 v m m'"
proof -
  have s: "unat (a + 1) = unat a + 1" using in_range(4) [OF a, of 1] by simp
  note r = in_range(1,3) [OF a] in_range(5) [OF a, of 1]
  show ?thesis
    using r s by (cases "odd (unat a)")
      (auto simp: fast_write1_def Let_def set_mem8_def set_mem16_def writes_def flat_start_def odd_Bit
        near_cases byte_casts)
qed

lemma fast_write_word:
  assumes a: "unat a + 8 \<le> mem_size_bytes"
  shows "\<exists>m'. fast_write1 p m a v 2 scp = Some (True, of_bool (scp \<and> llsc_addrs m a = Some p), m')
    \<and> writes a 2 v m m'"
proof -
  have s: "unat (a + 1) = unat a + 1" "unat (a + 2) = unat a + 2" "unat (a + 3) = unat a + 3"
    using in_range(4) [OF a, of 1] in_range(4) [OF a, of 2] in_range(4) [OF a, of 3] by simp_all
  note r = in_range(1,3) [OF a] in_range(5) [OF a, of 1] in_range(5) [OF a, of 2] in_range(5) [OF a, of 3]
  have z: "a AND 3 = 0 \<longleftrightarrow> unat a mod 4 = 0" by (simp add: unat_eq_zero flip: low_bits_3)
  show ?thesis
  proof (cases "unat a mod 4 = 0")
    case True
    then have "unat a div 4 * 4 = unat a" by auto
    with True r show ?thesis
      by (auto simp: fast_write1_def Let_def set_mem32_def writes_def flat_start_def z near_cases byte_casts)
  next
    case False
    with r s show ?thesis
      by (auto simp: fast_write1_def Let_def set_mem8_def writes_def flat_start_def z near_cases)
  qed
qed

lemma near_8:
  fixes x i :: nat
  shows "x \<le> i \<and> i < x + 8 \<longleftrightarrow> i = x \<or> i = x + 1 \<or> i = x + 2 \<or> i = x + 3
    \<or> i = x + 4 \<or> i = x + 5 \<or> i = x + 6 \<or> i = x + 7"
  by linarith

lemma fast_write_double:
  assumes a: "unat a + 8 \<le> mem_size_bytes"
  shows "\<exists>m'. fast_write1 p m a v 3 scp = Some (True, of_bool (scp \<and> llsc_addrs m a = Some p), m')
    \<and> writes a 3 v m m'"
proof -
  have a4: "unat (a + 4) = unat a + 4" using in_range(4) [OF a, of 4] by simp
  have "(unat a + 4) div 4 = unat a div 4 + 1" by simp
  then have q: "unat (a + 4) div 4 * 4 = unat a div 4 * 4 + 4" by (simp add: a4)
  have hi: "ucast (drop_bit n (ucast (drop_bit 32 v) :: u32)) = (ucast (drop_bit (32 + n) v) :: u8)"
    if "n + 8 \<le> 32" for n
    using byte_of_ucast32 [OF that, of "drop_bit 32 v"] by (simp add: add.commute)
  note r = in_range(1,3) [OF a] in_range(5) [OF a, of 4]
  note hs = hi [of 0, simplified] hi [of 8, simplified] hi [of 16, simplified] hi [of 24, simplified]
  show ?thesis
    using r a4 q
    by (auto simp: fast_write1_def Let_def set_mem32_def writes_def flat_start_def near_8 byte_casts hs)
qed

lemma fast_write_byte:
  assumes a: "unat a + 8 \<le> mem_size_bytes"
  shows "\<exists>m'. fast_write1 p m a v 0 scp = Some (True, of_bool (scp \<and> llsc_addrs m a = Some p), m')
    \<and> writes a 0 v m m'"
  using in_range(1,3) [OF a]
  by (auto simp: fast_write1_def Let_def set_mem8_def writes_def flat_start_def)

lemma fast_write_bytes:
  assumes "sf < 4" "unat a + 8 \<le> mem_size_bytes"
  shows "\<exists>m'. fast_write1 p m a v sf scp = Some (True, of_bool (scp \<and> llsc_addrs m a = Some p), m')
    \<and> writes a sf v m m'"
proof -
  consider "sf = 0" | "sf = 1" | "sf = 2" | "sf = 3" using assms(1) by linarith
  then show ?thesis
    by cases (simp_all only: fast_write_byte fast_write_half fast_write_word fast_write_double assms(2))
qed

text \<open>C19: On the flat memory, a load after a store of the same size to the same address, aligned or not,
  returns the bytes stored, and the store changes no byte outside them.\<close>

theorem flat_store_load:
  assumes "sf < 4" "unat a + 8 \<le> mem_size_bytes"
  shows "\<exists>m'. fast_write1 p m a v sf False = Some (True, 0, m') \<and>
      fast_read1 q m' a sf False False = Some (Some (take_bit (8 * 2 ^ sf) v), m') \<and>
      (\<forall>i. i < flat_start a sf \<or> flat_start a sf + 2 ^ sf \<le> i \<longrightarrow> flat_data m' i = flat_data m i)"
proof -
  obtain m' where w: "fast_write1 p m a v sf False = Some (True, 0, m')" "writes a sf v m m'"
    using fast_write_bytes [OF assms, of p m v False] by auto
  obtain x where x: "fast_read1 q m' a sf False False = Some (Some x, m')" "reads a sf m' x"
    using fast_read_bytes [OF assms] by blast
  have "x = take_bit (8 * 2 ^ sf) v"
  proof (rule bit_word_eqI)
    fix i
    show "bit x i = bit (take_bit (8 * 2 ^ sf) v) i"
    proof (cases "i < 8 * 2 ^ sf")
      case True
      then have "i div 8 < 2 ^ sf" by (simp add: div_less_iff_less_mult mult.commute)
      then have "flat_data m' (flat_start a sf + i div 8) = ucast (drop_bit (8 * (i div 8)) v)"
        using w(2) by (simp add: writes_def)
      then have "bit x i \<longleftrightarrow> bit (ucast (drop_bit (8 * (i div 8)) v) :: u8) (i mod 8)"
        using x(2) True by (simp add: reads_def)
      then show ?thesis using True by (simp add: bit_ucast_iff bit_drop_bit_eq bit_take_bit_iff)
    qed (use x(2) in \<open>simp add: reads_def bit_take_bit_iff\<close>)
  qed
  then show ?thesis using w x by (auto simp: writes_def)
qed

theorem flat_store_load_witness:
  "\<exists>m'. fast_write1 0 \<lparr>flat_data = (\<lambda>_. 0), llsc_addrs = Map.empty\<rparr> 5 0x11223344 2 False = Some (True, 0, m') \<and>
      fast_read1 0 m' 5 2 False False = Some (Some 0x11223344, m') \<and>
      (\<forall>i. i < flat_start 5 2 \<or> flat_start 5 2 + 2 ^ 2 \<le> i \<longrightarrow> flat_data m' i = 0)"
  using flat_store_load [of 2 5 0 "\<lparr>flat_data = (\<lambda>_. 0), llsc_addrs = Map.empty\<rparr>" "0x11223344" 0]
  by (simp add: mem_size_bytes_def)

lemma write_value_narrow: "insAluResultHi k = 0 \<Longrightarrow> write_value k = ucast (insAluResult k)"
  by (simp add: write_value_def)

text \<open>C20: On the flat memory a store conditional to an address that the core has not linked reports
  failure in its result register, and stores the value all the same.\<close>

theorem failed_strex_stores:
  assumes "\<not> insL k" "insEXCF k" "\<not> insSUser k" "insP k" "\<not> insW k" "insSizeCode k < 3" "insRd k < 16"
    and "unat (insDataAddress k) + 8 \<le> mem_size_bytes" "llsc_addrs m (insDataAddress k) \<noteq> Some p"
  shows "\<exists>k' m'. exec_mem_operand_instr (fast_bus p) k m = Some (True, k', m') \<and> rd k' (insRd k) = 1 \<and>
      writes (insDataAddress k) (insSizeCode k) (ucast (rd k (insRm k))) m m'"
proof -
  let ?v = "ucast (rd k (insRm k)) :: u64"
  obtain m' where w: "fast_write1 p m (insDataAddress k) ?v (insSizeCode k) True = Some (True, 0, m')"
      "writes (insDataAddress k) (insSizeCode k) ?v m m'"
    using fast_write_bytes [of "insSizeCode k" "insDataAddress k" p m ?v True] assms(6,8,9) by auto
  then show ?thesis
    using assms(1-7) by (simp add: exec_mem_operand_instr_def mem_store_ex_def fast_bus_def write_value_narrow
        mem_writeback_def wr_def rd_def)
qed

theorem failed_strex_stores_witness:
  "\<exists>k' m'. exec_mem_operand_instr (fast_bus 1)
      ((arm_new 1)\<lparr>insEXCF := True, insP := True, insRd := 2, insRm := 3, insSizeCode := 2, insDataAddress := 8\<rparr>)
      \<lparr>flat_data = (\<lambda>_. 7), llsc_addrs = [8 \<mapsto> 0]\<rparr> = Some (True, k', m') \<and> rd k' 2 = 1 \<and> flat_data m' 9 = 0"
proof -
  let ?k = "(arm_new 1)\<lparr>insEXCF := True, insP := True, insRd := 2, insRm := 3, insSizeCode := 2, insDataAddress := 8\<rparr>"
  let ?m = "\<lparr>flat_data = (\<lambda>_. 7), llsc_addrs = [8 \<mapsto> 0]\<rparr>"
  have "\<exists>k' m'. exec_mem_operand_instr (fast_bus 1) ?k ?m = Some (True, k', m') \<and> rd k' (insRd ?k) = 1 \<and>
      writes (insDataAddress ?k) (insSizeCode ?k) (ucast (rd ?k (insRm ?k))) ?m m'"
    by (rule failed_strex_stores) (simp_all add: arm_new_def mem_size_bytes_def)
  then obtain k' m' where "exec_mem_operand_instr (fast_bus 1) ?k ?m = Some (True, k', m')" "rd k' 2 = 1"
    and w: "writes 8 2 0 ?m m'"
    by (auto simp: arm_new_def rd_def)
  moreover have "flat_data m' 9 = 0" using w by (simp add: writes_def flat_start_def)
  ultimately show ?thesis by blast
qed

section \<open>The interface of a memory of words\<close>

text \<open>What block transfers and fetches need: aligned words that are backed by memory can be read, by the
  program and by the fetch, and written, and a store changes one word.\<close>

locale arm_bus =
  fixes bus :: "'m bus" and word_at :: "'m \<Rightarrow> u32 \<Rightarrow> u32" and backed :: "u32 \<Rightarrow> bool"
  assumes load_word: "a AND 3 = 0 \<Longrightarrow> backed a \<Longrightarrow>
      read1 bus m a 2 opf False = Some (Some (ucast (word_at m a)), m)"
    and store_word: "a AND 3 = 0 \<Longrightarrow> backed a \<Longrightarrow>
      \<exists>m'. write1 bus m a v 2 False = Some (True, 0, m') \<and> word_at m' a = ucast v \<and>
        (\<forall>b. b AND 3 = 0 \<longrightarrow> b \<noteq> a \<longrightarrow> word_at m' b = word_at m b)"

definition flat_word :: "flat \<Rightarrow> u32 \<Rightarrow> u32" where
  "flat_word m a =
    (let b = (\<lambda>i. push_bit (8 * i) (ucast (flat_data m (unat a + i)))) in b 0 OR b 1 OR b 2 OR b 3)"

definition flat_backed :: "u32 \<Rightarrow> bool" where "flat_backed a \<longleftrightarrow> unat a + 8 \<le> mem_size_bytes"

lemma aligned_mod: "a AND 3 = 0 \<longleftrightarrow> unat (a :: u32) mod 4 = 0"
  by (simp add: unat_eq_zero flip: low_bits_3)

lemma aligned_start: "a AND 3 = 0 \<Longrightarrow> unat (a :: u32) div 4 * 4 = unat a"
  by (auto simp: aligned_mod)

lemma flat_word_bit: "bit (flat_word m a) i \<longleftrightarrow> i < 32 \<and> bit (flat_data m (unat a + i div 8)) (i mod 8)"
proof (cases "i < 32")
  case True
  then show ?thesis
    by (elim split8) (auto simp: flat_word_def Let_def bit_or_iff bit_push_bit_iff bit_ucast_iff bit8_out)
qed (auto dest: bit_imp_le_length)

lemma eval_aligned:
  assumes "a AND 3 = 0" "flat_backed a"
  shows "eval_mem32 a m = Some (flat_word m a)"
  using aligned_start [OF assms(1)] in_range(1) [OF assms(2) [unfolded flat_backed_def]]
  by (simp add: eval_mem32_def flat_word_def Let_def)

lemma word_after_write:
  assumes "writes a 2 v m m'"
  shows "flat_word m' a = ucast v"
    and "a AND 3 = 0 \<Longrightarrow> b AND 3 = 0 \<Longrightarrow> b \<noteq> a \<Longrightarrow> flat_word m' b = flat_word m b"
proof -
  show "flat_word m' a = ucast v"
  proof (rule bit_word_eqI)
    fix i assume "i < LENGTH(32)"
    then have "i div 8 < 4" by (simp add: div_less_iff_less_mult)
    then show "bit (flat_word m' a) i = bit (ucast v :: u32) i"
      using assms \<open>i < LENGTH(32)\<close>
      by (simp add: flat_word_bit writes_def flat_start_def bit_ucast_iff bit_drop_bit_eq)
  qed
  assume ab: "a AND 3 = 0" "b AND 3 = 0" "b \<noteq> a"
  then have "unat a \<noteq> unat b" "unat a mod 4 = 0" "unat b mod 4 = 0"
    using word_unat_eq_iff [of a b] by (auto simp: aligned_mod)
  then have d: "unat b + 4 \<le> unat a \<or> unat a + 4 \<le> unat b" by presburger
  have "flat_data m' (unat b + j) = flat_data m (unat b + j)" if "j < 4" for j
    using assms d that by (auto simp: writes_def flat_start_def)
  then show "flat_word m' b = flat_word m b"
    using assms by (intro bit_word_eqI) (simp add: flat_word_bit div_less_iff_less_mult)
qed

interpretation fast: arm_bus "fast_bus p" flat_word flat_backed for p
proof
  fix a :: u32 and m opf
  assume a: "a AND 3 = 0" "flat_backed a"
  note r = in_range(2,3) [OF a(2) [unfolded flat_backed_def]]
  show "read1 (fast_bus p) m a 2 opf False = Some (Some (ucast (flat_word m a)), m)"
    using a r eval_aligned [OF a] by (simp add: fast_bus_def fast_read1_def Let_def)
next
  fix a :: u32 and m v
  assume a: "a AND 3 = 0" "flat_backed a"
  obtain m' where "fast_write1 p m a v 2 False = Some (True, 0, m')" "writes a 2 v m m'"
    using fast_write_word [OF a(2) [unfolded flat_backed_def], of p m v False] by auto
  then show "\<exists>m'. write1 (fast_bus p) m a v 2 False = Some (True, 0, m') \<and> flat_word m' a = ucast v \<and>
        (\<forall>b. b AND 3 = 0 \<longrightarrow> b \<noteq> a \<longrightarrow> flat_word m' b = flat_word m b)"
    using word_after_write a(1) by (intro exI [of _ m']) (auto simp: fast_bus_def)
qed

end
