(* ===== verification/ArmCore.thy ===== *)
theory ArmCore
  imports ArmAlu ArmMem
begin

unbundle bit_operations_syntax

text \<open>
  Decoding of 32-bit ARM instructions and the clock of the core (\<^verbatim>\<open>armisa.cpp\<close>).

  Thumb instructions, the coprocessor and floating-point instructions and the software interrupts that
  reach the simulator are parameters (record \<open>external\<close>).
\<close>

record 'm external =
  thumb_ins :: "arm \<Rightarrow> 'm \<Rightarrow> (bool \<times> arm \<times> 'm) option"
  copro_ins :: "arm \<Rightarrow> 'm \<Rightarrow> (arm \<times> 'm) option"
  float_ins :: "arm \<Rightarrow> 'm \<Rightarrow> (bool \<times> arm \<times> 'm) option"
  arm_swi_backdoor :: "u32 \<Rightarrow> arm \<Rightarrow> 'm \<Rightarrow> (arm \<times> 'm) option"

abbreviation ins_is :: "arm \<Rightarrow> u32 \<Rightarrow> u32 \<Rightarrow> bool" where
  "ins_is k m v \<equiv> instruction k AND m = v"

abbreviation ibit :: "arm \<Rightarrow> nat \<Rightarrow> bool" where "ibit k n \<equiv> Bit (instruction k) n"
abbreviation ireg :: "arm \<Rightarrow> nat \<Rightarrow> nat" where "ireg k n \<equiv> Bits4 (instruction k) n"

section \<open>Unconditional instructions\<close>

definition branch_offset :: "arm \<Rightarrow> u32" where
  "branch_offset k = (if ibit k 23 then Bits (instruction k) 0 24 OR 0xFF000000 else Bits (instruction k) 0 24)"

definition DecodeBarrier :: "nat \<Rightarrow> arm \<Rightarrow> arm" where
  "DecodeBarrier type_code k =
    (if type_code = 5 \<and> m_core_no k > 0 then k\<lparr>shutdown_sequence := True\<rparr> else k)"

definition change_state :: "arm \<Rightarrow> arm" where
  "change_state k =
    (let ins = instruction k;
         imod = Bits ins 18 2; changemode = Bit ins 17;
         msk = (if Bit ins 8 then push_bit 8 1 else 0) OR (if Bit ins 7 then push_bit 7 1 else 0)
               OR (if Bit ins 6 then push_bit 6 1 else 0);
         v = rd k CpsrReg;
         v = (if v AND 0x1F \<noteq> 0x10
              then let v = (if imod = 2 then v AND NOT msk else v);
                       v = (if imod = 3 then v OR msk else v)
                   in if changemode then (v AND NOT 0x1F) OR Bits ins 0 5 else v
              else v);
         k = wr CpsrReg v k
     in if changemode then DecodeSetModeFromCpsr k else k)"

text \<open>The first component tells whether the decoder returns at once.\<close>

definition decode_uncond :: "arm \<Rightarrow> bool \<times> arm" where
  "decode_uncond k =
    (if instruction k = 0xFFFFFFFF then (True, k\<lparr>insDecodeT := UndefinedT\<rparr>)
     else if ins_is k 0xFB00000 0x4200000 \<or> ins_is k 0xFB00000 0x4000000 then
       (True, k\<lparr>insDecodeT := FloatT\<rparr>)
     else if ins_is k 0xE000000 0xA000000 then
       let off = push_bit 2 (branch_offset k) OR push_bit 1 (of_bool (ibit k 24));
           k = k\<lparr>insDecodeT := BranchT, insOffset := off, insL := True\<rparr>;
           k = ExecuteBL (rd k PcReg + off) k
       in (True, wr CpsrReg (rd k CpsrReg OR push_bit 5 1) k)
     else if ins_is k 0x57FF01F 0x57FF01F then (True, k)
     else if ins_is k 0xFFFFF00 0x57FF000 then (True, DecodeBarrier (ireg k 4) k)
     else if ins_is k 0x510F000 0x510F000 then (True, k)
     else if ins_is k 0xE80F000 0x480F000 then (False, k)
     else if ins_is k 0xF000000 0x1000000 then (True, change_state k)
     else (False, k\<lparr>insCcodeTest := False\<rparr>))"

section \<open>Data processing\<close>

definition decode_smul :: "arm \<Rightarrow> arm" where
  "decode_smul k =
    (let k = k\<lparr>insRd := ireg k 16, insRm := ireg k 8, insRn := ireg k 0\<rparr>;
         half = (\<lambda>h v. if h then signed_drop_bit 16 v else v AND 0xFFFF)
     in k\<lparr>insAluOperand1 := half (ibit k 5) (rd k (insRn k)),
          insAluOperand2 := half (ibit k 6) (rd k (insRm k)),
          insMultAccum := 0, insS := False, insMultOp := MULT_Signed, insDecodeT := MulT\<rparr>)"

definition decode_multiply :: "arm \<Rightarrow> arm" where
  "decode_multiply k =
    (let A = ibit k 21;
         k = k\<lparr>insS := ibit k 20, insRm := ireg k 0, insRs := ireg k 8, insRd := ireg k 16,
               insRn := ireg k 12, insMultAccum := 0, insDecodeT := MulT\<rparr>;
         k = k\<lparr>insAluOperand1 := rd k (insRm k), insAluOperand2 := rd k (insRs k)\<rparr>;
         pair = ucast (rd k (insRn k)) OR push_bit 32 (ucast (rd k (insRd k)))
     in if ibit k 23 \<and> ibit k 22 \<and> ibit k 21 then
          k\<lparr>insMultAccum := pair, insRdHi := insRd k, insRdLo := insRn k, insMultOp := MULT_SignedLong\<rparr>
        else if \<not> ibit k 23 then
          (if A then k\<lparr>insMultOp := MULT_Unsigned, insMultAccum := ucast (rd k (insRn k)),
                      insAluOperand1 := (if ibit k 22 then - insAluOperand1 k else insAluOperand1 k)\<rparr>
           else k\<lparr>insMultOp := MULT_Unsigned, insRn := UndefinedReg\<rparr>)
        else if ibit k 22 then
          k\<lparr>insMultOp := MULT_SignedLong, insRdHi := insRd k, insRdLo := insRn k\<rparr>
        else
          k\<lparr>insMultOp := MULT_UnsignedLong, insMultAccum := (if A then pair else 0),
            insRdHi := insRd k, insRdLo := insRn k, insRn := (if A then insRn k else UndefinedReg)\<rparr>)"

text \<open>Halfword, signed, doubleword and exclusive transfers.  The size and direction:\<close>

definition extra_kind :: "arm \<Rightarrow> bool \<Rightarrow> (bool \<times> nat \<times> bool \<times> bool) option" where
  "extra_kind k excl =
    (let form = instruction k AND 0x100060; hi = Bits (instruction k) 21 3
     in if excl \<and> hi = 7 then Some (ibit k 20, 1, False, ibit k 22)
        else if excl \<and> hi = 6 then Some (ibit k 20, 0, False, False)
        else if excl \<and> hi = 5 then Some (ibit k 20, 3, False, False)
        else if form = 0x20 then Some (False, 1, False, True)
        else if form = 0x40 then Some (True, 3, False, True)
        else if form = 0x60 then Some (False, 3, False, True)
        else if form = 0x100020 then Some (True, 1, False, True)
        else if form = 0x100040 then Some (True, 0, True, True)
        else if form = 0x100060 then Some (True, 1, True, True)
        else if excl then Some (ibit k 20, 2, False, False)
        else None)"

text \<open>Above, the last component tells that the instruction has an offset.\<close>

definition decode_extra :: "arm \<Rightarrow> arm option" where
  "decode_extra k =
    (let excl = ins_is k 0xF00 0xF00
     in do {
       (load, sz, sgn, has_off) \<leftarrow> extra_kind k excl;
       let off = (if \<not> has_off then 0
                  else if ibit k 22 then of_nat (ireg k 8) * 16 + of_nat (ireg k 0)
                  else rd k (ireg k 0));
       let off = (if ibit k 23 then off else - off);
       let k = (if has_off \<and> \<not> ibit k 22 then k\<lparr>insRs := ireg k 0\<rparr> else k);
       Some (k\<lparr>insU := ibit k 23, insW := ibit k 21, insEXCF := excl, insSigned := sgn, insL := load,
               insSizeCode := sz, insDataOffset := off,
               insDataAddress := (if insP k then rd k (ireg k 16) + off else rd k (ireg k 16)),
               insRd := ireg k 12, insRm := (if excl then ireg k 0 else insRm k),
               insDecodeT := SynchronisationT\<rparr>)
     })"

definition decode_bx :: "arm \<Rightarrow> arm" where
  "decode_bx k =
    (let k = k\<lparr>insL := ibit k 5, insDecodeT := BxT, insRn := ireg k 0\<rparr>;
         v = rd k (insRn k);
         k = wr CpsrReg ((rd k CpsrReg AND NOT (push_bit 5 1)) OR push_bit 5 (v AND 1)) k
     in ExecuteBL (rd k (insRn k) AND NOT 1) (k\<lparr>insOffset := 0\<rparr>))"

fun clz_loop :: "nat \<Rightarrow> u32 \<Rightarrow> nat" where
  "clz_loop 0 a = 0"
| "clz_loop (Suc n) a = (if a AND push_bit 31 1 \<noteq> 0 then 0 else Suc (clz_loop n (push_bit 1 a)))"

definition decode_clz :: "arm \<Rightarrow> arm" where
  "decode_clz k =
    (let k = k\<lparr>insRd := ireg k 12, insRm := ireg k 0, insRn := UndefinedReg, insDecodeT := ARM32ExecutedT\<rparr>
     in wr (insRd k) (of_nat (clz_loop 32 (rd k (insRm k)))) k)"

text \<open>Major opcode 0, before it joins major opcode 1; the first component tells that it does.\<close>

definition decode_misc :: "arm \<Rightarrow> (bool \<times> arm) option" where
  "decode_misc k =
    (if ins_is k 0xF900010 0x1000000 then
       if ibit k 24 \<and> ibit k 22 \<and> ibit k 21 \<and> ibit k 7 then Some (False, decode_smul k)
       else if \<not> ibit k 21 then map_option (Pair False) (DecodeMrs k)
       else map_option (Pair False) (DecodeMsr (ireg k 16) k)
     else if ins_is k 0xE000090 0x90 \<or> ins_is k 0xF900090 0x1000010 then
       if ins_is k 0x0F0000F0 0x90 then Some (False, decode_multiply k)
       else if ins_is k 0x90 0x90 \<and> (ireg k 24 = 0 \<or> ireg k 24 = 1) then map_option (Pair False) (decode_extra k)
       else if ins_is k 0xFFFFFD0 0x12FFF10 then Some (False, decode_bx k)
       else if ins_is k 0xFFF0FF0 0x16F0F10 then Some (False, decode_clz k)
       else if ins_is k 0xB0 0xB0 then Some (False, k\<lparr>runstate := MidHalfwordS\<rparr>)
       else None
     else Some (True, k))"

definition exec_hint :: "nat \<Rightarrow> arm \<Rightarrow> arm option" where
  "exec_hint opr k =
    (if opr = 0 then Some k
     else if opr = 1 then Some (k\<lparr>reset_or_yield_countdown := 4\<rparr>)
     else if opr = 2 then
       Some (if event_register k then k\<lparr>event_register := False\<rparr>
             else k\<lparr>last_event := inter_core_event k, wait_for_event := True\<rparr>)
     else if opr = 3 then Some (k\<lparr>wait_for_interrupt := True\<rparr>)
     else if opr = 4 then
       Some (k\<lparr>inter_core_event :=
         push_bit 8 (drop_bit 8 (inter_core_event k) + 1) OR of_nat (m_core_no k)\<rparr>)
     else None)"

definition decode_movt :: "arm \<Rightarrow> arm" where
  "decode_movt k =
    (let top = push_bit 12 (Bits (instruction k) 16 4) OR Bits (instruction k) 0 12; r = ireg k 12
     in wr r ((rd k r AND 0xFFFF) OR push_bit 16 top) (k\<lparr>insRd := r\<rparr>))"

definition decode_rrx :: "arm \<Rightarrow> arm option" where
  "decode_rrx k =
    (let k = k\<lparr>insRd := ireg k 12, insDecodeT := ARM32ExecutedT\<rparr>;
         rm = rd k (ireg k 0);
         k = k\<lparr>insAluResult := push_bit 31 (of_bool (CFlag k)) OR drop_bit 1 rm\<rparr>;
         k = wr (insRd k) (insAluResult k) k
     in if insRd k = 15 then None
        else if ibit k 20 then updateFlags FMODE_arith32 (Bit rm 0) (VFlag k) k
        else Some k)"

definition decode_alu :: "arm \<Rightarrow> arm option" where
  "decode_alu k =
    do {
      let ins = instruction k;
      let k = k\<lparr>insDecodeT := AluT, insShiftCarryOut := False\<rparr>;
      k \<leftarrow> (if Bit ins 25
             then Some (k\<lparr>insAluOperand2 := Ror (Bits ins 0 8) (2 * Bits4 ins 8)\<rparr>)
             else
               let k = k\<lparr>insRm := Bits4 ins 0, insShiftType := unat (Bits ins 5 2), insShiftComputed := Bit ins 4\<rparr>
               in if Bit ins 4
                  then if Bit ins 7 then None
                       else exec_shift_operand_instr (k\<lparr>insShiftValue := rd k (Bits4 ins 8), insRs := Bits4 ins 8\<rparr>)
                  else exec_shift_operand_instr (k\<lparr>insShiftValue := Bits ins 7 5\<rparr>));
      Some (k\<lparr>insALUOpcode := Bits4 ins 21, insAluOperand1 := rd k (insRn k)\<rparr>)
    }"

text \<open>A hint falls through into the arithmetic decoder, as a test without flags.\<close>

definition decode_data :: "arm \<Rightarrow> arm option" where
  "decode_data k =
    do {
      let imm_msr = ins_is k 0xFB00000 0x3200000;
      let hint = (ireg k 16 = 0 \<and> ireg k 12 = 15 \<and> ireg k 8 = 0 \<and> ireg k 4 = 0);
      (if imm_msr \<and> \<not> hint then
         if ireg k 16 = 0 then Some k else DecodeMsr (ireg k 16) k
       else do {
         k \<leftarrow> (if imm_msr then exec_hint (ireg k 0) k else Some k);
         (if ins_is k 0xFF00000 0x3400000 then Some (decode_movt k)
          else if ins_is k 0xFEF0FF0 0x1A00060 then decode_rrx k
          else if Bits (instruction k) 25 3 = 0 \<and> ibit k 22 \<and> ibit k 7 \<and> ibit k 4 then
            Some (k\<lparr>runstate := MidHalfwordS\<rparr>)
          else if Bits (instruction k) 23 5 = 2 \<and> Bits (instruction k) 20 2 = 0 \<and> Bits (instruction k) 4 8 = 9
            then None
          else decode_alu k)
       })
    }"

section \<open>Media instructions\<close>

definition uqsub8 :: "u32 \<Rightarrow> u32 \<Rightarrow> u32" where
  "uqsub8 a b =
    (let d = (\<lambda>i. let x = drop_bit (8 * i) a AND 0xFF; y = drop_bit (8 * i) b AND 0xFF
                  in push_bit (8 * i) (if x > y then x - y else 0))
     in d 0 OR d 1 OR d 2 OR d 3)"

definition extend_field :: "arm \<Rightarrow> arm" where
  "extend_field k =
    (let hw = ibit k 20; v = drop_bit (8 * unat (Bits (instruction k) 10 2)) (rd k (insRn k));
         v = (if \<not> insSigned k then v AND (if hw then 0xFFFF else 0xFF)
              else if hw then signed_drop_bit 16 (push_bit 16 v) else signed_drop_bit 24 (push_bit 24 v));
         radd = ireg k 16
     in if radd \<noteq> 15 then wr (insRd k) (v + rd k radd) (k\<lparr>insRs := radd\<rparr>) else wr (insRd k) v k)"

definition swap_by :: "nat \<Rightarrow> u32 \<Rightarrow> u32 \<Rightarrow> u32 \<Rightarrow> u32" where
  "swap_by n lo hi d = (drop_bit n d AND lo) OR (push_bit n d AND hi)"

definition byte_reverse :: "nat \<Rightarrow> u32 \<Rightarrow> u32" where
  "byte_reverse code d =
    (if code = 0 then
       (drop_bit 24 d AND 0xFF) OR (drop_bit 8 d AND 0xFF00) OR (push_bit 8 d AND 0xFF0000)
         OR (push_bit 24 d AND 0xFF000000)
     else if code = 1 then swap_by 8 0x00FF00FF 0xFF00FF00 d
     else if code = 2 then
       swap_by 1 0x55555555 0xAAAAAAAA (swap_by 2 0x33333333 0xCCCCCCCC
         (swap_by 4 0xF0F0F0F0 0xF0F0F0F0 (swap_by 8 0x00FF00FF 0xFF00FF00
           (swap_by 16 0x0000FFFF 0xFFFF0000 d))))
     else
       let d = (drop_bit 8 d AND 0xFF) OR (push_bit 8 d AND 0xFF00)
       in if d AND 0x8000 \<noteq> 0 then d OR 0xFFFF0000 else d)"

text \<open>Fields whose shifts would reach the word width are undefined in the source.\<close>

definition insert_field :: "arm \<Rightarrow> arm option" where
  "insert_field k =
    (let rn = ireg k 0; r = ireg k 12; lsb = unat (Bits (instruction k) 7 5);
         msb = unat (Bits (instruction k) 16 5); width = msb + 1 - lsb
     in if msb < lsb \<or> width > 31 then None
        else
          let new_value = push_bit lsb (drop_bit (32 - width) (push_bit (32 - width) (rd k rn)));
              old_value = rd k r AND NOT (push_bit lsb (push_bit width 1 - 1))
          in Some ((wr r (old_value OR new_value) k)\<lparr>insRd := r, insRn := rn\<rparr>))"

definition extract_field :: "arm \<Rightarrow> arm option" where
  "extract_field k =
    (let base = unat (Bits (instruction k) 7 5); width = unat (Bits (instruction k) 16 5) + 1;
         v = push_bit (32 - base - width) (rd k (insRn k))
     in if base + width > 32 then None
        else Some (wr (insRd k) (if \<not> insSigned k then drop_bit (32 - width) v
                                 else signed_drop_bit (32 - width) v) k))"

text \<open>Major opcode 3, before it joins major opcode 2.\<close>

definition decode_media :: "arm \<Rightarrow> (bool \<times> arm) option" where
  "decode_media k =
    (if ins_is k 0xFF00FF0 0x6600FF0 then
       let k = k\<lparr>insRd := ireg k 12, insRm := ireg k 0, insRn := ireg k 16\<rparr>
       in Some (False, wr (insRd k) (uqsub8 (rd k (insRn k)) (rd k (insRm k))) k)
     else if ins_is k 0xE000010 0x6000010 then
       let k = k\<lparr>insRd := ireg k 12, insRn := ireg k 0, insSigned := \<not> ibit k 22\<rparr>
       in map_option (Pair False)
            (if ins_is k 0xF0 0x70 then Some (extend_field k)
             else if ins_is k 0x70 0x30 then
               Some (wr (insRd k) (byte_reverse (2 * of_bool (ibit k 22) + of_bool (ibit k 7)) (rd k (insRn k))) k)
             else if ins_is k 0x70 0x10 \<and> \<not> ibit k 21 then insert_field k
             else extract_field k)
     else Some (True, k))"

section \<open>The decoder\<close>

definition decode_fields :: "arm \<Rightarrow> arm" where
  "decode_fields k =
    k\<lparr>insP := ibit k 24, insU := ibit k 23, insB := ibit k 22, insW := ibit k 21, insL := ibit k 20,
      insS := ibit k 20, insRn := ireg k 16, insRd := ireg k 12, insEXCF := False\<rparr>"

definition decode_branch :: "arm \<Rightarrow> arm" where
  "decode_branch k =
    (let off = branch_offset k;
         k = k\<lparr>insDecodeT := BranchT, insL := ibit k 24, insOffset := off\<rparr>;
         k = (if m_core_no k = 0 \<and> off = -2 \<or> m_core_no k > 0 \<and> last_shutdown_sequence k \<and> off = -3
              then k\<lparr>shutdown_sequence := True\<rparr> else k)
     in ExecuteBL (rd k PcReg + push_bit 2 off) k)"

definition decode_major :: "'m external \<Rightarrow> arm \<Rightarrow> 'm \<Rightarrow> (arm \<times> 'm) option" where
  "decode_major ext k m =
    (let major = Bits (instruction k) 25 3; on_core = map_option (\<lambda>k. (k, m));
         single = map_option (\<lambda>k. k\<lparr>runstate := MidSingleS\<rparr>) \<circ> DecodeSingle
     in if major = 0 then
          on_core (do { (more_data, k) \<leftarrow> decode_misc k; (if more_data then decode_data k else Some k) })
        else if major = 1 then on_core (decode_data k)
        else if major = 2 then on_core (single k)
        else if major = 3 then
          on_core (do { (transfer, k) \<leftarrow> decode_media k; (if transfer then single k else Some k) })
        else if major = 4 then
          Some (k\<lparr>insDecodeT := BlockT, insS := ibit k 22, insMultRegisters := ucast (instruction k),
                  runstate := MidMultipleS\<rparr>, m)
        else if major = 5 then Some (decode_branch k, m)
        else if major = 7 \<and> \<not> ins_is k 0xE00A10 0xE00A10 \<and> \<not> ins_is k 0xBF0ED0 0xB00A40 \<and> ibit k 24 then
          Some (k\<lparr>insDecodeT := SwiT, insSWIArg := Bits (instruction k) 0 24\<rparr>, m)
        else copro_ins ext k m)"

text \<open>The first component is the flag \<^verbatim>\<open>executed\<close>.\<close>

definition DecodeArmInstruction :: "'m external \<Rightarrow> arm \<Rightarrow> 'm \<Rightarrow> (bool \<times> arm \<times> 'm) option" where
  "DecodeArmInstruction ext k m =
    do {
      let k = k\<lparr>insDecodeT := UnknownT, insSUser := False\<rparr>;
      let conder = unat (drop_bit 28 (instruction k));
      (returned, k) \<leftarrow> (if conder \<noteq> 15 then map_option (Pair False) (DecodeCcode conder k)
                         else Some (decode_uncond k));
      (if returned then Some (True, k, m)
       else if \<not> insCcodeTest k then
         Some (False, if Bits (instruction k) 25 3 = 5 then k\<lparr>insOffset := branch_offset k, insL := ibit k 20\<rparr> else k, m)
       else map_option (Pair True) (decode_major ext (decode_fields k) m))
    }"

section \<open>The clock\<close>

definition data_abort :: "arm \<Rightarrow> arm option" where
  "data_abort k = map_option (\<lambda>k. k\<lparr>runstate := RunningS\<rparr>) (DecodeTrap AbortMode DataVector k)"

text \<open>A transfer that is refused ends in a data abort.\<close>

definition transfer :: "'m bus \<Rightarrow> (arm \<Rightarrow> arm option) \<Rightarrow> arm \<Rightarrow> 'm \<Rightarrow> (arm \<times> 'm) option" where
  "transfer bus done k m =
    do {
      (ok, k, m) \<leftarrow> exec_mem_operand_instr bus k m;
      map_option (\<lambda>k. (k, m)) (if ok then done k else data_abort k)
    }"

definition single_done :: "arm \<Rightarrow> arm option" where
  "single_done k = Some (k\<lparr>runstate := RunningS\<rparr>)"

definition block_done :: "arm \<Rightarrow> arm option" where
  "block_done k =
    map_option (\<lambda>(fin, k). if fin then k\<lparr>runstate := RunningS\<rparr> else k) (DecodeMultiple2 k)"

definition exec_swi :: "'m external \<Rightarrow> arm \<Rightarrow> 'm \<Rightarrow> (arm \<times> 'm) option" where
  "exec_swi ext k m =
    (if insSWIArg k \<ge> 200 \<and> insSWIArg k < 300 then arm_swi_backdoor ext (insSWIArg k - 200) k m
     else map_option (\<lambda>k. (k, m)) (DecodeTrap SupervisorMode SwiVector (wr PcReg (rd k PcReg - 4) k)))"

definition execute_decoded :: "'m bus \<Rightarrow> 'm external \<Rightarrow> arm \<Rightarrow> 'm \<Rightarrow> (arm \<times> 'm) option" where
  "execute_decoded bus ext k m =
    (let on_core = map_option (\<lambda>k. (k, m))
     in case insDecodeT k of
          SynchronisationT \<Rightarrow> transfer bus Some k m
        | AluT \<Rightarrow> on_core (exec_alu_operand_instr k)
        | ParallelAluT \<Rightarrow> on_core (exec_parallel_alu_operand_instr k)
        | MulT \<Rightarrow> on_core (exec_mul_operand_instr k)
        | SwiT \<Rightarrow> exec_swi ext k m
        | UndefinedT \<Rightarrow>
            on_core (map_option (\<lambda>k. k\<lparr>runstate := RunningS\<rparr>) (DecodeTrap UndefinedMode UndefinedVector k))
        | FloatT \<Rightarrow> do { (ok, k, m) \<leftarrow> float_ins ext k m; map_option (\<lambda>k. (k, m)) (if ok then Some k else data_abort k) }
        | FloatMemoryT \<Rightarrow> do { (ok, k, m) \<leftarrow> float_ins ext k m; map_option (\<lambda>k. (k, m)) (if ok then Some k else data_abort k) }
        | FloatALUT \<Rightarrow> do { (ok, k, m) \<leftarrow> float_ins ext k m; Some (k, m) }
        | TableBranchT \<Rightarrow>
            do {
              (d, m) \<leftarrow> read1 bus m (insDataAddress k) (insSizeCode k) False False;
              (case d of None \<Rightarrow> map_option (\<lambda>k. (k, m)) (data_abort k)
               | Some v \<Rightarrow>
                   let k = k\<lparr>read_data64 := v\<rparr>;
                       off = read_data k AND (if insSizeCode k = 0 then 0xFF else 0xFFFF)
                   in if insSizeCode k > 1 then None
                      else Some (ExecuteBL ((rd k PcReg - ARM_PC_CORRECTION + 2 * off) AND NOT 1)
                                  (k\<lparr>insL := False\<rparr>), m))
            }
        | _ \<Rightarrow> Some (k, m))"

text \<open>A single transfer and a halfword transfer are completed in the same call (\<^verbatim>\<open>goto again\<close>), which
  reads the instruction set of the next instruction from the status register once more.\<close>

definition latch_thumb :: "arm \<Rightarrow> arm" where
  "latch_thumb k = k\<lparr>prev_thumb_mode := thumb_mode k, thumb_mode := Bit (rd k CpsrReg) 5\<rparr>"

definition finish_transfer :: "'m bus \<Rightarrow> arm \<Rightarrow> 'm \<Rightarrow> (arm \<times> 'm) option" where
  "finish_transfer bus k m =
    (if runstate k = MidSingleS then
       let k = latch_thumb k in if insDecodeT k \<noteq> SingleT then None else transfer bus single_done k m
     else if runstate k = MidHalfwordS then transfer bus single_done (DecodeHalfword (latch_thumb k)) m
     else Some (k, m))"

definition clear_ins_regs :: "arm \<Rightarrow> arm" where
  "clear_ins_regs k = k\<lparr>insRn := UndefinedReg, insRd := UndefinedReg, insRs := UndefinedReg,
     insRm := UndefinedReg, insRdHi := UndefinedReg, insRdLo := UndefinedReg\<rparr>"

definition halt_core :: "arm \<Rightarrow> arm" where
  "halt_core k = k\<lparr>sigval_trap := True, sim_commands := sim_commands k @ [CORE_HALT]\<rparr>"

text \<open>The checks before a fetch: the instruction limit and the breakpoints.  The first component tells that
  the core stops before the instruction.\<close>

definition check_stop :: "arm \<Rightarrow> (bool \<times> arm) option" where
  "check_stop k =
    (let limited = stop_after_ins_count k \<ge> 0;
         k = (if limited then k\<lparr>stop_after_ins_count := stop_after_ins_count k - 1\<rparr> else k);
         w = point_index (insAddress k) (pc_breakpoints k)
     in if limited \<and> stop_after_ins_count k = -1 then Some (True, halt_core k)
        else if instruction_grace k then Some (False, k\<lparr>instruction_grace := False\<rparr>)
        else if w < length (pc_breakpoints k) then
          (if snd (pc_breakpoints k ! w) = SingleStep
           then map_option (\<lambda>(rc, k). (True, k)) (delete_breakpoint 0 (int w) (halt_core k))
           else Some (True, halt_core k))
        else Some (False, k))"

definition fetched :: "u64 \<Rightarrow> arm \<Rightarrow> arm" where
  "fetched v k =
    (let k = wr PcReg (rd k PcReg + (if thumb_mode k then 2 else 4)) (k\<lparr>read_data64 := v, instruction := ucast v\<rparr>)
     in clear_ins_regs (k\<lparr>last_shutdown_sequence := shutdown_sequence k, shutdown_sequence := False\<rparr>))"

definition run_instruction :: "'m bus \<Rightarrow> 'm external \<Rightarrow> arm \<Rightarrow> 'm \<Rightarrow> (arm \<times> 'm) option" where
  "run_instruction bus ext k m =
    do {
      (stopped, k) \<leftarrow> check_stop (k\<lparr>insAddress := rd k PcReg - ARM_PC_CORRECTION\<rparr>);
      (if stopped then Some (k, m)
       else do {
         (d, m) \<leftarrow> read1 bus m (insAddress k) (if thumb_mode k then 1 else 2) True False;
         (case d of
            None \<Rightarrow> map_option (\<lambda>k. (k, m)) (DecodeTrap AbortMode DataVector (wr PcReg (rd k PcReg + 4) k))
          | Some v \<Rightarrow>
              do {
                let k = fetched v k;
                (executed, k, m) \<leftarrow> (if thumb_mode k then thumb_ins ext k m else DecodeArmInstruction ext k m);
                (k, m) \<leftarrow> execute_decoded bus ext k m;
                finish_transfer bus k m
              })
       })
    }"

definition bodystate_clock :: "'m bus \<Rightarrow> 'm external \<Rightarrow> arm \<Rightarrow> 'm \<Rightarrow> (arm \<times> 'm) option" where
  "bodystate_clock bus ext k m =
    (let k = latch_thumb k
     in case runstate k of
          ResettingS \<Rightarrow>
            let k = SetMode SystemMode False (k\<lparr>thumb_mode := False\<rparr>);
                k = wr PcReg (vector_address ResetVector + vectorBase k + ARM_PC_CORRECTION + 0x20000) k
            in Some (wr CpsrReg (rd k CpsrReg OR 0xDF) k, m)
        | StartingS \<Rightarrow>
            let k = k\<lparr>insAddress := rd k PcReg - ARM_PC_CORRECTION\<rparr>
            in do {
              (d, m) \<leftarrow> read1 bus m (insAddress k) 2 True False;
              (case d of None \<Rightarrow> None | Some v \<Rightarrow> Some (k\<lparr>read_data64 := v, runstate := RunningS\<rparr>, m))
            }
        | RunningS \<Rightarrow> run_instruction bus ext k m
        | MidSingleS \<Rightarrow> if insDecodeT k \<noteq> SingleT then None else transfer bus single_done k m
        | MidHalfwordS \<Rightarrow> transfer bus single_done (DecodeHalfword k) m
        | MidMultipleS \<Rightarrow> map_option (\<lambda>k. (k\<lparr>runstate := MidMultiple2S\<rparr>, m)) (DecodeMultiple k)
        | MidMultiple2S \<Rightarrow> if insDecodeT k \<noteq> BlockT then None else transfer bus block_done k m
        | MidCoproXferS \<Rightarrow> None)"

definition execute :: "'m bus \<Rightarrow> 'm external \<Rightarrow> arm \<Rightarrow> 'm \<Rightarrow> (arm \<times> 'm) option" where
  "execute bus ext k m =
    bodystate_clock bus ext (if runstate k = ResettingS then k\<lparr>runstate := StartingS\<rparr> else k) m"

text \<open>The main loop of the stand-alone simulator: one clock of every core in turn, over one memory.\<close>

fun run_cores :: "flat external \<Rightarrow> arm list \<Rightarrow> flat \<Rightarrow> (arm list \<times> flat) option" where
  "run_cores ext [] m = Some ([], m)"
| "run_cores ext (k # ks) m =
    do {
      (k, m) \<leftarrow> execute (fast_bus (m_core_no k)) ext k m;
      (ks, m) \<leftarrow> run_cores ext ks m;
      Some (k # ks, m)
    }"

fun run_clocks :: "nat \<Rightarrow> 'm bus \<Rightarrow> 'm external \<Rightarrow> arm \<Rightarrow> 'm \<Rightarrow> (arm \<times> 'm) option" where
  "run_clocks 0 bus ext k m = Some (k, m)"
| "run_clocks (Suc n) bus ext k m =
    do { (k, m) \<leftarrow> execute bus ext k m; run_clocks n bus ext k m }"

lemma run_clocks_add:
  "run_clocks (a + b) bus ext k m =
    do { (k, m) \<leftarrow> run_clocks a bus ext k m; run_clocks b bus ext k m }"
  by (induction a arbitrary: k m) (auto split: Option.bind_splits)

section \<open>Running freely\<close>

text \<open>A core between two instructions, in ARM state, with no limit and no breakpoint.\<close>

definition ready :: "arm \<Rightarrow> bool" where
  "ready k \<longleftrightarrow> runstate k = RunningS \<and> stop_after_ins_count k < 0 \<and> \<not> instruction_grace k
     \<and> pc_breakpoints k = [] \<and> \<not> Bit (raw_reg k CpsrReg) 5"

text \<open>The instruction set the core decodes with once the word \<open>w\<close> at the program counter is fetched.\<close>

definition fetch_state :: "u32 \<Rightarrow> arm \<Rightarrow> arm" where
  "fetch_state w k = fetched (ucast w) ((latch_thumb k)\<lparr>insAddress := rd k PcReg - ARM_PC_CORRECTION\<rparr>)"

lemma ucast_64_32 [simp]: "(ucast (ucast w :: u64) :: u32) = w"
  by (rule bit_word_eqI) (simp add: bit_ucast_iff)

lemma fetch_state_sel [simp]:
  assumes "ready k"
  shows "instruction (fetch_state w k) = w" "currentBank (fetch_state w k) = currentBank k"
    "currentMode (fetch_state w k) = currentMode k" "runstate (fetch_state w k) = RunningS"
    "thumb_mode (fetch_state w k) = False" "stop_after_ins_count (fetch_state w k) = stop_after_ins_count k"
    "instruction_grace (fetch_state w k) = False" "pc_breakpoints (fetch_state w k) = []"
    "m_core_no (fetch_state w k) = m_core_no k"
    "raw_reg (fetch_state w k) = (raw_reg k)(15 := raw_reg k 15 + 4)"
  using assms
  by (simp_all add: fetch_state_def fetched_def latch_thumb_def clear_ins_regs_def wr_def rd_def ready_def Let_def)

context arm_bus
begin

lemma execute_ready:
  assumes "ready k" "(rd k 15 - 4) AND 3 = 0" "backed (rd k 15 - 4)" and w: "word_at m (rd k 15 - 4) = w"
  shows "execute bus ext k m =
    do { (executed, k, m) \<leftarrow> DecodeArmInstruction ext (fetch_state w k) m;
         (k, m) \<leftarrow> execute_decoded bus ext k m;
         finish_transfer bus k m }"
proof -
  have pc: "rd (latch_thumb k) 15 = rd k 15" by (simp add: latch_thumb_def rd_def)
  have stop: "check_stop ((latch_thumb k)\<lparr>insAddress := rd k 15 - 4\<rparr>)
      = Some (False, (latch_thumb k)\<lparr>insAddress := rd k 15 - 4\<rparr>)"
    using assms(1) by (simp add: check_stop_def ready_def latch_thumb_def Let_def)
  have th: "thumb_mode (latch_thumb k) = False"
    using assms(1) by (simp add: ready_def latch_thumb_def rd_def)
  have th2: "thumb_mode (fetch_state w k) = False" using assms(1) by simp
  note rw = load_word [OF assms(2,3), where opf = True and m = m, unfolded w]
  have run: "runstate k = RunningS" using assms(1) by (simp add: ready_def)
  have lt: "runstate (latch_thumb k) = runstate k" by (simp add: latch_thumb_def)
  have fs: "fetched (ucast w) ((latch_thumb k)\<lparr>insAddress := rd k 15 - 4\<rparr>) = fetch_state w k"
    by (simp add: fetch_state_def ARM_PC_CORRECTION_def)
  show ?thesis
    using run lt by (simp add: execute_def bodystate_clock_def
        run_instruction_def pc stop th rw ARM_PC_CORRECTION_def fs th2)
qed

end

end
