(* ===== verification/TlmMem.thy ===== *)
theory TlmMem
  imports Prelude "HOL-Library.Monad_Syntax"
begin

unbundle bit_operations_syntax

text \<open>
  The memory side of the SystemC platform: generic payloads, the locks of load-linked and
  store-conditional (\<^verbatim>\<open>tenos/llsc_extension.h\<close>), the paged memory (\<^verbatim>\<open>memories/generic_tlm_mem.cpp\<close>,
  \<^verbatim>\<open>.h\<close>), and the bus access unit of the cores (\<^verbatim>\<open>tenos/cpu_busaccess.cpp\<close>) with its direct memory
  pointers and its atomic exchange.

  Delays, power accounting, statistics and tracing are left out.  \<open>None\<close> is an assertion that fails or a
  read of an indeterminate variable; the bytes of a fresh page, which the source leaves indeterminate,
  are 0.
\<close>

section \<open>Payloads\<close>

datatype tlm_response = TLM_OK | TLM_ADDRESS_ERROR | TLM_BURST_ERROR | TLM_GENERIC_ERROR

text \<open>The data of a write as 64-bit words; byte enables as booleans (their length is the byte enable
  length); the identity in the load-linked extension, when the payload has one.\<close>

record payload =
  is_write :: bool
  address :: u64
  data_length :: nat
  pdata :: "u64 list"
  byte_enables :: "bool list option"
  llsc_id :: "nat option"

section \<open>Load-linked and store-conditional\<close>

record llsc_locks_t =
  llsc0_a :: u64
  llsc0_id :: nat
  llsc1_a :: u64
  llsc1_id :: nat

definition llsc_new :: llsc_locks_t where
  "llsc_new = \<lparr>llsc0_a = - 1, llsc0_id = 0, llsc1_a = - 1, llsc1_id = 0\<rparr>"

text \<open>The address of a load-linked is cut to 32 bits, and the test for a free lock compares the 64-bit
  address with \<^verbatim>\<open>(unsigned int)-1\<close>.\<close>

definition loadlocked :: "nat \<Rightarrow> u64 \<Rightarrow> llsc_locks_t \<Rightarrow> llsc_locks_t" where
  "loadlocked owner adr lks =
    (let a = ucast (ucast adr :: u32)
     in if llsc0_a lks = a then lks\<lparr>llsc0_id := owner\<rparr>
        else if llsc1_a lks = a then lks\<lparr>llsc1_id := owner\<rparr>
        else if llsc0_a lks = 0xFFFFFFFF then lks\<lparr>llsc0_a := a, llsc0_id := owner\<rparr>
        else lks\<lparr>llsc1_a := a, llsc1_id := owner\<rparr>)"

text \<open>The first component tells whether the store must fail.\<close>

definition storeconditional_fail :: "nat \<Rightarrow> u64 \<Rightarrow> llsc_locks_t \<Rightarrow> bool \<times> llsc_locks_t" where
  "storeconditional_fail owner adr lks =
    (if llsc0_a lks = adr \<and> llsc0_id lks = owner then (False, lks\<lparr>llsc0_a := - 1\<rparr>)
     else if llsc1_a lks = adr \<and> llsc1_id lks = owner then (False, lks\<lparr>llsc1_a := - 1\<rparr>)
     else (True, lks))"

section \<open>The paged memory\<close>

record generic_tlm_mem =
  mem_base :: u64
  mem_bytes :: u64
  pages :: "u64 \<rightharpoonup> (nat \<Rightarrow> u8)"
  last_page :: "u64 option"
  llsc_locks :: llsc_locks_t

definition generic_mem_new :: "u64 \<Rightarrow> u64 \<Rightarrow> u32 \<Rightarrow> generic_tlm_mem option" where
  "generic_mem_new base sz width =
    (let bytes = sz div (ucast width div 8)
     in if width < 8 \<or> bytes = 0 then None
        else Some \<lparr>mem_base = base, mem_bytes = bytes, pages = Map.empty, last_page = None, llsc_locks = llsc_new\<rparr>)"

definition page_of :: "u64 \<Rightarrow> u64" where "page_of a = a AND NOT 0xFFF"
definition page_off :: "u64 \<Rightarrow> nat" where "page_off a = unat (a AND 0xFFF)"

text \<open>A page knows its base as an \<^verbatim>\<open>int\<close>.\<close>

definition page_base :: "u64 \<Rightarrow> u64" where "page_base a0 = scast (ucast a0 :: u32)"

definition page_word :: "(nat \<Rightarrow> u8) \<Rightarrow> nat \<Rightarrow> u64" where
  "page_word p n = fold (\<lambda>i w. w OR push_bit (8 * i) (ucast (p (n + i)))) [0..<8] 0"

definition page_put :: "u64 \<Rightarrow> nat \<Rightarrow> (nat \<Rightarrow> u8) \<Rightarrow> nat \<Rightarrow> u8" where
  "page_put d n p = (\<lambda>i. if n \<le> i \<and> i < n + 8 then ucast (drop_bit (8 * (i - n)) d) else p i)"

definition ip_read8 :: "u64 \<Rightarrow> generic_tlm_mem \<Rightarrow> u8 \<times> generic_tlm_mem" where
  "ip_read8 a m =
    (case pages m (page_of a) of
       None \<Rightarrow> (0, m\<lparr>last_page := None\<rparr>)
     | Some p \<Rightarrow> (p (page_off a), m\<lparr>last_page := Some (page_of a)\<rparr>))"

definition ip_read64 :: "u64 \<Rightarrow> generic_tlm_mem \<Rightarrow> (u64 \<times> generic_tlm_mem) option" where
  "ip_read64 a m =
    (if page_off a mod 8 \<noteq> 0 then None
     else Some (case pages m (page_of a) of
       None \<Rightarrow> (0, m)
     | Some p \<Rightarrow> (page_word p (page_off a), m\<lparr>last_page := Some (page_of a)\<rparr>)))"

definition page_at :: "generic_tlm_mem \<Rightarrow> u64 \<Rightarrow> nat \<Rightarrow> u8" where
  "page_at m a0 = (case pages m a0 of None \<Rightarrow> (\<lambda>_. 0) | Some p \<Rightarrow> p)"

definition put_page :: "u64 \<Rightarrow> (nat \<Rightarrow> u8) \<Rightarrow> generic_tlm_mem \<Rightarrow> generic_tlm_mem" where
  "put_page a0 p m = m\<lparr>pages := (pages m)(a0 \<mapsto> p), last_page := Some a0\<rparr>"

definition ip_write8 :: "u64 \<Rightarrow> u8 \<Rightarrow> generic_tlm_mem \<Rightarrow> generic_tlm_mem" where
  "ip_write8 a d m = put_page (page_of a) ((page_at m (page_of a))(page_off a := d)) m"

definition ip_write64 :: "u64 \<Rightarrow> u64 \<Rightarrow> generic_tlm_mem \<Rightarrow> generic_tlm_mem option" where
  "ip_write64 a d m =
    (if page_off a mod 8 \<noteq> 0 then None
     else Some (put_page (page_of a) (page_put d (page_off a) (page_at m (page_of a))) m))"

text \<open>\<^verbatim>\<open>access\<close>, one word of the payload at a time.\<close>

definition read_words :: "u64 \<Rightarrow> nat \<Rightarrow> generic_tlm_mem \<Rightarrow> (u64 list \<times> generic_tlm_mem) option" where
  "read_words adr n m =
    fold (\<lambda>i acc. do { (ws, m) \<leftarrow> acc; (w, m) \<leftarrow> ip_read64 (adr + of_nat (8 * i)) m; Some (ws @ [w], m) })
      [0..<n] (Some ([], m))"

definition write_word :: "payload \<Rightarrow> u64 \<Rightarrow> nat \<Rightarrow> generic_tlm_mem \<Rightarrow> generic_tlm_mem option" where
  "write_word t adr i m =
    (let dd = 8 * i; d = pdata t ! i; whole = ip_write64 (adr + of_nat dd) d m
     in case byte_enables t of
          None \<Rightarrow> whole
        | Some ls \<Rightarrow>
            let bel = length ls
            in if bel = 0 \<or> (\<forall>l \<in> set [0..<8]. ls ! (dd mod bel div 8 * 8 + l)) then whole
               else Some (fold (\<lambda>l m. if ls ! ((dd + l) mod bel)
                 then ip_write8 (adr + of_nat (l + dd)) (ucast (drop_bit (8 * l) d)) m else m) [0..<8] m))"

text \<open>The response, the words read, whether direct memory pointers are encouraged, and the new state.\<close>

definition mem_access :: "payload \<Rightarrow> generic_tlm_mem \<Rightarrow> (tlm_response \<times> u64 list \<times> bool \<times> generic_tlm_mem) option" where
  "mem_access t m =
    (let adr = address t - mem_base m; n = data_length t div 8
     in if adr \<ge> mem_bytes m then Some (TLM_ADDRESS_ERROR, [], False, m)
        else if data_length t mod 8 \<noteq> 0 then Some (TLM_BURST_ERROR, [], False, m)
        else if \<not> is_write t then
          do {
            let m = (case llsc_id t of None \<Rightarrow> m | Some owner \<Rightarrow> m\<lparr>llsc_locks := loadlocked owner adr (llsc_locks m)\<rparr>);
            (ws, m) \<leftarrow> read_words adr n m;
            Some (TLM_OK, ws, True, m)
          }
        else
          let (failed, lks) = (case llsc_id t of None \<Rightarrow> (False, llsc_locks m)
                               | Some owner \<Rightarrow> storeconditional_fail owner adr (llsc_locks m));
              m = m\<lparr>llsc_locks := lks\<rparr>
          in if failed then Some (TLM_ADDRESS_ERROR, [], False, m)
             else map_option (\<lambda>m. (TLM_OK, [], True, m))
                    (fold (\<lambda>i acc. Option.bind acc (write_word t adr i)) [0..<n] (Some m)))"

text \<open>The direct memory pointer: the range, and the page it points to.  Without a last page the record of the
  caller is left as it was.\<close>

definition get_direct_mem_ptr :: "generic_tlm_mem \<Rightarrow> (u64 \<times> u64 \<times> u64) option" where
  "get_direct_mem_ptr m = map_option (\<lambda>p. (page_base p, page_base p + 4095, p)) (last_page m)"

section \<open>The bus access unit\<close>

text \<open>What lies behind the sockets of a core: the blocking transport of each socket, the request for a
  direct memory pointer (range and page; \<open>None\<close> leaves the caller's record alone), and the memory such a
  pointer points to.\<close>

record 't sockets =
  b_transport :: "nat \<Rightarrow> payload \<Rightarrow> 't \<Rightarrow> (tlm_response \<times> u64 list \<times> bool \<times> 't) option"
  dmi_request :: "'t \<Rightarrow> (u64 \<times> u64 \<times> u64) option"
  dmi_word :: "'t \<Rightarrow> u64 \<Rightarrow> nat \<Rightarrow> u64"

text \<open>How often a latency is measured before its average is trusted.\<close>

record confidence_switcher =
  sw_n :: nat
  sw_N :: nat
  sw_toskip :: nat
  sw_random :: nat

definition measurement_needed :: "confidence_switcher \<Rightarrow> bool \<times> confidence_switcher" where
  "measurement_needed s =
    (if sw_n s < sw_N s then (True, s)
     else if sw_random s + 1 > 531 then (True, s\<lparr>sw_random := 0\<rparr>)
     else (False, s\<lparr>sw_random := sw_random s + 1\<rparr>))"

definition record_measurement :: "confidence_switcher \<Rightarrow> confidence_switcher" where
  "record_measurement s =
    (if sw_toskip s > 0 then s\<lparr>sw_toskip := sw_toskip s - 1\<rparr>
     else if sw_n s \<ge> sw_N s then s else s\<lparr>sw_n := sw_n s + 1\<rparr>)"

record dmi_record =
  data_valid :: bool
  dmi_start :: u64
  dmi_end :: u64
  dmi_ptr :: "u64 option"
  read_latency :: confidence_switcher

record 't cpu_busaccess =
  ENDIAN_FLIP :: u64
  procID :: nat
  harvardf :: bool
  disable_dmi :: bool
  atomics :: nat
  atomic_width :: nat
  atomic_wdata :: u64
  atomic_addr :: u64
  DMI_data :: dmi_record
  DMI_insn :: dmi_record
  lastfetch :: u64
  sim_stopped :: bool
  target :: 't

definition dmi_new :: "nat \<Rightarrow> dmi_record" where
  "dmi_new N = \<lparr>data_valid = False, dmi_start = 0, dmi_end = - 1, dmi_ptr = None,
     read_latency = \<lparr>sw_n = 0, sw_N = N, sw_toskip = N, sw_random = 0\<rparr>\<rparr>"

definition cpu_busaccess_new :: "nat \<Rightarrow> u64 \<Rightarrow> nat \<Rightarrow> bool \<Rightarrow> bool \<Rightarrow> 't \<Rightarrow> 't cpu_busaccess" where
  "cpu_busaccess_new confidence flip idx harvard nodmi t =
    \<lparr>ENDIAN_FLIP = flip, procID = idx, harvardf = harvard, disable_dmi = nodmi, atomics = 0, atomic_width = 0,
     atomic_wdata = 0, atomic_addr = 0, DMI_data = dmi_new confidence, DMI_insn = dmi_new confidence,
     lastfetch = 0, sim_stopped = False, target = t\<rparr>"

definition dmi_get :: "nat \<Rightarrow> 't cpu_busaccess \<Rightarrow> dmi_record" where
  "dmi_get skt b = (if skt = 0 then DMI_data b else DMI_insn b)"

definition dmi_put :: "nat \<Rightarrow> dmi_record \<Rightarrow> 't cpu_busaccess \<Rightarrow> 't cpu_busaccess" where
  "dmi_put skt d b = (if skt = 0 then b\<lparr>DMI_data := d\<rparr> else b\<lparr>DMI_insn := d\<rparr>)"

definition dmi_covers :: "u64 \<Rightarrow> dmi_record \<Rightarrow> bool" where
  "dmi_covers a d \<longleftrightarrow> data_valid d \<and> dmi_start d \<le> a \<and> a \<le> dmi_end d - 8"

definition read_payload :: "u64 \<Rightarrow> nat \<Rightarrow> nat option \<Rightarrow> payload" where
  "read_payload a len owner =
    \<lparr>is_write = False, address = a, data_length = len, pdata = [], byte_enables = None, llsc_id = owner\<rparr>"

text \<open>After a transaction: the measurement is logged and, where the target encourages it, a direct memory
  pointer is asked for (always through the data socket).\<close>

definition dmi_update :: "'t sockets \<Rightarrow> bool \<Rightarrow> 't \<Rightarrow> dmi_record \<Rightarrow> dmi_record" where
  "dmi_update sk encouraged t d =
    (let d = d\<lparr>read_latency := record_measurement (read_latency d)\<rparr>
     in if \<not> encouraged then d
        else case dmi_request sk t of
               None \<Rightarrow> d\<lparr>data_valid := True\<rparr>
             | Some (lo, hi, p) \<Rightarrow> d\<lparr>data_valid := True, dmi_start := lo, dmi_end := hi, dmi_ptr := Some p\<rparr>)"

text \<open>\<^verbatim>\<open>mem_read\<close>: the value is \<open>None\<close> when the response is an error.\<close>

definition mem_read :: "'t sockets \<Rightarrow> u64 \<Rightarrow> bool \<Rightarrow> nat \<Rightarrow> nat \<Rightarrow> 't cpu_busaccess \<Rightarrow> (u64 option \<times> 't cpu_busaccess) option" where
  "mem_read sk memaddr linked skt not64 b =
    (let d = dmi_get skt b;
         (measure, sw) = measurement_needed (read_latency d);
         d = d\<lparr>read_latency := sw\<rparr>;
         b = dmi_put skt d b;
         out_skt = (if harvardf b then skt else 0);
         owner = (if linked then Some (procID b) else None)
     in case (if \<not> measure \<and> \<not> linked \<and> dmi_covers memaddr d then dmi_ptr d else None) of
          Some p \<Rightarrow> Some (Some (dmi_word sk (target b) p (unat (drop_bit 3 (memaddr - dmi_start d)))), b)
        | None \<Rightarrow>
            do {
              (rc, ws, dmi, t) \<leftarrow> b_transport sk out_skt (read_payload memaddr (if not64 = 3 then 8 else 4) owner) (target b);
              let b = b\<lparr>target := t\<rparr>;
              Some (if rc \<noteq> TLM_OK then (None, b)
                    else (Some (hd (ws @ [0])), dmi_put skt (dmi_update sk (\<not> disable_dmi b \<and> dmi) t d) b))
            })"

definition write_payload :: "u64 \<Rightarrow> u64 \<Rightarrow> bool list option \<Rightarrow> nat option \<Rightarrow> payload" where
  "write_payload a d ls owner =
    \<lparr>is_write = True, address = a, data_length = 8, pdata = [d], byte_enables = ls, llsc_id = owner\<rparr>"

definition mask_lanes :: "u64 \<Rightarrow> u8 \<Rightarrow> bool list" where
  "mask_lanes flip msk = map (\<lambda>j. bit msk (unat (of_nat j XOR flip))) [0..<8]"

definition mem_write :: "'t sockets \<Rightarrow> u64 \<Rightarrow> u8 \<Rightarrow> u64 \<Rightarrow> 't cpu_busaccess \<Rightarrow> (bool \<times> 't cpu_busaccess) option" where
  "mem_write sk memaddr msk wdata b =
    do {
      let ls = (if msk = 0 then None else Some (mask_lanes (ENDIAN_FLIP b) msk));
      (rc, ws, dmi, t) \<leftarrow> b_transport sk 0 (write_payload memaddr wdata ls None) (target b);
      Some (rc = TLM_OK, b\<lparr>target := t\<rparr>)
    }"

text \<open>A store conditional: 1 for success, 0 for a lost lock, 2 for a fault.  A halfword gets the byte enables
  of a word.\<close>

definition llsc_lanes :: "u64 \<Rightarrow> nat \<Rightarrow> bool list" where
  "llsc_lanes a width = map (\<lambda>j. if width = 8 then j = unat (a AND 7) else (j \<ge> 4) = bit a 2) [0..<8]"

definition llsc_data :: "u64 \<Rightarrow> nat \<Rightarrow> u64" where
  "llsc_data v width =
    (if width = 8 then let v = v AND 0xFF; w = v OR push_bit 8 v; w = w OR push_bit 16 w in w OR push_bit 32 w
     else if width = 16 then let v = v AND 0xFFFF; w = v OR push_bit 16 v in w OR push_bit 32 w
     else let v = v AND 0xFFFFFFFF in v OR push_bit 32 v)"

definition cpu_mem_store_conditional :: "'t sockets \<Rightarrow> u64 \<Rightarrow> u64 \<Rightarrow> nat \<Rightarrow> 't cpu_busaccess \<Rightarrow> (nat \<times> 't cpu_busaccess) option" where
  "cpu_mem_store_conditional sk memaddr v width b =
    (let a = memaddr AND NOT 7; me = Some (procID b)
     in if width \<notin> {8, 16, 32, 64} then None
        else do {
          (rc, ws, dmi, t) \<leftarrow> b_transport sk 0
            (if width = 64 then write_payload a v None me
             else write_payload a (llsc_data v width) (Some (llsc_lanes (memaddr XOR ENDIAN_FLIP b) width)) me) (target b);
          Some (if rc = TLM_OK then 1 else if rc = TLM_GENERIC_ERROR then 2 else 0, b\<lparr>target := t\<rparr>)
        })"

text \<open>The atomic exchange repeats until the store succeeds; a refused load is a fatal report.\<close>

partial_function (option) eval_xchg ::
  "'t sockets \<Rightarrow> u64 \<Rightarrow> u64 \<Rightarrow> nat \<Rightarrow> 't cpu_busaccess \<Rightarrow> (nat \<times> u64 \<times> 't cpu_busaccess) option" where
  [code]: "eval_xchg sk memaddr wdata width b =
    Option.bind (mem_read sk (memaddr AND NOT 7) True 0 3 b) (\<lambda>(r, b).
      case r of None \<Rightarrow> None
      | Some rdata \<Rightarrow>
          Option.bind (cpu_mem_store_conditional sk memaddr wdata width b) (\<lambda>(ok2, b).
            if ok2 = 0 then eval_xchg sk memaddr wdata width b
            else Some (ok2, if width = 32 \<and> bit (memaddr XOR ENDIAN_FLIP b) 2 then drop_bit 32 rdata else rdata, b)))"

definition UNCACHED_ADDRESS_SPACE64 :: "u64 \<Rightarrow> bool" where
  "UNCACHED_ADDRESS_SPACE64 a \<longleftrightarrow> a \<ge> 0xE0000000"

text \<open>The second half of an exchange: the pending store meets its load.\<close>

definition finish_xchg :: "'t sockets \<Rightarrow> u64 \<Rightarrow> nat \<Rightarrow> 't cpu_busaccess \<Rightarrow> (u64 option \<times> 't cpu_busaccess) option" where
  "finish_xchg sk memaddr width b =
    (if atomics b \<noteq> 1 \<or> atomic_width b \<noteq> width then None
     else do {
       (ok, r, b) \<leftarrow> eval_xchg sk memaddr (atomic_wdata b) width (b\<lparr>atomics := 0\<rparr>);
       Some (if ok = 1 then Some r else None, b)
     })"

definition ba_eval_mem64 :: "'t sockets \<Rightarrow> u64 \<Rightarrow> bool \<Rightarrow> 't cpu_busaccess \<Rightarrow> (u64 option \<times> 't cpu_busaccess) option" where
  "ba_eval_mem64 sk memaddr linked b =
    (if atomics b \<noteq> 0
     then if memaddr AND NOT 7 = atomic_addr b then finish_xchg sk memaddr 64 b else Some (None, b)
     else mem_read sk memaddr linked 0 3 b)"

definition ba_eval_mem32 :: "'t sockets \<Rightarrow> u64 \<Rightarrow> bool \<Rightarrow> 't cpu_busaccess \<Rightarrow> (u32 option \<times> 't cpu_busaccess) option" where
  "ba_eval_mem32 sk memaddr linked b =
    (let low = (\<lambda>sh. map_option (\<lambda>(r, b). (map_option (\<lambda>r. ucast (drop_bit sh r) :: u32) r, b)))
     in if atomics b \<noteq> 0 \<and> memaddr AND NOT 7 = atomic_addr b then low 0 (finish_xchg sk memaddr 32 b)
        else if UNCACHED_ADDRESS_SPACE64 memaddr
        then low 0 (mem_read sk ((memaddr AND NOT 3) XOR (ENDIAN_FLIP b AND 4)) linked 0 2 b)
        else low (8 * unat ((ENDIAN_FLIP b XOR memaddr) AND 4)) (mem_read sk (memaddr AND NOT 7) linked 0 3 b))"

text \<open>A halfword that straddles two doublewords is read twice, but the byte of the second doubleword is
  overwritten by one of the first before it is used.\<close>

definition ba_eval_mem16 :: "'t sockets \<Rightarrow> u64 \<Rightarrow> bool \<Rightarrow> 't cpu_busaccess \<Rightarrow> (u16 option \<times> 't cpu_busaccess) option" where
  "ba_eval_mem16 sk memaddr linked b =
    (let a = memaddr AND NOT 7
     in if memaddr AND 7 = 7
        then do {
          (r1, b) \<leftarrow> mem_read sk a linked 0 3 b;
          (case r1 of None \<Rightarrow> Some (None, b)
           | Some rdata1 \<Rightarrow>
             do {
               (r2, b) \<leftarrow> mem_read sk (a + 8) linked 0 3 b;
               let rdata1 = drop_bit 56 rdata1;
               let rdata2 = drop_bit 56 (push_bit 56 rdata1);
               Some (map_option (\<lambda>_. ucast (push_bit 8 rdata1 OR rdata2)) r2, b)
             })
        }
        else
          let shift = unat ((memaddr XOR NOT (ENDIAN_FLIP b)) AND 7) - unat (NOT (ENDIAN_FLIP b) AND 1)
          in map_option (\<lambda>(r, b). (map_option (\<lambda>r. ucast (drop_bit 48 (push_bit (shift * 8) r))) r, b))
               (mem_read sk a linked 0 3 b))"

definition ba_eval_mem8 :: "'t sockets \<Rightarrow> u64 \<Rightarrow> bool \<Rightarrow> 't cpu_busaccess \<Rightarrow> (u8 option \<times> 't cpu_busaccess) option" where
  "ba_eval_mem8 sk memaddr linked b =
    (let byte = (\<lambda>m. map_option (\<lambda>(r, b'). (map_option (\<lambda>r. ucast (drop_bit (8 * unat ((ENDIAN_FLIP b XOR memaddr) AND m)) r)) r, b')))
     in if UNCACHED_ADDRESS_SPACE64 memaddr
        then byte 3 (mem_read sk ((memaddr AND NOT 3) XOR (ENDIAN_FLIP b AND 4)) linked 0 2 b)
        else byte 7 (mem_read sk (memaddr AND NOT 7) linked 0 3 b))"

definition atomic_prefix :: "'t cpu_busaccess \<Rightarrow> 't cpu_busaccess" where
  "atomic_prefix b = b\<lparr>atomics := 2\<rparr>"

definition pend_store :: "u64 \<Rightarrow> u64 \<Rightarrow> nat \<Rightarrow> 't cpu_busaccess \<Rightarrow> (bool \<times> 't cpu_busaccess) option" where
  "pend_store memaddr wdata width b =
    (if atomics b \<noteq> 2 then None
     else Some (True, b\<lparr>atomics := 1, atomic_addr := memaddr AND NOT 7, atomic_wdata := wdata, atomic_width := width\<rparr>))"

definition ba_set_mem64 :: "'t sockets \<Rightarrow> u64 \<Rightarrow> u64 \<Rightarrow> 't cpu_busaccess \<Rightarrow> (bool \<times> 't cpu_busaccess) option" where
  "ba_set_mem64 sk memaddr wdata b =
    (if atomics b \<noteq> 0 then pend_store memaddr wdata 64 b else mem_write sk memaddr 0 wdata b)"

definition ba_set_mem32 :: "'t sockets \<Rightarrow> u64 \<Rightarrow> u32 \<Rightarrow> 't cpu_busaccess \<Rightarrow> (bool \<times> 't cpu_busaccess) option" where
  "ba_set_mem32 sk memaddr wdata b =
    (if atomics b \<noteq> 0 then pend_store memaddr (ucast wdata) 32 b
     else mem_write sk (memaddr AND NOT 4) (push_bit (unat (memaddr AND 4)) 15)
            (push_bit 32 (ucast wdata) OR ucast wdata) b)"

definition ba_set_mem16 :: "'t sockets \<Rightarrow> u64 \<Rightarrow> u16 \<Rightarrow> 't cpu_busaccess \<Rightarrow> (bool \<times> 't cpu_busaccess) option" where
  "ba_set_mem16 sk memaddr wdata b =
    (let wd = push_bit 16 (ucast wdata) OR ucast wdata; wd = wd OR push_bit 32 wd
     in mem_write sk (memaddr AND NOT 6) (push_bit (unat (memaddr AND 6)) 3) wd b)"

definition ba_set_mem8 :: "'t sockets \<Rightarrow> u64 \<Rightarrow> u8 \<Rightarrow> 't cpu_busaccess \<Rightarrow> (bool \<times> 't cpu_busaccess) option" where
  "ba_set_mem8 sk memaddr wdata b =
    (let wd = push_bit 8 (ucast wdata) OR ucast wdata; wd = wd OR push_bit 16 wd; wd = wd OR push_bit 32 wd
     in mem_write sk (memaddr AND NOT 7) (push_bit (unat (memaddr AND 7)) 1) wd b)"

text \<open>A fetch at 0xFFFFFFFC stops the simulation.\<close>

definition instr_fetch64 :: "'t sockets \<Rightarrow> u64 \<Rightarrow> 't cpu_busaccess \<Rightarrow> (u64 option \<times> 't cpu_busaccess) option" where
  "instr_fetch64 sk memaddr b =
    mem_read sk memaddr False 1 3
      (b\<lparr>lastfetch := memaddr, sim_stopped := sim_stopped b \<or> memaddr = 0xFFFFFFFC\<rparr>)"

definition invalidate_direct_mem_ptr0 :: "'t cpu_busaccess \<Rightarrow> 't cpu_busaccess" where
  "invalidate_direct_mem_ptr0 b =
    (let b = b\<lparr>DMI_data := (DMI_data b)\<lparr>data_valid := False\<rparr>\<rparr>
     in if harvardf b then b else b\<lparr>DMI_insn := (DMI_insn b)\<lparr>data_valid := False\<rparr>\<rparr>)"

definition invalidate_direct_mem_ptr1 :: "'t cpu_busaccess \<Rightarrow> 't cpu_busaccess" where
  "invalidate_direct_mem_ptr1 b = b\<lparr>DMI_insn := (DMI_insn b)\<lparr>data_valid := False\<rparr>\<rparr>"

definition busaccess_reset :: "'t cpu_busaccess \<Rightarrow> 't cpu_busaccess" where
  "busaccess_reset b = b\<lparr>atomics := 0\<rparr>"

text \<open>A core over one memory.\<close>

definition mem_sockets :: "generic_tlm_mem sockets" where
  "mem_sockets =
    \<lparr>b_transport = (\<lambda>_. mem_access), dmi_request = get_direct_mem_ptr,
     dmi_word = (\<lambda>m p i. page_word (page_at m p) (8 * i))\<rparr>"

end
