(* ===== verification/ArmTlm.thy ===== *)
theory ArmTlm
  imports ArmCore TlmMem
begin

unbundle bit_operations_syntax

text \<open>
  The SystemC wrapper of the ARM core (\<^verbatim>\<open>arm/armcore_tlm.cpp\<close>, \<^verbatim>\<open>.h\<close>): its loads, stores and fetches
  through the bus access unit, the backdoor addresses (\<^verbatim>\<open>arm/backdoor_reads.C\<close>,
  \<^verbatim>\<open>backdoor_writes.C\<close>), the main loop with interrupts, events and sleep, the commands to the simulator,
  and the debugger's requests (with \<^verbatim>\<open>gdbrsp/vhls_soc_debug.cpp\<close>).

  Simulated time, power accounting and tracing are left out.
\<close>

section \<open>Loads, stores and fetches\<close>

text \<open>What surrounds a core: its sockets, the devices behind the backdoor addresses and the clock.\<close>

record 't platform =
  sockets :: "'t sockets"
  stdin_read32 :: "u32 \<Rightarrow> 't \<Rightarrow> u32 \<times> 't"
  argv_read32 :: "u32 \<Rightarrow> u32"
  argc_value :: u32
  sim_ticks :: "'t \<Rightarrow> u32"

text \<open>The state that an access can change: the instruction mini-cache, the bus access unit, and the simulator
  commands written to the backdoor, oldest first.\<close>

record 't tlm_side =
  cached_adr :: u64
  cached_ins :: u64
  busaccess :: "'t cpu_busaccess"
  backdoor_cmds :: "u64 list"

definition tlm_side_new :: "'t cpu_busaccess \<Rightarrow> 't tlm_side" where
  "tlm_side_new b = \<lparr>cached_adr = 1, cached_ins = 0, busaccess = b, backdoor_cmds = []\<rparr>"

text \<open>The first component tells that the write was a backdoor command.\<close>

definition backdoor_write :: "u32 \<Rightarrow> u64 \<Rightarrow> 't tlm_side \<Rightarrow> (bool \<times> 't tlm_side) option" where
  "backdoor_write a wdata s =
    (if a = 0xFFFFFF90 then Some (True, s\<lparr>backdoor_cmds := backdoor_cmds s @ [wdata]\<rparr>)
     else if a = 0xFFFFFFF0 then None else Some (False, s))"

fun tlm_write_bytes :: "'t sockets \<Rightarrow> u64 \<Rightarrow> u8 list \<Rightarrow> 't cpu_busaccess \<Rightarrow> (bool \<times> 't cpu_busaccess) option" where
  "tlm_write_bytes sk a [] b = Some (True, b)"
| "tlm_write_bytes sk a (d # ds) b =
    do { (ok, b) \<leftarrow> ba_set_mem8 sk a d b; if ok then tlm_write_bytes sk (a + 1) ds b else Some (False, b) }"

definition tlm_write :: "'t sockets \<Rightarrow> u64 \<Rightarrow> u64 \<Rightarrow> nat \<Rightarrow> bool \<Rightarrow> 't cpu_busaccess \<Rightarrow> (bool \<times> nat \<times> 't cpu_busaccess) option" where
  "tlm_write sk a wdata sf scp b =
    (let plain = map_option (\<lambda>(ok, b). (ok, 0, b));
         bytes = (\<lambda>n. if scp then None else plain (tlm_write_bytes sk a (map (\<lambda>i. ucast (drop_bit (8 * i) wdata)) [0..<n]) b));
         cond = (\<lambda>w. map_option (\<lambda>(r, b). (True, r, b)) (cpu_mem_store_conditional sk a wdata w b));
         lo = ucast wdata :: u32; hi = ucast (drop_bit 32 wdata) :: u32
     in if sf = 0 then if scp then cond 8 else plain (ba_set_mem8 sk a (ucast wdata) b)
        else if sf = 1 then
          if bit a 0 then bytes 2 else if scp then cond 16 else plain (ba_set_mem16 sk a (ucast wdata) b)
        else if sf = 2 then
          if a AND 3 \<noteq> 0 then bytes 4 else if scp then cond 32 else plain (ba_set_mem32 sk a lo b)
        else if sf = 3 then
          if bit a 2 then
            if a AND 3 \<noteq> 0 then None
            else if scp then
              do { (r, b) \<leftarrow> cpu_mem_store_conditional sk a (ucast lo) 32 b;
                   (r, b) \<leftarrow> cpu_mem_store_conditional sk (a + 4) (ucast hi) 32 b; Some (True, r, b) }
            else do { (ok, b) \<leftarrow> ba_set_mem32 sk a lo b; plain (ba_set_mem32 sk (a + 4) hi b) }
          else if scp then cond 64 else plain (ba_set_mem64 sk a wdata b)
        else None)"

definition armisa_write1 :: "'t platform \<Rightarrow> 't tlm_side \<Rightarrow> u32 \<Rightarrow> u64 \<Rightarrow> nat \<Rightarrow> bool \<Rightarrow> (bool \<times> nat \<times> 't tlm_side) option" where
  "armisa_write1 p s memaddr wdata sf scp =
    do {
      (done, s) \<leftarrow> backdoor_write memaddr wdata s;
      if done then Some (True, 0, s)
      else map_option (\<lambda>(ok, r, b). (ok, r, s\<lparr>busaccess := b\<rparr>))
             (tlm_write (sockets p) (ucast memaddr) wdata sf scp (busaccess s))
    }"

text \<open>A backdoor read: \<open>None\<close> for an address that is no backdoor; otherwise the value, or \<open>None\<close> where
  the read is refused.\<close>

definition backdoor_word :: "u32 \<Rightarrow> nat \<Rightarrow> u32 \<Rightarrow> u64 option option" where
  "backdoor_word a sf v =
    (if sf = 0 then Some (Some (ucast (drop_bit (8 * unat (a AND 3)) v AND 0xFF)))
     else if sf = 2 then Some (Some (ucast v)) else None)"

definition backdoor_read :: "'t platform \<Rightarrow> u32 \<Rightarrow> nat \<Rightarrow> 't tlm_side \<Rightarrow> (u64 option \<times> 't tlm_side) option option" where
  "backdoor_read p a sf s =
    (let b = busaccess s; low = a AND 0xFFFF
     in if a AND 0xFFFF0000 = 0xFFFD0000 \<and> low < 0x4000 then
          let (v, t) = stdin_read32 p low (target b)
          in Some (map_option (\<lambda>r. (r, s\<lparr>busaccess := b\<lparr>target := t\<rparr>\<rparr>)) (backdoor_word a sf v))
        else if a AND 0xFFFF0000 = 0xFFFE0000 then
          Some (map_option (\<lambda>r. (r, s)) (backdoor_word a sf (argv_read32 p low)))
        else if a AND 0xFFFFF000 = 0xFFFD4000 then Some (Some (None, s))
        else if a AND 0xFFFFFF00 = 0xFFFFFF00 then
          let answer = (\<lambda>v. Some (Some (Some (ucast (v :: u32)), s)))
          in if a AND 0xF8 = 0x40 then answer (sim_ticks p (target b))
             else if a AND 0xF8 = 0x30 then answer (argc_value p)
             else if a AND 0xF8 = 0x10 then answer (of_nat (procID b))
             else if bit a 0 then Some None
             else answer 0x1234DEAD
        else None)"

text \<open>The mini-cache keeps the last doubleword fetched; its address is updated even when the fetch is
  refused.\<close>

definition ins_fetch :: "'t sockets \<Rightarrow> u32 \<Rightarrow> 't tlm_side \<Rightarrow> (u32 option \<times> 't tlm_side) option" where
  "ins_fetch sk adr s =
    (let a1 = ucast (adr AND NOT 7);
         half = (\<lambda>w :: u64. ucast (if bit adr 2 then drop_bit 32 w else w) :: u32)
     in if a1 = cached_adr s then Some (Some (half (cached_ins s)), s)
        else map_option (\<lambda>(r, b).
               (map_option half r,
                s\<lparr>busaccess := b, cached_adr := a1, cached_ins := (case r of None \<Rightarrow> cached_ins s | Some w \<Rightarrow> w)\<rparr>))
             (instr_fetch64 sk a1 (busaccess s)))"

definition eval_insn :: "'t sockets \<Rightarrow> u32 \<Rightarrow> nat \<Rightarrow> 't tlm_side \<Rightarrow> (u32 option \<times> 't tlm_side) option" where
  "eval_insn sk memaddr sf s =
    map_option (\<lambda>(r, s).
      (map_option (\<lambda>w. if sf = 1 then (if bit memaddr 1 then drop_bit 16 w else w) AND 0xFFFF else w) r, s))
      (ins_fetch sk memaddr s)"

text \<open>Two reads whose results are joined: the success code is that of the second.\<close>

definition join_reads :: "('a option \<times> 'b) option \<Rightarrow> ('b \<Rightarrow> ('a option \<times> 'b) option) \<Rightarrow> ('a \<Rightarrow> 'a \<Rightarrow> u64)
    \<Rightarrow> (u64 option \<times> 'b) option" where
  "join_reads first_read second_read f =
    do {
      (r1, b) \<leftarrow> first_read;
      (r2, b) \<leftarrow> second_read b;
      (case r2 of None \<Rightarrow> Some (None, b)
       | Some v2 \<Rightarrow> (case r1 of None \<Rightarrow> None | Some v1 \<Rightarrow> Some (Some (f v1 v2), b)))
    }"

definition tlm_read :: "'t sockets \<Rightarrow> u64 \<Rightarrow> nat \<Rightarrow> bool \<Rightarrow> 't cpu_busaccess \<Rightarrow> (u64 option \<times> 't cpu_busaccess) option" where
  "tlm_read sk a sf linked b =
    (let base = a AND NOT 3; off = unat (a AND 3)
     in if sf = 0 then map_option (\<lambda>(r, b). (map_option ucast r, b)) (ba_eval_mem8 sk a linked b)
        else if sf = 1 then
          if bit a 0 then
            join_reads (ba_eval_mem8 sk a linked b) (ba_eval_mem8 sk (a + 1) linked)
              (\<lambda>r1 r2. push_bit 8 (ucast r2) OR ucast r1)
          else map_option (\<lambda>(r, b). (map_option ucast r, b)) (ba_eval_mem16 sk a linked b)
        else if sf = 2 then
          if off \<noteq> 0 then
            join_reads (ba_eval_mem32 sk base linked b) (ba_eval_mem32 sk (base + 4) linked)
              (\<lambda>part1 part2. ucast (drop_bit (8 * off) part1 OR push_bit (32 - 8 * off) part2))
          else map_option (\<lambda>(r, b). (map_option ucast r, b)) (ba_eval_mem32 sk a linked b)
        else if sf = 3 then
          if bit a 2 then
            if off \<noteq> 0 then None
            else join_reads (ba_eval_mem32 sk a linked b) (ba_eval_mem32 sk (a + 4) linked)
                   (\<lambda>r0 r1. ucast r0 OR push_bit 32 (ucast r1))
          else ba_eval_mem64 sk a linked b
        else None)"

definition armisa_read1 :: "'t platform \<Rightarrow> 't tlm_side \<Rightarrow> u32 \<Rightarrow> nat \<Rightarrow> bool \<Rightarrow> bool \<Rightarrow> (u64 option \<times> 't tlm_side) option" where
  "armisa_read1 p s memaddr sf opf linked =
    (if memaddr = 0xFFFFFFFC then Some (Some 0, s)
     else if opf then map_option (\<lambda>(r, s). (map_option ucast r, s)) (eval_insn (sockets p) memaddr sf s)
     else case backdoor_read p memaddr sf s of
            Some r \<Rightarrow> r
          | None \<Rightarrow> map_option (\<lambda>(r, b). (r, s\<lparr>busaccess := b\<rparr>))
                      (tlm_read (sockets p) (ucast memaddr) sf linked (busaccess s)))"

definition tlm_bus :: "'t platform \<Rightarrow> 't tlm_side bus" where
  "tlm_bus p = \<lparr>read1 = armisa_read1 p, write1 = armisa_write1 p\<rparr>"

section \<open>The core\<close>

datatype debug_op = Idle | Ack | WriteReg | ReadReg | WriteMem | ReadMem | Control | Status
  | ReadSpr | WriteSpr | AndSpr | OrSpr | InsertMatchpoint | ReadMeta

record debug_cmd_s =
  dc_addr :: u64
  dc_data :: u64
  dc_lanes :: u64
  dc_cmd :: debug_op

record 't armcore_tlm =
  iss :: arm
  side :: "'t tlm_side"
  halted :: bool
  over :: bool
  shutdown_requests :: nat
  console :: "u8 list"
  debug_cmd :: debug_cmd_s

text \<open>The constructor; the fields it leaves uninitialised are \<open>False\<close> or 0.\<close>

definition armcore_tlm_new :: "nat \<Rightarrow> 't cpu_busaccess \<Rightarrow> 't armcore_tlm" where
  "armcore_tlm_new pID b =
    \<lparr>iss = (iss_reset (arm_new pID))\<lparr>reset_or_yield_countdown := pID * 5\<rparr>, side = tlm_side_new b,
     halted = False, over = False, shutdown_requests = 0, console = [],
     debug_cmd = \<lparr>dc_addr = 0, dc_data = 0, dc_lanes = 0, dc_cmd = Idle\<rparr>\<rparr>"

definition core_reset :: "bool \<Rightarrow> 't armcore_tlm \<Rightarrow> 't armcore_tlm" where
  "core_reset selfstart c = c\<lparr>iss := iss_reset (iss c), halted := \<not> selfstart\<rparr>"

definition core_sim_done :: "'t armcore_tlm \<Rightarrow> 't armcore_tlm" where
  "core_sim_done c = c\<lparr>side := (side c)\<lparr>busaccess := (busaccess (side c))\<lparr>sim_stopped := True\<rparr>\<rparr>, over := True\<rparr>"

definition iss_yield :: "int \<Rightarrow> 't armcore_tlm \<Rightarrow> 't armcore_tlm" where
  "iss_yield cycles c = c\<lparr>iss := (iss c)\<lparr>reset_or_yield_countdown := (if cycles < 0 then 4 else nat cycles)\<rparr>\<rparr>"

definition simulator_cmd :: "u32 \<Rightarrow> u32 \<Rightarrow> 't armcore_tlm \<Rightarrow> int \<times> 't armcore_tlm" where
  "simulator_cmd cmd arg0 c =
    (if cmd = 16 \<or> cmd = 12 then (0, c)
     else if cmd = 10 then (0, core_sim_done c)
     else if cmd = 14 then (0, iss_yield (- 1) c)
     else if cmd = 15 then (0, c\<lparr>halted := True\<rparr>)
     else if cmd = 11 then (0, c\<lparr>console := console c @ [ucast arg0]\<rparr>)
     else (- 1, c))"

text \<open>The commands that the instruction set simulator issued, and those written to the backdoor.\<close>

definition issue :: "sim_command \<Rightarrow> 't armcore_tlm \<Rightarrow> 't armcore_tlm" where
  "issue s c = snd (case s of CORE_HALT \<Rightarrow> simulator_cmd 15 0 c | SIM_DONE a \<Rightarrow> simulator_cmd 10 a c
     | WRCH a \<Rightarrow> simulator_cmd 11 a c | TRACE100 a \<Rightarrow> simulator_cmd 12 a c)"

definition run_commands :: "'t armcore_tlm \<Rightarrow> 't armcore_tlm" where
  "run_commands c =
    fold (\<lambda>w c. snd (simulator_cmd (ucast w) 0 c)) (backdoor_cmds (side c))
      (fold issue (sim_commands (iss c))
        (c\<lparr>iss := (iss c)\<lparr>sim_commands := []\<rparr>, side := (side c)\<lparr>backdoor_cmds := []\<rparr>\<rparr>))"

definition core_execute :: "'t platform \<Rightarrow> 't tlm_side external \<Rightarrow> 't armcore_tlm \<Rightarrow> 't armcore_tlm option" where
  "core_execute p ext c =
    map_option (\<lambda>(k, s). run_commands (c\<lparr>iss := k, side := s\<rparr>)) (execute (tlm_bus p) ext (iss c) (side c))"

section \<open>The main loop\<close>

text \<open>The interrupt is level sensitive and wakes the core even when it is masked.\<close>

definition poll_interrupt :: "bool \<Rightarrow> arm \<Rightarrow> arm option" where
  "poll_interrupt irq k =
    (if irq then
       let k = k\<lparr>wait_for_interrupt := False\<rparr>;
           k = (if wait_for_event k \<and> \<not> IRQFlag k then k\<lparr>wait_for_event := False\<rparr> else k)
       in map_option snd (hw_interrupt k)
     else Some k)"

definition poll_event :: "arm \<Rightarrow> arm" where
  "poll_event k =
    (let v = inter_core_event k
     in if (wait_for_event k \<or> \<not> event_register k) \<and>
           (v AND 0xFF \<noteq> last_event k AND 0xFF \<or> drop_bit 8 v \<noteq> drop_bit 8 (last_event k))
        then if wait_for_event k then k\<lparr>wait_for_event := False\<rparr> else k\<lparr>event_register := True\<rparr>
        else k)"

definition asleep :: "'t armcore_tlm \<Rightarrow> bool" where
  "asleep c \<longleftrightarrow> halted c \<or> wait_for_interrupt (iss c) \<or> wait_for_event (iss c)"

definition SHUTDOWN_WAIT :: nat where "SHUTDOWN_WAIT = 20"

definition watch_shutdown :: "'t armcore_tlm \<Rightarrow> 't armcore_tlm" where
  "watch_shutdown c =
    (if shutdown_sequence (iss c)
     then c\<lparr>over := over c \<or> shutdown_requests c > SHUTDOWN_WAIT, shutdown_requests := shutdown_requests c + 1\<rparr>
     else c\<lparr>shutdown_requests := 0\<rparr>)"

section \<open>Requests of the debugger\<close>

definition get_spr :: "nat \<Rightarrow> arm \<Rightarrow> u32" where
  "get_spr x k =
    (if 0x400 \<le> x \<and> x < 0x410 then rd k (x - 0x400)
     else if x = 16 then rd k PcReg
     else if x = 17 \<or> x = 0x19 then rd k CpsrReg
     else 0)"

definition set_reg :: "nat \<Rightarrow> u32 \<Rightarrow> arm \<Rightarrow> arm" where
  "set_reg x d k = (if x \<le> 15 then wr x d k else k)"

definition set_spr :: "nat \<Rightarrow> u32 \<Rightarrow> arm \<Rightarrow> arm" where
  "set_spr x d k = (if 0x400 \<le> x \<and> x < 0x410 then set_reg (x - 0x400) d k else k)"

text \<open>The parser of the remote protocol delivers registers in big-endian order.\<close>

definition swap32 :: "u32 \<Rightarrow> u32" where
  "swap32 d = (drop_bit 24 d AND 0xFF) OR (drop_bit 8 d AND 0xFF00) OR (push_bit 8 d AND 0xFF0000)
     OR (push_bit 24 d AND 0xFF000000)"

definition core_bus :: "('t cpu_busaccess \<Rightarrow> 't cpu_busaccess) \<Rightarrow> 't armcore_tlm \<Rightarrow> 't armcore_tlm" where
  "core_bus f c = c\<lparr>side := (side c)\<lparr>busaccess := f (busaccess (side c))\<rparr>\<rparr>"

text \<open>Register numbers come as \<^verbatim>\<open>int\<close>: the low half of the address.\<close>

definition dbg_reg :: "debug_cmd_s \<Rightarrow> nat" where "dbg_reg d = unat (ucast (dc_addr d) :: u32)"

definition dbg_read_mem :: "'t sockets \<Rightarrow> 't armcore_tlm \<Rightarrow> (u64 \<times> 't armcore_tlm) option" where
  "dbg_read_mem sk c =
    (let a = dc_addr (debug_cmd c); sh = 8 * unat (a AND 7)
     in if (ucast a :: u32) AND 0xFFFFFF00 = 0xFFFFFF00 then Some (drop_bit sh 0xDEADBEEF12345678 AND 0xFF, c)
        else do {
          (r, b) \<leftarrow> mem_read sk (ucast (ucast a AND NOT 7 :: u32)) False 0 3 (busaccess (side c));
          rd64 \<leftarrow> r;
          Some (drop_bit sh rd64 AND 0xFF, core_bus (\<lambda>_. b) c)
        })"

definition serve_debugger :: "'t sockets \<Rightarrow> 't armcore_tlm \<Rightarrow> 't armcore_tlm option" where
  "serve_debugger sk c =
    (let d = debug_cmd c; data = dc_data d; x = dbg_reg d; v = ucast data :: u32;
         ack = (\<lambda>c. Some (c\<lparr>debug_cmd := (debug_cmd c)\<lparr>dc_cmd := Ack\<rparr>\<rparr>));
         answer = (\<lambda>v c. Some (c\<lparr>debug_cmd := (debug_cmd c)\<lparr>dc_cmd := Ack, dc_data := v\<rparr>\<rparr>));
         update = (\<lambda>f. ack (c\<lparr>iss := f (iss c)\<rparr>))
     in case dc_cmd d of
          Ack \<Rightarrow> Some c
        | Idle \<Rightarrow> None
        | Control \<Rightarrow>
            if data = 0 then ack (c\<lparr>iss := iss_reset (iss c), halted := True\<rparr>)
            else if data = 2 then ack (c\<lparr>halted := False\<rparr>)
            else if data = 1 then ack (c\<lparr>halted := True\<rparr>)
            else if data = 3 then ack (c\<lparr>iss := (iss c)\<lparr>stop_after_ins_count := 1\<rparr>, halted := False\<rparr>)
            else ack c
        | ReadMem \<Rightarrow> Option.bind (dbg_read_mem sk c) (\<lambda>(v, c). answer v c)
        | WriteMem \<Rightarrow>
            Option.bind (ba_set_mem32 sk (dc_addr d) v (busaccess (side c))) (\<lambda>(ok, b). ack (core_bus (\<lambda>_. b) c))
        | WriteReg \<Rightarrow> update (set_reg x (swap32 v))
        | ReadReg \<Rightarrow> answer (ucast (rd (iss c) x)) c
        | Status \<Rightarrow>
            if data = 2 then
              map_option (\<lambda>c. c\<lparr>debug_cmd := (debug_cmd c)\<lparr>dc_addr := (if sigval_trap (iss c) then 5 else 0)\<rparr>\<rparr>)
                (answer (of_bool (halted c)) c)
            else ack c
        | WriteSpr \<Rightarrow> update (set_spr x (swap32 v))
        | AndSpr \<Rightarrow> update (\<lambda>k. set_spr x (v AND get_spr x k) k)
        | OrSpr \<Rightarrow> update (\<lambda>k. set_spr x (v OR get_spr x k) k)
        | ReadSpr \<Rightarrow> answer (ucast (get_spr x (iss c))) c
        | ReadMeta \<Rightarrow> answer 0x00010101 c
        | InsertMatchpoint \<Rightarrow>
            if dc_lanes d AND 0xFF = 68
            then Option.bind (delete_breakpoint (ucast (dc_addr d)) (- 1) (iss c)) (\<lambda>(rc, k). ack (c\<lparr>iss := k\<rparr>))
            else update (\<lambda>k. snd (set_breakpoint (ucast (dc_addr d)) Break k)))"

definition debug_op_requested :: "'t armcore_tlm \<Rightarrow> bool" where
  "debug_op_requested c \<longleftrightarrow> dc_cmd (debug_cmd c) \<noteq> Idle \<and> dc_cmd (debug_cmd c) \<noteq> Ack"

text \<open>One round of the main loop.\<close>

definition run_round :: "'t platform \<Rightarrow> 't tlm_side external \<Rightarrow> bool \<Rightarrow> 't armcore_tlm \<Rightarrow> 't armcore_tlm option" where
  "run_round p ext irq c =
    do {
      c \<leftarrow> (if debug_op_requested c then serve_debugger (sockets p) c else Some c);
      k \<leftarrow> poll_interrupt irq (iss c);
      let c = c\<lparr>iss := poll_event k\<rparr>;
      if asleep c then Some c
      else map_option watch_shutdown
        (if reset_or_yield_countdown (iss c) > 0
         then Some (c\<lparr>iss := (iss c)\<lparr>reset_or_yield_countdown := reset_or_yield_countdown (iss c) - 1\<rparr>\<rparr>)
         else core_execute p ext c)
    }"

text \<open>The loop runs until the core is over; \<open>irq\<close> gives the level of the interrupt in each round.\<close>

fun run_rounds :: "'t platform \<Rightarrow> 't tlm_side external \<Rightarrow> bool list \<Rightarrow> 't armcore_tlm \<Rightarrow> 't armcore_tlm option" where
  "run_rounds p ext [] c = Some c"
| "run_rounds p ext (irq # irqs) c =
    (if over c then Some c else Option.bind (run_round p ext irq c) (run_rounds p ext irqs))"

section \<open>The debugger's side\<close>

text \<open>A request is filled in while the channel is idle; \<^verbatim>\<open>wait_ack\<close> takes the answer and frees the channel.\<close>

definition debug_request :: "debug_op \<Rightarrow> u64 \<Rightarrow> u64 \<Rightarrow> u64 \<Rightarrow> 't armcore_tlm \<Rightarrow> 't armcore_tlm option" where
  "debug_request op addr data lanes c =
    (if dc_cmd (debug_cmd c) \<noteq> Idle then None
     else Some (c\<lparr>debug_cmd := \<lparr>dc_addr = addr, dc_data = data, dc_lanes = lanes, dc_cmd = op\<rparr>\<rparr>))"

definition wait_ack :: "'t armcore_tlm \<Rightarrow> (u64 \<times> 't armcore_tlm) option" where
  "wait_ack c =
    (if dc_cmd (debug_cmd c) \<noteq> Ack then None
     else Some (dc_data (debug_cmd c), c\<lparr>debug_cmd := (debug_cmd c)\<lparr>dc_cmd := Idle\<rparr>\<rparr>))"

text \<open>A call of the debugger on a core that serves it at once.\<close>

definition debug_call :: "'t sockets \<Rightarrow> debug_op \<Rightarrow> u64 \<Rightarrow> u64 \<Rightarrow> u64 \<Rightarrow> 't armcore_tlm \<Rightarrow> (u64 \<times> 't armcore_tlm) option" where
  "debug_call sk op addr data lanes c =
    do { c \<leftarrow> debug_request op addr data lanes c; c \<leftarrow> serve_debugger sk c; wait_ack c }"

definition writeMem8 :: "'t sockets \<Rightarrow> u64 \<Rightarrow> u8 \<Rightarrow> 't armcore_tlm \<Rightarrow> 't armcore_tlm option" where
  "writeMem8 sk addr v c = map_option snd (debug_call sk WriteMem addr (ucast v) 1 c)"

definition readMem8 :: "'t sockets \<Rightarrow> u64 \<Rightarrow> 't armcore_tlm \<Rightarrow> (u8 \<times> 't armcore_tlm) option" where
  "readMem8 sk addr c = map_option (\<lambda>(v, c). (ucast v, c)) (debug_call sk ReadMem addr (dc_data (debug_cmd c)) 1 c)"

definition control_cmd :: "'t sockets \<Rightarrow> u64 \<Rightarrow> u64 \<Rightarrow> 't armcore_tlm \<Rightarrow> 't armcore_tlm option" where
  "control_cmd sk cmd addr c =
    map_option snd (debug_call sk Control addr cmd (dc_lanes (debug_cmd c)) c)"

definition isStalled :: "'t sockets \<Rightarrow> 't armcore_tlm \<Rightarrow> (bool \<times> 't armcore_tlm) option" where
  "isStalled sk c =
    map_option (\<lambda>(v, c). (v \<noteq> 0, c)) (debug_call sk Status (dc_addr (debug_cmd c)) 2 (dc_lanes (debug_cmd c)) c)"

definition readSpr :: "'t sockets \<Rightarrow> u16 \<Rightarrow> 't armcore_tlm \<Rightarrow> (u64 \<times> 't armcore_tlm) option" where
  "readSpr sk n c = debug_call sk ReadSpr (ucast n) (dc_data (debug_cmd c)) (dc_lanes (debug_cmd c)) c"

definition writeSpr :: "'t sockets \<Rightarrow> u16 \<Rightarrow> u64 \<Rightarrow> 't armcore_tlm \<Rightarrow> 't armcore_tlm option" where
  "writeSpr sk n v c = map_option snd (debug_call sk WriteSpr (ucast n) v (dc_lanes (debug_cmd c)) c)"

end
