(* ===== verification/MatMulArm.thy ===== *)
theory MatMulArm
  imports MatMul ArmTlm
begin

unbundle bit_operations_syntax

text \<open>
  The driver \<^verbatim>\<open>prazor-tests/matMul.c\<close> on the platform it is written for: its loads and stores are word
  accesses of a simulated ARM core, which reach the device of \<^verbatim>\<open>tlm/matMul_2x2.h\<close> through the bus access
  unit of \<^verbatim>\<open>tenos/cpu_busaccess.cpp\<close>.  What lies between the two is taken to hand a payload on unchanged: the
  address translation, which is off, the caches, which pass this uncached range of addresses through
  whether they are on or not (\<^verbatim>\<open>memories/ccache.cpp\<close>), and the bus multiplexer.

  A store of a word reaches a target as a transaction on the doubleword, with byte enables that select the
  half.  The device ignores byte enables, so that the interface \<open>mm_device\<close>, which the plain device keeps,
  is not kept here: both operands go to the first register.
\<close>

section \<open>The device behind the sockets of a core\<close>

text \<open>The device looks at the first four bytes of the data.  A read of another register leaves the caller's
  variable indeterminate.\<close>

definition mm_transport :: "payload \<Rightarrow> tlm_dev \<Rightarrow> (tlm_response \<times> u64 list \<times> bool \<times> tlm_dev) option" where
  "mm_transport t dv =
    (let offset = address t XOR MEM_BASE;
         (v, dv1) = b_transact (is_write t) (address t) (ucast (hd (pdata t @ [0]))) dv
     in if is_write t then Some (TLM_OK, [], False, dv1)
        else if offset = ucast RES_LO \<or> offset = ucast RES_HI then Some (TLM_OK, [ucast v], False, dv1)
        else None)"

definition mm_sockets :: "tlm_dev sockets" where
  "mm_sockets = \<lparr>b_transport = (\<lambda>_. mm_transport), dmi_request = (\<lambda>_. None), dmi_word = (\<lambda>_ _ _. 0)\<rparr>"

section \<open>The driver\<close>

text \<open>The macros WRITE and READ: word accesses of the core.  \<open>None\<close> is an access that is refused.\<close>

definition arm_write :: "tlm_dev platform \<Rightarrow> u32 \<Rightarrow> u32 \<Rightarrow> tlm_dev tlm_side \<Rightarrow> tlm_dev tlm_side option" where
  "arm_write p off x d =
    do {
      (ok, outcome, d) \<leftarrow> write1 (tlm_bus p) d (ucast MEM_BASE + off) (ucast x) 2 False;
      if ok then Some d else None
    }"

definition arm_read :: "tlm_dev platform \<Rightarrow> u32 \<Rightarrow> tlm_dev tlm_side \<Rightarrow> (u32 \<times> tlm_dev tlm_side) option" where
  "arm_read p off d =
    do {
      (r, d) \<leftarrow> read1 (tlm_bus p) d (ucast MEM_BASE + off) 2 False False;
      map_option (\<lambda>v. (ucast v, d)) r
    }"

partial_function (option) arm_wait_clear :: "tlm_dev platform \<Rightarrow> tlm_dev tlm_side \<Rightarrow> tlm_dev tlm_side option" where
  [code]: "arm_wait_clear p d =
    Option.bind (arm_read p RES_LO d) (\<lambda>(lo, d).
      Option.bind (arm_read p RES_HI d) (\<lambda>(hi, d).
        if lo + hi \<noteq> 0 then arm_wait_clear p d else Some d))"

text \<open>A bare metal build: the caches are turned on, no page is mapped.\<close>

definition prazor_init ::
  "tlm_dev platform \<Rightarrow> (string \<Rightarrow> int \<Rightarrow> u32) \<Rightarrow> string list \<Rightarrow> tlm_dev tlm_side mm \<Rightarrow> (int \<times> tlm_dev tlm_side mm) option" where
  "prazor_init p stou argv s =
    (let argc = length argv in
     if argc < 3 \<or> argc > 5 then Some (1, emit [usage] s)
     else
       let s = s\<lparr>iters := (if argc = 4 then stou (argv ! 3) 10 else 1)\<rparr>;
           s = s\<lparr>matA := stou (argv ! 1) 16, matB := stou (argv ! 2) 16\<rparr>;
           s = emit [Printf ''Mapping memory\<newline>'' []] s
       in if (ucast MEM_BASE :: u32) = 0 then Some (1, s)
          else
            let s = emit [Printf ''Waiting for last results to clear...\<newline>'' []] s
            in do {
              d \<leftarrow> arm_write p MATA 0 (dev s);
              d \<leftarrow> arm_write p MATB 0 d;
              d \<leftarrow> arm_wait_clear p d;
              Some (0, emit ([Printf ''Turning on L1 and L2 caches\<newline>'' [], Enable_caches]
                             @ show_args (matA s) (matB s) (iters s)) (s\<lparr>dev := d\<rparr>))
            })"

definition prazor_body :: "tlm_dev platform \<Rightarrow> tlm_dev tlm_side mm \<Rightarrow> tlm_dev tlm_side mm option" where
  "prazor_body p s =
    do {
      d \<leftarrow> arm_write p MATA (matA s) (dev s);
      d \<leftarrow> arm_write p MATB (matB s) d;
      (lo, d) \<leftarrow> arm_read p RES_LO d;
      (hi, d) \<leftarrow> arm_read p RES_HI d;
      Some (s\<lparr>dev := d, lRes := lo, hRes := hi\<rparr>)
    }"

fun prazor_loop :: "tlm_dev platform \<Rightarrow> nat \<Rightarrow> tlm_dev tlm_side mm \<Rightarrow> tlm_dev tlm_side mm option" where
  "prazor_loop p 0 s = Some s"
| "prazor_loop p (Suc n) s = Option.bind (prazor_body p s) (prazor_loop p n)"

definition prazor_main ::
  "tlm_dev platform \<Rightarrow> (string \<Rightarrow> int \<Rightarrow> u32) \<Rightarrow> string list \<Rightarrow> tlm_dev tlm_side mm \<Rightarrow> (int \<times> tlm_dev tlm_side mm) option" where
  "prazor_main p stou argv s =
    do {
      (rc, s) \<leftarrow> prazor_init p stou argv s;
      if rc \<noteq> 0 then Some (rc, s) else map_option mm_deinit (prazor_loop p (unat (iters s)) s)
    }"

section \<open>What the accesses do\<close>

text \<open>A bus access unit of a little-endian core, between two accesses, without a direct memory pointer for the
  registers (the device never offers one).\<close>

definition plain_bus :: "tlm_dev tlm_side \<Rightarrow> bool" where
  "plain_bus d \<longleftrightarrow> ENDIAN_FLIP (busaccess d) = 0 \<and> atomics (busaccess d) = 0 \<and>
     \<not> dmi_covers (MEM_BASE + ucast RES_LO) (DMI_data (busaccess d)) \<and>
     \<not> dmi_covers (MEM_BASE + ucast RES_HI) (DMI_data (busaccess d))"

definition the_dev :: "tlm_dev tlm_side \<Rightarrow> tlm_dev" where "the_dev d = target (busaccess d)"

text \<open>The effect of latching an operand in the first register.\<close>

definition latch_A :: "u32 \<Rightarrow> tlm_dev \<Rightarrow> tlm_dev" where
  "latch_A x dv = dv\<lparr>d_matA := bytes4 x, d_res := mm_res ((!) (bytes4 x)) ((!) (d_matB dv))\<rparr>"

lemma latch_fields [simp]: "d_matB (latch_A x dv) = d_matB dv" "d_matA (latch_A x dv) = bytes4 x"
  by (simp_all add: latch_A_def)

lemma transport_low:
  "mm_transport (write_payload 0xE0002000 w ls None) dv = Some (TLM_OK, [], False, latch_A (ucast w) dv)"
  by (simp add: mm_transport_def write_payload_def b_transact_def MEM_BASE_def mm_offsets latch_A_def)

lemma ucast_dup: "ucast (push_bit 32 (ucast x) OR ucast x :: u64) = (x :: u32)"
  by (rule bit_word_eqI) (simp add: bit_simps)

text \<open>Both operand registers are in one doubleword, and the device sees its address.\<close>

lemma arm_write_operand:
  assumes "sockets p = mm_sockets" and "plain_bus d" and "off = MATA \<or> off = MATB"
  shows "\<exists>d'. arm_write p off x d = Some d' \<and> plain_bus d' \<and> the_dev d' = latch_A x (the_dev d)"
proof -
  have a: "(0xE0002004 :: u64) AND NOT 4 = 0xE0002000" "(0xE0002000 :: u64) AND NOT 4 = 0xE0002000"
    by simp_all
  show ?thesis
    using assms
    by (elim disjE; simp add: arm_write_def tlm_bus_def armisa_write1_def backdoor_write_def tlm_write_def
        ba_set_mem32_def mem_write_def plain_bus_def the_dev_def mm_sockets_def mm_offsets MEM_BASE_def Let_def
        a transport_low ucast_dup)
qed

text \<open>The results are read at their own addresses.\<close>

lemma dmi_covers_latency [simp]: "dmi_covers a (d\<lparr>read_latency := l\<rparr>) \<longleftrightarrow> dmi_covers a d"
  by (simp add: dmi_covers_def)

lemma read_undirected:
  assumes "\<not> dmi_covers a (DMI_data b)"
    and "b_transport sk 0 (read_payload a 4 None) (target b) = Some (TLM_OK, [w], False, t)"
  shows "\<exists>b'. mem_read sk a False 0 2 b = Some (Some w, b') \<and> target b' = t \<and>
           ENDIAN_FLIP b' = ENDIAN_FLIP b \<and> atomics b' = atomics b \<and>
           (\<forall>x. dmi_covers x (DMI_data b') \<longleftrightarrow> dmi_covers x (DMI_data b))"
proof -
  obtain m sw where "measurement_needed (read_latency (DMI_data b)) = (m, sw)" by force
  with assms show ?thesis
    by (simp add: mem_read_def dmi_get_def dmi_put_def dmi_update_def Let_def)
qed

lemma transport_result:
  "mm_transport (read_payload 0xE0002008 4 None) dv = Some (TLM_OK, [ucast (pack16 (d_res dv ! 0) (d_res dv ! 1))], False, dv)"
  "mm_transport (read_payload 0xE000200C 4 None) dv = Some (TLM_OK, [ucast (pack16 (d_res dv ! 2) (d_res dv ! 3))], False, dv)"
  by (simp_all add: mm_transport_def read_payload_def b_transact_def MEM_BASE_def mm_offsets)

lemma uncached_word:
  assumes "a = 0xE0002008 \<or> a = 0xE000200C" and "plain_bus d" and "\<not> dmi_covers a (DMI_data (busaccess d))"
    and "mm_transport (read_payload a 4 None) (the_dev d) = Some (TLM_OK, [ucast (v :: u32)], False, the_dev d)"
  shows "\<exists>b'. tlm_read mm_sockets a 2 False (busaccess d) = Some (Some (ucast v), b') \<and>
           plain_bus (d\<lparr>busaccess := b'\<rparr>) \<and> target b' = the_dev d"
proof -
  have "b_transport mm_sockets 0 (read_payload a 4 None) (target (busaccess d)) =
      Some (TLM_OK, [ucast v], False, the_dev d)"
    using assms(4) by (simp add: mm_sockets_def the_dev_def)
  from read_undirected [OF assms(3) this] obtain b' where
    "mem_read mm_sockets a False 0 2 (busaccess d) = Some (Some (ucast v), b')" "target b' = the_dev d"
    "ENDIAN_FLIP b' = ENDIAN_FLIP (busaccess d)" "atomics b' = atomics (busaccess d)"
    "\<forall>x. dmi_covers x (DMI_data b') \<longleftrightarrow> dmi_covers x (DMI_data (busaccess d))" by blast
  then show ?thesis
    using assms(1,2)
    by (elim disjE; simp add: tlm_read_def ba_eval_mem32_def UNCACHED_ADDRESS_SPACE64_def plain_bus_def)
qed

lemma arm_read_result:
  assumes "sockets p = mm_sockets" and "plain_bus d"
  shows "\<exists>d'. arm_read p RES_LO d = Some (pack16 (d_res (the_dev d) ! 0) (d_res (the_dev d) ! 1), d') \<and>
           plain_bus d' \<and> the_dev d' = the_dev d"
    and "\<exists>d'. arm_read p RES_HI d = Some (pack16 (d_res (the_dev d) ! 2) (d_res (the_dev d) ! 3), d') \<and>
           plain_bus d' \<and> the_dev d' = the_dev d"
proof -
  have c: "\<not> dmi_covers 0xE0002008 (DMI_data (busaccess d))" "\<not> dmi_covers 0xE000200C (DMI_data (busaccess d))"
    using assms(2) by (simp_all add: plain_bus_def MEM_BASE_def mm_offsets)
  note read = arm_read_def tlm_bus_def armisa_read1_def backdoor_read_def MEM_BASE_def mm_offsets
  show "\<exists>d'. arm_read p RES_LO d = Some (pack16 (d_res (the_dev d) ! 0) (d_res (the_dev d) ! 1), d') \<and>
           plain_bus d' \<and> the_dev d' = the_dev d"
    using uncached_word [OF _ assms(2) c(1) transport_result(1)] assms(1) by (auto simp: read the_dev_def)
  show "\<exists>d'. arm_read p RES_HI d = Some (pack16 (d_res (the_dev d) ! 2) (d_res (the_dev d) ! 3), d') \<and>
           plain_bus d' \<and> the_dev d' = the_dev d"
    using uncached_word [OF _ assms(2) c(2) transport_result(2)] assms(1) by (auto simp: read the_dev_def)
qed

text \<open>Latching twice is latching once, and the result words are those of the first register and the old second.\<close>

lemma latch_results:
  assumes "d_matB dv = bytes4 m"
  shows "pack16 (d_res (latch_A x dv) ! 0) (d_res (latch_A x dv) ! 1) = prod_lo x m"
    and "pack16 (d_res (latch_A x dv) ! 2) (d_res (latch_A x dv) ! 3) = prod_hi x m"
  using assms by (simp_all add: latch_A_def mm_res_dot dot_bytes4 prod_lo_def prod_hi_def)

section \<open>The program\<close>

definition body_done :: "u32 \<Rightarrow> tlm_dev tlm_side mm \<Rightarrow> tlm_dev tlm_side mm \<Rightarrow> bool" where
  "body_done m s s' \<longleftrightarrow> plain_bus (dev s') \<and> matA s' = matA s \<and> matB s' = matB s \<and> iters s' = iters s \<and>
     d_matA (the_dev (dev s')) = bytes4 (matB s) \<and> d_matB (the_dev (dev s')) = bytes4 m \<and>
     lRes s' = prod_lo (matB s) m \<and> hRes s' = prod_hi (matB s) m"

lemma both_operands:
  assumes "sockets p = mm_sockets" and "plain_bus d"
  obtains d1 d2 where "arm_write p MATA a d = Some d1" "arm_write p MATB b d1 = Some d2" "plain_bus d2"
    "the_dev d2 = latch_A b (latch_A a (the_dev d))"
  using arm_write_operand [OF assms, of MATA a] arm_write_operand [OF assms(1), of _ MATB b] that by fastforce

lemma both_results:
  assumes "sockets p = mm_sockets" and "plain_bus d" and "the_dev d = latch_A x dv" and "d_matB dv = bytes4 m"
  obtains d1 d2 where "arm_read p RES_LO d = Some (prod_lo x m, d1)" "arm_read p RES_HI d1 = Some (prod_hi x m, d2)"
    "plain_bus d2" "the_dev d2 = the_dev d"
  using arm_read_result(1) [OF assms(1,2)] arm_read_result(2) [OF assms(1)] latch_results [OF assms(4), of x]
    assms(3) that by metis

lemma prazor_body_done:
  assumes "sockets p = mm_sockets" and "plain_bus (dev s)" and "d_matB (the_dev (dev s)) = bytes4 m"
  shows "\<exists>s'. prazor_body p s = Some s' \<and> body_done m s s'"
proof -
  obtain d1 d2 where w: "arm_write p MATA (matA s) (dev s) = Some d1" "arm_write p MATB (matB s) d1 = Some d2"
    "plain_bus d2" "the_dev d2 = latch_A (matB s) (latch_A (matA s) (the_dev (dev s)))"
    by (rule both_operands [OF assms(1,2)])
  obtain d3 d4 where "arm_read p RES_LO d2 = Some (prod_lo (matB s) m, d3)"
    "arm_read p RES_HI d3 = Some (prod_hi (matB s) m, d4)" "plain_bus d4" "the_dev d4 = the_dev d2"
    by (rule both_results [OF assms(1) w(3,4)]) (simp_all add: assms(3))
  with w show ?thesis by (simp add: prazor_body_def body_done_def assms(3))
qed

lemma prazor_loop_done:
  assumes "sockets p = mm_sockets"
  shows "plain_bus (dev s) \<Longrightarrow> d_matB (the_dev (dev s)) = bytes4 m \<Longrightarrow> n \<noteq> 0 \<Longrightarrow>
    \<exists>s'. prazor_loop p n s = Some s' \<and> body_done m s s'"
proof (induction n arbitrary: s)
  case (Suc n)
  obtain s1 where s1: "prazor_body p s = Some s1" "body_done m s s1"
    using prazor_body_done [OF assms Suc.prems(1,2)] by blast
  show ?case
  proof (cases "n = 0")
    case False
    have "\<exists>s'. prazor_loop p n s1 = Some s' \<and> body_done m s1 s'"
      using s1(2) by (intro Suc.IH) (simp_all add: body_done_def False)
    then show ?thesis using s1 by (auto simp: body_done_def)
  qed (use s1 in simp)
qed simp

lemma prod_zero: "prod_lo 0 m = 0" "prod_hi 0 m = 0"
  by (simp_all add: prod_lo_def prod_hi_def dot_def sum2 pack16_def byte_of_def)

lemma prazor_init_done:
  assumes "sockets p = mm_sockets" and "plain_bus (dev s)" and "d_matB (the_dev (dev s)) = bytes4 m"
    and "3 \<le> length argv" and "length argv \<le> 5"
  shows "\<exists>s'. prazor_init p stou argv s = Some (0, s') \<and> plain_bus (dev s') \<and>
           d_matB (the_dev (dev s')) = bytes4 m \<and> matA s' = stou (argv ! 1) 16 \<and> matB s' = stou (argv ! 2) 16 \<and>
           iters s' = (if length argv = 4 then stou (argv ! 3) 10 else 1)"
proof -
  obtain d1 d2 where w: "arm_write p MATA 0 (dev s) = Some d1" "arm_write p MATB 0 d1 = Some d2"
    "plain_bus d2" "the_dev d2 = latch_A 0 (latch_A 0 (the_dev (dev s)))"
    by (rule both_operands [OF assms(1,2)])
  obtain d3 d4 where r: "arm_read p RES_LO d2 = Some (0, d3)" "arm_read p RES_HI d3 = Some (0, d4)"
    "plain_bus d4" "the_dev d4 = the_dev d2"
    by (rule both_results [OF assms(1) w(3,4), of m]) (simp_all add: assms(3) prod_zero)
  then have "arm_wait_clear p d2 = Some d4" by (simp add: arm_wait_clear.simps)
  with w r assms show ?thesis by (simp add: prazor_init_def emit_def Let_def MEM_BASE_def)
qed

text \<open>What the whole program leaves behind.\<close>

lemma prazor_main_operands:
  assumes "sockets p = mm_sockets" and "plain_bus (dev s)" and "d_matB (the_dev (dev s)) = bytes4 m"
    and "3 \<le> length argv" and "length argv \<le> 5" and "length argv \<noteq> 4 \<or> stou (argv ! 3) 10 \<noteq> 0"
  shows "\<exists>s'. prazor_main p stou argv s = Some (0, s') \<and>
           lRes s' = prod_lo (stou (argv ! 2) 16) m \<and> hRes s' = prod_hi (stou (argv ! 2) 16) m \<and>
           d_matA (the_dev (dev s')) = bytes4 (stou (argv ! 2) 16) \<and> d_matB (the_dev (dev s')) = bytes4 m"
proof -
  obtain s1 where i: "prazor_init p stou argv s = Some (0, s1)" "plain_bus (dev s1)"
    "d_matB (the_dev (dev s1)) = bytes4 m" "matB s1 = stou (argv ! 2) 16"
    "iters s1 = (if length argv = 4 then stou (argv ! 3) 10 else 1)"
    using prazor_init_done [OF assms(1-5)] by blast
  from i(5) assms(6) have "unat (iters s1) \<noteq> 0" by (auto simp: unat_eq_0)
  from prazor_loop_done [OF assms(1) i(2,3) this] i(4) show ?thesis
    by (auto simp: prazor_main_def i(1) body_done_def mm_deinit_def emit_def)
qed

text \<open>A platform with a new device.\<close>

definition new_side :: "tlm_dev tlm_side" where
  "new_side = tlm_side_new (cpu_busaccess_new 3 0 0 False False matMul_2x2_init)"

definition new_platform :: "tlm_dev platform" where
  "new_platform = \<lparr>sockets = mm_sockets, stdin_read32 = \<lambda>_ t. (0, t), argv_read32 = \<lambda>_. 0, argc_value = 3, sim_ticks = \<lambda>_. 0\<rparr>"

lemma new_device: "plain_bus new_side" "d_matB (the_dev new_side) = bytes4 0"
  by (simp_all add: new_side_def tlm_side_new_def plain_bus_def the_dev_def cpu_busaccess_new_def dmi_covers_def
      dmi_new_def matMul_2x2_init_def bytes4_def upt_rec byte_of_def)

text \<open>C4: The three programs compared, on two or three numeric arguments, a third one not zero.  The pure C
  program on its four-word data area and the SystemC test bench end with the product of the two arguments in
  their result words.  The program for the memory-mapped device, on a little-endian core whose bus access
  unit is between accesses, returns 0 but never writes the second register: both its stores of an operand
  arrive at the address of the first register (the bus access unit clears bit 2 of the address and selects
  the half by byte enables, which the device ignores).  The first register ends with the second argument,
  the second register keeps what it held, and the result words are the product of these two: 0 for a new
  device, whatever the arguments.\<close>

theorem drivers_compared:
  assumes "3 \<le> length argv" and "length argv \<le> 5" and "length argv \<noteq> 4 \<or> stou (argv ! 3) 10 \<noteq> 0"
    and "length (dev u) = 4" and "base \<noteq> 0"
    and "sockets p = mm_sockets" and "plain_bus (dev s)" and "d_matB (the_dev (dev s)) = bytes4 m"
  shows "\<exists>s1 t s2 a b. a = stou (argv ! 1) 16 \<and> b = stou (argv ! 2) 16 \<and>
           pure_main stou base argv u = Some (0, s1) \<and> lRes s1 = prod_lo a b \<and> hRes s1 = prod_hi a b \<and>
           sc_main stou argv = Inr t \<and> b_lRes t = prod_lo a b \<and> b_hRes t = prod_hi a b \<and>
           prazor_main p stou argv s = Some (0, s2) \<and> lRes s2 = prod_lo b m \<and> hRes s2 = prod_hi b m \<and>
           d_matA (the_dev (dev s2)) = bytes4 b \<and> d_matB (the_dev (dev s2)) = bytes4 m"
  using pure.main_result [where s = u and bare = False and argv = argv and stou = stou and base = base]
    sc_main_result [where argv = argv and stou = stou] prazor_main_operands [where argv = argv and stou = stou] assms
  by (auto simp: pure_main_def)

text \<open>The test pattern of the \<^verbatim>\<open>run\<close> target, on a new device: the product is not 0, the platform computes 0.\<close>

theorem drivers_compared_witness:
  "\<exists>s1 t s2. pure_main stou_ex 0x1000 [''matMul'', ''0x01020304'', ''0x02000002''] (mm0 [0, 0, 0, 0]) = Some (0, s1) \<and>
     sc_main stou_ex [''matMul'', ''0x01020304'', ''0x02000002''] = Inr t \<and>
     prazor_main new_platform stou_ex [''matMul'', ''0x01020304'', ''0x02000002''] (mm0 new_side) = Some (0, s2) \<and>
     lRes s1 = 0x00060008 \<and> b_lRes t = 0x00060008 \<and> lRes s2 = 0 \<and> hRes s2 = 0"
proof -
  have "prod_lo 0x01020304 0x02000002 = 0x00060008" "\<And>x. prod_lo x 0 = 0" "\<And>x. prod_hi x 0 = 0"
    by (simp_all add: prod_lo_def prod_hi_def dot_def sum2 pack16_def byte_of_def)
  then show ?thesis
    using drivers_compared [where p = new_platform and s = "mm0 new_side" and m = 0 and stou = stou_ex
        and argv = "[''matMul'', ''0x01020304'', ''0x02000002'']" and u = "mm0 [0, 0, 0, 0]" and base = "0x1000"]
    by (auto simp: mm0_def stou_ex_def new_device new_platform_def)
qed

end
