(* ===== verification/CString.thy ===== *)
theory CString
  imports Prelude "HOL-Library.List_Lexorder" "HOL-Library.Sublist"
begin

unbundle bit_operations_syntax

text \<open>
  The character, string and memory routines of \<^verbatim>\<open>crt/prlibc/prlibc.c\<close>, over the flat byte memory.
  Pointers are addresses; a routine that walks to a terminating zero is an option-valued
  function (None: it never meets one), a routine with a length is total. A predicate of the C
  code that returns 1 or 0 is a boolean function.
\<close>

subsection \<open>Character classes\<close>

definition isupper :: "int \<Rightarrow> bool" where "isupper c \<longleftrightarrow> c \<ge> 65 \<and> c \<le> 90"
definition isdigit :: "int \<Rightarrow> bool" where "isdigit c \<longleftrightarrow> c \<ge> 48 \<and> c \<le> 57"
definition isprint :: "int \<Rightarrow> bool" where "isprint c \<longleftrightarrow> c \<ge> 32 \<and> c \<le> 126"
definition islower :: "int \<Rightarrow> bool" where "islower c \<longleftrightarrow> c \<ge> 97 \<and> c \<le> 122"

definition tolower :: "int \<Rightarrow> int" where
  "tolower c = (if c \<ge> 65 \<and> c \<le> 90 then c + 32 else c)"

definition toupper :: "int \<Rightarrow> int" where
  "toupper c = (if c \<ge> 97 \<and> c \<le> 122 then c - 32 else c)"

definition isalnum :: "int \<Rightarrow> bool" where
  "isalnum c =
     (if c \<ge> 97 \<and> c \<le> 122 then True
      else if c \<ge> 65 \<and> c \<le> 90 then True
      else if c \<ge> 48 \<and> c \<le> 57 then True else False)"

definition isalpha :: "int \<Rightarrow> bool" where
  "isalpha c =
     (if c \<ge> 97 \<and> c \<le> 122 then True else if c \<ge> 65 \<and> c \<le> 90 then True else False)"

lemmas ctype_defs = isupper_def isdigit_def isprint_def islower_def tolower_def toupper_def
  isalnum_def isalpha_def

subsection \<open>Routines with a length\<close>

text \<open>\<open>size_t\<close> is \<^verbatim>\<open>int\<close> in this library, so a negative length copies nothing.\<close>

function bcopy :: "addr \<Rightarrow> addr \<Rightarrow> int \<Rightarrow> mem \<Rightarrow> mem" where
  "bcopy src dest len m =
     (if len - 1 \<ge> 0 then bcopy (src + 1) (dest + 1) (len - 1) (m(dest := m src)) else m)"
  by pat_completeness auto
termination by (relation "measure (\<lambda>(_, _, len, _). nat len)") auto

function memcpy_loop :: "addr \<Rightarrow> addr \<Rightarrow> int \<Rightarrow> mem \<Rightarrow> mem" where
  "memcpy_loop d s len m =
     (if len - 1 \<ge> 0 then memcpy_loop (d + 1) (s + 1) (len - 1) (m(d := m s)) else m)"
  by pat_completeness auto
termination by (relation "measure (\<lambda>(_, _, len, _). nat len)") auto

definition memcpy :: "addr \<Rightarrow> addr \<Rightarrow> int \<Rightarrow> mem \<Rightarrow> addr \<times> mem" where
  "memcpy dest src len m = (dest, memcpy_loop dest src len m)"

function bcmp :: "addr \<Rightarrow> addr \<Rightarrow> int \<Rightarrow> mem \<Rightarrow> int" where
  "bcmp b1 b2 len m =
     (if len - 1 \<ge> 0 then (if m b1 \<noteq> m b2 then 1 else bcmp (b1 + 1) (b2 + 1) (len - 1) m) else 0)"
  by pat_completeness auto
termination by (relation "measure (\<lambda>(_, _, len, _). nat len)") auto

function bzero :: "addr \<Rightarrow> int \<Rightarrow> mem \<Rightarrow> mem" where
  "bzero b1 len m = (if len - 1 \<ge> 0 then bzero (b1 + 1) (len - 1) (m(b1 := NUL)) else m)"
  by pat_completeness auto
termination by (relation "measure (\<lambda>(_, len, _). nat len)") auto

text \<open>The count is decremented before it is tested against 0, so only a zero count stops the scan at once.\<close>

lemma memchr_measure: "n - 1 \<noteq> 0 \<Longrightarrow> unat (n - 1) < (if n = 0 then 2 ^ 32 else unat n)" for n :: u32
proof -
  assume "n - 1 \<noteq> 0"
  moreover have "unat (n - 1) < 2 ^ LENGTH(32)" by (rule unsigned_less)
  ultimately show ?thesis by (auto simp: unat_minus_one unat_gt_0)
qed

function memchr_loop :: "addr \<Rightarrow> int \<Rightarrow> u32 \<Rightarrow> mem \<Rightarrow> addr" where
  "memchr_loop p c n m =
     (if chr_int (m p) = c then p
      else if n - 1 \<noteq> 0 then memchr_loop (p + 1) c (n - 1) m else 0)"
  by pat_completeness auto
termination
  by (relation "measure (\<lambda>(_, _, n, _). if n = 0 then 2 ^ 32 else unat n)")
     (auto simp: memchr_measure)

definition memchr :: "addr \<Rightarrow> int \<Rightarrow> int \<Rightarrow> mem \<Rightarrow> addr" where
  "memchr s c n m = (if n \<noteq> 0 then memchr_loop s c (word_of_int n) m else 0)"

text \<open>\<open>memset\<close> writes words where it can: bytes up to the next aligned address, blocks of eight words,
  single words, and the bytes that are left. \<open>OPSIZ\<close> is 4.\<close>

definition st32 :: "addr \<Rightarrow> u32 \<Rightarrow> mem \<Rightarrow> mem" where
  "st32 a w m = m(a := int_chr (uint w), a + 1 := int_chr (uint (drop_bit 8 w)),
                  a + 2 := int_chr (uint (drop_bit 16 w)), a + 3 := int_chr (uint (drop_bit 24 w)))"

definition memset_word :: "int \<Rightarrow> u32" where
  "memset_word c =
     (let c0 = (ucast (word_of_int c :: u8) :: u32);
          c1 = c0 OR push_bit 8 c0
      in c1 OR push_bit 16 c1)"

lemma align_step: "d mod 4 \<noteq> 0 \<Longrightarrow> Suc (3 * (d + 1) mod 4) = 3 * d mod (4::nat)"
proof -
  assume d: "d mod 4 \<noteq> 0"
  have e: "3 * d mod 4 = 3 * (d mod 4) mod 4" "3 * (d + 1) mod 4 = 3 * ((d mod 4 + 1) mod 4) mod 4"
    by (simp_all only: mod_mult_right_eq mod_add_left_eq)
  from d consider "d mod 4 = 1" | "d mod 4 = 2" | "d mod 4 = 3" by linarith
  then show ?thesis unfolding e by cases simp_all
qed

lemma align_zero: "3 * d mod 4 = 0 \<Longrightarrow> d mod 4 = (0::nat)"
  using align_step [of d] by fastforce

lemma align_measure: "d mod 4 \<noteq> 0 \<Longrightarrow> 3 * (d + 1) mod 4 < 3 * d mod (4::nat)"
  using align_step [of d] by linarith

function memset_align :: "addr \<Rightarrow> int \<Rightarrow> int \<Rightarrow> mem \<Rightarrow> addr \<times> int \<times> mem" where
  "memset_align d len c m =
     (if d mod 4 \<noteq> 0 then memset_align (d + 1) (len - 1) c (m(d := int_chr c)) else (d, len, m))"
  by pat_completeness auto
termination by (relation "measure (\<lambda>(d, _). 3 * d mod 4)") (simp_all only: in_measure split_conv align_measure wf_measure not_False_eq_True)

fun memset_block8 :: "nat \<Rightarrow> addr \<Rightarrow> u32 \<Rightarrow> mem \<Rightarrow> addr \<times> mem" where
  "memset_block8 0 d w m = (d, m)"
| "memset_block8 (Suc xlen) d w m =
     memset_block8 xlen (d + 32) w
       (st32 (d + 28) w (st32 (d + 24) w (st32 (d + 20) w (st32 (d + 16) w
         (st32 (d + 12) w (st32 (d + 8) w (st32 (d + 4) w (st32 d w m))))))))"

fun memset_words :: "nat \<Rightarrow> addr \<Rightarrow> u32 \<Rightarrow> mem \<Rightarrow> addr \<times> mem" where
  "memset_words 0 d w m = (d, m)"
| "memset_words (Suc xlen) d w m = memset_words xlen (d + 4) w (st32 d w m)"

function memset_bytes :: "addr \<Rightarrow> int \<Rightarrow> int \<Rightarrow> mem \<Rightarrow> mem" where
  "memset_bytes d len c m = (if len > 0 then memset_bytes (d + 1) (len - 1) c (m(d := int_chr c)) else m)"
  by pat_completeness auto
termination by (relation "measure (\<lambda>(_, len, _). nat len)") auto

definition memset :: "addr \<Rightarrow> int \<Rightarrow> int \<Rightarrow> mem \<Rightarrow> addr \<times> mem" where
  "memset dstpp c len m =
     (if len \<ge> 8 then
        let cccc = memset_word c;
            (d1, len1, m1) = memset_align dstpp len c m;
            (d2, m2) = memset_block8 (nat (len1 div 32)) d1 cccc m1;
            len2 = len1 mod 32;
            (d3, m3) = memset_words (nat (len2 div 4)) d2 cccc m2;
            len3 = len2 mod 4
        in (dstpp, memset_bytes d3 len3 c m3)
      else (dstpp, memset_bytes dstpp len c m))"

subsection \<open>Zero-terminated strings\<close>

partial_function (option) strlen_loop :: "addr \<Rightarrow> int \<Rightarrow> mem \<Rightarrow> int option" where
  "strlen_loop s r m = (if m s \<noteq> NUL then strlen_loop (s + 1) (r + 1) m else Some r)"

definition strlen :: "addr \<Rightarrow> mem \<Rightarrow> int option" where
  "strlen s m = strlen_loop s 0 m"

partial_function (option) strcpy_loop :: "addr \<Rightarrow> addr \<Rightarrow> mem \<Rightarrow> mem option" where
  "strcpy_loop s1 s2 m =
     (if m s2 \<noteq> NUL then strcpy_loop (s1 + 1) (s2 + 1) (m(s1 := m s2)) else Some (m(s1 := NUL)))"

definition strcpy :: "addr \<Rightarrow> addr \<Rightarrow> mem \<Rightarrow> (addr \<times> mem) option" where
  "strcpy s1 s2 m = (case strcpy_loop s1 s2 m of None \<Rightarrow> None | Some m' \<Rightarrow> Some (s1, m'))"

definition strcat :: "addr \<Rightarrow> addr \<Rightarrow> mem \<Rightarrow> (addr \<times> mem) option" where
  "strcat s1 s2 m =
     (case strlen s1 m of None \<Rightarrow> None
      | Some n \<Rightarrow> (case strcpy (s1 + nat n) s2 m of None \<Rightarrow> None | Some (_, m') \<Rightarrow> Some (s1, m')))"

text \<open>The two loops of \<open>strncpy\<close>: copy up to the terminator or \<open>n\<close> bytes, then fill with zeros.\<close>

function strncpy_copy :: "addr \<Rightarrow> addr \<Rightarrow> int \<Rightarrow> int \<Rightarrow> mem \<Rightarrow> int \<times> mem" where
  "strncpy_copy dest src i n m =
     (if i < n \<and> m (src + nat i) \<noteq> NUL
      then strncpy_copy dest src (i + 1) n (m(dest + nat i := m (src + nat i))) else (i, m))"
  by pat_completeness auto
termination by (relation "measure (\<lambda>(_, _, i, n, _). nat (n - i))") auto

function strncpy_fill :: "addr \<Rightarrow> int \<Rightarrow> int \<Rightarrow> mem \<Rightarrow> mem" where
  "strncpy_fill dest i n m = (if i < n then strncpy_fill dest (i + 1) n (m(dest + nat i := NUL)) else m)"
  by pat_completeness auto
termination by (relation "measure (\<lambda>(_, i, n, _). nat (n - i))") auto

definition strncpy :: "addr \<Rightarrow> addr \<Rightarrow> int \<Rightarrow> mem \<Rightarrow> addr \<times> mem" where
  "strncpy dest src n m =
     (let (i, m1) = strncpy_copy dest src 0 n m in (dest, strncpy_fill dest i n m1))"

partial_function (option) strcmp :: "addr \<Rightarrow> addr \<Rightarrow> mem \<Rightarrow> int option" where
  "strcmp s1 s2 m =
     (let a = m s1; b = m s2 in
      if a = NUL \<and> b = NUL then Some 0
      else if a = NUL \<or> b = NUL \<or> a \<noteq> b then Some (chr_int a - chr_int b)
      else strcmp (s1 + 1) (s2 + 1) m)"

partial_function (option) strcasecmp :: "addr \<Rightarrow> addr \<Rightarrow> mem \<Rightarrow> int option" where
  "strcasecmp s1 s2 m =
     (let a = int_chr (toupper (chr_int (m s1))); b = int_chr (toupper (chr_int (m s2))) in
      if a = NUL \<and> b = NUL then Some 0
      else if a = NUL \<or> b = NUL \<or> a \<noteq> b then Some (chr_int a - chr_int b)
      else strcasecmp (s1 + 1) (s2 + 1) m)"

partial_function (option) strncmp :: "addr \<Rightarrow> addr \<Rightarrow> int \<Rightarrow> mem \<Rightarrow> int option" where
  "strncmp s1 s2 n m =
     (if n = 0 then Some 0 else
      let a = m s1; b = m s2 in
      if a = NUL \<and> b = NUL then Some 0
      else if a = NUL \<or> b = NUL \<or> a \<noteq> b then Some (chr_int a - chr_int b)
      else strncmp (s1 + 1) (s2 + 1) (n - 1) m)"

partial_function (option) strncasecmp :: "addr \<Rightarrow> addr \<Rightarrow> int \<Rightarrow> mem \<Rightarrow> int option" where
  "strncasecmp s1 s2 n m =
     (if n = 0 then Some 0 else
      let a = int_chr (toupper (chr_int (m s1))); b = int_chr (toupper (chr_int (m s2))) in
      if a = NUL \<and> b = NUL then Some 0
      else if a = NUL \<or> b = NUL \<or> a \<noteq> b then Some (chr_int a - chr_int b)
      else strncasecmp (s1 + 1) (s2 + 1) (n - 1) m)"

text \<open>Both searches return 0 (NULL) when nothing is found.\<close>

partial_function (option) strchr :: "addr \<Rightarrow> int \<Rightarrow> mem \<Rightarrow> addr option" where
  "strchr src chr m =
     (if m src \<noteq> NUL then (if chr_int (m src) = chr then Some src else strchr (src + 1) chr m)
      else Some 0)"

partial_function (option) strstr_here :: "addr \<Rightarrow> addr \<Rightarrow> mem \<Rightarrow> bool option" where
  "strstr_here bp sp m =
     (if m sp = NUL then Some True
      else if m bp = m sp then strstr_here (bp + 1) (sp + 1) m else Some False)"

partial_function (option) strstr_loop :: "addr \<Rightarrow> addr \<Rightarrow> mem \<Rightarrow> addr option" where
  "strstr_loop haystack needle m =
     (if m haystack \<noteq> NUL
      then Option.bind (strstr_here haystack needle m)
             (\<lambda>b. if b then Some haystack else strstr_loop (haystack + 1) needle m)
      else Some 0)"

definition strstr :: "addr \<Rightarrow> addr \<Rightarrow> mem \<Rightarrow> addr option" where
  "strstr haystack needle m =
     (if m needle = NUL then Some haystack else strstr_loop haystack needle m)"

declare bcopy.simps [simp del] memcpy_loop.simps [simp del] bcmp.simps [simp del] bzero.simps [simp del]
  memchr_loop.simps [simp del] memset_align.simps [simp del] memset_bytes.simps [simp del]
  strncpy_copy.simps [simp del] strncpy_fill.simps [simp del]

subsection \<open>The block routines are the reference block operations\<close>

lemma char_of_byte:
  "(\<And>n. n < 8 \<Longrightarrow> bit x n = bit y n) \<Longrightarrow> int_chr x = int_chr y"
  by (simp add: char_of_def)

lemma memset_word_bit:
  "n < 32 \<Longrightarrow> bit (memset_word c) n = bit c (n mod 8)"
proof -
  assume n: "n < 32"
  define q r where "q = n div 8" and "r = n mod 8"
  with n have qr: "n = 8 * q + r" "n mod 8 = r" "r < 8" and "q < 4" by simp_all
  then consider "q = 0" | "q = 1" | "q = 2" | "q = 3" by linarith
  then show ?thesis
    unfolding qr(2) unfolding qr(1)
    by cases (use qr(3) in \<open>simp_all add: memset_word_def Let_def bit_or_iff bit_push_bit_iff bit_unsigned_iff bit_word_of_int_iff\<close>)
qed

lemma memset_word_byte: "k < 4 \<Longrightarrow> int_chr (uint (drop_bit (8 * k) (memset_word c))) = int_chr c"
  by (rule char_of_byte) (simp add: bit_unsigned_iff bit_drop_bit_eq memset_word_bit)

lemma fill_4: "m(a := c, a + 1 := c, a + 2 := c, a + 3 := c) = fill a 4 c m"
  by (auto simp: fill_def fun_eq_iff)

lemma st32_memset_word: "st32 a (memset_word c) m = fill a 4 (int_chr c) m"
proof -
  have b: "int_chr (uint (memset_word c)) = int_chr c" "int_chr (uint (drop_bit 8 (memset_word c))) = int_chr c"
      "int_chr (uint (drop_bit 16 (memset_word c))) = int_chr c" "int_chr (uint (drop_bit 24 (memset_word c))) = int_chr c"
    using memset_word_byte [of 0 c] memset_word_byte [of 1 c] memset_word_byte [of 2 c] memset_word_byte [of 3 c]
    by simp_all
  show ?thesis unfolding st32_def b by (rule fill_4)
qed

lemma fill_8:
  "fill (d + 28) 4 c (fill (d + 24) 4 c (fill (d + 20) 4 c (fill (d + 16) 4 c (fill (d + 12) 4 c
     (fill (d + 8) 4 c (fill (d + 4) 4 c (fill d 4 c m))))))) = fill d 32 c m"
  by (auto simp: fill_def fun_eq_iff)

lemma memset_block8_fill:
  "memset_block8 k d (memset_word c) m = (d + 32 * k, fill d (32 * k) (int_chr c) m)"
proof (induction k arbitrary: d m)
  case (Suc k)
  have *: "memset_block8 (Suc k) d (memset_word c) m =
      memset_block8 k (d + 32) (memset_word c) (fill d 32 (int_chr c) m)"
    by (simp add: st32_memset_word fill_8)
  show ?case unfolding * Suc.IH by (simp add: fill_fill)
qed (simp add: fill_0)

lemma memset_words_fill:
  "memset_words k d (memset_word c) m = (d + 4 * k, fill d (4 * k) (int_chr c) m)"
proof (induction k arbitrary: d m)
  case (Suc k)
  then show ?case by (simp add: st32_memset_word fill_fill)
qed (simp add: fill_0)

lemma memset_bytes_fill: "memset_bytes d len c m = fill d (nat len) (int_chr c) m"
proof (induction d len c m rule: memset_bytes.induct)
  case (1 d len c m)
  show ?case
  proof (cases "len > 0")
    case True
    with 1 have "memset_bytes d len c m = fill (Suc d) (nat (len - 1)) (int_chr c) (m(d := int_chr c))"
      by (simp add: memset_bytes.simps [of d len c m] del: fun_upd_apply)
    also have "\<dots> = fill d (nat len) (int_chr c) m"
      using True by (simp add: fill_upd nat_diff_distrib')
    finally show ?thesis .
  qed (simp add: memset_bytes.simps [of d len c m] fill_0)
qed

lemma memset_align_fill:
  "\<exists>k<4. memset_align d len c m = (d + k, len - int k, fill d k (int_chr c) m)"
proof -
  have *: "3 * d mod 4 = j \<Longrightarrow> j < 4 \<Longrightarrow> memset_align d len c m = (d + j, len - int j, fill d j (int_chr c) m)" for j
  proof (induction j arbitrary: d len m)
    case 0
    from 0(1) have "d mod 4 = 0" by (rule align_zero)
    then show ?case by (simp add: memset_align.simps [of d] fill_0)
  next
    case (Suc j)
    then have d: "d mod 4 \<noteq> 0" by (metis mult_0_right nat.distinct(1) mod_mult_right_eq mod_0)
    have "3 * (d + 1) mod 4 = j" using align_step [OF d] Suc.prems(1) by simp
    with d have "memset_align d len c m = (d + 1 + j, len - 1 - int j, fill (d + 1) j (int_chr c) (m(d := int_chr c)))"
      using Suc by (simp add: memset_align.simps [of d])
    then show ?case by (simp add: fill_upd)
  qed
  show ?thesis by (intro exI [of _ "3 * d mod 4"] conjI * refl) simp_all
qed

text \<open>C22: The word-at-a-time \<open>memset\<close> is equivalent to setting bytes one by one: for every address
  (aligned or not), length and fill value it writes the low byte of the value to exactly the
  \<open>len\<close> bytes from the destination, changes nothing else and returns the destination.\<close>

theorem memset_correct:
  "memset dstpp c len m = (dstpp, fill dstpp (nat len) (int_chr c) m)"
proof (cases "len \<ge> 8")
  case True
  obtain k where k: "k < 4"
    and al: "memset_align dstpp len c m = (dstpp + k, len - int k, fill dstpp k (int_chr c) m)"
    using memset_align_fill by blast
  define n where "n = nat (len - int k)"
  have len: "len - int k = int n" and kn: "k + n = nat len"
    using True k by (simp_all add: n_def)
  have div: "nat (int n div 32) = n div 32" "nat (int n mod 32 div 4) = n mod 32 div 4"
      "nat (int n mod 32 mod 4) = n mod 32 mod 4"
    by (simp_all only: nat_div_distrib nat_mod_distrib nat_int of_nat_0_le_iff zero_le_numeral nat_numeral
        pos_mod_sign zero_less_numeral flip: of_nat_mod of_nat_div zmod_int zdiv_int)
  have sum: "k + 32 * (n div 32) + 4 * (n mod 32 div 4) + n mod 32 mod 4 = nat len"
    using mult_div_mod_eq [of 32 n] mult_div_mod_eq [of 4 "n mod 32"] kn by linarith
  have "memset dstpp c len m =
      (dstpp, fill (dstpp + k + 32 * (n div 32) + 4 * (n mod 32 div 4)) (n mod 32 mod 4) (int_chr c)
        (fill (dstpp + k + 32 * (n div 32)) (4 * (n mod 32 div 4)) (int_chr c)
          (fill (dstpp + k) (32 * (n div 32)) (int_chr c) (fill dstpp k (int_chr c) m))))"
    using True by (simp only: memset_def Let_def al len memset_block8_fill memset_words_fill memset_bytes_fill
        div split_conv if_True)
  also have "\<dots> = (dstpp, fill dstpp (k + 32 * (n div 32) + 4 * (n mod 32 div 4) + n mod 32 mod 4) (int_chr c) m)"
    by (simp only: fill_fill add.assoc [of dstpp, symmetric]) (simp only: fill_fill add.assoc)
  finally show ?thesis by (simp only: sum)
qed (simp add: memset_def memset_bytes_fill)

lemma bzero_fill: "bzero b len m = fill b (nat len) NUL m"
proof (induction b len m rule: bzero.induct)
  case (1 b len m)
  show ?case
  proof (cases "len - 1 \<ge> 0")
    case True
    with 1 show ?thesis
      by (simp add: bzero.simps [of b] fill_upd Suc_nat_eq_nat_zadd1 del: fun_upd_apply)
  qed (simp add: bzero.simps [of b] fill_0)
qed

lemma memcpy_loop_bcopy: "memcpy_loop d s len m = bcopy s d len m"
proof (induction d s len m rule: memcpy_loop.induct)
  case (1 d s len m)
  then show ?case by (simp add: memcpy_loop.simps [of d] bcopy.simps [of s] del: fun_upd_apply)
qed

lemma bcopy_blit:
  "s + nat len \<le> d \<or> d + nat len \<le> s \<Longrightarrow> bcopy s d len m = blit d (region s (nat len) m) m"
proof (induction s d len m rule: bcopy.induct)
  case (1 s d len m)
  show ?case
  proof (cases "len - 1 \<ge> 0")
    case True
    define n where "n = nat (len - 1)"
    with True have n: "nat len = Suc n" and n': "nat (len - 1) = n" by simp_all
    have r: "region (Suc s) n (m(d := m s)) = region (Suc s) n m"
      using "1.prems" n by (intro region_upd_out) auto
    have "bcopy (s + 1) (d + 1) (len - 1) (m(d := m s)) =
        blit (d + 1) (region (s + 1) (nat (len - 1)) (m(d := m s))) (m(d := m s))"
      by (rule "1.IH" [OF True]) (use "1.prems" n n' in auto)
    then have "bcopy s d len m = blit (Suc d) (region (Suc s) n (m(d := m s))) (m(d := m s))"
      using True n' by (simp add: bcopy.simps [of s] del: fun_upd_apply)
    also have "\<dots> = blit d (region s (nat len) m) m"
      by (simp add: r blit_Cons n region_Suc)
    finally show ?thesis .
  qed (simp add: bcopy.simps [of s] blit_Nil)
qed

lemma memcpy_blit:
  "s + nat len \<le> d \<or> d + nat len \<le> s \<Longrightarrow> memcpy d s len m = (d, blit d (region s (nat len) m) m)"
  by (simp add: memcpy_def memcpy_loop_bcopy bcopy_blit)

subsection \<open>The string routines on well-formed strings\<close>

text \<open>Unfolding rules at the terminator and at a character.\<close>

lemma strlen_loop_cstr: "cstr m a s \<Longrightarrow> strlen_loop a r m = Some (r + int (length s))"
  by (induction s arbitrary: a r) (simp_all add: strlen_loop.simps)

lemma strlen_cstr [cstr_intros]: "cstr m a s \<Longrightarrow> strlen a m = Some (int (length s))"
  by (simp add: strlen_def strlen_loop_cstr)

lemma strcpy_loop_cstr:
  "cstr m src s \<Longrightarrow> src + length s < dest \<or> dest + length s < src \<Longrightarrow>
   strcpy_loop dest src m = Some (blit dest (s @ [NUL]) m)"
proof (induction s arbitrary: src dest m)
  case Nil
  have "m(dest := NUL) = blit dest [NUL] m"
    using blit_Cons [of dest "[]" m NUL] by (simp add: blit_Nil)
  with Nil show ?case by (simp add: strcpy_loop.simps [of dest src m])
next
  case (Cons c s)
  let ?m = "m(dest := c)"
  have "cstr ?m (Suc src) s" using Cons.prems by (auto intro!: cstr_upd)
  moreover have "Suc src + length s < Suc dest \<or> Suc dest + length s < Suc src" using Cons.prems by auto
  ultimately have "strcpy_loop (Suc dest) (Suc src) ?m = Some (blit (Suc dest) (s @ [NUL]) ?m)"
    by (rule Cons.IH)
  with Cons.prems show ?case by (simp add: strcpy_loop.simps [of dest src m] blit_Cons del: fun_upd_apply)
qed

text \<open>\<open>strcpy\<close> between regions that do not overlap copies the source string and its terminator,
  writes nothing else, and leaves at the destination a string equal to the source.\<close>

theorem strcpy_correct:
  assumes "cstr m src s" and "src + length s < dest \<or> dest + length s < src"
  shows "\<exists>m'. strcpy dest src m = Some (dest, m') \<and> cstr m' dest s \<and> cstr m' src s \<and>
           (\<forall>x. x < dest \<or> dest + length s < x \<longrightarrow> m' x = m x)"
proof -
  let ?m = "blit dest (s @ [NUL]) m"
  have out: "\<forall>x. x < dest \<or> dest + length s < x \<longrightarrow> ?m x = m x"
    by (auto simp: blit_def)
  have "cstr ?m src s"
    using assms out by (subst cstr_cong [of _ _ _ m]) auto
  then show ?thesis
    using assms out strcpy_loop_cstr [OF assms] cstr_blit [OF cstr_no_nul, OF assms(1)]
    by (auto simp: strcpy_def)
qed

text \<open>A small memory for the witnesses.\<close>

definition mem_ab :: mem where
  "mem_ab = ((\<lambda>_. NUL)(10 := CHR ''a'', 11 := CHR ''b'', 20 := CHR ''a'', 21 := CHR ''c'', 22 := CHR ''b''))"

lemma mem_ab_strings: "cstr mem_ab 10 ''ab''" "cstr mem_ab 20 ''acb''" "cstr mem_ab 22 ''b''"
  by (simp_all add: mem_ab_def)

theorem strcpy_correct_witness:
  "\<exists>m'. strcpy 40 20 mem_ab = Some (40, m') \<and> cstr m' 40 ''acb''"
  using strcpy_correct [OF mem_ab_strings(2), of 40] by auto

lemma strcmp_cstr:
  "cstr m a s \<Longrightarrow> cstr m b t \<Longrightarrow>
   \<exists>d. strcmp a b m = Some d \<and> (d = 0 \<longleftrightarrow> s = t) \<and> (d < 0 \<longleftrightarrow> s < t)"
proof (induction s arbitrary: a b t)
  case Nil
  then show ?case by (cases t) (auto simp: strcmp.simps [of a b m] less_char_def Let_def order_less_le)
next
  case (Cons c s)
  show ?case
  proof (cases t)
    case Nil
    with Cons.prems show ?thesis
      by (auto simp: strcmp.simps [of a b m] Let_def order_less_le)
  next
    case (Cons d t')
    have lt: "c < d \<longleftrightarrow> chr_int c < chr_int d" by (rule less_char_int)
    show ?thesis
      using Cons.prems Cons.IH [of "Suc a" "Suc b" t'] Cons lt
      by (cases "c = d") (auto simp: strcmp.simps [of a b m] Let_def)
  qed
qed

text \<open>\<open>strcmp\<close> on two strings returns; its result is 0 exactly for equal strings and negative
  exactly when the first is smaller in the lexicographic order on unsigned characters, the order
  in which a proper prefix is smaller.\<close>

theorem strcmp_order:
  assumes "cstr m a s" and "cstr m b t"
  shows "\<exists>d. strcmp a b m = Some d \<and> (d = 0 \<longleftrightarrow> s = t) \<and> (d < 0 \<longleftrightarrow> s < t) \<and> (d > 0 \<longleftrightarrow> t < s)"
proof -
  obtain d where "strcmp a b m = Some d" "d = 0 \<longleftrightarrow> s = t" "d < 0 \<longleftrightarrow> s < t"
    using strcmp_cstr [OF assms] by blast
  moreover from this have "d > 0 \<longleftrightarrow> t < s" by (metis linorder_less_linear less_asym)
  ultimately show ?thesis by blast
qed

theorem strcmp_order_witness:
  "\<exists>d. strcmp 10 20 mem_ab = Some d \<and> d < 0"
  using strcmp_order [OF mem_ab_strings(1,2)] by (auto simp: less_char_def)

lemma strchr_cstr:
  "cstr m a s \<Longrightarrow>
   strchr a c m = Some (case List.find (\<lambda>i. chr_int (s ! i) = c) [0..<length s] of None \<Rightarrow> 0 | Some i \<Rightarrow> a + i)"
proof (induction s arbitrary: a)
  case (Cons d s)
  have "List.find (\<lambda>i. chr_int ((d # s) ! i) = c) [0..<length (d # s)] =
      (if chr_int d = c then Some 0 else map_option Suc (List.find (\<lambda>i. chr_int (s ! i) = c) [0..<length s]))"
    by (simp add: upt_conv_Cons find_map comp_def del: upt_Suc flip: map_Suc_upt)
  with Cons show ?case
    by (auto simp: strchr.simps [of a c m] split: option.splits)
qed (simp add: strchr.simps)

lemma sublist_iff_drop: "sublist t s \<longleftrightarrow> (\<exists>i \<le> length s. prefix t (drop i s))"
proof
  assume "sublist t s"
  then obtain xs ys where "s = xs @ t @ ys" by (auto simp: sublist_def)
  then show "\<exists>i \<le> length s. prefix t (drop i s)" by (intro exI [of _ "length xs"]) simp
next
  assume "\<exists>i \<le> length s. prefix t (drop i s)"
  then obtain i ys where "drop i s = t @ ys" by (auto simp: prefix_def)
  then have "s = take i s @ t @ ys" by (metis append_take_drop_id)
  then show "sublist t s" unfolding sublist_def by blast
qed

lemma strstr_here_cstr:
  "cstr m a s \<Longrightarrow> cstr m b t \<Longrightarrow> strstr_here a b m = Some (prefix t s)"
proof (induction t arbitrary: a b s)
  case (Cons d t)
  then show ?case by (cases s) (auto simp: strstr_here.simps [of a b m])
qed (simp add: strstr_here.simps)

lemma strstr_loop_cstr:
  assumes t: "cstr m b t" "t \<noteq> []"
  shows "cstr m a s \<Longrightarrow>
     (\<forall>i \<le> length s. \<not> prefix t (drop i s)) \<and> strstr_loop a b m = Some 0 \<or>
     (\<exists>i \<le> length s. strstr_loop a b m = Some (a + i) \<and> prefix t (drop i s) \<and> (\<forall>j<i. \<not> prefix t (drop j s)))"
proof (induction s arbitrary: a)
  case Nil
  with t show ?case by (simp add: strstr_loop.simps [of a b m])
next
  case (Cons c s)
  note here = strstr_here_cstr [OF Cons.prems t(1)]
  show ?case
  proof (cases "prefix t (c # s)")
    case True
    with here Cons.prems show ?thesis
      by (intro disjI2 exI [of _ 0]) (simp add: strstr_loop.simps [of a b m])
  next
    case False
    with here Cons.prems have rec: "strstr_loop a b m = strstr_loop (Suc a) b m"
      by (simp add: strstr_loop.simps [of a b m])
    from Cons.prems have "cstr m (Suc a) s" by simp
    from Cons.IH [OF this] show ?thesis
    proof (elim disjE exE conjE, goal_cases)
      case 1
      with False rec show ?case by (auto simp: drop_Cons split: nat.splits)
    next
      case (2 i)
      with False rec show ?case
        by (intro disjI2 exI [of _ "Suc i"]) (auto simp: drop_Cons split: nat.splits)
    qed
  qed
qed

text \<open>C24: \<open>strstr\<close> returns the address of the first occurrence of the needle in the haystack (the
  haystack itself for an empty needle), and NULL exactly when there is none.\<close>

theorem strstr_first:
  assumes "cstr m a s" and "cstr m b t" and "0 < a"
  shows "\<exists>r. strstr a b m = Some r \<and>
           (r = 0 \<and> \<not> sublist t s \<or>
            (\<exists>i \<le> length s. r = a + i \<and> prefix t (drop i s) \<and> (\<forall>j<i. \<not> prefix t (drop j s))))"
proof (cases t)
  case Nil
  with assms show ?thesis by (intro exI [of _ a]) (auto simp: strstr_def intro!: exI [of _ 0])
next
  case (Cons d t')
  have sub: "sublist t s \<longleftrightarrow> (\<exists>i \<le> length s. prefix t (drop i s))"
    by (rule sublist_iff_drop)
  have "m b \<noteq> NUL" using assms(2) Cons by simp
  then have "strstr a b m = strstr_loop a b m" by (simp add: strstr_def)
  with strstr_loop_cstr [OF assms(2) _ assms(1)] Cons sub show ?thesis by auto
qed

theorem strstr_first_witness: "strstr 10 22 mem_ab = Some 11"
proof -
  obtain r where r: "strstr 10 22 mem_ab = Some r" and
    c: "r = 0 \<and> \<not> sublist ''b'' ''ab'' \<or>
        (\<exists>i \<le> length ''ab''. r = 10 + i \<and> prefix ''b'' (drop i ''ab'') \<and> (\<forall>j<i. \<not> prefix ''b'' (drop j ''ab'')))"
    using strstr_first [OF mem_ab_strings(1,3)] by auto
  have "sublist ''b'' ''ab''" by (simp add: sublist_code)
  with c obtain i where i: "i \<le> 2" "r = 10 + i" "prefix ''b'' (drop i ''ab'')" by auto
  then have "i = 1" by (cases i rule: nat.exhaust [case_product nat.exhaust]) (auto simp: le_Suc_eq numeral_2_eq_2)
  with r i show ?thesis by simp
qed

end
