(* ===== verification/CNum.thy ===== *)
theory CNum
  imports CString
begin

unbundle bit_operations_syntax

text \<open>
  Number parsing: \<open>atoi\<close> and \<open>atol\<close> of \<^verbatim>\<open>prlibc.c\<close>, \<open>strtol\<close> and \<open>strtoul\<close> of \<^verbatim>\<open>strtol.c\<close> (32-bit
  \<^verbatim>\<open>long\<close>), \<open>strtoq\<close> and \<open>strtouq\<close> of \<^verbatim>\<open>scanf.c\<close> (64-bit). The four conversions share their shape:
  white space, sign and base prefix (\<open>strto_head\<close>), then the digit loop with its overflow test
  (\<open>strto_loop\<close>), which is generic in the accumulator's width.
\<close>

subsection \<open>\<open>atoi\<close> and \<open>atol\<close>\<close>

text \<open>White space is skipped, and so are zero bytes; on the 32-bit target the two functions differ only
  in an unreachable test (\<open>c == 'x'\<close> after letters have been put in upper case).\<close>

partial_function (option) atoi_skip :: "addr \<Rightarrow> mem \<Rightarrow> addr option" where
  "atoi_skip s m = (if m s = CHR '' '' \<or> m s = NUL then atoi_skip (s + 1) m else Some s)"

partial_function (option) atoi_loop :: "addr \<Rightarrow> u32 \<Rightarrow> u32 \<Rightarrow> mem \<Rightarrow> u32 option" where
  "atoi_loop s r base m =
     (let c = chr_int (m s) in
      if c \<ge> 48 \<and> c \<le> 57 then atoi_loop (s + 1) (r * base + word_of_int (c - 48)) base m
      else
        let c = (if c \<ge> 97 then c - 32 else c) in
        if c = 88 then atoi_loop (s + 1) r 16 m
        else if base \<ge> 10 \<and> c \<ge> 65 \<and> c \<le> 70
          then atoi_loop (s + 1) (r * base + word_of_int (c - 55)) base m
        else Some r)"

definition atoi :: "addr \<Rightarrow> mem \<Rightarrow> int option" where
  "atoi s m =
     (if s = 0 then Some 0
      else Option.bind (atoi_skip s m) (\<lambda>s. map_option sint (atoi_loop s 0 10 m)))"

partial_function (option) atol_loop :: "addr \<Rightarrow> u32 \<Rightarrow> u32 \<Rightarrow> mem \<Rightarrow> u32 option" where
  "atol_loop s r base m =
     (let c = chr_int (m s) in
      if c \<ge> 48 \<and> c \<le> 57 then atol_loop (s + 1) (r * base + word_of_int (c - 48)) base m
      else
        let c = (if c \<ge> 97 then c - 32 else c) in
        if c = 88 \<or> c = 120 then atol_loop (s + 1) r 16 m
        else if base \<ge> 10 \<and> c \<ge> 65 \<and> c \<le> 70
          then atol_loop (s + 1) (r * base + word_of_int (c - 55)) base m
        else Some r)"

definition atol :: "addr \<Rightarrow> mem \<Rightarrow> int option" where
  "atol s m =
     (if s = 0 then Some 0
      else Option.bind (atoi_skip s m) (\<lambda>s. map_option sint (atol_loop s 0 10 m)))"

subsection \<open>The \<open>strtol\<close> family\<close>

definition isspace :: "int \<Rightarrow> bool" where
  \<comment> \<open>the last test of the source is for the octal escape 12, which is again newline\<close>
  "isspace c \<longleftrightarrow> c = 32 \<or> c = 9 \<or> c = 10 \<or> c = 10"

text \<open>\<open>do c = *s++; while (isspace(c))\<close>: the first other character and the address after it.\<close>

partial_function (option) skip_space :: "addr \<Rightarrow> mem \<Rightarrow> (int \<times> addr) option" where
  "skip_space s m =
     (let c = chr_int (m s) in if isspace c then skip_space (s + 1) m else Some (c, s + 1))"

text \<open>Sign and base prefix: the current character, the address after it, the base, and \<open>neg\<close>.
  Only the 32-bit functions know the binary prefix \<open>0b\<close>.\<close>

definition strto_head :: "bool \<Rightarrow> int \<Rightarrow> addr \<Rightarrow> mem \<Rightarrow> (int \<times> addr \<times> int \<times> bool) option" where
  "strto_head bin base nptr m =
     Option.bind (skip_space nptr m) (\<lambda>(c, s).
       let (neg, c, s) = (if c = 45 then (True, chr_int (m s), s + 1)
                          else if c = 43 then (False, chr_int (m s), s + 1) else (False, c, s));
           (c, s, base) =
             (if (base = 0 \<or> base = 16) \<and> c = 48 \<and> (m s = CHR ''x'' \<or> m s = CHR ''X'')
              then (chr_int (m (s + 1)), s + 2, 16)
              else if bin \<and> (base = 0 \<or> base = 2) \<and> c = 48 \<and> (m s = CHR ''b'' \<or> m s = CHR ''B'')
              then (chr_int (m (s + 1)), s + 2, 2)
              else (c, s, base));
           base = (if base = 0 then if c = 48 then 8 else 10 else base)
       in Some (c, s, base, neg))"

text \<open>The value of a character as a digit, None where the loop breaks.\<close>

definition digit_val :: "int \<Rightarrow> int option" where
  "digit_val c =
     (if isdigit c then Some (c - 48)
      else if isalpha c then Some (c - (if isupper c then 55 else 87)) else None)"

partial_function (option) strto_loop ::
  "'a::len word \<Rightarrow> int \<Rightarrow> int \<Rightarrow> mem \<Rightarrow> int \<Rightarrow> addr \<Rightarrow> 'a word \<Rightarrow> int \<Rightarrow> ('a word \<times> int \<times> addr) option" where
  "strto_loop cutoff cutlim base m c s acc any =
     (case digit_val c of
        None \<Rightarrow> Some (acc, any, s)
      | Some c \<Rightarrow>
          if c \<ge> base then Some (acc, any, s)
          else if any < 0 \<or> acc > cutoff \<or> acc = cutoff \<and> c > cutlim
          then strto_loop cutoff cutlim base m (chr_int (m s)) (s + 1) acc (- 1)
          else strto_loop cutoff cutlim base m (chr_int (m s)) (s + 1)
                 (acc * word_of_int base + word_of_int c) 1)"

text \<open>The result is the value and the address stored through \<open>endptr\<close> (when that is not NULL).\<close>

definition strtol :: "addr \<Rightarrow> int \<Rightarrow> mem \<Rightarrow> (u32 \<times> addr) option" where
  "strtol nptr base m =
     Option.bind (strto_head True base nptr m) (\<lambda>(c, s, base, neg).
       let cutoff = (if neg then - 0x80000000 else 0x7FFFFFFF) :: u32;
           cutlim = sint (cutoff mod word_of_int base);
           cutoff = cutoff div word_of_int base
       in Option.bind (strto_loop cutoff cutlim base m c s 0 0) (\<lambda>(acc, any, s).
            let acc = (if any < 0 then if neg then 0x80000000 else 0x7FFFFFFF
                       else if neg then - acc else acc)
            in Some (acc, if any \<noteq> 0 then s - 1 else nptr)))"

definition strtoul :: "addr \<Rightarrow> int \<Rightarrow> mem \<Rightarrow> (u32 \<times> addr) option" where
  "strtoul nptr base m =
     Option.bind (strto_head True base nptr m) (\<lambda>(c, s, base, neg).
       let cutoff = 0xFFFFFFFF div (word_of_int base :: u32);
           cutlim = sint (0xFFFFFFFF mod (word_of_int base :: u32))
       in Option.bind (strto_loop cutoff cutlim base m c s 0 0) (\<lambda>(acc, any, s).
            let acc = (if any < 0 then 0xFFFFFFFF else if neg then - acc else acc)
            in Some (acc, if any \<noteq> 0 then s - 1 else nptr)))"

text \<open>The 64-bit versions also set \<open>errno\<close> to ERANGE (34) on overflow: the last component says so.\<close>

definition strtoq :: "addr \<Rightarrow> int \<Rightarrow> mem \<Rightarrow> (u64 \<times> addr \<times> bool) option" where
  "strtoq nptr base m =
     Option.bind (strto_head False base nptr m) (\<lambda>(c, s, base, neg).
       let qbase = ucast (word_of_int base :: u32) :: u64;
           cutoff = (if neg then - 0x8000000000000000 else 0x7FFFFFFFFFFFFFFF) :: u64;
           cutlim = sint (ucast (cutoff mod qbase) :: u32);
           cutoff = cutoff div qbase
       in Option.bind (strto_loop cutoff cutlim base m c s 0 0) (\<lambda>(acc, any, s).
            let acc = (if any < 0 then if neg then 0x8000000000000000 else 0x7FFFFFFFFFFFFFFF
                       else if neg then - acc else acc)
            in Some (acc, if any \<noteq> 0 then s - 1 else nptr, any < 0)))"

definition strtouq :: "addr \<Rightarrow> int \<Rightarrow> mem \<Rightarrow> (u64 \<times> addr \<times> bool) option" where
  "strtouq nptr base m =
     Option.bind (strto_head False base nptr m) (\<lambda>(c, s, base, neg).
       let qbase = ucast (word_of_int base :: u32) :: u64;
           cutoff = 0xFFFFFFFFFFFFFFFF div qbase;
           cutlim = sint (ucast (0xFFFFFFFFFFFFFFFF mod qbase) :: u32)
       in Option.bind (strto_loop cutoff cutlim base m c s 0 0) (\<lambda>(acc, any, s).
            let acc = (if any < 0 then 0xFFFFFFFFFFFFFFFF else if neg then - acc else acc)
            in Some (acc, if any \<noteq> 0 then s - 1 else nptr, any < 0)))"

subsection \<open>The digit loop clamps\<close>

definition is_dig :: "int \<Rightarrow> char \<Rightarrow> bool" where
  "is_dig b ch = (case digit_val (chr_int ch) of None \<Rightarrow> False | Some d \<Rightarrow> d < b)"

definition dval :: "char \<Rightarrow> int" where
  "dval ch = (case digit_val (chr_int ch) of None \<Rightarrow> 0 | Some d \<Rightarrow> d)"

text \<open>The number a digit string denotes, most significant digit first, after the prefix value \<open>v\<close>.\<close>

fun hval :: "int \<Rightarrow> int \<Rightarrow> string \<Rightarrow> int" where
  "hval b v [] = v"
| "hval b v (c # cs) = hval b (v * b + dval c) cs"

lemma digit_val_nonneg: "digit_val c = Some d \<Longrightarrow> 0 \<le> d"
  by (auto simp: digit_val_def ctype_defs split: if_splits)

lemma dval_nonneg: "0 \<le> dval c"
  by (auto simp: dval_def dest: digit_val_nonneg split: option.splits)

lemma is_dig_NUL [simp]: "\<not> is_dig b NUL"
  by (simp add: is_dig_def digit_val_def ctype_defs)

lemma hval_mono: "1 \<le> b \<Longrightarrow> 0 \<le> v \<Longrightarrow> v \<le> hval b v ds"
proof (induction ds arbitrary: v)
  case (Cons c ds)
  have "v * 1 \<le> v * b" using Cons.prems by (intro mult_left_mono) auto
  then have "v \<le> v * b + dval c" using dval_nonneg [of c] by simp
  also have "\<dots> \<le> hval b (v * b + dval c) ds"
    using Cons dval_nonneg [of c] by (intro Cons.IH) auto
  finally show ?case by simp
qed simp

lemma clamp_test:
  fixes v d b M :: int
  assumes "0 \<le> d" "d < b" "0 \<le> v" "0 \<le> M"
  shows "(v > M div b \<or> v = M div b \<and> d > M mod b) \<longleftrightarrow> M < v * b + d"
proof -
  define q r where "q = M div b" and "r = M mod b"
  have M: "M = q * b + r" by (simp add: q_def r_def)
  have r: "0 \<le> r" "r < b" using assms by (simp_all add: r_def)
  consider "v < q" | "v = q" | "v > q" by linarith
  then have "(v > q \<or> v = q \<and> d > r) \<longleftrightarrow> q * b + r < v * b + d"
  proof cases
    case 1
    then have "(v + 1) * b \<le> q * b" using assms by (intro mult_right_mono) auto
    then have "v * b + b \<le> q * b" by (simp add: distrib_right)
    with 1 r assms show ?thesis by linarith
  next
    case 2
    then show ?thesis by auto
  next
    case 3
    then have "(q + 1) * b \<le> v * b" using assms by (intro mult_right_mono) auto
    then have "q * b + b \<le> v * b" by (simp add: distrib_right)
    with 3 r assms show ?thesis by linarith
  qed
  then show ?thesis by (simp only: q_def r_def M [symmetric]) (simp add: M [symmetric] q_def r_def)
qed

lemma stop_next: "cstr m p (c # s) \<Longrightarrow> cstr m (Suc p) s"
  by simp

text \<open>\<open>stops b rest\<close>: the digit run ends where \<open>rest\<close> begins.\<close>

definition stops :: "int \<Rightarrow> string \<Rightarrow> bool" where
  "stops b rest \<longleftrightarrow> (case rest of [] \<Rightarrow> True | c # _ \<Rightarrow> \<not> is_dig b c)"

lemma cstr_stops: "cstr m p rest \<Longrightarrow> stops b rest \<Longrightarrow> \<not> is_dig b (m p)"
  by (cases rest) (auto simp: stops_def)

lemma strto_loop_stop:
  "\<not> is_dig b (m p) \<Longrightarrow> strto_loop co cl b m (chr_int (m p)) s acc any = Some (acc, any, s)"
  by (auto simp: strto_loop.simps [of co cl b m "chr_int (m p)"] is_dig_def split: option.splits)

lemma strto_loop_over:
  "list_all (is_dig b) ds \<Longrightarrow> stops b rest \<Longrightarrow> cstr m p (ds @ rest) \<Longrightarrow>
   strto_loop co cl b m (chr_int (m p)) (Suc p) acc (- 1) = Some (acc, - 1, Suc p + length ds)"
proof (induction ds arbitrary: p)
  case Nil
  then show ?case by (simp add: strto_loop_stop cstr_stops)
next
  case (Cons c ds)
  then have "is_dig b (m p)" by simp
  then obtain d where "digit_val (chr_int (m p)) = Some d" "d < b"
    by (auto simp: is_dig_def split: option.splits)
  then have "strto_loop co cl b m (chr_int (m p)) (Suc p) acc (- 1) =
      strto_loop co cl b m (chr_int (m (Suc p))) (Suc (Suc p)) acc (- 1)"
    by (simp add: strto_loop.simps [of co cl b m "chr_int (m p)"])
  with Cons show ?case by simp
qed

lemma strto_loop_digits:
  fixes acc :: "'a::len word"
  assumes "2 \<le> b" "b < 2 ^ LENGTH('a)" "uint co = M div b" "cl = M mod b" "M < 2 ^ LENGTH('a)"
  shows "list_all (is_dig b) ds \<Longrightarrow> stops b rest \<Longrightarrow> cstr m p (ds @ rest) \<Longrightarrow> uint acc \<le> M \<Longrightarrow> 0 \<le> any \<Longrightarrow>
     \<exists>acc' any'. strto_loop co cl b m (chr_int (m p)) (Suc p) acc any = Some (acc', any', Suc p + length ds) \<and>
       (if hval b (uint acc) ds \<le> M then uint acc' = hval b (uint acc) ds \<and> any' = (if ds = [] then any else 1)
        else any' = - 1)"
proof (induction ds arbitrary: p acc any)
  case Nil
  then show ?case by (simp add: strto_loop_stop cstr_stops)
next
  case (Cons c ds)
  then have "is_dig b (m p)" and c: "m p = c" and cs: "cstr m (Suc p) (ds @ rest)" by simp_all
  then obtain d where d: "digit_val (chr_int (m p)) = Some d" "d < b"
    by (auto simp: is_dig_def split: option.splits)
  then have dv: "dval c = d" "0 \<le> d" using c by (auto simp: dval_def dest: digit_val_nonneg)
  have M: "0 \<le> M" using Cons.prems(4) by (meson order_trans uint_ge_0)
  have cmp: "acc > co \<longleftrightarrow> uint acc > uint co" "acc = co \<longleftrightarrow> uint acc = uint co"
    by (auto simp: word_less_def word_uint_eq_iff simp del: word_of_int_uint)
  have test: "(acc > co \<or> acc = co \<and> d > cl) \<longleftrightarrow> M < uint acc * b + d"
    unfolding cmp assms using clamp_test [of d b "uint acc" M] d(2) dv(2) M by simp
  show ?case
  proof (cases "M < uint acc * b + d")
    case True
    have "M < hval b (uint acc * b + d) ds"
      using True hval_mono [of b "uint acc * b + d" ds] assms(1) dv(2) by simp
    then show ?thesis
      using True test Cons.prems d dv cs c strto_loop_over [of b ds rest m "Suc p" co cl acc]
      by (auto simp: strto_loop.simps [of co cl b m "chr_int (m p)"])
  next
    case False
    let ?acc = "acc * word_of_int b + word_of_int d :: 'a word"
    have dl: "d < 2 ^ LENGTH('a)" using d(2) assms(2) by linarith
    have "0 \<le> uint acc * b + d" using assms(1) dv(2) by simp
    then have u: "uint ?acc = uint acc * b + d"
      using False assms dl dv(2)
      by (simp add: uint_word_ariths uint_word_of_int mod_simps)
    obtain acc' any' where
      r: "strto_loop co cl b m (chr_int (m (Suc p))) (Suc (Suc p)) ?acc 1 =
          Some (acc', any', Suc (Suc p) + length ds)" and
      v: "hval b (uint ?acc) ds \<le> M \<Longrightarrow> uint acc' = hval b (uint ?acc) ds \<and> any' = 1"
         "\<not> hval b (uint ?acc) ds \<le> M \<Longrightarrow> any' = - 1"
      using Cons.IH [of "Suc p" ?acc 1] Cons.prems cs u False by (force split: if_splits)
    have "strto_loop co cl b m (chr_int (m p)) (Suc p) acc any =
        strto_loop co cl b m (chr_int (m (Suc p))) (Suc (Suc p)) ?acc 1"
      using False test Cons.prems(5) d by (subst strto_loop.simps) auto
    then show ?thesis using r v u dv by simp
  qed
qed

subsection \<open>White space, sign and base prefix\<close>

definition is_sign :: "string \<Rightarrow> bool" where
  "is_sign sg \<longleftrightarrow> sg = [] \<or> sg = ''-'' \<or> sg = ''+''"

lemma skip_space_cstr:
  "list_all (\<lambda>c. isspace (chr_int c)) ws \<Longrightarrow> cstr m p (ws @ t) \<Longrightarrow> \<not> isspace (chr_int (m (p + length ws))) \<Longrightarrow>
   skip_space p m = Some (chr_int (m (p + length ws)), Suc (p + length ws))"
proof (induction ws arbitrary: p)
  case Nil
  then show ?case by (subst skip_space.simps) simp
next
  case (Cons c ws)
  then show ?case using Cons.IH [of "Suc p"] by (subst skip_space.simps) (simp add: Let_def)
qed

lemma cstr_append: "cstr m p (s @ t) \<Longrightarrow> cstr m (p + length s) t"
  by (induction s arbitrary: p) force+

lemma is_dig_cases:
  "is_dig b c \<Longrightarrow> \<not> isspace (chr_int c) \<and> chr_int c \<noteq> 45 \<and> chr_int c \<noteq> 43"
  by (auto simp: is_dig_def digit_val_def ctype_defs isspace_def split: option.splits if_splits)

lemma strto_head_plain:
  assumes ws: "list_all (\<lambda>c. isspace (chr_int c)) ws" and sg: "is_sign sg"
    and c: "cstr m p (ws @ sg @ ds)" and ds: "is_dig b (m (p + length ws + length sg))"
    and b: "b \<notin> {0, 2, 16}"
  shows "strto_head bin b p m =
     Some (chr_int (m (p + length ws + length sg)), Suc (p + length ws + length sg), b, sg = ''-'')"
proof -
  let ?q = "p + length ws"
  have t: "cstr m ?q (sg @ ds)" using cstr_append [OF c] by simp
  have "\<not> isspace (chr_int (m ?q))"
    using sg t is_dig_cases [OF ds] by (auto simp: is_sign_def isspace_def)
  note h = skip_space_cstr [OF ws c this]
  show ?thesis
    using sg t is_dig_cases [OF ds] b by (auto simp: strto_head_def h is_sign_def)
qed

text \<open>With the prefix \<open>0x\<close>, base 16 or 0 means hexadecimal.\<close>

lemma strto_head_hex:
  assumes ws: "list_all (\<lambda>c. isspace (chr_int c)) ws"
    and c: "cstr m p (ws @ ''0x'' @ ds)" and b: "b = 0 \<or> b = 16"
  shows "strto_head bin b p m =
     Some (chr_int (m (p + length ws + 2)), Suc (p + length ws + 2), 16, False)"
proof -
  let ?q = "p + length ws"
  have t: "cstr m ?q (''0x'' @ ds)" using cstr_append [OF c] by simp
  then have "\<not> isspace (chr_int (m ?q))" by (simp add: isspace_def)
  note h = skip_space_cstr [OF ws c this]
  show ?thesis using t b by (auto simp: strto_head_def h numeral_2_eq_2 numeral_3_eq_3)
qed

subsection \<open>The conversions\<close>

text \<open>The digit loop on a digit run that starts at \<open>q\<close>.\<close>

lemma strto_run:
  fixes co :: "'a::len word"
  assumes b: "2 \<le> b" "b < 2 ^ LENGTH('a)" and M: "0 \<le> M" "M < 2 ^ LENGTH('a)"
    and co: "uint co = M div b" and cl: "cl = M mod b"
    and ds: "list_all (is_dig b) ds" "ds \<noteq> []" "stops b rest" and c: "cstr m q (ds @ rest)"
  obtains acc any where
    "strto_loop co cl b m (chr_int (m q)) (Suc q) 0 0 = Some (acc, any, Suc (q + length ds))"
    "hval b 0 ds \<le> M \<Longrightarrow> uint acc = hval b 0 ds \<and> any = 1" "\<not> hval b 0 ds \<le> M \<Longrightarrow> any = - 1"
  using strto_loop_digits [OF b co cl M(2) ds(1,3) c, of 0 0] ds(2) M(1) by (auto split: if_splits)

lemma sint_uint32:
  fixes w :: u32
  shows "uint w < 2 ^ 31 \<Longrightarrow> sint w = uint w" "uint w \<le> 2 ^ 31 \<Longrightarrow> sint (- w) = - uint w"
proof -
  show "sint w = uint w" if "uint w < 2 ^ 31"
    using that signed_take_bit_int_eq_self [of 31 "uint w"] order_trans [OF _ uint_ge_0 [of w], of "- (2 ^ 31)"]
    by (simp add: sint_uint)
  show "sint (- w) = - uint w" if "uint w \<le> 2 ^ 31"
  proof -
    have "signed_take_bit 31 (- uint w) = - uint w"
      using that order_trans [OF _ uint_ge_0 [of w], of "- (2 ^ 31) + 1"]
      by (intro signed_take_bit_int_eq_self) simp_all
    moreover have "(word_of_int (- uint w) :: u32) = - w"
      by (simp only: wi_hom_neg [symmetric] word_of_int_uint)
    then have "sint (- w) = sint (word_of_int (- uint w) :: u32)" by (simp only:)
    moreover have "sint (word_of_int (- uint w) :: u32) = signed_take_bit 31 (- uint w)"
      by (subst signed_of_int) simp
    ultimately show ?thesis by (simp only:)
  qed
qed

text \<open>The limits the code computes are the quotient and the remainder of the largest legal value.\<close>

lemma limits32:
  fixes c :: u32
  assumes "uint c = M" "2 \<le> b" "b \<le> 36"
  shows "uint (c div word_of_int b) = M div b" "sint (c mod word_of_int b) = M mod b"
proof -
  have ub: "uint (word_of_int b :: u32) = b" using assms by (simp add: uint_word_of_int)
  show "uint (c div word_of_int b) = M div b" by (simp only: uint_div assms(1) ub)
  have r: "uint (c mod word_of_int b) = M mod b" by (simp only: uint_mod assms(1) ub)
  have "M mod b < 36" using assms(2,3) pos_mod_bound [of b M] by linarith
  then have "uint (c mod word_of_int b) < 2 ^ 31" using r by simp
  from sint_uint32(1) [OF this] show "sint (c mod word_of_int b) = M mod b" by (simp only: r)
qed

lemma limits64:
  fixes c :: u64
  assumes "uint c = M" "2 \<le> b" "b \<le> 36"
  shows "uint (c div ucast (word_of_int b :: u32)) = M div b"
    "sint (ucast (c mod ucast (word_of_int b :: u32)) :: u32) = M mod b"
proof -
  have ub: "uint (ucast (word_of_int b :: u32) :: u64) = b"
    using assms by (simp add: unsigned_ucast_eq unsigned_of_int take_bit_int_eq_self)
  show "uint (c div ucast (word_of_int b :: u32)) = M div b" by (simp only: uint_div assms(1) ub)
  have r: "uint (c mod ucast (word_of_int b :: u32)) = M mod b" by (simp only: uint_mod assms(1) ub)
  have l: "0 \<le> M mod b" "M mod b < 36" using assms(2,3) pos_mod_bound [of b M] by (simp, linarith)
  have e: "uint (ucast (c mod ucast (word_of_int b :: u32)) :: u32) = M mod b"
    using r l by (simp add: unsigned_ucast_eq take_bit_int_eq_self)
  then have "uint (ucast (c mod ucast (word_of_int b :: u32)) :: u32) < 2 ^ 31" using l by simp
  from sint_uint32(1) [OF this] show "sint (ucast (c mod ucast (word_of_int b :: u32)) :: u32) = M mod b"
    by (simp only: e)
qed

text \<open>C23: \<open>strtol\<close> in a base other than 2 and 16 skips white space, takes an optional sign, reads the
  longest run of digits of the base, and returns its value clamped to LONG_MIN..LONG_MAX;
  \<open>endptr\<close> receives the address right after the digits, however long the run is.\<close>

theorem strtol_clamps:
  assumes "cstr m p (ws @ sg @ ds @ rest)"
    and "list_all (\<lambda>c. isspace (chr_int c)) ws" and "is_sign sg"
    and "list_all (is_dig b) ds" and "ds \<noteq> []" and "stops b rest"
    and "2 \<le> b" and "b \<le> 36" and "b \<noteq> 2" and "b \<noteq> 16"
  shows "\<exists>w. strtol p b m = Some (w, p + length (ws @ sg @ ds)) \<and>
           sint w = max (- (2 ^ 31)) (min (2 ^ 31 - 1)
                      ((if sg = ''-'' then - 1 else 1) * hval b 0 ds))"
proof -
  let ?q = "p + length ws + length sg"
  have q: "cstr m ?q (ds @ rest)"
    using cstr_append [OF cstr_append [OF assms(1)]] by simp
  then have dq: "is_dig b (m ?q)" using assms(4,5) by (cases ds) auto
  have "b \<notin> {0, 2, 16}" using assms(7,9,10) by auto
  note h = strto_head_plain [OF assms(2,3,1) dq this, of True]
  define M where "M = (if sg = ''-'' then 0x80000000 else 0x7FFFFFFF :: int)"
  define co where "co = ((if sg = ''-'' then - 0x80000000 else 0x7FFFFFFF) :: u32)"
  have u: "uint co = M" by (simp add: co_def M_def)
  have pos: "0 \<le> hval b 0 ds" using hval_mono [of b 0 ds] assms(7) by simp
  have M: "0 \<le> M" "M < 2 ^ LENGTH(32)" "b < 2 ^ LENGTH(32)" using assms(8) by (simp_all add: M_def)
  obtain acc any where
    run: "strto_loop (co div word_of_int b) (sint (co mod word_of_int b)) b m (chr_int (m ?q)) (Suc ?q) 0 0 =
        Some (acc, any, Suc (?q + length ds))"
    and v: "hval b 0 ds \<le> M \<Longrightarrow> uint acc = hval b 0 ds \<and> any = 1" "\<not> hval b 0 ds \<le> M \<Longrightarrow> any = - 1"
    using strto_run [OF assms(7) M(3,1,2) limits32 [OF u assms(7,8)] assms(4,5,6) q] by blast
  have s: "strtol p b m = Some (if any < 0 then if sg = ''-'' then 0x80000000 else 0x7FFFFFFF
      else if sg = ''-'' then - acc else acc, if any \<noteq> 0 then ?q + length ds else p)"
    using run by (simp add: strtol_def h co_def [symmetric] Let_def)
  show ?thesis
  proof (cases "hval b 0 ds \<le> M")
    case True
    with v(1) sint_uint32 [of acc] pos show ?thesis
      unfolding s by (auto simp: M_def add_ac split: if_splits)
  next
    case False
    with v(2) pos show ?thesis
      unfolding s by (auto simp: M_def add_ac split: if_splits)
  qed
qed

text \<open>\<open>strtoul\<close> with base 0 or 16 reads \<open>0x\<close> and hexadecimal digits as that number, clamped to
  ULONG_MAX, and leaves \<open>endptr\<close> right after the digits.\<close>

theorem strtoul_hex:
  assumes "cstr m p (ws @ ''0x'' @ ds @ rest)"
    and "list_all (\<lambda>c. isspace (chr_int c)) ws"
    and "list_all (is_dig 16) ds" and "ds \<noteq> []" and "stops 16 rest"
    and "b = 0 \<or> b = 16"
  shows "\<exists>w. strtoul p b m = Some (w, p + length (ws @ ''0x'' @ ds)) \<and>
           uint w = min (2 ^ 32 - 1) (hval 16 0 ds)"
proof -
  let ?q = "p + length ws + 2"
  have q: "cstr m ?q (ds @ rest)"
    using cstr_append [OF cstr_append [OF assms(1)]] by simp
  note h = strto_head_hex [OF assms(2,1,6), of True]
  define co where "co = (0xFFFFFFFF :: u32)"
  have u: "uint co = 0xFFFFFFFF" by (simp add: co_def)
  obtain acc any where
    run: "strto_loop (co div word_of_int 16) (sint (co mod word_of_int 16)) 16 m (chr_int (m ?q)) (Suc ?q) 0 0 =
        Some (acc, any, Suc (?q + length ds))"
    and v: "hval 16 0 ds \<le> 0xFFFFFFFF \<Longrightarrow> uint acc = hval 16 0 ds \<and> any = 1"
      "\<not> hval 16 0 ds \<le> 0xFFFFFFFF \<Longrightarrow> any = - 1"
    by (rule strto_run [OF _ _ _ _ limits32 [OF u] assms(3,4,5) q]) auto
  have s: "strtoul p b m = Some (if any < 0 then 0xFFFFFFFF else acc, if any \<noteq> 0 then ?q + length ds else p)"
    using run by (simp add: strtoul_def h co_def [symmetric] Let_def)
  show ?thesis
    using v unfolding s by (cases "hval 16 0 ds \<le> 0xFFFFFFFF") auto
qed

text \<open>\<open>strtouq\<close> in a base other than 2 and 16 converts the longest run of digits of the base; a
  number above 2^64-1 gives 2^64-1 with ERANGE, a smaller one its value, negated modulo 2^64 after a minus sign.\<close>

theorem strtouq_range:
  assumes "cstr m p (ws @ sg @ ds @ rest)"
    and "list_all (\<lambda>c. isspace (chr_int c)) ws" and "is_sign sg"
    and "list_all (is_dig b) ds" and "ds \<noteq> []" and "stops b rest"
    and "2 \<le> b" and "b \<le> 36" and "b \<noteq> 2" and "b \<noteq> 16"
  shows "\<exists>w. strtouq p b m = Some (w, p + length (ws @ sg @ ds), 2 ^ 64 \<le> hval b 0 ds) \<and>
           uint w = (if 2 ^ 64 \<le> hval b 0 ds then 2 ^ 64 - 1
                     else (if sg = ''-'' then - hval b 0 ds else hval b 0 ds) mod 2 ^ 64)"
proof -
  let ?q = "p + length ws + length sg"
  have q: "cstr m ?q (ds @ rest)"
    using cstr_append [OF cstr_append [OF assms(1)]] by simp
  then have dq: "is_dig b (m ?q)" using assms(4,5) by (cases ds) auto
  have "b \<notin> {0, 2, 16}" using assms(7,9,10) by auto
  note h = strto_head_plain [OF assms(2,3,1) dq this, of False]
  define co where "co = (0xFFFFFFFFFFFFFFFF :: u64)"
  have u: "uint co = 2 ^ 64 - 1" by (simp add: co_def)
  have pos: "0 \<le> hval b 0 ds" using hval_mono [of b 0 ds] assms(7) by simp
  have M: "(0::int) \<le> 2 ^ 64 - 1" "(2::int) ^ 64 - 1 < 2 ^ LENGTH(64)" "b < 2 ^ LENGTH(64)"
    using assms(8) by simp_all
  obtain acc any where
    run: "strto_loop (co div ucast (word_of_int b :: u32)) (sint (ucast (co mod ucast (word_of_int b :: u32)) :: u32))
        b m (chr_int (m ?q)) (Suc ?q) 0 0 = Some (acc, any, Suc (?q + length ds))"
    and v: "hval b 0 ds \<le> 2 ^ 64 - 1 \<Longrightarrow> uint acc = hval b 0 ds \<and> any = 1"
      "\<not> hval b 0 ds \<le> 2 ^ 64 - 1 \<Longrightarrow> any = - 1"
    using strto_run [OF assms(7) M(3,1,2) limits64 [OF u assms(7,8)] assms(4,5,6) q] by blast
  have s: "strtouq p b m = Some (if any < 0 then 0xFFFFFFFFFFFFFFFF
      else if sg = ''-'' then - acc else acc, if any \<noteq> 0 then ?q + length ds else p, any < 0)"
    using run by (simp add: strtouq_def h co_def [symmetric] Let_def)
  show ?thesis
  proof (cases "hval b 0 ds \<le> 2 ^ 64 - 1")
    case True
    then have "any = 1" and a: "uint acc = hval b 0 ds" using v(1) by auto
    moreover have "uint (- acc) = - hval b 0 ds mod 2 ^ 64" "hval b 0 ds mod 2 ^ 64 = hval b 0 ds"
      using a True pos by (simp_all add: uint_word_ariths)
    ultimately show ?thesis using True unfolding s by (auto simp: add_ac)
  next
    case False
    with v(2) show ?thesis unfolding s co_def [symmetric] by (auto simp: add_ac u)
  qed
qed

subsection \<open>\<open>atoi\<close>\<close>

definition atoi_end :: "string \<Rightarrow> bool" where
  "atoi_end rest \<longleftrightarrow> (case rest of [] \<Rightarrow> True | c # _ \<Rightarrow> \<not> is_dig 16 c \<and> c \<noteq> CHR ''x'' \<and> c \<noteq> CHR ''X'')"

lemma hex_digit_cases:
  assumes "is_dig 16 c"
  shows "(let i = chr_int c in 48 \<le> i \<and> i \<le> 57 \<and> dval c = i - 48 \<or> 65 \<le> i \<and> i \<le> 70 \<and> dval c = i - 55 \<or>
     97 \<le> i \<and> i \<le> 102 \<and> dval c = i - 87)"
  using assms by (auto simp: is_dig_def digit_val_def dval_def ctype_defs split: if_splits)

lemma atoi_stop:
  assumes "\<not> is_dig 16 c" "c \<noteq> CHR ''x''" "c \<noteq> CHR ''X''" "m p = c"
  shows "atoi_loop p r base m = Some r"
proof -
  have i: "chr_int c \<noteq> 120" "chr_int c \<noteq> 88"
    using assms(2,3) of_char_eq_iff [of c "CHR ''x''"] of_char_eq_iff [of c "CHR ''X''"] by auto
  show ?thesis
    using assms(1,4) i
    by (subst atoi_loop.simps) (auto simp: is_dig_def digit_val_def ctype_defs Let_def split: if_splits)
qed

lemma atoi_loop_digits:
  assumes "b = 10 \<or> b = 16"
  shows "list_all (is_dig 16) ds \<Longrightarrow> atoi_end rest \<Longrightarrow> cstr m p (ds @ rest) \<Longrightarrow>
    atoi_loop p (word_of_int v) (word_of_int b) m = Some (word_of_int (hval b v ds))"
proof (induction ds arbitrary: p v)
  case Nil
  then show ?case
    by (cases rest) (auto simp: atoi_end_def intro: atoi_stop [of NUL] atoi_stop)
next
  case (Cons c ds)
  have m: "m p = c" and d: "is_dig 16 c" using Cons.prems by auto
  have "(10::u32) \<le> word_of_int b" using assms by auto
  then have "atoi_loop p (word_of_int v) (word_of_int b) m =
      atoi_loop (Suc p) (word_of_int (v * b + dval c)) (word_of_int b) m"
    using hex_digit_cases [OF d] m
    by (subst atoi_loop.simps) (auto simp: Let_def wi_hom_syms)
  then show ?case using Cons.IH [of "Suc p"] Cons.prems by (simp del: of_int_add of_int_mult)
qed

lemma atoi_skip_cstr:
  "list_all (\<lambda>c. c = CHR '' '') sp \<Longrightarrow> cstr m p (sp @ t) \<Longrightarrow>
   m (p + length sp) \<noteq> CHR '' '' \<Longrightarrow> m (p + length sp) \<noteq> NUL \<Longrightarrow> atoi_skip p m = Some (p + length sp)"
proof (induction sp arbitrary: p)
  case Nil
  then show ?case by (subst atoi_skip.simps) simp
next
  case (Cons c sp)
  then show ?case using Cons.IH [of "Suc p"] by (subst atoi_skip.simps) simp
qed

text \<open>\<open>atoi\<close> skips blanks and returns the number that follows, wrapped to 32 bits: in decimal, or in
  hexadecimal after \<open>0x\<close>. The letters A to F are digits (10 to 15) in both cases.\<close>

theorem atoi_value:
  assumes "cstr m p (sp @ pre @ ds @ rest)" and "p \<noteq> 0"
    and "list_all (\<lambda>c. c = CHR '' '') sp" and "pre = [] \<or> pre = ''0x''"
    and "list_all (is_dig 16) ds" and "ds \<noteq> []" and "atoi_end rest"
  shows "atoi p m = Some (s32 (hval (if pre = [] then 10 else 16) 0 ds))"
proof -
  let ?q = "p + length sp" and ?b = "if pre = [] then 10 else 16 :: int"
  have q: "cstr m ?q (pre @ ds @ rest)" using cstr_append [OF assms(1)] .
  then have r: "cstr m (?q + length pre) (ds @ rest)" using cstr_append by blast
  have "m ?q \<noteq> CHR '' '' \<and> m ?q \<noteq> NUL"
  proof (cases "pre = []")
    case True
    then obtain c cs where "ds = c # cs" "m ?q = c" "is_dig 16 c" "c \<noteq> NUL"
      using q assms(5,6) by (cases ds) auto
    then show ?thesis using hex_digit_cases [of c] by auto
  qed (use q assms(4) in auto)
  then have skip: "atoi_skip p m = Some ?q" using atoi_skip_cstr [OF assms(3,1)] by blast
  have run: "atoi_loop (?q + length pre) (word_of_int 0) (word_of_int ?b) m =
      Some (word_of_int (hval ?b 0 ds))"
    by (rule atoi_loop_digits [OF _ assms(5,7) r]) simp
  have "atoi_loop ?q 0 10 m = atoi_loop (?q + length pre) (word_of_int 0) (word_of_int ?b) m"
  proof (cases "pre = []")
    case False
    then have pre: "pre = ''0x''" using assms(4) by simp
    have "atoi_loop ?q 0 10 m = atoi_loop (Suc ?q) 0 10 m"
      using q pre by (subst atoi_loop.simps) simp
    also have "\<dots> = atoi_loop (Suc (Suc ?q)) 0 16 m"
      using q pre by (subst atoi_loop.simps) simp
    finally show ?thesis using pre by simp
  qed simp
  then show ?thesis using assms(2) skip run by (simp add: atoi_def s32_def)
qed

subsection \<open>Examples\<close>

definition mem_of :: "addr \<Rightarrow> string \<Rightarrow> mem" where
  "mem_of a s = blit a (s @ [NUL]) (\<lambda>_. NUL)"

lemma cstr_mem_of: "NUL \<notin> set s \<Longrightarrow> cstr (mem_of a s) a s"
  by (simp add: mem_of_def cstr_blit)

lemmas digits_eval = is_dig_def digit_val_def ctype_defs stops_def is_sign_def isspace_def dval_def

theorem strtol_clamps_witness:
  "\<exists>w. strtol 8 10 (mem_of 8 '' -99999999999;'') = Some (w, 21) \<and> sint w = - 2147483648"
  using strtol_clamps [of "mem_of 8 '' -99999999999;''" 8 "'' ''" "''-''" "''99999999999''" "'';''" 10]
  by (simp add: mem_of_def blit_def digits_eval)

theorem strtoul_hex_witness:
  "\<exists>w. strtoul 8 0 (mem_of 8 ''0xBeEf'') = Some (w, 14) \<and> uint w = 0xBEEF"
  using strtoul_hex [of "mem_of 8 ''0xBeEf''" 8 "[]" "''BeEf''" "[]" 0]
  by (simp add: mem_of_def blit_def digits_eval)

theorem strtouq_range_witness:
  "\<exists>w. strtouq 8 10 (mem_of 8 ''18446744073709551616'') = Some (w, 28, True) \<and> uint w = 18446744073709551615"
  using strtouq_range [of "mem_of 8 ''18446744073709551616''" 8 "[]" "[]" "''18446744073709551616''" "[]" 10]
  by (simp add: mem_of_def blit_def digits_eval)

theorem atoi_value_witness:
  "atoi 8 (mem_of 8 ''  4294967297'') = Some 1"
  using atoi_value [of "mem_of 8 ''  4294967297''" 8 "''  ''" "[]" "''4294967297''" "[]"]
  by (simp add: mem_of_def blit_def digits_eval atoi_end_def s32_def)

end
