(* ===== verification/Or32Table.thy ===== *)
theory Or32Table
  imports CString
begin

unbundle bit_operations_syntax

text \<open>
  The opcode table of the OpenRISC 1000 instruction set simulator, \<^verbatim>\<open>or1k/fastiss/or32.c\<close>: one row
  per instruction, in the order of the source (the automaton's leaves are positions in it). The
  simulator runs on the 64-bit host, so \<^verbatim>\<open>unsigned long\<close> is 64 bits wide and \<^verbatim>\<open>int\<close> 32 here.
  \<^verbatim>\<open>config.h\<close> selects COMPLEX_EXECUTION: the handler of a row is the function's name. The rows
  under HAS_CUST, which is not defined, are left out.
\<close>

datatype insn_type =
  it_unknown | it_exception | it_arith | it_shift | it_compare | it_branch | it_jump | it_load
  | it_store | it_movimm | it_move | it_extend | it_nop | it_mac | it_float

record or32_opcode =
  op_name :: string
  op_args :: string
  op_encoding :: string
  op_function :: string
  op_flags :: u32
  op_unit :: insn_type

abbreviation opc :: "string \<Rightarrow> string \<Rightarrow> string \<Rightarrow> string \<Rightarrow> u32 \<Rightarrow> insn_type \<Rightarrow> or32_opcode" where
  "opc n a e f fl u \<equiv>
     \<lparr>op_name = n, op_args = a, op_encoding = e, op_function = f, op_flags = fl, op_unit = u\<rparr>"

definition OR32_IF_DELAY :: u32 where "OR32_IF_DELAY = 1"
definition OR32_W_FLAG :: u32 where "OR32_W_FLAG = 2"
definition OR32_R_FLAG :: u32 where "OR32_R_FLAG = 4"

text \<open>The operand letters and their signs (the terminating dummy entry is the end of the list).\<close>

definition or32_letters :: "(char \<times> int) list" where
  "or32_letters =
     [(CHR ''A'', 0), (CHR ''B'', 0), (CHR ''D'', 0), (CHR ''I'', 1), (CHR ''K'', 0), (CHR ''L'', 0),
      (CHR ''N'', 1), (CHR ''0'', 0)]"

definition or32_ops_control :: "or32_opcode list" where
  "or32_ops_control =
   [opc ''l.j'' ''N'' ''00 0x0  NNNNN NNNNN NNNN NNNN NNNN NNNN''
     ''l_j'' OR32_IF_DELAY it_jump,
    opc ''l.jal'' ''N'' ''00 0x1  NNNNN NNNNN NNNN NNNN NNNN NNNN''
     ''l_jal'' OR32_IF_DELAY it_jump,
    opc ''l.bnf'' ''N'' ''00 0x3  NNNNN NNNNN NNNN NNNN NNNN NNNN''
     ''l_bnf'' (OR32_IF_DELAY OR OR32_R_FLAG) it_branch,
    opc ''l.bf'' ''N'' ''00 0x4  NNNNN NNNNN NNNN NNNN NNNN NNNN''
     ''l_bf'' (OR32_IF_DELAY OR OR32_R_FLAG) it_branch,
    opc ''l.nop'' ''K'' ''00 0x5  01--- ----- KKKK KKKK KKKK KKKK''
     ''l_nop'' 0 it_nop,
    opc ''l.movhi'' ''rD,K'' ''00 0x6  DDDDD ----0 KKKK KKKK KKKK KKKK''
     ''l_movhi'' 0 it_movimm,
    opc ''l.macrc'' ''rD'' ''00 0x6  DDDDD ----1 0000 0000 0000 0000''
     ''l_macrc'' 0 it_mac,
    opc ''l.sys'' ''K'' ''00 0x8  00000 00000 KKKK KKKK KKKK KKKK''
     ''l_sys'' 0 it_exception,
    opc ''l.trap'' ''K'' ''00 0x8  01000 00000 KKKK KKKK KKKK KKKK''
     ''l_trap'' 0 it_exception,
    opc ''l.msync'' '''' ''00 0x8  10000 00000 0000 0000 0000 0000''
     ''l_none'' 0 it_unknown,
    opc ''l.psync'' '''' ''00 0x8  10100 00000 0000 0000 0000 0000''
     ''l_none'' 0 it_unknown,
    opc ''l.csync'' '''' ''00 0x8  11000 00000 0000 0000 0000 0000''
     ''l_none'' 0 it_unknown,
    opc ''l.rfe'' '''' ''00 0x9  ----- ----- ---- ---- ---- ----''
     ''l_rfe'' 0 it_exception]"

definition or32_ops_vector_cmp :: "or32_opcode list" where
  "or32_ops_vector_cmp =
   [opc ''lv.all_eq.b'' ''rD,rA,rB'' ''00 0xA  DDDDD AAAAA BBBB B--- 0x1 0x0''
     ''l_invalid'' 0 it_unknown,
    opc ''lv.all_eq.h'' ''rD,rA,rB'' ''00 0xA  DDDDD AAAAA BBBB B--- 0x1 0x1''
     ''l_invalid'' 0 it_unknown,
    opc ''lv.all_ge.b'' ''rD,rA,rB'' ''00 0xA  DDDDD AAAAA BBBB B--- 0x1 0x2''
     ''l_invalid'' 0 it_unknown,
    opc ''lv.all_ge.h'' ''rD,rA,rB'' ''00 0xA  DDDDD AAAAA BBBB B--- 0x1 0x3''
     ''l_invalid'' 0 it_unknown,
    opc ''lv.all_gt.b'' ''rD,rA,rB'' ''00 0xA  DDDDD AAAAA BBBB B--- 0x1 0x4''
     ''l_invalid'' 0 it_unknown,
    opc ''lv.all_gt.h'' ''rD,rA,rB'' ''00 0xA  DDDDD AAAAA BBBB B--- 0x1 0x5''
     ''l_invalid'' 0 it_unknown,
    opc ''lv.all_le.b'' ''rD,rA,rB'' ''00 0xA  DDDDD AAAAA BBBB B--- 0x1 0x6''
     ''l_invalid'' 0 it_unknown,
    opc ''lv.all_le.h'' ''rD,rA,rB'' ''00 0xA  DDDDD AAAAA BBBB B--- 0x1 0x7''
     ''l_invalid'' 0 it_unknown,
    opc ''lv.all_lt.b'' ''rD,rA,rB'' ''00 0xA  DDDDD AAAAA BBBB B--- 0x1 0x8''
     ''l_invalid'' 0 it_unknown,
    opc ''lv.all_lt.h'' ''rD,rA,rB'' ''00 0xA  DDDDD AAAAA BBBB B--- 0x1 0x9''
     ''l_invalid'' 0 it_unknown,
    opc ''lv.all_ne.b'' ''rD,rA,rB'' ''00 0xA  DDDDD AAAAA BBBB B--- 0x1 0xA''
     ''l_invalid'' 0 it_unknown,
    opc ''lv.all_ne.h'' ''rD,rA,rB'' ''00 0xA  DDDDD AAAAA BBBB B--- 0x1 0xB''
     ''l_invalid'' 0 it_unknown,
    opc ''lv.any_eq.b'' ''rD,rA,rB'' ''00 0xA  DDDDD AAAAA BBBB B--- 0x2 0x0''
     ''l_invalid'' 0 it_unknown,
    opc ''lv.any_eq.h'' ''rD,rA,rB'' ''00 0xA  DDDDD AAAAA BBBB B--- 0x2 0x1''
     ''l_invalid'' 0 it_unknown,
    opc ''lv.any_ge.b'' ''rD,rA,rB'' ''00 0xA  DDDDD AAAAA BBBB B--- 0x2 0x2''
     ''l_invalid'' 0 it_unknown,
    opc ''lv.any_ge.h'' ''rD,rA,rB'' ''00 0xA  DDDDD AAAAA BBBB B--- 0x2 0x3''
     ''l_invalid'' 0 it_unknown,
    opc ''lv.any_gt.b'' ''rD,rA,rB'' ''00 0xA  DDDDD AAAAA BBBB B--- 0x2 0x4''
     ''l_invalid'' 0 it_unknown,
    opc ''lv.any_gt.h'' ''rD,rA,rB'' ''00 0xA  DDDDD AAAAA BBBB B--- 0x2 0x5''
     ''l_invalid'' 0 it_unknown,
    opc ''lv.any_le.b'' ''rD,rA,rB'' ''00 0xA  DDDDD AAAAA BBBB B--- 0x2 0x6''
     ''l_invalid'' 0 it_unknown,
    opc ''lv.any_le.h'' ''rD,rA,rB'' ''00 0xA  DDDDD AAAAA BBBB B--- 0x2 0x7''
     ''l_invalid'' 0 it_unknown,
    opc ''lv.any_lt.b'' ''rD,rA,rB'' ''00 0xA  DDDDD AAAAA BBBB B--- 0x2 0x8''
     ''l_invalid'' 0 it_unknown,
    opc ''lv.any_lt.h'' ''rD,rA,rB'' ''00 0xA  DDDDD AAAAA BBBB B--- 0x2 0x9''
     ''l_invalid'' 0 it_unknown,
    opc ''lv.any_ne.b'' ''rD,rA,rB'' ''00 0xA  DDDDD AAAAA BBBB B--- 0x2 0xA''
     ''l_invalid'' 0 it_unknown,
    opc ''lv.any_ne.h'' ''rD,rA,rB'' ''00 0xA  DDDDD AAAAA BBBB B--- 0x2 0xB''
     ''l_invalid'' 0 it_unknown]"

definition or32_ops_vector :: "or32_opcode list" where
  "or32_ops_vector =
   [opc ''lv.add.b'' ''rD,rA,rB'' ''00 0xA  DDDDD AAAAA BBBB B--- 0x3 0x0''
     ''l_invalid'' 0 it_unknown,
    opc ''lv.add.h'' ''rD,rA,rB'' ''00 0xA  DDDDD AAAAA BBBB B--- 0x3 0x1''
     ''l_invalid'' 0 it_unknown,
    opc ''lv.adds.b'' ''rD,rA,rB'' ''00 0xA  DDDDD AAAAA BBBB B--- 0x3 0x2''
     ''l_invalid'' 0 it_unknown,
    opc ''lv.adds.h'' ''rD,rA,rB'' ''00 0xA  DDDDD AAAAA BBBB B--- 0x3 0x3''
     ''l_invalid'' 0 it_unknown,
    opc ''lv.addu.b'' ''rD,rA,rB'' ''00 0xA  DDDDD AAAAA BBBB B--- 0x3 0x4''
     ''l_invalid'' 0 it_unknown,
    opc ''lv.addu.h'' ''rD,rA,rB'' ''00 0xA  DDDDD AAAAA BBBB B--- 0x3 0x5''
     ''l_invalid'' 0 it_unknown,
    opc ''lv.addus.b'' ''rD,rA,rB'' ''00 0xA  DDDDD AAAAA BBBB B--- 0x3 0x6''
     ''l_invalid'' 0 it_unknown,
    opc ''lv.addus.h'' ''rD,rA,rB'' ''00 0xA  DDDDD AAAAA BBBB B--- 0x3 0x7''
     ''l_invalid'' 0 it_unknown,
    opc ''lv.and'' ''rD,rA,rB'' ''00 0xA  DDDDD AAAAA BBBB B--- 0x3 0x8''
     ''l_invalid'' 0 it_unknown,
    opc ''lv.avg.b'' ''rD,rA,rB'' ''00 0xA  DDDDD AAAAA BBBB B--- 0x3 0x9''
     ''l_invalid'' 0 it_unknown,
    opc ''lv.avg.h'' ''rD,rA,rB'' ''00 0xA  DDDDD AAAAA BBBB B--- 0x3 0xA''
     ''l_invalid'' 0 it_unknown,
    opc ''lv.cmp_eq.b'' ''rD,rA,rB'' ''00 0xA  DDDDD AAAAA BBBB B--- 0x4 0x0''
     ''l_invalid'' 0 it_unknown,
    opc ''lv.cmp_eq.h'' ''rD,rA,rB'' ''00 0xA  DDDDD AAAAA BBBB B--- 0x4 0x1''
     ''l_invalid'' 0 it_unknown,
    opc ''lv.cmp_ge.b'' ''rD,rA,rB'' ''00 0xA  DDDDD AAAAA BBBB B--- 0x4 0x2''
     ''l_invalid'' 0 it_unknown,
    opc ''lv.cmp_ge.h'' ''rD,rA,rB'' ''00 0xA  DDDDD AAAAA BBBB B--- 0x4 0x3''
     ''l_invalid'' 0 it_unknown,
    opc ''lv.cmp_gt.b'' ''rD,rA,rB'' ''00 0xA  DDDDD AAAAA BBBB B--- 0x4 0x4''
     ''l_invalid'' 0 it_unknown,
    opc ''lv.cmp_gt.h'' ''rD,rA,rB'' ''00 0xA  DDDDD AAAAA BBBB B--- 0x4 0x5''
     ''l_invalid'' 0 it_unknown,
    opc ''lv.cmp_le.b'' ''rD,rA,rB'' ''00 0xA  DDDDD AAAAA BBBB B--- 0x4 0x6''
     ''l_invalid'' 0 it_unknown,
    opc ''lv.cmp_le.h'' ''rD,rA,rB'' ''00 0xA  DDDDD AAAAA BBBB B--- 0x4 0x7''
     ''l_invalid'' 0 it_unknown,
    opc ''lv.cmp_lt.b'' ''rD,rA,rB'' ''00 0xA  DDDDD AAAAA BBBB B--- 0x4 0x8''
     ''l_invalid'' 0 it_unknown,
    opc ''lv.cmp_lt.h'' ''rD,rA,rB'' ''00 0xA  DDDDD AAAAA BBBB B--- 0x4 0x9''
     ''l_invalid'' 0 it_unknown,
    opc ''lv.cmp_ne.b'' ''rD,rA,rB'' ''00 0xA  DDDDD AAAAA BBBB B--- 0x4 0xA''
     ''l_invalid'' 0 it_unknown,
    opc ''lv.cmp_ne.h'' ''rD,rA,rB'' ''00 0xA  DDDDD AAAAA BBBB B--- 0x4 0xB''
     ''l_invalid'' 0 it_unknown,
    opc ''lv.madds.h'' ''rD,rA,rB'' ''00 0xA  DDDDD AAAAA BBBB B--- 0x5 0x4''
     ''l_invalid'' 0 it_unknown,
    opc ''lv.max.b'' ''rD,rA,rB'' ''00 0xA  DDDDD AAAAA BBBB B--- 0x5 0x5''
     ''l_invalid'' 0 it_unknown,
    opc ''lv.max.h'' ''rD,rA,rB'' ''00 0xA  DDDDD AAAAA BBBB B--- 0x5 0x6''
     ''l_invalid'' 0 it_unknown,
    opc ''lv.merge.b'' ''rD,rA,rB'' ''00 0xA  DDDDD AAAAA BBBB B--- 0x5 0x7''
     ''l_invalid'' 0 it_unknown,
    opc ''lv.merge.h'' ''rD,rA,rB'' ''00 0xA  DDDDD AAAAA BBBB B--- 0x5 0x8''
     ''l_invalid'' 0 it_unknown,
    opc ''lv.min.b'' ''rD,rA,rB'' ''00 0xA  DDDDD AAAAA BBBB B--- 0x5 0x9''
     ''l_invalid'' 0 it_unknown,
    opc ''lv.min.h'' ''rD,rA,rB'' ''00 0xA  DDDDD AAAAA BBBB B--- 0x5 0xA''
     ''l_invalid'' 0 it_unknown,
    opc ''lv.msubs.h'' ''rD,rA,rB'' ''00 0xA  DDDDD AAAAA BBBB B--- 0x5 0xB''
     ''l_invalid'' 0 it_unknown,
    opc ''lv.muls.h'' ''rD,rA,rB'' ''00 0xA  DDDDD AAAAA BBBB B--- 0x5 0xC''
     ''l_invalid'' 0 it_unknown,
    opc ''lv.nand'' ''rD,rA,rB'' ''00 0xA  DDDDD AAAAA BBBB B--- 0x5 0xD''
     ''l_invalid'' 0 it_unknown,
    opc ''lv.nor'' ''rD,rA,rB'' ''00 0xA  DDDDD AAAAA BBBB B--- 0x5 0xE''
     ''l_invalid'' 0 it_unknown,
    opc ''lv.or'' ''rD,rA,rB'' ''00 0xA  DDDDD AAAAA BBBB B--- 0x5 0xF''
     ''l_invalid'' 0 it_unknown]"

definition or32_ops_vector2 :: "or32_opcode list" where
  "or32_ops_vector2 =
   [opc ''lv.pack.b'' ''rD,rA,rB'' ''00 0xA  DDDDD AAAAA BBBB B--- 0x6 0x0''
     ''l_invalid'' 0 it_unknown,
    opc ''lv.pack.h'' ''rD,rA,rB'' ''00 0xA  DDDDD AAAAA BBBB B--- 0x6 0x1''
     ''l_invalid'' 0 it_unknown,
    opc ''lv.packs.b'' ''rD,rA,rB'' ''00 0xA  DDDDD AAAAA BBBB B--- 0x6 0x2''
     ''l_invalid'' 0 it_unknown,
    opc ''lv.packs.h'' ''rD,rA,rB'' ''00 0xA  DDDDD AAAAA BBBB B--- 0x6 0x3''
     ''l_invalid'' 0 it_unknown,
    opc ''lv.packus.b'' ''rD,rA,rB'' ''00 0xA  DDDDD AAAAA BBBB B--- 0x6 0x4''
     ''l_invalid'' 0 it_unknown,
    opc ''lv.packus.h'' ''rD,rA,rB'' ''00 0xA  DDDDD AAAAA BBBB B--- 0x6 0x5''
     ''l_invalid'' 0 it_unknown,
    opc ''lv.perm.n'' ''rD,rA,rB'' ''00 0xA  DDDDD AAAAA BBBB B--- 0x6 0x6''
     ''l_invalid'' 0 it_unknown,
    opc ''lv.rl.b'' ''rD,rA,rB'' ''00 0xA  DDDDD AAAAA BBBB B--- 0x6 0x7''
     ''l_invalid'' 0 it_unknown,
    opc ''lv.rl.h'' ''rD,rA,rB'' ''00 0xA  DDDDD AAAAA BBBB B--- 0x6 0x8''
     ''l_invalid'' 0 it_unknown,
    opc ''lv.sll.b'' ''rD,rA,rB'' ''00 0xA  DDDDD AAAAA BBBB B--- 0x6 0x9''
     ''l_invalid'' 0 it_unknown,
    opc ''lv.sll.h'' ''rD,rA,rB'' ''00 0xA  DDDDD AAAAA BBBB B--- 0x6 0xA''
     ''l_invalid'' 0 it_unknown,
    opc ''lv.sll'' ''rD,rA,rB'' ''00 0xA  DDDDD AAAAA BBBB B--- 0x6 0xB''
     ''l_invalid'' 0 it_unknown,
    opc ''lv.srl.b'' ''rD,rA,rB'' ''00 0xA  DDDDD AAAAA BBBB B--- 0x6 0xC''
     ''l_invalid'' 0 it_unknown,
    opc ''lv.srl.h'' ''rD,rA,rB'' ''00 0xA  DDDDD AAAAA BBBB B--- 0x6 0xD''
     ''l_invalid'' 0 it_unknown,
    opc ''lv.sra.b'' ''rD,rA,rB'' ''00 0xA  DDDDD AAAAA BBBB B--- 0x6 0xE''
     ''l_invalid'' 0 it_unknown,
    opc ''lv.sra.h'' ''rD,rA,rB'' ''00 0xA  DDDDD AAAAA BBBB B--- 0x6 0xF''
     ''l_invalid'' 0 it_unknown,
    opc ''lv.srl'' ''rD,rA,rB'' ''00 0xA  DDDDD AAAAA BBBB B--- 0x7 0x0''
     ''l_invalid'' 0 it_unknown,
    opc ''lv.sub.b'' ''rD,rA,rB'' ''00 0xA  DDDDD AAAAA BBBB B--- 0x7 0x1''
     ''l_invalid'' 0 it_unknown,
    opc ''lv.sub.h'' ''rD,rA,rB'' ''00 0xA  DDDDD AAAAA BBBB B--- 0x7 0x2''
     ''l_invalid'' 0 it_unknown,
    opc ''lv.subs.b'' ''rD,rA,rB'' ''00 0xA  DDDDD AAAAA BBBB B--- 0x7 0x3''
     ''l_invalid'' 0 it_unknown,
    opc ''lv.subs.h'' ''rD,rA,rB'' ''00 0xA  DDDDD AAAAA BBBB B--- 0x7 0x4''
     ''l_invalid'' 0 it_unknown,
    opc ''lv.subu.b'' ''rD,rA,rB'' ''00 0xA  DDDDD AAAAA BBBB B--- 0x7 0x5''
     ''l_invalid'' 0 it_unknown,
    opc ''lv.subu.h'' ''rD,rA,rB'' ''00 0xA  DDDDD AAAAA BBBB B--- 0x7 0x6''
     ''l_invalid'' 0 it_unknown,
    opc ''lv.subus.b'' ''rD,rA,rB'' ''00 0xA  DDDDD AAAAA BBBB B--- 0x7 0x7''
     ''l_invalid'' 0 it_unknown,
    opc ''lv.subus.h'' ''rD,rA,rB'' ''00 0xA  DDDDD AAAAA BBBB B--- 0x7 0x8''
     ''l_invalid'' 0 it_unknown,
    opc ''lv.unpack.b'' ''rD,rA,rB'' ''00 0xA  DDDDD AAAAA BBBB B--- 0x7 0x9''
     ''l_invalid'' 0 it_unknown,
    opc ''lv.unpack.h'' ''rD,rA,rB'' ''00 0xA  DDDDD AAAAA BBBB B--- 0x7 0xA''
     ''l_invalid'' 0 it_unknown,
    opc ''lv.xor'' ''rD,rA,rB'' ''00 0xA  DDDDD AAAAA BBBB B--- 0x7 0xB''
     ''l_invalid'' 0 it_unknown,
    opc ''lv.cust1'' '''' ''00 0xA  ----- ----- ---- ---- 0xC ----''
     ''l_invalid'' 0 it_unknown,
    opc ''lv.cust2'' '''' ''00 0xA  ----- ----- ---- ---- 0xD ----''
     ''l_invalid'' 0 it_unknown,
    opc ''lv.cust3'' '''' ''00 0xA  ----- ----- ---- ---- 0xE ----''
     ''l_invalid'' 0 it_unknown,
    opc ''lv.cust4'' '''' ''00 0xA  ----- ----- ---- ---- 0xF ----''
     ''l_invalid'' 0 it_unknown]"

definition or32_ops_jump :: "or32_opcode list" where
  "or32_ops_jump =
   [opc ''l.jr'' ''rB'' ''01 0x1  ----- ----- BBBB B--- ---- ----''
     ''l_jr'' OR32_IF_DELAY it_jump,
    opc ''l.jalr'' ''rB'' ''01 0x2  ----- ----- BBBB B--- ---- ----''
     ''l_jalr'' OR32_IF_DELAY it_jump,
    opc ''l.maci'' ''rA,I'' ''01 0x3  IIIII AAAAA ---- -III IIII IIII''
     ''l_mac'' 0 it_mac,
    opc ''l.cust1'' '''' ''01 0xC  ----- ----- ---- ---- ---- ----''
     ''l_cust1'' 0 it_unknown,
    opc ''l.cust2'' '''' ''01 0xD  ----- ----- ---- ---- ---- ----''
     ''l_cust2'' 0 it_unknown,
    opc ''l.cust3'' '''' ''01 0xE  ----- ----- ---- ---- ---- ----''
     ''l_cust3'' 0 it_unknown,
    opc ''l.cust4'' '''' ''01 0xF  ----- ----- ---- ---- ---- ----''
     ''l_cust4'' 0 it_unknown]"

definition or32_ops_load :: "or32_opcode list" where
  "or32_ops_load =
   [opc ''l.ld'' ''rD,I(rA)'' ''10 0x0  DDDDD AAAAA IIII IIII IIII IIII''
     ''l_invalid'' 0 it_load,
    opc ''l.lwz'' ''rD,I(rA)'' ''10 0x1  DDDDD AAAAA IIII IIII IIII IIII''
     ''l_lwz'' 0 it_load,
    opc ''l.lws'' ''rD,I(rA)'' ''10 0x2  DDDDD AAAAA IIII IIII IIII IIII''
     ''l_invalid'' 0 it_load,
    opc ''l.lbz'' ''rD,I(rA)'' ''10 0x3  DDDDD AAAAA IIII IIII IIII IIII''
     ''l_lbz'' 0 it_load,
    opc ''l.lbs'' ''rD,I(rA)'' ''10 0x4  DDDDD AAAAA IIII IIII IIII IIII''
     ''l_lbs'' 0 it_load,
    opc ''l.lhz'' ''rD,I(rA)'' ''10 0x5  DDDDD AAAAA IIII IIII IIII IIII''
     ''l_lhz'' 0 it_load,
    opc ''l.lhs'' ''rD,I(rA)'' ''10 0x6  DDDDD AAAAA IIII IIII IIII IIII''
     ''l_lhs'' 0 it_load]"

definition or32_ops_imm :: "or32_opcode list" where
  "or32_ops_imm =
   [opc ''l.addi'' ''rD,rA,I'' ''10 0x7  DDDDD AAAAA IIII IIII IIII IIII''
     ''l_add'' OR32_W_FLAG it_arith,
    opc ''l.addic'' ''rD,rA,I'' ''10 0x8  DDDDD AAAAA IIII IIII IIII IIII''
     ''l_invalid'' 0 it_arith,
    opc ''l.andi'' ''rD,rA,K'' ''10 0x9  DDDDD AAAAA KKKK KKKK KKKK KKKK''
     ''l_and'' OR32_W_FLAG it_arith,
    opc ''l.ori'' ''rD,rA,K'' ''10 0xA  DDDDD AAAAA KKKK KKKK KKKK KKKK''
     ''l_or'' 0 it_arith,
    opc ''l.xori'' ''rD,rA,I'' ''10 0xB  DDDDD AAAAA IIII IIII IIII IIII''
     ''l_xor'' 0 it_arith,
    opc ''l.muli'' ''rD,rA,I'' ''10 0xC  DDDDD AAAAA IIII IIII IIII IIII''
     ''l_mul'' 0 it_arith,
    opc ''l.mfspr'' ''rD,rA,K'' ''10 0xD  DDDDD AAAAA KKKK KKKK KKKK KKKK''
     ''l_mfspr'' 0 it_move,
    opc ''l.slli'' ''rD,rA,L'' ''10 0xE  DDDDD AAAAA ---- ---- 00LL LLLL''
     ''l_sll'' 0 it_shift,
    opc ''l.srli'' ''rD,rA,L'' ''10 0xE  DDDDD AAAAA ---- ---- 01LL LLLL''
     ''l_srl'' 0 it_shift,
    opc ''l.srai'' ''rD,rA,L'' ''10 0xE  DDDDD AAAAA ---- ---- 10LL LLLL''
     ''l_sra'' 0 it_shift,
    opc ''l.rori'' ''rD,rA,L'' ''10 0xE  DDDDD AAAAA ---- ---- 11LL LLLL''
     ''l_invalid'' 0 it_shift]"

definition or32_ops_cmp_imm :: "or32_opcode list" where
  "or32_ops_cmp_imm =
   [opc ''l.sfeqi'' ''rA,I'' ''10 0xF  00000 AAAAA IIII IIII IIII IIII''
     ''l_sfeq'' OR32_W_FLAG it_compare,
    opc ''l.sfnei'' ''rA,I'' ''10 0xF  00001 AAAAA IIII IIII IIII IIII''
     ''l_sfne'' OR32_W_FLAG it_compare,
    opc ''l.sfgtui'' ''rA,I'' ''10 0xF  00010 AAAAA IIII IIII IIII IIII''
     ''l_sfgtu'' OR32_W_FLAG it_compare,
    opc ''l.sfgeui'' ''rA,I'' ''10 0xF  00011 AAAAA IIII IIII IIII IIII''
     ''l_sfgeu'' OR32_W_FLAG it_compare,
    opc ''l.sfltui'' ''rA,I'' ''10 0xF  00100 AAAAA IIII IIII IIII IIII''
     ''l_sfltu'' OR32_W_FLAG it_compare,
    opc ''l.sfleui'' ''rA,I'' ''10 0xF  00101 AAAAA IIII IIII IIII IIII''
     ''l_sfleu'' OR32_W_FLAG it_compare,
    opc ''l.sfgtsi'' ''rA,I'' ''10 0xF  01010 AAAAA IIII IIII IIII IIII''
     ''l_sfgts'' OR32_W_FLAG it_compare,
    opc ''l.sfgesi'' ''rA,I'' ''10 0xF  01011 AAAAA IIII IIII IIII IIII''
     ''l_sfges'' OR32_W_FLAG it_compare,
    opc ''l.sfltsi'' ''rA,I'' ''10 0xF  01100 AAAAA IIII IIII IIII IIII''
     ''l_sflts'' OR32_W_FLAG it_compare,
    opc ''l.sflesi'' ''rA,I'' ''10 0xF  01101 AAAAA IIII IIII IIII IIII''
     ''l_sfles'' OR32_W_FLAG it_compare]"

definition or32_ops_mac :: "or32_opcode list" where
  "or32_ops_mac =
   [opc ''l.mtspr'' ''rA,rB,K'' ''11 0x0  KKKKK AAAAA BBBB BKKK KKKK KKKK''
     ''l_mtspr'' 0 it_move,
    opc ''l.mac'' ''rA,rB'' ''11 0x1  ----- AAAAA BBBB B--- ---- 0x1''
     ''l_mac'' 0 it_mac,
    opc ''l.msb'' ''rA,rB'' ''11 0x1  ----- AAAAA BBBB B--- ---- 0x2''
     ''l_msb'' 0 it_mac]"

definition or32_ops_float :: "or32_opcode list" where
  "or32_ops_float =
   [opc ''lf.add.s'' ''rD,rA,rB'' ''11 0x2  DDDDD AAAAA BBBB B--- 0x0 0x0''
     ''lf_add_s'' 0 it_float,
    opc ''lf.sub.s'' ''rD,rA,rB'' ''11 0x2  DDDDD AAAAA BBBB B--- 0x0 0x1''
     ''lf_sub_s'' 0 it_float,
    opc ''lf.mul.s'' ''rD,rA,rB'' ''11 0x2  DDDDD AAAAA BBBB B--- 0x0 0x2''
     ''lf_mul_s'' 0 it_float,
    opc ''lf.div.s'' ''rD,rA,rB'' ''11 0x2  DDDDD AAAAA BBBB B--- 0x0 0x3''
     ''lf_div_s'' 0 it_float,
    opc ''lf.itof.s'' ''rD,rA'' ''11 0x2  DDDDD AAAAA 0000 0--- 0x0 0x4''
     ''lf_itof_s'' 0 it_float,
    opc ''lf.ftoi.s'' ''rD,rA'' ''11 0x2  DDDDD AAAAA 0000 0--- 0x0 0x5''
     ''lf_ftoi_s'' 0 it_float,
    opc ''lf.rem.s'' ''rD,rA,rB'' ''11 0x2  DDDDD AAAAA BBBB B--- 0x0 0x6''
     ''lf_rem_s'' 0 it_float,
    opc ''lf.madd.s'' ''rD,rA,rB'' ''11 0x2  DDDDD AAAAA BBBB B--- 0x0 0x7''
     ''lf_madd_s'' 0 it_float,
    opc ''lf.sfeq.s'' ''rA,rB'' ''11 0x2  ----- AAAAA BBBB B--- 0x0 0x8''
     ''lf_sfeq_s'' 0 it_float,
    opc ''lf.sfne.s'' ''rA,rB'' ''11 0x2  ----- AAAAA BBBB B--- 0x0 0x9''
     ''lf_sfne_s'' 0 it_float,
    opc ''lf.sfgt.s'' ''rA,rB'' ''11 0x2  ----- AAAAA BBBB B--- 0x0 0xA''
     ''lf_sfgt_s'' 0 it_float,
    opc ''lf.sfge.s'' ''rA,rB'' ''11 0x2  ----- AAAAA BBBB B--- 0x0 0xB''
     ''lf_sfge_s'' 0 it_float,
    opc ''lf.sflt.s'' ''rA,rB'' ''11 0x2  ----- AAAAA BBBB B--- 0x0 0xC''
     ''lf_sflt_s'' 0 it_float,
    opc ''lf.sfle.s'' ''rA,rB'' ''11 0x2  ----- AAAAA BBBB B--- 0x0 0xD''
     ''lf_sfle_s'' 0 it_float,
    opc ''lf.cust1.s'' ''rA,rB'' ''11 0x2  ----- AAAAA BBBB B--- 0xD ----''
     ''l_invalid'' 0 it_float]"

definition or32_ops_double :: "or32_opcode list" where
  "or32_ops_double =
   [opc ''lf.add.d'' ''rD,rA,rB'' ''11 0x2  DDDDD AAAAA BBBB B--- 0x1 0x0''
     ''l_invalid'' 0 it_float,
    opc ''lf.sub.d'' ''rD,rA,rB'' ''11 0x2  DDDDD AAAAA BBBB B--- 0x1 0x1''
     ''l_invalid'' 0 it_float,
    opc ''lf.mul.d'' ''rD,rA,rB'' ''11 0x2  DDDDD AAAAA BBBB B--- 0x1 0x2''
     ''l_invalid'' 0 it_float,
    opc ''lf.div.d'' ''rD,rA,rB'' ''11 0x2  DDDDD AAAAA BBBB B--- 0x1 0x3''
     ''l_invalid'' 0 it_float,
    opc ''lf.itof.d'' ''rD,rA'' ''11 0x2  DDDDD AAAAA 0000 0--- 0x1 0x4''
     ''l_invalid'' 0 it_float,
    opc ''lf.ftoi.d'' ''rD,rA'' ''11 0x2  DDDDD AAAAA 0000 0--- 0x1 0x5''
     ''l_invalid'' 0 it_float,
    opc ''lf.rem.d'' ''rD,rA,rB'' ''11 0x2  DDDDD AAAAA BBBB B--- 0x1 0x6''
     ''l_invalid'' 0 it_float,
    opc ''lf.madd.d'' ''rD,rA,rB'' ''11 0x2  DDDDD AAAAA BBBB B--- 0x1 0x7''
     ''l_invalid'' 0 it_float,
    opc ''lf.sfeq.d'' ''rA,rB'' ''11 0x2  ----- AAAAA BBBB B--- 0x1 0x8''
     ''l_invalid'' 0 it_float,
    opc ''lf.sfne.d'' ''rA,rB'' ''11 0x2  ----- AAAAA BBBB B--- 0x1 0x9''
     ''l_invalid'' 0 it_float,
    opc ''lf.sfgt.d'' ''rA,rB'' ''11 0x2  ----- AAAAA BBBB B--- 0x1 0xA''
     ''l_invalid'' 0 it_float,
    opc ''lf.sfge.d'' ''rA,rB'' ''11 0x2  ----- AAAAA BBBB B--- 0x1 0xB''
     ''l_invalid'' 0 it_float,
    opc ''lf.sflt.d'' ''rA,rB'' ''11 0x2  ----- AAAAA BBBB B--- 0x1 0xC''
     ''l_invalid'' 0 it_float,
    opc ''lf.sfle.d'' ''rA,rB'' ''11 0x2  ----- AAAAA BBBB B--- 0x1 0xD''
     ''l_invalid'' 0 it_float,
    opc ''lf.cust1.d'' ''rA,rB'' ''11 0x2  ----- AAAAA BBBB B--- 0xE ----''
     ''l_invalid'' 0 it_float]"

definition or32_ops_store :: "or32_opcode list" where
  "or32_ops_store =
   [opc ''l.sd'' ''I(rA),rB'' ''11 0x4  IIIII AAAAA BBBB BIII IIII IIII''
     ''l_invalid'' 0 it_store,
    opc ''l.sw'' ''I(rA),rB'' ''11 0x5  IIIII AAAAA BBBB BIII IIII IIII''
     ''l_sw'' 0 it_store,
    opc ''l.sb'' ''I(rA),rB'' ''11 0x6  IIIII AAAAA BBBB BIII IIII IIII''
     ''l_sb'' 0 it_store,
    opc ''l.sh'' ''I(rA),rB'' ''11 0x7  IIIII AAAAA BBBB BIII IIII IIII''
     ''l_sh'' 0 it_store]"

definition or32_ops_alu :: "or32_opcode list" where
  "or32_ops_alu =
   [opc ''l.add'' ''rD,rA,rB'' ''11 0x8  DDDDD AAAAA BBBB B-00 ---- 0x0''
     ''l_add'' OR32_W_FLAG it_arith,
    opc ''l.addc'' ''rD,rA,rB'' ''11 0x8  DDDDD AAAAA BBBB B-00 ---- 0x1''
     ''l_addc'' OR32_W_FLAG it_arith,
    opc ''l.sub'' ''rD,rA,rB'' ''11 0x8  DDDDD AAAAA BBBB B-00 ---- 0x2''
     ''l_sub'' 0 it_arith,
    opc ''l.and'' ''rD,rA,rB'' ''11 0x8  DDDDD AAAAA BBBB B-00 ---- 0x3''
     ''l_and'' OR32_W_FLAG it_arith,
    opc ''l.or'' ''rD,rA,rB'' ''11 0x8  DDDDD AAAAA BBBB B-00 ---- 0x4''
     ''l_or'' 0 it_arith,
    opc ''l.xor'' ''rD,rA,rB'' ''11 0x8  DDDDD AAAAA BBBB B-00 ---- 0x5''
     ''l_xor'' 0 it_arith,
    opc ''l.mul'' ''rD,rA,rB'' ''11 0x8  DDDDD AAAAA BBBB B-11 ---- 0x6''
     ''l_mul'' 0 it_arith,
    opc ''l.sll'' ''rD,rA,rB'' ''11 0x8  DDDDD AAAAA BBBB B-00 00-- 0x8''
     ''l_sll'' 0 it_shift,
    opc ''l.srl'' ''rD,rA,rB'' ''11 0x8  DDDDD AAAAA BBBB B-00 01-- 0x8''
     ''l_srl'' 0 it_shift,
    opc ''l.sra'' ''rD,rA,rB'' ''11 0x8  DDDDD AAAAA BBBB B-00 10-- 0x8''
     ''l_sra'' 0 it_shift,
    opc ''l.ror'' ''rD,rA,rB'' ''11 0x8  DDDDD AAAAA BBBB B-00 11-- 0x8''
     ''l_invalid'' 0 it_shift,
    opc ''l.div'' ''rD,rA,rB'' ''11 0x8  DDDDD AAAAA BBBB B-11 ---- 0x9''
     ''l_div'' 0 it_arith,
    opc ''l.divu'' ''rD,rA,rB'' ''11 0x8  DDDDD AAAAA BBBB B-11 ---- 0xA''
     ''l_divu'' 0 it_arith,
    opc ''l.mulu'' ''rD,rA,rB'' ''11 0x8  DDDDD AAAAA BBBB B-11 ---- 0xB''
     ''l_invalid'' 0 it_arith,
    opc ''l.extbs'' ''rD,rA'' ''11 0x8  DDDDD AAAAA ---- --00 01-- 0xC''
     ''l_extbs'' 0 it_move,
    opc ''l.exths'' ''rD,rA'' ''11 0x8  DDDDD AAAAA ---- --00 00-- 0xC''
     ''l_exths'' 0 it_move,
    opc ''l.extws'' ''rD,rA'' ''11 0x8  DDDDD AAAAA ---- --00 00-- 0xD''
     ''l_extws'' 0 it_move,
    opc ''l.extbz'' ''rD,rA'' ''11 0x8  DDDDD AAAAA ---- --00 11-- 0xC''
     ''l_extbz'' 0 it_move,
    opc ''l.exthz'' ''rD,rA'' ''11 0x8  DDDDD AAAAA ---- --00 10-- 0xC''
     ''l_exthz'' 0 it_move,
    opc ''l.extwz'' ''rD,rA'' ''11 0x8  DDDDD AAAAA ---- --00 01-- 0xD''
     ''l_extwz'' 0 it_move,
    opc ''l.cmov'' ''rD,rA,rB'' ''11 0x8  DDDDD AAAAA BBBB B-00 ---- 0xE''
     ''l_cmov'' OR32_R_FLAG it_move,
    opc ''l.ff1'' ''rD,rA'' ''11 0x8  DDDDD AAAAA ---- --00 ---- 0xF''
     ''l_ff1'' 0 it_arith,
    opc ''l.fl1'' ''rD,rA'' ''11 0x8  DDDDD AAAAA ---- --01 ---- 0xF''
     ''l_invalid'' 0 it_arith]"

definition or32_ops_cmp :: "or32_opcode list" where
  "or32_ops_cmp =
   [opc ''l.sfeq'' ''rA,rB'' ''11 0x9  00000 AAAAA BBBB B--- ---- ----''
     ''l_sfeq'' OR32_W_FLAG it_compare,
    opc ''l.sfne'' ''rA,rB'' ''11 0x9  00001 AAAAA BBBB B--- ---- ----''
     ''l_sfne'' OR32_W_FLAG it_compare,
    opc ''l.sfgtu'' ''rA,rB'' ''11 0x9  00010 AAAAA BBBB B--- ---- ----''
     ''l_sfgtu'' OR32_W_FLAG it_compare,
    opc ''l.sfgeu'' ''rA,rB'' ''11 0x9  00011 AAAAA BBBB B--- ---- ----''
     ''l_sfgeu'' OR32_W_FLAG it_compare,
    opc ''l.sfltu'' ''rA,rB'' ''11 0x9  00100 AAAAA BBBB B--- ---- ----''
     ''l_sfltu'' OR32_W_FLAG it_compare,
    opc ''l.sfleu'' ''rA,rB'' ''11 0x9  00101 AAAAA BBBB B--- ---- ----''
     ''l_sfleu'' OR32_W_FLAG it_compare,
    opc ''l.sfgts'' ''rA,rB'' ''11 0x9  01010 AAAAA BBBB B--- ---- ----''
     ''l_sfgts'' OR32_W_FLAG it_compare,
    opc ''l.sfges'' ''rA,rB'' ''11 0x9  01011 AAAAA BBBB B--- ---- ----''
     ''l_sfges'' OR32_W_FLAG it_compare,
    opc ''l.sflts'' ''rA,rB'' ''11 0x9  01100 AAAAA BBBB B--- ---- ----''
     ''l_sflts'' OR32_W_FLAG it_compare,
    opc ''l.sfles'' ''rA,rB'' ''11 0x9  01101 AAAAA BBBB B--- ---- ----''
     ''l_sfles'' OR32_W_FLAG it_compare]"

definition or32_ops_custom :: "or32_opcode list" where
  "or32_ops_custom =
   [opc ''l.cust5'' ''rD,rA,rB,L,K'' ''11 0xC  DDDDD AAAAA BBBB BLLL LLLK KKKK''
     ''l_invalid'' 0 it_unknown,
    opc ''l.cust6'' '''' ''11 0xD  ----- ----- ---- ---- ---- ----''
     ''l_invalid'' 0 it_unknown,
    opc ''l.cust7'' '''' ''11 0xE  ----- ----- ---- ---- ---- ----''
     ''l_invalid'' 0 it_unknown,
    opc ''l.cust8'' '''' ''11 0xF  ----- ----- ---- ---- ---- ----''
     ''l_invalid'' 0 it_unknown]"

definition or32_opcodes :: "or32_opcode list" where
  "or32_opcodes =
     or32_ops_control @
     or32_ops_vector_cmp @
     or32_ops_vector @
     or32_ops_vector2 @
     or32_ops_jump @
     or32_ops_load @
     or32_ops_imm @
     or32_ops_cmp_imm @
     or32_ops_mac @
     or32_ops_float @
     or32_ops_double @
     or32_ops_store @
     or32_ops_alu @
     or32_ops_cmp @
     or32_ops_custom"

lemmas or32_table_defs =
  or32_ops_control_def or32_ops_vector_cmp_def or32_ops_vector_def or32_ops_vector2_def or32_ops_jump_def or32_ops_load_def or32_ops_imm_def or32_ops_cmp_imm_def or32_ops_mac_def or32_ops_float_def or32_ops_double_def or32_ops_store_def or32_ops_alu_def or32_ops_cmp_def or32_ops_custom_def

end
