(* ===== verification/Or32.thy ===== *)
theory Or32
  imports Or32Table
begin

unbundle bit_operations_syntax

text \<open>
  The instruction decoder of \<^verbatim>\<open>or1k/fastiss/or32.c\<close>: \<open>build_automaton\<close> turns the opcode table into a
  flat decision automaton (an array of \<^verbatim>\<open>unsigned long\<close>) and a table of operand descriptors,
  \<open>insn_decode\<close> walks the automaton, the disassembler prints an instruction. An \<^verbatim>\<open>exit\<close> of the C
  code is an error value; the recursion of \<open>cover_insn\<close>, which is not structural, carries fuel,
  and \<open>Out_of_fuel\<close> is shown not to occur. The C strings of the table are HOL strings: the
  terminator is the end of the list.
\<close>

datatype or32_error =
    Never_used char | No_split u32 "nat list" | Automaton_too_large | Parse_error | Ops_too_small
  | Out_of_fuel

definition num_opcodes :: int where "num_opcodes = int (length or32_opcodes)"

definition insn_len :: "int \<Rightarrow> int" where "insn_len insn_index = 4"

subsection \<open>Letters, names and indices\<close>

text \<open>An unknown letter also prints a message.\<close>

definition letter_signed :: "char \<Rightarrow> int" where
  "letter_signed l = (case List.find (\<lambda>p. fst p = l) or32_letters of Some p \<Rightarrow> snd p | None \<Rightarrow> 0)"

fun count_letter :: "char \<Rightarrow> string \<Rightarrow> int" where
  "count_letter l [] = 0"
| "count_letter l (c # e) =
     (if c = CHR ''0'' \<and> e \<noteq> [] \<and> hd e = CHR ''x'' then count_letter l (drop 2 e)
      else (if c = l then 1 else 0) + count_letter l e)"

text \<open>\<open>range_cache\<close> is the static cache of the function; \<^verbatim>\<open>strchr\<close> looks for the letter anywhere in the
  encoding, the counting loop skips hexadecimal digits.\<close>

type_synonym cache = "char \<Rightarrow> int"

definition letter_range :: "char \<Rightarrow> cache \<Rightarrow> or32_error + int \<times> cache" where
  "letter_range l range_cache =
     (if range_cache l \<noteq> 0 then Inr (range_cache l, range_cache)
      else case List.find (\<lambda>p. l \<in> set (op_encoding p)) or32_opcodes of
          Some p \<Rightarrow> (let range = count_letter l (op_encoding p) in Inr (range, range_cache(l := range)))
        | None \<Rightarrow> Inl (Never_used l))"

definition insn_index :: "string \<Rightarrow> int" where
  "insn_index insn =
     (case List.find (\<lambda>i. op_name (or32_opcodes ! i) = insn) [0..<length or32_opcodes] of
        Some i \<Rightarrow> int i | None \<Rightarrow> - 1)"

definition insn_name :: "int \<Rightarrow> string" where
  "insn_name index =
     (if index \<ge> 0 \<and> index < num_opcodes then op_name (or32_opcodes ! nat index) else ''???'')"

subsection \<open>Reading an encoding\<close>

text \<open>\<^verbatim>\<open>strtol\<close> of the C library in base 16, on a string that starts with a digit or with \<open>0x\<close>.\<close>

fun hex_run :: "u64 \<Rightarrow> string \<Rightarrow> u64" where
  "hex_run v [] = v"
| "hex_run v (c # s) =
     (let i = chr_int c in
      if 48 \<le> i \<and> i \<le> 57 then hex_run (v * 16 + word_of_int (i - 48)) s
      else if 65 \<le> i \<and> i \<le> 70 then hex_run (v * 16 + word_of_int (i - 55)) s
      else if 97 \<le> i \<and> i \<le> 102 then hex_run (v * 16 + word_of_int (i - 87)) s
      else v)"

definition strtol16 :: "string \<Rightarrow> u64" where
  "strtol16 s =
     (if take 2 s = ''0x'' \<or> take 2 s = ''0X'' then hex_run 0 (drop 2 s) else hex_run 0 s)"

text \<open>\<open>1 << opc_pos\<close> has type \<^verbatim>\<open>int\<close>: for bit 31 it is negative, and widening it to \<^verbatim>\<open>unsigned long\<close> extends the sign.\<close>

definition int_bit :: "u32 \<Rightarrow> u64" where
  "int_bit pos = scast (push_bit (unat pos) 1 :: u32)"

definition hex_field :: "string \<Rightarrow> bool" where
  "hex_field enc \<longleftrightarrow> take 2 enc = ''0x''"

function extract_loop :: "char \<Rightarrow> string \<Rightarrow> u32 \<Rightarrow> u64 \<Rightarrow> u64" where
  "extract_loop param_ch enc opc_pos ret =
     (case enc of
        [] \<Rightarrow> ret
      | c # rest \<Rightarrow>
          if hex_field enc then
            let tmp = strtol16 (drop 2 enc);
                opc_pos = opc_pos - 4;
                ret = (if param_ch = CHR ''0'' \<or> param_ch = CHR ''1''
                       then ret OR push_bit (unat opc_pos) (if param_ch = CHR ''0'' then 15 - tmp else tmp)
                       else ret)
            in extract_loop param_ch (drop 3 enc) opc_pos ret
          else if c = CHR ''0'' \<or> c = CHR ''1'' \<or> c = CHR ''-'' \<or> isalpha (chr_int c) then
            let opc_pos = opc_pos - 1;
                ret = (if param_ch = c then ret OR int_bit opc_pos else ret)
            in extract_loop param_ch rest opc_pos ret
          else extract_loop param_ch rest opc_pos ret)"
  by pat_completeness auto
termination by (relation "measure (\<lambda>(c, enc, pos, ret). length enc)") (auto split: list.splits)

declare extract_loop.simps [simp del]

definition insn_extract :: "char \<Rightarrow> string \<Rightarrow> u64" where
  "insn_extract param_ch enc_initial = extract_loop param_ch enc_initial 32 0"

subsection \<open>Building the automaton\<close>

record insn_info =
  ti_insn :: u64
  ti_mask :: u64
  in_pass :: nat

text \<open>The variables the construction works on; \<open>automaton\<close> is the array, whose size is checked only at the end.\<close>

record build =
  automaton :: "nat \<Rightarrow> u64"
  ti :: "insn_info list"
  curpass :: nat
  nuncovered :: int

definition LEAF_FLAG :: u64 where "LEAF_FLAG = 0x80000000"
definition MAX_AUTOMATA_SIZE :: nat where "MAX_AUTOMATA_SIZE = 1200"
definition MAX_OP_TABLE_SIZE :: nat where "MAX_OP_TABLE_SIZE = 1200"
definition MAX_LEN :: nat where "MAX_LEN = 8"

definition of_pass :: "nat \<Rightarrow> insn_info list \<Rightarrow> nat list" where
  "of_pass pass tis = filter (\<lambda>i. in_pass (tis ! i) = pass) [0..<length tis]"

text \<open>The inner loop of the search for the longest window: on entry and after each round its
  counter is \<open>best_len + 1\<close>.\<close>

function grow_window :: "u64 \<Rightarrow> nat \<Rightarrow> nat \<times> nat \<Rightarrow> nat \<times> nat" where
  "grow_window cur_mask i (best_first, best_len) =
     (if best_len + 1 < min MAX_LEN (33 - i) \<and>
         (push_bit (best_len + 1) 1 - 1) AND drop_bit i cur_mask = push_bit (best_len + 1) 1 - 1
      then grow_window cur_mask i (i, best_len + 1) else (best_first, best_len))"
  by pat_completeness auto
termination by (relation "measure (\<lambda>(c, i, f, l). MAX_LEN - l)") auto

declare grow_window.simps [simp del]

definition best_window :: "u64 \<Rightarrow> nat \<times> nat" where
  "best_window cur_mask = fold (grow_window cur_mask) [0..<32] (0, 0)"

definition claim_pass :: "nat \<Rightarrow> nat \<Rightarrow> u64 \<Rightarrow> nat \<Rightarrow> nat \<Rightarrow> insn_info \<Rightarrow> insn_info" where
  "claim_pass pass best_first cur_mask i newpass t =
     (if in_pass t = pass \<and> drop_bit best_first (ti_insn t) AND cur_mask = of_nat i \<and>
         drop_bit best_first (ti_mask t) AND cur_mask = cur_mask
      then t\<lparr>in_pass := newpass\<rparr> else t)"

definition put :: "nat \<Rightarrow> u64 \<Rightarrow> build \<Rightarrow> build" where
  "put p x st = st\<lparr>automaton := (automaton st)(p := x)\<rparr>"

text \<open>The loop over the values of the window; \<open>rec\<close> is the recursive call. The results are the
  address after the last cell written and the state.\<close>

type_synonym cover = "nat \<Rightarrow> nat \<Rightarrow> u32 \<Rightarrow> build \<Rightarrow> or32_error + nat option \<times> build"

fun cover_slots :: "cover \<Rightarrow> nat \<Rightarrow> nat \<Rightarrow> u64 \<Rightarrow> u32 \<Rightarrow> nat list \<Rightarrow> nat \<Rightarrow> nat \<Rightarrow> build \<Rightarrow> or32_error + nat \<times> build" where
  "cover_slots rec pass best_first cur_mask msk [] next cur st = Inr (cur, st)"
| "cover_slots rec pass best_first cur_mask msk (i # is) next cur st =
     (let newpass = curpass st + 1;
          st = st\<lparr>curpass := newpass,
                  ti := map (claim_pass pass best_first cur_mask i newpass) (ti st)\<rparr>
      in case rec cur newpass (ucast (ucast msk AND NOT (push_bit best_first cur_mask))) st of
           Inl e \<Rightarrow> Inl e
         | Inr (Some c, st) \<Rightarrow>
             cover_slots rec pass best_first cur_mask msk is (next + 1) c (put next (of_nat cur) st)
         | Inr (None, st) \<Rightarrow>
             cover_slots rec pass best_first cur_mask msk is (next + 1) cur (put next 0 st))"

primrec cover_insn :: "nat \<Rightarrow> cover" where
  "cover_insn 0 cur pass msk st = Inl Out_of_fuel"
| "cover_insn (Suc fuel) cur pass msk st =
     (let sel = of_pass pass (ti st);
          cur_mask = fold (\<lambda>i m. m AND ti_mask (ti st ! i)) sel (ucast msk)
      in if length sel = 0 then Inr (None, st)
         else if length sel = 1 then
           Inr (Some (cur + 1),
                put cur (LEAF_FLAG OR of_nat (last sel)) (st\<lparr>nuncovered := nuncovered st - 1\<rparr>))
         else
           let (best_first, best_len) = best_window cur_mask in
           if best_len = 0 then Inl (No_split msk sel)
           else
             let st = put (cur + 1) (push_bit best_len 1 - 1) (put cur (of_nat best_first) st);
                 next = cur + 2
             in map_sum id (map_prod Some id)
                  (cover_slots (cover_insn fuel) pass best_first (push_bit best_len 1 - 1) msk
                     [0..<2 ^ best_len] next (next + 2 ^ best_len) st))"

definition insn_info_of :: "or32_opcode \<Rightarrow> insn_info" where
  "insn_info_of p =
     (let ones = insn_extract CHR ''1'' (op_encoding p);
          zeros = insn_extract CHR ''0'' (op_encoding p)
      in \<lparr>ti_insn = ones, ti_mask = ones OR zeros, in_pass = 0\<rparr>)"

subsection \<open>Operand descriptors\<close>

record op_struct =
  op_type :: u64
  op_data :: u64

definition OPTYPE_LAST :: u64 where "OPTYPE_LAST = 0x80000000"
definition OPTYPE_OP :: u64 where "OPTYPE_OP = 0x40000000"
definition OPTYPE_REG :: u64 where "OPTYPE_REG = 0x20000000"
definition OPTYPE_SIG :: u64 where "OPTYPE_SIG = 0x10000000"
definition OPTYPE_DIS :: u64 where "OPTYPE_DIS = 0x08000000"
definition OPTYPE_DST :: u64 where "OPTYPE_DST = 0x04000000"
definition OPTYPE_SBIT :: u64 where "OPTYPE_SBIT = 0x00001F00"
definition OPTYPE_SBIT_SHR :: nat where "OPTYPE_SBIT_SHR = 8"

lemma drop_bit_1_less:
  fixes x :: "'a::len word"
  assumes "x \<noteq> 0"
  shows "unat (drop_bit (Suc 0) x) < unat x"
proof -
  have "unat (drop_bit (Suc 0) x) = unat x div 2"
    by (simp only: unsigned_drop_bit_eq take_bit_length_eq unsigned_take_bit_eq [symmetric])
      (simp add: drop_bit_eq_div)
  moreover have "0 < unat x" using assms by (simp add: unat_gt_0)
  ultimately show ?thesis by simp
qed

function num_ones :: "u64 \<Rightarrow> nat" where
  "num_ones value =
     (if value = 0 then 0 else (if value AND 1 \<noteq> 0 then 1 else 0) + num_ones (drop_bit 1 value))"
  by pat_completeness auto
termination by (relation "measure unat") (auto intro: drop_bit_1_less)

declare num_ones.simps [simp del]

text \<open>The two scans of a run of ones: skip the zeros below it (the caller's value is not zero), count the ones.\<close>

function skip_zeros :: "nat \<Rightarrow> u64 \<Rightarrow> nat \<times> u64" where
  "skip_zeros shr tmp =
     (if tmp \<noteq> 0 \<and> tmp AND 1 = 0 then skip_zeros (shr + 1) (drop_bit 1 tmp) else (shr, tmp))"
  by pat_completeness auto
termination by (relation "measure (\<lambda>(s, t). unat t)") (auto intro: drop_bit_1_less)

function count_ones :: "nat \<Rightarrow> u64 \<Rightarrow> nat" where
  "count_ones msk tmp =
     (if tmp AND 1 \<noteq> 0 then count_ones (msk + 1) (drop_bit 1 tmp) else msk)"
  by pat_completeness auto
termination
  by (relation "measure (\<lambda>(s, t). unat t)") (auto intro!: drop_bit_1_less)

declare skip_zeros.simps [simp del] count_ones.simps [simp del]

text \<open>Split a letter's bits into runs of ones; \<open>arg &= ~(((1 << mask) - 1) << shr)\<close> is computed in \<^verbatim>\<open>int\<close>
  and widened. The result is the list of (shift, length).\<close>

definition clear_run :: "nat \<Rightarrow> nat \<Rightarrow> u64 \<Rightarrow> u64" where
  "clear_run msk shr arg = arg AND scast (NOT (push_bit shr (push_bit msk 1 - 1)) :: u32)"

partial_function (option) split_runs :: "u64 \<Rightarrow> (nat \<times> nat) list option" where
  "split_runs arg =
     (if arg = 0 then Some []
      else
        let (shr, tmp) = skip_zeros 0 arg; msk = count_ones 0 tmp in
        Option.bind (split_runs (clear_run msk shr arg)) (\<lambda>rs. Some ((shr, msk) # rs)))"

definition upd_last :: "nat \<Rightarrow> (op_struct \<Rightarrow> op_struct) \<Rightarrow> op_struct list \<Rightarrow> op_struct list" where
  "upd_last n f ops = take (length ops - n) ops @ map f (drop (length ops - n) ops)"

definition or_type :: "u64 \<Rightarrow> op_struct \<Rightarrow> op_struct" where
  "or_type fl op = op\<lparr>op_type := op_type op OR fl\<rparr>"

text \<open>The loop over the argument string. \<open>ops\<close> is the descriptor table up to \<open>cur\<close>, so \<open>cur++\<close> after
  filling a cell appends it and \<open>cur[-n]\<close> counts from its end.\<close>

fun parse_loop :: "string \<Rightarrow> string \<Rightarrow> u64 \<Rightarrow> nat \<Rightarrow> op_struct list \<Rightarrow> (or32_error + op_struct list) option" where
  "parse_loop encoding [] typ num_cur_op ops =
     Some (Inr (upd_last 1 (or_type (typ OR OPTYPE_OP OR OPTYPE_LAST)) ops))"
| "parse_loop encoding (c # args) typ num_cur_op ops =
     (if c = CHR ''r'' then
        parse_loop encoding args
          (typ OR OPTYPE_REG OR (if args \<noteq> [] \<and> hd args = CHR ''D'' then OPTYPE_DST else 0)) num_cur_op ops
      else if isalpha (chr_int c) then
        let arg = insn_extract c encoding;
            typ = (if letter_signed c \<noteq> 0
                   then typ OR OPTYPE_SIG OR (push_bit OPTYPE_SBIT_SHR (of_nat (num_ones arg) - 1) AND OPTYPE_SBIT)
                   else typ)
        in Option.bind (split_runs arg) (\<lambda>rs.
             parse_loop encoding args typ (length rs)
               (ops @ map (\<lambda>(shr, msk). \<lparr>op_type = typ OR of_nat shr, op_data = of_nat msk\<rparr>) rs))
      else if c = CHR ''('' then
        parse_loop encoding args 0 0
          (upd_last 1 (or_type OPTYPE_OP) (upd_last num_cur_op (or_type (typ OR OPTYPE_DIS)) ops))
      else if c = CHR '','' then
        parse_loop encoding args 0 num_cur_op (upd_last 1 (or_type (typ OR OPTYPE_OP)) ops)
      else if c = CHR ''0'' then
        parse_loop encoding args 0 num_cur_op (ops @ [\<lparr>op_type = typ, op_data = 0\<rparr>])
      else if c = CHR '')'' then parse_loop encoding args typ num_cur_op ops
      else Some (Inl Parse_error))"

definition parse_params :: "or32_opcode \<Rightarrow> op_struct list \<Rightarrow> (or32_error + op_struct list) option" where
  "parse_params opcode ops =
     (if op_args opcode = []
      then Some (Inr (ops @ [\<lparr>op_type = OPTYPE_REG OR OPTYPE_OP OR OPTYPE_LAST, op_data = 0\<rparr>]))
      else parse_loop (op_encoding opcode) (op_args opcode) 0 0 ops)"

text \<open>Parse all instructions: the start of each one's descriptors (\<open>op_start\<close>) and the table.\<close>

fun parse_all :: "or32_opcode list \<Rightarrow> nat list \<Rightarrow> op_struct list \<Rightarrow>
    (or32_error + nat list \<times> op_struct list) option" where
  "parse_all [] op_start cur = Some (Inr (op_start, cur))"
| "parse_all (p # ps) op_start cur =
     Option.bind (parse_params p cur) (\<lambda>r. case r of
       Inl e \<Rightarrow> Some (Inl e)
     | Inr cur' \<Rightarrow>
         if length cur' > MAX_OP_TABLE_SIZE then Some (Inl Ops_too_small)
         else parse_all ps (op_start @ [length cur]) cur')"

subsection \<open>The decoder's global state\<close>

record decoder =
  d_build :: build
  d_op_start :: "nat list"
  d_op_data :: "op_struct list"

text \<open>The global pointers are all NULL before the construction, and dangle after \<open>destruct_automata\<close>,
  which frees the blocks but leaves the pointers set.\<close>

datatype globals = Unbuilt | Built decoder | Freed

text \<open>\<open>garbage\<close> is the content of the block that \<^verbatim>\<open>malloc\<close> returns for the automaton.\<close>

definition build_automaton ::
    "or32_opcode list \<Rightarrow> (nat \<Rightarrow> u64) \<Rightarrow> globals \<Rightarrow> (or32_error + globals) option" where
  "build_automaton opcodes garbage g =
     (if g \<noteq> Unbuilt then Some (Inr g)
      else
        let st = \<lparr>automaton = garbage, ti = map insn_info_of opcodes, curpass = 0,
                  nuncovered = int (length opcodes)\<rparr>
        in case cover_insn 33 0 0 0xFFFFFFFF st of
             Inl e \<Rightarrow> Some (Inl e)
           | Inr (end, st) \<Rightarrow>
               if (case end of None \<Rightarrow> False | Some c \<Rightarrow> c > MAX_AUTOMATA_SIZE)
               then Some (Inl Automaton_too_large)
               else Option.bind (parse_all opcodes [] []) (\<lambda>r. case r of
                 Inl e \<Rightarrow> Some (Inl e)
               | Inr (starts, data) \<Rightarrow>
                   Some (Inr (Built \<lparr>d_build = st, d_op_start = starts, d_op_data = data\<rparr>))))"

definition destruct_automata :: "globals \<Rightarrow> globals" where
  "destruct_automata g = (case g of Unbuilt \<Rightarrow> Unbuilt | _ \<Rightarrow> Freed)"

subsection \<open>Decoding\<close>

text \<open>The walk: None if it does not end; the leaf's index, or None inside for an empty slot.\<close>

partial_function (option) decode_walk :: "(nat \<Rightarrow> u64) \<Rightarrow> u32 \<Rightarrow> nat \<Rightarrow> int option option" where
  "decode_walk aut insn a =
     (if aut a AND LEAF_FLAG = 0 then
        let first = unat (ucast (aut a) :: u32);
            i = unat (ucast (drop_bit first insn) AND aut (a + 1))
        in if aut (a + 2 + i) = 0 then Some None
           else decode_walk aut insn (unat (aut (a + 2 + i)))
      else Some (Some (sint (ucast (aut a AND NOT LEAF_FLAG) :: u32))))"

text \<open>The final check: the masked word is truncated to a signed \<^verbatim>\<open>int\<close> and compared as \<^verbatim>\<open>unsigned long\<close>.\<close>

definition direct_match :: "insn_info \<Rightarrow> u32 \<Rightarrow> bool" where
  "direct_match t insn =
     (let d = ucast (ti_mask t AND ucast insn) :: u32 in scast d = ti_insn t)"

definition insn_decode :: "decoder \<Rightarrow> u32 \<Rightarrow> int option" where
  "insn_decode d insn =
     Option.bind (decode_walk (automaton (d_build d)) insn 0) (\<lambda>r. case r of
       None \<Rightarrow> Some (- 1)
     | Some i \<Rightarrow> Some (if direct_match (ti (d_build d) ! nat i) insn then i else - 1))"

subsection \<open>Disassembling\<close>

definition param_count :: "char \<Rightarrow> string \<Rightarrow> nat" where
  "param_count ch enc =
     length (filter (\<lambda>k. enc ! k = ch \<and> \<not> (k \<ge> 2 \<and> enc ! (k - 2) = CHR ''0'' \<and> enc ! (k - 1) = CHR ''x''))
       [0..<length enc])"

function operand_loop :: "char \<Rightarrow> u64 \<Rightarrow> string \<Rightarrow> int \<Rightarrow> int \<Rightarrow> u64 \<Rightarrow> u64" where
  "operand_loop param_ch insn enc opc_pos param_pos ret =
     (case enc of
        [] \<Rightarrow> ret
      | c # rest \<Rightarrow>
          if hex_field enc then
            let opc_pos = opc_pos - 4;
                ret = (if param_ch = CHR ''0'' \<or> param_ch = CHR ''1''
                       then let tmp = strtol16 enc;
                                tmp = (if param_ch = CHR ''0'' then 15 - tmp else tmp)
                            in ret OR push_bit (nat opc_pos) tmp
                       else ret)
            in operand_loop param_ch insn (drop 3 enc) opc_pos param_pos ret
          else if c = CHR ''0'' \<or> c = CHR ''1'' then
            operand_loop param_ch insn rest (opc_pos - 1) param_pos
              (if param_ch = c then ret OR int_bit (word_of_int (opc_pos - 1)) else ret)
          else if c = param_ch then
            let opc_pos = opc_pos - 1; param_pos = param_pos - 1;
                b = push_bit (nat param_pos) (drop_bit (nat opc_pos) insn AND 1)
            in operand_loop param_ch insn rest opc_pos param_pos
                 (if islower (chr_int param_ch) then ret - b else ret + b)
          else if isalpha (chr_int c) \<or> c = CHR ''-'' then
            operand_loop param_ch insn rest (opc_pos - 1) param_pos ret
          else operand_loop param_ch insn rest opc_pos param_pos ret)"
  by pat_completeness auto
termination by (relation "measure (\<lambda>(c, w, enc, pos, pp, ret). length enc)") (auto split: list.splits)

declare operand_loop.simps [simp del]

definition or32_extract :: "char \<Rightarrow> string \<Rightarrow> u64 \<Rightarrow> u64" where
  "or32_extract param_ch enc_initial insn =
     operand_loop param_ch insn enc_initial 32 (int (param_count param_ch enc_initial)) 0"

definition extend_imm :: "u64 \<Rightarrow> char \<Rightarrow> cache \<Rightarrow> or32_error + u64 \<times> cache" where
  "extend_imm imm l range_cache =
     (case letter_range l range_cache of
        Inl e \<Rightarrow> Inl e
      | Inr (letter_bits, range_cache) \<Rightarrow>
          let msk = scast (push_bit (nat letter_bits) 1 - 1 :: u32) :: u64;
              imm = imm AND msk;
              imm = (if letter_signed l \<noteq> 0 \<and> drop_bit (nat (letter_bits - 1)) imm \<noteq> 0
                     then imm OR NOT msk else imm)
          in Inr (imm, range_cache))"

definition int_of_long :: "u64 \<Rightarrow> int" where "int_of_long x = sint (ucast x :: u32)"

definition or32_print_register :: "char \<Rightarrow> string \<Rightarrow> u64 \<Rightarrow> string" where
  "or32_print_register param_ch encoding insn =
     (let regnum = int_of_long (or32_extract param_ch encoding insn) in CHR ''r'' # dec_str regnum)"

definition or32_print_immediate :: "char \<Rightarrow> string \<Rightarrow> u64 \<Rightarrow> cache \<Rightarrow> or32_error + string \<times> cache" where
  "or32_print_immediate param_ch encoding insn range_cache =
     (let imm = int_of_long (or32_extract param_ch encoding insn) in
      case extend_imm (word_of_int imm) param_ch range_cache of
        Inl e \<Rightarrow> Inl e
      | Inr (x, range_cache) \<Rightarrow>
          let imm = int_of_long x;
              hex = hex_str (unat (word_of_int imm :: u32));
              s = (if letter_signed param_ch \<noteq> 0
                   then (if imm < 0 then dec_str imm else ''0x'' @ hex)
                   else (if imm = 0 then hex else ''0x'' @ hex))
          in Inr (s, range_cache))"

text \<open>The loop over the argument string; an \<open>r\<close> without a letter does not occur in the table.\<close>

fun disassemble_args :: "string \<Rightarrow> u64 \<Rightarrow> string \<Rightarrow> string \<Rightarrow> cache \<Rightarrow> or32_error + string \<times> cache" where
  "disassemble_args encoding insn dest [] cch = Inr (dest, cch)"
| "disassemble_args encoding insn dest (s # args) cch =
     (if s = CHR ''r'' then
        (case args of
           [] \<Rightarrow> Inl Parse_error
         | l # args \<Rightarrow> disassemble_args encoding insn (dest @ or32_print_register l encoding insn) args cch)
      else if s \<in> set encoding then
        (case or32_print_immediate s encoding insn cch of
           Inl e \<Rightarrow> Inl e
         | Inr (t, cch) \<Rightarrow> disassemble_args encoding insn (dest @ t) args cch)
      else disassemble_args encoding insn (dest @ [s]) args cch)"

definition pad0 :: "nat \<Rightarrow> string \<Rightarrow> string" where
  "pad0 n s = replicate (n - length s) CHR ''0'' @ s"

text \<open>The result is the instruction's length, the text left in \<open>disassembled\<close> and the letter cache.\<close>

definition disassemble_index :: "u64 \<Rightarrow> int \<Rightarrow> cache \<Rightarrow> or32_error + int \<times> string \<times> cache" where
  "disassemble_index insn index cch =
     (if index \<ge> 0 then
        let opcode = or32_opcodes ! nat index in
        case disassemble_args (op_encoding opcode) insn (op_name opcode @ '' '') (op_args opcode) cch of
          Inl e \<Rightarrow> Inl e
        | Inr (s, cch) \<Rightarrow> Inr (insn_len (int_of_long insn), s, cch)
      else Inr (insn_len (int_of_long insn), ''.word 0x'' @ pad0 8 (hex_str (unat insn)), cch))"

definition disassemble_insn :: "decoder \<Rightarrow> u64 \<Rightarrow> cache \<Rightarrow> (or32_error + int \<times> string \<times> cache) option" where
  "disassemble_insn d insn cch =
     Option.bind (insn_decode d (ucast insn)) (\<lambda>i. Some (disassemble_index insn i cch))"

end
