(* ===== verification/Or32Decode.thy ===== *)
theory Or32Decode
  imports Or32
begin

unbundle bit_operations_syntax

text \<open>
  Correctness of the decoder of \<open>Or32\<close>. The array the construction leaves behind decides its set of
  instructions (\<open>decides\<close>), for any table; hence the walk ends and finds the instruction whose fixed
  bits match. The table of the simulator is then run through the construction.
\<close>

subsection \<open>What a part of the automaton decides\<close>

definition ops :: "build \<Rightarrow> (u64 \<times> u64) list" where
  "ops st = map (\<lambda>t. (ti_insn t, ti_mask t)) (ti st)"

definition win :: "nat \<Rightarrow> u64" where "win len = push_bit len 1 - 1"

definition slot_set :: "(u64 \<times> u64) list \<Rightarrow> nat \<Rightarrow> nat \<Rightarrow> nat set \<Rightarrow> nat \<Rightarrow> nat set" where
  "slot_set tab first len S v = {i \<in> S. drop_bit first (fst (tab ! i)) AND win len = of_nat v}"

inductive decides :: "(nat \<Rightarrow> u64) \<Rightarrow> (u64 \<times> u64) list \<Rightarrow> nat \<Rightarrow> nat \<Rightarrow> nat set \<Rightarrow> bool"
  for aut tab hi where
  leaf: "c < hi \<Longrightarrow> aut c = LEAF_FLAG OR of_nat i \<Longrightarrow> i < length tab \<Longrightarrow> decides aut tab hi c {i}"
| node: "c + 2 + 2 ^ len \<le> hi \<Longrightarrow> aut c = of_nat first \<Longrightarrow> aut (c + 1) = win len \<Longrightarrow>
    1 \<le> len \<Longrightarrow> first + len \<le> 32 \<Longrightarrow>
    \<forall>i\<in>S. drop_bit first (snd (tab ! i)) AND win len = win len \<Longrightarrow>
    \<forall>v<2 ^ len. slot_set tab first len S v = {} \<and> aut (c + 2 + v) = 0 \<or>
      (\<exists>c'. slot_set tab first len S v \<noteq> {} \<and> c < c' \<and> c' < hi \<and> aut (c + 2 + v) = of_nat c' \<and>
         decides aut tab hi c' (slot_set tab first len S v)) \<Longrightarrow>
    decides aut tab hi c S"

lemma decides_frame:
  "decides aut tab hi c S \<Longrightarrow> hi \<le> hi' \<Longrightarrow> \<forall>x. c \<le> x \<and> x < hi \<longrightarrow> aut' x = aut x \<Longrightarrow>
   decides aut' tab hi' c S"
proof (induction rule: decides.induct)
  case (leaf c i)
  then show ?case by (intro decides.leaf) auto
next
  case (node c len first S)
  have a: "aut' c = aut c" "aut' (c + 1) = aut (c + 1)"
    using node.hyps(1) node.prems(2) by auto
  have s: "aut' (c + 2 + v) = aut (c + 2 + v)" if "v < 2 ^ len" for v
    using node.hyps(1) node.prems(2) that by simp
  show ?case
  proof (rule decides.node)
    show "\<forall>v<2 ^ len. slot_set tab first len S v = {} \<and> aut' (c + 2 + v) = 0 \<or>
      (\<exists>c'. slot_set tab first len S v \<noteq> {} \<and> c < c' \<and> c' < hi' \<and> aut' (c + 2 + v) = of_nat c' \<and>
         decides aut' tab hi' c' (slot_set tab first len S v))"
    proof (intro allI impI)
      fix v :: nat
      assume v: "v < 2 ^ len"
      with node.IH consider "slot_set tab first len S v = {}" "aut (c + 2 + v) = 0"
        | c' where "slot_set tab first len S v \<noteq> {}" "c < c'" "c' < hi" "aut (c + 2 + v) = of_nat c'"
            "decides aut' tab hi' c' (slot_set tab first len S v)"
        using node.prems by (metis (no_types, lifting) less_imp_le order_trans)
      then show "slot_set tab first len S v = {} \<and> aut' (c + 2 + v) = 0 \<or>
        (\<exists>c'. slot_set tab first len S v \<noteq> {} \<and> c < c' \<and> c' < hi' \<and> aut' (c + 2 + v) = of_nat c' \<and>
           decides aut' tab hi' c' (slot_set tab first len S v))"
      proof cases
        case 1
        then show ?thesis using s [OF v] by simp
      next
        case 2
        then show ?thesis using s [OF v] node.prems(1) by (metis order_less_le_trans)
      qed
    qed
  qed (use node a in auto)
qed

subsection \<open>The walk on a deciding automaton\<close>

definition fixed_match :: "u64 \<times> u64 \<Rightarrow> u32 \<Rightarrow> bool" where
  "fixed_match p w \<longleftrightarrow> (\<forall>n<32. bit (snd p) n \<longrightarrow> bit w n = bit (fst p) n)"

lemma bit_win: "bit (win len) n \<longleftrightarrow> n < len \<and> n < 64"
proof -
  have "win len = mask len" by (simp add: win_def push_bit_of_1 mask_eq_exp_minus_1)
  then show ?thesis by (auto simp: bit_mask_iff)
qed

lemma bit_small: "i < 2 ^ k \<Longrightarrow> bit (i::nat) n \<Longrightarrow> n < k"
  using take_bit_nat_eq_self [of i k] bit_take_bit_iff [of k i n] by auto

lemma bit_of_small:
  "i < 2 ^ k \<Longrightarrow> bit (of_nat i :: 'a::len word) n \<Longrightarrow> n < k"
  by (auto simp: bit_of_nat_iff dest: bit_small)

lemma bit_leaf: "bit LEAF_FLAG n \<longleftrightarrow> n = 31"
proof -
  have e: "LEAF_FLAG = push_bit 31 1" by (simp add: LEAF_FLAG_def)
  show ?thesis unfolding e by (auto simp: bit_push_bit_iff bit_1_iff simp del: push_bit_of_1)
qed

lemma leaf_word:
  assumes "i < 2 ^ 31"
  shows "(LEAF_FLAG OR of_nat i) AND LEAF_FLAG \<noteq> 0"
    and "sint (ucast ((LEAF_FLAG OR of_nat i) AND NOT LEAF_FLAG) :: u32) = int i"
    and "of_nat i AND LEAF_FLAG = 0"
proof -
  have "bit ((LEAF_FLAG OR of_nat i) AND LEAF_FLAG) 31" by (simp add: bit_and_iff bit_or_iff bit_leaf)
  then show "(LEAF_FLAG OR of_nat i) AND LEAF_FLAG \<noteq> 0" by auto
  have "(LEAF_FLAG OR of_nat i) AND NOT LEAF_FLAG = (of_nat i :: u64)"
    using bit_of_small [OF assms]
    by (intro bit_word_eqI) (auto simp: bit_and_iff bit_or_iff bit_not_iff bit_leaf)
  moreover have "ucast (of_nat i :: u64) = (of_nat i :: u32)"
    using assms by (intro word_unat_eq_iff [THEN iffD2])
      (simp add: unsigned_ucast_eq unat_of_nat take_bit_nat_eq_self)
  moreover have "sint (of_nat i :: u32) = int i"
    using assms by (simp add: signed_of_nat signed_take_bit_int_eq_self)
  ultimately show "sint (ucast ((LEAF_FLAG OR of_nat i) AND NOT LEAF_FLAG) :: u32) = int i" by simp
  show "of_nat i AND LEAF_FLAG = 0"
    using bit_of_small [OF assms] by (intro bit_word_eqI) (auto simp: bit_and_iff bit_leaf)
qed

lemma unat_win: "len \<le> 32 \<Longrightarrow> unat (x AND win len) < 2 ^ len"
proof -
  assume l: "len \<le> 32"
  have "x AND win len = take_bit len x"
    using l by (intro bit_word_eqI) (auto simp: bit_and_iff bit_win bit_take_bit_iff)
  then show ?thesis
    using l by (simp add: unsigned_take_bit_eq)
qed

text \<open>The slot of a word is the slot of every instruction it matches.\<close>

lemma slot_of_match:
  assumes "fixed_match p w" and "drop_bit first (snd p) AND win len = win len" and "first + len \<le> 32"
  shows "drop_bit first (fst p) AND win len = ucast (drop_bit first w) AND win len"
proof (rule bit_word_eqI)
  fix n assume "n < LENGTH(64)"
  show "bit (drop_bit first (fst p) AND win len) n = bit (ucast (drop_bit first w) AND win len) n"
  proof (cases "n < len")
    case True
    have "bit (drop_bit first (snd p) AND win len) n" using True assms by (simp add: bit_win)
    then have "bit (snd p) (first + n)" by (simp add: bit_and_iff bit_drop_bit_eq)
    then have "bit w (first + n) = bit (fst p) (first + n)"
      using assms(1,3) True by (simp add: fixed_match_def)
    then show ?thesis using True assms(3)
      by (auto simp: bit_and_iff bit_drop_bit_eq bit_unsigned_iff bit_win)
  qed (simp add: bit_and_iff bit_win)
qed

lemma decides_walk:
  assumes "hi \<le> 2 ^ 31" and "length tab \<le> 2 ^ 31"
  shows "decides aut tab hi c S \<Longrightarrow>
    \<exists>r. decode_walk aut w c = Some r \<and>
      (\<forall>i. r = Some i \<longrightarrow> 0 \<le> i \<and> nat i \<in> S) \<and> (\<forall>i\<in>S. fixed_match (tab ! i) w \<longrightarrow> r = Some (int i))"
proof (induction rule: decides.induct)
  case (leaf c i)
  then have "i < 2 ^ 31" using assms(2) by simp
  note l = leaf_word [OF this]
  show ?case
    by (subst decode_walk.simps) (simp add: leaf(2) l(2) LEAF_FLAG_def [THEN arg_cong, of "\<lambda>x. x = 0"])
next
  case (node c len first S)
  have f: "first < 2 ^ 31" using node.hyps(5) by simp
  have u: "unat (ucast (of_nat first :: u64) :: u32) = first"
    using node.hyps(5) by (simp add: unsigned_ucast_eq take_bit_nat_eq_self unat_of_nat)
  define v where "v = unat (ucast (drop_bit first w) AND win len)"
  have v: "v < 2 ^ len" using node.hyps(5) unat_win [of len] by (simp add: v_def)
  have vw: "of_nat v = ucast (drop_bit first w) AND win len" by (simp add: v_def)
  have step: "decode_walk aut w c =
      (if aut (c + 2 + v) = 0 then Some None else decode_walk aut w (unat (aut (c + 2 + v))))"
    using node.hyps(2,3) leaf_word(3) [OF f]
    by (subst decode_walk.simps) (simp add: u v_def Let_def)
  have mem: "i \<in> slot_set tab first len S v" if "i \<in> S" "fixed_match (tab ! i) w" for i
    using that slot_of_match [OF that(2) _ node.hyps(5)] node.hyps(6)
    by (simp add: slot_set_def vw)
  have sub: "slot_set tab first len S v \<subseteq> S" by (auto simp: slot_set_def)
  from node.IH v consider "slot_set tab first len S v = {}" "aut (c + 2 + v) = 0"
    | c' r where "c < c'" "c' < hi" "aut (c + 2 + v) = of_nat c'" "decode_walk aut w c' = Some r"
        "\<forall>i. r = Some i \<longrightarrow> 0 \<le> i \<and> nat i \<in> slot_set tab first len S v"
        "\<forall>i\<in>slot_set tab first len S v. fixed_match (tab ! i) w \<longrightarrow> r = Some (int i)"
    by blast
  then show ?case
  proof cases
    case 1
    then show ?thesis using step mem by auto
  next
    case 2
    have "c' < 2 ^ 31" using 2(2) assms(1) by simp
    then have "unat (of_nat c' :: u64) = c'" by (simp add: unat_of_nat)
    moreover from this have "(of_nat c' :: u64) \<noteq> 0" using 2(1) by (metis less_nat_zero_code unat_0)
    ultimately have "decode_walk aut w c = Some r" using step 2(3,4) by simp
    then show ?thesis using 2(5,6) mem sub by blast
  qed
qed

subsection \<open>The window\<close>

definition good_window :: "u64 \<Rightarrow> nat \<times> nat \<Rightarrow> bool" where
  "good_window cm w \<longleftrightarrow> (case w of (f, l) \<Rightarrow>
     l = 0 \<or> l < 8 \<and> f + l \<le> 32 \<and> win l AND drop_bit f cm = win l)"

lemma grow_window_good: "good_window cm w \<Longrightarrow> i < 32 \<Longrightarrow> good_window cm (grow_window cm i w)"
proof (induction cm i w rule: grow_window.induct)
  case (1 cm i f l)
  show ?case
    using 1 by (subst grow_window.simps) (auto simp: good_window_def win_def MAX_LEN_def)
qed

lemma fold_preserves: "(\<And>x a. x \<in> set xs \<Longrightarrow> P a \<Longrightarrow> P (f x a)) \<Longrightarrow> P a \<Longrightarrow> P (fold f xs a)"
  by (induction xs arbitrary: a) auto

lemma best_window_good: "good_window cm (best_window cm)"
  unfolding best_window_def
  by (rule fold_preserves) (simp_all only: grow_window_good set_upt atLeastLessThan_iff, simp add: good_window_def)

lemma bit_fold_and:
  "bit (fold (\<lambda>i m. m AND g i) xs m) n \<longleftrightarrow> bit m n \<and> (\<forall>i\<in>set xs. bit (g i :: u64) n)"
  by (induction xs arbitrary: m) (auto simp: bit_and_iff)

lemma window_fixed:
  assumes "best_window (fold (\<lambda>i m. m AND g i) xs m) = (f, l)" and "l \<noteq> 0" and "i \<in> set xs"
  shows "drop_bit f (g i) AND win l = win l" "1 \<le> l" "f + l \<le> 32" "l < 8"
    "win l AND drop_bit f m = win l"
proof -
  let ?cm = "fold (\<lambda>i m. m AND g i) xs m"
  have g: "l < 8 \<and> f + l \<le> 32 \<and> win l AND drop_bit f ?cm = win l"
    using best_window_good [of ?cm] assms(1,2) by (simp add: good_window_def)
  then show "1 \<le> l" "f + l \<le> 32" "l < 8" using assms(2) by auto
  have b: "bit ?cm (f + n)" if "n < l" for n
  proof -
    have "bit (win l AND drop_bit f ?cm) n" using g that by (simp add: bit_win)
    then show ?thesis by (simp add: bit_and_iff bit_drop_bit_eq)
  qed
  show "drop_bit f (g i) AND win l = win l" "win l AND drop_bit f m = win l"
    using b assms(3) unfolding bit_fold_and
    by (intro bit_word_eqI; auto simp: bit_and_iff bit_drop_bit_eq bit_win)+
qed

subsection \<open>The construction leaves a deciding automaton\<close>

definition sel :: "nat \<Rightarrow> build \<Rightarrow> nat set" where "sel pass st = set (of_pass pass (ti st))"

definition passes_ok :: "build \<Rightarrow> bool" where
  "passes_ok st \<longleftrightarrow> (\<forall>t\<in>set (ti st). in_pass t \<le> curpass st)"

lemma mem_sel: "i \<in> sel p st \<longleftrightarrow> i < length (ti st) \<and> in_pass (ti st ! i) = p"
  by (auto simp: sel_def of_pass_def)

lemma length_ops [simp]: "length (ops st) = length (ti st)"
  by (simp add: ops_def)

text \<open>What both loops keep: older passes are left alone, the instructions never change.\<close>

definition step_ok :: "nat \<Rightarrow> build \<Rightarrow> build \<Rightarrow> bool" where
  "step_ok pass st st' \<longleftrightarrow>
     passes_ok st' \<and> ops st' = ops st \<and> curpass st \<le> curpass st' \<and>
     (\<forall>p\<le>curpass st. p \<noteq> pass \<longrightarrow> sel p st' = sel p st)"

definition covered :: "nat \<Rightarrow> nat \<Rightarrow> build \<Rightarrow> nat option \<Rightarrow> build \<Rightarrow> bool" where
  "covered cur pass st r st' \<longleftrightarrow> step_ok pass st st' \<and>
     (case r of
        None \<Rightarrow> sel pass st = {} \<and> automaton st' = automaton st
      | Some c \<Rightarrow> sel pass st \<noteq> {} \<and> cur < c \<and>
          (\<forall>x. x < cur \<or> c \<le> x \<longrightarrow> automaton st' x = automaton st x) \<and>
          decides (automaton st') (ops st) c cur (sel pass st))"

definition cover_ok :: "cover \<Rightarrow> bool" where
  "cover_ok rec \<longleftrightarrow> (\<forall>cur pass msk st r st'. passes_ok st \<longrightarrow> pass \<le> curpass st \<longrightarrow>
     rec cur pass msk st = Inr (r, st') \<longrightarrow> covered cur pass st r st')"

definition claimed :: "nat \<Rightarrow> nat \<Rightarrow> u64 \<Rightarrow> nat \<Rightarrow> build \<Rightarrow> build" where
  "claimed pass first cm i st =
     st\<lparr>curpass := curpass st + 1, ti := map (claim_pass pass first cm i (curpass st + 1)) (ti st)\<rparr>"

lemma put_simps [simp]:
  "ti (put p x st) = ti st" "curpass (put p x st) = curpass st" "sel q (put p x st) = sel q st"
  "ops (put p x st) = ops st" "passes_ok (put p x st) = passes_ok st"
  "automaton (put p x st) = (automaton st)(p := x)"
  by (simp_all add: put_def sel_def ops_def passes_ok_def)

lemma claimed_simps [simp]:
  "ops (claimed pass first cm i st) = ops st" "automaton (claimed pass first cm i st) = automaton st"
  "curpass (claimed pass first cm i st) = curpass st + 1"
  by (simp_all add: claimed_def ops_def claim_pass_def comp_def)

lemma claimed_sel:
  assumes ok: "passes_ok st" and p: "pass \<le> curpass st"
    and fixed: "\<forall>j\<in>sel pass st. drop_bit first (snd (ops st ! j)) AND win len = win len"
  shows "passes_ok (claimed pass first (win len) i st)"
    "sel (curpass st + 1) (claimed pass first (win len) i st) = slot_set (ops st) first len (sel pass st) i"
    "sel pass (claimed pass first (win len) i st) = sel pass st - slot_set (ops st) first len (sel pass st) i"
    "q \<le> curpass st \<Longrightarrow> q \<noteq> pass \<Longrightarrow> sel q (claimed pass first (win len) i st) = sel q st"
proof -
  let ?st = "claimed pass first (win len) i st"
  have le: "in_pass (ti st ! j) \<le> curpass st" if "j < length (ti st)" for j
    using ok that by (simp add: passes_ok_def)
  have nth: "in_pass (ti ?st ! j) =
      (if j \<in> slot_set (ops st) first len (sel pass st) i then curpass st + 1 else in_pass (ti st ! j))"
    if "j < length (ti st)" for j
    using that fixed [rule_format, of j]
    by (auto simp: claimed_def claim_pass_def slot_set_def mem_sel ops_def)
  have len: "length (ti ?st) = length (ti st)" by (simp add: claimed_def)
  have sub: "j < length (ti st)" "in_pass (ti st ! j) = pass"
    if "j \<in> slot_set (ops st) first len (sel pass st) i" for j
    using that by (auto simp: slot_set_def mem_sel)
  show "passes_ok ?st"
  proof -
    have "in_pass (ti ?st ! j) \<le> curpass st + 1" if "j < length (ti st)" for j
      using le [OF that] by (simp add: nth [OF that])
    then show ?thesis unfolding passes_ok_def by (auto simp: in_set_conv_nth len)
  qed
  have mem: "j \<in> sel q ?st \<longleftrightarrow> j < length (ti st) \<and>
      (if j \<in> slot_set (ops st) first len (sel pass st) i then q = curpass st + 1 else in_pass (ti st ! j) = q)"
    for j q by (auto simp: mem_sel len nth)
  have ne: "in_pass (ti st ! j) \<noteq> curpass st + 1" if "j < length (ti st)" for j
    using le [OF that] by simp
  show "sel (curpass st + 1) ?st = slot_set (ops st) first len (sel pass st) i"
    using sub(1) ne by (intro set_eqI) (auto simp only: mem split: if_splits)
  show "sel pass ?st = sel pass st - slot_set (ops st) first len (sel pass st) i"
    using p by (intro set_eqI) (auto simp: mem mem_sel [of _ _ st])
  show "sel q ?st = sel q st" if "q \<le> curpass st" "q \<noteq> pass"
    using sub that by (intro set_eqI) (auto simp: mem mem_sel [of _ _ st])
qed

definition slots_ok :: "nat list \<Rightarrow> nat \<Rightarrow> nat \<Rightarrow> nat \<Rightarrow> nat \<Rightarrow> nat \<Rightarrow> build \<Rightarrow> nat \<Rightarrow> build \<Rightarrow> bool" where
  "slots_ok is pass first len next cur st cur' st' \<longleftrightarrow> step_ok pass st st' \<and> cur \<le> cur' \<and>
     (\<forall>x. (x < next \<or> next + length is \<le> x) \<and> (x < cur \<or> cur' \<le> x) \<longrightarrow> automaton st' x = automaton st x) \<and>
     (\<forall>k<length is. let A = slot_set (ops st) first len (sel pass st) (is ! k) in
        A = {} \<and> automaton st' (next + k) = 0 \<or>
        (\<exists>c'. A \<noteq> {} \<and> cur \<le> c' \<and> c' < cur' \<and> automaton st' (next + k) = of_nat c' \<and>
           decides (automaton st') (ops st) cur' c' A))"

lemma of_nat_slot_eq: "v < 2 ^ 8 \<Longrightarrow> i < 2 ^ 8 \<Longrightarrow> (of_nat v :: u64) = of_nat i \<longleftrightarrow> v = i"
  by (auto simp: word_of_nat_eq_iff take_bit_nat_eq_self)

lemma pow_small: "len < 8 \<Longrightarrow> (v::nat) < 2 ^ len \<Longrightarrow> v < 2 ^ 8"
  using power_strict_increasing [of len 8 "2 :: nat"] by simp

lemma slot_set_minus:
  assumes "v \<noteq> i" "v < 2 ^ 8" "i < 2 ^ 8"
  shows "slot_set tab first len (S - slot_set tab first len S i) v = slot_set tab first len S v"
  using of_nat_slot_eq [OF assms(2,3)] assms(1) by (auto simp: slot_set_def)

lemma step_ok_refl: "passes_ok st \<Longrightarrow> step_ok pass st st"
  by (simp add: step_ok_def)

lemma step_ok_put [simp]: "step_ok pass st (put p x st') = step_ok pass st st'"
  "step_ok pass (put p x st) st' = step_ok pass st st'"
  by (simp_all add: step_ok_def)

lemma cover_slots_ok:
  assumes rec: "cover_ok rec" and len: "len < 8"
  shows "cover_slots rec pass first (win len) msk is next cur st = Inr (cur', st') \<Longrightarrow> passes_ok st \<Longrightarrow>
    pass \<le> curpass st \<Longrightarrow> \<forall>j\<in>sel pass st. drop_bit first (snd (ops st ! j)) AND win len = win len \<Longrightarrow>
    distinct is \<Longrightarrow> \<forall>v\<in>set is. v < 2 ^ len \<Longrightarrow> next + length is \<le> cur \<Longrightarrow>
    slots_ok is pass first len next cur st cur' st'"
proof (induction "is" arbitrary: "next" cur st)
  case Nil
  then show ?case by (simp add: slots_ok_def step_ok_refl)
next
  case (Cons i "is")
  let ?A = "slot_set (ops st) first len (sel pass st) i"
  define st1 where "st1 = claimed pass first (win len) i st"
  note cl = claimed_sel [where i = i, OF Cons.prems(2,3,4), folded st1_def]
  have cp: "curpass st1 = curpass st + 1" "ops st1 = ops st" "automaton st1 = automaton st"
    by (simp_all add: st1_def)
  define msk' where "msk' = (ucast (ucast msk AND NOT (push_bit first (win len))) :: u32)"
  from Cons.prems(1) obtain r st2 where r: "rec cur (curpass st + 1) msk' st1 = Inr (r, st2)"
    by (auto simp: Let_def msk'_def st1_def claimed_def split: sum.splits)
  then have cov: "covered cur (curpass st + 1) st1 r st2"
    using rec cl(1) eq_refl [OF cp(1) [symmetric]] unfolding cover_ok_def by blast
  then have ok: "step_ok (curpass st + 1) st1 st2" by (simp add: covered_def)
  then have sel2: "sel p st2 = sel p st1" if "p \<le> curpass st" for p
    using that cp(1) by (auto simp: step_ok_def)
  define c2 where "c2 = (case r of None \<Rightarrow> cur | Some c \<Rightarrow> c)"
  define x where "x = (case r of None \<Rightarrow> (0 :: u64) | Some c \<Rightarrow> of_nat cur)"
  have c2: "cur \<le> c2" using cov by (auto simp: c2_def covered_def split: option.splits)
  have ops2: "ops st2 = ops st" and cur2: "curpass st < curpass st2" and pok2: "passes_ok st2"
    using ok cp by (auto simp: step_ok_def)
  have selp: "sel pass st2 = sel pass st - ?A" using sel2 [OF Cons.prems(3)] cl(3) by simp
  have "cover_slots rec pass first (win len) msk is (next + 1) c2 (put next x st2) = Inr (cur', st')"
    using Cons.prems(1) r
    by (cases r) (auto simp: Let_def msk'_def [symmetric] st1_def claimed_def c2_def x_def)
  then have ih: "slots_ok is pass first len (next + 1) c2 (put next x st2) cur' st'"
    by (rule Cons.IH) (use Cons.prems c2 cur2 selp ops2 pok2 in auto)
  have slot: "slot_set (ops st2) first len (sel pass st2) v = slot_set (ops st) first len (sel pass st) v"
    if "v \<in> set is" for v
    using that Cons.prems(5,6) pow_small [OF len]
    by (simp add: ops2 selp) (rule slot_set_minus, auto)
  have c2': "c2 \<le> cur'" using ih by (simp add: slots_ok_def)
  have frame: "automaton st' y = automaton (put next x st2) y"
    if "y < next + 1 \<or> next + 1 + length is \<le> y" "y < c2 \<or> cur' \<le> y" for y
    using ih that by (simp add: slots_ok_def)
  have step: "step_ok pass st st'"
  proof -
    have "sel p st2 = sel p st" if "p \<le> curpass st" "p \<noteq> pass" for p
      using that sel2 cl(4) by simp
    then show ?thesis using ih ops2 cur2 by (auto simp: slots_ok_def step_ok_def)
  qed
  have outer: "automaton st' y = automaton st y"
    if "y < next \<or> next + length (i # is) \<le> y" "y < cur \<or> cur' \<le> y" for y
  proof -
    have "automaton st' y = automaton (put next x st2) y" using that c2 by (intro frame) auto
    also have "\<dots> = automaton st2 y" using that by auto
    also have "\<dots> = automaton st y"
      using cov that c2' by (auto simp: covered_def cp c2_def split: option.splits)
    finally show ?thesis .
  qed
  have first: "?A = {} \<and> automaton st' next = 0 \<or>
      (\<exists>c'. ?A \<noteq> {} \<and> cur \<le> c' \<and> c' < cur' \<and> automaton st' next = of_nat c' \<and>
        decides (automaton st') (ops st) cur' c' ?A)"
  proof (cases r)
    case None
    then have "?A = {}" using cov cl(2) by (simp add: covered_def)
    moreover have "automaton st' next = x" using frame [of "next"] c2 Cons.prems(7) by simp
    ultimately show ?thesis using None by (simp add: x_def)
  next
    case (Some c)
    then have A: "?A \<noteq> {}" "cur < c" "decides (automaton st2) (ops st) c cur ?A"
      using cov cl(2) cp by (auto simp: covered_def)
    have "automaton st' next = x" using frame [of "next"] c2 Cons.prems(7) by simp
    moreover have "decides (automaton st') (ops st) cur' cur ?A"
    proof (rule decides_frame [OF A(3)])
      show "c \<le> cur'" using c2' Some by (simp add: c2_def)
      show "\<forall>y. cur \<le> y \<and> y < c \<longrightarrow> automaton st' y = automaton st2 y"
        using frame Cons.prems(7) Some by (auto simp: c2_def)
    qed
    ultimately show ?thesis using A c2' Some by (auto simp: x_def c2_def)
  qed
  have rest: "let A = slot_set (ops st) first len (sel pass st) (is ! k) in
      A = {} \<and> automaton st' (next + 1 + k) = 0 \<or>
      (\<exists>c'. A \<noteq> {} \<and> cur \<le> c' \<and> c' < cur' \<and> automaton st' (next + 1 + k) = of_nat c' \<and>
        decides (automaton st') (ops st) cur' c' A)" if "k < length is" for k
  proof -
    let ?B = "slot_set (ops st) first len (sel pass st) (is ! k)"
    have s: "slot_set (ops st2) first len (sel pass st2) (is ! k) = ?B"
      using that slot by simp
    have "?B = {} \<and> automaton st' (next + 1 + k) = 0 \<or>
      (\<exists>c'. ?B \<noteq> {} \<and> c2 \<le> c' \<and> c' < cur' \<and> automaton st' (next + 1 + k) = of_nat c' \<and>
        decides (automaton st') (ops st) cur' c' ?B)"
      using ih [unfolded slots_ok_def, THEN conjunct2, THEN conjunct2, THEN conjunct2, rule_format, OF that]
      unfolding Let_def put_simps unfolding s unfolding ops2 .
    then show ?thesis unfolding Let_def using c2 order_trans by blast
  qed
  have "let A = slot_set (ops st) first len (sel pass st) ((i # is) ! k) in
      A = {} \<and> automaton st' (next + k) = 0 \<or>
      (\<exists>c'. A \<noteq> {} \<and> cur \<le> c' \<and> c' < cur' \<and> automaton st' (next + k) = of_nat c' \<and>
        decides (automaton st') (ops st) cur' c' A)" if "k < length (i # is)" for k
    using that first rest [of "k - 1"] by (cases k) (simp_all add: Let_def)
  with step outer c2 c2' show ?case unfolding slots_ok_def
    by (intro conjI allI impI) (simp_all del: decides.simps)
qed

lemma map_sum_Inr_iff: "map_sum f g x = Inr y \<longleftrightarrow> (\<exists>z. x = Inr z \<and> y = g z)"
  by (cases x) auto

lemma map_sum_Inl_iff: "map_sum f g x = Inl y \<longleftrightarrow> (\<exists>z. x = Inl z \<and> y = f z)"
  by (cases x) auto

lemma cover_insn_ok: "cover_ok (cover_insn fuel)"
proof (induction fuel)
  case 0
  then show ?case by (simp add: cover_ok_def)
next
  case (Suc fuel)
  show ?case unfolding cover_ok_def
  proof (intro allI impI)
    fix cur pass msk st r st'
    assume ok: "passes_ok st" and p: "pass \<le> curpass st"
      and run: "cover_insn (Suc fuel) cur pass msk st = Inr (r, st')"
    let ?sel = "of_pass pass (ti st)"
    let ?cm = "fold (\<lambda>i m. m AND ti_mask (ti st ! i)) ?sel (ucast msk)"
    have set: "set ?sel = sel pass st" by (simp add: sel_def)
    consider "?sel = []" | i where "?sel = [i]" | i j xs where "?sel = i # j # xs"
      by (metis list.exhaust)
    then show "covered cur pass st r st'"
    proof cases
      case 1
      then show ?thesis using run ok set by (auto simp: covered_def step_ok_refl)
    next
      case 2
      then have s: "sel pass st = {i}" "i < length (ti st)" using set mem_sel [of i pass st] by auto
      have e: "r = Some (cur + 1)"
        "st' = put cur (LEAF_FLAG OR of_nat i) (st\<lparr>nuncovered := nuncovered st - 1\<rparr>)"
        using run 2 by auto
      have "step_ok pass st (st\<lparr>nuncovered := nuncovered st - 1\<rparr>)"
        using ok by (simp add: step_ok_def passes_ok_def ops_def sel_def)
      moreover have "decides (automaton st') (ops st) (cur + 1) cur {i}"
        using e s by (intro decides.leaf) simp_all
      ultimately show ?thesis using e s by (auto simp: covered_def)
    next
      case 3
      obtain f l where w: "best_window ?cm = (f, l)" by (cases "best_window ?cm")
      have l: "l \<noteq> 0" using run 3 w by (auto simp: Let_def split: if_splits)
      have fixed: "\<forall>j\<in>sel pass st. drop_bit f (snd (ops st ! j)) AND win l = win l"
        using window_fixed(1) [OF w l] set by (auto simp: ops_def mem_sel)
      note wf = window_fixed(2-4) [OF w l, of i, simplified 3]
      let ?st = "put (cur + 1) (win l) (put cur (of_nat f) st)"
      obtain cur' where c: "r = Some cur'"
          "cover_slots (cover_insn fuel) pass f (win l) msk [0..<2 ^ l] (cur + 2) (cur + 2 + 2 ^ l) ?st = Inr (cur', st')"
        using run 3 w l by (auto simp: Let_def win_def map_sum_Inr_iff)
      have sl: "slots_ok [0..<2 ^ l] pass f l (cur + 2) (cur + 2 + 2 ^ l) ?st cur' st'"
        by (rule cover_slots_ok [OF Suc.IH wf(3) c(2)]) (use ok p fixed wf in simp_all)
      then have fr: "automaton st' x = automaton st x" if "x < cur \<or> cur' \<le> x" for x
        using that by (auto simp: slots_ok_def)
      have "decides (automaton st') (ops st) cur' cur (sel pass st)"
      proof (rule decides.node [where len = l and first = f])
        show "cur + 2 + 2 ^ l \<le> cur'" "automaton st' cur = of_nat f" "automaton st' (cur + 1) = win l"
          using sl by (auto simp: slots_ok_def)
        show "\<forall>v<2 ^ l. slot_set (ops st) f l (sel pass st) v = {} \<and> automaton st' (cur + 2 + v) = 0 \<or>
          (\<exists>c'. slot_set (ops st) f l (sel pass st) v \<noteq> {} \<and> cur < c' \<and> c' < cur' \<and>
            automaton st' (cur + 2 + v) = of_nat c' \<and>
            decides (automaton st') (ops st) cur' c' (slot_set (ops st) f l (sel pass st) v))"
        proof (intro allI impI)
          fix v :: nat
          assume v: "v < 2 ^ l"
          then have "v < length [0..<2 ^ l]" by simp
          from sl [unfolded slots_ok_def, THEN conjunct2, THEN conjunct2, THEN conjunct2, rule_format, OF this] v
          have "slot_set (ops st) f l (sel pass st) v = {} \<and> automaton st' (cur + 2 + v) = 0 \<or>
            (\<exists>c'. slot_set (ops st) f l (sel pass st) v \<noteq> {} \<and> cur + 2 + 2 ^ l \<le> c' \<and> c' < cur' \<and>
              automaton st' (cur + 2 + v) = of_nat c' \<and>
              decides (automaton st') (ops st) cur' c' (slot_set (ops st) f l (sel pass st) v))"
            by (simp only: Let_def put_simps nth_upt add_0)
          moreover have "cur + 2 + 2 ^ l \<le> c' \<Longrightarrow> cur < c'" for c' by simp
          ultimately show "slot_set (ops st) f l (sel pass st) v = {} \<and> automaton st' (cur + 2 + v) = 0 \<or>
            (\<exists>c'. slot_set (ops st) f l (sel pass st) v \<noteq> {} \<and> cur < c' \<and> c' < cur' \<and>
              automaton st' (cur + 2 + v) = of_nat c' \<and>
              decides (automaton st') (ops st) cur' c' (slot_set (ops st) f l (sel pass st) v))"
            by blast
        qed
      qed (use wf fixed in auto)
      then show ?thesis using sl fr c(1) set 3 by (auto simp: covered_def slots_ok_def)
    qed
  qed
qed

subsection \<open>The recursion ends\<close>

definition mask_bits :: "u32 \<Rightarrow> nat set" where "mask_bits msk = {n. n < 32 \<and> bit msk n}"

lemma finite_mask_bits [simp]: "finite (mask_bits msk)"
  by (simp add: mask_bits_def)

lemma card_mask_bits: "card (mask_bits msk) \<le> 32"
  using card_mono [of "{..<32}" "mask_bits msk"] by (auto simp: mask_bits_def)

lemma cover_slots_fuel:
  assumes "\<forall>cur p st. rec cur p (ucast (ucast msk AND NOT (push_bit first cm))) st \<noteq> Inl Out_of_fuel"
  shows "cover_slots rec pass first cm msk is next cur st \<noteq> Inl Out_of_fuel"
proof (induction "is" arbitrary: "next" cur st)
  case (Cons i "is")
  then show ?case
    using assms by (auto simp: Let_def split: sum.splits option.splits)
qed simp

lemma cover_insn_fuel:
  "card (mask_bits msk) < fuel \<Longrightarrow> cover_insn fuel cur pass msk st \<noteq> Inl Out_of_fuel"
proof (induction fuel arbitrary: cur pass msk st)
  case (Suc fuel)
  let ?sel = "of_pass pass (ti st)"
  let ?cm = "fold (\<lambda>i m. m AND ti_mask (ti st ! i)) ?sel (ucast msk)"
  obtain f l where w: "best_window ?cm = (f, l)" by (cases "best_window ?cm")
  show ?case
  proof (cases "length ?sel > 1 \<and> l \<noteq> 0")
    case True
    then obtain i xs where s: "i \<in> set ?sel" by (cases ?sel) auto
    let ?msk = "ucast (ucast msk AND NOT (push_bit f (win l))) :: u32"
    note wf = window_fixed [OF w conjunct2 [OF True] s]
    have "bit (win l AND drop_bit f (ucast msk)) 0" using wf(2,5) by (simp add: bit_win)
    then have "bit msk f" "f < 32"
      using wf(2,3) by (auto simp: bit_and_iff bit_drop_bit_eq bit_unsigned_iff)
    moreover have "\<not> bit ?msk f"
      using wf(2,3) by (simp add: bit_unsigned_iff bit_and_iff bit_not_iff bit_push_bit_iff bit_win)
    moreover have "bit ?msk n \<Longrightarrow> bit msk n" for n
      by (simp add: bit_unsigned_iff bit_and_iff)
    ultimately have "mask_bits ?msk \<subset> mask_bits msk" by (auto simp: mask_bits_def)
    then have "card (mask_bits ?msk) < fuel"
      using psubset_card_mono [OF finite_mask_bits, of "mask_bits ?msk" msk] Suc.prems by linarith
    then have "\<forall>cur p st. cover_insn fuel cur p ?msk st \<noteq> Inl Out_of_fuel"
      using Suc.IH by blast
    note sl = cover_slots_fuel [where rec = "cover_insn fuel" and first = f and cm = "win l" and msk = msk, OF this]
    have "cover_insn (Suc fuel) cur pass msk st = map_sum id (map_prod Some id)
        (cover_slots (cover_insn fuel) pass f (win l) msk [0..<2 ^ l] (cur + 2) (cur + 2 + 2 ^ l)
           (put (cur + 1) (win l) (put cur (of_nat f) st)))"
      using True w by (auto simp: Let_def win_def)
    with sl show ?thesis by (simp only: map_sum_Inl_iff id_apply) blast
  next
    case False
    then show ?thesis using w by (cases "length ?sel") (auto simp: Let_def)
  qed
qed simp

subsection \<open>What an encoding means\<close>

definition hex_digit :: "char \<Rightarrow> nat option" where
  "hex_digit d = (let i = chr_int d in
     if 48 \<le> i \<and> i \<le> 57 then Some (nat (i - 48))
     else if 65 \<le> i \<and> i \<le> 70 then Some (nat (i - 55)) else None)"

text \<open>One entry per bit of the instruction, most significant first: a fixed bit, or None for an operand or an
  ignored bit.\<close>

function enc_bits :: "string \<Rightarrow> bool option list" where
  "enc_bits enc =
     (case enc of
        [] \<Rightarrow> []
      | c # rest \<Rightarrow>
          if hex_field enc then
            (case hex_digit (enc ! 2) of
               None \<Rightarrow> []
             | Some v \<Rightarrow> map (\<lambda>k. Some (bit v k)) [3, 2, 1, 0]) @ enc_bits (drop 3 enc)
          else if c = CHR ''0'' then Some False # enc_bits rest
          else if c = CHR ''1'' then Some True # enc_bits rest
          else if c = CHR ''-'' \<or> isalpha (chr_int c) then None # enc_bits rest
          else enc_bits rest)"
  by pat_completeness auto
termination by (relation "measure length") (auto split: list.splits)

declare enc_bits.simps [simp del]

definition enc_matches :: "string \<Rightarrow> u32 \<Rightarrow> bool" where
  "enc_matches enc w \<longleftrightarrow>
     (\<forall>n<32. case enc_bits enc ! (31 - n) of None \<Rightarrow> True | Some b \<Rightarrow> bit w n = b)"

text \<open>Well-formed: 32 bits, every \<open>0x\<close> followed by one hexadecimal digit and a blank or the end, and the top
  bits not written in hexadecimal (their sign would not be extended).\<close>

function hex_fields_ok :: "string \<Rightarrow> bool" where
  "hex_fields_ok enc =
     (case enc of
        [] \<Rightarrow> True
      | c # rest \<Rightarrow>
          if hex_field enc then
            3 \<le> length enc \<and> hex_digit (enc ! 2) \<noteq> None \<and> (length enc > 3 \<longrightarrow> enc ! 3 = CHR '' '') \<and>
            hex_fields_ok (drop 3 enc)
          else hex_fields_ok rest)"
  by pat_completeness auto
termination by (relation "measure length") (auto split: list.splits)

declare hex_fields_ok.simps [simp del]

definition enc_ok :: "string \<Rightarrow> bool" where
  "enc_ok enc \<longleftrightarrow> length (enc_bits enc) = 32 \<and> hex_fields_ok enc \<and>
     enc \<noteq> [] \<and> (hd enc = CHR ''0'' \<or> hd enc = CHR ''1'') \<and> \<not> hex_field enc"

lemma strtol16_digit:
  assumes "hex_digit d = Some v" and "rest = [] \<or> hd rest = CHR '' ''"
  shows "strtol16 (d # rest) = of_nat v" "v < 16"
proof -
  have h: "hex_run 0 (d # rest) = of_nat v"
    using assms by (cases rest) (auto simp: hex_digit_def Let_def split: if_splits)
  show "strtol16 (d # rest) = of_nat v"
    using h assms(2) by (cases rest) (auto simp: strtol16_def)
  show "v < 16" using assms(1) by (auto simp: hex_digit_def Let_def split: if_splits)
qed

lemma bit_int_bit:
  assumes "unat pos < 32"
  shows "bit (int_bit pos) n \<longleftrightarrow> (if unat pos = 31 then 31 \<le> n \<and> n < 64 else n = unat pos)"
  using assms
  by (auto simp: int_bit_def bit_signed_iff bit_push_bit_iff bit_1_iff min_def simp del: push_bit_of_1)

lemma bit_hex_value:
  assumes "v < 16"
  shows "bit (15 - of_nat v :: u64) k \<longleftrightarrow> k < 4 \<and> \<not> bit v k" "bit (of_nat v :: u64) k \<longleftrightarrow> k < 4 \<and> bit v k"
proof -
  have e: "(15 - of_nat v :: u64) = of_nat (15 - v)" using assms by (simp add: of_nat_diff)
  have b: "bit (of_nat w :: u64) k \<longleftrightarrow> k < 4 \<and> bit w k" if "w < 2 ^ 4" for w
    using bit_small [OF that, of k] by (auto simp: bit_of_nat_iff)
  show "bit (of_nat v :: u64) k \<longleftrightarrow> k < 4 \<and> bit v k" using b assms by simp
  have "\<forall>v\<in>set [0..<16]. \<forall>k\<in>set [0..<4]. bit (15 - v :: nat) k = (\<not> bit v k)" by code_simp
  then have "bit (15 - v) k \<longleftrightarrow> \<not> bit v k" if "k < 4" using assms that by simp
  then show "bit (15 - of_nat v :: u64) k \<longleftrightarrow> k < 4 \<and> \<not> bit v k" unfolding e using b by auto
qed

text \<open>The bits the extraction loop adds for \<open>0\<close> or \<open>1\<close>: position \<open>n\<close> of the word is entry \<open>pos - 1 - n\<close> of
  what is left of the encoding.\<close>

definition enc_bit :: "char \<Rightarrow> string \<Rightarrow> nat \<Rightarrow> bool" where
  "enc_bit ch enc n \<longleftrightarrow> n < length (enc_bits enc) \<and>
     enc_bits enc ! (length (enc_bits enc) - 1 - n) = Some (ch = CHR ''1'')"

lemma unat_minus: "unat (k :: u32) \<le> unat pos \<Longrightarrow> unat (pos - k) = unat pos - unat k"
  by (simp add: unat_sub word_le_nat_alt)

lemma enc_bit_Cons:
  assumes "enc_bits enc = x # enc_bits rest"
  shows "enc_bit ch enc n \<longleftrightarrow>
    (if n = length (enc_bits rest) then x = Some (ch = CHR ''1'') else enc_bit ch rest n)"
proof (cases "n < length (enc_bits rest)")
  case True
  then have "length (enc_bits rest) - n = Suc (length (enc_bits rest) - 1 - n)" by simp
  with True show ?thesis by (simp add: enc_bit_def assms del: diff_Suc_eq_diff_pred)
qed (auto simp: enc_bit_def assms)

lemma enc_bit_hex:
  assumes "enc_bits enc = map (\<lambda>k. Some (bit v k)) [3, 2, 1, 0] @ enc_bits rest"
  shows "enc_bit ch enc n \<longleftrightarrow>
    (if n < length (enc_bits rest) then enc_bit ch rest n
     else n < length (enc_bits rest) + 4 \<and> bit v (n - length (enc_bits rest)) = (ch = CHR ''1''))"
proof (cases "n < length (enc_bits rest)")
  case True
  then have "4 \<le> length (enc_bits rest) + 4 - 1 - n" by simp
  with True show ?thesis by (simp add: enc_bit_def assms nth_append add_diff_eq)
next
  case False
  show ?thesis
  proof (cases "n < length (enc_bits rest) + 4")
    case t: True
    then obtain d where d: "n = length (enc_bits rest) + d" "d < 4" using False by (metis add_diff_inverse nat_add_left_cancel_less)
    then have "d \<in> set [0..<4]" by simp
    then show ?thesis using d by (auto simp: enc_bit_def assms upt_rec numeral_2_eq_2 numeral_3_eq_3)
  qed (use False in \<open>simp add: enc_bit_def assms\<close>)
qed

lemma hex_field_parts:
  assumes "hex_field enc" and "hex_fields_ok enc"
  obtains v where "enc_bits enc = map (\<lambda>k. Some (bit v k)) [3, 2, 1, 0] @ enc_bits (drop 3 enc)" "v < 16"
    "strtol16 (drop 2 enc) = of_nat v" "hex_fields_ok (drop 3 enc)" "length (drop 3 enc) < length enc"
proof -
  have ne: "enc \<noteq> []" using assms(1) by (auto simp: hex_field_def)
  then obtain c rest where enc: "enc = c # rest" by (cases enc) auto
  then have ok: "3 \<le> length enc" "hex_digit (enc ! 2) \<noteq> None" "length enc > 3 \<longrightarrow> enc ! 3 = CHR '' ''"
      "hex_fields_ok (drop 3 enc)"
    using assms by (simp_all add: enc hex_fields_ok.simps [of "c # rest"])
  then obtain v where v: "hex_digit (enc ! 2) = Some v" by auto
  have d: "drop 2 enc = enc ! 2 # drop 3 enc"
    using ok(1) by (metis Cons_nth_drop_Suc Suc_le_lessD eval_nat_numeral(3))
  have "drop 3 enc = [] \<or> hd (drop 3 enc) = CHR '' ''"
    using ok(3) by (cases "length enc > 3") (simp_all add: hd_drop_conv_nth)
  note s = strtol16_digit [OF v this]
  show thesis
  proof
    show "enc_bits enc = map (\<lambda>k. Some (bit v k)) [3, 2, 1, 0] @ enc_bits (drop 3 enc)"
      using assms(1) v unfolding enc by (subst enc_bits.simps) simp
  qed (use s d ok ne in simp_all)
qed

lemma extract_loop_hex:
  assumes "hex_field enc" and "ch = CHR ''0'' \<or> ch = CHR ''1''"
  shows "extract_loop ch enc pos ret = extract_loop ch (drop 3 enc) (pos - 4)
    (ret OR push_bit (unat (pos - 4))
       (if ch = CHR ''0'' then 15 - strtol16 (drop 2 enc) else strtol16 (drop 2 enc)))"
proof -
  obtain c rest where enc: "enc = c # rest" using assms(1) by (cases enc) (auto simp: hex_field_def)
  show ?thesis
    using assms unfolding enc by (subst extract_loop.simps) (auto simp: Let_def)
qed

lemma extract_loop_symbol:
  assumes "\<not> hex_field (c # rest)" and "c = CHR ''0'' \<or> c = CHR ''1'' \<or> c = CHR ''-'' \<or> isalpha (chr_int c)"
    and "ch = CHR ''0'' \<or> ch = CHR ''1''"
  shows "extract_loop ch (c # rest) pos ret =
      extract_loop ch rest (pos - 1) (if ch = c then ret OR int_bit (pos - 1) else ret)"
    "\<exists>x. enc_bits (c # rest) = x # enc_bits rest \<and> (x = Some (ch = CHR ''1'') \<longleftrightarrow> ch = c)"
    "hex_fields_ok (c # rest) = hex_fields_ok rest"
proof -
  have "\<not> isalpha (chr_int CHR ''0'')" "\<not> isalpha (chr_int CHR ''1'')" by (simp_all add: ctype_defs)
  then show "extract_loop ch (c # rest) pos ret =
      extract_loop ch rest (pos - 1) (if ch = c then ret OR int_bit (pos - 1) else ret)"
    "\<exists>x. enc_bits (c # rest) = x # enc_bits rest \<and> (x = Some (ch = CHR ''1'') \<longleftrightarrow> ch = c)"
    "hex_fields_ok (c # rest) = hex_fields_ok rest"
    using assms
    by (auto simp: extract_loop.simps [of ch "c # rest"] enc_bits.simps [of "c # rest"]
        hex_fields_ok.simps [of "c # rest"] Let_def)
qed

lemma extract_loop_bits:
  assumes ch: "ch = CHR ''0'' \<or> ch = CHR ''1''"
  shows "hex_fields_ok enc \<Longrightarrow> unat pos = length (enc_bits enc) \<Longrightarrow> unat pos \<le> 31 \<Longrightarrow>
    bit (extract_loop ch enc pos ret) n \<longleftrightarrow> bit ret n \<or> enc_bit ch enc n"
proof (induction enc arbitrary: pos ret rule: length_induct)
  case (1 enc)
  show ?case
  proof (cases "hex_field enc")
    case True
    obtain v where v: "enc_bits enc = map (\<lambda>k. Some (bit v k)) [3, 2, 1, 0] @ enc_bits (drop 3 enc)" "v < 16"
        "strtol16 (drop 2 enc) = of_nat v" "hex_fields_ok (drop 3 enc)" "length (drop 3 enc) < length enc"
      by (rule hex_field_parts [OF True 1(2)])
    let ?L = "length (enc_bits (drop 3 enc))"
    have u: "unat (pos - 4) = ?L" "?L \<le> 27"
      using 1(3,4) v(1) unat_minus [of 4 pos] by simp_all
    show ?thesis
      using 1(1) [rule_format, OF v(5,4) u(1)] u ch bit_hex_value [OF v(2)]
      unfolding extract_loop_hex [OF True ch] enc_bit_hex [OF v(1)] v(3)
      by (auto simp: bit_or_iff bit_push_bit_iff enc_bit_def)
  next
    case False
    show ?thesis
    proof (cases enc)
      case Nil
      then show ?thesis by (simp add: extract_loop.simps [of ch "[]"] enc_bit_def enc_bits.simps [of "[]"])
    next
      case (Cons c rest)
      show ?thesis
      proof (cases "c = CHR ''0'' \<or> c = CHR ''1'' \<or> c = CHR ''-'' \<or> isalpha (chr_int c)")
        case sym: True
        note s = extract_loop_symbol [OF False [unfolded Cons] sym ch]
        from s(2) obtain x where x: "enc_bits (c # rest) = x # enc_bits rest" "x = Some (ch = CHR ''1'') \<longleftrightarrow> ch = c"
          by blast
        have u: "unat (pos - 1) = length (enc_bits rest)" "length (enc_bits rest) \<le> 30"
          using 1(3,4) x(1) unat_minus [of 1 pos] Cons by simp_all
        have ih: "bit (extract_loop ch rest (pos - 1) r) n \<longleftrightarrow> bit r n \<or> enc_bit ch rest n" for r
          using 1(1) [rule_format, of rest "pos - 1" r] u 1(2) s(3) Cons by simp
        show ?thesis
          using u x(2) unfolding Cons s(1) enc_bit_Cons [OF x(1)] ih
          by (auto simp: bit_or_iff bit_int_bit enc_bit_def)
      next
        case nosym: False
        then have e: "extract_loop ch enc pos ret = extract_loop ch rest pos ret" "enc_bits enc = enc_bits rest"
            "hex_fields_ok enc = hex_fields_ok rest"
          using False Cons by (auto simp: extract_loop.simps [of ch "c # rest"] enc_bits.simps [of "c # rest"]
              hex_fields_ok.simps [of "c # rest"])
        then show ?thesis using 1 Cons by (simp add: enc_bit_def)
      qed
    qed
  qed
qed

lemma insn_extract_bits:
  assumes ok: "enc_ok enc" and ch: "ch = CHR ''0'' \<or> ch = CHR ''1''"
  shows "bit (insn_extract ch enc) n \<longleftrightarrow> n < 64 \<and> enc_bit ch enc (min n 31)"
proof -
  obtain c rest where enc: "enc = c # rest" and c: "c = CHR ''0'' \<or> c = CHR ''1''"
    using ok by (cases enc) (auto simp: enc_ok_def)
  have nh: "\<not> hex_field (c # rest)" using ok enc by (simp add: enc_ok_def)
  have sym: "c = CHR ''0'' \<or> c = CHR ''1'' \<or> c = CHR ''-'' \<or> isalpha (chr_int c)" using c by blast
  note s = extract_loop_symbol [OF nh sym ch]
  from s(2) obtain x where x: "enc_bits (c # rest) = x # enc_bits rest" "x = Some (ch = CHR ''1'') \<longleftrightarrow> ch = c"
    by blast
  have l: "length (enc_bits rest) = 31" "hex_fields_ok rest" using ok s(3) x(1) enc by (simp_all add: enc_ok_def)
  have b: "bit (extract_loop ch rest 31 r) n \<longleftrightarrow> bit r n \<or> enc_bit ch rest n" for r
    using extract_loop_bits [OF ch l(2), of 31 r n] l(1) by simp
  have e31: "enc_bit ch enc 31 \<longleftrightarrow> ch = c" using enc_bit_Cons [OF x(1)] x(2) l(1) enc by simp
  have e: "enc_bit ch rest n \<longleftrightarrow> n < 31 \<and> enc_bit ch enc n"
    using enc_bit_Cons [OF x(1), of ch n] l(1) enc by (auto simp: enc_bit_def)
  have p: "32 - 1 = (31 :: u32)" by simp
  have i: "bit (if ch = c then 0 OR int_bit 31 else 0) n \<longleftrightarrow> ch = c \<and> 31 \<le> n \<and> n < 64"
    using bit_int_bit [of 31 n] by simp
  have "bit (insn_extract ch enc) n \<longleftrightarrow> (ch = c \<and> 31 \<le> n \<and> n < 64) \<or> n < 31 \<and> enc_bit ch enc n"
    unfolding insn_extract_def enc s(1) p b i e [unfolded enc] by (rule refl)
  then show ?thesis using e31 by (cases "n < 31") (auto simp: min_def)
qed

definition info_pair :: "insn_info \<Rightarrow> u64 \<times> u64" where "info_pair t = (ti_insn t, ti_mask t)"

lemma info_bits:
  assumes "enc_ok (op_encoding p)"
  shows "bit (ti_insn (insn_info_of p)) n \<longleftrightarrow>
      n < 64 \<and> enc_bits (op_encoding p) ! (31 - min n 31) = Some True"
    "bit (ti_mask (insn_info_of p)) n \<longleftrightarrow> n < 64 \<and> enc_bits (op_encoding p) ! (31 - min n 31) \<noteq> None"
  using assms
  by (auto simp: insn_info_of_def Let_def bit_or_iff insn_extract_bits enc_bit_def enc_ok_def)

lemma fixed_match_enc:
  assumes "enc_ok (op_encoding p)"
  shows "fixed_match (info_pair (insn_info_of p)) w \<longleftrightarrow> enc_matches (op_encoding p) w"
  by (auto simp: fixed_match_def info_pair_def info_bits [OF assms] enc_matches_def min_def split: option.splits)

lemma direct_match_fixed:
  assumes "enc_ok (op_encoding p)"
  shows "direct_match (insn_info_of p) w \<longleftrightarrow> fixed_match (info_pair (insn_info_of p)) w"
proof -
  let ?t = "insn_info_of p"
  let ?d = "ucast (ti_mask ?t AND ucast w) :: u32"
  have sub: "bit (ti_insn ?t) n \<Longrightarrow> bit (ti_mask ?t) n" for n
    by (simp add: info_bits [OF assms])
  have top: "bit (ti_insn ?t) n \<longleftrightarrow> bit (ti_insn ?t) 31" if "31 \<le> n" "n < 64" for n
    using that by (simp add: info_bits [OF assms] min_def)
  have d: "bit ?d n \<longleftrightarrow> n < 32 \<and> bit (ti_mask ?t) n \<and> bit w n" for n
    by (auto simp: bit_unsigned_iff bit_and_iff)
  have s: "bit (scast ?d :: u64) n \<longleftrightarrow> n < 64 \<and> bit ?d (min n 31)" for n
    by (auto simp: bit_signed_iff min_def)
  have "scast ?d = ti_insn ?t \<longleftrightarrow> (\<forall>n<64. bit ?d (min n 31) \<longleftrightarrow> bit (ti_insn ?t) n)"
    by (auto simp: bit_eq_iff s)
  also have "\<dots> \<longleftrightarrow> (\<forall>n<32. bit ?d n \<longleftrightarrow> bit (ti_insn ?t) n)"
  proof
    assume a: "\<forall>n<64. bit ?d (min n 31) \<longleftrightarrow> bit (ti_insn ?t) n"
    show "\<forall>n<32. bit ?d n \<longleftrightarrow> bit (ti_insn ?t) n"
    proof (intro allI impI)
      fix n :: nat
      assume "n < 32"
      then show "bit ?d n \<longleftrightarrow> bit (ti_insn ?t) n" using a [rule_format, of n] by (simp add: min_def)
    qed
  next
    assume a: "\<forall>n<32. bit ?d n \<longleftrightarrow> bit (ti_insn ?t) n"
    show "\<forall>n<64. bit ?d (min n 31) \<longleftrightarrow> bit (ti_insn ?t) n"
    proof (intro allI impI)
      fix n :: nat
      assume n: "n < 64"
      show "bit ?d (min n 31) \<longleftrightarrow> bit (ti_insn ?t) n"
        using a [rule_format, of "min n 31"] top [OF _ n] by (cases "n < 31") (simp_all add: min_def)
    qed
  qed
  also have "\<dots> \<longleftrightarrow> fixed_match (info_pair ?t) w"
    using sub by (auto simp: d fixed_match_def info_pair_def)
  finally show ?thesis by (simp add: direct_match_def Let_def)
qed

subsection \<open>Decoding is the search for the matching row\<close>

lemma build_automaton_Built:
  assumes "build_automaton opcodes garbage Unbuilt = Some (Inr (Built d))"
  obtains c st' where
    "cover_insn 33 0 0 0xFFFFFFFF \<lparr>automaton = garbage, ti = map insn_info_of opcodes, curpass = 0,
       nuncovered = int (length opcodes)\<rparr> = Inr (c, st')"
    "\<not> (case c of None \<Rightarrow> False | Some c \<Rightarrow> c > MAX_AUTOMATA_SIZE)" "d_build d = st'"
    "parse_all opcodes [] [] = Some (Inr (d_op_start d, d_op_data d))"
proof -
  let ?x = "cover_insn 33 0 0 0xFFFFFFFF \<lparr>automaton = garbage, ti = map insn_info_of opcodes, curpass = 0,
       nuncovered = int (length opcodes)\<rparr>"
  obtain c st' where x: "?x = Inr (c, st')"
    using assms by (cases ?x) (auto simp: build_automaton_def Let_def)
  note a = assms [unfolded build_automaton_def Let_def x]
  have small: "\<not> (case c of None \<Rightarrow> False | Some c \<Rightarrow> c > MAX_AUTOMATA_SIZE)"
    using a by (auto split: if_splits)
  obtain r where r: "parse_all opcodes [] [] = Some r"
    using a small by (cases "parse_all opcodes [] []") auto
  show thesis
    using a small r by (cases r) (auto intro!: that [OF x])
qed

lemma decode_correct:
  assumes built: "build_automaton opcodes garbage Unbuilt = Some (Inr (Built d))"
    and ok: "\<forall>p\<in>set opcodes. enc_ok (op_encoding p)" and ne: "opcodes \<noteq> []" and len: "length opcodes \<le> 2 ^ 31"
  shows "\<exists>i. insn_decode d w = Some i \<and>
    (i = - 1 \<and> (\<forall>j<length opcodes. \<not> enc_matches (op_encoding (opcodes ! j)) w) \<or>
     0 \<le> i \<and> nat i < length opcodes \<and>
     (\<forall>j<length opcodes. enc_matches (op_encoding (opcodes ! j)) w \<longleftrightarrow> j = nat i))"
proof -
  let ?st = "\<lparr>automaton = garbage, ti = map insn_info_of opcodes, curpass = 0, nuncovered = int (length opcodes)\<rparr>"
  let ?n = "length opcodes"
  obtain c st' where run: "cover_insn 33 0 0 0xFFFFFFFF ?st = Inr (c, st')"
      and small: "\<not> (case c of None \<Rightarrow> False | Some c \<Rightarrow> c > MAX_AUTOMATA_SIZE)" and d: "d_build d = st'"
    using build_automaton_Built [OF built] by metis
  have pok: "passes_ok ?st" by (simp add: passes_ok_def insn_info_of_def Let_def)
  have cov: "covered 0 0 ?st c st'"
    by (rule cover_insn_ok [unfolded cover_ok_def, rule_format, OF pok _ run]) simp
  have sel: "sel 0 ?st = {..<?n}" by (auto simp: mem_sel insn_info_of_def Let_def)
  have ops: "ops ?st = map (\<lambda>p. info_pair (insn_info_of p)) opcodes"
    by (simp add: ops_def info_pair_def comp_def)
  have ti: "ti_insn (ti st' ! j) = ti_insn (insn_info_of (opcodes ! j))"
    "ti_mask (ti st' ! j) = ti_mask (insn_info_of (opcodes ! j))" if "j < ?n" for j
  proof -
    have e: "ops st' = ops ?st" using cov by (simp add: covered_def step_ok_def)
    then have "length (ti st') = ?n" using length_ops [of st'] length_ops [of ?st] by simp
    then have "ops st' ! j = (ti_insn (ti st' ! j), ti_mask (ti st' ! j))" using that by (simp add: ops_def)
    then show "ti_insn (ti st' ! j) = ti_insn (insn_info_of (opcodes ! j))"
      "ti_mask (ti st' ! j) = ti_mask (insn_info_of (opcodes ! j))"
      using that by (simp_all add: e ops info_pair_def)
  qed
  obtain e where c: "c = Some e" and dec: "decides (automaton st') (ops ?st) e 0 {..<?n}"
    using cov sel ne by (auto simp: covered_def split: option.splits)
  have "e \<le> 2 ^ 31" "length (ops ?st) \<le> 2 ^ 31" using small c len by (auto simp: MAX_AUTOMATA_SIZE_def)
  from decides_walk [OF this dec, of w] obtain r where
    r: "decode_walk (automaton st') w 0 = Some r" "\<forall>i. r = Some i \<longrightarrow> 0 \<le> i \<and> nat i < ?n"
      "\<forall>j<?n. fixed_match (ops ?st ! j) w \<longrightarrow> r = Some (int j)"
    by auto
  have m: "fixed_match (ops ?st ! j) w \<longleftrightarrow> enc_matches (op_encoding (opcodes ! j)) w"
    and dm: "direct_match (ti st' ! j) w \<longleftrightarrow> enc_matches (op_encoding (opcodes ! j)) w" if "j < ?n" for j
    using that ok fixed_match_enc [of "opcodes ! j" w] direct_match_fixed [of "opcodes ! j" w] ti [OF that]
    by (auto simp: ops direct_match_def)
  show ?thesis
  proof (cases r)
    case None
    then show ?thesis using r m by (auto simp: insn_decode_def d)
  next
    case (Some i)
    then have i: "0 \<le> i" "nat i < ?n" using r(2) by auto
    have uniq: "j = nat i" if "j < ?n" "enc_matches (op_encoding (opcodes ! j)) w" for j
      using r(3) m that Some by auto
    show ?thesis
    proof (cases "enc_matches (op_encoding (opcodes ! nat i)) w")
      case True
      then have "insn_decode d w = Some i" using r(1) Some dm [OF i(2)] by (simp add: insn_decode_def d)
      moreover have "\<forall>j<?n. enc_matches (op_encoding (opcodes ! j)) w \<longleftrightarrow> j = nat i" using True uniq by blast
      ultimately show ?thesis using i by blast
    next
      case False
      then have "insn_decode d w = Some (- 1)" using r(1) Some dm [OF i(2)] by (simp add: insn_decode_def d)
      moreover have "\<forall>j<?n. \<not> enc_matches (op_encoding (opcodes ! j)) w" using False uniq by blast
      ultimately show ?thesis by blast
    qed
  qed
qed

subsection \<open>When the construction succeeds\<close>

text \<open>The number of cells the construction uses for a list of rows, None where it gives up: the same recursion
  without the array, on the fixed bits of the rows.\<close>

definition keyed :: "(u64 \<times> u64) list \<Rightarrow> nat \<times> nat \<Rightarrow> nat list \<Rightarrow> (nat \<times> nat) list" where
  "keyed tab w is = map (\<lambda>i. (unat (drop_bit (fst w) (fst (tab ! i)) AND win (snd w)), i)) is"

primrec pick :: "nat \<Rightarrow> (nat \<times> nat) list \<Rightarrow> nat list" where
  "pick v [] = []"
| "pick v (x # xs) = (if fst x = v then snd x # pick v xs else pick v xs)"

fun opt_add :: "nat option \<Rightarrow> nat option \<Rightarrow> nat option" where
  "opt_add (Some a) (Some b) = Some (a + b)"
| "opt_add _ _ = None"

primrec sizes :: "(nat list \<Rightarrow> nat option) \<Rightarrow> (nat \<times> nat) list \<Rightarrow> nat list \<Rightarrow> nat option" where
  "sizes rec kis [] = Some 0"
| "sizes rec kis (v # vs) = opt_add (rec (pick v kis)) (sizes rec kis vs)"

definition node_size :: "(u64 \<times> u64) list \<Rightarrow> (u32 \<Rightarrow> nat list \<Rightarrow> nat option) \<Rightarrow> nat list \<Rightarrow> u32 \<Rightarrow>
    nat \<times> nat \<Rightarrow> nat option" where
  "node_size tab rec is msk w =
     (if snd w = 0 then None
      else opt_add (Some (2 + 2 ^ snd w))
        (sizes (rec (ucast (ucast msk AND NOT (push_bit (fst w) (win (snd w))))))
           (keyed tab w is) [0..<2 ^ snd w]))"

fun cover_size :: "(u64 \<times> u64) list \<Rightarrow> nat \<Rightarrow> u32 \<Rightarrow> nat list \<Rightarrow> nat option" where
  "cover_size tab 0 msk is = None"
| "cover_size tab (Suc fuel) msk [] = Some 0"
| "cover_size tab (Suc fuel) msk [i] = Some 1"
| "cover_size tab (Suc fuel) msk (i # j # is) =
     node_size tab (cover_size tab fuel) (i # j # is) msk
       (best_window (fold (\<lambda>i m. m AND snd (tab ! i)) (i # j # is) (ucast msk)))"

lemma opt_add_Some: "opt_add a b = Some n \<longleftrightarrow> (\<exists>x y. a = Some x \<and> b = Some y \<and> n = x + y)"
  by (cases "(a, b)" rule: opt_add.cases) auto

lemma pick_filter: "pick v kis = map snd (filter (\<lambda>x. fst x = v) kis)"
  by (induction kis) auto

lemma pick_keyed:
  assumes "v < 2 ^ 8"
  shows "pick v (keyed tab (f, l) is) = filter (\<lambda>i. drop_bit f (fst (tab ! i)) AND win l = of_nat v) is"
proof -
  have "unat x = v \<longleftrightarrow> x = of_nat v" for x :: u64
    using assms by (auto simp: unat_of_nat)
  then show ?thesis by (simp add: pick_filter keyed_def filter_map comp_def)
qed

lemma of_pass_sel: "of_pass p (ti st) = filter (\<lambda>i. i \<in> sel p st) [0..<length (ti st)]"
  unfolding of_pass_def by (rule filter_cong) (auto simp: mem_sel)

lemma of_pass_cong: "sel p st = S \<Longrightarrow> of_pass p (ti st) = filter (\<lambda>i. i \<in> S) [0..<length (ti st)]"
  by (simp add: of_pass_sel)

definition sized :: "cover \<Rightarrow> (u64 \<times> u64) list \<Rightarrow> u32 \<Rightarrow> (nat list \<Rightarrow> nat option) \<Rightarrow> bool" where
  "sized rec tab msk sz \<longleftrightarrow> (\<forall>cur p st n. passes_ok st \<longrightarrow> p \<le> curpass st \<longrightarrow> ops st = tab \<longrightarrow>
     sz (of_pass p (ti st)) = Some n \<longrightarrow>
     (\<exists>r st'. rec cur p msk st = Inr (r, st') \<and> (case r of None \<Rightarrow> n = 0 | Some c \<Rightarrow> c = cur + n)))"

lemma cover_slots_sized:
  assumes rec: "cover_ok rec" and len: "len < 8"
    and sized: "sized rec tab (ucast (ucast msk AND NOT (push_bit first (win len)))) sz"
  shows "passes_ok st \<Longrightarrow> pass \<le> curpass st \<Longrightarrow> ops st = tab \<Longrightarrow>
    \<forall>j\<in>sel pass st. drop_bit first (snd (tab ! j)) AND win len = win len \<Longrightarrow>
    distinct vs \<Longrightarrow> \<forall>v\<in>set vs. v < 2 ^ len \<Longrightarrow>
    \<forall>v\<in>set vs. pick v kis = pick v (keyed tab (first, len) (of_pass pass (ti st))) \<Longrightarrow>
    sizes sz kis vs = Some n \<Longrightarrow>
    \<exists>st'. cover_slots rec pass first (win len) msk vs nxt cur st = Inr (cur + n, st')"
proof (induction vs arbitrary: nxt cur st n)
  case Nil
  then show ?case by simp
next
  case (Cons i vs)
  have fixed: "\<forall>j\<in>sel pass st. drop_bit first (snd (ops st ! j)) AND win len = win len"
    using Cons.prems(3,4) by simp
  let ?A = "slot_set (ops st) first len (sel pass st) i"
  define st1 where "st1 = claimed pass first (win len) i st"
  note cl = claimed_sel [where i = i, OF Cons.prems(1,2) fixed, folded st1_def]
  have cp: "curpass st1 = curpass st + 1" "ops st1 = ops st" "length (ti st1) = length (ti st)"
    by (simp_all add: st1_def) (simp add: claimed_def)
  have small: "v < 2 ^ 8" if "v \<in> set (i # vs)" for v
    using that Cons.prems(6) pow_small [OF len] by blast
  have "of_pass (curpass st + 1) (ti st1) = filter (\<lambda>j. j \<in> ?A) [0..<length (ti st)]"
    using of_pass_cong [OF cl(2)] cp by simp
  also have "\<dots> = pick i kis"
    using Cons.prems(3,7) small [of i]
    by (simp add: pick_keyed of_pass_sel slot_set_def conj_commute)
  finally have new: "of_pass (curpass st + 1) (ti st1) = pick i kis" .
  obtain n1 n2 where n: "sz (pick i kis) = Some n1" "sizes sz kis vs = Some n2" "n = n1 + n2"
    using Cons.prems(8) by (auto simp: opt_add_Some)
  define msk' where "msk' = (ucast (ucast msk AND NOT (push_bit first (win len))) :: u32)"
  obtain r st2 where r: "rec cur (curpass st + 1) msk' st1 = Inr (r, st2)" "case r of None \<Rightarrow> n1 = 0 | Some c \<Rightarrow> c = cur + n1"
    using sized [unfolded sized_def, rule_format, of st1 "curpass st + 1" n1 cur] cl(1) cp new n(1) Cons.prems(3)
    by (auto simp: msk'_def)
  have "covered cur (curpass st + 1) st1 r st2"
    using rec cl(1) r(1) eq_refl [OF cp(1) [symmetric]] unfolding cover_ok_def by blast
  then have ok: "step_ok (curpass st + 1) st1 st2" by (simp add: covered_def)
  then have st2: "passes_ok st2" "pass \<le> curpass st2" "ops st2 = tab" "sel pass st2 = sel pass st - ?A"
    "length (ti st2) = length (ti st)"
    using cp cl(3) Cons.prems(2,3) length_ops [of st1] length_ops [of st2] by (auto simp: step_ok_def)
  have picks: "pick v kis = pick v (keyed tab (first, len) (of_pass pass (ti st2)))" if v: "v \<in> set vs" for v
  proof -
    have "of_pass pass (ti st2) = filter (\<lambda>j. j \<in> sel pass st - ?A) [0..<length (ti st)]"
      using of_pass_cong [OF st2(4)] st2(5) by simp
    moreover have "v \<noteq> i" using v Cons.prems(5) by auto
    then have "(of_nat v :: u64) \<noteq> of_nat i" using of_nat_slot_eq small v by auto
    ultimately show ?thesis
      using Cons.prems(3,7) v small
      by (auto simp: pick_keyed of_pass_sel slot_set_def intro!: filter_cong)
  qed
  have "\<exists>st'. cover_slots rec pass first (win len) msk vs (nxt + 1) (cur + n1) (put nxt x st2) = Inr (cur + n1 + n2, st')" for x
    using st2 Cons.prems(4-6) picks n(2) by (intro Cons.IH) (simp_all del: put_def)
  then show ?case
    using r n(3)
    by (cases r) (auto simp: Let_def msk'_def [symmetric] st1_def claimed_def add.assoc)
qed

lemma fold_mask_cong:
  "\<forall>i\<in>set is. f i = g i \<Longrightarrow> fold (\<lambda>i m. m AND f i) is m = fold (\<lambda>i m. m AND (g i :: u64)) is m"
  by (induction "is" arbitrary: m) auto

lemma cover_insn_sized: "sized (cover_insn fuel) tab msk (cover_size tab fuel msk)"
proof (induction fuel arbitrary: msk)
  case 0
  then show ?case by (simp add: sized_def)
next
  case (Suc fuel)
  show ?case unfolding sized_def
  proof (intro allI impI)
    fix cur pass st n
    assume ok: "passes_ok st" and p: "pass \<le> curpass st" and tab: "ops st = tab"
      and size: "cover_size tab (Suc fuel) msk (of_pass pass (ti st)) = Some n"
    let ?sel = "of_pass pass (ti st)"
    let ?cm = "fold (\<lambda>i m. m AND snd (tab ! i)) ?sel (ucast msk)"
    have cm: "fold (\<lambda>i m. m AND ti_mask (ti st ! i)) ?sel (ucast msk) = ?cm"
      by (rule fold_mask_cong) (auto simp: of_pass_def ops_def simp flip: tab)
    consider "?sel = []" | i where "?sel = [i]" | i j xs where "?sel = i # j # xs"
      by (metis list.exhaust)
    then show "\<exists>r st'. cover_insn (Suc fuel) cur pass msk st = Inr (r, st') \<and>
        (case r of None \<Rightarrow> n = 0 | Some c \<Rightarrow> c = cur + n)"
    proof cases
      case 3
      obtain f l where w: "best_window ?cm = (f, l)" by (cases "best_window ?cm")
      have sz: "node_size tab (cover_size tab fuel) ?sel msk (f, l) = Some n"
        using size 3 w by simp
      then have l: "l \<noteq> 0" by (auto simp: node_size_def split: if_splits)
      note w' = w [folded cm]
      note wf = window_fixed(2-4) [OF w' l, of i, simplified 3]
      have fixed: "\<forall>j\<in>sel pass st. drop_bit f (snd (tab ! j)) AND win l = win l"
        using window_fixed(1) [OF w' l] by (auto simp: sel_def of_pass_def ops_def simp flip: tab)
      from sz l obtain k where k: "n = 2 + 2 ^ l + k"
        "sizes (cover_size tab fuel (ucast (ucast msk AND NOT (push_bit f (win l))))) (keyed tab (f, l) ?sel) [0..<2 ^ l] = Some k"
        by (auto simp: node_size_def opt_add_Some)
      let ?st = "put (cur + 1) (win l) (put cur (of_nat f) st)"
      obtain st' where
        "cover_slots (cover_insn fuel) pass f (win l) msk [0..<2 ^ l] (cur + 2) (cur + 2 + 2 ^ l) ?st =
           Inr (cur + 2 + 2 ^ l + k, st')"
        using cover_slots_sized [where first = f and msk = msk, OF cover_insn_ok wf(3) Suc.IH, where st = ?st and pass = pass
            and vs = "[0..<2 ^ l]" and kis = "keyed tab (f, l) ?sel" and n = k and nxt = "cur + 2"
            and cur = "cur + 2 + 2 ^ l"]
          ok p tab fixed k(2) by auto
      then have "cover_insn (Suc fuel) cur pass msk st = Inr (Some (cur + n), st')"
        using 3 w' l k(1) by (auto simp: Let_def win_def)
      then show ?thesis by simp
    qed (use size in auto)
  qed
qed

text \<open>The fixed bits of a table, and the construction on a table whose size is known.\<close>

definition op_pair :: "or32_opcode \<Rightarrow> u64 \<times> u64" where "op_pair p = info_pair (insn_info_of p)"

lemma build_automaton_succeeds:
  assumes size: "cover_size (map op_pair opcodes) 33 0xFFFFFFFF [0..<length opcodes] = Some n"
    and n: "n \<le> MAX_AUTOMATA_SIZE"
    and parse: "parse_all opcodes [] [] = Some (Inr (starts, data))"
  shows "\<exists>d. build_automaton opcodes garbage Unbuilt = Some (Inr (Built d)) \<and>
    d_op_start d = starts \<and> d_op_data d = data"
proof -
  let ?st = "\<lparr>automaton = garbage, ti = map insn_info_of opcodes, curpass = 0, nuncovered = int (length opcodes)\<rparr>"
  have "passes_ok ?st" by (simp add: passes_ok_def insn_info_of_def Let_def)
  moreover have "ops ?st = map op_pair opcodes"
    by (simp add: ops_def op_pair_def info_pair_def comp_def)
  moreover have "of_pass 0 (ti ?st) = [0..<length opcodes]"
    by (auto simp: of_pass_def insn_info_of_def Let_def intro!: filter_True)
  ultimately obtain r st' where r: "cover_insn 33 0 0 0xFFFFFFFF ?st = Inr (r, st')"
      "case r of None \<Rightarrow> n = 0 | Some c \<Rightarrow> c = 0 + n"
    using cover_insn_sized [of 33 "map op_pair opcodes" "0xFFFFFFFF", unfolded sized_def, rule_format,
        where st = ?st and p = 0 and n = n and cur = 0] size
    by auto
  have "\<not> (case r of None \<Rightarrow> False | Some c \<Rightarrow> c > MAX_AUTOMATA_SIZE)"
    using r(2) n by (auto split: option.splits)
  then show ?thesis using r(1) parse by (simp add: build_automaton_def Let_def)
qed

subsection \<open>The operand table\<close>

fun args_len :: "string \<Rightarrow> string \<Rightarrow> nat option" where
  "args_len enc [] = Some 0"
| "args_len enc (c # a) =
     (if c = CHR ''r'' \<or> c = CHR ''('' \<or> c = CHR '','' \<or> c = CHR '')'' then args_len enc a
      else if isalpha (chr_int c) then
        opt_add (map_option length (split_runs (insn_extract c enc))) (args_len enc a)
      else if c = CHR ''0'' then opt_add (Some 1) (args_len enc a)
      else None)"

definition opc_len :: "or32_opcode \<Rightarrow> nat option" where
  "opc_len p = (if op_args p = [] then Some 1 else args_len (op_encoding p) (op_args p))"

lemma length_upd_last [simp]: "length (upd_last n f xs) = length xs"
  by (simp add: upd_last_def)

lemma parse_loop_len:
  "args_len enc args = Some n \<Longrightarrow>
   \<exists>xs'. parse_loop enc args tp k xs = Some (Inr xs') \<and> length xs' = length xs + n"
proof (induction enc args tp k xs arbitrary: n rule: parse_loop.induct)
  case (2 enc c args tp k xs)
  have sym: "\<not> isalpha (chr_int CHR ''('')" "\<not> isalpha (chr_int CHR '','')" "\<not> isalpha (chr_int CHR '')'')"
    by (simp_all add: ctype_defs)
  consider "c = CHR ''r''" | "c = CHR ''(''" | "c = CHR '',''" | "c = CHR '')''"
    | "c \<noteq> CHR ''r''" "c \<noteq> CHR ''(''" "c \<noteq> CHR '',''" "c \<noteq> CHR '')''" "isalpha (chr_int c)"
    | "c = CHR ''0''" "\<not> isalpha (chr_int c)"
    using 2(7) by (auto split: if_splits)
  then show ?case
  proof cases
    case 5
    then obtain rs m where rs: "split_runs (insn_extract c enc) = Some rs" "args_len enc args = Some m" "n = length rs + m"
      using 2(7) by (auto simp: opt_add_Some)
    show ?thesis using 2(2) [OF 5(1,5) refl refl, of rs m] rs 5 by (auto simp: Let_def)
  qed (use 2 sym in \<open>auto simp: opt_add_Some\<close>)
qed simp

lemma parse_params_len:
  "opc_len p = Some n \<Longrightarrow> \<exists>xs'. parse_params p xs = Some (Inr xs') \<and> length xs' = length xs + n"
  using parse_loop_len [of "op_encoding p" "op_args p" n 0 0 xs]
  by (auto simp: opc_len_def parse_params_def split: if_splits)

lemma parse_all_len:
  "map opc_len ps = map Some ns \<Longrightarrow> length cur + sum_list ns \<le> MAX_OP_TABLE_SIZE \<Longrightarrow>
   \<exists>starts' data. parse_all ps starts cur = Some (Inr (starts', data)) \<and>
     length data = length cur + sum_list ns \<and> length starts' = length starts + length ps"
proof (induction ps arbitrary: ns starts cur)
  case (Cons p ps)
  then obtain n ns' where ns: "ns = n # ns'" "opc_len p = Some n" "map opc_len ps = map Some ns'"
    by (cases ns) auto
  obtain cur' where c: "parse_params p cur = Some (Inr cur')" "length cur' = length cur + n"
    using parse_params_len [OF ns(2), of cur] by blast
  have "\<exists>starts' data. parse_all ps (starts @ [length cur]) cur' = Some (Inr (starts', data)) \<and>
     length data = length cur' + sum_list ns' \<and> length starts' = length (starts @ [length cur]) + length ps"
    using Cons.prems(2) c(2) ns by (intro Cons.IH) auto
  then show ?case using c ns Cons.prems(2) by auto
qed simp

end
