(* ===== verification/Or32Run.thy ===== *)
theory Or32Run
  imports Or32Decode
begin

unbundle bit_operations_syntax

text \<open>
  The construction run on the simulator's own table: every encoding is well formed, the fixed bits of
  all 213 rows, the size of the automaton and of the operand table.
\<close>

subsection \<open>Stepping through an encoding\<close>

definition enc_sym :: "char \<Rightarrow> bool" where
  "enc_sym c \<longleftrightarrow> c = CHR ''0'' \<or> c = CHR ''1'' \<or> c = CHR ''-'' \<or> isalpha (chr_int c)"

lemma enc_sym_simps:
  "enc_sym CHR ''A''" "enc_sym CHR ''B''" "enc_sym CHR ''D''" "enc_sym CHR ''I''" "enc_sym CHR ''K''"
  "enc_sym CHR ''L''" "enc_sym CHR ''N''" "enc_sym CHR ''0''" "enc_sym CHR ''1''" "enc_sym CHR ''-''"
  "\<not> enc_sym CHR '' ''"
  by (simp_all add: enc_sym_def ctype_defs)

lemma letters_alpha:
  "isalpha (chr_int CHR ''A'')" "isalpha (chr_int CHR ''B'')" "isalpha (chr_int CHR ''D'')"
  "isalpha (chr_int CHR ''I'')" "isalpha (chr_int CHR ''K'')" "isalpha (chr_int CHR ''L'')"
  "isalpha (chr_int CHR ''N'')" "isalpha 65" "isalpha 66" "isalpha 68" "isalpha 73" "isalpha 75" "isalpha 76" "isalpha 78"
  by (simp_all add: ctype_defs)

lemma hex_field_simps: "hex_field (c # r) \<longleftrightarrow> c = CHR ''0'' \<and> take 1 r = ''x''"
  by (simp add: hex_field_def)

lemma extract_Nil: "extract_loop p [] pos ret = ret"
  by (subst extract_loop.simps) simp

lemma extract_blank: "extract_loop p (CHR '' '' # r) pos ret = extract_loop p r pos ret"
  by (subst extract_loop.simps) (simp add: hex_field_simps ctype_defs)

lemma extract_sym:
  "\<not> hex_field (c # r) \<Longrightarrow> enc_sym c \<Longrightarrow> p \<noteq> c
   \<Longrightarrow> extract_loop p (c # r) pos ret = extract_loop p r (pos - 1) ret"
  "\<not> hex_field (c # r) \<Longrightarrow> enc_sym c \<Longrightarrow>
     extract_loop c (c # r) pos ret = extract_loop c r (pos - 1) (ret OR int_bit (pos - 1))"
  by (subst extract_loop.simps, simp add: enc_sym_def Let_def)+

lemma extract_hex:
  "hex_digit d = Some v \<Longrightarrow> r = [] \<or> hd r = CHR '' '' \<Longrightarrow> p = CHR
   ''0'' \<or> p = CHR ''1'' \<Longrightarrow>
     extract_loop p (CHR ''0'' # CHR ''x'' # d # r) pos ret =
     extract_loop p r (pos - 4) (ret OR push_bit (unat (pos - 4)) (if p = CHR ''0'' then 15 - of_nat v else of_nat v))"
  using strtol16_digit [of d v r] by (subst extract_loop_hex) (auto simp: hex_field_simps numeral_2_eq_2 numeral_3_eq_3)

lemma hex_digit_simps:
  "hex_digit CHR ''0'' = Some 0" "hex_digit CHR ''1'' = Some 1" "hex_digit CHR ''2'' = Some 2"
  "hex_digit CHR ''3'' = Some 3" "hex_digit CHR ''4'' = Some 4" "hex_digit CHR ''5'' = Some 5"
  "hex_digit CHR ''6'' = Some 6" "hex_digit CHR ''7'' = Some 7" "hex_digit CHR ''8'' = Some 8"
  "hex_digit CHR ''9'' = Some 9" "hex_digit CHR ''A'' = Some 10" "hex_digit CHR ''B'' = Some 11"
  "hex_digit CHR ''C'' = Some 12" "hex_digit CHR ''D'' = Some 13" "hex_digit CHR ''E'' = Some 14"
  "hex_digit CHR ''F'' = Some 15"
  by (simp_all add: hex_digit_def)

lemma int_bit_simps:
   "int_bit 0 = 0x1" "int_bit 1 = 0x2" "int_bit 2 = 0x4" "int_bit 3 = 0x8"
    "int_bit 4 = 0x10" "int_bit 5 = 0x20" "int_bit 6 = 0x40" "int_bit 7 = 0x80"
    "int_bit 8 = 0x100" "int_bit 9 = 0x200" "int_bit 10 = 0x400" "int_bit 11 = 0x800"
    "int_bit 12 = 0x1000" "int_bit 13 = 0x2000" "int_bit 14 = 0x4000" "int_bit 15 = 0x8000"
    "int_bit 16 = 0x10000" "int_bit 17 = 0x20000" "int_bit 18 = 0x40000" "int_bit 19 = 0x80000"
    "int_bit 20 = 0x100000" "int_bit 21 = 0x200000" "int_bit 22 = 0x400000" "int_bit 23 = 0x800000"
    "int_bit 24 = 0x1000000" "int_bit 25 = 0x2000000" "int_bit 26 = 0x4000000" "int_bit 27 = 0x8000000"
    "int_bit 28 = 0x10000000" "int_bit 29 = 0x20000000" "int_bit 30 = 0x40000000" "int_bit 31 = 0xFFFFFFFF80000000"
  by (simp_all add: int_bit_def)

lemmas extract_eval =
  insn_extract_def extract_Nil extract_blank extract_sym extract_hex hex_field_simps enc_sym_simps
   hex_digit_simps int_bit_simps

subsection \<open>The fixed bits of the rows\<close>

lemma op_pair_opc:
  "op_pair (opc n a e f fl u) = (let ones = insn_extract CHR ''1'' e in (ones, ones OR insn_extract CHR ''0'' e))"
  by (simp add: op_pair_def info_pair_def insn_info_of_def Let_def)

lemma extract_letter:
  "p \<noteq> CHR ''0'' \<Longrightarrow> p \<noteq> CHR ''1'' \<Longrightarrow>
   extract_loop p (CHR ''0'' # CHR ''x'' # d # r) pos ret = extract_loop p r (pos - 4) ret"
  by (subst extract_loop.simps) (simp add: hex_field_simps Let_def)

lemma hex_fields_Cons:
  "\<not> hex_field (c # r) \<Longrightarrow> hex_fields_ok (c # r) = hex_fields_ok r"
  "hex_fields_ok []"
  by (subst hex_fields_ok.simps, simp)+

lemma hex_fields_hex:
  "hex_digit d = Some v \<Longrightarrow> r = [] \<or> hd r = CHR '' '' \<Longrightarrow>
     hex_fields_ok (CHR ''0'' # CHR ''x'' # d # r) = hex_fields_ok r"
  by (subst hex_fields_ok.simps, cases r) (simp_all add: hex_field_simps)

definition enc_len :: "nat \<Rightarrow> string \<Rightarrow> nat" where "enc_len n e = n + length (enc_bits e)"

lemma enc_bits_blank: "enc_bits [] = []" "enc_bits (CHR '' '' # r) = enc_bits r"
  by (subst enc_bits.simps, simp add: hex_field_simps ctype_defs)+

lemma enc_bits_sym:
  "\<not> hex_field (c # r) \<Longrightarrow> enc_sym c \<Longrightarrow> length (enc_bits (c # r))
   = Suc (length (enc_bits r))"
  by (subst enc_bits.simps) (auto simp: enc_sym_def)

lemma enc_bits_hex:
  "hex_digit d = Some v \<Longrightarrow> length (enc_bits (CHR ''0'' # CHR ''x'' # d # r)) = length (enc_bits r) + 4"
  by (subst enc_bits.simps) (simp add: hex_field_simps)

lemma enc_len_simps:
  "enc_len n [] = n" "enc_len n (CHR '' '' # r) = enc_len n r"
  "\<not> hex_field (c # r) \<Longrightarrow> enc_sym c \<Longrightarrow> enc_len n (c # r) = enc_len (n + 1) r"
  "hex_digit d = Some v \<Longrightarrow> enc_len n (CHR ''0'' # CHR ''x'' # d # r) = enc_len (n + 4) r"
  by (simp_all add: enc_len_def enc_bits_blank enc_bits_sym enc_bits_hex)

lemma enc_ok_eval:
  "enc_ok enc \<longleftrightarrow> enc \<noteq> [] \<and> (hd enc = CHR ''0'' \<or> hd enc = CHR
   ''1'') \<and> \<not> hex_field enc \<and>
     enc_len 0 enc = 32 \<and> hex_fields_ok enc"
  by (auto simp: enc_ok_def enc_len_def)

lemmas enc_eval = enc_ok_eval enc_len_simps hex_fields_Cons hex_fields_hex hex_field_simps enc_sym_simps hex_digit_simps

subsection \<open>Runs of the operand letters\<close>

lemma split_runs_0: "split_runs 0 = Some []"
  by (simp add: split_runs.simps)

lemmas run_simps = skip_zeros.simps count_ones.simps clear_run_def split_runs_0

lemma split_runs_values:
  "split_runs 0x1F = Some [(0, 5)]" "split_runs 0x3F = Some [(0, 6)]" "split_runs 0x7E0 = Some [(5, 6)]"
  "split_runs 0xF800 = Some [(11, 5)]" "split_runs 0xFFFF = Some [(0, 16)]"
  "split_runs 0x1F0000 = Some [(16, 5)]" "split_runs 0x3E00000 = Some [(21, 5)]"
  "split_runs 0x3FFFFFF = Some [(0, 26)]"
  by (subst split_runs.simps, simp add: run_simps)+

lemma split_runs_store: "split_runs 0x3E007FF = Some [(0, 11), (21, 5)]"
  by (subst split_runs.simps) (simp add: run_simps split_runs_values)

lemmas args_eval = opc_len_def letters_alpha extract_letter extract_eval split_runs_values split_runs_store

text \<open>Two shapes cover half of the table: the vector and the floating-point rows.\<close>

lemma vec_row [unfolded append_Cons append_Nil]:
  "opc_len (opc n ''rD,rA,rB'' (''00 0xA  DDDDD AAAAA BBBB B--- 0x'' @ h1 # '' 0x'' @ [h2]) f fl u) = Some 3"
  "hex_digit h1 = Some v1 \<Longrightarrow> hex_digit h2 = Some v2 \<Longrightarrow>
     enc_ok (''00 0xA  DDDDD AAAAA BBBB B--- 0x'' @ h1 # '' 0x'' @ [h2])"
  by (simp_all add: args_eval enc_eval)

lemma vec_pair [unfolded append_Cons append_Nil]:
  "hex_digit h1 = Some v1 \<Longrightarrow> hex_digit h2 = Some v2 \<Longrightarrow>
   op_pair (opc n a (''00 0xA  DDDDD AAAAA BBBB B--- 0x'' @ h1 # '' 0x'' @ [h2]) f fl u) =
     (((0x28000000 OR push_bit 4 (of_nat v1)) OR of_nat v2),
      ((0x28000000 OR push_bit 4 (of_nat v1)) OR of_nat v2) OR
      ((0xFFFFFFFFD4000000 OR push_bit 4 (15 - of_nat v1)) OR (15 - of_nat v2)))"
  by (simp add: op_pair_opc Let_def extract_eval)

lemma flt_row [unfolded append_Cons append_Nil]:
  "opc_len (opc n ''rD,rA,rB'' (''11 0x2  DDDDD AAAAA BBBB B--- 0x'' @ h1 # '' 0x'' @ [h2]) f fl u) = Some 3"
  "hex_digit h1 = Some v1 \<Longrightarrow> hex_digit h2 = Some v2 \<Longrightarrow>
     enc_ok (''11 0x2  DDDDD AAAAA BBBB B--- 0x'' @ h1 # '' 0x'' @ [h2])"
  by (simp_all add: args_eval enc_eval)

lemma flt_pair [unfolded append_Cons append_Nil]:
  "hex_digit h1 = Some v1 \<Longrightarrow> hex_digit h2 = Some v2 \<Longrightarrow>
   op_pair (opc n a (''11 0x2  DDDDD AAAAA BBBB B--- 0x'' @ h1 # '' 0x'' @ [h2]) f fl u) =
     (((0xFFFFFFFFC8000000 OR push_bit 4 (of_nat v1)) OR of_nat v2),
      ((0xFFFFFFFFC8000000 OR push_bit 4 (of_nat v1)) OR of_nat v2) OR
      ((0x34000000 OR push_bit 4 (15 - of_nat v1)) OR (15 - of_nat v2)))"
  by (simp add: op_pair_opc Let_def extract_eval)

definition fixed_control :: "(u64 \<times> u64) list" where
  "fixed_control =
   [(0x0, 0xFFFFFFFFFC000000), (0x4000000, 0xFFFFFFFFFC000000), (0xC000000, 0xFFFFFFFFFC000000),
    (0x10000000, 0xFFFFFFFFFC000000), (0x15000000, 0xFFFFFFFFFF000000),
    (0x18000000, 0xFFFFFFFFFC010000), (0x18010000, 0xFFFFFFFFFC01FFFF),
    (0x20000000, 0xFFFFFFFFFFFF0000), (0x21000000, 0xFFFFFFFFFFFF0000),
    (0x22000000, 0xFFFFFFFFFFFFFFFF), (0x22800000, 0xFFFFFFFFFFFFFFFF),
    (0x23000000, 0xFFFFFFFFFFFFFFFF), (0x24000000, 0xFFFFFFFFFC000000)]"

lemma pairs_control: "map op_pair or32_ops_control = fixed_control"
  by (simp only: or32_ops_control_def fixed_control_def list.map vec_pair flt_pair hex_digit_simps)
    (simp add: op_pair_opc extract_eval)

lemma enc_control: "list_all (\<lambda>p. enc_ok (op_encoding p)) or32_ops_control"
  by (simp only: or32_ops_control_def list.pred_inject or32_opcode.simps vec_row(2) flt_row(2) hex_digit_simps simp_thms)
    (simp add: enc_eval)

lemma lens_control:
  "map opc_len or32_ops_control = map Some
    [1, 1, 1, 1, 1, 2, 1, 1, 1, 1, 1, 1, 1]"
  by (simp only: or32_ops_control_def list.map vec_row(1) flt_row(1))
    (simp add: args_eval)

definition fixed_vector_cmp :: "(u64 \<times> u64) list" where
  "fixed_vector_cmp =
   [(0x28000010, 0xFFFFFFFFFC0000FF), (0x28000011, 0xFFFFFFFFFC0000FF),
    (0x28000012, 0xFFFFFFFFFC0000FF), (0x28000013, 0xFFFFFFFFFC0000FF),
    (0x28000014, 0xFFFFFFFFFC0000FF), (0x28000015, 0xFFFFFFFFFC0000FF),
    (0x28000016, 0xFFFFFFFFFC0000FF), (0x28000017, 0xFFFFFFFFFC0000FF),
    (0x28000018, 0xFFFFFFFFFC0000FF), (0x28000019, 0xFFFFFFFFFC0000FF),
    (0x2800001A, 0xFFFFFFFFFC0000FF), (0x2800001B, 0xFFFFFFFFFC0000FF),
    (0x28000020, 0xFFFFFFFFFC0000FF), (0x28000021, 0xFFFFFFFFFC0000FF),
    (0x28000022, 0xFFFFFFFFFC0000FF), (0x28000023, 0xFFFFFFFFFC0000FF),
    (0x28000024, 0xFFFFFFFFFC0000FF), (0x28000025, 0xFFFFFFFFFC0000FF),
    (0x28000026, 0xFFFFFFFFFC0000FF), (0x28000027, 0xFFFFFFFFFC0000FF),
    (0x28000028, 0xFFFFFFFFFC0000FF), (0x28000029, 0xFFFFFFFFFC0000FF),
    (0x2800002A, 0xFFFFFFFFFC0000FF), (0x2800002B, 0xFFFFFFFFFC0000FF)]"

lemma pairs_vector_cmp: "map op_pair or32_ops_vector_cmp = fixed_vector_cmp"
  by (simp only: or32_ops_vector_cmp_def fixed_vector_cmp_def list.map vec_pair flt_pair hex_digit_simps)
    (simp add: op_pair_opc extract_eval)

lemma enc_vector_cmp: "list_all (\<lambda>p. enc_ok (op_encoding p)) or32_ops_vector_cmp"
  by (simp only: or32_ops_vector_cmp_def list.pred_inject or32_opcode.simps vec_row(2) flt_row(2) hex_digit_simps simp_thms)

lemma lens_vector_cmp:
  "map opc_len or32_ops_vector_cmp = map Some
    [3, 3, 3, 3, 3, 3, 3, 3, 3, 3, 3, 3, 3, 3, 3, 3, 3, 3, 3, 3, 3, 3, 3, 3]"
  by (simp only: or32_ops_vector_cmp_def list.map vec_row(1) flt_row(1))

definition fixed_vector :: "(u64 \<times> u64) list" where
  "fixed_vector =
   [(0x28000030, 0xFFFFFFFFFC0000FF), (0x28000031, 0xFFFFFFFFFC0000FF),
    (0x28000032, 0xFFFFFFFFFC0000FF), (0x28000033, 0xFFFFFFFFFC0000FF),
    (0x28000034, 0xFFFFFFFFFC0000FF), (0x28000035, 0xFFFFFFFFFC0000FF),
    (0x28000036, 0xFFFFFFFFFC0000FF), (0x28000037, 0xFFFFFFFFFC0000FF),
    (0x28000038, 0xFFFFFFFFFC0000FF), (0x28000039, 0xFFFFFFFFFC0000FF),
    (0x2800003A, 0xFFFFFFFFFC0000FF), (0x28000040, 0xFFFFFFFFFC0000FF),
    (0x28000041, 0xFFFFFFFFFC0000FF), (0x28000042, 0xFFFFFFFFFC0000FF),
    (0x28000043, 0xFFFFFFFFFC0000FF), (0x28000044, 0xFFFFFFFFFC0000FF),
    (0x28000045, 0xFFFFFFFFFC0000FF), (0x28000046, 0xFFFFFFFFFC0000FF),
    (0x28000047, 0xFFFFFFFFFC0000FF), (0x28000048, 0xFFFFFFFFFC0000FF),
    (0x28000049, 0xFFFFFFFFFC0000FF), (0x2800004A, 0xFFFFFFFFFC0000FF),
    (0x2800004B, 0xFFFFFFFFFC0000FF), (0x28000054, 0xFFFFFFFFFC0000FF),
    (0x28000055, 0xFFFFFFFFFC0000FF), (0x28000056, 0xFFFFFFFFFC0000FF),
    (0x28000057, 0xFFFFFFFFFC0000FF), (0x28000058, 0xFFFFFFFFFC0000FF),
    (0x28000059, 0xFFFFFFFFFC0000FF), (0x2800005A, 0xFFFFFFFFFC0000FF),
    (0x2800005B, 0xFFFFFFFFFC0000FF), (0x2800005C, 0xFFFFFFFFFC0000FF),
    (0x2800005D, 0xFFFFFFFFFC0000FF), (0x2800005E, 0xFFFFFFFFFC0000FF),
    (0x2800005F, 0xFFFFFFFFFC0000FF)]"

lemma pairs_vector: "map op_pair or32_ops_vector = fixed_vector"
  by (simp only: or32_ops_vector_def fixed_vector_def list.map vec_pair flt_pair hex_digit_simps)
    (simp add: op_pair_opc extract_eval)

lemma enc_vector: "list_all (\<lambda>p. enc_ok (op_encoding p)) or32_ops_vector"
  by (simp only: or32_ops_vector_def list.pred_inject or32_opcode.simps vec_row(2) flt_row(2) hex_digit_simps simp_thms)

lemma lens_vector:
  "map opc_len or32_ops_vector = map Some
    [3, 3, 3, 3, 3, 3, 3, 3, 3, 3, 3, 3, 3, 3, 3, 3, 3, 3, 3, 3, 3, 3, 3, 3, 3, 3, 3, 3, 3, 3, 3, 
     3, 3, 3, 3]"
  by (simp only: or32_ops_vector_def list.map vec_row(1) flt_row(1))

definition fixed_vector2 :: "(u64 \<times> u64) list" where
  "fixed_vector2 =
   [(0x28000060, 0xFFFFFFFFFC0000FF), (0x28000061, 0xFFFFFFFFFC0000FF),
    (0x28000062, 0xFFFFFFFFFC0000FF), (0x28000063, 0xFFFFFFFFFC0000FF),
    (0x28000064, 0xFFFFFFFFFC0000FF), (0x28000065, 0xFFFFFFFFFC0000FF),
    (0x28000066, 0xFFFFFFFFFC0000FF), (0x28000067, 0xFFFFFFFFFC0000FF),
    (0x28000068, 0xFFFFFFFFFC0000FF), (0x28000069, 0xFFFFFFFFFC0000FF),
    (0x2800006A, 0xFFFFFFFFFC0000FF), (0x2800006B, 0xFFFFFFFFFC0000FF),
    (0x2800006C, 0xFFFFFFFFFC0000FF), (0x2800006D, 0xFFFFFFFFFC0000FF),
    (0x2800006E, 0xFFFFFFFFFC0000FF), (0x2800006F, 0xFFFFFFFFFC0000FF),
    (0x28000070, 0xFFFFFFFFFC0000FF), (0x28000071, 0xFFFFFFFFFC0000FF),
    (0x28000072, 0xFFFFFFFFFC0000FF), (0x28000073, 0xFFFFFFFFFC0000FF),
    (0x28000074, 0xFFFFFFFFFC0000FF), (0x28000075, 0xFFFFFFFFFC0000FF),
    (0x28000076, 0xFFFFFFFFFC0000FF), (0x28000077, 0xFFFFFFFFFC0000FF),
    (0x28000078, 0xFFFFFFFFFC0000FF), (0x28000079, 0xFFFFFFFFFC0000FF),
    (0x2800007A, 0xFFFFFFFFFC0000FF), (0x2800007B, 0xFFFFFFFFFC0000FF),
    (0x280000C0, 0xFFFFFFFFFC0000F0), (0x280000D0, 0xFFFFFFFFFC0000F0),
    (0x280000E0, 0xFFFFFFFFFC0000F0), (0x280000F0, 0xFFFFFFFFFC0000F0)]"

lemma pairs_vector2: "map op_pair or32_ops_vector2 = fixed_vector2"
  by (simp only: or32_ops_vector2_def fixed_vector2_def list.map vec_pair flt_pair hex_digit_simps)
    (simp add: op_pair_opc extract_eval)

lemma enc_vector2: "list_all (\<lambda>p. enc_ok (op_encoding p)) or32_ops_vector2"
  by (simp only: or32_ops_vector2_def list.pred_inject or32_opcode.simps vec_row(2) flt_row(2) hex_digit_simps simp_thms)
    (simp add: enc_eval)

lemma lens_vector2:
  "map opc_len or32_ops_vector2 = map Some
    [3, 3, 3, 3, 3, 3, 3, 3, 3, 3, 3, 3, 3, 3, 3, 3, 3, 3, 3, 3, 3, 3, 3, 3, 3, 3, 3, 3, 1, 1, 1, 
     1]"
  by (simp only: or32_ops_vector2_def list.map vec_row(1) flt_row(1))
    (simp add: args_eval)

definition fixed_jump :: "(u64 \<times> u64) list" where
  "fixed_jump =
   [(0x44000000, 0xFFFFFFFFFC000000), (0x48000000, 0xFFFFFFFFFC000000),
    (0x4C000000, 0xFFFFFFFFFC000000), (0x70000000, 0xFFFFFFFFFC000000),
    (0x74000000, 0xFFFFFFFFFC000000), (0x78000000, 0xFFFFFFFFFC000000),
    (0x7C000000, 0xFFFFFFFFFC000000)]"

lemma pairs_jump: "map op_pair or32_ops_jump = fixed_jump"
  by (simp only: or32_ops_jump_def fixed_jump_def list.map vec_pair flt_pair hex_digit_simps)
    (simp add: op_pair_opc extract_eval)

lemma enc_jump: "list_all (\<lambda>p. enc_ok (op_encoding p)) or32_ops_jump"
  by (simp only: or32_ops_jump_def list.pred_inject or32_opcode.simps vec_row(2) flt_row(2) hex_digit_simps simp_thms)
    (simp add: enc_eval)

lemma lens_jump:
  "map opc_len or32_ops_jump = map Some
    [1, 1, 3, 1, 1, 1, 1]"
  by (simp only: or32_ops_jump_def list.map vec_row(1) flt_row(1))
    (simp add: args_eval)

definition fixed_load :: "(u64 \<times> u64) list" where
  "fixed_load =
   [(0xFFFFFFFF80000000, 0xFFFFFFFFFC000000), (0xFFFFFFFF84000000, 0xFFFFFFFFFC000000),
    (0xFFFFFFFF88000000, 0xFFFFFFFFFC000000), (0xFFFFFFFF8C000000, 0xFFFFFFFFFC000000),
    (0xFFFFFFFF90000000, 0xFFFFFFFFFC000000), (0xFFFFFFFF94000000, 0xFFFFFFFFFC000000),
    (0xFFFFFFFF98000000, 0xFFFFFFFFFC000000)]"

lemma pairs_load: "map op_pair or32_ops_load = fixed_load"
  by (simp only: or32_ops_load_def fixed_load_def list.map vec_pair flt_pair hex_digit_simps)
    (simp add: op_pair_opc extract_eval)

lemma enc_load: "list_all (\<lambda>p. enc_ok (op_encoding p)) or32_ops_load"
  by (simp only: or32_ops_load_def list.pred_inject or32_opcode.simps vec_row(2) flt_row(2) hex_digit_simps simp_thms)
    (simp add: enc_eval)

lemma lens_load:
  "map opc_len or32_ops_load = map Some
    [3, 3, 3, 3, 3, 3, 3]"
  by (simp only: or32_ops_load_def list.map vec_row(1) flt_row(1))
    (simp add: args_eval)

definition fixed_imm :: "(u64 \<times> u64) list" where
  "fixed_imm =
   [(0xFFFFFFFF9C000000, 0xFFFFFFFFFC000000), (0xFFFFFFFFA0000000, 0xFFFFFFFFFC000000),
    (0xFFFFFFFFA4000000, 0xFFFFFFFFFC000000), (0xFFFFFFFFA8000000, 0xFFFFFFFFFC000000),
    (0xFFFFFFFFAC000000, 0xFFFFFFFFFC000000), (0xFFFFFFFFB0000000, 0xFFFFFFFFFC000000),
    (0xFFFFFFFFB4000000, 0xFFFFFFFFFC000000), (0xFFFFFFFFB8000000, 0xFFFFFFFFFC0000C0),
    (0xFFFFFFFFB8000040, 0xFFFFFFFFFC0000C0), (0xFFFFFFFFB8000080, 0xFFFFFFFFFC0000C0),
    (0xFFFFFFFFB80000C0, 0xFFFFFFFFFC0000C0)]"

lemma pairs_imm: "map op_pair or32_ops_imm = fixed_imm"
  by (simp only: or32_ops_imm_def fixed_imm_def list.map vec_pair flt_pair hex_digit_simps)
    (simp add: op_pair_opc extract_eval)

lemma enc_imm: "list_all (\<lambda>p. enc_ok (op_encoding p)) or32_ops_imm"
  by (simp only: or32_ops_imm_def list.pred_inject or32_opcode.simps vec_row(2) flt_row(2) hex_digit_simps simp_thms)
    (simp add: enc_eval)

lemma lens_imm:
  "map opc_len or32_ops_imm = map Some
    [3, 3, 3, 3, 3, 3, 3, 3, 3, 3, 3]"
  by (simp only: or32_ops_imm_def list.map vec_row(1) flt_row(1))
    (simp add: args_eval)

definition fixed_cmp_imm :: "(u64 \<times> u64) list" where
  "fixed_cmp_imm =
   [(0xFFFFFFFFBC000000, 0xFFFFFFFFFFE00000), (0xFFFFFFFFBC200000, 0xFFFFFFFFFFE00000),
    (0xFFFFFFFFBC400000, 0xFFFFFFFFFFE00000), (0xFFFFFFFFBC600000, 0xFFFFFFFFFFE00000),
    (0xFFFFFFFFBC800000, 0xFFFFFFFFFFE00000), (0xFFFFFFFFBCA00000, 0xFFFFFFFFFFE00000),
    (0xFFFFFFFFBD400000, 0xFFFFFFFFFFE00000), (0xFFFFFFFFBD600000, 0xFFFFFFFFFFE00000),
    (0xFFFFFFFFBD800000, 0xFFFFFFFFFFE00000), (0xFFFFFFFFBDA00000, 0xFFFFFFFFFFE00000)]"

lemma pairs_cmp_imm: "map op_pair or32_ops_cmp_imm = fixed_cmp_imm"
  by (simp only: or32_ops_cmp_imm_def fixed_cmp_imm_def list.map vec_pair flt_pair hex_digit_simps)
    (simp add: op_pair_opc extract_eval)

lemma enc_cmp_imm: "list_all (\<lambda>p. enc_ok (op_encoding p)) or32_ops_cmp_imm"
  by (simp only: or32_ops_cmp_imm_def list.pred_inject or32_opcode.simps vec_row(2) flt_row(2) hex_digit_simps simp_thms)
    (simp add: enc_eval)

lemma lens_cmp_imm:
  "map opc_len or32_ops_cmp_imm = map Some
    [2, 2, 2, 2, 2, 2, 2, 2, 2, 2]"
  by (simp only: or32_ops_cmp_imm_def list.map vec_row(1) flt_row(1))
    (simp add: args_eval)

definition fixed_mac :: "(u64 \<times> u64) list" where
  "fixed_mac =
   [(0xFFFFFFFFC0000000, 0xFFFFFFFFFC000000), (0xFFFFFFFFC4000001, 0xFFFFFFFFFC00000F),
    (0xFFFFFFFFC4000002, 0xFFFFFFFFFC00000F)]"

lemma pairs_mac: "map op_pair or32_ops_mac = fixed_mac"
  by (simp only: or32_ops_mac_def fixed_mac_def list.map vec_pair flt_pair hex_digit_simps)
    (simp add: op_pair_opc extract_eval)

lemma enc_mac: "list_all (\<lambda>p. enc_ok (op_encoding p)) or32_ops_mac"
  by (simp only: or32_ops_mac_def list.pred_inject or32_opcode.simps vec_row(2) flt_row(2) hex_digit_simps simp_thms)
    (simp add: enc_eval)

lemma lens_mac:
  "map opc_len or32_ops_mac = map Some
    [4, 2, 2]"
  by (simp only: or32_ops_mac_def list.map vec_row(1) flt_row(1))
    (simp add: args_eval)

definition fixed_float :: "(u64 \<times> u64) list" where
  "fixed_float =
   [(0xFFFFFFFFC8000000, 0xFFFFFFFFFC0000FF), (0xFFFFFFFFC8000001, 0xFFFFFFFFFC0000FF),
    (0xFFFFFFFFC8000002, 0xFFFFFFFFFC0000FF), (0xFFFFFFFFC8000003, 0xFFFFFFFFFC0000FF),
    (0xFFFFFFFFC8000004, 0xFFFFFFFFFC00F8FF), (0xFFFFFFFFC8000005, 0xFFFFFFFFFC00F8FF),
    (0xFFFFFFFFC8000006, 0xFFFFFFFFFC0000FF), (0xFFFFFFFFC8000007, 0xFFFFFFFFFC0000FF),
    (0xFFFFFFFFC8000008, 0xFFFFFFFFFC0000FF), (0xFFFFFFFFC8000009, 0xFFFFFFFFFC0000FF),
    (0xFFFFFFFFC800000A, 0xFFFFFFFFFC0000FF), (0xFFFFFFFFC800000B, 0xFFFFFFFFFC0000FF),
    (0xFFFFFFFFC800000C, 0xFFFFFFFFFC0000FF), (0xFFFFFFFFC800000D, 0xFFFFFFFFFC0000FF),
    (0xFFFFFFFFC80000D0, 0xFFFFFFFFFC0000F0)]"

lemma pairs_float: "map op_pair or32_ops_float = fixed_float"
  by (simp only: or32_ops_float_def fixed_float_def list.map vec_pair flt_pair hex_digit_simps)
    (simp add: op_pair_opc extract_eval)

lemma enc_float: "list_all (\<lambda>p. enc_ok (op_encoding p)) or32_ops_float"
  by (simp only: or32_ops_float_def list.pred_inject or32_opcode.simps vec_row(2) flt_row(2) hex_digit_simps simp_thms)
    (simp add: enc_eval)

lemma lens_float:
  "map opc_len or32_ops_float = map Some
    [3, 3, 3, 3, 2, 2, 3, 3, 2, 2, 2, 2, 2, 2, 2]"
  by (simp only: or32_ops_float_def list.map vec_row(1) flt_row(1))
    (simp add: args_eval)

definition fixed_double :: "(u64 \<times> u64) list" where
  "fixed_double =
   [(0xFFFFFFFFC8000010, 0xFFFFFFFFFC0000FF), (0xFFFFFFFFC8000011, 0xFFFFFFFFFC0000FF),
    (0xFFFFFFFFC8000012, 0xFFFFFFFFFC0000FF), (0xFFFFFFFFC8000013, 0xFFFFFFFFFC0000FF),
    (0xFFFFFFFFC8000014, 0xFFFFFFFFFC00F8FF), (0xFFFFFFFFC8000015, 0xFFFFFFFFFC00F8FF),
    (0xFFFFFFFFC8000016, 0xFFFFFFFFFC0000FF), (0xFFFFFFFFC8000017, 0xFFFFFFFFFC0000FF),
    (0xFFFFFFFFC8000018, 0xFFFFFFFFFC0000FF), (0xFFFFFFFFC8000019, 0xFFFFFFFFFC0000FF),
    (0xFFFFFFFFC800001A, 0xFFFFFFFFFC0000FF), (0xFFFFFFFFC800001B, 0xFFFFFFFFFC0000FF),
    (0xFFFFFFFFC800001C, 0xFFFFFFFFFC0000FF), (0xFFFFFFFFC800001D, 0xFFFFFFFFFC0000FF),
    (0xFFFFFFFFC80000E0, 0xFFFFFFFFFC0000F0)]"

lemma pairs_double: "map op_pair or32_ops_double = fixed_double"
  by (simp only: or32_ops_double_def fixed_double_def list.map vec_pair flt_pair hex_digit_simps)
    (simp add: op_pair_opc extract_eval)

lemma enc_double: "list_all (\<lambda>p. enc_ok (op_encoding p)) or32_ops_double"
  by (simp only: or32_ops_double_def list.pred_inject or32_opcode.simps vec_row(2) flt_row(2) hex_digit_simps simp_thms)
    (simp add: enc_eval)

lemma lens_double:
  "map opc_len or32_ops_double = map Some
    [3, 3, 3, 3, 2, 2, 3, 3, 2, 2, 2, 2, 2, 2, 2]"
  by (simp only: or32_ops_double_def list.map vec_row(1) flt_row(1))
    (simp add: args_eval)

definition fixed_store :: "(u64 \<times> u64) list" where
  "fixed_store =
   [(0xFFFFFFFFD0000000, 0xFFFFFFFFFC000000), (0xFFFFFFFFD4000000, 0xFFFFFFFFFC000000),
    (0xFFFFFFFFD8000000, 0xFFFFFFFFFC000000), (0xFFFFFFFFDC000000, 0xFFFFFFFFFC000000)]"

lemma pairs_store: "map op_pair or32_ops_store = fixed_store"
  by (simp only: or32_ops_store_def fixed_store_def list.map vec_pair flt_pair hex_digit_simps)
    (simp add: op_pair_opc extract_eval)

lemma enc_store: "list_all (\<lambda>p. enc_ok (op_encoding p)) or32_ops_store"
  by (simp only: or32_ops_store_def list.pred_inject or32_opcode.simps vec_row(2) flt_row(2) hex_digit_simps simp_thms)
    (simp add: enc_eval)

lemma lens_store:
  "map opc_len or32_ops_store = map Some
    [4, 4, 4, 4]"
  by (simp only: or32_ops_store_def list.map vec_row(1) flt_row(1))
    (simp add: args_eval)

definition fixed_alu :: "(u64 \<times> u64) list" where
  "fixed_alu =
   [(0xFFFFFFFFE0000000, 0xFFFFFFFFFC00030F), (0xFFFFFFFFE0000001, 0xFFFFFFFFFC00030F),
    (0xFFFFFFFFE0000002, 0xFFFFFFFFFC00030F), (0xFFFFFFFFE0000003, 0xFFFFFFFFFC00030F),
    (0xFFFFFFFFE0000004, 0xFFFFFFFFFC00030F), (0xFFFFFFFFE0000005, 0xFFFFFFFFFC00030F),
    (0xFFFFFFFFE0000306, 0xFFFFFFFFFC00030F), (0xFFFFFFFFE0000008, 0xFFFFFFFFFC0003CF),
    (0xFFFFFFFFE0000048, 0xFFFFFFFFFC0003CF), (0xFFFFFFFFE0000088, 0xFFFFFFFFFC0003CF),
    (0xFFFFFFFFE00000C8, 0xFFFFFFFFFC0003CF), (0xFFFFFFFFE0000309, 0xFFFFFFFFFC00030F),
    (0xFFFFFFFFE000030A, 0xFFFFFFFFFC00030F), (0xFFFFFFFFE000030B, 0xFFFFFFFFFC00030F),
    (0xFFFFFFFFE000004C, 0xFFFFFFFFFC0003CF), (0xFFFFFFFFE000000C, 0xFFFFFFFFFC0003CF),
    (0xFFFFFFFFE000000D, 0xFFFFFFFFFC0003CF), (0xFFFFFFFFE00000CC, 0xFFFFFFFFFC0003CF),
    (0xFFFFFFFFE000008C, 0xFFFFFFFFFC0003CF), (0xFFFFFFFFE000004D, 0xFFFFFFFFFC0003CF),
    (0xFFFFFFFFE000000E, 0xFFFFFFFFFC00030F), (0xFFFFFFFFE000000F, 0xFFFFFFFFFC00030F),
    (0xFFFFFFFFE000010F, 0xFFFFFFFFFC00030F)]"

lemma pairs_alu: "map op_pair or32_ops_alu = fixed_alu"
  by (simp only: or32_ops_alu_def fixed_alu_def list.map vec_pair flt_pair hex_digit_simps)
    (simp add: op_pair_opc extract_eval)

lemma enc_alu: "list_all (\<lambda>p. enc_ok (op_encoding p)) or32_ops_alu"
  by (simp only: or32_ops_alu_def list.pred_inject or32_opcode.simps vec_row(2) flt_row(2) hex_digit_simps simp_thms)
    (simp add: enc_eval)

lemma lens_alu:
  "map opc_len or32_ops_alu = map Some
    [3, 3, 3, 3, 3, 3, 3, 3, 3, 3, 3, 3, 3, 3, 2, 2, 2, 2, 2, 2, 3, 2, 2]"
  by (simp only: or32_ops_alu_def list.map vec_row(1) flt_row(1))
    (simp add: args_eval)

definition fixed_cmp :: "(u64 \<times> u64) list" where
  "fixed_cmp =
   [(0xFFFFFFFFE4000000, 0xFFFFFFFFFFE00000), (0xFFFFFFFFE4200000, 0xFFFFFFFFFFE00000),
    (0xFFFFFFFFE4400000, 0xFFFFFFFFFFE00000), (0xFFFFFFFFE4600000, 0xFFFFFFFFFFE00000),
    (0xFFFFFFFFE4800000, 0xFFFFFFFFFFE00000), (0xFFFFFFFFE4A00000, 0xFFFFFFFFFFE00000),
    (0xFFFFFFFFE5400000, 0xFFFFFFFFFFE00000), (0xFFFFFFFFE5600000, 0xFFFFFFFFFFE00000),
    (0xFFFFFFFFE5800000, 0xFFFFFFFFFFE00000), (0xFFFFFFFFE5A00000, 0xFFFFFFFFFFE00000)]"

lemma pairs_cmp: "map op_pair or32_ops_cmp = fixed_cmp"
  by (simp only: or32_ops_cmp_def fixed_cmp_def list.map vec_pair flt_pair hex_digit_simps)
    (simp add: op_pair_opc extract_eval)

lemma enc_cmp: "list_all (\<lambda>p. enc_ok (op_encoding p)) or32_ops_cmp"
  by (simp only: or32_ops_cmp_def list.pred_inject or32_opcode.simps vec_row(2) flt_row(2) hex_digit_simps simp_thms)
    (simp add: enc_eval)

lemma lens_cmp:
  "map opc_len or32_ops_cmp = map Some
    [2, 2, 2, 2, 2, 2, 2, 2, 2, 2]"
  by (simp only: or32_ops_cmp_def list.map vec_row(1) flt_row(1))
    (simp add: args_eval)

definition fixed_custom :: "(u64 \<times> u64) list" where
  "fixed_custom =
   [(0xFFFFFFFFF0000000, 0xFFFFFFFFFC000000), (0xFFFFFFFFF4000000, 0xFFFFFFFFFC000000),
    (0xFFFFFFFFF8000000, 0xFFFFFFFFFC000000), (0xFFFFFFFFFC000000, 0xFFFFFFFFFC000000)]"

lemma pairs_custom: "map op_pair or32_ops_custom = fixed_custom"
  by (simp only: or32_ops_custom_def fixed_custom_def list.map vec_pair flt_pair hex_digit_simps)
    (simp add: op_pair_opc extract_eval)

lemma enc_custom: "list_all (\<lambda>p. enc_ok (op_encoding p)) or32_ops_custom"
  by (simp only: or32_ops_custom_def list.pred_inject or32_opcode.simps vec_row(2) flt_row(2) hex_digit_simps simp_thms)
    (simp add: enc_eval)

lemma lens_custom:
  "map opc_len or32_ops_custom = map Some
    [5, 1, 1, 1]"
  by (simp only: or32_ops_custom_def list.map vec_row(1) flt_row(1))
    (simp add: args_eval)

subsection \<open>The construction on the table\<close>

definition or32_tab :: "(u64 \<times> u64) list" where
  "or32_tab =
     fixed_control @
     fixed_vector_cmp @
     fixed_vector @
     fixed_vector2 @
     fixed_jump @
     fixed_load @
     fixed_imm @
     fixed_cmp_imm @
     fixed_mac @
     fixed_float @
     fixed_double @
     fixed_store @
     fixed_alu @
     fixed_cmp @
     fixed_custom"

lemmas fixed_defs =
  fixed_control_def fixed_vector_cmp_def fixed_vector_def fixed_vector2_def fixed_jump_def
   fixed_load_def fixed_imm_def fixed_cmp_imm_def fixed_mac_def fixed_float_def fixed_double_def
   fixed_store_def fixed_alu_def fixed_cmp_def fixed_custom_def

lemma or32_pairs: "map op_pair or32_opcodes = or32_tab"
  by (simp only: or32_opcodes_def or32_tab_def map_append
      pairs_control pairs_vector_cmp pairs_vector pairs_vector2 pairs_jump pairs_load pairs_imm
       pairs_cmp_imm pairs_mac pairs_float pairs_double pairs_store pairs_alu pairs_cmp
       pairs_custom)

lemma or32_encodings: "list_all (\<lambda>p. enc_ok (op_encoding p)) or32_opcodes"
  by (simp only: or32_opcodes_def list_all_append
      enc_control enc_vector_cmp enc_vector enc_vector2 enc_jump enc_load enc_imm enc_cmp_imm
       enc_mac enc_float enc_double enc_store enc_alu enc_cmp enc_custom simp_thms)

lemma fixed_lengths:
  "length fixed_control = 13"
  "length fixed_vector_cmp = 24"
  "length fixed_vector = 35"
  "length fixed_vector2 = 32"
  "length fixed_jump = 7"
  "length fixed_load = 7"
  "length fixed_imm = 11"
  "length fixed_cmp_imm = 10"
  "length fixed_mac = 3"
  "length fixed_float = 15"
  "length fixed_double = 15"
  "length fixed_store = 4"
  "length fixed_alu = 23"
  "length fixed_cmp = 10"
  "length fixed_custom = 4"
  by (simp_all add: fixed_defs)

text \<open>Rows by position: small lists first, then their positions in the whole table.\<close>

lemma nth_control:
  "fixed_control ! 0 = (0x0, 0xFFFFFFFFFC000000)"
  "fixed_control ! Suc 0 = (0x4000000, 0xFFFFFFFFFC000000)"
  "fixed_control ! 2 = (0xC000000, 0xFFFFFFFFFC000000)"
  "fixed_control ! 3 = (0x10000000, 0xFFFFFFFFFC000000)"
  "fixed_control ! 4 = (0x15000000, 0xFFFFFFFFFF000000)"
  "fixed_control ! 5 = (0x18000000, 0xFFFFFFFFFC010000)"
  "fixed_control ! 6 = (0x18010000, 0xFFFFFFFFFC01FFFF)"
  "fixed_control ! 7 = (0x20000000, 0xFFFFFFFFFFFF0000)"
  "fixed_control ! 8 = (0x21000000, 0xFFFFFFFFFFFF0000)"
  "fixed_control ! 9 = (0x22000000, 0xFFFFFFFFFFFFFFFF)"
  "fixed_control ! 10 = (0x22800000, 0xFFFFFFFFFFFFFFFF)"
  "fixed_control ! 11 = (0x23000000, 0xFFFFFFFFFFFFFFFF)"
  "fixed_control ! 12 = (0x24000000, 0xFFFFFFFFFC000000)"
  by (simp_all add: fixed_control_def)

lemma nth_vector_cmp:
  "fixed_vector_cmp ! 0 = (0x28000010, 0xFFFFFFFFFC0000FF)"
  "fixed_vector_cmp ! Suc 0 = (0x28000011, 0xFFFFFFFFFC0000FF)"
  "fixed_vector_cmp ! 2 = (0x28000012, 0xFFFFFFFFFC0000FF)"
  "fixed_vector_cmp ! 3 = (0x28000013, 0xFFFFFFFFFC0000FF)"
  "fixed_vector_cmp ! 4 = (0x28000014, 0xFFFFFFFFFC0000FF)"
  "fixed_vector_cmp ! 5 = (0x28000015, 0xFFFFFFFFFC0000FF)"
  "fixed_vector_cmp ! 6 = (0x28000016, 0xFFFFFFFFFC0000FF)"
  "fixed_vector_cmp ! 7 = (0x28000017, 0xFFFFFFFFFC0000FF)"
  "fixed_vector_cmp ! 8 = (0x28000018, 0xFFFFFFFFFC0000FF)"
  "fixed_vector_cmp ! 9 = (0x28000019, 0xFFFFFFFFFC0000FF)"
  "fixed_vector_cmp ! 10 = (0x2800001A, 0xFFFFFFFFFC0000FF)"
  "fixed_vector_cmp ! 11 = (0x2800001B, 0xFFFFFFFFFC0000FF)"
  "fixed_vector_cmp ! 12 = (0x28000020, 0xFFFFFFFFFC0000FF)"
  "fixed_vector_cmp ! 13 = (0x28000021, 0xFFFFFFFFFC0000FF)"
  "fixed_vector_cmp ! 14 = (0x28000022, 0xFFFFFFFFFC0000FF)"
  "fixed_vector_cmp ! 15 = (0x28000023, 0xFFFFFFFFFC0000FF)"
  "fixed_vector_cmp ! 16 = (0x28000024, 0xFFFFFFFFFC0000FF)"
  "fixed_vector_cmp ! 17 = (0x28000025, 0xFFFFFFFFFC0000FF)"
  "fixed_vector_cmp ! 18 = (0x28000026, 0xFFFFFFFFFC0000FF)"
  "fixed_vector_cmp ! 19 = (0x28000027, 0xFFFFFFFFFC0000FF)"
  "fixed_vector_cmp ! 20 = (0x28000028, 0xFFFFFFFFFC0000FF)"
  "fixed_vector_cmp ! 21 = (0x28000029, 0xFFFFFFFFFC0000FF)"
  "fixed_vector_cmp ! 22 = (0x2800002A, 0xFFFFFFFFFC0000FF)"
  "fixed_vector_cmp ! 23 = (0x2800002B, 0xFFFFFFFFFC0000FF)"
  by (simp_all add: fixed_vector_cmp_def)

lemma nth_vector:
  "fixed_vector ! 0 = (0x28000030, 0xFFFFFFFFFC0000FF)"
  "fixed_vector ! Suc 0 = (0x28000031, 0xFFFFFFFFFC0000FF)"
  "fixed_vector ! 2 = (0x28000032, 0xFFFFFFFFFC0000FF)"
  "fixed_vector ! 3 = (0x28000033, 0xFFFFFFFFFC0000FF)"
  "fixed_vector ! 4 = (0x28000034, 0xFFFFFFFFFC0000FF)"
  "fixed_vector ! 5 = (0x28000035, 0xFFFFFFFFFC0000FF)"
  "fixed_vector ! 6 = (0x28000036, 0xFFFFFFFFFC0000FF)"
  "fixed_vector ! 7 = (0x28000037, 0xFFFFFFFFFC0000FF)"
  "fixed_vector ! 8 = (0x28000038, 0xFFFFFFFFFC0000FF)"
  "fixed_vector ! 9 = (0x28000039, 0xFFFFFFFFFC0000FF)"
  "fixed_vector ! 10 = (0x2800003A, 0xFFFFFFFFFC0000FF)"
  "fixed_vector ! 11 = (0x28000040, 0xFFFFFFFFFC0000FF)"
  "fixed_vector ! 12 = (0x28000041, 0xFFFFFFFFFC0000FF)"
  "fixed_vector ! 13 = (0x28000042, 0xFFFFFFFFFC0000FF)"
  "fixed_vector ! 14 = (0x28000043, 0xFFFFFFFFFC0000FF)"
  "fixed_vector ! 15 = (0x28000044, 0xFFFFFFFFFC0000FF)"
  "fixed_vector ! 16 = (0x28000045, 0xFFFFFFFFFC0000FF)"
  "fixed_vector ! 17 = (0x28000046, 0xFFFFFFFFFC0000FF)"
  "fixed_vector ! 18 = (0x28000047, 0xFFFFFFFFFC0000FF)"
  "fixed_vector ! 19 = (0x28000048, 0xFFFFFFFFFC0000FF)"
  "fixed_vector ! 20 = (0x28000049, 0xFFFFFFFFFC0000FF)"
  "fixed_vector ! 21 = (0x2800004A, 0xFFFFFFFFFC0000FF)"
  "fixed_vector ! 22 = (0x2800004B, 0xFFFFFFFFFC0000FF)"
  "fixed_vector ! 23 = (0x28000054, 0xFFFFFFFFFC0000FF)"
  "fixed_vector ! 24 = (0x28000055, 0xFFFFFFFFFC0000FF)"
  "fixed_vector ! 25 = (0x28000056, 0xFFFFFFFFFC0000FF)"
  "fixed_vector ! 26 = (0x28000057, 0xFFFFFFFFFC0000FF)"
  "fixed_vector ! 27 = (0x28000058, 0xFFFFFFFFFC0000FF)"
  "fixed_vector ! 28 = (0x28000059, 0xFFFFFFFFFC0000FF)"
  "fixed_vector ! 29 = (0x2800005A, 0xFFFFFFFFFC0000FF)"
  "fixed_vector ! 30 = (0x2800005B, 0xFFFFFFFFFC0000FF)"
  "fixed_vector ! 31 = (0x2800005C, 0xFFFFFFFFFC0000FF)"
  "fixed_vector ! 32 = (0x2800005D, 0xFFFFFFFFFC0000FF)"
  "fixed_vector ! 33 = (0x2800005E, 0xFFFFFFFFFC0000FF)"
  "fixed_vector ! 34 = (0x2800005F, 0xFFFFFFFFFC0000FF)"
  by (simp_all add: fixed_vector_def)

lemma nth_vector2:
  "fixed_vector2 ! 0 = (0x28000060, 0xFFFFFFFFFC0000FF)"
  "fixed_vector2 ! Suc 0 = (0x28000061, 0xFFFFFFFFFC0000FF)"
  "fixed_vector2 ! 2 = (0x28000062, 0xFFFFFFFFFC0000FF)"
  "fixed_vector2 ! 3 = (0x28000063, 0xFFFFFFFFFC0000FF)"
  "fixed_vector2 ! 4 = (0x28000064, 0xFFFFFFFFFC0000FF)"
  "fixed_vector2 ! 5 = (0x28000065, 0xFFFFFFFFFC0000FF)"
  "fixed_vector2 ! 6 = (0x28000066, 0xFFFFFFFFFC0000FF)"
  "fixed_vector2 ! 7 = (0x28000067, 0xFFFFFFFFFC0000FF)"
  "fixed_vector2 ! 8 = (0x28000068, 0xFFFFFFFFFC0000FF)"
  "fixed_vector2 ! 9 = (0x28000069, 0xFFFFFFFFFC0000FF)"
  "fixed_vector2 ! 10 = (0x2800006A, 0xFFFFFFFFFC0000FF)"
  "fixed_vector2 ! 11 = (0x2800006B, 0xFFFFFFFFFC0000FF)"
  "fixed_vector2 ! 12 = (0x2800006C, 0xFFFFFFFFFC0000FF)"
  "fixed_vector2 ! 13 = (0x2800006D, 0xFFFFFFFFFC0000FF)"
  "fixed_vector2 ! 14 = (0x2800006E, 0xFFFFFFFFFC0000FF)"
  "fixed_vector2 ! 15 = (0x2800006F, 0xFFFFFFFFFC0000FF)"
  "fixed_vector2 ! 16 = (0x28000070, 0xFFFFFFFFFC0000FF)"
  "fixed_vector2 ! 17 = (0x28000071, 0xFFFFFFFFFC0000FF)"
  "fixed_vector2 ! 18 = (0x28000072, 0xFFFFFFFFFC0000FF)"
  "fixed_vector2 ! 19 = (0x28000073, 0xFFFFFFFFFC0000FF)"
  "fixed_vector2 ! 20 = (0x28000074, 0xFFFFFFFFFC0000FF)"
  "fixed_vector2 ! 21 = (0x28000075, 0xFFFFFFFFFC0000FF)"
  "fixed_vector2 ! 22 = (0x28000076, 0xFFFFFFFFFC0000FF)"
  "fixed_vector2 ! 23 = (0x28000077, 0xFFFFFFFFFC0000FF)"
  "fixed_vector2 ! 24 = (0x28000078, 0xFFFFFFFFFC0000FF)"
  "fixed_vector2 ! 25 = (0x28000079, 0xFFFFFFFFFC0000FF)"
  "fixed_vector2 ! 26 = (0x2800007A, 0xFFFFFFFFFC0000FF)"
  "fixed_vector2 ! 27 = (0x2800007B, 0xFFFFFFFFFC0000FF)"
  "fixed_vector2 ! 28 = (0x280000C0, 0xFFFFFFFFFC0000F0)"
  "fixed_vector2 ! 29 = (0x280000D0, 0xFFFFFFFFFC0000F0)"
  "fixed_vector2 ! 30 = (0x280000E0, 0xFFFFFFFFFC0000F0)"
  "fixed_vector2 ! 31 = (0x280000F0, 0xFFFFFFFFFC0000F0)"
  by (simp_all add: fixed_vector2_def)

lemma nth_jump:
  "fixed_jump ! 0 = (0x44000000, 0xFFFFFFFFFC000000)"
  "fixed_jump ! Suc 0 = (0x48000000, 0xFFFFFFFFFC000000)"
  "fixed_jump ! 2 = (0x4C000000, 0xFFFFFFFFFC000000)"
  "fixed_jump ! 3 = (0x70000000, 0xFFFFFFFFFC000000)"
  "fixed_jump ! 4 = (0x74000000, 0xFFFFFFFFFC000000)"
  "fixed_jump ! 5 = (0x78000000, 0xFFFFFFFFFC000000)"
  "fixed_jump ! 6 = (0x7C000000, 0xFFFFFFFFFC000000)"
  by (simp_all add: fixed_jump_def)

lemma nth_load:
  "fixed_load ! 0 = (0xFFFFFFFF80000000, 0xFFFFFFFFFC000000)"
  "fixed_load ! Suc 0 = (0xFFFFFFFF84000000, 0xFFFFFFFFFC000000)"
  "fixed_load ! 2 = (0xFFFFFFFF88000000, 0xFFFFFFFFFC000000)"
  "fixed_load ! 3 = (0xFFFFFFFF8C000000, 0xFFFFFFFFFC000000)"
  "fixed_load ! 4 = (0xFFFFFFFF90000000, 0xFFFFFFFFFC000000)"
  "fixed_load ! 5 = (0xFFFFFFFF94000000, 0xFFFFFFFFFC000000)"
  "fixed_load ! 6 = (0xFFFFFFFF98000000, 0xFFFFFFFFFC000000)"
  by (simp_all add: fixed_load_def)

lemma nth_imm:
  "fixed_imm ! 0 = (0xFFFFFFFF9C000000, 0xFFFFFFFFFC000000)"
  "fixed_imm ! Suc 0 = (0xFFFFFFFFA0000000, 0xFFFFFFFFFC000000)"
  "fixed_imm ! 2 = (0xFFFFFFFFA4000000, 0xFFFFFFFFFC000000)"
  "fixed_imm ! 3 = (0xFFFFFFFFA8000000, 0xFFFFFFFFFC000000)"
  "fixed_imm ! 4 = (0xFFFFFFFFAC000000, 0xFFFFFFFFFC000000)"
  "fixed_imm ! 5 = (0xFFFFFFFFB0000000, 0xFFFFFFFFFC000000)"
  "fixed_imm ! 6 = (0xFFFFFFFFB4000000, 0xFFFFFFFFFC000000)"
  "fixed_imm ! 7 = (0xFFFFFFFFB8000000, 0xFFFFFFFFFC0000C0)"
  "fixed_imm ! 8 = (0xFFFFFFFFB8000040, 0xFFFFFFFFFC0000C0)"
  "fixed_imm ! 9 = (0xFFFFFFFFB8000080, 0xFFFFFFFFFC0000C0)"
  "fixed_imm ! 10 = (0xFFFFFFFFB80000C0, 0xFFFFFFFFFC0000C0)"
  by (simp_all add: fixed_imm_def)

lemma nth_cmp_imm:
  "fixed_cmp_imm ! 0 = (0xFFFFFFFFBC000000, 0xFFFFFFFFFFE00000)"
  "fixed_cmp_imm ! Suc 0 = (0xFFFFFFFFBC200000, 0xFFFFFFFFFFE00000)"
  "fixed_cmp_imm ! 2 = (0xFFFFFFFFBC400000, 0xFFFFFFFFFFE00000)"
  "fixed_cmp_imm ! 3 = (0xFFFFFFFFBC600000, 0xFFFFFFFFFFE00000)"
  "fixed_cmp_imm ! 4 = (0xFFFFFFFFBC800000, 0xFFFFFFFFFFE00000)"
  "fixed_cmp_imm ! 5 = (0xFFFFFFFFBCA00000, 0xFFFFFFFFFFE00000)"
  "fixed_cmp_imm ! 6 = (0xFFFFFFFFBD400000, 0xFFFFFFFFFFE00000)"
  "fixed_cmp_imm ! 7 = (0xFFFFFFFFBD600000, 0xFFFFFFFFFFE00000)"
  "fixed_cmp_imm ! 8 = (0xFFFFFFFFBD800000, 0xFFFFFFFFFFE00000)"
  "fixed_cmp_imm ! 9 = (0xFFFFFFFFBDA00000, 0xFFFFFFFFFFE00000)"
  by (simp_all add: fixed_cmp_imm_def)

lemma nth_mac:
  "fixed_mac ! 0 = (0xFFFFFFFFC0000000, 0xFFFFFFFFFC000000)"
  "fixed_mac ! Suc 0 = (0xFFFFFFFFC4000001, 0xFFFFFFFFFC00000F)"
  "fixed_mac ! 2 = (0xFFFFFFFFC4000002, 0xFFFFFFFFFC00000F)"
  by (simp_all add: fixed_mac_def)

lemma nth_float:
  "fixed_float ! 0 = (0xFFFFFFFFC8000000, 0xFFFFFFFFFC0000FF)"
  "fixed_float ! Suc 0 = (0xFFFFFFFFC8000001, 0xFFFFFFFFFC0000FF)"
  "fixed_float ! 2 = (0xFFFFFFFFC8000002, 0xFFFFFFFFFC0000FF)"
  "fixed_float ! 3 = (0xFFFFFFFFC8000003, 0xFFFFFFFFFC0000FF)"
  "fixed_float ! 4 = (0xFFFFFFFFC8000004, 0xFFFFFFFFFC00F8FF)"
  "fixed_float ! 5 = (0xFFFFFFFFC8000005, 0xFFFFFFFFFC00F8FF)"
  "fixed_float ! 6 = (0xFFFFFFFFC8000006, 0xFFFFFFFFFC0000FF)"
  "fixed_float ! 7 = (0xFFFFFFFFC8000007, 0xFFFFFFFFFC0000FF)"
  "fixed_float ! 8 = (0xFFFFFFFFC8000008, 0xFFFFFFFFFC0000FF)"
  "fixed_float ! 9 = (0xFFFFFFFFC8000009, 0xFFFFFFFFFC0000FF)"
  "fixed_float ! 10 = (0xFFFFFFFFC800000A, 0xFFFFFFFFFC0000FF)"
  "fixed_float ! 11 = (0xFFFFFFFFC800000B, 0xFFFFFFFFFC0000FF)"
  "fixed_float ! 12 = (0xFFFFFFFFC800000C, 0xFFFFFFFFFC0000FF)"
  "fixed_float ! 13 = (0xFFFFFFFFC800000D, 0xFFFFFFFFFC0000FF)"
  "fixed_float ! 14 = (0xFFFFFFFFC80000D0, 0xFFFFFFFFFC0000F0)"
  by (simp_all add: fixed_float_def)

lemma nth_double:
  "fixed_double ! 0 = (0xFFFFFFFFC8000010, 0xFFFFFFFFFC0000FF)"
  "fixed_double ! Suc 0 = (0xFFFFFFFFC8000011, 0xFFFFFFFFFC0000FF)"
  "fixed_double ! 2 = (0xFFFFFFFFC8000012, 0xFFFFFFFFFC0000FF)"
  "fixed_double ! 3 = (0xFFFFFFFFC8000013, 0xFFFFFFFFFC0000FF)"
  "fixed_double ! 4 = (0xFFFFFFFFC8000014, 0xFFFFFFFFFC00F8FF)"
  "fixed_double ! 5 = (0xFFFFFFFFC8000015, 0xFFFFFFFFFC00F8FF)"
  "fixed_double ! 6 = (0xFFFFFFFFC8000016, 0xFFFFFFFFFC0000FF)"
  "fixed_double ! 7 = (0xFFFFFFFFC8000017, 0xFFFFFFFFFC0000FF)"
  "fixed_double ! 8 = (0xFFFFFFFFC8000018, 0xFFFFFFFFFC0000FF)"
  "fixed_double ! 9 = (0xFFFFFFFFC8000019, 0xFFFFFFFFFC0000FF)"
  "fixed_double ! 10 = (0xFFFFFFFFC800001A, 0xFFFFFFFFFC0000FF)"
  "fixed_double ! 11 = (0xFFFFFFFFC800001B, 0xFFFFFFFFFC0000FF)"
  "fixed_double ! 12 = (0xFFFFFFFFC800001C, 0xFFFFFFFFFC0000FF)"
  "fixed_double ! 13 = (0xFFFFFFFFC800001D, 0xFFFFFFFFFC0000FF)"
  "fixed_double ! 14 = (0xFFFFFFFFC80000E0, 0xFFFFFFFFFC0000F0)"
  by (simp_all add: fixed_double_def)

lemma nth_store:
  "fixed_store ! 0 = (0xFFFFFFFFD0000000, 0xFFFFFFFFFC000000)"
  "fixed_store ! Suc 0 = (0xFFFFFFFFD4000000, 0xFFFFFFFFFC000000)"
  "fixed_store ! 2 = (0xFFFFFFFFD8000000, 0xFFFFFFFFFC000000)"
  "fixed_store ! 3 = (0xFFFFFFFFDC000000, 0xFFFFFFFFFC000000)"
  by (simp_all add: fixed_store_def)

lemma nth_alu:
  "fixed_alu ! 0 = (0xFFFFFFFFE0000000, 0xFFFFFFFFFC00030F)"
  "fixed_alu ! Suc 0 = (0xFFFFFFFFE0000001, 0xFFFFFFFFFC00030F)"
  "fixed_alu ! 2 = (0xFFFFFFFFE0000002, 0xFFFFFFFFFC00030F)"
  "fixed_alu ! 3 = (0xFFFFFFFFE0000003, 0xFFFFFFFFFC00030F)"
  "fixed_alu ! 4 = (0xFFFFFFFFE0000004, 0xFFFFFFFFFC00030F)"
  "fixed_alu ! 5 = (0xFFFFFFFFE0000005, 0xFFFFFFFFFC00030F)"
  "fixed_alu ! 6 = (0xFFFFFFFFE0000306, 0xFFFFFFFFFC00030F)"
  "fixed_alu ! 7 = (0xFFFFFFFFE0000008, 0xFFFFFFFFFC0003CF)"
  "fixed_alu ! 8 = (0xFFFFFFFFE0000048, 0xFFFFFFFFFC0003CF)"
  "fixed_alu ! 9 = (0xFFFFFFFFE0000088, 0xFFFFFFFFFC0003CF)"
  "fixed_alu ! 10 = (0xFFFFFFFFE00000C8, 0xFFFFFFFFFC0003CF)"
  "fixed_alu ! 11 = (0xFFFFFFFFE0000309, 0xFFFFFFFFFC00030F)"
  "fixed_alu ! 12 = (0xFFFFFFFFE000030A, 0xFFFFFFFFFC00030F)"
  "fixed_alu ! 13 = (0xFFFFFFFFE000030B, 0xFFFFFFFFFC00030F)"
  "fixed_alu ! 14 = (0xFFFFFFFFE000004C, 0xFFFFFFFFFC0003CF)"
  "fixed_alu ! 15 = (0xFFFFFFFFE000000C, 0xFFFFFFFFFC0003CF)"
  "fixed_alu ! 16 = (0xFFFFFFFFE000000D, 0xFFFFFFFFFC0003CF)"
  "fixed_alu ! 17 = (0xFFFFFFFFE00000CC, 0xFFFFFFFFFC0003CF)"
  "fixed_alu ! 18 = (0xFFFFFFFFE000008C, 0xFFFFFFFFFC0003CF)"
  "fixed_alu ! 19 = (0xFFFFFFFFE000004D, 0xFFFFFFFFFC0003CF)"
  "fixed_alu ! 20 = (0xFFFFFFFFE000000E, 0xFFFFFFFFFC00030F)"
  "fixed_alu ! 21 = (0xFFFFFFFFE000000F, 0xFFFFFFFFFC00030F)"
  "fixed_alu ! 22 = (0xFFFFFFFFE000010F, 0xFFFFFFFFFC00030F)"
  by (simp_all add: fixed_alu_def)

lemma nth_cmp:
  "fixed_cmp ! 0 = (0xFFFFFFFFE4000000, 0xFFFFFFFFFFE00000)"
  "fixed_cmp ! Suc 0 = (0xFFFFFFFFE4200000, 0xFFFFFFFFFFE00000)"
  "fixed_cmp ! 2 = (0xFFFFFFFFE4400000, 0xFFFFFFFFFFE00000)"
  "fixed_cmp ! 3 = (0xFFFFFFFFE4600000, 0xFFFFFFFFFFE00000)"
  "fixed_cmp ! 4 = (0xFFFFFFFFE4800000, 0xFFFFFFFFFFE00000)"
  "fixed_cmp ! 5 = (0xFFFFFFFFE4A00000, 0xFFFFFFFFFFE00000)"
  "fixed_cmp ! 6 = (0xFFFFFFFFE5400000, 0xFFFFFFFFFFE00000)"
  "fixed_cmp ! 7 = (0xFFFFFFFFE5600000, 0xFFFFFFFFFFE00000)"
  "fixed_cmp ! 8 = (0xFFFFFFFFE5800000, 0xFFFFFFFFFFE00000)"
  "fixed_cmp ! 9 = (0xFFFFFFFFE5A00000, 0xFFFFFFFFFFE00000)"
  by (simp_all add: fixed_cmp_def)

lemma nth_custom:
  "fixed_custom ! 0 = (0xFFFFFFFFF0000000, 0xFFFFFFFFFC000000)"
  "fixed_custom ! Suc 0 = (0xFFFFFFFFF4000000, 0xFFFFFFFFFC000000)"
  "fixed_custom ! 2 = (0xFFFFFFFFF8000000, 0xFFFFFFFFFC000000)"
  "fixed_custom ! 3 = (0xFFFFFFFFFC000000, 0xFFFFFFFFFC000000)"
  by (simp_all add: fixed_custom_def)

lemma or32_nth:
  "or32_tab ! 0 = (0x0, 0xFFFFFFFFFC000000)"
  "or32_tab ! Suc 0 = (0x4000000, 0xFFFFFFFFFC000000)"
  "or32_tab ! 2 = (0xC000000, 0xFFFFFFFFFC000000)"
  "or32_tab ! 3 = (0x10000000, 0xFFFFFFFFFC000000)"
  "or32_tab ! 4 = (0x15000000, 0xFFFFFFFFFF000000)"
  "or32_tab ! 5 = (0x18000000, 0xFFFFFFFFFC010000)"
  "or32_tab ! 6 = (0x18010000, 0xFFFFFFFFFC01FFFF)"
  "or32_tab ! 7 = (0x20000000, 0xFFFFFFFFFFFF0000)"
  "or32_tab ! 8 = (0x21000000, 0xFFFFFFFFFFFF0000)"
  "or32_tab ! 9 = (0x22000000, 0xFFFFFFFFFFFFFFFF)"
  "or32_tab ! 10 = (0x22800000, 0xFFFFFFFFFFFFFFFF)"
  "or32_tab ! 11 = (0x23000000, 0xFFFFFFFFFFFFFFFF)"
  "or32_tab ! 12 = (0x24000000, 0xFFFFFFFFFC000000)"
  "or32_tab ! 13 = (0x28000010, 0xFFFFFFFFFC0000FF)"
  "or32_tab ! 14 = (0x28000011, 0xFFFFFFFFFC0000FF)"
  "or32_tab ! 15 = (0x28000012, 0xFFFFFFFFFC0000FF)"
  "or32_tab ! 16 = (0x28000013, 0xFFFFFFFFFC0000FF)"
  "or32_tab ! 17 = (0x28000014, 0xFFFFFFFFFC0000FF)"
  "or32_tab ! 18 = (0x28000015, 0xFFFFFFFFFC0000FF)"
  "or32_tab ! 19 = (0x28000016, 0xFFFFFFFFFC0000FF)"
  "or32_tab ! 20 = (0x28000017, 0xFFFFFFFFFC0000FF)"
  "or32_tab ! 21 = (0x28000018, 0xFFFFFFFFFC0000FF)"
  "or32_tab ! 22 = (0x28000019, 0xFFFFFFFFFC0000FF)"
  "or32_tab ! 23 = (0x2800001A, 0xFFFFFFFFFC0000FF)"
  "or32_tab ! 24 = (0x2800001B, 0xFFFFFFFFFC0000FF)"
  "or32_tab ! 25 = (0x28000020, 0xFFFFFFFFFC0000FF)"
  "or32_tab ! 26 = (0x28000021, 0xFFFFFFFFFC0000FF)"
  "or32_tab ! 27 = (0x28000022, 0xFFFFFFFFFC0000FF)"
  "or32_tab ! 28 = (0x28000023, 0xFFFFFFFFFC0000FF)"
  "or32_tab ! 29 = (0x28000024, 0xFFFFFFFFFC0000FF)"
  "or32_tab ! 30 = (0x28000025, 0xFFFFFFFFFC0000FF)"
  "or32_tab ! 31 = (0x28000026, 0xFFFFFFFFFC0000FF)"
  "or32_tab ! 32 = (0x28000027, 0xFFFFFFFFFC0000FF)"
  "or32_tab ! 33 = (0x28000028, 0xFFFFFFFFFC0000FF)"
  "or32_tab ! 34 = (0x28000029, 0xFFFFFFFFFC0000FF)"
  "or32_tab ! 35 = (0x2800002A, 0xFFFFFFFFFC0000FF)"
  "or32_tab ! 36 = (0x2800002B, 0xFFFFFFFFFC0000FF)"
  "or32_tab ! 37 = (0x28000030, 0xFFFFFFFFFC0000FF)"
  "or32_tab ! 38 = (0x28000031, 0xFFFFFFFFFC0000FF)"
  "or32_tab ! 39 = (0x28000032, 0xFFFFFFFFFC0000FF)"
  "or32_tab ! 40 = (0x28000033, 0xFFFFFFFFFC0000FF)"
  "or32_tab ! 41 = (0x28000034, 0xFFFFFFFFFC0000FF)"
  "or32_tab ! 42 = (0x28000035, 0xFFFFFFFFFC0000FF)"
  "or32_tab ! 43 = (0x28000036, 0xFFFFFFFFFC0000FF)"
  "or32_tab ! 44 = (0x28000037, 0xFFFFFFFFFC0000FF)"
  "or32_tab ! 45 = (0x28000038, 0xFFFFFFFFFC0000FF)"
  "or32_tab ! 46 = (0x28000039, 0xFFFFFFFFFC0000FF)"
  "or32_tab ! 47 = (0x2800003A, 0xFFFFFFFFFC0000FF)"
  "or32_tab ! 48 = (0x28000040, 0xFFFFFFFFFC0000FF)"
  "or32_tab ! 49 = (0x28000041, 0xFFFFFFFFFC0000FF)"
  "or32_tab ! 50 = (0x28000042, 0xFFFFFFFFFC0000FF)"
  "or32_tab ! 51 = (0x28000043, 0xFFFFFFFFFC0000FF)"
  "or32_tab ! 52 = (0x28000044, 0xFFFFFFFFFC0000FF)"
  "or32_tab ! 53 = (0x28000045, 0xFFFFFFFFFC0000FF)"
  "or32_tab ! 54 = (0x28000046, 0xFFFFFFFFFC0000FF)"
  "or32_tab ! 55 = (0x28000047, 0xFFFFFFFFFC0000FF)"
  "or32_tab ! 56 = (0x28000048, 0xFFFFFFFFFC0000FF)"
  "or32_tab ! 57 = (0x28000049, 0xFFFFFFFFFC0000FF)"
  "or32_tab ! 58 = (0x2800004A, 0xFFFFFFFFFC0000FF)"
  "or32_tab ! 59 = (0x2800004B, 0xFFFFFFFFFC0000FF)"
  "or32_tab ! 60 = (0x28000054, 0xFFFFFFFFFC0000FF)"
  "or32_tab ! 61 = (0x28000055, 0xFFFFFFFFFC0000FF)"
  "or32_tab ! 62 = (0x28000056, 0xFFFFFFFFFC0000FF)"
  "or32_tab ! 63 = (0x28000057, 0xFFFFFFFFFC0000FF)"
  "or32_tab ! 64 = (0x28000058, 0xFFFFFFFFFC0000FF)"
  "or32_tab ! 65 = (0x28000059, 0xFFFFFFFFFC0000FF)"
  "or32_tab ! 66 = (0x2800005A, 0xFFFFFFFFFC0000FF)"
  "or32_tab ! 67 = (0x2800005B, 0xFFFFFFFFFC0000FF)"
  "or32_tab ! 68 = (0x2800005C, 0xFFFFFFFFFC0000FF)"
  "or32_tab ! 69 = (0x2800005D, 0xFFFFFFFFFC0000FF)"
  "or32_tab ! 70 = (0x2800005E, 0xFFFFFFFFFC0000FF)"
  "or32_tab ! 71 = (0x2800005F, 0xFFFFFFFFFC0000FF)"
  "or32_tab ! 72 = (0x28000060, 0xFFFFFFFFFC0000FF)"
  "or32_tab ! 73 = (0x28000061, 0xFFFFFFFFFC0000FF)"
  "or32_tab ! 74 = (0x28000062, 0xFFFFFFFFFC0000FF)"
  "or32_tab ! 75 = (0x28000063, 0xFFFFFFFFFC0000FF)"
  "or32_tab ! 76 = (0x28000064, 0xFFFFFFFFFC0000FF)"
  "or32_tab ! 77 = (0x28000065, 0xFFFFFFFFFC0000FF)"
  "or32_tab ! 78 = (0x28000066, 0xFFFFFFFFFC0000FF)"
  "or32_tab ! 79 = (0x28000067, 0xFFFFFFFFFC0000FF)"
  "or32_tab ! 80 = (0x28000068, 0xFFFFFFFFFC0000FF)"
  "or32_tab ! 81 = (0x28000069, 0xFFFFFFFFFC0000FF)"
  "or32_tab ! 82 = (0x2800006A, 0xFFFFFFFFFC0000FF)"
  "or32_tab ! 83 = (0x2800006B, 0xFFFFFFFFFC0000FF)"
  "or32_tab ! 84 = (0x2800006C, 0xFFFFFFFFFC0000FF)"
  "or32_tab ! 85 = (0x2800006D, 0xFFFFFFFFFC0000FF)"
  "or32_tab ! 86 = (0x2800006E, 0xFFFFFFFFFC0000FF)"
  "or32_tab ! 87 = (0x2800006F, 0xFFFFFFFFFC0000FF)"
  "or32_tab ! 88 = (0x28000070, 0xFFFFFFFFFC0000FF)"
  "or32_tab ! 89 = (0x28000071, 0xFFFFFFFFFC0000FF)"
  "or32_tab ! 90 = (0x28000072, 0xFFFFFFFFFC0000FF)"
  "or32_tab ! 91 = (0x28000073, 0xFFFFFFFFFC0000FF)"
  "or32_tab ! 92 = (0x28000074, 0xFFFFFFFFFC0000FF)"
  "or32_tab ! 93 = (0x28000075, 0xFFFFFFFFFC0000FF)"
  "or32_tab ! 94 = (0x28000076, 0xFFFFFFFFFC0000FF)"
  "or32_tab ! 95 = (0x28000077, 0xFFFFFFFFFC0000FF)"
  "or32_tab ! 96 = (0x28000078, 0xFFFFFFFFFC0000FF)"
  "or32_tab ! 97 = (0x28000079, 0xFFFFFFFFFC0000FF)"
  "or32_tab ! 98 = (0x2800007A, 0xFFFFFFFFFC0000FF)"
  "or32_tab ! 99 = (0x2800007B, 0xFFFFFFFFFC0000FF)"
  "or32_tab ! 100 = (0x280000C0, 0xFFFFFFFFFC0000F0)"
  "or32_tab ! 101 = (0x280000D0, 0xFFFFFFFFFC0000F0)"
  "or32_tab ! 102 = (0x280000E0, 0xFFFFFFFFFC0000F0)"
  "or32_tab ! 103 = (0x280000F0, 0xFFFFFFFFFC0000F0)"
  "or32_tab ! 104 = (0x44000000, 0xFFFFFFFFFC000000)"
  "or32_tab ! 105 = (0x48000000, 0xFFFFFFFFFC000000)"
  "or32_tab ! 106 = (0x4C000000, 0xFFFFFFFFFC000000)"
  "or32_tab ! 107 = (0x70000000, 0xFFFFFFFFFC000000)"
  "or32_tab ! 108 = (0x74000000, 0xFFFFFFFFFC000000)"
  "or32_tab ! 109 = (0x78000000, 0xFFFFFFFFFC000000)"
  "or32_tab ! 110 = (0x7C000000, 0xFFFFFFFFFC000000)"
  "or32_tab ! 111 = (0xFFFFFFFF80000000, 0xFFFFFFFFFC000000)"
  "or32_tab ! 112 = (0xFFFFFFFF84000000, 0xFFFFFFFFFC000000)"
  "or32_tab ! 113 = (0xFFFFFFFF88000000, 0xFFFFFFFFFC000000)"
  "or32_tab ! 114 = (0xFFFFFFFF8C000000, 0xFFFFFFFFFC000000)"
  "or32_tab ! 115 = (0xFFFFFFFF90000000, 0xFFFFFFFFFC000000)"
  "or32_tab ! 116 = (0xFFFFFFFF94000000, 0xFFFFFFFFFC000000)"
  "or32_tab ! 117 = (0xFFFFFFFF98000000, 0xFFFFFFFFFC000000)"
  "or32_tab ! 118 = (0xFFFFFFFF9C000000, 0xFFFFFFFFFC000000)"
  "or32_tab ! 119 = (0xFFFFFFFFA0000000, 0xFFFFFFFFFC000000)"
  "or32_tab ! 120 = (0xFFFFFFFFA4000000, 0xFFFFFFFFFC000000)"
  "or32_tab ! 121 = (0xFFFFFFFFA8000000, 0xFFFFFFFFFC000000)"
  "or32_tab ! 122 = (0xFFFFFFFFAC000000, 0xFFFFFFFFFC000000)"
  "or32_tab ! 123 = (0xFFFFFFFFB0000000, 0xFFFFFFFFFC000000)"
  "or32_tab ! 124 = (0xFFFFFFFFB4000000, 0xFFFFFFFFFC000000)"
  "or32_tab ! 125 = (0xFFFFFFFFB8000000, 0xFFFFFFFFFC0000C0)"
  "or32_tab ! 126 = (0xFFFFFFFFB8000040, 0xFFFFFFFFFC0000C0)"
  "or32_tab ! 127 = (0xFFFFFFFFB8000080, 0xFFFFFFFFFC0000C0)"
  "or32_tab ! 128 = (0xFFFFFFFFB80000C0, 0xFFFFFFFFFC0000C0)"
  "or32_tab ! 129 = (0xFFFFFFFFBC000000, 0xFFFFFFFFFFE00000)"
  "or32_tab ! 130 = (0xFFFFFFFFBC200000, 0xFFFFFFFFFFE00000)"
  "or32_tab ! 131 = (0xFFFFFFFFBC400000, 0xFFFFFFFFFFE00000)"
  "or32_tab ! 132 = (0xFFFFFFFFBC600000, 0xFFFFFFFFFFE00000)"
  "or32_tab ! 133 = (0xFFFFFFFFBC800000, 0xFFFFFFFFFFE00000)"
  "or32_tab ! 134 = (0xFFFFFFFFBCA00000, 0xFFFFFFFFFFE00000)"
  "or32_tab ! 135 = (0xFFFFFFFFBD400000, 0xFFFFFFFFFFE00000)"
  "or32_tab ! 136 = (0xFFFFFFFFBD600000, 0xFFFFFFFFFFE00000)"
  "or32_tab ! 137 = (0xFFFFFFFFBD800000, 0xFFFFFFFFFFE00000)"
  "or32_tab ! 138 = (0xFFFFFFFFBDA00000, 0xFFFFFFFFFFE00000)"
  "or32_tab ! 139 = (0xFFFFFFFFC0000000, 0xFFFFFFFFFC000000)"
  "or32_tab ! 140 = (0xFFFFFFFFC4000001, 0xFFFFFFFFFC00000F)"
  "or32_tab ! 141 = (0xFFFFFFFFC4000002, 0xFFFFFFFFFC00000F)"
  "or32_tab ! 142 = (0xFFFFFFFFC8000000, 0xFFFFFFFFFC0000FF)"
  "or32_tab ! 143 = (0xFFFFFFFFC8000001, 0xFFFFFFFFFC0000FF)"
  "or32_tab ! 144 = (0xFFFFFFFFC8000002, 0xFFFFFFFFFC0000FF)"
  "or32_tab ! 145 = (0xFFFFFFFFC8000003, 0xFFFFFFFFFC0000FF)"
  "or32_tab ! 146 = (0xFFFFFFFFC8000004, 0xFFFFFFFFFC00F8FF)"
  "or32_tab ! 147 = (0xFFFFFFFFC8000005, 0xFFFFFFFFFC00F8FF)"
  "or32_tab ! 148 = (0xFFFFFFFFC8000006, 0xFFFFFFFFFC0000FF)"
  "or32_tab ! 149 = (0xFFFFFFFFC8000007, 0xFFFFFFFFFC0000FF)"
  "or32_tab ! 150 = (0xFFFFFFFFC8000008, 0xFFFFFFFFFC0000FF)"
  "or32_tab ! 151 = (0xFFFFFFFFC8000009, 0xFFFFFFFFFC0000FF)"
  "or32_tab ! 152 = (0xFFFFFFFFC800000A, 0xFFFFFFFFFC0000FF)"
  "or32_tab ! 153 = (0xFFFFFFFFC800000B, 0xFFFFFFFFFC0000FF)"
  "or32_tab ! 154 = (0xFFFFFFFFC800000C, 0xFFFFFFFFFC0000FF)"
  "or32_tab ! 155 = (0xFFFFFFFFC800000D, 0xFFFFFFFFFC0000FF)"
  "or32_tab ! 156 = (0xFFFFFFFFC80000D0, 0xFFFFFFFFFC0000F0)"
  "or32_tab ! 157 = (0xFFFFFFFFC8000010, 0xFFFFFFFFFC0000FF)"
  "or32_tab ! 158 = (0xFFFFFFFFC8000011, 0xFFFFFFFFFC0000FF)"
  "or32_tab ! 159 = (0xFFFFFFFFC8000012, 0xFFFFFFFFFC0000FF)"
  "or32_tab ! 160 = (0xFFFFFFFFC8000013, 0xFFFFFFFFFC0000FF)"
  "or32_tab ! 161 = (0xFFFFFFFFC8000014, 0xFFFFFFFFFC00F8FF)"
  "or32_tab ! 162 = (0xFFFFFFFFC8000015, 0xFFFFFFFFFC00F8FF)"
  "or32_tab ! 163 = (0xFFFFFFFFC8000016, 0xFFFFFFFFFC0000FF)"
  "or32_tab ! 164 = (0xFFFFFFFFC8000017, 0xFFFFFFFFFC0000FF)"
  "or32_tab ! 165 = (0xFFFFFFFFC8000018, 0xFFFFFFFFFC0000FF)"
  "or32_tab ! 166 = (0xFFFFFFFFC8000019, 0xFFFFFFFFFC0000FF)"
  "or32_tab ! 167 = (0xFFFFFFFFC800001A, 0xFFFFFFFFFC0000FF)"
  "or32_tab ! 168 = (0xFFFFFFFFC800001B, 0xFFFFFFFFFC0000FF)"
  "or32_tab ! 169 = (0xFFFFFFFFC800001C, 0xFFFFFFFFFC0000FF)"
  "or32_tab ! 170 = (0xFFFFFFFFC800001D, 0xFFFFFFFFFC0000FF)"
  "or32_tab ! 171 = (0xFFFFFFFFC80000E0, 0xFFFFFFFFFC0000F0)"
  "or32_tab ! 172 = (0xFFFFFFFFD0000000, 0xFFFFFFFFFC000000)"
  "or32_tab ! 173 = (0xFFFFFFFFD4000000, 0xFFFFFFFFFC000000)"
  "or32_tab ! 174 = (0xFFFFFFFFD8000000, 0xFFFFFFFFFC000000)"
  "or32_tab ! 175 = (0xFFFFFFFFDC000000, 0xFFFFFFFFFC000000)"
  "or32_tab ! 176 = (0xFFFFFFFFE0000000, 0xFFFFFFFFFC00030F)"
  "or32_tab ! 177 = (0xFFFFFFFFE0000001, 0xFFFFFFFFFC00030F)"
  "or32_tab ! 178 = (0xFFFFFFFFE0000002, 0xFFFFFFFFFC00030F)"
  "or32_tab ! 179 = (0xFFFFFFFFE0000003, 0xFFFFFFFFFC00030F)"
  "or32_tab ! 180 = (0xFFFFFFFFE0000004, 0xFFFFFFFFFC00030F)"
  "or32_tab ! 181 = (0xFFFFFFFFE0000005, 0xFFFFFFFFFC00030F)"
  "or32_tab ! 182 = (0xFFFFFFFFE0000306, 0xFFFFFFFFFC00030F)"
  "or32_tab ! 183 = (0xFFFFFFFFE0000008, 0xFFFFFFFFFC0003CF)"
  "or32_tab ! 184 = (0xFFFFFFFFE0000048, 0xFFFFFFFFFC0003CF)"
  "or32_tab ! 185 = (0xFFFFFFFFE0000088, 0xFFFFFFFFFC0003CF)"
  "or32_tab ! 186 = (0xFFFFFFFFE00000C8, 0xFFFFFFFFFC0003CF)"
  "or32_tab ! 187 = (0xFFFFFFFFE0000309, 0xFFFFFFFFFC00030F)"
  "or32_tab ! 188 = (0xFFFFFFFFE000030A, 0xFFFFFFFFFC00030F)"
  "or32_tab ! 189 = (0xFFFFFFFFE000030B, 0xFFFFFFFFFC00030F)"
  "or32_tab ! 190 = (0xFFFFFFFFE000004C, 0xFFFFFFFFFC0003CF)"
  "or32_tab ! 191 = (0xFFFFFFFFE000000C, 0xFFFFFFFFFC0003CF)"
  "or32_tab ! 192 = (0xFFFFFFFFE000000D, 0xFFFFFFFFFC0003CF)"
  "or32_tab ! 193 = (0xFFFFFFFFE00000CC, 0xFFFFFFFFFC0003CF)"
  "or32_tab ! 194 = (0xFFFFFFFFE000008C, 0xFFFFFFFFFC0003CF)"
  "or32_tab ! 195 = (0xFFFFFFFFE000004D, 0xFFFFFFFFFC0003CF)"
  "or32_tab ! 196 = (0xFFFFFFFFE000000E, 0xFFFFFFFFFC00030F)"
  "or32_tab ! 197 = (0xFFFFFFFFE000000F, 0xFFFFFFFFFC00030F)"
  "or32_tab ! 198 = (0xFFFFFFFFE000010F, 0xFFFFFFFFFC00030F)"
  "or32_tab ! 199 = (0xFFFFFFFFE4000000, 0xFFFFFFFFFFE00000)"
  "or32_tab ! 200 = (0xFFFFFFFFE4200000, 0xFFFFFFFFFFE00000)"
  "or32_tab ! 201 = (0xFFFFFFFFE4400000, 0xFFFFFFFFFFE00000)"
  "or32_tab ! 202 = (0xFFFFFFFFE4600000, 0xFFFFFFFFFFE00000)"
  "or32_tab ! 203 = (0xFFFFFFFFE4800000, 0xFFFFFFFFFFE00000)"
  "or32_tab ! 204 = (0xFFFFFFFFE4A00000, 0xFFFFFFFFFFE00000)"
  "or32_tab ! 205 = (0xFFFFFFFFE5400000, 0xFFFFFFFFFFE00000)"
  "or32_tab ! 206 = (0xFFFFFFFFE5600000, 0xFFFFFFFFFFE00000)"
  "or32_tab ! 207 = (0xFFFFFFFFE5800000, 0xFFFFFFFFFFE00000)"
  "or32_tab ! 208 = (0xFFFFFFFFE5A00000, 0xFFFFFFFFFFE00000)"
  "or32_tab ! 209 = (0xFFFFFFFFF0000000, 0xFFFFFFFFFC000000)"
  "or32_tab ! 210 = (0xFFFFFFFFF4000000, 0xFFFFFFFFFC000000)"
  "or32_tab ! 211 = (0xFFFFFFFFF8000000, 0xFFFFFFFFFC000000)"
  "or32_tab ! 212 = (0xFFFFFFFFFC000000, 0xFFFFFFFFFC000000)"
  by (simp_all add: or32_tab_def nth_append fixed_lengths
      nth_control nth_vector_cmp nth_vector nth_vector2 nth_jump nth_load nth_imm nth_cmp_imm
       nth_mac nth_float nth_double nth_store nth_alu nth_cmp nth_custom)

lemma length_or32: "length or32_opcodes = 213"
  using arg_cong [OF or32_pairs, of length] by (simp add: or32_tab_def fixed_lengths)

lemma upt_lit: "1 < k \<Longrightarrow> [0..<k] = 0 # Suc 0 # [2..<k]" "[0..<Suc 0] = [0]"
  by (simp_all add: upt_rec numeral_2_eq_2)

text \<open>On keys in ascending order the slots are consecutive blocks, so one pass over the rows is enough.\<close>

primrec take_key :: "nat \<Rightarrow> (nat \<times> nat) list \<Rightarrow> nat list" where
  "take_key v [] = []"
| "take_key v (x # xs) = (if fst x = v then snd x # take_key v xs else [])"

primrec drop_key :: "nat \<Rightarrow> (nat \<times> nat) list \<Rightarrow> (nat \<times> nat) list" where
  "drop_key v [] = []"
| "drop_key v (x # xs) = (if fst x = v then drop_key v xs else x # xs)"

primrec block_sizes :: "(nat list \<Rightarrow> nat option) \<Rightarrow> (nat \<times> nat) list
 \<Rightarrow> nat list \<Rightarrow> nat option" where
  "block_sizes rec kis [] = Some 0"
| "block_sizes rec kis (v # vs) = opt_add (rec (take_key v kis)) (block_sizes rec (drop_key v kis) vs)"

lemma pick_take:
  "sorted (map fst kis) \<Longrightarrow> \<forall>x\<in>set kis. v \<le> fst x \<Longrightarrow>
   pick v kis = take_key v kis \<and> sorted (map fst (drop_key v kis)) \<and>
   (\<forall>x\<in>set (drop_key v kis). v < fst x) \<and> (\<forall>w. w \<noteq> v
    \<longrightarrow> pick w (drop_key v kis) = pick w kis)"
proof (induction kis)
  case (Cons x kis)
  show ?case
  proof (cases "fst x = v")
    case True
    then show ?thesis using Cons by simp
  next
    case False
    then have "\<forall>y\<in>set (x # kis). v < fst y" using Cons.prems by fastforce
    moreover from this have "pick v (x # kis) = []" by (auto simp: pick_filter filter_empty_conv)
    ultimately show ?thesis using False Cons.prems(1) by simp
  qed
qed simp

lemma sizes_cong: "\<forall>v\<in>set vs. pick v kis = pick v kis' \<Longrightarrow> sizes rec kis vs = sizes rec kis' vs"
  by (induction vs) simp_all

lemma sizes_sorted:
  "sorted (map fst kis) \<Longrightarrow> \<forall>x\<in>set kis. a \<le> fst x \<Longrightarrow>
   sizes rec kis [a..<b] = block_sizes rec kis [a..<b]"
proof (induction "b - a" arbitrary: a kis)
  case (Suc d)
  then have u: "[a..<b] = a # [Suc a..<b]" by (simp add: upt_conv_Cons)
  note p = pick_take [OF Suc.prems]
  have "sizes rec kis [Suc a..<b] = sizes rec (drop_key a kis) [Suc a..<b]"
    using p by (intro sizes_cong) auto
  also have "\<dots> = block_sizes rec (drop_key a kis) [Suc a..<b]"
    using p Suc.hyps(2) by (intro Suc.hyps(1)) (auto intro: Suc_leI)
  finally show ?case using p u by simp
qed simp

lemma node_size_blocks:
  "node_size tab rec is msk w =
     (if snd w = 0 then None
      else opt_add (Some (2 + 2 ^ snd w))
        (block_sizes (rec (ucast (ucast msk AND NOT (push_bit (fst w) (win (snd w))))))
           (sort_key fst (keyed tab w is)) [0..<2 ^ snd w]))"
proof -
  have "sizes rec kis [0..<n] = block_sizes rec (sort_key fst kis) [0..<n]" for rec kis n
    by (subst sizes_sorted [symmetric])
      (auto intro!: sizes_cong simp: pick_filter sort_key_stable)
  then show ?thesis by (simp add: node_size_def)
qed

lemma key_simps:
  "k = v \<Longrightarrow> take_key v ((k, i) # xs) = i # take_key v xs" "k \<noteq> v
   \<Longrightarrow> take_key v ((k, i) # xs) = []"
  "k = v \<Longrightarrow> drop_key v ((k, i) # xs) = drop_key v xs" "k \<noteq> v \<Longrightarrow>
   drop_key v ((k, i) # xs) = (k, i) # xs"
  "k \<le> k' \<Longrightarrow> insort_key fst (k, i) ((k', j) # xs) = (k :: nat, i) # (k', j) # xs"
  "k' < k \<Longrightarrow> insort_key fst (k, i) ((k', j) # xs) = (k', j) # insort_key fst (k, i) xs"
  by simp_all

declare take_key.simps(2) drop_key.simps(2) insort_key.simps(2) [simp del]

lemmas size_eval =
  key_simps sort_key_simps node_size_blocks keyed_def win_def upt_lit best_window_def grow_window.simps
  MAX_LEN_def or32_nth

text \<open>Four levels are enough for the table; more fuel changes nothing.\<close>

lemma cover_size_fuel:
  "cover_size tab fuel msk is = Some n \<Longrightarrow> fuel \<le> fuel' \<Longrightarrow>
   cover_size tab fuel' msk is = Some n"
proof (induction tab fuel msk "is" arbitrary: n fuel' rule: cover_size.induct)
  case (2 tab fuel msk)
  then show ?case by (cases fuel') auto
next
  case (3 tab fuel msk i)
  then show ?case by (cases fuel') auto
next
  case (4 tab fuel msk i j "is")
  then obtain f where f: "fuel' = Suc f" "fuel \<le> f" by (cases fuel') auto
  let ?w = "best_window (fold (\<lambda>i m. m AND snd (tab ! i)) (i # j # is) (ucast msk))"
  let ?m = "ucast (ucast msk AND NOT (push_bit (fst ?w) (win (snd ?w)))) :: u32"
  have "sizes (cover_size tab f ?m) kis vs = Some k" if "sizes (cover_size tab fuel ?m) kis vs = Some k" for kis vs k
    using that
  proof (induction vs arbitrary: k)
    case (Cons v vs)
    then obtain a b where ab: "cover_size tab fuel ?m (pick v kis) = Some a" "sizes (cover_size tab
     fuel ?m) kis vs = Some b" "k = a + b"
      by (auto simp: opt_add_Some)
    have "cover_size tab f ?m (pick v kis) = Some a" using 4(1) [OF ab(1) f(2)] .
    with ab Cons.IH [OF ab(2)] show ?case by simp
  qed simp
  with 4(2) f show ?case by (auto simp: node_size_def opt_add_Some split: if_splits)
qed simp

lemma or32_size: "cover_size or32_tab (Suc (Suc (Suc (Suc 0)))) 0xFFFFFFFF [0..<213] = Some 791"
  by (simp add: size_eval)

lemma or32_lens: "\<exists>ns. map opc_len or32_opcodes = map Some ns \<and> sum_list ns = 547"
proof -
  have "map opc_len or32_opcodes = map Some
    ([1, 1, 1, 1, 1, 2, 1, 1, 1, 1, 1, 1, 1] @
     [3, 3, 3, 3, 3, 3, 3, 3, 3, 3, 3, 3, 3, 3, 3, 3, 3, 3, 3, 3, 3, 3, 3, 3] @
     [3, 3, 3, 3, 3, 3, 3, 3, 3, 3, 3, 3, 3, 3, 3, 3, 3, 3, 3, 3, 3, 3, 3, 3, 3, 3, 3, 3, 3, 3, 3, 3, 3, 3, 3] @
     [3, 3, 3, 3, 3, 3, 3, 3, 3, 3, 3, 3, 3, 3, 3, 3, 3, 3, 3, 3, 3, 3, 3, 3, 3, 3, 3, 3, 1, 1, 1, 1] @
     [1, 1, 3, 1, 1, 1, 1] @
     [3, 3, 3, 3, 3, 3, 3] @
     [3, 3, 3, 3, 3, 3, 3, 3, 3, 3, 3] @
     [2, 2, 2, 2, 2, 2, 2, 2, 2, 2] @
     [4, 2, 2] @
     [3, 3, 3, 3, 2, 2, 3, 3, 2, 2, 2, 2, 2, 2, 2] @
     [3, 3, 3, 3, 2, 2, 3, 3, 2, 2, 2, 2, 2, 2, 2] @
     [4, 4, 4, 4] @
     [3, 3, 3, 3, 3, 3, 3, 3, 3, 3, 3, 3, 3, 3, 2, 2, 2, 2, 2, 2, 3, 2, 2] @
     [2, 2, 2, 2, 2, 2, 2, 2, 2, 2] @
     [5, 1, 1, 1])"
    by (simp only: or32_opcodes_def map_append lens_control lens_vector_cmp lens_vector lens_vector2
     lens_jump lens_load lens_imm lens_cmp_imm lens_mac lens_float lens_double lens_store lens_alu
     lens_cmp lens_custom)
  then show ?thesis by - (rule exI, rule conjI, assumption, simp)
qed

end
