(* ===== verification/Or32Props.thy ===== *)
theory Or32Props
  imports Or32Run
begin

unbundle bit_operations_syntax

text \<open>
  The properties of the instruction decoder: the construction succeeds on the table within its two
  fixed-size arrays, its recursion ends on every table, and decoding is the search for the row whose
  fixed bits match.
\<close>

lemma or32_cover:
  "\<exists>st'. cover_insn 33 0 0 0xFFFFFFFF
     \<lparr>automaton = garbage, ti = map insn_info_of or32_opcodes, curpass = 0,
      nuncovered = int (length or32_opcodes)\<rparr> = Inr (Some 791, st')"
proof -
  let ?st = "\<lparr>automaton = garbage, ti = map insn_info_of or32_opcodes, curpass = 0,
      nuncovered = int (length or32_opcodes)\<rparr>"
  have pok: "passes_ok ?st" by (simp add: passes_ok_def insn_info_of_def Let_def)
  have ops: "ops ?st = or32_tab"
    by (simp add: or32_pairs [symmetric] ops_def op_pair_def info_pair_def comp_def)
  have pass: "of_pass 0 (ti ?st) = [0..<213]"
    by (auto simp: of_pass_def insn_info_of_def Let_def length_or32 intro!: filter_True)
  have "cover_size or32_tab 33 0xFFFFFFFF [0..<213] = Some 791"
    by (rule cover_size_fuel [OF or32_size]) simp
  then obtain r st' where "cover_insn 33 0 0 0xFFFFFFFF ?st = Inr (r, st')"
      "case r of None \<Rightarrow> (791::nat) = 0 | Some c \<Rightarrow> c = 0 + 791"
    using cover_insn_sized [of 33 or32_tab "0xFFFFFFFF", unfolded sized_def, rule_format,
        where st = ?st and p = 0 and n = 791 and cur = 0] pok ops pass
    by auto
  then show ?thesis by (cases r) auto
qed

lemma or32_built:
  obtains d starts where "build_automaton or32_opcodes garbage Unbuilt = Some (Inr (Built d))"
    "length (d_op_data d) = 547" "length (d_op_start d) = 213"
proof -
  obtain ns where ns: "map opc_len or32_opcodes = map Some ns" "sum_list ns = 547" using or32_lens by blast
  then obtain starts data where p: "parse_all or32_opcodes [] [] = Some (Inr (starts, data))"
      "length data = 547" "length starts = 213"
    using parse_all_len [OF ns(1), of "[]" "[]"] by (auto simp: MAX_OP_TABLE_SIZE_def length_or32)
  have "cover_size (map op_pair or32_opcodes) 33 0xFFFFFFFF [0..<length or32_opcodes] = Some 791"
    unfolding or32_pairs length_or32 by (rule cover_size_fuel [OF or32_size]) simp
  from build_automaton_succeeds [OF this _ p(1), of garbage] p(2,3) show thesis
    by (auto simp: MAX_AUTOMATA_SIZE_def intro: that)
qed

text \<open>C2: \<open>build_automaton\<close> on the opcode table succeeds whatever the fresh array holds, writes to no cell from
  number 791 on (the array has 1200), and fills 547 of the 1200 operand descriptors.\<close>

theorem or32_build_fits:
  "\<exists>d. build_automaton or32_opcodes garbage Unbuilt = Some (Inr (Built d)) \<and>
     (\<forall>x\<ge>791. automaton (d_build d) x = garbage x) \<and> 791 \<le> MAX_AUTOMATA_SIZE \<and>
     length (d_op_data d) = 547 \<and> length (d_op_data d) \<le> MAX_OP_TABLE_SIZE"
proof -
  let ?st = "\<lparr>automaton = garbage, ti = map insn_info_of or32_opcodes, curpass = 0,
      nuncovered = int (length or32_opcodes)\<rparr>"
  obtain d where d: "build_automaton or32_opcodes garbage Unbuilt = Some (Inr (Built d))"
      "length (d_op_data d) = 547"
    by (rule or32_built)
  obtain st' where st': "cover_insn 33 0 0 0xFFFFFFFF ?st = Inr (Some 791, st')"
    using or32_cover by blast
  with build_automaton_Built [OF d(1)] have b: "d_build d = st'" by (metis prod.inject sum.inject(2))
  have "passes_ok ?st" by (simp add: passes_ok_def insn_info_of_def Let_def)
  then have "covered 0 0 ?st (Some 791) st'"
    using cover_insn_ok [unfolded cover_ok_def, rule_format, OF _ _ st'] by simp
  then have "\<forall>x\<ge>791. automaton st' x = garbage x" by (simp add: covered_def)
  then show ?thesis
    using d b by (auto simp: MAX_AUTOMATA_SIZE_def MAX_OP_TABLE_SIZE_def intro!: exI [of _ d])
qed

text \<open>C1: For every 32-bit word the decoder built from the table returns, and what it returns is the search through
  the table: the index of the one row whose fixed bits match the word, or -1 when there is none. In
  particular no two rows match the same word.\<close>

theorem or32_decode:
  "\<exists>d. build_automaton or32_opcodes garbage Unbuilt = Some (Inr (Built d)) \<and>
     (\<forall>w. \<exists>i. insn_decode d w = Some i \<and>
        (i = - 1 \<and> \<not> (\<exists>j<length or32_opcodes. enc_matches (op_encoding (or32_opcodes ! j)) w) \<or>
         (\<exists>k<length or32_opcodes. i = int k \<and>
            {j. j < length or32_opcodes \<and> enc_matches (op_encoding (or32_opcodes ! j)) w} = {k})))"
proof -
  obtain d where d: "build_automaton or32_opcodes garbage Unbuilt = Some (Inr (Built d))"
    by (rule or32_built)
  have ok: "\<forall>p\<in>set or32_opcodes. enc_ok (op_encoding p)"
    using or32_encodings by (simp add: list_all_iff)
  have ne: "or32_opcodes \<noteq> []" "length or32_opcodes \<le> 2 ^ 31" using length_or32 by auto
  show ?thesis
  proof (intro exI [of _ d] conjI d allI)
    fix w
    from decode_correct [OF d ok ne, of w] obtain i where i: "insn_decode d w = Some i"
      "i = - 1 \<and> (\<forall>j<length or32_opcodes. \<not> enc_matches (op_encoding (or32_opcodes ! j)) w) \<or>
       0 \<le> i \<and> nat i < length or32_opcodes \<and>
       (\<forall>j<length or32_opcodes. enc_matches (op_encoding (or32_opcodes ! j)) w \<longleftrightarrow> j = nat i)"
      by blast
    show "\<exists>i. insn_decode d w = Some i \<and>
        (i = - 1 \<and> \<not> (\<exists>j<length or32_opcodes. enc_matches (op_encoding (or32_opcodes ! j)) w) \<or>
         (\<exists>k<length or32_opcodes. i = int k \<and>
            {j. j < length or32_opcodes \<and> enc_matches (op_encoding (or32_opcodes ! j)) w} = {k}))"
      using i by (intro exI [of _ i]) (auto intro!: exI [of _ "nat i"])
  qed
qed

text \<open>C3: The recursion of \<open>cover_insn\<close> ends on every table, mask and pass: every level takes at least one bit
  from the 32-bit mask, so 33 levels are never exhausted.\<close>

theorem cover_insn_terminates: "cover_insn 33 cur pass msk st \<noteq> Inl Out_of_fuel"
  by (rule cover_insn_fuel) (use card_mask_bits [of msk] in simp)

theorem or32_build_fits_witness:
  "\<exists>d. build_automaton or32_opcodes (\<lambda>_. 7) Unbuilt = Some (Inr (Built d)) \<and> automaton (d_build d) 1000 = 7"
  using or32_build_fits [of "\<lambda>_. 7"] by (elim exE conjE) (intro exI conjI, assumption, simp)

text \<open>The word 0x15000001 is \<open>l.nop 0x1\<close>, row 4.\<close>

lemma or32_matches:
  assumes "j < 213"
  shows "enc_matches (op_encoding (or32_opcodes ! j)) w \<longleftrightarrow> fixed_match (or32_tab ! j) w"
proof -
  have "enc_ok (op_encoding (or32_opcodes ! j))"
    using or32_encodings assms length_or32 by (simp add: list_all_length)
  moreover have "or32_tab ! j = op_pair (or32_opcodes ! j)"
    using assms length_or32 by (simp add: or32_pairs [symmetric])
  ultimately show ?thesis using fixed_match_enc by (simp add: op_pair_def)
qed

lemma fixed_match_and:
  assumes "snd p AND ucast w = fst p"
  shows "fixed_match p w"
proof -
  have "bit (fst p) n \<longleftrightarrow> bit (snd p) n \<and> n < 64 \<and> bit w n" for n
    by (simp add: assms [symmetric] bit_and_iff bit_unsigned_iff)
  then show ?thesis by (auto simp: fixed_match_def)
qed

theorem or32_decode_witness:
  "\<exists>d. build_automaton or32_opcodes (\<lambda>_. 7) Unbuilt = Some (Inr (Built d)) \<and> insn_decode d 0x15000001 = Some 4"
proof -
  have "enc_matches (op_encoding (or32_opcodes ! 4)) 0x15000001"
    by (subst or32_matches) (simp_all add: or32_nth fixed_match_and)
  then have m: "4 \<in> {j. j < length or32_opcodes \<and> enc_matches (op_encoding (or32_opcodes ! j)) 0x15000001}"
    by (simp add: length_or32)
  from or32_decode [of "\<lambda>_. 7"] obtain d where
    d: "build_automaton or32_opcodes (\<lambda>_. 7) Unbuilt = Some (Inr (Built d))" and
    r: "\<forall>w. \<exists>i. insn_decode d w = Some i \<and>
        (i = - 1 \<and> \<not> (\<exists>j<length or32_opcodes. enc_matches (op_encoding (or32_opcodes ! j)) w) \<or>
         (\<exists>k<length or32_opcodes. i = int k \<and>
            {j. j < length or32_opcodes \<and> enc_matches (op_encoding (or32_opcodes ! j)) w} = {k}))"
    by blast
  let ?M = "{j. j < length or32_opcodes \<and> enc_matches (op_encoding (or32_opcodes ! j)) 0x15000001}"
  obtain i where i: "insn_decode d 0x15000001 = Some i"
    "i = - 1 \<and> \<not> (\<exists>j<length or32_opcodes. enc_matches (op_encoding (or32_opcodes ! j)) 0x15000001) \<or>
     (\<exists>k<length or32_opcodes. i = int k \<and> ?M = {k})"
    using r by blast
  from i(2) m have "\<exists>k. i = int k \<and> ?M = {k}" by blast
  then obtain k where k: "i = int k" "?M = {k}" by blast
  from m have "4 = k" unfolding k(2) by simp
  with i(1) k(1) have "insn_decode d 0x15000001 = Some 4" by simp
  with d show ?thesis by blast
qed

end
