(* ===== verification/Ring.thy ===== *)
theory Ring
  imports Prelude
begin

text \<open>
  Byte FIFOs.  The locale \<open>byte_fifo\<close> is the interface that the UART driver uses; the
  256-byte circular buffers of \<^verbatim>\<open>uart64_driver.c\<close> (\<^verbatim>\<open>rx_buffer\<close>, \<^verbatim>\<open>tx_buffer\<close> with their in and out
  pointers, advanced modulo 256 by a mask) are its instance.
\<close>

section \<open>The interface\<close>

locale byte_fifo =
  fixes ok :: "'q \<Rightarrow> bool"
    and contents :: "'q \<Rightarrow> string"
    and is_empty :: "'q \<Rightarrow> bool"
    and is_full :: "'q \<Rightarrow> bool"
    and put :: "char \<Rightarrow> 'q \<Rightarrow> 'q"
    and get :: "'q \<Rightarrow> char \<times> 'q"
  assumes empty_iff: "ok q \<Longrightarrow> is_empty q \<longleftrightarrow> contents q = []"
    and put_ok: "ok q \<Longrightarrow> ok (put c q)"
    and get_ok: "ok q \<Longrightarrow> ok (snd (get q))"
    and put_contents: "ok q \<Longrightarrow> \<not> is_full q \<Longrightarrow> contents (put c q) = contents q @ [c]"
    and get_contents: "ok q \<Longrightarrow> \<not> is_empty q \<Longrightarrow> contents q = fst (get q) # contents (snd (get q))"
begin

lemma get_cases:
  assumes "ok q" "contents q = c # cs"
  obtains q' where "get q = (c, q')" "ok q'" "contents q' = cs"
  using assms empty_iff [of q] get_contents [of q] get_ok [of q] by (cases "get q") auto

text \<open>A run of puts and gets returns the characters in the order they were put.\<close>

inductive run :: "'q \<Rightarrow> string \<Rightarrow> string \<Rightarrow> 'q \<Rightarrow> bool" where
  run_init: "run q [] [] q"
| run_put: "run q xs ys q' \<Longrightarrow> \<not> is_full q' \<Longrightarrow> run q (xs @ [c]) ys (put c q')"
| run_get: "run q xs ys q' \<Longrightarrow> \<not> is_empty q' \<Longrightarrow> run q xs (ys @ [fst (get q')]) (snd (get q'))"

lemma run_fifo: "run q xs ys q' \<Longrightarrow> ok q \<Longrightarrow> ok q' \<and> ys @ contents q' = contents q @ xs"
proof (induction rule: run.induct)
  case (run_get q xs ys q')
  then show ?case using get_contents [of q'] get_ok [of q'] by simp
qed (simp_all add: put_ok put_contents flip: append_assoc)

end

section \<open>The circular buffer\<close>

record ring_buf =
  bytes :: string
  inptr :: u32
  outptr :: u32

definition ring_empty :: "ring_buf \<Rightarrow> bool" where
  "ring_empty r \<longleftrightarrow> inptr r = outptr r"

definition ring_full :: "ring_buf \<Rightarrow> bool" where
  "ring_full r \<longleftrightarrow> (inptr r + 1) AND 255 = outptr r"

definition ring_put :: "char \<Rightarrow> ring_buf \<Rightarrow> ring_buf" where
  "ring_put c r = r\<lparr>bytes := (bytes r)[unat (inptr r) := c], inptr := (inptr r + 1) AND 255\<rparr>"

definition ring_get :: "ring_buf \<Rightarrow> char \<times> ring_buf" where
  "ring_get r = (bytes r ! unat (outptr r), r\<lparr>outptr := (outptr r + 1) AND 255\<rparr>)"

definition ring_reset :: "ring_buf \<Rightarrow> ring_buf" where
  "ring_reset r = r\<lparr>inptr := 0, outptr := 0\<rparr>"

text \<open>The C declaration: a zeroed array of 256 bytes.\<close>

definition ring_init :: ring_buf where
  "ring_init = \<lparr> bytes = replicate 256 NUL, inptr = 0, outptr = 0 \<rparr>"

definition ring_ok :: "ring_buf \<Rightarrow> bool" where
  "ring_ok r \<longleftrightarrow> length (bytes r) = 256 \<and> unat (inptr r) < 256 \<and> unat (outptr r) < 256"

text \<open>The window from the out pointer to the in pointer.\<close>

definition window :: "string \<Rightarrow> nat \<Rightarrow> nat \<Rightarrow> string" where
  "window b i o' = map (\<lambda>k. b ! ((o' + k) mod 256)) [0..<(i + 256 - o') mod 256]"

definition ring_contents :: "ring_buf \<Rightarrow> string" where
  "ring_contents r = window (bytes r) (unat (inptr r)) (unat (outptr r))"

lemma mod_256: "n < 512 \<Longrightarrow> n mod 256 = (if n < 256 then n else n - 256)" for n :: nat
  by (simp add: le_mod_geq)

lemma unat_mask_255: "unat (w AND (255 :: u32)) = unat w mod 256"
proof -
  have "w AND (255 :: u32) = take_bit 8 w" by (simp add: take_bit_eq_mask mask_eq_exp_minus_1)
  then show ?thesis by (simp only: unsigned_take_bit_eq) (simp add: take_bit_eq_mod)
qed

lemma unat_next_ptr: "unat w < 256 \<Longrightarrow> unat ((w + 1) AND (255 :: u32)) = Suc (unat w) mod 256"
  unfolding unat_mask_255 by (simp add: unat_word_ariths)

lemma window_put:
  assumes "length b = 256" "i < 256" "j < 256" "Suc i mod 256 \<noteq> j"
  shows "window (b[i := c]) (Suc i mod 256) j = window b i j @ [c]"
proof -
  let ?n = "(i + 256 - j) mod 256"
  have n: "(Suc i mod 256 + 256 - j) mod 256 = Suc ?n"
    using assms by (auto simp: mod_256 split: if_splits)
  have e: "(j + ?n) mod 256 = i" using assms by (simp add: mod_256 split: if_splits)
  have ne: "(j + k) mod 256 \<noteq> i" if "k < ?n" for k
    using that assms by (auto simp: mod_256 split: if_splits)
  have "window b i j = map (\<lambda>k. b[i := c] ! ((j + k) mod 256)) [0..<?n]"
    using ne by (auto simp: window_def nth_list_update_neq [OF ne [THEN not_sym]])
  moreover have "window (b[i := c]) (Suc i mod 256) j =
      map (\<lambda>k. b[i := c] ! ((j + k) mod 256)) [0..<?n] @ [b[i := c] ! ((j + ?n) mod 256)]"
    unfolding window_def n by simp
  ultimately show ?thesis using e assms by simp
qed

lemma window_get:
  assumes "i < 256" "j < 256" "i \<noteq> j"
  shows "window b i j = b ! j # window b i (Suc j mod 256)"
proof -
  let ?n = "(i + 256 - Suc j mod 256) mod 256"
  have n: "(i + 256 - j) mod 256 = Suc ?n" using assms by (auto simp: mod_256 split: if_splits)
  have "(Suc j mod 256 + k) mod 256 = (j + Suc k) mod 256" for k by (simp add: mod_simps)
  then show ?thesis
    using assms by (simp add: window_def n map_upt_Suc del: upt_Suc)
qed

lemma window_empty: "i < 256 \<Longrightarrow> j < 256 \<Longrightarrow> window b i j = [] \<longleftrightarrow> i = j"
  by (auto simp: window_def mod_256 split: if_splits)

lemma ring_empty_iff: "ring_ok r \<Longrightarrow> ring_empty r \<longleftrightarrow> ring_contents r = []"
  by (simp add: ring_empty_def ring_contents_def window_empty ring_ok_def word_unat_eq_iff)

lemma ring_full_unat: "ring_ok r \<Longrightarrow> ring_full r \<longleftrightarrow> Suc (unat (inptr r)) mod 256 = unat (outptr r)"
  by (metis ring_full_def ring_ok_def unat_next_ptr word_unat_eq_iff)

lemma ring_put_ok: "ring_ok r \<Longrightarrow> ring_ok (ring_put c r)"
  by (simp add: ring_ok_def ring_put_def unat_mask_255)

lemma ring_get_ok: "ring_ok r \<Longrightarrow> ring_ok (snd (ring_get r))"
  by (simp add: ring_ok_def ring_get_def unat_mask_255)

lemma ring_put_contents:
  "ring_ok r \<Longrightarrow> \<not> ring_full r \<Longrightarrow> ring_contents (ring_put c r) = ring_contents r @ [c]"
  unfolding ring_full_unat
  by (simp add: ring_contents_def ring_put_def unat_next_ptr window_put ring_ok_def)

lemma ring_get_contents:
  "ring_ok r \<Longrightarrow> \<not> ring_empty r \<Longrightarrow>
   ring_contents r = fst (ring_get r) # ring_contents (snd (ring_get r))"
  by (simp add: ring_contents_def ring_get_def unat_next_ptr ring_ok_def ring_empty_def word_unat_eq_iff
      flip: window_get)

interpretation rb: byte_fifo ring_ok ring_contents ring_empty ring_full ring_put ring_get
  by unfold_locales (fact ring_empty_iff ring_put_ok ring_get_ok ring_put_contents ring_get_contents)+

lemma ring_init_ok [simp]: "ring_ok ring_init" "ring_contents ring_init = []"
  by (simp_all add: ring_ok_def ring_init_def ring_contents_def window_def)

lemma ring_reset_ok [simp]: "ring_ok r \<Longrightarrow> ring_ok (ring_reset r)" "ring_contents (ring_reset r) = []"
  by (simp_all add: ring_ok_def ring_reset_def ring_contents_def window_def)

text \<open>A put into a full buffer makes it empty: the 255 characters it held are lost.\<close>

lemma ring_put_full:
  assumes "ring_ok r" "ring_full r"
  shows "ring_contents (ring_put c r) = []"
proof -
  from assms have "ring_empty (ring_put c r)"
    by (simp add: ring_full_def ring_empty_def ring_put_def)
  with assms show ?thesis using ring_empty_iff ring_put_ok by blast
qed

lemma ring_contents_length: "length (ring_contents r) < 256"
  by (simp add: ring_contents_def window_def)

lemma ring_full_length: "ring_ok r \<Longrightarrow> ring_full r \<longleftrightarrow> length (ring_contents r) = 255"
  by (simp add: ring_full_unat ring_contents_def window_def ring_ok_def)
    (auto simp: mod_256 split: if_splits)

end
