(* ===== verification/UartDev.thy ===== *)
theory UartDev
  imports Prelude
begin

text \<open>
  The Zynq-compatible console UART of the simulator, \<^verbatim>\<open>vhls/src/io/uart64_cbg.cpp\<close>: the registers
  behind \<^verbatim>\<open>b_access\<close>, the three input sources (canned text, canned file, a character logged by an
  input thread), the outputs and the interrupt line.  What the host answers is a parameter:
  the file system of \<^verbatim>\<open>register_canned_input\<close> is an argument, the terminal that \<^verbatim>\<open>open_xterm\<close>
  obtains is the field \<open>xterm_env\<close>.  Dereferencing a null or overrun text pointer is \<open>None\<close>.
  Device operations are atomic with respect to the input threads, so the flag \<^verbatim>\<open>yielding\<close>, which is
  set and cleared inside \<^verbatim>\<open>testch\<close>, is clear between operations.
\<close>

section \<open>State\<close>

datatype con = Ch char | Msg string

record uart_dev =
  xconsole :: bool
  use_stdin :: bool
  xterm_env :: int
  xterm_opened :: bool
  xterm_fd :: int
  xterm_out :: string
  threads_started :: bool
  input_thread0 :: bool
  input_thread1 :: bool
  idle_count :: int
  output_f :: "string option"
  host_stdout :: "con list"
  logged :: u32
  canned_input :: "string option"
  canned_fd :: "string option"
  txready :: bool
  n_reads :: int
  n_writes :: int
  n_outs :: int
  tx_interrupt_level :: u32
  rx_interrupt_level :: u32
  mode_register :: u32
  interrupt_mask_register :: u32
  control_register :: u32
  read_next_char :: bool
  raised_interrupt :: bool
  transmit_char :: bool
  irq_line :: bool

text \<open>The constructor; the mode register is left uninitialised by the code, hence the argument.\<close>

definition uart64_cbg :: "int \<Rightarrow> u32 \<Rightarrow> bool \<Rightarrow> bool \<Rightarrow> uart_dev" where
  "uart64_cbg env mode use_x11 u = \<lparr> xconsole = use_x11, use_stdin = u, xterm_env = env,
     xterm_opened = False, xterm_fd = -1, xterm_out = [], threads_started = False,
     input_thread0 = False, input_thread1 = False, idle_count = 0, output_f = None,
     host_stdout = [], logged = 0, canned_input = None, canned_fd = None, txready = True,
     n_reads = 0, n_writes = 0, n_outs = 0, tx_interrupt_level = 3, rx_interrupt_level = 3,
     mode_register = mode, interrupt_mask_register = 0, control_register = 0x28,
     read_next_char = True, raised_interrupt = False, transmit_char = True, irq_line = False \<rparr>"

section \<open>Register and bit names\<close>

definition UART2_CR :: u8 where "UART2_CR = 0"
definition UART2_MR :: u8 where "UART2_MR = 4"
definition UART2_IER :: u8 where "UART2_IER = 8"
definition UART2_IDR :: u8 where "UART2_IDR = 0xC"
definition UART2_IMR :: u8 where "UART2_IMR = 0x10"
definition UART2_ISR :: u8 where "UART2_ISR = 0x14"
definition UART2_BAUDRATE :: u8 where "UART2_BAUDRATE = 0x18"
definition UART2_RCVR_TIMEOUT :: u8 where "UART2_RCVR_TIMEOUT = 0x1c"
definition UART2_RXWM :: u8 where "UART2_RXWM = 0x20"
definition UART2_SR :: u8 where "UART2_SR = 0x2c"
definition UART2_FIFO :: u8 where "UART2_FIFO = 0x30"
definition UART2_BAUDRATE_DIVIDER :: u8 where "UART2_BAUDRATE_DIVIDER = 0x34"
definition UART2_TXWM :: u8 where "UART2_TXWM = 0x44"

definition INT_TX_EMPTY :: u32 where "INT_TX_EMPTY = 0x08"
definition INT_RX_FULL :: u32 where "INT_RX_FULL = 0x04"
definition INT_RX_EMPTY :: u32 where "INT_RX_EMPTY = 0x02"
definition INT_RX_TRIGGER :: u32 where "INT_RX_TRIGGER = 0x01"

definition STATUS_TX_FULL :: u8 where "STATUS_TX_FULL = 0x10"
definition STATUS_TX_EMPTY :: u8 where "STATUS_TX_EMPTY = 0x08"
definition STATUS_RX_EMPTY :: u8 where "STATUS_RX_EMPTY = 0x02"

lemmas uart_regs = UART2_CR_def UART2_MR_def UART2_IER_def UART2_IDR_def UART2_IMR_def
  UART2_ISR_def UART2_BAUDRATE_def UART2_RCVR_TIMEOUT_def UART2_RXWM_def UART2_SR_def
  UART2_FIFO_def UART2_BAUDRATE_DIVIDER_def UART2_TXWM_def
lemmas uart_bits = INT_TX_EMPTY_def INT_RX_FULL_def INT_RX_EMPTY_def INT_RX_TRIGGER_def
  STATUS_TX_FULL_def STATUS_TX_EMPTY_def STATUS_RX_EMPTY_def

section \<open>Input\<close>

definition open_xterm :: "uart_dev \<Rightarrow> uart_dev" where
  "open_xterm d = d\<lparr>xterm_opened := True, xterm_fd := xterm_env d\<rparr>"

definition start_threads :: "uart_dev \<Rightarrow> uart_dev" where
  "start_threads d =
     (let d1 = d\<lparr>threads_started := True, input_thread0 := use_stdin d,
                 input_thread1 := (0 \<le> xterm_fd d)\<rparr>
      in if \<not> use_stdin d \<and> xterm_fd d < 0
         then d1\<lparr>host_stdout := host_stdout d1 @ [Msg ''Warning: No input devices'']\<rparr> else d1)"

definition testch :: "uart_dev \<Rightarrow> bool \<times> uart_dev" where
  "testch d =
     (if canned_input d \<noteq> None then (True, d)
      else let d1 = (if xconsole d \<and> \<not> xterm_opened d then open_xterm d else d);
               d2 = (if threads_started d1 then d1 else start_threads d1);
               d3 = (if logged d2 = 0
                     then (if idle_count d2 + 1 = 1000 then d2\<lparr>idle_count := 0\<rparr>
                           else d2\<lparr>idle_count := idle_count d2 + 1\<rparr>)
                     else d2)
           in (logged d3 \<noteq> 0, d3))"

definition interrupts_unmasked :: "uart_dev \<Rightarrow> u32 \<times> uart_dev" where
  "interrupts_unmasked d =
     (case testch d of (exist, d1) \<Rightarrow>
       ((if exist then INT_RX_FULL else 0) OR (if exist then INT_RX_TRIGGER else 0) OR
        (if \<not> exist then INT_RX_EMPTY else 0) OR INT_TX_EMPTY, d1))"

definition status_register_read :: "uart_dev \<Rightarrow> u8 \<times> uart_dev" where
  "status_register_read d =
     (case testch d of (exist, d1) \<Rightarrow>
       ((if \<not> exist then STATUS_RX_EMPTY else 0) OR
        (if txready d1 then STATUS_TX_EMPTY else 0), d1))"

definition set_irq :: "bool \<Rightarrow> uart_dev \<Rightarrow> uart_dev" where
  "set_irq b d = d\<lparr>raised_interrupt := b, irq_line := b\<rparr>"

definition update_interrupt :: "uart_dev \<Rightarrow> uart_dev" where
  "update_interrupt d =
     (case interrupts_unmasked d of (unmasked, d1) \<Rightarrow>
        if \<not> raised_interrupt d1 \<and> interrupt_mask_register d1 AND (INT_RX_EMPTY XOR unmasked) \<noteq> 0
        then set_irq True d1
        else if raised_interrupt d1 \<and> unmasked AND INT_RX_EMPTY \<noteq> 0 then set_irq False d1
        else d1)"

definition clear_interrupt :: "u32 \<Rightarrow> uart_dev \<Rightarrow> uart_dev" where
  "clear_interrupt wtc d = d"

text \<open>One round of an input thread: \<open>False\<close> is the reader of the standard input, \<open>True\<close> the reader of
  the terminal, \<open>c\<close> the bytes the host call returned (none at the end of a terminal).\<close>

definition input_process :: "bool \<Rightarrow> char option \<Rightarrow> uart_dev \<Rightarrow> uart_dev" where
  "input_process arg c d =
     (if \<not> read_next_char d then d
      else if arg then
        (case c of None \<Rightarrow> d
         | Some ch \<Rightarrow>
             if control_register d AND 0x10 \<noteq> 0
             then update_interrupt (d\<lparr>logged := of_char ch OR 256, read_next_char := False\<rparr>)
             else d)
      else update_interrupt
             (d\<lparr>logged := (case c of None \<Rightarrow> 255 | Some ch \<Rightarrow> of_char ch) OR 256\<rparr>))"

text \<open>The canned source: a text, or a file when the argument starts with a slash or a dot.\<close>

definition register_canned_input :: "(string \<Rightarrow> string option) \<Rightarrow> string option \<Rightarrow> uart_dev \<Rightarrow> uart_dev option" where
  "register_canned_input fopen_r s d =
     (case s of None \<Rightarrow> Some (d\<lparr>canned_input := None\<rparr>)
      | Some cs \<Rightarrow>
          if cs \<noteq> [] \<and> (hd cs = CHR ''/'' \<or> hd cs = CHR ''.'') then
            (case fopen_r cs of None \<Rightarrow> None
             | Some content \<Rightarrow> Some (d\<lparr>canned_fd := Some content, canned_input := Some cs\<rparr>))
          else Some (d\<lparr>canned_input := Some cs\<rparr>))"

definition unescape1 :: "char \<Rightarrow> char" where
  "unescape1 r =
     (if r = CHR ''q'' then r
      else if r = CHR ''n'' then CHR 0x0A
      else if r = CHR ''r'' then CHR 0x0D
      else if r = CHR ''b'' then CHR 0x08
      else if r = CHR ''f'' then CHR 0x0C
      else if r = CHR 0x5C then CHR 0x5C
      else if r = CHR ''v'' then CHR 0x0B
      else if r = CHR ''t'' then CHR 0x09
      else char_of (of_char r AND (0x1F :: int)))"

text \<open>Reading one byte of the text; the text pointer becomes null after the last one.\<close>

definition next_canned :: "string option \<Rightarrow> (char \<times> string option) option" where
  "next_canned s = (case s of Some (c # cs) \<Rightarrow> Some (c, if cs = [] then None else Some cs) | _ \<Rightarrow> None)"

definition rdch_nonblock :: "uart_dev \<Rightarrow> (char \<times> uart_dev) option" where
  "rdch_nonblock d =
     (if canned_input d \<noteq> None then
        (case canned_fd d of
           Some (c # cs) \<Rightarrow> Some (c, d\<lparr>canned_fd := Some cs\<rparr>)
         | Some [] \<Rightarrow> Some (CHR 0xFF, d\<lparr>canned_fd := None, canned_input := None\<rparr>)
         | None \<Rightarrow>
             (case next_canned (canned_input d) of None \<Rightarrow> None
              | Some (r, s1) \<Rightarrow>
                  if r = CHR 0x5C
                  then (case next_canned s1 of None \<Rightarrow> None
                        | Some (r2, s2) \<Rightarrow> Some (unescape1 r2, d\<lparr>canned_input := s2\<rparr>))
                  else Some (r, d\<lparr>canned_input := s1\<rparr>)))
      else if logged d \<noteq> 0 then
        Some (char_of (uint (logged d AND 0xFF)), update_interrupt (d\<lparr>idle_count := 0, logged := 0\<rparr>))
      else Some (NUL, d))"

text \<open>The blocking read: poll until a character exists (\<open>None\<close> when none comes, or on a fault).\<close>

partial_function (option) rdch :: "uart_dev \<Rightarrow> (char \<times> uart_dev) option" where
  "rdch d = (case testch d of (b, d1) \<Rightarrow> if b then rdch_nonblock d1 else rdch d1)"

section \<open>Output\<close>

definition uart_wrch :: "char \<Rightarrow> uart_dev \<Rightarrow> uart_dev" where
  "uart_wrch c d =
     (let d1 = (if xconsole d \<and> \<not> xterm_opened d then open_xterm d else d);
          d2 = (if xconsole d1 \<and> 0 \<le> xterm_fd d1 \<and> transmit_char d1
                then d1\<lparr>xterm_out := xterm_out d1 @ [c]\<rparr> else d1);
          d3 = d2\<lparr>output_f := map_option (\<lambda>s. s @ [c]) (output_f d2)\<rparr>
      in d3\<lparr>host_stdout := host_stdout d3 @ [Ch c]\<rparr>)"

text \<open>Opening the log file: 0, -1 or -2.\<close>

definition open_log_file :: "(string \<Rightarrow> bool) \<Rightarrow> string option \<Rightarrow> uart_dev \<Rightarrow> int \<times> uart_dev" where
  "open_log_file can_create fn d =
     (if output_f d \<noteq> None then (-1, d)
      else case fn of None \<Rightarrow> (-2, d)
        | Some f \<Rightarrow> if can_create f then (0, d\<lparr>output_f := Some []\<rparr>)
                    else (-1, d\<lparr>host_stdout := host_stdout d @ [Msg ''Could not open log file'']\<rparr>))"

definition end_of_simulation :: "uart_dev \<Rightarrow> uart_dev" where
  "end_of_simulation d = d\<lparr>output_f := None\<rparr>"

section \<open>The bus target\<close>

datatype rsp = TLM_OK_RESPONSE | TLM_ADDRESS_ERROR_RESPONSE | TLM_GENERIC_ERROR_RESPONSE

definition b_read :: "u64 \<Rightarrow> uart_dev \<Rightarrow> (u64 \<times> rsp \<times> uart_dev) option" where
  "b_read adr d0 =
     (let reg = (ucast (adr AND 0xFC) :: u8);
          d = d0\<lparr>n_reads := n_reads d0 + 1\<rparr>;
          res = (if reg = UART2_FIFO then
                   map_option (\<lambda>(c, d'). (of_char c, TLM_OK_RESPONSE, d')) (rdch_nonblock d)
                 else Some
                  (if reg = UART2_MR then (ucast (mode_register d), TLM_OK_RESPONSE, d)
                   else if reg = UART2_CR then (ucast (control_register d), TLM_OK_RESPONSE, d)
                   else if reg = UART2_IMR then (ucast (interrupt_mask_register d), TLM_OK_RESPONSE, d)
                   else if reg = UART2_ISR then
                     (case interrupts_unmasked d of (u, d') \<Rightarrow>
                        (ucast (interrupt_mask_register d AND u), TLM_OK_RESPONSE, d'))
                   else if reg = UART2_SR then
                     (case status_register_read d of (s, d') \<Rightarrow> (s, TLM_OK_RESPONSE, d'))
                   else if reg = UART2_RXWM then (ucast (tx_interrupt_level d), TLM_OK_RESPONSE, d)
                   else if reg = UART2_TXWM then (ucast (tx_interrupt_level d), TLM_OK_RESPONSE, d)
                   else (0 :: u8, TLM_ADDRESS_ERROR_RESPONSE, d)))
      in map_option (\<lambda>(r, rc, d'). (ucast r OR push_bit 32 (ucast r), rc, d')) res)"

definition write_control :: "u8 \<Rightarrow> uart_dev \<Rightarrow> uart_dev" where
  "write_control d u =
     (let (d1, u1) = (if d AND 0x1 \<noteq> 0 then (d AND NOT 0x1, u\<lparr>logged := 0\<rparr>) else (d, u));
          d2 = (if d1 AND 0x2 \<noteq> 0 then d1 AND NOT 0x2 else d1);
          u2 = (if d2 AND 0x4 \<noteq> 0 then u1\<lparr>read_next_char := \<not> read_next_char u1\<rparr> else u1)
      in u2\<lparr>control_register := ucast d2\<rparr>)"

definition b_write :: "u64 \<Rightarrow> u64 \<Rightarrow> bool \<Rightarrow> uart_dev \<Rightarrow> rsp \<times> uart_dev" where
  "b_write adr wdata hi_wordf u0 =
     (let reg0 = (ucast (adr AND 0xFC) :: u8);
          reg = (if hi_wordf then reg0 + 4 else reg0);
          u = u0\<lparr>n_writes := n_writes u0 + 1\<rparr>;
          d = (ucast wdata :: u8)
      in if reg = UART2_FIFO then
           (TLM_OK_RESPONSE, (let u' = uart_wrch (char_of (uint d)) u in u'\<lparr>n_outs := n_outs u' + 1\<rparr>))
         else if reg = UART2_CR then (TLM_OK_RESPONSE, write_control d u)
         else if reg = UART2_MR then (TLM_OK_RESPONSE, u\<lparr>mode_register := ucast d\<rparr>)
         else if reg = UART2_IER then
           (TLM_OK_RESPONSE, u\<lparr>interrupt_mask_register := interrupt_mask_register u OR ucast d,
                               transmit_char := (d AND 0x8 \<noteq> 0 \<or> transmit_char u)\<rparr>)
         else if reg = UART2_IDR then
           (TLM_OK_RESPONSE, u\<lparr>transmit_char := (d AND 0x8 = 0 \<and> transmit_char u),
                               interrupt_mask_register := interrupt_mask_register u AND NOT (ucast d)\<rparr>)
         else if reg = UART2_SR then (TLM_GENERIC_ERROR_RESPONSE, u)
         else if reg = UART2_ISR then (TLM_OK_RESPONSE, clear_interrupt (ucast d) u)
         else if reg = UART2_RXWM then (TLM_OK_RESPONSE, u\<lparr>tx_interrupt_level := ucast d\<rparr>)
         else if reg = UART2_RCVR_TIMEOUT \<or> reg = UART2_BAUDRATE \<or> reg = UART2_BAUDRATE_DIVIDER
         then (TLM_OK_RESPONSE, u)
         else (TLM_OK_RESPONSE, u\<lparr>host_stdout := host_stdout u @ [Msg ''Write undefined register'']\<rparr>))"

section \<open>What the device holds and what it has sent\<close>

text \<open>The characters the device has sent to the host.\<close>

fun con_chars :: "con list \<Rightarrow> string" where
  "con_chars [] = []"
| "con_chars (Ch c # xs) = c # con_chars xs"
| "con_chars (Msg m # xs) = con_chars xs"

lemma con_chars_append [simp]: "con_chars (xs @ ys) = con_chars xs @ con_chars ys"
  by (induction xs rule: con_chars.induct) auto

definition chars_out :: "uart_dev \<Rightarrow> string" where
  "chars_out d = con_chars (host_stdout d)"

text \<open>The characters of a canned text; \<open>None\<close> when it ends inside an escape.\<close>

fun unescape :: "string \<Rightarrow> string option" where
  "unescape [] = Some []"
| "unescape (c # cs) =
     (if c = CHR 0x5C
      then (case cs of [] \<Rightarrow> None | r # rs \<Rightarrow> map_option ((#) (unescape1 r)) (unescape rs))
      else map_option ((#) c) (unescape cs))"

definition logged_chars :: "uart_dev \<Rightarrow> string" where
  "logged_chars d = (if logged d = 0 then [] else [char_of (uint (logged d AND 0xFF))])"

text \<open>The characters the device will deliver if nothing else arrives; a canned file ends with the
  end-of-file value of \<^verbatim>\<open>getc\<close>, truncated to a byte.\<close>

definition pending :: "uart_dev \<Rightarrow> string option" where
  "pending d =
     (case canned_input d of None \<Rightarrow> Some (logged_chars d)
      | Some s \<Rightarrow>
          (case canned_fd d of
             Some f \<Rightarrow> Some (f @ CHR 0xFF # logged_chars d)
           | None \<Rightarrow> if s = [] then None else map_option (\<lambda>t. t @ logged_chars d) (unescape s)))"

text \<open>Polling changes neither the sources nor the output.\<close>

lemma testch_frame [simp]:
  "canned_input (snd (testch d)) = canned_input d" "canned_fd (snd (testch d)) = canned_fd d"
  "logged (snd (testch d)) = logged d" "chars_out (snd (testch d)) = chars_out d"
  "interrupt_mask_register (snd (testch d)) = interrupt_mask_register d"
  "raised_interrupt (snd (testch d)) = raised_interrupt d"
  "irq_line (snd (testch d)) = irq_line d" "txready (snd (testch d)) = txready d"
  "output_f (snd (testch d)) = output_f d" "control_register (snd (testch d)) = control_register d"
  "read_next_char (snd (testch d)) = read_next_char d"
  by (simp_all add: testch_def Let_def start_threads_def open_xterm_def chars_out_def)

lemma testch_fst: "fst (testch d) \<longleftrightarrow> canned_input d \<noteq> None \<or> logged d \<noteq> 0"
  by (simp add: testch_def Let_def start_threads_def open_xterm_def)

lemma interrupts_unmasked_snd [simp]: "snd (interrupts_unmasked d) = snd (testch d)"
  by (simp add: interrupts_unmasked_def split: prod.split)

lemma interrupts_unmasked_fst: "fst (interrupts_unmasked d) = (if fst (testch d) then 0xD else 0xA)"
  by (simp add: interrupts_unmasked_def uart_bits split: prod.split)

lemma status_register_read_snd [simp]: "snd (status_register_read d) = snd (testch d)"
  by (simp add: status_register_read_def split: prod.split)

text \<open>The interrupt line after an update.\<close>

lemma update_interrupt_eq:
  "update_interrupt d =
     (if \<not> raised_interrupt d \<and>
         interrupt_mask_register d AND (if fst (testch d) then 0xF else 0x8) \<noteq> 0
      then set_irq True (snd (testch d))
      else if raised_interrupt d \<and> \<not> fst (testch d) then set_irq False (snd (testch d))
      else snd (testch d))"
  by (simp add: update_interrupt_def case_prod_beta interrupts_unmasked_fst uart_bits)

lemma set_irq_frame [simp]:
  "canned_input (set_irq b d) = canned_input d" "canned_fd (set_irq b d) = canned_fd d"
  "logged (set_irq b d) = logged d" "chars_out (set_irq b d) = chars_out d"
  "interrupt_mask_register (set_irq b d) = interrupt_mask_register d"
  "txready (set_irq b d) = txready d" "raised_interrupt (set_irq b d) = b" "irq_line (set_irq b d) = b"
  by (simp_all add: set_irq_def chars_out_def)

lemma update_interrupt_frame [simp]:
  "canned_input (update_interrupt d) = canned_input d" "canned_fd (update_interrupt d) = canned_fd d"
  "logged (update_interrupt d) = logged d" "chars_out (update_interrupt d) = chars_out d"
  "interrupt_mask_register (update_interrupt d) = interrupt_mask_register d"
  "txready (update_interrupt d) = txready d"
  by (simp_all add: update_interrupt_eq)

lemma logged_chars_cong: "logged d = logged d' \<Longrightarrow> logged_chars d = logged_chars d'"
  by (simp add: logged_chars_def)

lemma pending_cong:
  "canned_input d = canned_input d' \<Longrightarrow> canned_fd d = canned_fd d' \<Longrightarrow> logged d = logged d' \<Longrightarrow>
   pending d = pending d'"
  by (simp add: pending_def logged_chars_def split: option.split)

lemma pending_testch [simp]: "pending (snd (testch d)) = pending d"
  by (rule pending_cong) simp_all

lemma unescape_Nil_iff: "unescape s = Some [] \<longleftrightarrow> s = []"
  by (cases s) (auto split: list.splits)

text \<open>The poll tells whether a character is pending.\<close>

lemma testch_pending: "pending d = Some p \<Longrightarrow> fst (testch d) \<longleftrightarrow> p \<noteq> []"
  by (auto simp: testch_fst pending_def logged_chars_def unescape_Nil_iff
      split: option.splits if_splits)

section \<open>Reading delivers the pending characters in order\<close>

lemma pending_frame [simp]:
  "pending (update_interrupt d) = pending d" "pending (d\<lparr>n_reads := k\<rparr>) = pending d"
  "pending (d\<lparr>n_writes := k\<rparr>) = pending d" "pending (d\<lparr>n_outs := k\<rparr>) = pending d"
  by (rule pending_cong; simp)+

lemma chars_out_upd [simp]:
  "chars_out (d\<lparr>idle_count := k, logged := l\<rparr>) = chars_out d"
  "chars_out (d\<lparr>canned_input := s\<rparr>) = chars_out d"
  "chars_out (d\<lparr>canned_fd := s\<rparr>) = chars_out d"
  "chars_out (d\<lparr>canned_fd := s, canned_input := s'\<rparr>) = chars_out d"
  "chars_out (d\<lparr>n_reads := i\<rparr>) = chars_out d" "chars_out (d\<lparr>n_writes := i\<rparr>) = chars_out d"
  "chars_out (d\<lparr>n_outs := i\<rparr>) = chars_out d"
  by (simp_all add: chars_out_def)

lemma rdch_nonblock_text:
  assumes "canned_input d = Some s" "canned_fd d = None" "pending d = Some (c # cs)"
  shows "\<exists>d'. rdch_nonblock d = Some (c, d') \<and> pending d' = Some cs \<and> chars_out d' = chars_out d"
proof -
  from assms obtain r rs where s: "s = r # rs"
    and u: "map_option (\<lambda>t. t @ logged_chars d) (unescape s) = Some (c # cs)"
    by (cases s) (auto simp: pending_def)
  show ?thesis
  proof (cases "r = CHR 0x5C")
    case False
    with u s obtain t where t: "unescape rs = Some t" "c = r" "cs = t @ logged_chars d" by auto
    let ?d' = "d\<lparr>canned_input := if rs = [] then None else Some rs\<rparr>"
    have "pending ?d' = Some cs"
      using t assms by (auto simp: pending_def logged_chars_def)
    then show ?thesis
      using assms s t False by (auto simp: rdch_nonblock_def next_canned_def)
  next
    case True
    with u s obtain r2 rs2 t where t: "rs = r2 # rs2" "unescape rs2 = Some t" "c = unescape1 r2"
      "cs = t @ logged_chars d" by (auto split: list.splits)
    let ?d' = "d\<lparr>canned_input := if rs2 = [] then None else Some rs2\<rparr>"
    have "pending ?d' = Some cs"
      using t assms by (auto simp: pending_def logged_chars_def)
    then show ?thesis
      using assms s t True by (auto simp: rdch_nonblock_def next_canned_def)
  qed
qed

lemma rdch_nonblock_file:
  assumes "canned_input d = Some s" "canned_fd d = Some f" "pending d = Some (c # cs)"
  shows "\<exists>d'. rdch_nonblock d = Some (c, d') \<and> pending d' = Some cs \<and> chars_out d' = chars_out d"
  using assms by (cases f) (auto simp: pending_def rdch_nonblock_def logged_chars_def)

lemma rdch_nonblock_logged:
  assumes "canned_input d = None" "pending d = Some (c # cs)"
  shows "\<exists>d'. rdch_nonblock d = Some (c, d') \<and> pending d' = Some cs \<and> chars_out d' = chars_out d"
proof -
  from assms have l: "logged d \<noteq> 0" "c = char_of (uint (logged d AND 0xFF))" "cs = []"
    by (auto simp: pending_def logged_chars_def split: if_splits)
  let ?d0 = "d\<lparr>idle_count := 0, logged := 0\<rparr>"
  have "pending ?d0 = Some []" using assms by (simp add: pending_def logged_chars_def)
  then show ?thesis using assms l by (simp add: rdch_nonblock_def)
qed

lemma rdch_nonblock_pending:
  assumes "pending d = Some (c # cs)"
  obtains d' where "rdch_nonblock d = Some (c, d')" "pending d' = Some cs" "chars_out d' = chars_out d"
  using rdch_nonblock_text [OF _ _ assms] rdch_nonblock_file [OF _ _ assms]
    rdch_nonblock_logged [OF _ assms]
  by (metis not_None_eq)

text \<open>A dangling escape or an empty text is read through a bad pointer.\<close>

lemma rdch_nonblock_fault:
  "canned_fd d = None \<Longrightarrow> canned_input d = Some s \<Longrightarrow> s = [] \<or> s = [CHR 0x5C] \<Longrightarrow>
   rdch_nonblock d = None"
  by (auto simp: rdch_nonblock_def next_canned_def)

text \<open>Reading until the source is empty.\<close>

fun drain :: "nat \<Rightarrow> uart_dev \<Rightarrow> (string \<times> uart_dev) option" where
  "drain 0 d = Some ([], d)"
| "drain (Suc n) d =
     (case rdch_nonblock d of None \<Rightarrow> None
      | Some (c, d') \<Rightarrow> map_option (\<lambda>(cs, d''). (c # cs, d'')) (drain n d'))"

lemma drain_pending:
  "pending d = Some p \<Longrightarrow> \<exists>d'. drain (length p) d = Some (p, d') \<and> pending d' = Some []"
proof (induction p arbitrary: d)
  case (Cons c cs)
  then obtain d1 where "rdch_nonblock d = Some (c, d1)" "pending d1 = Some cs"
    by (metis rdch_nonblock_pending)
  with Cons.IH show ?case by fastforce
qed auto

text \<open>Writing any text in the escape notation: control characters and the backslash are escaped.\<close>

definition escape1 :: "char \<Rightarrow> string" where
  "escape1 c =
     (if c = CHR 0x5C then [CHR 0x5C, CHR 0x5C]
      else if (of_char c :: int) = 28 then [CHR 0x5C, CHR 0x7C]
      else if (of_char c :: int) < 32 then [CHR 0x5C, char_of ((of_char c :: int) + 64)]
      else [c])"

definition escape :: "string \<Rightarrow> string" where
  "escape s = concat (map escape1 s)"

lemma escape_simps [simp]: "escape [] = []" "escape (c # cs) = escape1 c @ escape cs"
  by (simp_all add: escape_def)

text \<open>The letter that stands for a control character.\<close>

lemma unescape_control_table:
  "\<forall>n\<in>set [0,1,2,3,4,5,6,7,8,9,10,11,12,13,14,15,16,17,18,19,20,21,22,23,24,25,26,27,29,30,31 :: int].
     unescape1 (char_of (n + 64)) = (char_of n :: char) \<and> CHR 0x5C \<noteq> (char_of (n + 64) :: char)"
  by code_simp

lemma unescape_control:
  fixes n :: int
  assumes "0 \<le> n" "n < 32" "n \<noteq> 28"
  shows "unescape1 (char_of (n + 64)) = (char_of n :: char)" "CHR 0x5C \<noteq> (char_of (n + 64) :: char)"
proof -
  have "n \<in> set [0,1,2,3,4,5,6,7,8,9,10,11,12,13,14,15,16,17,18,19,20,21,22,23,24,25,26,27,29,30,31 :: int]"
    using assms by simp presburger
  then show "unescape1 (char_of (n + 64)) = (char_of n :: char)" "CHR 0x5C \<noteq> (char_of (n + 64) :: char)"
    using unescape_control_table by blast+
qed

lemma unescape1_special: "unescape1 (CHR 0x7C) = CHR 0x1C" "unescape1 (CHR 0x5C) = CHR 0x5C"
  by code_simp+

lemma unescape_escape1: "unescape (escape1 c @ cs) = map_option ((#) c) (unescape cs)"
proof -
  let ?n = "of_char c :: int"
  have c28: "c = CHR 0x1C" if "?n = 28"
  proof -
    have "?n = of_char (CHR 0x1C)" using that by simp
    then show ?thesis by (simp only: of_char_eq_iff)
  qed
  consider "c = CHR 0x5C" | "c \<noteq> CHR 0x5C" "?n = 28" | "c \<noteq> CHR 0x5C" "?n \<noteq> 28" "?n < 32"
    | "c \<noteq> CHR 0x5C" "\<not> ?n < 32" by linarith
  then show ?thesis
  proof cases
    case 3
    then show ?thesis
      using unescape_control [of ?n] by (simp add: escape1_def)
  next
    case 4
    then have "?n \<noteq> 28" by linarith
    with 4 show ?thesis by (simp add: escape1_def)
  qed (simp_all add: escape1_def unescape1_special c28)
qed

lemma unescape_escape [simp]: "unescape (escape s) = Some s"
  by (induction s) (simp_all add: unescape_escape1)

section \<open>Properties of the device\<close>

text \<open>Every non-empty text can be fed to the device as canned input: written in the escape
notation (and not beginning with a slash or a dot, which would name a file), it is accepted and
read back character by character, unchanged, after which no character is pending.\<close>

theorem canned_roundtrip:
  assumes "s \<noteq> []" "hd (escape s) \<noteq> CHR ''/''" "hd (escape s) \<noteq> CHR ''.''"
    and "canned_fd d = None" "logged d = 0"
  shows "\<exists>d1 d2. register_canned_input fo (Some (escape s)) d = Some d1 \<and>
    drain (length s) d1 = Some (s, d2) \<and> \<not> fst (testch d2)"
proof -
  let ?d1 = "d\<lparr>canned_input := Some (escape s)\<rparr>"
  have "escape s \<noteq> []" using assms(1) unescape_escape [of s] by (metis option.inject unescape.simps(1))
  then have r: "register_canned_input fo (Some (escape s)) d = Some ?d1"
    and "pending ?d1 = Some s"
    using assms by (auto simp: register_canned_input_def pending_def logged_chars_def)
  then obtain d2 where "drain (length s) ?d1 = Some (s, d2)" "pending d2 = Some []"
    using drain_pending by blast
  with r show ?thesis using testch_pending [of d2 "[]"] by auto
qed

theorem canned_roundtrip_witness:
  "\<exists>d1 d2. register_canned_input (\<lambda>f. None) (Some (escape [CHR 0x09, CHR 0x5C, CHR ''a'']))
      (uart64_cbg (-1) 0 False False) = Some d1 \<and>
    drain (length [CHR 0x09, CHR 0x5C, CHR ''a'']) d1 = Some ([CHR 0x09, CHR 0x5C, CHR ''a''], d2) \<and>
    \<not> fst (testch d2)"
  by (rule canned_roundtrip) (simp_all add: escape1_def uart64_cbg_def)

text \<open>The interrupt line is the last value of the raised flag and, while the transmit interrupt is
masked, an update makes it high exactly when a character is pending and the line was high or a
receive interrupt is enabled; while the transmit interrupt is enabled and no character is
pending, each update inverts the line.\<close>

theorem update_interrupt_line:
  assumes "irq_line d = raised_interrupt d"
  shows "irq_line (update_interrupt d) = raised_interrupt (update_interrupt d) \<and>
    (interrupt_mask_register d AND INT_TX_EMPTY = 0 \<longrightarrow>
       irq_line (update_interrupt d) =
         (fst (testch d) \<and> (irq_line d \<or> interrupt_mask_register d AND 0xF \<noteq> 0))) \<and>
    (interrupt_mask_register d AND INT_TX_EMPTY \<noteq> 0 \<and> \<not> fst (testch d) \<longrightarrow>
       irq_line (update_interrupt d) = (\<not> irq_line d))"
  using assms by (simp add: update_interrupt_eq uart_bits)

theorem update_interrupt_line_witness:
  "irq_line (update_interrupt ((uart64_cbg (-1) 0 False False)\<lparr>interrupt_mask_register := 8\<rparr>))"
proof -
  let ?d = "(uart64_cbg (-1) 0 False False)\<lparr>interrupt_mask_register := 8\<rparr>"
  have "irq_line ?d = raised_interrupt ?d" "interrupt_mask_register ?d AND INT_TX_EMPTY \<noteq> 0"
    "\<not> fst (testch ?d)" "\<not> irq_line ?d"
    by (simp_all add: uart64_cbg_def uart_bits testch_fst)
  then show ?thesis using update_interrupt_line [of ?d] by blast
qed

end
