(* ===== verification/Uart.thy ===== *)
theory Uart
  imports Ring UartDev
begin

text \<open>
  The UART device driver \<^verbatim>\<open>vhls/src/devicedrivers/uart64_cbg/uart64_driver.c\<close>: polled and
  interrupt-driven reading and writing over two circular buffers.  The driver reaches the
  hardware through five register accesses (the \<^verbatim>\<open>UART2_\<close> macros), which are a record of functions
  on the state of the hardware; the locale \<open>uart_port\<close> states what a port promises and the
  simulated device of \<open>UartDev\<close> is its instance.  A register access that faults and a poll loop that
  never ends are \<open>None\<close>; a driver call that has to wait for the interrupt routine is \<open>None\<close>, too.
\<close>

section \<open>The port\<close>

record 'd port =
  p_status :: "'d \<Rightarrow> (u8 \<times> 'd) option"
  p_receive :: "'d \<Rightarrow> (char \<times> 'd) option"
  p_send :: "char \<Rightarrow> 'd \<Rightarrow> 'd"
  p_int_enable :: "u8 \<Rightarrow> 'd \<Rightarrow> 'd"
  p_int_disable :: "u8 \<Rightarrow> 'd \<Rightarrow> 'd"

section \<open>The driver\<close>

partial_function (option) uart_polled_read :: "'d port \<Rightarrow> 'd \<Rightarrow> (char \<times> 'd) option" where
  "uart_polled_read P d =
     (case p_status P d of None \<Rightarrow> None
      | Some (st, d1) \<Rightarrow>
          if st AND STATUS_RX_EMPTY \<noteq> 0 then uart_polled_read P d1 else p_receive P d1)"

partial_function (option) uart_polled_write :: "'d port \<Rightarrow> char \<Rightarrow> 'd \<Rightarrow> 'd option" where
  "uart_polled_write P c d =
     (case p_status P d of None \<Rightarrow> None
      | Some (st, d1) \<Rightarrow>
          if st AND STATUS_TX_FULL \<noteq> 0 then uart_polled_write P c d1 else Some (p_send P c d1))"

record uart_drv =
  rx :: ring_buf
  tx :: ring_buf
  interrupts_enabled :: bool
  console_flags :: int

definition uart_reset_and_enable :: "'d port \<Rightarrow> uart_drv \<times> 'd \<Rightarrow> uart_drv \<times> 'd" where
  "uart_reset_and_enable P x =
     (case x of (s, d) \<Rightarrow>
        (s\<lparr>rx := ring_reset (rx s), tx := ring_reset (tx s), interrupts_enabled := True\<rparr>,
         p_int_enable P (ucast INT_RX_EMPTY) d))"

definition uart_read_char :: "uart_drv \<Rightarrow> (char \<times> uart_drv) option" where
  "uart_read_char s =
     (if ring_empty (rx s) then None
      else case ring_get (rx s) of (c, r) \<Rightarrow> Some (c, s\<lparr>rx := r\<rparr>))"

definition uart_rx_isr :: "'d port \<Rightarrow> uart_drv \<times> 'd \<Rightarrow> (bool \<times> uart_drv \<times> 'd) option" where
  "uart_rx_isr P x =
     (case x of (s, d) \<Rightarrow>
        (case p_status P d of None \<Rightarrow> None
         | Some (st, d1) \<Rightarrow>
             if st AND STATUS_RX_EMPTY \<noteq> 0 then Some (False, s, d1)
             else (case p_receive P d1 of None \<Rightarrow> None
                   | Some (c, d2) \<Rightarrow> Some (True, s\<lparr>rx := ring_put c (rx s)\<rparr>, d2))))"

definition uart_write_char :: "'d port \<Rightarrow> char \<Rightarrow> uart_drv \<times> 'd \<Rightarrow> (uart_drv \<times> 'd) option" where
  "uart_write_char P c x =
     (case x of (s, d) \<Rightarrow>
        if ring_full (tx s) then None
        else Some (s\<lparr>tx := ring_put c (tx s)\<rparr>, p_int_enable P (ucast INT_TX_EMPTY) d))"

definition uart_tx_isr :: "'d port \<Rightarrow> uart_drv \<times> 'd \<Rightarrow> (bool \<times> uart_drv \<times> 'd) option" where
  "uart_tx_isr P x =
     (case x of (s, d) \<Rightarrow>
        if ring_empty (tx s) then Some (False, s, p_int_disable P (ucast INT_TX_EMPTY) d)
        else (case p_status P d of None \<Rightarrow> None
              | Some (st, d1) \<Rightarrow>
                  if st AND STATUS_TX_FULL \<noteq> 0 then Some (False, s, d1)
                  else (case ring_get (tx s) of (c, r) \<Rightarrow>
                          Some (True, s\<lparr>tx := r\<rparr>, p_send P c d1))))"

partial_function (option) uart_isr_routine :: "'d port \<Rightarrow> uart_drv \<times> 'd \<Rightarrow> (uart_drv \<times> 'd) option" where
  "uart_isr_routine P x =
     (case uart_rx_isr P x of None \<Rightarrow> None
      | Some (w1, x1) \<Rightarrow>
          (case uart_tx_isr P x1 of None \<Rightarrow> None
           | Some (w2, x2) \<Rightarrow> if w1 \<or> w2 then uart_isr_routine P x2 else Some x2))"

definition uart_start :: "uart_drv \<Rightarrow> uart_drv" where
  "uart_start s = s\<lparr>console_flags := 0\<rparr>"

definition craft_rdch :: "'d port \<Rightarrow> 'd \<Rightarrow> (char \<times> 'd) option" where
  "craft_rdch P d = uart_polled_read P d"

definition dispatching_wrch :: "'d port \<Rightarrow> char \<Rightarrow> uart_drv \<times> 'd \<Rightarrow> (uart_drv \<times> 'd) option" where
  "dispatching_wrch P ch x =
     (case x of (s, d) \<Rightarrow>
        if interrupts_enabled s then uart_write_char P ch (s, d)
        else map_option (Pair s) (uart_polled_write P ch d))"

definition craft_wrch :: "'d port \<Rightarrow> char \<Rightarrow> uart_drv \<times> 'd \<Rightarrow> (uart_drv \<times> 'd) option" where
  "craft_wrch P ch x =
     (case dispatching_wrch P ch x of None \<Rightarrow> None
      | Some x1 \<Rightarrow> if ch = CHR 0x0A then dispatching_wrch P (CHR 0x0D) x1 else Some x1)"

text \<open>Writing a text one character at a time.\<close>

fun write_text :: "'d port \<Rightarrow> string \<Rightarrow> uart_drv \<times> 'd \<Rightarrow> (uart_drv \<times> 'd) option" where
  "write_text P [] x = Some x"
| "write_text P (c # cs) x = (case craft_wrch P c x of None \<Rightarrow> None | Some x1 \<Rightarrow> write_text P cs x1)"

text \<open>The cooked form of a text: a line feed is followed by a carriage return.\<close>

fun cooked :: "string \<Rightarrow> string" where
  "cooked [] = []"
| "cooked (c # cs) = (if c = CHR 0x0A then [c, CHR 0x0D] else [c]) @ cooked cs"

text \<open>The driver's variables as the C declarations leave them.\<close>

definition uart_drv_init :: uart_drv where
  "uart_drv_init = \<lparr> rx = ring_init, tx = ring_init, interrupts_enabled = False, console_flags = 0 \<rparr>"

text \<open>
  Runs of the driver: the mainline code writes and reads characters, the interrupt routine's two
  halves run in between, in any order.  A run records the characters written and read and whether
  the receive interrupt ever stored into a full buffer.
\<close>

inductive drv_run :: "'d port \<Rightarrow> uart_drv \<times> 'd \<Rightarrow> string \<Rightarrow> string \<Rightarrow> bool \<Rightarrow> uart_drv \<times> 'd \<Rightarrow> bool"
  for P x0 where
  run_start: "drv_run P x0 [] [] False x0"
| run_write: "drv_run P x0 ws rs ov x \<Longrightarrow> uart_write_char P c x = Some x' \<Longrightarrow>
    drv_run P x0 (ws @ [c]) rs ov x'"
| run_read: "drv_run P x0 ws rs ov (s, d) \<Longrightarrow> uart_read_char s = Some (c, s') \<Longrightarrow>
    drv_run P x0 ws (rs @ [c]) ov (s', d)"
| run_rx_isr: "drv_run P x0 ws rs ov x \<Longrightarrow> uart_rx_isr P x = Some (w, x') \<Longrightarrow>
    drv_run P x0 ws rs (ov \<or> w \<and> ring_full (rx (fst x))) x'"
| run_tx_isr: "drv_run P x0 ws rs ov x \<Longrightarrow> uart_tx_isr P x = Some (w, x') \<Longrightarrow>
    drv_run P x0 ws rs ov x'"

definition drv_ok :: "uart_drv \<Rightarrow> bool" where
  "drv_ok s \<longleftrightarrow> ring_ok (rx s) \<and> ring_ok (tx s)"

section \<open>What a port promises\<close>

locale uart_port =
  fixes P :: "'d port"
    and ok :: "'d \<Rightarrow> bool"
    and inp :: "'d \<Rightarrow> string"
    and outp :: "'d \<Rightarrow> string"
  assumes status: "ok d \<Longrightarrow> \<exists>st d'. p_status P d = Some (st, d') \<and> ok d' \<and> inp d' = inp d \<and>
      outp d' = outp d \<and> (st AND STATUS_RX_EMPTY \<noteq> 0 \<longleftrightarrow> inp d = []) \<and> st AND STATUS_TX_FULL = 0"
    and receive: "ok d \<Longrightarrow> inp d = c # cs \<Longrightarrow>
      \<exists>d'. p_receive P d = Some (c, d') \<and> ok d' \<and> inp d' = cs \<and> outp d' = outp d"
    and send: "ok d \<Longrightarrow> ok (p_send P c d) \<and> inp (p_send P c d) = inp d \<and> outp (p_send P c d) = outp d @ [c]"
    and int_enable: "ok d \<Longrightarrow> ok (p_int_enable P m d) \<and> inp (p_int_enable P m d) = inp d \<and>
      outp (p_int_enable P m d) = outp d"
    and int_disable: "ok d \<Longrightarrow> ok (p_int_disable P m d) \<and> inp (p_int_disable P m d) = inp d \<and>
      outp (p_int_disable P m d) = outp d"
begin

lemma statusE:
  assumes "ok d"
  obtains st d' where "p_status P d = Some (st, d')" "ok d'" "inp d' = inp d" "outp d' = outp d"
    "st AND STATUS_RX_EMPTY \<noteq> 0 \<longleftrightarrow> inp d = []" "st AND STATUS_TX_FULL = 0"
  using status [OF assms] by blast

lemma polled_read:
  assumes "ok d" "inp d = c # cs"
  shows "\<exists>d'. uart_polled_read P d = Some (c, d') \<and> ok d' \<and> inp d' = cs \<and> outp d' = outp d"
proof -
  obtain st d1 where *: "p_status P d = Some (st, d1)" "ok d1" "inp d1 = c # cs" "outp d1 = outp d"
    "st AND STATUS_RX_EMPTY = 0" using statusE [OF assms(1)] assms(2) by (metis list.distinct(1))
  from receive [OF *(2,3)] * show ?thesis by (subst uart_polled_read.simps) auto
qed

lemma polled_write:
  assumes "ok d"
  shows "\<exists>d'. uart_polled_write P c d = Some d' \<and> ok d' \<and> inp d' = inp d \<and> outp d' = outp d @ [c]"
proof -
  obtain st d1 where *: "p_status P d = Some (st, d1)" "ok d1" "inp d1 = inp d" "outp d1 = outp d"
    "st AND STATUS_TX_FULL = 0" by (rule statusE [OF assms])
  from send [OF *(2)] * show ?thesis by (subst uart_polled_write.simps) auto
qed

lemma rx_isr_idle:
  assumes "ok d" "inp d = []"
  shows "\<exists>d'. uart_rx_isr P (s, d) = Some (False, s, d') \<and> ok d' \<and> inp d' = [] \<and> outp d' = outp d"
  using statusE [OF assms(1)] assms(2) by (fastforce simp: uart_rx_isr_def)

lemma rx_isr_char:
  assumes "ok d" "inp d = c # cs"
  shows "\<exists>d'. uart_rx_isr P (s, d) = Some (True, s\<lparr>rx := ring_put c (rx s)\<rparr>, d') \<and>
    ok d' \<and> inp d' = cs \<and> outp d' = outp d"
proof -
  obtain st d1 where *: "p_status P d = Some (st, d1)" "ok d1" "inp d1 = c # cs" "outp d1 = outp d"
    "st AND STATUS_RX_EMPTY = 0" using statusE [OF assms(1)] assms(2) by (metis list.distinct(1))
  from receive [OF *(2,3)] * show ?thesis by (auto simp: uart_rx_isr_def)
qed

lemma tx_isr_idle:
  assumes "ok d" "drv_ok s" "ring_contents (tx s) = []"
  shows "\<exists>d'. uart_tx_isr P (s, d) = Some (False, s, d') \<and> ok d' \<and> inp d' = inp d \<and> outp d' = outp d"
  using assms int_disable by (simp add: uart_tx_isr_def drv_ok_def ring_empty_iff)

lemma tx_isr_char:
  assumes "ok d" "drv_ok s" "ring_contents (tx s) = c # cs"
  shows "\<exists>r d'. uart_tx_isr P (s, d) = Some (True, s\<lparr>tx := r\<rparr>, d') \<and> ring_ok r \<and> ring_contents r = cs \<and>
    ok d' \<and> inp d' = inp d \<and> outp d' = outp d @ [c]"
proof -
  from assms obtain r where r: "ring_get (tx s) = (c, r)" "ring_ok r" "ring_contents r = cs"
    by (metis drv_ok_def rb.get_cases)
  obtain st d1 where *: "p_status P d = Some (st, d1)" "ok d1" "inp d1 = inp d" "outp d1 = outp d"
    "st AND STATUS_TX_FULL = 0" by (rule statusE [OF assms(1)])
  from send [OF *(2)] * r assms show ?thesis
    by (auto simp: uart_tx_isr_def drv_ok_def ring_empty_iff)
qed

text \<open>The interrupt routine terminates: it stores all pending input and sends all buffered output.\<close>

lemma isr_drains:
  assumes "ok d" "drv_ok s" "length (ring_contents (rx s)) + length (inp d) \<le> 255"
  shows "\<exists>s' d'. uart_isr_routine P (s, d) = Some (s', d') \<and> ok d' \<and> drv_ok s' \<and>
    ring_contents (rx s') = ring_contents (rx s) @ inp d \<and> inp d' = [] \<and>
    ring_contents (tx s') = [] \<and> outp d' = outp d @ ring_contents (tx s)"
  using assms
proof (induction "length (inp d) + length (ring_contents (tx s))" arbitrary: s d rule: less_induct)
  case less
  define s1 where "s1 = (case inp d of [] \<Rightarrow> s | c # cs \<Rightarrow> s\<lparr>rx := ring_put c (rx s)\<rparr>)"
  obtain d1 where 1: "uart_rx_isr P (s, d) = Some (inp d \<noteq> [], s1, d1)" "ok d1" "inp d1 = tl (inp d)"
      "outp d1 = outp d"
    using rx_isr_idle [OF less.prems(1), of s] rx_isr_char [OF less.prems(1), of _ _ s]
    by (cases "inp d") (auto simp: s1_def)
  have s1: "drv_ok s1" "tx s1 = tx s"
      "ring_contents (rx s1) @ tl (inp d) = ring_contents (rx s) @ inp d"
    using less.prems ring_put_ok [of "rx s"] ring_full_length [of "rx s"] ring_put_contents [of "rx s"]
    by (cases "inp d"; simp add: s1_def drv_ok_def)+
  show ?case
  proof (cases "ring_contents (tx s)")
    case Nil
    obtain d2 where 2: "uart_tx_isr P (s1, d1) = Some (False, s1, d2)" "ok d2" "inp d2 = tl (inp d)"
      "outp d2 = outp d" using tx_isr_idle [OF 1(2) s1(1)] Nil s1(2) 1 by auto
    show ?thesis
    proof (cases "inp d")
      case i: Nil
      with 1 2 Nil s1 show ?thesis by (subst uart_isr_routine.simps) auto
    next
      case (Cons c cs)
      have "length (ring_contents (rx s1)) + length (inp d2) \<le> 255"
        using less.prems(3) s1(3) 2(3) by (metis length_append)
      from less.hyps [OF _ 2(2) s1(1) this] Cons 1 2 Nil s1 show ?thesis
        by (subst uart_isr_routine.simps) auto
    qed
  next
    case (Cons c cs)
    then obtain r d2 where 2: "uart_tx_isr P (s1, d1) = Some (True, s1\<lparr>tx := r\<rparr>, d2)" "ring_ok r"
      "ring_contents r = cs" "ok d2" "inp d2 = tl (inp d)" "outp d2 = outp d @ [c]"
      using tx_isr_char [OF 1(2) s1(1)] s1(2) 1 by auto
    have "length (ring_contents (rx (s1\<lparr>tx := r\<rparr>))) + length (inp d2) \<le> 255"
      using less.prems(3) s1(3) 2(5) by (metis length_append uart_drv.select_convs(1) uart_drv.surjective uart_drv.update_convs(2))
    from less.hyps [OF _ 2(4) _ this] Cons 1 2 s1 show ?thesis
      by (subst uart_isr_routine.simps) (auto simp: drv_ok_def)
  qed
qed

end

context uart_port
begin

text \<open>One character in cooked form, polled.\<close>

lemma craft_wrch_polled:
  assumes "ok d" "\<not> interrupts_enabled s"
  shows "\<exists>d'. craft_wrch P c (s, d) = Some (s, d') \<and> ok d' \<and> inp d' = inp d \<and>
    outp d' = outp d @ cooked [c]"
proof -
  obtain d1 where 1: "uart_polled_write P c d = Some d1" "ok d1" "inp d1 = inp d" "outp d1 = outp d @ [c]"
    using polled_write [OF assms(1)] by blast
  show ?thesis
  proof (cases "c = CHR 0x0A")
    case False
    with 1 assms show ?thesis by (simp add: craft_wrch_def dispatching_wrch_def)
  next
    case True
    obtain d2 where "uart_polled_write P (CHR 0x0D) d1 = Some d2" "ok d2" "inp d2 = inp d1"
      "outp d2 = outp d1 @ [CHR 0x0D]" using polled_write [OF 1(2)] by blast
    with 1 True assms show ?thesis by (simp add: craft_wrch_def dispatching_wrch_def)
  qed
qed

lemma write_text_polled:
  assumes "ok d" "\<not> interrupts_enabled s"
  shows "\<exists>d'. write_text P cs (s, d) = Some (s, d') \<and> ok d' \<and> inp d' = inp d \<and>
    outp d' = outp d @ cooked cs"
  using assms
proof (induction cs arbitrary: d)
  case (Cons c cs)
  obtain d1 where 1: "craft_wrch P c (s, d) = Some (s, d1)" "ok d1" "inp d1 = inp d"
    "outp d1 = outp d @ cooked [c]" using craft_wrch_polled [OF Cons.prems] by blast
  with Cons.IH [OF 1(2) Cons.prems(2)] show ?case by fastforce
qed simp

text \<open>The effect of one step of either half of the interrupt routine.\<close>

lemma rx_isr_step:
  assumes "uart_rx_isr P (s, d) = Some (w, s', d')" "ok d" "drv_ok s"
  shows "ok d' \<and> drv_ok s' \<and> tx s' = tx s \<and> outp d' = outp d \<and>
    (w \<and> ring_full (rx s) \<or> ring_contents (rx s') @ inp d' = ring_contents (rx s) @ inp d)"
proof (cases "inp d")
  case Nil
  with rx_isr_idle [OF assms(2), of s] assms show ?thesis by auto
next
  case (Cons c cs)
  obtain d2 where "uart_rx_isr P (s, d) = Some (True, s\<lparr>rx := ring_put c (rx s)\<rparr>, d2)"
    "ok d2" "inp d2 = cs" "outp d2 = outp d" using rx_isr_char [OF assms(2) Cons] by blast
  with assms Cons ring_put_contents [of "rx s" c] ring_put_ok [of "rx s" c] show ?thesis
    by (cases "ring_full (rx s)") (auto simp: drv_ok_def)
qed

lemma tx_isr_step:
  assumes "uart_tx_isr P (s, d) = Some (w, s', d')" "ok d" "drv_ok s"
  shows "ok d' \<and> drv_ok s' \<and> rx s' = rx s \<and> inp d' = inp d \<and>
    outp d' @ ring_contents (tx s') = outp d @ ring_contents (tx s)"
proof (cases "ring_contents (tx s)")
  case Nil
  with tx_isr_idle [OF assms(2,3)] assms show ?thesis by auto
next
  case (Cons c cs)
  obtain r d2 where "uart_tx_isr P (s, d) = Some (True, s\<lparr>tx := r\<rparr>, d2)" "ring_ok r" "ring_contents r = cs"
    "ok d2" "inp d2 = inp d" "outp d2 = outp d @ [c]" using tx_isr_char [OF assms(2,3) Cons] by blast
  with assms Cons show ?thesis by (auto simp: drv_ok_def)
qed

lemma write_step:
  assumes "uart_write_char P c (s, d) = Some (s', d')" "ok d" "drv_ok s"
  shows "ok d' \<and> drv_ok s' \<and> rx s' = rx s \<and> inp d' = inp d \<and> outp d' = outp d \<and>
    ring_contents (tx s') = ring_contents (tx s) @ [c]"
  using assms int_enable [OF assms(2)] ring_put_contents [of "tx s" c] ring_put_ok [of "tx s" c]
  by (auto simp: uart_write_char_def drv_ok_def split: if_splits)

lemma read_step:
  assumes "uart_read_char s = Some (c, s')" "drv_ok s"
  shows "drv_ok s' \<and> tx s' = tx s \<and> ring_contents (rx s) = c # ring_contents (rx s')"
  using assms ring_get_contents [of "rx s"] ring_get_ok [of "rx s"]
  by (auto simp: uart_read_char_def drv_ok_def split: if_splits prod.splits)

lemma run_invariant:
  assumes "drv_run P (s0, d0) ws rs ov x" "ok d0" "drv_ok s0"
  shows "ok (snd x) \<and> drv_ok (fst x) \<and>
    outp (snd x) @ ring_contents (tx (fst x)) = outp d0 @ ring_contents (tx s0) @ ws \<and>
    (\<not> ov \<longrightarrow> rs @ ring_contents (rx (fst x)) @ inp (snd x) = ring_contents (rx s0) @ inp d0)"
  using assms
proof (induction rule: drv_run.induct)
  case (run_write ws rs ov x c x')
  then show ?case using write_step [of c "fst x" "snd x" "fst x'" "snd x'"]
    by (simp flip: append_assoc)
next
  case (run_read ws rs ov s d c s')
  then show ?case using read_step [of s c s'] by simp
next
  case (run_rx_isr ws rs ov x w x')
  then show ?case using rx_isr_step [of "fst x" "snd x" w "fst x'" "snd x'"]
    by auto
next
  case (run_tx_isr ws rs ov x w x')
  then show ?case using tx_isr_step [of "fst x" "snd x" w "fst x'" "snd x'"] by simp
qed simp

end

section \<open>The simulated device as the port\<close>

text \<open>The byte accesses of the driver at the register addresses of the second UART; the bus presents
  the byte in the low lane.\<close>

definition UART_BASE :: u64 where "UART_BASE = 0xE0001000"

definition cbg_reg :: "u8 \<Rightarrow> u64" where "cbg_reg r = UART_BASE + ucast r"

definition cbg_port :: "uart_dev port" where
  "cbg_port = \<lparr>
     p_status = (\<lambda>d. map_option (\<lambda>(v, rc, d'). (ucast v, d')) (b_read (cbg_reg UART2_SR) d)),
     p_receive = (\<lambda>d. map_option (\<lambda>(v, rc, d'). (char_of (uint (ucast v :: u8)), d'))
                        (b_read (cbg_reg UART2_FIFO) d)),
     p_send = (\<lambda>c d. snd (b_write (cbg_reg UART2_FIFO) (of_char c) False d)),
     p_int_enable = (\<lambda>m d. snd (b_write (cbg_reg UART2_IER) (ucast m) False d)),
     p_int_disable = (\<lambda>m d. snd (b_write (cbg_reg UART2_IDR) (ucast m) False d)) \<rparr>"

lemma cbg_reg_offset:
  "ucast (cbg_reg UART2_SR AND 0xFC) = UART2_SR" "ucast (cbg_reg UART2_FIFO AND 0xFC) = UART2_FIFO"
  "ucast (cbg_reg UART2_IER AND 0xFC) = UART2_IER" "ucast (cbg_reg UART2_IDR AND 0xFC) = UART2_IDR"
  by (simp_all add: cbg_reg_def UART_BASE_def uart_regs)

lemma low_lane: "(ucast (ucast r OR push_bit 32 (ucast r) :: u64) :: u8) = r" for r :: u8
  by (rule bit_word_eqI) (auto simp: bit_simps)

lemma uint_of_char: "uint (of_char c :: u8) = of_char c"
proof -
  have "(of_char c :: u8) = word_of_int (of_char c)"
    by (rule of_int_of_char [symmetric])
  then show ?thesis using chr_int_range [of c] by (simp add: uint_word_of_int)
qed

lemma char_byte [simp]: "char_of (uint (of_char c :: u8)) = (c :: char)"
  by (simp add: uint_of_char)

lemma cbg_status:
  "p_status cbg_port d = (let d1 = d\<lparr>n_reads := n_reads d + 1\<rparr> in
     Some (fst (status_register_read d1), snd (testch d1)))"
  unfolding cbg_port_def b_read_def cbg_reg_offset
  by (simp add: uart_regs Let_def low_lane case_prod_beta)

lemma cbg_receive:
  "p_receive cbg_port d = rdch_nonblock (d\<lparr>n_reads := n_reads d + 1\<rparr>)"
  unfolding cbg_port_def b_read_def cbg_reg_offset
  by (cases "rdch_nonblock (d\<lparr>n_reads := n_reads d + 1\<rparr>)")
    (auto simp: uart_regs Let_def low_lane case_prod_beta)

lemma chars_out_frame2 [simp]:
  "chars_out (d\<lparr>interrupt_mask_register := i, transmit_char := b\<rparr>) = chars_out d"
  "chars_out (d\<lparr>transmit_char := b, interrupt_mask_register := i\<rparr>) = chars_out d"
  "pending (d\<lparr>interrupt_mask_register := i, transmit_char := b\<rparr>) = pending d"
  "pending (d\<lparr>transmit_char := b, interrupt_mask_register := i\<rparr>) = pending d"
  by (simp add: chars_out_def) (simp add: chars_out_def, (rule pending_cong; simp)+)

lemma wrch_frame: "pending (uart_wrch c d) = pending d" "chars_out (uart_wrch c d) = chars_out d @ [c]"
  by (rule pending_cong; simp add: uart_wrch_def Let_def open_xterm_def)
    (simp add: uart_wrch_def Let_def open_xterm_def chars_out_def)

lemma low_byte_of_char: "(ucast (of_char c :: u64) :: u8) = of_char c"
proof -
  have "(of_char c :: u64) = word_of_int (of_char c)" "(of_char c :: u8) = word_of_int (of_char c)"
    by (simp_all only: of_int_of_char)
  moreover have "take_bit 64 (chr_int c) = chr_int c"
    using order_less_trans [OF chr_int_range(2), of "2 ^ 64" c] by (intro take_bit_int_eq_self) simp_all
  ultimately show ?thesis by (simp add: unsigned_of_int) (metis of_nat_of_char)
qed

lemma cbg_send:
  "p_send cbg_port c d = (let u = uart_wrch c (d\<lparr>n_writes := n_writes d + 1\<rparr>) in u\<lparr>n_outs := n_outs u + 1\<rparr>)"
  unfolding cbg_port_def b_write_def cbg_reg_offset
  by (simp add: uart_regs Let_def low_byte_of_char)

lemma cbg_ints:
  "pending (p_int_enable cbg_port m d) = pending d" "chars_out (p_int_enable cbg_port m d) = chars_out d"
  "pending (p_int_disable cbg_port m d) = pending d" "chars_out (p_int_disable cbg_port m d) = chars_out d"
  unfolding cbg_port_def b_write_def cbg_reg_offset
  by (simp_all add: uart_regs Let_def)

definition dev_ok :: "uart_dev \<Rightarrow> bool" where "dev_ok d \<longleftrightarrow> pending d \<noteq> None"
definition dev_inp :: "uart_dev \<Rightarrow> string" where "dev_inp d = the (pending d)"

lemma dev_cong: "pending d' = pending d \<Longrightarrow> dev_ok d' = dev_ok d \<and> dev_inp d' = dev_inp d"
  by (simp add: dev_ok_def dev_inp_def)

lemma cbg_status_law:
  fixes d :: uart_dev
  assumes "dev_ok d"
  shows "\<exists>st d'. p_status cbg_port d = Some (st, d') \<and> dev_ok d' \<and> dev_inp d' = dev_inp d \<and>
      chars_out d' = chars_out d \<and> (st AND STATUS_RX_EMPTY \<noteq> 0 \<longleftrightarrow> dev_inp d = []) \<and>
      st AND STATUS_TX_FULL = 0"
proof -
  let ?d1 = "d\<lparr>n_reads := n_reads d + 1\<rparr>"
  obtain p where p: "pending d = Some p" "dev_inp d = p" using assms by (auto simp: dev_ok_def dev_inp_def)
  have s: "fst (status_register_read ?d1) AND STATUS_RX_EMPTY \<noteq> 0 \<longleftrightarrow> p = []"
    "fst (status_register_read ?d1) AND STATUS_TX_FULL = 0"
    using testch_pending [of ?d1 p] p
    by (simp_all add: status_register_read_def uart_bits case_prod_beta)
  have "dev_ok (snd (testch ?d1))" "dev_inp (snd (testch ?d1)) = dev_inp d"
    using assms by (simp_all add: dev_ok_def dev_inp_def)
  then show ?thesis
    unfolding cbg_status Let_def
    by (intro exI [of _ "fst (status_register_read ?d1)"] exI [of _ "snd (testch ?d1)"])
      (use s p in simp)
qed

lemma cbg_receive_law:
  fixes d :: uart_dev
  assumes "dev_ok d" "dev_inp d = c # cs"
  shows "\<exists>d'. p_receive cbg_port d = Some (c, d') \<and> dev_ok d' \<and> dev_inp d' = cs \<and>
      chars_out d' = chars_out d"
proof -
  let ?d1 = "d\<lparr>n_reads := n_reads d + 1\<rparr>"
  have "pending ?d1 = Some (c # cs)" using assms by (auto simp: dev_ok_def dev_inp_def)
  then obtain d2 where "rdch_nonblock ?d1 = Some (c, d2)" "pending d2 = Some cs"
      "chars_out d2 = chars_out ?d1" by (rule rdch_nonblock_pending)
  then show ?thesis by (simp add: cbg_receive dev_ok_def dev_inp_def)
qed

lemma cbg_send_law:
  fixes d :: uart_dev
  assumes "dev_ok d"
  shows "dev_ok (p_send cbg_port c d) \<and> dev_inp (p_send cbg_port c d) = dev_inp d \<and>
    chars_out (p_send cbg_port c d) = chars_out d @ [c]"
  using assms by (simp add: cbg_send Let_def wrch_frame dev_ok_def dev_inp_def)

lemma cbg_int_law:
  fixes d :: uart_dev
  assumes "dev_ok d"
  shows "dev_ok (p_int_enable cbg_port m d) \<and> dev_inp (p_int_enable cbg_port m d) = dev_inp d \<and>
      chars_out (p_int_enable cbg_port m d) = chars_out d"
    "dev_ok (p_int_disable cbg_port m d) \<and> dev_inp (p_int_disable cbg_port m d) = dev_inp d \<and>
      chars_out (p_int_disable cbg_port m d) = chars_out d"
  using assms by (simp_all add: cbg_ints dev_ok_def dev_inp_def)

interpretation cbg: uart_port cbg_port dev_ok dev_inp chars_out
  by unfold_locales (fact cbg_status_law cbg_receive_law cbg_send_law cbg_int_law)+

section \<open>Properties of the driver on the simulated device\<close>

text \<open>C26: The interrupt routine terminates on the simulated device: if the receive buffer has room for
the pending characters, it stores all of them in order, sends the whole transmit buffer in order
and leaves the device without input and the transmit buffer empty.\<close>

theorem uart_isr_drains:
  assumes "pending d = Some p" "ring_ok (rx s)" "ring_ok (tx s)"
    and "length (ring_contents (rx s)) + length p \<le> 255"
  shows "\<exists>s' d'. uart_isr_routine cbg_port (s, d) = Some (s', d') \<and>
    ring_contents (rx s') = ring_contents (rx s) @ p \<and> pending d' = Some [] \<and>
    ring_contents (tx s') = [] \<and> chars_out d' = chars_out d @ ring_contents (tx s)"
proof -
  have "dev_ok d" "dev_inp d = p" "drv_ok s" using assms by (simp_all add: dev_ok_def dev_inp_def drv_ok_def)
  with cbg.isr_drains [of d s] assms obtain s' d' where
    "uart_isr_routine cbg_port (s, d) = Some (s', d')" "dev_ok d'" "dev_inp d' = []"
    "ring_contents (rx s') = ring_contents (rx s) @ p" "ring_contents (tx s') = []"
    "chars_out d' = chars_out d @ ring_contents (tx s)" by auto
  then show ?thesis by (auto simp: dev_ok_def dev_inp_def)
qed

theorem uart_isr_drains_witness:
  "\<exists>s' d'. uart_isr_routine cbg_port
      (uart_drv_init\<lparr>tx := ring_put CHR ''x'' ring_init\<rparr>,
       (uart64_cbg (-1) 0 False False)\<lparr>canned_input := Some ''ab''\<rparr>) = Some (s', d') \<and>
    ring_contents (rx s') = ''ab'' \<and> pending d' = Some [] \<and> ring_contents (tx s') = [] \<and>
    chars_out d' = ''x''"
proof -
  have "ring_contents (ring_put CHR ''x'' ring_init) = ''x''"
    by (subst ring_put_contents) (simp_all add: ring_full_length)
  then show ?thesis
    using uart_isr_drains [of "(uart64_cbg (-1) 0 False False)\<lparr>canned_input := Some ''ab''\<rparr>" "''ab''"
        "uart_drv_init\<lparr>tx := ring_put CHR ''x'' ring_init\<rparr>"]
    by (simp add: uart_drv_init_def uart64_cbg_def pending_def logged_chars_def ring_put_ok chars_out_def)
qed

text \<open>C25: In every interleaving of mainline reads and writes with the two halves of the interrupt routine,
the characters sent are exactly those written, in order, the rest being in the transmit buffer;
and unless a receive interrupt stored into a full buffer, the characters read are exactly those
that were pending, in order.\<close>

theorem uart_run_fifo:
  assumes "drv_run cbg_port (uart_drv_init, d0) ws rs ov (s, d)" "pending d0 = Some p"
  shows "chars_out d @ ring_contents (tx s) = chars_out d0 @ ws \<and>
    (\<not> ov \<longrightarrow> pending d \<noteq> None \<and> rs @ ring_contents (rx s) @ the (pending d) = p)"
  using cbg.run_invariant [OF assms(1)] assms(2)
  by (auto simp: dev_ok_def dev_inp_def drv_ok_def uart_drv_init_def)

theorem uart_run_fifo_witness:
  "\<exists>s d. drv_run cbg_port (uart_drv_init, uart64_cbg (-1) 0 False False) ''A'' [] False (s, d) \<and>
     chars_out d @ ring_contents (tx s) = ''A''"
proof -
  let ?d0 = "uart64_cbg (-1) 0 False False"
  obtain s d where w: "uart_write_char cbg_port CHR ''A'' (uart_drv_init, ?d0) = Some (s, d)"
    by (simp add: uart_write_char_def uart_drv_init_def ring_full_length)
  have r: "drv_run cbg_port (uart_drv_init, ?d0) ''A'' [] False (s, d)"
    using run_write [OF run_start w] by simp
  have "pending ?d0 = Some []" "chars_out ?d0 = []"
    by (simp_all add: uart64_cbg_def pending_def logged_chars_def chars_out_def)
  with r uart_run_fifo [OF r] show ?thesis by auto
qed

text \<open>Polled output of a text terminates and sends the text in cooked form (a line feed followed by a
carriage return), without touching the driver's state or the pending input.\<close>

theorem craft_wrch_cooked:
  assumes "pending d = Some p" "\<not> interrupts_enabled s"
  shows "\<exists>d'. write_text cbg_port cs (s, d) = Some (s, d') \<and> pending d' = Some p \<and>
    chars_out d' = chars_out d @ cooked cs"
  using cbg.write_text_polled [of d s cs] assms by (auto simp: dev_ok_def dev_inp_def)

theorem craft_wrch_cooked_witness:
  "\<exists>d'. write_text cbg_port [CHR ''a'', CHR 0x0A] (uart_drv_init, uart64_cbg (-1) 0 False False) =
      Some (uart_drv_init, d') \<and> pending d' = Some [] \<and> chars_out d' = [CHR ''a'', CHR 0x0A, CHR 0x0D]"
  using craft_wrch_cooked [of "uart64_cbg (-1) 0 False False" "[]" uart_drv_init "[CHR ''a'', CHR 0x0A]"]
  by (simp add: uart64_cbg_def pending_def logged_chars_def chars_out_def uart_drv_init_def)

text \<open>The receive interrupt does not test for a full buffer: when the mainline is 255 characters
behind, one more character empties the buffer, and all of them are lost.\<close>

theorem uart_rx_overflow:
  assumes "pending d = Some (c # cs)" "ring_ok (rx s)" "length (ring_contents (rx s)) = 255"
  shows "\<exists>s' d'. uart_rx_isr cbg_port (s, d) = Some (True, s', d') \<and> ring_contents (rx s') = [] \<and>
    uart_read_char s' = None"
proof -
  have f: "ring_full (rx s)" using assms ring_full_length by blast
  obtain d' where "uart_rx_isr cbg_port (s, d) = Some (True, s\<lparr>rx := ring_put c (rx s)\<rparr>, d')"
    using cbg.rx_isr_char [of d c cs s] assms by (auto simp: dev_ok_def dev_inp_def)
  with f assms ring_put_full [OF assms(2) f] show ?thesis
    using ring_empty_iff [OF ring_put_ok [OF assms(2), of c]] by (auto simp: uart_read_char_def)
qed

theorem uart_rx_overflow_witness:
  "\<exists>s' d'. uart_rx_isr cbg_port
      (uart_drv_init\<lparr>rx := \<lparr>bytes = replicate 256 CHR ''z'', inptr = 255, outptr = 0\<rparr>\<rparr>,
       (uart64_cbg (-1) 0 False False)\<lparr>canned_input := Some ''a''\<rparr>) = Some (True, s', d') \<and>
    ring_contents (rx s') = [] \<and> uart_read_char s' = None"
  by (rule uart_rx_overflow [of _ "CHR ''a''" "[]"])
    (simp_all add: uart64_cbg_def pending_def logged_chars_def ring_ok_def ring_contents_def window_def)

end
