(* ===== verification/Djgthreads.thy ===== *)
theory Djgthreads
  imports Prelude
begin

text \<open>
  The bare-metal thread package \<^verbatim>\<open>vhls/src/crt/djgthreads/djgthread.c\<close>: thread control blocks,
  thread creation and joining over polling worker cores, spin mutexes, condition variables,
  thread-specific data and energy accounting (built with \<^verbatim>\<open>SPEEDO_ACCOUNTING\<close>, \<^verbatim>\<open>MAP_THREADS\<close> 0).
  The calling core is an argument (\<^verbatim>\<open>SOCDAM_READ_PID_REG\<close>); the critical sections under
  \<^verbatim>\<open>hwm_mutex\<close> and \<^verbatim>\<open>threads_mm\<close>, which hold a single access each, are atomic.  \<^verbatim>\<open>MM_ACQUIRE\<close> is an
  atomic test-and-set that spins while the word is set, \<^verbatim>\<open>MM_RELEASE\<close> clears the word.  A call that
  would spin or yield is \<open>None\<close>; so is an access outside the thread table.
\<close>

section \<open>State\<close>

record pet2 =
  energy :: u32
  ticks :: u32

record tcb =
  key0 :: addr
  key1 :: addr
  specific0 :: addr
  specific1 :: addr
  accounting_stopped :: bool
  last_start :: pet2
  accounting :: pet2
  targ :: addr
  entryp :: addr
  core :: int
  waiting :: addr

text \<open>The package's variables; \<open>words\<close> are the user's mutex and condition words, \<open>speedo\<close> is what the
  energy registers read now, \<open>failed\<close> lists the lines of failed assertions.\<close>

record djg =
  nexttid :: nat
  core_hwm :: int
  cpu_current :: "int list"
  tcbs :: "tcb list"
  started :: bool
  keyid :: nat
  bcast_mutex :: int
  words :: "addr \<Rightarrow> int"
  speedo :: pet2
  failed :: "nat list"

definition MAXTHREADS :: nat where "MAXTHREADS = 128"
definition MAXCPUS :: nat where "MAXCPUS = 32"

definition tcb_init :: tcb where
  "tcb_init = \<lparr> key0 = 0, key1 = 0, specific0 = 0, specific1 = 0, accounting_stopped = False,
     last_start = \<lparr>energy = 0, ticks = 0\<rparr>, accounting = \<lparr>energy = 0, ticks = 0\<rparr>,
     targ = 0, entryp = 0, core = 0, waiting = 0 \<rparr>"

definition djg_init :: djg where
  "djg_init = \<lparr> nexttid = 1, core_hwm = 0, cpu_current = replicate MAXCPUS 0,
     tcbs = replicate MAXTHREADS tcb_init, started = False, keyid = 100, bcast_mutex = 0,
     words = (\<lambda>_. 0), speedo = \<lparr>energy = 0, ticks = 0\<rparr>, failed = [] \<rparr>"

definition upd_tcb :: "nat \<Rightarrow> (tcb \<Rightarrow> tcb) \<Rightarrow> djg \<Rightarrow> djg" where
  "upd_tcb i f s = s\<lparr>tcbs := (tcbs s)[i := f (tcbs s ! i)]\<rparr>"

section \<open>Start-up and worker cores\<close>

definition check_start :: "djg \<Rightarrow> djg" where
  "check_start s =
     (if started s then s
      else let s1 = s\<lparr>started := True, tcbs := map (\<lambda>t. t\<lparr>core := -1\<rparr>) (tcbs s)\<rparr>
           in upd_tcb 0 (\<lambda>t. t\<lparr>core := 0\<rparr>) s1)"

text \<open>What the reset code does on a core: serve threads, or run the program.\<close>

datatype boot = Serve djg | RunMain djg

definition argv_main :: "int \<Rightarrow> djg \<Rightarrow> boot" where
  "argv_main core_id s = (if 0 < core_id then Serve s else RunMain (check_start s))"

text \<open>A worker core announces itself; it is ready once the package has started.\<close>

definition extra_core_alive :: "nat \<Rightarrow> djg \<Rightarrow> djg" where
  "extra_core_alive core_id s = s\<lparr>cpu_current := (cpu_current s)[core_id := -1]\<rparr>"

definition extra_core_ready :: "nat \<Rightarrow> djg \<Rightarrow> djg option" where
  "extra_core_ready core_id s =
     (if \<not> started s then None
      else Some (if core_hwm s < int core_id then s\<lparr>core_hwm := int core_id\<rparr> else s))"

text \<open>The worker finds thread \<open>i\<close> queued on its core and starts it; when the thread function has
  returned \<open>r\<close>, its result replaces its argument and the slot is freed.\<close>

definition serve_start :: "nat \<Rightarrow> nat \<Rightarrow> djg \<Rightarrow> djg option" where
  "serve_start core_id i s =
     (if i < nexttid s \<and> core (tcbs s ! i) = int core_id then
        Some (upd_tcb i (\<lambda>t. t\<lparr>accounting_stopped := False, last_start := speedo s,
                               accounting := \<lparr>energy = 0, ticks = 0\<rparr>\<rparr>)
               (s\<lparr>cpu_current := (cpu_current s)[core_id := int i]\<rparr>))
      else None)"

definition serve_finish :: "nat \<Rightarrow> addr \<Rightarrow> djg \<Rightarrow> djg" where
  "serve_finish i r s = upd_tcb i (\<lambda>t. t\<lparr>targ := r, core := -1\<rparr>) s"

definition serve_thread :: "(addr \<Rightarrow> addr \<Rightarrow> djg \<Rightarrow> addr \<times> djg) \<Rightarrow> nat \<Rightarrow> nat \<Rightarrow> djg \<Rightarrow> djg option" where
  "serve_thread body core_id i s =
     (case serve_start core_id i s of None \<Rightarrow> None
      | Some s1 \<Rightarrow>
          (case body (entryp (tcbs s1 ! i)) (targ (tcbs s1 ! i)) s1 of
             (r, s2) \<Rightarrow> Some (serve_finish i r s2)))"

definition processor_info :: "int \<Rightarrow> djg \<Rightarrow> int" where
  "processor_info cpu s = (if core_hwm s < cpu then -1 else 0)"

definition djg_self :: "nat \<Rightarrow> djg \<Rightarrow> int \<times> djg" where
  "djg_self core_id s = (let s1 = check_start s in (cpu_current s1 ! core_id, s1))"

definition test_and_set_nonatomic :: "addr \<Rightarrow> int \<Rightarrow> djg \<Rightarrow> int \<times> djg" where
  "test_and_set_nonatomic m nv s = (words s m, s\<lparr>words := (words s)(m := nv)\<rparr>)"

section \<open>Energy accounting\<close>

datatype acct_cmd = ACCT_STOP | ACCT_RESUME

definition djg_accounting_update :: "nat \<Rightarrow> djg \<Rightarrow> djg" where
  "djg_accounting_update tid s =
     (if accounting_stopped (tcbs s ! tid) then s
      else upd_tcb tid (\<lambda>t. t\<lparr>
             accounting := \<lparr>energy = energy (accounting t) + (energy (speedo s) - energy (last_start t)),
                            ticks = ticks (accounting t) + (ticks (speedo s) - ticks (last_start t))\<rparr>,
             last_start := speedo s\<rparr>) s)"

definition accounting_ctrl :: "nat \<Rightarrow> acct_cmd \<Rightarrow> djg \<Rightarrow> djg" where
  "accounting_ctrl core_id cmd s0 =
     (case djg_self core_id s0 of (tid, s) \<Rightarrow>
        let i = nat tid in
        case cmd of
          ACCT_STOP \<Rightarrow>
            (if accounting_stopped (tcbs s ! i) then s
             else upd_tcb i (\<lambda>t. t\<lparr>accounting_stopped := True\<rparr>) (djg_accounting_update i s))
        | ACCT_RESUME \<Rightarrow>
            (if \<not> accounting_stopped (tcbs s ! i) then s
             else upd_tcb i (\<lambda>t. t\<lparr>last_start := speedo s, accounting_stopped := False\<rparr>) s))"

definition accounting_into :: "nat \<Rightarrow> djg \<Rightarrow> pet2" where
  "accounting_into tid s = accounting (tcbs s ! tid)"

section \<open>Mutexes\<close>

definition MM_ACQUIRE :: "addr \<Rightarrow> djg \<Rightarrow> djg option" where
  "MM_ACQUIRE m s = (if words s m = 0 then Some (s\<lparr>words := (words s)(m := 1)\<rparr>) else None)"

definition MM_RELEASE :: "addr \<Rightarrow> djg \<Rightarrow> djg" where
  "MM_RELEASE m s = s\<lparr>words := (words s)(m := 0)\<rparr>"

text \<open>Locking: the part before the spin, and the part from the acquisition on.\<close>

definition mutex_lock_begin :: "nat \<Rightarrow> djg \<Rightarrow> djg" where
  "mutex_lock_begin core_id s = accounting_ctrl core_id ACCT_STOP (check_start s)"

definition mutex_lock_acquire :: "nat \<Rightarrow> addr \<Rightarrow> djg \<Rightarrow> djg option" where
  "mutex_lock_acquire core_id m s = map_option (accounting_ctrl core_id ACCT_RESUME) (MM_ACQUIRE m s)"

definition mutex_lock :: "nat \<Rightarrow> addr \<Rightarrow> djg \<Rightarrow> djg option" where
  "mutex_lock core_id m s = mutex_lock_acquire core_id m (mutex_lock_begin core_id s)"

definition mutex_unlock :: "addr \<Rightarrow> djg \<Rightarrow> djg" where
  "mutex_unlock m s = MM_RELEASE m s"

definition mutex_init :: "addr \<Rightarrow> djg \<Rightarrow> int \<times> djg" where
  "mutex_init m s = (0, s\<lparr>words := (words s)(m := 0)\<rparr>)"

section \<open>Condition variables\<close>

definition cond_init :: "addr \<Rightarrow> djg \<Rightarrow> int \<times> djg" where
  "cond_init c s = (0, s\<lparr>words := (words s)(c := 0)\<rparr>)"

text \<open>Waiting: announce, release the mutex, spin while the announcement stands, lock again.\<close>

definition cond_wait_announce :: "nat \<Rightarrow> addr \<Rightarrow> djg \<Rightarrow> djg" where
  "cond_wait_announce core_id c s =
     (case djg_self core_id s of (tid, s1) \<Rightarrow> upd_tcb (nat tid) (\<lambda>t. t\<lparr>waiting := c\<rparr>) s1)"

definition cond_wait_release :: "nat \<Rightarrow> addr \<Rightarrow> djg \<Rightarrow> djg" where
  "cond_wait_release core_id m s = accounting_ctrl core_id ACCT_STOP (mutex_unlock m s)"

definition cond_wait_spins :: "nat \<Rightarrow> addr \<Rightarrow> djg \<Rightarrow> bool" where
  "cond_wait_spins tid c s \<longleftrightarrow> waiting (tcbs s ! tid) = c"

definition cond_wait_relock :: "nat \<Rightarrow> addr \<Rightarrow> djg \<Rightarrow> djg option" where
  "cond_wait_relock core_id m s =
     map_option (accounting_ctrl core_id ACCT_RESUME) (mutex_lock_acquire core_id m s)"

text \<open>One turn of the broadcast loop, and the whole broadcast.\<close>

definition bcast_one :: "addr \<Rightarrow> nat \<Rightarrow> djg \<Rightarrow> djg" where
  "bcast_one c i s =
     (if waiting (tcbs s ! i) = c then upd_tcb i (\<lambda>t. t\<lparr>waiting := 0\<rparr>) s else s)"

definition cond_broadcast :: "addr \<Rightarrow> djg \<Rightarrow> djg option" where
  "cond_broadcast c s =
     (if bcast_mutex s \<noteq> 0 then None
      else Some ((fold (bcast_one c) [0..<nexttid s] (s\<lparr>bcast_mutex := 1\<rparr>))\<lparr>bcast_mutex := 0\<rparr>))"

definition cond_signal :: "addr \<Rightarrow> djg \<Rightarrow> djg option" where
  "cond_signal c s = cond_broadcast c s"

section \<open>Thread-specific data\<close>

definition setspecific :: "nat \<Rightarrow> addr \<Rightarrow> addr \<Rightarrow> djg \<Rightarrow> djg" where
  "setspecific core_id key arg s0 =
     (case djg_self core_id (check_start s0) of (tid, s) \<Rightarrow>
        let i = nat tid; t = tcbs s ! i in
        if key0 t = key \<or> key0 t = 0 then upd_tcb i (\<lambda>t. t\<lparr>key0 := key, specific0 := arg\<rparr>) s
        else if key1 t = key \<or> key1 t = 0 then upd_tcb i (\<lambda>t. t\<lparr>key1 := key, specific1 := arg\<rparr>) s
        else s\<lparr>failed := failed s @ [451]\<rparr>)"

definition key_create :: "djg \<Rightarrow> addr \<times> djg" where
  "key_create s0 = (let s = check_start s0 in (42 + keyid s, s\<lparr>keyid := keyid s + 1\<rparr>))"

definition getspecific :: "nat \<Rightarrow> addr \<Rightarrow> djg \<Rightarrow> addr \<times> djg" where
  "getspecific core_id k s0 =
     (case djg_self core_id s0 of (tid, s) \<Rightarrow>
        let t = tcbs s ! nat tid in
        if key0 t = k then (specific0 t, s)
        else if key1 t = k then (specific1 t, s)
        else (0, s\<lparr>failed := failed s @ [480]\<rparr>))"

section \<open>Thread creation and termination\<close>

definition thread_exit :: "nat \<Rightarrow> addr \<Rightarrow> djg \<Rightarrow> djg" where
  "thread_exit core_id retval s0 =
     (case djg_self core_id s0 of (tid, s) \<Rightarrow> upd_tcb (nat tid) (\<lambda>t. t\<lparr>targ := retval, core := -1\<rparr>) s)"

text \<open>The table slot a new thread gets: a free one, else the next one if its core exists.\<close>

fun first_free :: "nat \<Rightarrow> nat \<Rightarrow> djg \<Rightarrow> nat" where
  "first_free 0 tid s = tid"
| "first_free (Suc n) tid s = (if core (tcbs s ! tid) < 0 then tid else first_free n (Suc tid) s)"

definition thread_create :: "addr \<Rightarrow> addr \<Rightarrow> djg \<Rightarrow> (nat \<times> djg) option" where
  "thread_create ep arg s =
     (let tid = first_free (nexttid s) 0 s;
          found = (if tid < nexttid s then Some s
                   else if int tid \<le> core_hwm s then Some (s\<lparr>nexttid := nexttid s + 1\<rparr>)
                   else None)
      in case found of None \<Rightarrow> None
         | Some s1 \<Rightarrow>
             let s2 = upd_tcb tid (\<lambda>t. t\<lparr>key0 := 0, key1 := 0, waiting := 0,
                        accounting := \<lparr>energy = 0, ticks = 0\<rparr>, targ := arg, entryp := ep,
                        core := int tid\<rparr>) s1;
                 s3 = (if int tid \<le> core_hwm s2 then s2 else s2\<lparr>failed := failed s2 @ [567]\<rparr>);
                 s4 = (if tid < MAXTHREADS then s3 else s3\<lparr>failed := failed s3 @ [569]\<rparr>)
             in Some (tid, s4))"

text \<open>Joining returns the thread's result once its slot is free.\<close>

definition thread_join :: "nat \<Rightarrow> djg \<Rightarrow> addr option" where
  "thread_join tid s = (if core (tcbs s ! tid) < 0 then Some (targ (tcbs s ! tid)) else None)"

section \<open>Barriers\<close>

record barrier =
  b_m :: addr
  b_c :: addr
  b_n :: int
  b_cycle :: u32
  b_customers :: int

definition barrier_init :: "addr \<Rightarrow> addr \<Rightarrow> int \<Rightarrow> djg \<Rightarrow> barrier \<times> djg" where
  "barrier_init m c customers s =
     (\<lparr>b_m = m, b_c = c, b_n = 0, b_cycle = 0, b_customers = customers\<rparr>,
      snd (cond_init c (snd (mutex_init m s))))"

definition SERIAL_THREAD :: int where "SERIAL_THREAD = 1000"

text \<open>Where a thread is inside \<^verbatim>\<open>djgthread_barrier_wait\<close>; the argument is its local \<^verbatim>\<open>cycle\<close>, the index
  of its broadcast loop or its return code.\<close>

datatype bpc =
    Outside | Entering | Entered | Test u32 | Announced u32 | Spin u32 | Relock u32
  | BcastAcq | Bcast nat | Leaving int

text \<open>A barrier in use: the machine, the barrier, each thread's position, and (history) the number of
  times each thread has arrived.\<close>

record bst =
  mach :: djg
  bar :: barrier
  pcs :: "nat \<Rightarrow> bpc"
  arrivals :: "nat \<Rightarrow> nat"

definition set_pc :: "nat \<Rightarrow> bpc \<Rightarrow> bst \<Rightarrow> bst" where
  "set_pc t p x = x\<lparr>pcs := (pcs x)(t := p)\<rparr>"

text \<open>Arriving under the mutex: count; the last arrival resets the count and opens the next cycle.\<close>

definition barrier_arrive :: "nat \<Rightarrow> bst \<Rightarrow> bst" where
  "barrier_arrive t x =
     (let b = bar x; n = b_n b + 1;
          x1 = x\<lparr>arrivals := (arrivals x)(t := arrivals x t + 1)\<rparr>
      in if n < b_customers b
         then set_pc t (Test (b_cycle b)) (x1\<lparr>bar := b\<lparr>b_n := n\<rparr>\<rparr>)
         else set_pc t BcastAcq (x1\<lparr>bar := b\<lparr>b_n := 0, b_cycle := b_cycle b + 1\<rparr>\<rparr>))"

definition barrier_test :: "nat \<Rightarrow> u32 \<Rightarrow> bst \<Rightarrow> bst" where
  "barrier_test t cyc x =
     (if cyc = b_cycle (bar x)
      then set_pc t (Announced cyc) (x\<lparr>mach := cond_wait_announce t (b_c (bar x)) (mach x)\<rparr>)
      else set_pc t (Leaving 0) x)"

inductive bstep :: "nat \<Rightarrow> bst \<Rightarrow> bst \<Rightarrow> bool" for t where
  b_begin: "pcs x t = Outside \<Longrightarrow>
    bstep t x (set_pc t Entering (x\<lparr>mach := mutex_lock_begin t (mach x)\<rparr>))"
| b_enter: "pcs x t = Entering \<Longrightarrow> mutex_lock_acquire t (b_m (bar x)) (mach x) = Some s' \<Longrightarrow>
    bstep t x (set_pc t Entered (x\<lparr>mach := s'\<rparr>))"
| b_arrive: "pcs x t = Entered \<Longrightarrow> bstep t x (barrier_arrive t x)"
| b_test: "pcs x t = Test cyc \<Longrightarrow> bstep t x (barrier_test t cyc x)"
| b_release: "pcs x t = Announced cyc \<Longrightarrow>
    bstep t x (set_pc t (Spin cyc) (x\<lparr>mach := cond_wait_release t (b_m (bar x)) (mach x)\<rparr>))"
| b_spin_end: "pcs x t = Spin cyc \<Longrightarrow> \<not> cond_wait_spins t (b_c (bar x)) (mach x) \<Longrightarrow>
    bstep t x (set_pc t (Relock cyc) (x\<lparr>mach := mutex_lock_begin t (mach x)\<rparr>))"
| b_relock: "pcs x t = Relock cyc \<Longrightarrow> cond_wait_relock t (b_m (bar x)) (mach x) = Some s' \<Longrightarrow>
    bstep t x (set_pc t (Test cyc) (x\<lparr>mach := s'\<rparr>))"
| b_bcast_acq: "pcs x t = BcastAcq \<Longrightarrow> bcast_mutex (mach x) = 0 \<Longrightarrow>
    bstep t x (set_pc t (Bcast 0) (x\<lparr>mach := (mach x)\<lparr>bcast_mutex := 1\<rparr>\<rparr>))"
| b_bcast: "pcs x t = Bcast i \<Longrightarrow> i < nexttid (mach x) \<Longrightarrow>
    bstep t x (set_pc t (Bcast (Suc i)) (x\<lparr>mach := bcast_one (b_c (bar x)) i (mach x)\<rparr>))"
| b_bcast_end: "pcs x t = Bcast i \<Longrightarrow> \<not> i < nexttid (mach x) \<Longrightarrow>
    bstep t x (set_pc t (Leaving SERIAL_THREAD) (x\<lparr>mach := (mach x)\<lparr>bcast_mutex := 0\<rparr>\<rparr>))"
| b_leave: "pcs x t = Leaving rc \<Longrightarrow>
    bstep t x (set_pc t Outside (x\<lparr>mach := mutex_unlock (b_m (bar x)) (mach x)\<rparr>))"

inductive_cases bstepE: "bstep t x x'"

text \<open>Runs of the threads \<open>0..<T\<close> over one barrier.\<close>

inductive brun :: "nat \<Rightarrow> bst \<Rightarrow> bst \<Rightarrow> bool" for T x0 where
  brun_start: "brun T x0 x0"
| brun_step: "brun T x0 x \<Longrightarrow> t < T \<Longrightarrow> bstep t x x' \<Longrightarrow> brun T x0 x'"

end
