(* ===== verification/DjgBarrier.thy ===== *)
theory DjgBarrier
  imports Djgthreads
begin

text \<open>
  Correctness of the barrier of \<^verbatim>\<open>djgthread.c\<close> under every interleaving of its threads: an
  invariant of the steps \<open>bstep\<close>, stated over the parts of the state that they read and write.
\<close>

section \<open>The invariant\<close>

fun holds :: "bpc \<Rightarrow> bool" where
  "holds Entered = True" | "holds (Test cy) = True" | "holds (Announced cy) = True"
| "holds BcastAcq = True" | "holds (Bcast i) = True" | "holds (Leaving r) = True"
| "holds Outside = False" | "holds Entering = False" | "holds (Spin cy) = False"
| "holds (Relock cy) = False"

text \<open>In cycle \<open>K\<close>: a thread whose local cycle is current has arrived once more than \<open>K\<close> times; one
  released from the cycle before has arrived \<open>K\<close> times, as have all threads that do not wait.\<close>

definition fresh_or_stale :: "nat \<Rightarrow> u32 \<Rightarrow> nat \<Rightarrow> bool" where
  "fresh_or_stale K cy a \<longleftrightarrow>
     (a = Suc K \<and> cy = of_nat K) \<or> (a = K \<and> 0 < K \<and> cy = of_nat (K - 1))"

fun epoch_ok :: "nat \<Rightarrow> bpc \<Rightarrow> nat \<Rightarrow> bool" where
  "epoch_ok K (Test cy) a = fresh_or_stale K cy a"
| "epoch_ok K (Announced cy) a = (a = Suc K \<and> cy = of_nat K)"
| "epoch_ok K (Spin cy) a = fresh_or_stale K cy a"
| "epoch_ok K (Relock cy) a = fresh_or_stale K cy a"
| "epoch_ok K p a = (a = K)"

text \<open>\<open>P\<close> positions, \<open>A\<close> arrivals, \<open>n\<close> and \<open>cyc\<close> of the barrier, \<open>lk\<close> its mutex word, \<open>bm\<close> the broadcast
  mutex, \<open>w\<close> what each thread waits on, \<open>c\<close> the barrier's condition variable.\<close>

definition lock_inv :: "nat \<Rightarrow> (nat \<Rightarrow> bpc) \<Rightarrow> int \<Rightarrow> int \<Rightarrow> bool" where
  "lock_inv T P lk bm \<longleftrightarrow>
     (lk \<noteq> 0 \<longleftrightarrow> (\<exists>t<T. holds (P t))) \<and>
     (\<forall>t<T. \<forall>u<T. holds (P t) \<longrightarrow> holds (P u) \<longrightarrow> t = u) \<and>
     (bm \<noteq> 0 \<longrightarrow> (\<exists>t<T. \<exists>i. P t = Bcast i))"

definition count_inv :: "nat \<Rightarrow> nat \<Rightarrow> (nat \<Rightarrow> bpc) \<Rightarrow> (nat \<Rightarrow> nat) \<Rightarrow> int \<Rightarrow> u32 \<Rightarrow> bool" where
  "count_inv T K P A n cyc \<longleftrightarrow>
     cyc = of_nat K \<and> (\<forall>t<T. epoch_ok K (P t) (A t)) \<and>
     n = int (card {t. t < T \<and> A t = Suc K}) \<and> n < int T"

definition wake_inv :: "nat \<Rightarrow> nat \<Rightarrow> addr \<Rightarrow> (nat \<Rightarrow> bpc) \<Rightarrow> (nat \<Rightarrow> nat) \<Rightarrow> (nat \<Rightarrow> addr) \<Rightarrow> bool" where
  "wake_inv T K c P A w \<longleftrightarrow>
     (\<forall>t<T. w t = c \<longrightarrow> A t = K \<longrightarrow> (\<exists>cy. P t = Spin cy) \<longrightarrow>
        (\<exists>u<T. P u = BcastAcq \<or> (\<exists>i\<le>t. P u = Bcast i)))"

section \<open>Preservation by the kinds of steps\<close>

lemma lock_invI:
  assumes "lk \<noteq> 0 \<longleftrightarrow> (\<exists>t<T. holds (P t))"
    and "\<And>t u. t < T \<Longrightarrow> u < T \<Longrightarrow> holds (P t) \<Longrightarrow> holds (P u) \<Longrightarrow> t = u"
    and "bm \<noteq> 0 \<Longrightarrow> \<exists>t<T. \<exists>i. P t = Bcast i"
  shows "lock_inv T P lk bm"
  using assms unfolding lock_inv_def by blast

lemma lock_invD:
  assumes "lock_inv T P lk bm"
  shows "lk \<noteq> 0 \<longleftrightarrow> (\<exists>t<T. holds (P t))"
    and "t < T \<Longrightarrow> u < T \<Longrightarrow> holds (P t) \<Longrightarrow> holds (P u) \<Longrightarrow> t = u"
    and "bm \<noteq> 0 \<Longrightarrow> \<exists>t<T. \<exists>i. P t = Bcast i"
  using assms unfolding lock_inv_def by blast+

lemma lock_inv_keep:
  assumes "lock_inv T P lk bm" "t < T" "holds p = holds (P t)" "\<And>i. P t = Bcast i \<Longrightarrow> \<exists>j. p = Bcast j"
  shows "lock_inv T (P(t := p)) lk bm"
proof (rule lock_invI)
  have h: "holds ((P(t := p)) u) = holds (P u)" for u using assms(3) by simp
  then show "lk \<noteq> 0 \<longleftrightarrow> (\<exists>u<T. holds ((P(t := p)) u))" using lock_invD(1) [OF assms(1)] by simp
  show "u = v" if "u < T" "v < T" "holds ((P(t := p)) u)" "holds ((P(t := p)) v)" for u v
    using that lock_invD(2) [OF assms(1)] h by simp
  show "\<exists>u<T. \<exists>i. (P(t := p)) u = Bcast i" if "bm \<noteq> 0"
    using lock_invD(3) [OF assms(1) that] assms(4) by (metis fun_upd_other fun_upd_same)
qed

lemma lock_inv_free: "lock_inv T P 0 bm \<Longrightarrow> u < T \<Longrightarrow> \<not> holds (P u)"
  using lock_invD(1) by blast

lemma lock_inv_acquire:
  assumes "lock_inv T P 0 bm" "t < T" "holds p" "lk \<noteq> 0"
  shows "lock_inv T (P(t := p)) lk bm"
proof (rule lock_invI)
  show "lk \<noteq> 0 \<longleftrightarrow> (\<exists>u<T. holds ((P(t := p)) u))" using assms by auto
  show "u = v" if "u < T" "v < T" "holds ((P(t := p)) u)" "holds ((P(t := p)) v)" for u v
    using that lock_inv_free [OF assms(1)] by (metis fun_upd_other)
  show "\<exists>u<T. \<exists>i. (P(t := p)) u = Bcast i" if "bm \<noteq> 0"
    using lock_invD(3) [OF assms(1) that] lock_inv_free [OF assms(1)] by (metis holds.simps(5))
qed

lemma lock_inv_release:
  assumes "lock_inv T P lk bm" "t < T" "holds (P t)" "\<not> holds p" "\<And>i. P t \<noteq> Bcast i"
  shows "lock_inv T (P(t := p)) 0 bm"
proof (rule lock_invI)
  have o: "\<not> holds (P u)" if "u < T" "u \<noteq> t" for u
    using lock_invD(2) [OF assms(1)] that assms(2,3) by blast
  then show "0 \<noteq> (0 :: int) \<longleftrightarrow> (\<exists>u<T. holds ((P(t := p)) u))" using assms(4) by auto
  show "u = v" if "u < T" "v < T" "holds ((P(t := p)) u)" "holds ((P(t := p)) v)" for u v
    using that o assms(4) by (metis fun_upd_other fun_upd_same)
  show "\<exists>u<T. \<exists>i. (P(t := p)) u = Bcast i" if "bm \<noteq> 0"
    using lock_invD(3) [OF assms(1) that] o assms(5) by (metis holds.simps(5))
qed

text \<open>Moving within the critical section with the broadcast mutex free.\<close>

lemma lock_inv_inside:
  assumes "lock_inv T P lk bm" "holds p = holds (P t)"
  shows "lock_inv T (P(t := p)) lk 0"
proof (rule lock_invI)
  have h: "holds ((P(t := p)) u) = holds (P u)" for u using assms(2) by simp
  then show "lk \<noteq> 0 \<longleftrightarrow> (\<exists>u<T. holds ((P(t := p)) u))" using lock_invD(1) [OF assms(1)] by simp
  show "u = v" if "u < T" "v < T" "holds ((P(t := p)) u)" "holds ((P(t := p)) v)" for u v
    using that lock_invD(2) [OF assms(1)] h by simp
qed simp

lemma lock_inv_bm: "lock_inv T P lk bm \<Longrightarrow> t < T \<Longrightarrow> P t = Bcast i \<Longrightarrow> lock_inv T P lk bm'"
  unfolding lock_inv_def by blast

lemma lock_inv_bcast:
  assumes "lock_inv T P lk 0" "t < T" "P t = BcastAcq"
  shows "lock_inv T (P(t := Bcast 0)) lk bm"
  using lock_inv_bm [OF lock_inv_keep [OF assms(1,2), of "Bcast 0"] assms(2)] assms(3) by simp

lemma lock_inv_bcast_end:
  assumes "lock_inv T P lk bm" "t < T" "P t = Bcast i"
  shows "lock_inv T (P(t := Leaving r)) lk 0"
  using lock_inv_inside [OF assms(1), of "Leaving r" t] assms(3) by simp

lemma count_inv_keep:
  assumes "count_inv T K P A n cyc" "epoch_ok K p (A t)"
  shows "count_inv T K (P(t := p)) A n cyc"
  using assms by (auto simp: count_inv_def)

lemma count_inv_arrive:
  assumes "count_inv T K P A n cyc" "t < T" "P t = Entered" "n + 1 < int T"
  shows "count_inv T K (P(t := Test cyc)) (A(t := A t + 1)) (n + 1) cyc"
proof -
  have a: "A t = K" using assms by (auto simp: count_inv_def)
  have "{u. u < T \<and> (A(t := A t + 1)) u = Suc K} = insert t {u. u < T \<and> A u = Suc K}"
    using a assms(2) by auto
  moreover have "t \<notin> {u. u < T \<and> A u = Suc K}" "finite {u. u < T \<and> A u = Suc K}" using a by auto
  ultimately show ?thesis using assms a by (auto simp: count_inv_def fresh_or_stale_def)
qed

lemma count_inv_last:
  assumes "count_inv T K P A n cyc" "t < T" "P t = Entered" "\<not> n + 1 < int T"
    and "\<And>u. u < T \<Longrightarrow> u \<noteq> t \<Longrightarrow> \<not> holds (P u)"
  shows "count_inv T (Suc K) (P(t := BcastAcq)) (A(t := A t + 1)) 0 (cyc + 1)"
    and "\<forall>u<T. (A(t := A t + 1)) u = Suc K"
proof -
  have a: "A t = K" using assms by (auto simp: count_inv_def)
  let ?S = "{u. u < T \<and> A u = Suc K}"
  have "card (insert t ?S) = T"
    using assms a by (simp add: count_inv_def)
  moreover have "insert t ?S \<subseteq> {..<T}" using assms(2) by auto
  ultimately have "insert t ?S = {..<T}" by (metis card_lessThan card_subset_eq finite_lessThan)
  then show all: "\<forall>u<T. (A(t := A t + 1)) u = Suc K" using a by auto
  have "epoch_ok (Suc K) ((P(t := BcastAcq)) u) ((A(t := A t + 1)) u)" if "u < T" for u
  proof -
    have "epoch_ok K (P u) (A u)" "A u = (if u = t then K else Suc K)"
      using assms(1) that all a by (auto simp: count_inv_def)
    moreover have "u \<noteq> t \<Longrightarrow> \<not> holds (P u)" using assms(5) that by blast
    ultimately show ?thesis by (cases "P u"; cases "u = t") (auto simp: fresh_or_stale_def)
  qed
  moreover have "{u. u < T \<and> (A(t := A t + 1)) u = Suc (Suc K)} = {}" using all by auto
  ultimately show "count_inv T (Suc K) (P(t := BcastAcq)) (A(t := A t + 1)) 0 (cyc + 1)"
    using assms by (simp add: count_inv_def add.commute)
qed

lemma wake_inv_keep:
  assumes "wake_inv T K c P A w" "\<And>cy. p = Spin cy \<Longrightarrow> A t \<noteq> K"
    and "P t \<noteq> BcastAcq" "\<And>i. P t \<noteq> Bcast i"
  shows "wake_inv T K c (P(t := p)) A w"
  unfolding wake_inv_def
proof (intro allI impI)
  fix u assume u: "u < T" "w u = c" "A u = K" "\<exists>cy. (P(t := p)) u = Spin cy"
  then have "\<exists>cy. P u = Spin cy" using assms(2) by (cases "u = t") auto
  then obtain v where "v < T" "P v = BcastAcq \<or> (\<exists>i\<le>u. P v = Bcast i)"
    using assms(1) u unfolding wake_inv_def by blast
  then show "\<exists>v<T. (P(t := p)) v = BcastAcq \<or> (\<exists>i\<le>u. (P(t := p)) v = Bcast i)"
    using assms(3,4) by (intro exI [of _ v]) auto
qed

lemma wake_inv_last: "t < T \<Longrightarrow> wake_inv T K c (P(t := BcastAcq)) A w"
  unfolding wake_inv_def by (auto intro!: exI [of _ t])

lemma wake_inv_start:
  assumes "wake_inv T K c P A w" "t < T" "lock_inv T P lk bm" "P t = BcastAcq"
  shows "wake_inv T K c (P(t := Bcast 0)) A w"
  unfolding wake_inv_def using assms(2) by (auto intro!: exI [of _ t])

lemma wake_inv_turn:
  assumes "wake_inv T K c P A w" "t < T" "lock_inv T P lk bm" "P t = Bcast i" "c \<noteq> 0"
  shows "wake_inv T K c (P(t := Bcast (Suc i))) A (\<lambda>j. if j = i \<and> w j = c then 0 else w j)"
  unfolding wake_inv_def
proof (intro allI impI)
  fix u assume u: "u < T" "(if u = i \<and> w u = c then 0 else w u) = c" "A u = K"
    "\<exists>cy. (P(t := Bcast (Suc i))) u = Spin cy"
  then have "u \<noteq> i" "w u = c" "\<exists>cy. P u = Spin cy" using assms(5) by (auto split: if_splits)
  then obtain v where v: "v < T" "P v = BcastAcq \<or> (\<exists>k\<le>u. P v = Bcast k)"
    using assms(1) u unfolding wake_inv_def by blast
  then have "holds (P v)" by auto
  then have "v = t" using lock_invD(2) [OF assms(3) v(1) assms(2)] assms(4) by simp
  with v assms(4) have "i \<le> u" by auto
  with \<open>u \<noteq> i\<close> have "Suc i \<le> u" by simp
  then show "\<exists>v<T. (P(t := Bcast (Suc i))) v = BcastAcq \<or> (\<exists>k\<le>u. (P(t := Bcast (Suc i))) v = Bcast k)"
    using assms(2) by (intro exI [of _ t]) auto
qed

lemma wake_inv_end:
  assumes "wake_inv T K c P A w" "t < T" "lock_inv T P lk bm" "P t = Bcast i" "T \<le> i"
  shows "wake_inv T K c (P(t := Leaving r)) A w"
  unfolding wake_inv_def
proof (intro allI impI)
  fix u assume u: "u < T" "w u = c" "A u = K" "\<exists>cy. (P(t := Leaving r)) u = Spin cy"
  then have "\<exists>cy. P u = Spin cy" by (auto split: if_splits)
  then obtain v where v: "v < T" "P v = BcastAcq \<or> (\<exists>k\<le>u. P v = Bcast k)"
    using assms(1) u unfolding wake_inv_def by blast
  then have "holds (P v)" by auto
  then have "v = t" using lock_invD(2) [OF assms(3) v(1) assms(2)] assms(4) by simp
  with v assms(4,5) u(1) have False by auto
  then show "\<exists>v<T. (P(t := Leaving r)) v = BcastAcq \<or> (\<exists>k\<le>u. (P(t := Leaving r)) v = Bcast k)" ..
qed

text \<open>Only a thread that is not spinning changes what it waits on.\<close>

lemma wake_inv_announce:
  assumes "wake_inv T K c P A w" "\<And>cy. P t \<noteq> Spin cy"
  shows "wake_inv T K c P A (w(t := d))"
  using assms unfolding wake_inv_def by (metis fun_upd_other)

section \<open>What the package's operations leave alone\<close>

text \<open>The part of the machine that synchronisation depends on.\<close>

definition sync :: "djg \<Rightarrow> (addr \<Rightarrow> int) \<times> int \<times> nat \<times> int list \<times> bool \<times> addr list" where
  "sync s = (words s, bcast_mutex s, nexttid s, cpu_current s, started s, map waiting (tcbs s))"

definition waits :: "djg \<Rightarrow> nat \<Rightarrow> addr" where "waits s t = map waiting (tcbs s) ! t"

definition mach_ok :: "nat \<Rightarrow> djg \<Rightarrow> bool" where
  "mach_ok T s \<longleftrightarrow> started s \<and> length (tcbs s) = MAXTHREADS \<and> T \<le> nexttid s \<and>
     nexttid s \<le> MAXTHREADS \<and> (\<forall>t<T. cpu_current s ! t = int t)"

lemma syncD:
  assumes "sync s' = sync s"
  shows "words s' = words s" "bcast_mutex s' = bcast_mutex s" "waits s' = waits s"
    "mach_ok T s' = mach_ok T s" "nexttid s' = nexttid s"
proof -
  have "length (map waiting (tcbs s')) = length (map waiting (tcbs s))"
    using assms by (simp only: sync_def prod.inject)
  then show "words s' = words s" "bcast_mutex s' = bcast_mutex s" "waits s' = waits s"
    "mach_ok T s' = mach_ok T s" "nexttid s' = nexttid s"
    using assms by (simp_all add: sync_def waits_def mach_ok_def fun_eq_iff)
qed

lemma sync_upd_tcb: "(\<And>t. waiting (f t) = waiting t) \<Longrightarrow> sync (upd_tcb i f s) = sync s"
  by (cases "i < length (tcbs s)") (simp_all add: sync_def upd_tcb_def map_update list_update_same_conv list_update_beyond)

lemma check_start_id [simp]: "started s \<Longrightarrow> check_start s = s"
  by (simp add: check_start_def)

lemma self_started: "started s \<Longrightarrow> djg_self t s = (cpu_current s ! t, s)"
  by (simp add: djg_self_def Let_def)

lemma sync_accounting_update: "sync (djg_accounting_update i s) = sync s"
  unfolding djg_accounting_update_def by (simp add: sync_upd_tcb)

lemma sync_accounting_ctrl: "started s \<Longrightarrow> sync (accounting_ctrl t cmd s) = sync s"
  by (cases cmd) (simp_all add: accounting_ctrl_def self_started Let_def sync_upd_tcb sync_accounting_update)

lemma sync_started: "sync s' = sync s \<Longrightarrow> started s' = started s"
  by (simp add: sync_def)

lemma sync_lock_begin: "started s \<Longrightarrow> sync (mutex_lock_begin t s) = sync s"
  by (simp add: mutex_lock_begin_def sync_accounting_ctrl)

lemma MM_ACQUIRE_iff: "MM_ACQUIRE m s = Some s' \<longleftrightarrow> words s m = 0 \<and> s' = s\<lparr>words := (words s)(m := 1)\<rparr>"
  by (auto simp: MM_ACQUIRE_def)

lemma lock_acquire_sync:
  assumes "mutex_lock_acquire t m s = Some s'" "started s"
  shows "words s m = 0 \<and> sync s' = sync (s\<lparr>words := (words s)(m := 1)\<rparr>)"
  using assms by (auto simp: mutex_lock_acquire_def MM_ACQUIRE_iff sync_accounting_ctrl)

lemma cond_relock_sync:
  assumes "cond_wait_relock t m s = Some s'" "started s"
  shows "words s m = 0 \<and> sync s' = sync (s\<lparr>words := (words s)(m := 1)\<rparr>)"
proof -
  obtain s1 where s1: "mutex_lock_acquire t m s = Some s1" "s' = accounting_ctrl t ACCT_RESUME s1"
    using assms by (auto simp: cond_wait_relock_def)
  with lock_acquire_sync [OF s1(1) assms(2)] have "started s1" using assms(2) by (simp add: sync_def)
  with s1 lock_acquire_sync [OF s1(1) assms(2)] show ?thesis by (simp add: sync_accounting_ctrl)
qed

lemma cond_release_sync:
  "started s \<Longrightarrow> sync (cond_wait_release t m s) = sync (s\<lparr>words := (words s)(m := 0)\<rparr>)"
  by (simp add: cond_wait_release_def mutex_unlock_def MM_RELEASE_def sync_accounting_ctrl)

lemma acquire_enabled:
  assumes "words s m = 0"
  shows "\<exists>s'. mutex_lock_acquire t m s = Some s'" "\<exists>s'. cond_wait_relock t m s = Some s'"
  using assms by (simp_all add: cond_wait_relock_def mutex_lock_acquire_def MM_ACQUIRE_def)

lemma waits_words [simp]: "waits (s\<lparr>words := h\<rparr>) = waits s" "waits (s\<lparr>bcast_mutex := b\<rparr>) = waits s"
  by (simp_all add: waits_def fun_eq_iff)

lemma mach_ok_words [simp]: "mach_ok T (s\<lparr>words := h\<rparr>) = mach_ok T s" "mach_ok T (s\<lparr>bcast_mutex := b\<rparr>) = mach_ok T s"
  by (simp_all add: mach_ok_def)

lemma announce_eff:
  assumes "mach_ok T s" "t < T"
  shows "waits (cond_wait_announce t c s) = (waits s)(t := c)" "mach_ok T (cond_wait_announce t c s)"
    "words (cond_wait_announce t c s) = words s" "bcast_mutex (cond_wait_announce t c s) = bcast_mutex s"
proof -
  have *: "cond_wait_announce t c s = upd_tcb t (\<lambda>u. u\<lparr>waiting := c\<rparr>) s" "t < length (tcbs s)"
    using assms by (simp_all add: cond_wait_announce_def self_started mach_ok_def)
  show "waits (cond_wait_announce t c s) = (waits s)(t := c)"
    using * by (auto simp: waits_def upd_tcb_def map_update fun_eq_iff)
  show "mach_ok T (cond_wait_announce t c s)" "words (cond_wait_announce t c s) = words s"
    "bcast_mutex (cond_wait_announce t c s) = bcast_mutex s"
    using * assms by (simp_all add: mach_ok_def upd_tcb_def)
qed

lemma bcast_one_eff:
  assumes "mach_ok T s" "i < nexttid s"
  shows "waits (bcast_one c i s) = (\<lambda>j. if j = i \<and> waits s j = c then 0 else waits s j)"
    "mach_ok T (bcast_one c i s)" "words (bcast_one c i s) = words s"
    "bcast_mutex (bcast_one c i s) = bcast_mutex s" "nexttid (bcast_one c i s) = nexttid s"
proof -
  have i: "i < length (tcbs s)" using assms by (simp add: mach_ok_def)
  then have "waits s i = waiting (tcbs s ! i)" by (simp add: waits_def)
  then show "waits (bcast_one c i s) = (\<lambda>j. if j = i \<and> waits s j = c then 0 else waits s j)"
    using i by (auto simp: waits_def bcast_one_def upd_tcb_def map_update fun_eq_iff)
  show "mach_ok T (bcast_one c i s)" "words (bcast_one c i s) = words s"
    "bcast_mutex (bcast_one c i s) = bcast_mutex s" "nexttid (bcast_one c i s) = nexttid s"
    using assms by (simp_all add: bcast_one_def upd_tcb_def mach_ok_def)
qed

section \<open>The barrier's invariant\<close>

definition binv :: "nat \<Rightarrow> nat \<Rightarrow> bst \<Rightarrow> bool" where
  "binv T K x \<longleftrightarrow> mach_ok T (mach x) \<and> b_customers (bar x) = int T \<and> b_c (bar x) \<noteq> 0 \<and>
     lock_inv T (pcs x) (words (mach x) (b_m (bar x))) (bcast_mutex (mach x)) \<and>
     count_inv T K (pcs x) (arrivals x) (b_n (bar x)) (b_cycle (bar x)) \<and>
     wake_inv T K (b_c (bar x)) (pcs x) (arrivals x) (waits (mach x))"

text \<open>The two shapes of a step that leaves the count alone: one that only moves the thread, given what
  happens to the synchronisation words.\<close>

lemma binv_move:
  assumes "binv T K x" "mach_ok T s'"
    and "lock_inv T ((pcs x)(t := p)) (words s' (b_m (bar x))) (bcast_mutex s')"
    and "epoch_ok K p (arrivals x t)"
    and "wake_inv T K (b_c (bar x)) ((pcs x)(t := p)) (arrivals x) (waits s')"
  shows "binv T K (set_pc t p (x\<lparr>mach := s'\<rparr>))"
  using assms count_inv_keep [of T K "pcs x" "arrivals x" _ _ p t] by (simp add: binv_def set_pc_def)

lemma binvD:
  assumes "binv T K x"
  shows "mach_ok T (mach x)" "started (mach x)" "b_customers (bar x) = int T" "b_c (bar x) \<noteq> 0"
    "lock_inv T (pcs x) (words (mach x) (b_m (bar x))) (bcast_mutex (mach x))"
    "count_inv T K (pcs x) (arrivals x) (b_n (bar x)) (b_cycle (bar x))"
    "wake_inv T K (b_c (bar x)) (pcs x) (arrivals x) (waits (mach x))"
    "t < T \<Longrightarrow> epoch_ok K (pcs x t) (arrivals x t)" "b_cycle (bar x) = of_nat K"
  using assms by (simp_all add: binv_def mach_ok_def count_inv_def)

text \<open>The kinds of steps.\<close>

lemma binv_begin:
  assumes "binv T K x" "t < T" "pcs x t = Outside"
  shows "binv T K (set_pc t Entering (x\<lparr>mach := mutex_lock_begin t (mach x)\<rparr>))"
proof -
  note b = binvD [OF assms(1)]
  have s: "sync (mutex_lock_begin t (mach x)) = sync (mach x)" using b by (simp add: sync_lock_begin)
  show ?thesis
  proof (rule binv_move [OF assms(1)])
    show "lock_inv T ((pcs x)(t := Entering)) (words (mutex_lock_begin t (mach x)) (b_m (bar x)))
        (bcast_mutex (mutex_lock_begin t (mach x)))"
      unfolding syncD [OF s] by (rule lock_inv_keep) (use b assms in auto)
    show "wake_inv T K (b_c (bar x)) ((pcs x)(t := Entering)) (arrivals x) (waits (mutex_lock_begin t (mach x)))"
      unfolding syncD [OF s] by (rule wake_inv_keep) (use b assms in auto)
  qed (use b syncD [OF s] b(8) [OF assms(2)] assms in auto)
qed

lemma binv_acquire:
  assumes "binv T K x" "t < T" "pcs x t = Entering \<or> pcs x t = Relock cy" "holds p"
    and "words (mach x) (b_m (bar x)) = 0"
    and s: "sync s' = sync ((mach x)\<lparr>words := (words (mach x))(b_m (bar x) := 1)\<rparr>)"
    and "epoch_ok K p (arrivals x t)"
  shows "binv T K (set_pc t p (x\<lparr>mach := s'\<rparr>))"
proof -
  note b = binvD [OF assms(1)]
  show ?thesis
  proof (rule binv_move [OF assms(1)])
    show "lock_inv T ((pcs x)(t := p)) (words s' (b_m (bar x))) (bcast_mutex s')"
      unfolding syncD [OF s] by (simp, rule lock_inv_acquire) (use b assms in auto)
    show "wake_inv T K (b_c (bar x)) ((pcs x)(t := p)) (arrivals x) (waits s')"
      unfolding syncD [OF s] by (simp, rule wake_inv_keep) (use b assms in auto)
  qed (use b syncD [OF s] assms in auto)
qed

lemma binv_release:
  assumes "binv T K x" "t < T" "holds (pcs x t)" "\<not> holds p" "\<And>i. pcs x t \<noteq> Bcast i" "pcs x t \<noteq> BcastAcq"
    and s: "sync s' = sync ((mach x)\<lparr>words := (words (mach x))(b_m (bar x) := 0)\<rparr>)"
    and "epoch_ok K p (arrivals x t)" "\<And>cy. p = Spin cy \<Longrightarrow> arrivals x t \<noteq> K"
  shows "binv T K (set_pc t p (x\<lparr>mach := s'\<rparr>))"
proof -
  note b = binvD [OF assms(1)]
  show ?thesis
  proof (rule binv_move [OF assms(1)])
    show "lock_inv T ((pcs x)(t := p)) (words s' (b_m (bar x))) (bcast_mutex s')"
      unfolding syncD [OF s] by (simp, rule lock_inv_release [OF b(5)]) (use b assms in auto)
    show "wake_inv T K (b_c (bar x)) ((pcs x)(t := p)) (arrivals x) (waits s')"
      unfolding syncD [OF s] by (simp, rule wake_inv_keep) (use b assms in auto)
  qed (use b syncD [OF s] assms in auto)
qed

lemma binv_arrive:
  assumes "binv T K x" "t < T" "pcs x t = Entered"
  shows "\<exists>K'. binv T K' (barrier_arrive t x)"
proof (cases "b_n (bar x) + 1 < int T")
  case True
  note b = binvD [OF assms(1)]
  have "lock_inv T ((pcs x)(t := Test (b_cycle (bar x)))) (words (mach x) (b_m (bar x))) (bcast_mutex (mach x))"
    by (rule lock_inv_keep [OF b(5) assms(2)]) (use assms in auto)
  moreover have "wake_inv T K (b_c (bar x)) ((pcs x)(t := Test (b_cycle (bar x))))
      ((arrivals x)(t := arrivals x t + 1)) (waits (mach x))"
    using wake_inv_keep [OF b(7), of "Test (b_cycle (bar x))" t] assms b(8) [OF assms(2)]
    unfolding wake_inv_def by auto
  ultimately have "binv T K (barrier_arrive t x)"
    using b count_inv_arrive [OF b(6) assms(2,3) True] True
    by (simp add: binv_def barrier_arrive_def set_pc_def Let_def)
  then show ?thesis ..
next
  case False
  note b = binvD [OF assms(1)]
  have o: "\<not> holds (pcs x u)" if "u < T" "u \<noteq> t" for u
    using lock_invD(2) [OF b(5) that(1) assms(2)] that assms(3) by auto
  have "lock_inv T ((pcs x)(t := BcastAcq)) (words (mach x) (b_m (bar x))) (bcast_mutex (mach x))"
    by (rule lock_inv_keep [OF b(5) assms(2)]) (use assms in auto)
  then have "binv T (Suc K) (barrier_arrive t x)"
    using b count_inv_last(1) [OF b(6) assms(2,3) False o] False wake_inv_last [OF assms(2)]
    by (simp add: binv_def barrier_arrive_def set_pc_def Let_def)
  then show ?thesis ..
qed

lemma fresh_current:
  assumes "fresh_or_stale K cy a" "cy = of_nat K"
  shows "a = Suc K \<and> cy = of_nat K"
proof (cases K)
  case (Suc j)
  have "(of_nat (Suc j) :: u32) \<noteq> of_nat j" by simp
  with assms Suc show ?thesis by (auto simp: fresh_or_stale_def simp del: of_nat_Suc)
qed (use assms in \<open>auto simp: fresh_or_stale_def\<close>)

lemma binv_test:
  assumes "binv T K x" "t < T" "pcs x t = Test cy"
  shows "binv T K (barrier_test t cy x)"
proof (cases "cy = b_cycle (bar x)")
  case True
  note b = binvD [OF assms(1)]
  note e = announce_eff [OF b(1) assms(2), of "b_c (bar x)"]
  have "fresh_or_stale K cy (arrivals x t)" using b(8) [OF assms(2)] assms(3) by simp
  then have "arrivals x t = Suc K \<and> cy = of_nat K"
    using fresh_current True b(9) by blast
  then have "binv T K (set_pc t (Announced cy) (x\<lparr>mach := cond_wait_announce t (b_c (bar x)) (mach x)\<rparr>))"
  proof (intro binv_move [OF assms(1)])
    show "lock_inv T ((pcs x)(t := Announced cy)) (words (cond_wait_announce t (b_c (bar x)) (mach x)) (b_m (bar x)))
       (bcast_mutex (cond_wait_announce t (b_c (bar x)) (mach x)))"
      unfolding e by (rule lock_inv_keep [OF b(5) assms(2)]) (use assms in auto)
    have "wake_inv T K (b_c (bar x)) ((pcs x)(t := Announced cy)) (arrivals x) (waits (mach x))"
      by (rule wake_inv_keep [OF b(7)]) (use assms in auto)
    then show "wake_inv T K (b_c (bar x)) ((pcs x)(t := Announced cy)) (arrivals x)
       (waits (cond_wait_announce t (b_c (bar x)) (mach x)))"
      unfolding e by (rule wake_inv_announce) simp
  qed (use e in auto)
  with True show ?thesis by (simp add: barrier_test_def)
next
  case False
  note b = binvD [OF assms(1)]
  have "fresh_or_stale K cy (arrivals x t)" using b(8) [OF assms(2)] assms(3) by simp
  then have "arrivals x t = K" using False b(9) by (auto simp: fresh_or_stale_def)
  moreover have "lock_inv T ((pcs x)(t := Leaving 0)) (words (mach x) (b_m (bar x))) (bcast_mutex (mach x))"
    by (rule lock_inv_keep [OF b(5) assms(2)]) (use assms in auto)
  moreover have "wake_inv T K (b_c (bar x)) ((pcs x)(t := Leaving 0)) (arrivals x) (waits (mach x))"
    by (rule wake_inv_keep [OF b(7)]) (use assms in auto)
  ultimately have "binv T K (set_pc t (Leaving 0) (x\<lparr>mach := mach x\<rparr>))"
    using b by (intro binv_move [OF assms(1)]) auto
  with False show ?thesis by (simp add: barrier_test_def)
qed

lemma binv_spin_end:
  assumes "binv T K x" "t < T" "pcs x t = Spin cy"
  shows "binv T K (set_pc t (Relock cy) (x\<lparr>mach := mutex_lock_begin t (mach x)\<rparr>))"
proof -
  note b = binvD [OF assms(1)]
  have s: "sync (mutex_lock_begin t (mach x)) = sync (mach x)" using b by (simp add: sync_lock_begin)
  show ?thesis
  proof (rule binv_move [OF assms(1)])
    show "lock_inv T ((pcs x)(t := Relock cy)) (words (mutex_lock_begin t (mach x)) (b_m (bar x)))
        (bcast_mutex (mutex_lock_begin t (mach x)))"
      unfolding syncD [OF s] by (rule lock_inv_keep) (use b assms in auto)
    show "wake_inv T K (b_c (bar x)) ((pcs x)(t := Relock cy)) (arrivals x) (waits (mutex_lock_begin t (mach x)))"
      unfolding syncD [OF s] by (rule wake_inv_keep) (use b assms in auto)
  qed (use b(1) syncD [OF s] b(8) [OF assms(2)] assms(3) in auto)
qed

lemma binv_bcast_acq:
  assumes "binv T K x" "t < T" "pcs x t = BcastAcq" "bcast_mutex (mach x) = 0"
  shows "binv T K (set_pc t (Bcast 0) (x\<lparr>mach := (mach x)\<lparr>bcast_mutex := 1\<rparr>\<rparr>))"
proof (rule binv_move [OF assms(1)])
  note b = binvD [OF assms(1)]
  show "lock_inv T ((pcs x)(t := Bcast 0)) (words ((mach x)\<lparr>bcast_mutex := 1\<rparr>) (b_m (bar x)))
      (bcast_mutex ((mach x)\<lparr>bcast_mutex := 1\<rparr>))"
    using lock_inv_bcast [of T "pcs x" _ t] b(5) assms by simp
  show "wake_inv T K (b_c (bar x)) ((pcs x)(t := Bcast 0)) (arrivals x) (waits ((mach x)\<lparr>bcast_mutex := 1\<rparr>))"
    using wake_inv_start [OF b(7) assms(2) b(5) assms(3)] by simp
qed (use binvD [OF assms(1)] assms in force)+

lemma binv_bcast:
  assumes "binv T K x" "t < T" "pcs x t = Bcast i" "i < nexttid (mach x)"
  shows "binv T K (set_pc t (Bcast (Suc i)) (x\<lparr>mach := bcast_one (b_c (bar x)) i (mach x)\<rparr>))"
proof -
  note b = binvD [OF assms(1)]
  note e = bcast_one_eff [OF b(1) assms(4)]
  show ?thesis
  proof (rule binv_move [OF assms(1)])
    show "lock_inv T ((pcs x)(t := Bcast (Suc i))) (words (bcast_one (b_c (bar x)) i (mach x)) (b_m (bar x)))
        (bcast_mutex (bcast_one (b_c (bar x)) i (mach x)))"
      unfolding e by (rule lock_inv_keep [OF b(5) assms(2)]) (use assms in auto)
    show "wake_inv T K (b_c (bar x)) ((pcs x)(t := Bcast (Suc i))) (arrivals x)
        (waits (bcast_one (b_c (bar x)) i (mach x)))"
      unfolding e by (rule wake_inv_turn [OF b(7) assms(2) b(5) assms(3) b(4)])
  qed (use e b(8) [OF assms(2)] assms in auto)
qed

lemma binv_bcast_end:
  assumes "binv T K x" "t < T" "pcs x t = Bcast i" "\<not> i < nexttid (mach x)"
  shows "binv T K (set_pc t (Leaving SERIAL_THREAD) (x\<lparr>mach := (mach x)\<lparr>bcast_mutex := 0\<rparr>\<rparr>))"
proof (rule binv_move [OF assms(1)])
  note b = binvD [OF assms(1)]
  have "T \<le> i" using b(1) assms(4) by (simp add: mach_ok_def)
  then show "wake_inv T K (b_c (bar x)) ((pcs x)(t := Leaving SERIAL_THREAD)) (arrivals x)
      (waits ((mach x)\<lparr>bcast_mutex := 0\<rparr>))"
    using wake_inv_end [OF b(7) assms(2) b(5) assms(3)] by simp
  show "lock_inv T ((pcs x)(t := Leaving SERIAL_THREAD)) (words ((mach x)\<lparr>bcast_mutex := 0\<rparr>) (b_m (bar x)))
      (bcast_mutex ((mach x)\<lparr>bcast_mutex := 0\<rparr>))"
    using lock_inv_bcast_end [OF b(5) assms(2,3)] by simp
qed (use binvD [OF assms(1)] assms in force)+

lemma binv_step:
  assumes "bstep t x x'" "binv T K x" "t < T"
  shows "\<exists>K'. binv T K' x'"
  using assms(1)
proof (cases rule: bstep.cases)
  case b_begin
  then show ?thesis using binv_begin assms by blast
next
  case (b_enter s')
  then show ?thesis
    using binv_acquire [OF assms(2,3), of _ Entered s'] lock_acquire_sync [OF b_enter(3)]
      binvD(2,8) [OF assms(2)] assms(3) by fastforce
next
  case b_arrive
  then show ?thesis using binv_arrive assms by blast
next
  case (b_test cyc)
  then show ?thesis using binv_test assms by blast
next
  case (b_release cyc)
  have "arrivals x t = Suc K" "cyc = of_nat K" using b_release binvD(8) [OF assms(2,3)] by auto
  then have "binv T K x'" unfolding b_release(1)
    using b_release by (intro binv_release [OF assms(2,3)])
      (auto simp: cond_release_sync binvD(2) [OF assms(2)] fresh_or_stale_def)
  then show ?thesis ..
next
  case (b_spin_end cyc)
  then show ?thesis using binv_spin_end assms by blast
next
  case (b_relock cyc s')
  then show ?thesis
    using binv_acquire [OF assms(2,3), of cyc "Test cyc" s'] cond_relock_sync [OF b_relock(3)]
      binvD(2,8) [OF assms(2)] assms(3) by fastforce
next
  case b_bcast_acq
  then show ?thesis using binv_bcast_acq assms by blast
next
  case (b_bcast i)
  then show ?thesis using binv_bcast assms by blast
next
  case (b_bcast_end i)
  then show ?thesis using binv_bcast_end assms by blast
next
  case (b_leave rc)
  have "arrivals x t = K" using b_leave binvD(8) [OF assms(2,3)] by auto
  then have "binv T K x'" unfolding b_leave(1)
    using b_leave by (intro binv_release [OF assms(2,3)]) (auto simp: mutex_unlock_def MM_RELEASE_def)
  then show ?thesis ..
qed

text \<open>A barrier for the threads \<open>0..<T\<close>, initialised on a started machine.\<close>

definition bst_start :: "nat \<Rightarrow> addr \<Rightarrow> addr \<Rightarrow> djg \<Rightarrow> bst" where
  "bst_start T m c s = (case barrier_init m c (int T) s of (b, s') \<Rightarrow>
     \<lparr> mach = s', bar = b, pcs = (\<lambda>_. Outside), arrivals = (\<lambda>_. 0) \<rparr>)"

lemma binv_start:
  assumes "mach_ok T s" "0 < T" "c \<noteq> 0" "bcast_mutex s = 0"
  shows "binv T 0 (bst_start T m c s)"
  using assms
  by (auto simp: binv_def bst_start_def barrier_init_def mutex_init_def cond_init_def mach_ok_def
      lock_inv_def count_inv_def wake_inv_def)

lemma brun_inv:
  assumes "brun T (bst_start T m c s) x" "mach_ok T s" "0 < T" "c \<noteq> 0" "bcast_mutex s = 0"
  shows "\<exists>K. binv T K x"
  using assms(1)
proof (induction rule: brun.induct)
  case brun_start
  then show ?case using binv_start [OF assms(2-5)] by blast
next
  case (brun_step x t x')
  then show ?case using binv_step by blast
qed

end
