(* ===== verification/DjgProps.thy ===== *)
theory DjgProps
  imports DjgBarrier
begin

text \<open>
  The properties of the thread package: the barrier under every interleaving, creating, running and
  joining threads, thread-specific data, and energy accounting.
\<close>

section \<open>The barrier\<close>

text \<open>C27: In every interleaving of \<open>T\<close> threads over a barrier for \<open>T\<close> customers, at most one thread is
inside the barrier's critical section, and a thread that is on its way out (whatever its return
code) leaves only after every thread has arrived at least as often as it has itself, also after
the cycle counter has wrapped.\<close>

theorem barrier_safe:
  assumes "brun T (bst_start T m c s) x" "mach_ok T s" "0 < T" "c \<noteq> 0" "bcast_mutex s = 0"
    and "t < T" "u < T"
  shows "(holds (pcs x t) \<and> holds (pcs x u) \<longrightarrow> t = u) \<and>
    (pcs x t = Leaving rc \<longrightarrow> arrivals x t \<le> arrivals x u)"
proof -
  obtain K where K: "binv T K x" using brun_inv assms by blast
  have "arrivals x u = K \<or> arrivals x u = Suc K"
    using binvD(8) [OF K assms(7)] by (cases "pcs x u") (auto simp: fresh_or_stale_def)
  moreover have "pcs x t = Leaving rc \<Longrightarrow> arrivals x t = K" using binvD(8) [OF K assms(6)] by simp
  ultimately show ?thesis using lock_invD(2) [OF binvD(5) [OF K] assms(6,7)] by auto
qed

text \<open>A machine that has just started, and the run of its only thread through a barrier for one.\<close>

definition one_thread :: djg where "one_thread = check_start djg_init"

lemma one_thread_ok: "mach_ok 1 one_thread" "bcast_mutex one_thread = 0" "nexttid one_thread = 1"
  by (simp_all add: mach_ok_def one_thread_def djg_init_def check_start_def upd_tcb_def Let_def
      MAXCPUS_def MAXTHREADS_def)

lemma one_thread_run:
  "\<exists>x. brun 1 (bst_start 1 16 24 one_thread) x \<and> pcs x 0 = Leaving SERIAL_THREAD \<and> arrivals x 0 = 1"
proof -
  let ?x0 = "bst_start 1 16 24 one_thread"
  let ?s0 = "one_thread\<lparr>words := ((words one_thread)(16 := 0))(24 := 0)\<rparr>"
  have x0: "?x0 = \<lparr>mach = ?s0, bar = \<lparr>b_m = 16, b_c = 24, b_n = 0, b_cycle = 0, b_customers = 1\<rparr>,
      pcs = (\<lambda>_. Outside), arrivals = (\<lambda>_. 0)\<rparr>"
    by (simp add: bst_start_def barrier_init_def mutex_init_def cond_init_def)
  have st: "started ?s0" using one_thread_ok(1) by (simp add: mach_ok_def)
  let ?s1 = "mutex_lock_begin 0 ?s0"
  have s1: "sync ?s1 = sync ?s0" by (rule sync_lock_begin [OF st])
  have "words ?s1 16 = 0" using syncD(1) [OF s1] by simp
  then obtain s2 where s2: "mutex_lock_acquire 0 16 ?s1 = Some s2" using acquire_enabled by blast
  have sync2: "sync s2 = sync (?s1\<lparr>words := (words ?s1)(16 := 1)\<rparr>)"
    using lock_acquire_sync [OF s2] sync_started [OF s1] st by simp
  have b2: "bcast_mutex s2 = 0" "nexttid s2 = 1"
    using syncD(2,5) [OF sync2] syncD(2,5) [OF s1] one_thread_ok by simp_all
  define x1 where "x1 = set_pc 0 Entering (?x0\<lparr>mach := ?s1\<rparr>)"
  define x2 where "x2 = set_pc 0 Entered (x1\<lparr>mach := s2\<rparr>)"
  define x3 where "x3 = barrier_arrive 0 x2"
  define x4 where "x4 = set_pc 0 (Bcast 0) (x3\<lparr>mach := (mach x3)\<lparr>bcast_mutex := 1\<rparr>\<rparr>)"
  define x5 where "x5 = set_pc 0 (Bcast 1) (x4\<lparr>mach := bcast_one (b_c (bar x4)) 0 (mach x4)\<rparr>)"
  define x6 where "x6 = set_pc 0 (Leaving SERIAL_THREAD) (x5\<lparr>mach := (mach x5)\<lparr>bcast_mutex := 0\<rparr>\<rparr>)"
  have x3': "x3 = \<lparr>mach = s2, bar = \<lparr>b_m = 16, b_c = 24, b_n = 0, b_cycle = 1, b_customers = 1\<rparr>,
      pcs = (\<lambda>_. Outside)(0 := BcastAcq), arrivals = (\<lambda>_. 0)(0 := 1)\<rparr>"
    by (simp add: x3_def x2_def x1_def x0 set_pc_def barrier_arrive_def Let_def del: One_nat_def)
  have "bstep 0 ?x0 x1" using b_begin [of ?x0 0] by (simp add: x1_def x0 del: One_nat_def)
  moreover have "bstep 0 x1 x2" using b_enter [of x1 0 s2] s2 by (simp add: x2_def x1_def x0 set_pc_def del: One_nat_def)
  moreover have "bstep 0 x2 x3" using b_arrive [of x2 0] by (simp add: x3_def x2_def set_pc_def)
  moreover have "bstep 0 x3 x4" using b_bcast_acq [of x3 0] b2 by (simp add: x4_def x3')
  moreover have "bstep 0 x4 x5" using b_bcast [of x4 0 0] b2 by (simp add: x5_def x4_def x3' set_pc_def)
  moreover have "bstep 0 x5 x6"
    using b_bcast_end [of x5 0 1] b2
    by (simp add: x6_def x5_def x4_def x3' set_pc_def bcast_one_def upd_tcb_def)
  ultimately have "brun 1 ?x0 x6" by (meson brun.intros zero_less_one)
  moreover have "pcs x6 0 = Leaving SERIAL_THREAD" "arrivals x6 0 = 1"
    by (simp_all add: x6_def x5_def x4_def x3' set_pc_def)
  ultimately show ?thesis by blast
qed

theorem barrier_safe_witness:
  "\<exists>x. brun 1 (bst_start 1 16 24 one_thread) x \<and> pcs x 0 = Leaving SERIAL_THREAD \<and>
     arrivals x 0 \<le> arrivals x 0"
  using one_thread_run barrier_safe [OF _ one_thread_ok(1) _ _ one_thread_ok(2), of 16 24 _ 0 0 SERIAL_THREAD]
  by auto

text \<open>C28: The barrier has no lost wake-up and no deadlock: in every reachable state in which all threads
are inside the barrier, some thread has a step.\<close>

theorem barrier_no_deadlock:
  assumes "brun T (bst_start T m c s) x" "mach_ok T s" "0 < T" "c \<noteq> 0" "bcast_mutex s = 0"
    and "\<And>t. t < T \<Longrightarrow> pcs x t \<noteq> Outside"
  shows "\<exists>t x'. t < T \<and> bstep t x x'"
proof -
  obtain K where K: "binv T K x" using brun_inv assms by blast
  note b = binvD [OF K]
  show ?thesis
  proof (cases "\<exists>t<T. holds (pcs x t)")
    case True
    then obtain t where t: "t < T" "holds (pcs x t)" by blast
    have "\<exists>x'. bstep t x x'"
    proof (cases "pcs x t")
      case BcastAcq
      have "bcast_mutex (mach x) = 0"
      proof (rule ccontr)
        assume "bcast_mutex (mach x) \<noteq> 0"
        then obtain u i where "u < T" "pcs x u = Bcast i" using lock_invD(3) [OF b(5)] by blast
        then show False using lock_invD(2) [OF b(5) t(1), of u] t(2) BcastAcq by simp
      qed
      with BcastAcq show ?thesis by (blast intro: b_bcast_acq)
    next
      case (Bcast i)
      then show ?thesis by (cases "i < nexttid (mach x)") (blast intro: b_bcast b_bcast_end)+
    qed (use t in \<open>auto intro: bstep.intros\<close>)
    with t show ?thesis by blast
  next
    case False
    then have lk: "words (mach x) (b_m (bar x)) = 0" using lock_invD(1) [OF b(5)] by blast
    show ?thesis
    proof (cases "\<exists>t<T. \<nexists>cy. pcs x t = Spin cy \<and> waits (mach x) t = b_c (bar x)")
      case True
      then obtain t where t: "t < T" "\<And>cy. pcs x t = Spin cy \<Longrightarrow> waits (mach x) t \<noteq> b_c (bar x)" by blast
      have w: "waits (mach x) t = waiting (tcbs (mach x) ! t)"
        using b(1) t(1) by (simp add: waits_def mach_ok_def)
      have "\<exists>x'. bstep t x x'"
      proof (cases "pcs x t")
        case Entering
        then show ?thesis using acquire_enabled(1) [OF lk] by (blast intro: b_enter)
      next
        case (Relock cy)
        then show ?thesis using acquire_enabled(2) [OF lk] by (blast intro: b_relock)
      next
        case (Spin cy)
        then show ?thesis using t(2) w b_spin_end [OF Spin] by (auto simp: cond_wait_spins_def)
      qed (use False t(1) assms(6) [OF t(1)] in force)+
      with t show ?thesis by blast
    next
      case all: False
      have "arrivals x t = Suc K" if t: "t < T" for t
      proof -
        obtain cy where cy: "pcs x t = Spin cy" "waits (mach x) t = b_c (bar x)" using all t by blast
        have "arrivals x t \<noteq> K"
          using b(7) cy t \<open>\<not> (\<exists>t<T. holds (pcs x t))\<close> unfolding wake_inv_def by (metis holds.simps(4,5))
        then show ?thesis using b(8) [OF t] cy by (auto simp: fresh_or_stale_def)
      qed
      then have "{t. t < T \<and> arrivals x t = Suc K} = {..<T}" by auto
      then show ?thesis using b(6) by (auto simp: count_inv_def)
    qed
  qed
qed
theorem barrier_no_deadlock_witness:
  "\<exists>x t x'. brun 1 (bst_start 1 16 24 one_thread) x \<and> t < 1 \<and> bstep t x x'"
proof -
  obtain x where x: "brun 1 (bst_start 1 16 24 one_thread) x" "pcs x 0 = Leaving SERIAL_THREAD"
    using one_thread_run by blast
  with barrier_no_deadlock [OF x(1) one_thread_ok(1) _ _ one_thread_ok(2)] show ?thesis by auto
qed

section \<open>Threads\<close>

lemma first_free_le: "first_free n k s \<le> k + n"
proof (induction n arbitrary: k)
  case (Suc n)
  have "first_free n (Suc k) s \<le> Suc k + n" by (rule Suc.IH)
  then show ?case by simp
qed simp

lemma first_free_free: "first_free n k s < k + n \<Longrightarrow> core (tcbs s ! first_free n k s) < 0"
proof (induction n arbitrary: k)
  case (Suc n)
  then show ?case using Suc.IH [of "Suc k"] by auto
qed simp

text \<open>C29: A successful create gives the thread a slot that was free or new, on a core that is running; the
caller's join waits until the worker core of that slot has served it, and then returns what the
thread function returned for the argument of the create call.\<close>

theorem create_serve_join:
  assumes "thread_create ep arg s = Some (tid, s1)" "length (tcbs s) = MAXTHREADS" "nexttid s < MAXTHREADS"
    and "\<And>s'. length (tcbs (snd (body ep arg s'))) = length (tcbs s')"
  shows "(tid < nexttid s \<longrightarrow> core (tcbs s ! tid) < 0) \<and> tid < nexttid s1 \<and>
    thread_join tid s1 = None \<and>
    (\<exists>s0 s2. serve_thread body tid tid s1 = Some s2 \<and> thread_join tid s2 = Some (fst (body ep arg s0)))"
proof -
  have tid: "tid = first_free (nexttid s) 0 s" "tid < nexttid s1"
      "core (tcbs s1 ! tid) = int tid" "entryp (tcbs s1 ! tid) = ep" "targ (tcbs s1 ! tid) = arg"
      "length (tcbs s1) = MAXTHREADS" "tid < MAXTHREADS"
    using assms(1-3) first_free_le [of "nexttid s" 0 s]
    by (auto simp: thread_create_def Let_def upd_tcb_def split: if_splits option.splits)
  then have free: "tid < nexttid s \<longrightarrow> core (tcbs s ! tid) < 0"
    using first_free_free [of "nexttid s" 0 s] by simp
  obtain s0 where s0: "serve_start tid tid s1 = Some s0" "entryp (tcbs s0 ! tid) = ep"
      "targ (tcbs s0 ! tid) = arg" "length (tcbs s0) = MAXTHREADS"
    using tid by (simp add: serve_start_def upd_tcb_def)
  obtain r s' where r: "body ep arg s0 = (r, s')" by (cases "body ep arg s0")
  have len: "length (tcbs s') = MAXTHREADS" using assms(4) [of s0] r s0 by simp
  have "serve_thread body tid tid s1 = Some (serve_finish tid r s')"
    using s0 r by (simp add: serve_thread_def)
  moreover have "thread_join tid (serve_finish tid r s') = Some r"
    using len tid by (simp add: thread_join_def serve_finish_def upd_tcb_def)
  moreover have "r = fst (body ep arg s0)" using r by simp
  moreover have "thread_join tid s1 = None" using tid(3) by (simp add: thread_join_def)
  ultimately show ?thesis using tid(2) free by blast
qed

theorem create_serve_join_witness:
  "\<exists>tid s1 s2. thread_create 7 41 (one_thread\<lparr>core_hwm := 1\<rparr>) = Some (tid, s1) \<and>
     serve_thread (\<lambda>ep a s. (a + 1, s)) tid tid s1 = Some s2 \<and> thread_join tid s2 = Some 42"
proof -
  let ?s = "one_thread\<lparr>core_hwm := 1\<rparr>"
  have l: "length (tcbs ?s) = MAXTHREADS" "nexttid ?s < MAXTHREADS"
    using one_thread_ok by (simp_all add: mach_ok_def MAXTHREADS_def)
  have "core (tcbs one_thread ! 0) = 0"
    by (simp add: one_thread_def check_start_def djg_init_def upd_tcb_def MAXTHREADS_def)
  then obtain tid s1 where c: "thread_create 7 41 ?s = Some (tid, s1)"
    using one_thread_ok(3) by (simp add: thread_create_def Let_def)
  then show ?thesis using create_serve_join [OF c l, of "\<lambda>ep a s. (a + 1, s)"] by auto
qed

section \<open>Thread-specific data\<close>

text \<open>Storing under a key succeeds when a slot of the thread holds the key or is free; then reading
the key returns the stored pointer, every other key reads what it read before, and no other
thread's control block changes.\<close>

theorem specific_set_get:
  assumes "started s" "cpu_current s ! co = int tid" "tid < length (tcbs s)" "k \<noteq> 0"
    and "key0 (tcbs s ! tid) \<in> {0, k} \<or> key1 (tcbs s ! tid) \<in> {0, k}"
  shows "fst (getspecific co k (setspecific co k a s)) = a \<and>
    (\<forall>k'. k' \<noteq> k \<and> k' \<noteq> 0 \<longrightarrow>
       fst (getspecific co k' (setspecific co k a s)) = fst (getspecific co k' s)) \<and>
    (\<forall>j<length (tcbs s). j \<noteq> tid \<longrightarrow> tcbs (setspecific co k a s) ! j = tcbs s ! j) \<and>
    failed (setspecific co k a s) = failed s"
proof -
  have self: "djg_self co s = (int tid, s)" using assms by (simp add: self_started)
  let ?u0 = "upd_tcb tid (\<lambda>t. t\<lparr>key0 := k, specific0 := a\<rparr>) s"
  let ?u1 = "upd_tcb tid (\<lambda>t. t\<lparr>key1 := k, specific1 := a\<rparr>) s"
  have u: "djg_self co ?u0 = (int tid, ?u0)" "djg_self co ?u1 = (int tid, ?u1)"
    using assms by (simp_all add: self_started upd_tcb_def)
  show ?thesis
  proof (cases "key0 (tcbs s ! tid) = k \<or> key0 (tcbs s ! tid) = 0")
    case True
    then have "setspecific co k a s = ?u0" using assms self by (simp add: setspecific_def Let_def)
    then show ?thesis using assms self u True by (auto simp: getspecific_def upd_tcb_def Let_def)
  next
    case False
    then have "setspecific co k a s = ?u1" using assms self by (auto simp: setspecific_def Let_def)
    then show ?thesis using assms self u False by (auto simp: getspecific_def upd_tcb_def Let_def)
  qed
qed

theorem specific_set_get_witness:
  "fst (getspecific 0 142 (setspecific 0 142 99 (setspecific 0 143 7 one_thread))) = 99 \<and>
   fst (getspecific 0 143 (setspecific 0 142 99 (setspecific 0 143 7 one_thread))) = 7"
proof -
  have o: "started one_thread" "cpu_current one_thread ! 0 = int 0" "0 < length (tcbs one_thread)"
    "tcbs one_thread ! 0 = tcb_init"
    by (simp_all add: one_thread_def check_start_def djg_init_def upd_tcb_def MAXTHREADS_def MAXCPUS_def
        tcb_init_def)
  let ?s = "setspecific 0 143 7 one_thread"
  have s: "?s = upd_tcb 0 (\<lambda>t. t\<lparr>key0 := 143, specific0 := 7\<rparr>) one_thread"
    using o by (simp add: setspecific_def self_started tcb_init_def)
  then have s': "started ?s" "cpu_current ?s ! 0 = int 0" "0 < length (tcbs ?s)" "key1 (tcbs ?s ! 0) = 0"
    using o by (simp_all add: upd_tcb_def tcb_init_def)
  from specific_set_get [OF s'(1-3), of 142 99] specific_set_get [OF o(1-3), of 143 7] o(4) s'(4)
  show ?thesis by (simp add: tcb_init_def)
qed

section \<open>Energy accounting\<close>

text \<open>Stopping, resuming and stopping the accounts of a running thread charges it, modulo \<open>2 ^ 32\<close>,
exactly the two periods it ran, and not the time in between, in energy and in ticks.\<close>

theorem accounting_charges_running:
  fixes pa pb :: pet2
  assumes "started s" "cpu_current s ! co = int tid" "tid < length (tcbs s)"
    and "\<not> accounting_stopped (tcbs s ! tid)"
  defines "s1 \<equiv> accounting_ctrl co ACCT_STOP s"
  defines "s2 \<equiv> accounting_ctrl co ACCT_RESUME (s1\<lparr>speedo := pa\<rparr>)"
  defines "s3 \<equiv> accounting_ctrl co ACCT_STOP (s2\<lparr>speedo := pb\<rparr>)"
  shows "energy (accounting_into tid s3) = energy (accounting_into tid s) +
      (energy (speedo s) - energy (last_start (tcbs s ! tid))) + (energy pb - energy pa) \<and>
    ticks (accounting_into tid s3) = ticks (accounting_into tid s) +
      (ticks (speedo s) - ticks (last_start (tcbs s ! tid))) + (ticks pb - ticks pa)"
proof -
  let ?t = "tcbs s ! tid"
  define u1 where "u1 = ?t\<lparr>accounting :=
      \<lparr>energy = energy (accounting ?t) + (energy (speedo s) - energy (last_start ?t)),
       ticks = ticks (accounting ?t) + (ticks (speedo s) - ticks (last_start ?t))\<rparr>,
      last_start := speedo s, accounting_stopped := True\<rparr>"
  define u2 where "u2 = u1\<lparr>last_start := pa, accounting_stopped := False\<rparr>"
  have s1: "s1 = s\<lparr>tcbs := (tcbs s)[tid := u1]\<rparr>"
    using assms(1-4) by (simp add: s1_def accounting_ctrl_def self_started djg_accounting_update_def
        upd_tcb_def u1_def)
  have s2: "s2 = s\<lparr>speedo := pa, tcbs := (tcbs s)[tid := u2]\<rparr>"
    using assms(1-4) by (simp add: s2_def s1 accounting_ctrl_def self_started upd_tcb_def u2_def u1_def)
  show ?thesis
    using assms(1-4) by (simp add: s3_def s2 accounting_ctrl_def self_started djg_accounting_update_def
        upd_tcb_def accounting_into_def u2_def u1_def)
qed

theorem accounting_charges_running_witness:
  "ticks (accounting_into 0
      (accounting_ctrl 0 ACCT_STOP
        ((accounting_ctrl 0 ACCT_RESUME
          ((accounting_ctrl 0 ACCT_STOP (one_thread\<lparr>speedo := \<lparr>energy = 5, ticks = 100\<rparr>\<rparr>))
             \<lparr>speedo := \<lparr>energy = 6, ticks = 1000\<rparr>\<rparr>))
           \<lparr>speedo := \<lparr>energy = 9, ticks = 1010\<rparr>\<rparr>))) = 110"
proof -
  let ?s = "one_thread\<lparr>speedo := \<lparr>energy = 5, ticks = 100\<rparr>\<rparr>"
  have o: "started ?s" "cpu_current ?s ! 0 = int 0" "0 < length (tcbs ?s)" "\<not> accounting_stopped (tcbs ?s ! 0)"
    "last_start (tcbs ?s ! 0) = \<lparr>energy = 0, ticks = 0\<rparr>" "accounting (tcbs ?s ! 0) = \<lparr>energy = 0, ticks = 0\<rparr>"
    by (simp_all add: one_thread_def check_start_def djg_init_def upd_tcb_def MAXTHREADS_def MAXCPUS_def
        tcb_init_def)
  show ?thesis
    using accounting_charges_running [OF o(1-4), where pa = "\<lparr>energy = 6, ticks = 1000\<rparr>" and pb = "\<lparr>energy = 9, ticks = 1010\<rparr>"]
      o(5,6) by (simp add: accounting_into_def)
qed

end
