(* ===== verification/Format.thy ===== *)
theory Format
  imports CNum
begin

text \<open>
  The output formatter of \<^verbatim>\<open>vhls/src/crt/prlibc/prlibc.c\<close>: number printing by repeated subtraction of
  table entries, strings in fields, and the interpreter \<^verbatim>\<open>locked_printf\<close> of format strings.  Every
  routine only emits characters (through \<^verbatim>\<open>pfputc\<close>), so it is modelled by the text it emits; where
  that text goes is in theory \<open>Stdio\<close>.  Printing of a \<^verbatim>\<open>double\<close> (\<^verbatim>\<open>putdouble\<close>) is a parameter.  A format
  that ends inside a conversion is read past its terminator, and an argument of another type is
  undefined: both are \<open>None\<close>.
\<close>

section \<open>Digits\<close>

definition hex32_table :: "u32 list" where
  "hex32_table = [0x1, 0x10, 0x100, 0x1000, 0x10000, 0x100000, 0x1000000, 0x10000000]"

definition hex64_table :: "u64 list" where
  "hex64_table = [0x1, 0x10, 0x100, 0x1000, 0x10000, 0x100000, 0x1000000, 0x10000000, 0x100000000,
     0x1000000000, 0x10000000000, 0x100000000000, 0x1000000000000, 0x10000000000000,
     0x100000000000000, 0x1000000000000000]"

definition dec32_table :: "u32 list" where
  "dec32_table = [1, 10, 100, 1000, 10000, 100000, 1000000, 10000000, 100000000, 1000000000]"

definition dec64_table :: "u64 list" where
  "dec64_table = [1, 10, 100, 1000, 10000, 100000, 1000000, 10000000, 100000000, 1000000000,
     10000000000, 100000000000, 1000000000000, 10000000000000, 100000000000000, 1000000000000000,
     10000000000000000, 100000000000000000, 1000000000000000000, 10000000000000000000]"

text \<open>Where printing starts: the first entry above the number, or the last entry.\<close>

function find_p :: "'a::len word list \<Rightarrow> 'a word \<Rightarrow> nat \<Rightarrow> int" where
  "find_p tab d0 p =
     (if length tab - 1 \<le> p then int p
      else if d0 < tab ! p then int p - 1
      else find_p tab d0 (p + 1))"
  by auto
termination by (relation "measure (\<lambda>(tab, d0, p). length tab - p)") auto

text \<open>One digit: subtract the entry while it is not above the number.\<close>

function sub_loop :: "'a::len word \<Rightarrow> 'a word \<Rightarrow> int \<Rightarrow> int \<times> 'a word" where
  "sub_loop t d0 d = (if 0 < t \<and> t \<le> d0 then sub_loop t (d0 - t) (d + 1) else (d, d0))"
  by auto
termination
  by (relation "measure (\<lambda>(t, d0, d). unat d0)") (auto simp: unat_sub word_le_nat_alt word_less_nat_alt)

definition digit_out :: "int \<Rightarrow> char" where
  "digit_out d = (if 9 < d then int_chr (65 + d - 10) else int_chr (48 + d))"

fun put_digits :: "'a::len word list \<Rightarrow> 'a word \<Rightarrow> bool \<Rightarrow> nat \<Rightarrow> string" where
  "put_digits tab d0 lzf 0 = []"
| "put_digits tab d0 lzf (Suc p) =
     (case sub_loop (tab ! p) d0 0 of (d, d1) \<Rightarrow>
        (if lzf \<or> d \<noteq> 0 \<or> p = 0 then [digit_out d] else []) @ put_digits tab d1 (lzf \<or> d \<noteq> 0) p)"

definition pad :: "bool \<Rightarrow> int \<Rightarrow> int \<Rightarrow> string" where
  "pad leadingz f p = replicate (nat (f - 1 - p)) (if leadingz then CHR ''0'' else CHR '' '')"

definition putdec32 :: "bool \<Rightarrow> bool \<Rightarrow> u32 \<Rightarrow> int \<Rightarrow> string" where
  "putdec32 leadingz signedf d0 f =
     (let neg = signedf \<and> d0 AND 0x80000000 \<noteq> 0;
          f1 = (if neg then f - 1 else f);
          d1 = (if neg then - d0 else d0);
          p0 = find_p dec32_table d1 0;
          p = (if p0 < 0 then 0 else p0)
      in (if neg then ''-'' else []) @ pad leadingz f1 p @ put_digits dec32_table d1 False (nat (p + 1)))"

definition putdec64 :: "bool \<Rightarrow> bool \<Rightarrow> u64 \<Rightarrow> int \<Rightarrow> string" where
  "putdec64 leadingz signedf d0 f =
     (let neg = signedf \<and> d0 AND 0x8000000000000000 \<noteq> 0;
          f1 = (if neg then f - 1 else f);
          d1 = (if neg then - d0 else d0);
          p = find_p dec64_table d1 0
      in (if neg then ''-'' else []) @ pad leadingz f1 p @ put_digits dec64_table d1 False (nat (p + 1)))"

definition puthex32 :: "bool \<Rightarrow> u32 \<Rightarrow> int \<Rightarrow> string" where
  "puthex32 leadingz d0 f =
     (let p = find_p hex32_table d0 0
      in pad leadingz f p @ put_digits hex32_table d0 False (nat (p + 1)))"

definition puthex64 :: "bool \<Rightarrow> u64 \<Rightarrow> int \<Rightarrow> string" where
  "puthex64 leadingz d0 f =
     (let p = find_p hex64_table d0 0
      in pad leadingz f p @ put_digits hex64_table d0 False (nat (p + 1)))"

text \<open>The debugging printers of bytes and words.\<close>

definition hex1 :: "u32 \<Rightarrow> string" where
  "hex1 x = [digit_out (uint (x AND 15))]"

definition hex2 :: "u32 \<Rightarrow> string" where
  "hex2 x = (let y = x AND 255 in hex1 (drop_bit 4 y) @ hex1 y)"

definition debhex8 :: "u32 \<Rightarrow> string" where
  "debhex8 x = hex2 (signed_drop_bit 24 x) @ hex2 (signed_drop_bit 16 x) @ hex2 (signed_drop_bit 8 x)
     @ hex2 x @ '' ''"

section \<open>Strings in fields\<close>

text \<open>A non-negative \<^verbatim>\<open>prefield\<close> is the width, and then \<^verbatim>\<open>field\<close> the greatest length; a negative one means
  that \<^verbatim>\<open>field\<close> is the width.\<close>

definition prstring :: "string \<Rightarrow> int \<Rightarrow> int \<Rightarrow> string" where
  "prstring s prefield field =
     (if 0 \<le> prefield then
        (let t = take (nat field) s
         in t @ replicate (nat (prefield - int (length t))) CHR '' '')
      else s @ replicate (nat (field - int (length s))) CHR '' '')"

section \<open>The format interpreter\<close>

datatype parg = AInt u32 | ALong u64 | AStr string | APtr u32 | ADbl u64

text \<open>The upper-case form of a selector, as the code computes it.\<close>

definition selector :: "char \<Rightarrow> char" where
  "selector t = (if CHR ''a'' \<le> t then int_chr (chr_int t - 32) else t)"

definition isdec :: "char \<Rightarrow> bool" where
  "isdec t \<longleftrightarrow> CHR ''0'' \<le> t \<and> t \<le> CHR ''9''"

text \<open>The conversions that take an argument: the selector, \<^verbatim>\<open>longf\<close>, zero padding, the two fields.\<close>

definition conv_arg :: "(bool \<Rightarrow> u64 \<Rightarrow> int \<Rightarrow> string) \<Rightarrow> char \<Rightarrow> nat \<Rightarrow> bool \<Rightarrow> int \<Rightarrow> int \<Rightarrow> parg \<Rightarrow> string option" where
  "conv_arg dbl t longf zp prefield field a =
     (case a of
        AInt v \<Rightarrow>
          (if t = CHR ''C'' then Some [int_chr (uint v)]
           else if t = CHR ''X'' \<and> longf \<le> 1 then Some (puthex32 zp v field)
           else if (t = CHR ''I'' \<or> t = CHR ''D'') \<and> longf \<le> 1 then Some (putdec32 zp True v field)
           else if t = CHR ''U'' \<and> longf \<le> 1 then Some (putdec32 zp False v field)
           else None)
      | ALong v \<Rightarrow>
          (if t = CHR ''X'' \<and> 1 < longf then Some (puthex64 zp v field)
           else if (t = CHR ''I'' \<or> t = CHR ''D'') \<and> 1 < longf then Some (putdec64 zp True v field)
           else if t = CHR ''U'' \<and> 1 < longf then Some (putdec64 zp False v field)
           else None)
      | AStr s \<Rightarrow> (if t = CHR ''S'' then Some (prstring s prefield field) else None)
      | APtr v \<Rightarrow> (if t = CHR ''P'' then Some (''0x'' @ puthex32 False v 1) else None)
      | ADbl d \<Rightarrow>
          (if t = CHR ''F'' then Some (dbl False d field)
           else if t = CHR ''E'' then Some (dbl True d field) else None))"

text \<open>\<open>pf_main\<close> is the loop over the format, its list beginning at the current character; \<open>pf_conv\<close> reads
  a conversion, its list beginning after the current character.  After \<^verbatim>\<open>%%\<close> the code does not
  advance, so the loop meets the second per cent sign again.\<close>

fun pf_main :: "(bool \<Rightarrow> u64 \<Rightarrow> int \<Rightarrow> string) \<Rightarrow> string \<Rightarrow> parg list \<Rightarrow> bool \<Rightarrow> string option"
  and pf_conv :: "(bool \<Rightarrow> u64 \<Rightarrow> int \<Rightarrow> string) \<Rightarrow> string \<Rightarrow> parg list \<Rightarrow> bool \<Rightarrow> int \<Rightarrow> int \<Rightarrow> nat \<Rightarrow> string option"
where
  "pf_main dbl [] args zp = Some []"
| "pf_main dbl (c # cs) args zp =
     (if c \<noteq> CHR ''%'' then map_option ((#) c) (pf_main dbl cs args zp)
      else pf_conv dbl cs args zp (-1) 0 0)"
| "pf_conv dbl [] args zp prefield field longf = None"
| "pf_conv dbl (t0 # cs) args zp prefield field longf =
     (let t = selector t0 in
      if t = CHR ''%'' then map_option ((#) CHR ''%'') (pf_main dbl (t0 # cs) args zp)
      else if t = CHR ''L'' then pf_conv dbl cs args zp prefield field (longf + 1)
      else if t \<in> {CHR ''C'', CHR ''S'', CHR ''F'', CHR ''E'', CHR ''X'', CHR ''P'', CHR ''I'', CHR ''D'', CHR ''U''}
      then (case args of [] \<Rightarrow> None
            | a # as \<Rightarrow>
                (case conv_arg dbl t longf zp prefield field a of None \<Rightarrow> None
                 | Some txt \<Rightarrow> map_option ((@) txt) (pf_main dbl cs as zp)))
      else if t = CHR ''*''
      then (case args of AInt v # as \<Rightarrow> pf_conv dbl cs as zp prefield (sint v) longf | _ \<Rightarrow> None)
      else if isdec t
      then pf_conv dbl cs args (zp \<or> t = CHR ''0'' \<and> field = 0) prefield
             (field * 10 + (chr_int t - 48)) longf
      else if t = CHR ''.'' then pf_conv dbl cs args zp field 0 longf
      else map_option ((@) ''??'') (pf_main dbl cs args zp))"

definition locked_printf :: "(bool \<Rightarrow> u64 \<Rightarrow> int \<Rightarrow> string) \<Rightarrow> string \<Rightarrow> parg list \<Rightarrow> string option" where
  "locked_printf dbl format poi = pf_main dbl format poi False"

section \<open>What the number printers print\<close>

text \<open>The digits of a number, most significant first.\<close>

function dl :: "nat \<Rightarrow> nat \<Rightarrow> nat list" where
  "dl b n = (if n < b \<or> b < 2 then [n] else dl b (n div b) @ [n mod b])"
  by pat_completeness auto
termination by (relation "measure snd") auto

declare dl.simps [simp del] sub_loop.simps [simp del] find_p.simps [simp del]

lemma base_digits_dl: "base_digits b n = map digit_char (dl b n)"
  by (induction b n rule: dl.induct) (simp add: dl.simps base_digits.simps)

lemma dl_less: "2 \<le> b \<Longrightarrow> d \<in> set (dl b n) \<Longrightarrow> d < b"
proof (induction b n rule: dl.induct)
  case (1 b n)
  then show ?case by (cases "n < b") (auto simp: dl.simps [of b n])
qed

text \<open>A fixed number of digits, from the most significant one down.\<close>

fun fixed :: "nat \<Rightarrow> nat \<Rightarrow> nat \<Rightarrow> nat list" where
  "fixed b 0 n = []"
| "fixed b (Suc p) n = (n div b ^ p) # fixed b p (n mod b ^ p)"

lemma fixed_snoc: "fixed b (Suc p) n = fixed b p (n div b) @ [n mod b]" if "n < b ^ Suc p" for n
  using that
proof (induction p arbitrary: n)
  case (Suc p)
  have 1: "n mod b ^ Suc p < b ^ Suc p"
    using Suc.prems by (metis mod_less_divisor not_less_zero power_Suc mult_is_0 gr0I)
  have 2: "(n mod b ^ Suc p) div b = (n div b) mod b ^ p" "(n mod b ^ Suc p) mod b = n mod b"
    by (cases "b = 0"; simp add: mod_mult2_eq)+
  show ?case
    using Suc.IH [OF 1] 2 by (simp add: div_mult2_eq)
qed simp

lemma dl_fixed:
  "2 \<le> b \<Longrightarrow> b ^ p \<le> n \<Longrightarrow> n < b ^ Suc p \<Longrightarrow> dl b n = fixed b (Suc p) n"
proof (induction p arbitrary: n)
  case (Suc p)
  have "b ^ p \<le> n div b" using Suc.prems by (simp add: less_eq_div_iff_mult_less_eq mult.commute)
  moreover have "n div b < b ^ Suc p" using Suc.prems by (intro less_mult_imp_div_less) (simp add: mult.commute)
  ultimately have "dl b (n div b) = fixed b (Suc p) (n div b)" using Suc.IH Suc.prems(1) by blast
  moreover have "\<not> n < b"
  proof -
    have "b * 1 \<le> b * b ^ p" using Suc.prems(1) by (intro mult_le_mono2) simp
    then have "b * 1 \<le> n" using Suc.prems(2) unfolding power_Suc by (rule order_trans)
    then show ?thesis by simp
  qed
  ultimately show ?case
    using fixed_snoc [OF Suc.prems(3)] Suc.prems(1) by (subst dl.simps) simp
qed (simp add: dl.simps)

lemma sub_loop_eq: "0 < t \<Longrightarrow> sub_loop t d0 d = (d + int (unat d0 div unat t), d0 mod t)"
proof (induction t d0 d rule: sub_loop.induct)
  case (1 t d0 d)
  show ?case
  proof (cases "t \<le> d0")
    case True
    have u: "unat (d0 - t) = unat d0 - unat t" "unat t \<le> unat d0" "0 < unat t"
      using True 1(2) by (simp_all add: unat_sub word_le_nat_alt word_less_nat_alt)
    have "unat d0 div unat t = Suc ((unat d0 - unat t) div unat t)"
      using u by (simp add: le_div_geq)
    moreover have "(d0 - t) mod t = d0 mod t"
      using u by (simp add: word_unat_eq_iff unat_mod le_mod_geq)
    ultimately show ?thesis using 1 True u by (subst sub_loop.simps) simp
  next
    case False
    then have "unat d0 div unat t = 0" "d0 mod t = d0"
      by (simp_all add: word_le_nat_alt word_arith_nat_mod)
    with False show ?thesis by (subst sub_loop.simps) simp
  qed
qed

text \<open>A table of the powers of the base.\<close>

definition powers :: "nat \<Rightarrow> 'a::len word list \<Rightarrow> bool" where
  "powers b tab \<longleftrightarrow> 2 \<le> b \<and> 2 \<le> length tab \<and> (\<forall>i<length tab. unat (tab ! i) = b ^ i)"

lemma powersD:
  assumes "powers b tab" "i < length tab"
  shows "unat (tab ! i) = b ^ i" "0 < tab ! i"
  using assms by (auto simp: powers_def word_less_nat_alt)

abbreviation out_digits :: "nat list \<Rightarrow> string" where
  "out_digits ds \<equiv> map (\<lambda>d. digit_out (int d)) ds"

lemma put_digits_step:
  assumes "powers b tab" "p < length tab"
  shows "put_digits tab d0 lzf (Suc p) =
     (let d = unat d0 div b ^ p in
      (if lzf \<or> d \<noteq> 0 \<or> p = 0 then [digit_out (int d)] else []) @
      put_digits tab (d0 mod (tab ! p)) (lzf \<or> d \<noteq> 0) p)"
    and "unat (d0 mod (tab ! p)) = unat d0 mod b ^ p"
  using powersD [OF assms] by (simp_all add: sub_loop_eq unat_mod Let_def)

lemma put_digits_fixed:
  assumes "powers b tab" "p \<le> length tab"
  shows "put_digits tab d0 True p = out_digits (fixed b p (unat d0))"
  using assms(2)
proof (induction p arbitrary: d0)
  case (Suc p)
  then have p: "p < length tab" by simp
  show ?case
    using Suc.IH [of "d0 mod (tab ! p)"] p
    by (subst put_digits_step(1) [OF assms(1) p]) (simp add: put_digits_step(2) [OF assms(1) p])
qed simp

lemma put_digits_number:
  assumes "powers b tab" "q < p" "p \<le> length tab" "b ^ q \<le> unat d0" "unat d0 < b ^ Suc q"
  shows "put_digits tab d0 False p = out_digits (dl b (unat d0))"
  using assms(2-)
proof (induction p arbitrary: d0)
  case (Suc p)
  then have p: "p < length tab" by simp
  have b: "2 \<le> b" using assms(1) by (simp add: powers_def)
  show ?case
  proof (cases "q = p")
    case True
    have "unat d0 div b ^ p \<noteq> 0" using Suc.prems(3) True b by (simp add: div_eq_0_iff)
    then show ?thesis
      using put_digits_fixed [OF assms(1), of p "d0 mod (tab ! p)"] p True dl_fixed [OF b Suc.prems(3,4)]
      by (subst put_digits_step(1) [OF assms(1) p]) (simp add: put_digits_step(2) [OF assms(1) p])
  next
    case False
    then have qp: "q < p" using Suc.prems(1) by simp
    then have "b ^ Suc q \<le> b ^ p" using b by (intro power_increasing) simp_all
    then have l: "unat d0 < b ^ p" using Suc.prems(4) by linarith
    then have m: "d0 mod (tab ! p) = d0" using put_digits_step(2) [OF assms(1) p]
      by (simp add: word_unat_eq_iff)
    show ?thesis
      using Suc.IH [of d0] Suc.prems qp l p
      by (subst put_digits_step(1) [OF assms(1) p]) (simp add: m)
  qed
qed simp

lemma digit_out_0: "digit_out 0 = CHR ''0''"
  by code_simp

lemma put_digits_zero: "powers b tab \<Longrightarrow> p < length tab \<Longrightarrow> put_digits tab 0 False (Suc p) = ''0''"
proof (induction p)
  case 0
  then show ?case by (subst put_digits_step(1)) (simp_all add: digit_out_0)
next
  case (Suc p)
  then show ?case by (subst put_digits_step(1)) (simp_all del: put_digits.simps(2))
qed

lemma find_p_number:
  assumes "powers b tab" "b ^ q \<le> unat d0" "unat d0 < b ^ Suc q" "p \<le> Suc q" "p < length tab"
  shows "find_p tab d0 p = (if q + 2 < length tab then int q else int (length tab - 1))"
  using assms(4,5)
proof (induction "Suc q - p" arbitrary: p)
  case 0
  then have p: "p = Suc q" by simp
  show ?case
  proof (cases "length tab - 1 \<le> p")
    case False
    then have "d0 < tab ! p" using powersD(1) [OF assms(1), of p] assms(3) p by (simp add: word_less_nat_alt)
    with False p show ?thesis by (subst find_p.simps) auto
  qed (use p 0 in \<open>subst find_p.simps, auto\<close>)
next
  case (Suc k)
  have "2 \<le> b" using assms(1) by (simp add: powers_def)
  then have "b ^ p \<le> b ^ q" using Suc.hyps(2) by (intro power_increasing) simp_all
  then have "\<not> d0 < tab ! p" using powersD(1) [OF assms(1), of p] Suc.prems(2) assms(2)
    by (simp add: word_less_nat_alt)
  then have "find_p tab d0 p = (if length tab - 1 \<le> p then int p else find_p tab d0 (p + 1))"
    by (subst find_p.simps) simp
  with Suc show ?case by auto
qed

lemma find_p_zero: "powers b tab \<Longrightarrow> find_p tab 0 0 = -1"
proof -
  assume p: "powers b tab"
  then have "2 \<le> length tab" by (simp add: powers_def)
  then have "\<not> length tab - 1 \<le> 0" "0 < tab ! 0" using powersD(2) [OF p, of 0] by linarith+
  then show ?thesis by (subst find_p.simps) simp
qed

lemma dl_position:
  assumes "2 \<le> b" "0 < n"
  shows "\<exists>q. b ^ q \<le> n \<and> n < b ^ Suc q \<and> length (dl b n) = Suc q"
proof -
  obtain q where q: "b ^ q \<le> n" "n < b ^ Suc q"
    using ex_power_ivl1 [of b n] assms by auto
  have "length (fixed b p m) = p" for p m by (induction p arbitrary: m) auto
  then show ?thesis using q dl_fixed [OF assms(1) q] by auto
qed

text \<open>Printing a non-zero number that the table covers: the position the field is padded to is the number
  of digits, except that a number with one digit less than the table is padded as if it had one more.\<close>

definition printed_width :: "nat \<Rightarrow> nat \<Rightarrow> nat" where
  "printed_width N k = (if k + 1 = N then N else k)"

lemma put_number:
  fixes d0 :: "'a::len word"
  assumes "powers b tab" "0 < unat d0" "unat d0 < b ^ length tab"
  shows "find_p tab d0 0 = int (printed_width (length tab) (length (dl b (unat d0)))) - 1"
    and "put_digits tab d0 False (nat (find_p tab d0 0 + 1)) = out_digits (dl b (unat d0))"
proof -
  have b: "2 \<le> b" "2 \<le> length tab" using assms(1) by (simp_all add: powers_def)
  obtain q where q: "b ^ q \<le> unat d0" "unat d0 < b ^ Suc q" "length (dl b (unat d0)) = Suc q"
    using dl_position [OF b(1) assms(2)] by blast
  have "b ^ q < b ^ length tab" using q(1) assms(3) by linarith
  then have ql: "q < length tab" using b(1) by (simp add: power_strict_increasing_iff)
  have f: "find_p tab d0 0 = (if q + 2 < length tab then int q else int (length tab - 1))"
    using b by (intro find_p_number [OF assms(1) q(1,2)]) auto
  then show "find_p tab d0 0 = int (printed_width (length tab) (length (dl b (unat d0)))) - 1"
    using q(3) ql by (auto simp: printed_width_def)
  show "put_digits tab d0 False (nat (find_p tab d0 0 + 1)) = out_digits (dl b (unat d0))"
    by (rule put_digits_number [OF assms(1) _ _ q(1,2)]) (use f ql in auto)
qed

lemma powers_map:
  assumes "2 \<le> b" "2 \<le> N" "map unat tab = map ((^) b) [0..<N]"
  shows "powers b tab"
proof -
  have l: "length tab = N" using arg_cong [OF assms(3), of length] by simp
  have "unat (tab ! i) = b ^ i" if "i < N" for i
    using arg_cong [OF assms(3), of "\<lambda>xs. xs ! i"] that l by simp
  with assms l show ?thesis by (simp add: powers_def)
qed

lemma powers_tables:
  "powers 10 dec32_table" "powers 10 dec64_table" "powers 16 hex32_table" "powers 16 hex64_table"
proof -
  have u: "[0..<10] = [0,1,2,3,4,5,6,7,8,9]" "[0..<8] = [0,1,2,3,4,5,6,7]"
    "[0..<16] = [0,1,2,3,4,5,6,7,8,9,10,11,12,13,14,15]"
    "[0..<20] = [0,1,2,3,4,5,6,7,8,9,10,11,12,13,14,15,16,17,18,19]"
    by code_simp+
  have "map unat dec32_table = map ((^) 10) [0..<10]" unfolding u dec32_table_def by simp
  moreover have "map unat dec64_table = map ((^) 10) [0..<20]" unfolding u dec64_table_def by simp
  moreover have "map unat hex32_table = map ((^) 16) [0..<8]" unfolding u hex32_table_def by simp
  moreover have "map unat hex64_table = map ((^) 16) [0..<16]" unfolding u hex64_table_def by simp
  ultimately
  show "powers 10 dec32_table" "powers 10 dec64_table" "powers 16 hex32_table" "powers 16 hex64_table"
    by (auto intro: powers_map [of _ 10] powers_map [of _ 20] powers_map [of _ 8] powers_map [of _ 16])
qed

lemma table_lengths [simp]:
  "length dec32_table = 10" "length dec64_table = 20" "length hex32_table = 8" "length hex64_table = 16"
  by (simp_all add: dec32_table_def dec64_table_def hex32_table_def hex64_table_def)

lemma digit_out_dec: "d < 10 \<Longrightarrow> digit_out (int d) = digit_char d"
proof -
  have "\<forall>d\<in>set [0..<10]. digit_out (int d) = digit_char d" by code_simp
  then show "d < 10 \<Longrightarrow> digit_out (int d) = digit_char d" by simp
qed

lemma out_digits_dec: "out_digits (dl 10 n) = base_digits 10 n"
  using dl_less [of 10 _ n] by (simp add: base_digits_dl digit_out_dec)

text \<open>The absolute value the decimal printers work on.\<close>

lemma sign_bit32: "(v :: u32) AND 0x80000000 \<noteq> 0 \<longleftrightarrow> sint v < 0"
proof -
  have "(0x80000000 :: u32) = push_bit 31 1" by simp
  then have "v AND 0x80000000 \<noteq> 0 \<longleftrightarrow> bit v 31" by (simp only: bit_iff_and_push_bit_not_eq_0)
  also have "\<dots> \<longleftrightarrow> sint v < 0" using bit_last_iff [of v] by simp
  finally show ?thesis .
qed

lemma sign_bit64: "(v :: u64) AND 0x8000000000000000 \<noteq> 0 \<longleftrightarrow> sint v < 0"
proof -
  have "(0x8000000000000000 :: u64) = push_bit 63 1" by simp
  then have "v AND 0x8000000000000000 \<noteq> 0 \<longleftrightarrow> bit v 63" by (simp only: bit_iff_and_push_bit_not_eq_0)
  also have "\<dots> \<longleftrightarrow> sint v < 0" using bit_last_iff [of v] by simp
  finally show ?thesis .
qed

lemma unat_negative: "sint v < 0 \<Longrightarrow> unat (- v) = nat (- sint v)" for v :: "'a::len word"
proof -
  assume v: "sint v < 0"
  have g: "- (2 ^ (LENGTH('a) - 1)) \<le> sint v" using sint_ge [of v] by simp
  have "- v = word_of_int (- sint v)" by simp
  then have "uint (- v) = (- sint v) mod 2 ^ LENGTH('a)" by (metis uint_word_of_int)
  moreover have "- sint v < 2 ^ LENGTH('a)"
  proof -
    have "(2 :: int) ^ (LENGTH('a) - 1) < 2 ^ LENGTH('a)" by (rule power_strict_increasing) simp_all
    with g show ?thesis by linarith
  qed
  ultimately have "uint (- v) = - sint v" using v by simp
  then show ?thesis by (metis nat_uint_eq)
qed

lemma unat_nonnegative: "0 \<le> sint v \<Longrightarrow> unat v = nat (sint v)" for v :: "'a::len word"
proof -
  assume "0 \<le> sint v"
  moreover have "sint v < 2 ^ LENGTH('a)"
    by (rule order_less_trans [OF sint_lt]) (rule power_strict_increasing, simp_all)
  ultimately have "uint v = sint v" by (simp add: uint_sint take_bit_int_eq_self)
  then show ?thesis by (metis nat_uint_eq)
qed

text \<open>The value that is printed and the padding to a field.\<close>

definition shown :: "bool \<Rightarrow> 'a::len word \<Rightarrow> int" where
  "shown signedf v = (if signedf then sint v else uint v)"

definition padding :: "bool \<Rightarrow> int \<Rightarrow> nat \<Rightarrow> string" where
  "padding leadingz f w = replicate (nat (f - int w)) (if leadingz then CHR ''0'' else CHR '' '')"

lemma pad_width: "pad lz f (int w - 1) = padding lz f w"
  by (simp add: pad_def padding_def)

lemma padding_nil: "f \<le> int w \<Longrightarrow> padding lz f w = []"
  by (simp add: padding_def)

lemma base_digits_0: "base_digits 10 0 = ''0''"
  by (simp add: base_digits.simps digit_char_def) code_simp

text \<open>The magnitude the printers work on, whatever the sign.\<close>

lemma magnitude:
  fixes v :: "'a::len word"
  shows "unat (if signedf \<and> sint v < 0 then - v else v) = nat \<bar>shown signedf v\<bar>"
  by (simp add: shown_def unat_negative unat_nonnegative)

lemma dec_number:
  fixes d :: "'a::len word"
  assumes "powers 10 tab" "d \<noteq> 0" "unat d < 10 ^ length tab"
  shows "pad lz f (find_p tab d 0) @ put_digits tab d False (nat (find_p tab d 0 + 1)) =
    padding lz f (printed_width (length tab) (length (base_digits 10 (unat d)))) @ base_digits 10 (unat d)"
    and "0 \<le> find_p tab d 0"
proof -
  have d: "0 < unat d" using assms(2) by (simp add: unat_gt_0)
  note n = put_number [OF assms(1) d assms(3)]
  show "pad lz f (find_p tab d 0) @ put_digits tab d False (nat (find_p tab d 0 + 1)) =
    padding lz f (printed_width (length tab) (length (base_digits 10 (unat d)))) @ base_digits 10 (unat d)"
    unfolding n(2) by (simp add: n(1) pad_width out_digits_dec base_digits_dl)
  have "0 < length (dl 10 (unat d))" by (subst dl.simps) simp
  then show "0 \<le> find_p tab d 0" by (auto simp: n(1) printed_width_def)
qed

lemma unat_32: "unat (d :: u32) < 10 ^ length dec32_table"
  using unsigned_less [of d, where ?'a = nat] by simp

lemma unat_64: "unat (d :: u64) < 10 ^ length dec64_table"
  using unsigned_less [of d, where ?'a = nat] by simp

text \<open>C32: Decimal printing of a 32-bit integer, signed or unsigned: the sign, then the padding (to one
column less than the field when the number has nine digits), then exactly the decimal digits of
the magnitude; the most negative integer included.\<close>

theorem putdec32_text:
  "putdec32 lz sg v f =
     (if shown sg v < 0 then ''-'' else []) @
     padding lz (if shown sg v < 0 then f - 1 else f)
       (printed_width 10 (length (base_digits 10 (nat \<bar>shown sg v\<bar>)))) @
     base_digits 10 (nat \<bar>shown sg v\<bar>)"
proof -
  let ?d = "if sg \<and> sint v < 0 then - v else v"
  have neg: "sg \<and> v AND 0x80000000 \<noteq> 0 \<longleftrightarrow> shown sg v < 0" by (auto simp: sign_bit32 shown_def)
  have m: "unat ?d = nat \<bar>shown sg v\<bar>" by (rule magnitude)
  show ?thesis
  proof (cases "?d = 0")
    case True
    then have "shown sg v = 0" using m by simp
    with True show ?thesis
      using put_digits_zero [OF powers_tables(1), of 0]
      by (simp add: putdec32_def neg find_p_zero [OF powers_tables(1)] pad_width [of lz f 1, simplified]
          base_digits_0 printed_width_def Let_def shown_def split: if_splits)
  next
    case False
    have d: "?d = (if shown sg v < 0 then - v else v)" by (auto simp: shown_def)
    show ?thesis
      using dec_number(1) [OF powers_tables(1) False unat_32] dec_number(2) [OF powers_tables(1) False unat_32] neg d m
      by (simp add: putdec32_def Let_def)
  qed
qed

text \<open>Hexadecimal and 64-bit printing: the digits of a non-zero number; a zero prints only its padding.\<close>

lemma putdec64_text:
  "putdec64 lz sg v f =
     (if shown sg v < 0 then ''-'' else []) @
     (if shown sg v = 0 then padding lz f 0
      else padding lz (if shown sg v < 0 then f - 1 else f)
             (printed_width 20 (length (base_digits 10 (nat \<bar>shown sg v\<bar>)))) @
           base_digits 10 (nat \<bar>shown sg v\<bar>))"
proof -
  let ?d = "if sg \<and> sint v < 0 then - v else v"
  have neg: "sg \<and> v AND 0x8000000000000000 \<noteq> 0 \<longleftrightarrow> shown sg v < 0" by (auto simp: sign_bit64 shown_def)
  have m: "unat ?d = nat \<bar>shown sg v\<bar>" by (rule magnitude)
  show ?thesis
  proof (cases "?d = 0")
    case True
    then have "shown sg v = 0" using m by simp
    with True show ?thesis
      by (simp add: putdec64_def neg find_p_zero [OF powers_tables(2)] pad_width [of lz f 0, simplified]
          Let_def shown_def split: if_splits)
  next
    case False
    have d: "?d = (if shown sg v < 0 then - v else v)" by (auto simp: shown_def)
    moreover from False have "shown sg v \<noteq> 0" using m by (auto simp: unat_eq_zero)
    ultimately show ?thesis
      using dec_number(1) [OF powers_tables(2) False unat_64] neg m
      by (simp add: putdec64_def Let_def)
  qed
qed

lemma puthex32_text:
  "puthex32 lz v f =
     (if v = 0 then padding lz f 0
      else padding lz f (printed_width 8 (length (dl 16 (unat v)))) @ out_digits (dl 16 (unat v)))"
proof (cases "v = 0")
  case True
  then show ?thesis
    by (simp add: puthex32_def find_p_zero [OF powers_tables(3)] pad_width [of lz f 0, simplified])
next
  case False
  then have "0 < unat v" "unat v < 16 ^ length hex32_table"
    using unsigned_less [of v, where ?'a = nat] by (simp_all add: unat_gt_0)
  note n = put_number [OF powers_tables(3) this]
  show ?thesis using False n(2) by (simp add: puthex32_def n(1) pad_width)
qed

text \<open>The decimal digits are read back.\<close>

lemma digit_char_dec: "d < 10 \<Longrightarrow> chr_int (digit_char d) = 48 + int d"
proof -
  have "\<forall>d\<in>set [0..<10]. chr_int (digit_char d) = 48 + int d" by code_simp
  then show "d < 10 \<Longrightarrow> chr_int (digit_char d) = 48 + int d" by simp
qed

lemma set_base_digits: "c \<in> set (base_digits 10 n) \<Longrightarrow> \<exists>d<10. c = digit_char d"
  using dl_less [of 10 _ n] by (auto simp: base_digits_dl)

lemma digit_dec: "d < 10 \<Longrightarrow> is_dig 10 (digit_char d) \<and> dval (digit_char d) = int d"
proof -
  have "\<forall>d\<in>set [0..<10]. is_dig 10 (digit_char d) \<and> dval (digit_char d) = int d" by code_simp
  then show "d < 10 \<Longrightarrow> is_dig 10 (digit_char d) \<and> dval (digit_char d) = int d" by simp
qed

lemma base_digits_is_dig: "list_all (is_dig 10) (base_digits 10 n)" "base_digits 10 n \<noteq> []"
  using digit_dec by (auto simp: list_all_iff dest: set_base_digits) (simp add: base_digits.simps [of 10 n] split: if_splits)

lemma hval_append: "hval b v (xs @ ys) = hval b (hval b v xs) ys"
  by (induction xs arbitrary: v) simp_all

lemma hval_base_digits: "hval 10 0 (base_digits 10 n) = int n"
proof (induction n rule: less_induct)
  case (less n)
  show ?case
  proof (cases "n < 10")
    case True
    then show ?thesis using digit_dec [of n] by (simp add: base_digits.simps [of 10 n])
  next
    case False
    then show ?thesis
      using less.IH [of "n div 10"] digit_dec [of "n mod 10"]
      by (subst base_digits.simps) (simp add: hval_append zdiv_int zmod_int)
  qed
qed

section \<open>What a format prints\<close>

text \<open>A reference: a format as a list of items, each with the field width it writes (none when zero).\<close>

datatype item =
    Lit char | Dec nat u32 | Uns nat u32 | Hex nat u32 | Str nat string | Chr u32

definition width_text :: "nat \<Rightarrow> string" where
  "width_text w = (if w = 0 then [] else base_digits 10 w)"

fun item_format :: "item \<Rightarrow> string" where
  "item_format (Lit c) = [c]"
| "item_format (Dec w v) = ''%'' @ width_text w @ ''d''"
| "item_format (Uns w v) = ''%'' @ width_text w @ ''u''"
| "item_format (Hex w v) = ''%'' @ width_text w @ ''x''"
| "item_format (Str w s) = ''%'' @ width_text w @ ''s''"
| "item_format (Chr c) = ''%c''"

fun item_args :: "item \<Rightarrow> parg list" where
  "item_args (Lit c) = []"
| "item_args (Dec w v) = [AInt v]"
| "item_args (Uns w v) = [AInt v]"
| "item_args (Hex w v) = [AInt v]"
| "item_args (Str w s) = [AStr s]"
| "item_args (Chr c) = [AInt c]"

fun item_text :: "item \<Rightarrow> string" where
  "item_text (Lit c) = [c]"
| "item_text (Dec w v) = putdec32 False True v (int w)"
| "item_text (Uns w v) = putdec32 False False v (int w)"
| "item_text (Hex w v) = puthex32 False v (int w)"
| "item_text (Str w s) = s @ replicate (w - length s) CHR '' ''"
| "item_text (Chr c) = [int_chr (uint c)]"

lemma selector_digit: "d < 10 \<Longrightarrow> selector (digit_char d) = digit_char d \<and> isdec (digit_char d) \<and>
    digit_char d \<notin> {CHR ''%'', CHR ''L'', CHR ''C'', CHR ''S'', CHR ''F'', CHR ''E'', CHR ''X'', CHR ''P'',
      CHR ''I'', CHR ''D'', CHR ''U'', CHR ''*''} \<and> (digit_char d = CHR ''0'' \<longleftrightarrow> d = 0)"
proof -
  have "\<forall>d\<in>set [0..<10]. selector (digit_char d) = digit_char d \<and> isdec (digit_char d) \<and>
    digit_char d \<notin> {CHR ''%'', CHR ''L'', CHR ''C'', CHR ''S'', CHR ''F'', CHR ''E'', CHR ''X'', CHR ''P'',
      CHR ''I'', CHR ''D'', CHR ''U'', CHR ''*''} \<and> (digit_char d = CHR ''0'' \<longleftrightarrow> d = 0)" by code_simp
  then show "d < 10 \<Longrightarrow> ?thesis" by simp
qed

lemma isdec_conv:
  assumes "d < 10"
  shows "pf_conv dbl (digit_char d # cs) args zp prefield field longf =
    pf_conv dbl cs args (zp \<or> d = 0 \<and> field = 0) prefield (field * 10 + int d) longf"
  using selector_digit [OF assms] digit_char_dec [OF assms] by (simp add: Let_def)

lemma width_digits:
  "0 < w \<Longrightarrow> pf_conv dbl (base_digits 10 w @ cs) args zp prefield 0 longf =
     pf_conv dbl cs args zp prefield (int w) longf"
proof (induction w arbitrary: cs rule: less_induct)
  case (less w)
  show ?case
  proof (cases "w < 10")
    case True
    then show ?thesis using less.prems isdec_conv [of w] by (simp add: base_digits.simps [of 10 w] del: pf_conv.simps)
  next
    case False
    have "pf_conv dbl (base_digits 10 w @ cs) args zp prefield 0 longf =
        pf_conv dbl (base_digits 10 (w div 10) @ digit_char (w mod 10) # cs) args zp prefield 0 longf"
      using False by (simp add: base_digits.simps [of 10 w] del: pf_conv.simps)
    also have "\<dots> = pf_conv dbl (digit_char (w mod 10) # cs) args zp prefield (int (w div 10)) longf"
      using less.IH [of "w div 10"] False by (simp del: pf_conv.simps)
    also have "\<dots> = pf_conv dbl cs args zp prefield (int w) longf"
    proof -
      have "int (w div 10) * 10 + int (w mod 10) = int w" by presburger
      moreover have "w div 10 \<noteq> 0" using False by simp
      ultimately show ?thesis using isdec_conv [of "w mod 10"] by (simp del: pf_conv.simps)
    qed
    finally show ?thesis .
  qed
qed

lemma width_conv:
  "pf_conv dbl (width_text w @ cs) args zp prefield 0 longf = pf_conv dbl cs args zp prefield (int w) longf"
  using width_digits [of w] by (simp add: width_text_def del: pf_conv.simps)

lemma selector_letters:
  "selector CHR ''d'' = CHR ''D''" "selector CHR ''u'' = CHR ''U''" "selector CHR ''x'' = CHR ''X''"
  "selector CHR ''s'' = CHR ''S''" "selector CHR ''c'' = CHR ''C''" "selector CHR ''%'' = CHR ''%''"
  by code_simp+

lemma item_step:
  assumes "\<And>c. it = Lit c \<Longrightarrow> c \<noteq> CHR ''%''"
  shows "pf_main dbl (item_format it @ cs) (item_args it @ as) False =
    map_option ((@) (item_text it)) (pf_main dbl cs as False)"
proof (cases it)
  case (Lit c)
  with assms show ?thesis by (cases "pf_main dbl cs as False") auto
next
  case (Str w s)
  have "nat (int w - int (length s)) = w - length s" by simp
  with Str show ?thesis
    by (simp add: width_conv selector_letters conv_arg_def prstring_def del: pf_conv.simps(2))
      (simp add: selector_letters conv_arg_def prstring_def)
qed (simp_all add: width_conv selector_letters conv_arg_def Let_def)

text \<open>C34: For every format built from literal characters (not the per cent sign) and the conversions of
signed, unsigned and hexadecimal integers and strings, each with or without a field width, and of
characters, with the matching arguments, the interpreter prints the concatenation of what the
items print.\<close>

theorem printf_items:
  assumes "\<And>c. Lit c \<in> set its \<Longrightarrow> c \<noteq> CHR ''%''"
  shows "locked_printf dbl (concat (map item_format its)) (concat (map item_args its)) =
    Some (concat (map item_text its))"
proof -
  have "pf_main dbl (concat (map item_format its)) (concat (map item_args its)) False =
    Some (concat (map item_text its))"
    using assms by (induction its) (simp_all add: item_step)
  then show ?thesis by (simp add: locked_printf_def)
qed

theorem printf_items_witness:
  "locked_printf (\<lambda>b d f. []) ''x=%4d %s'' [AInt (- 5), AStr ''ok''] = Some ''x=-  5 ok''"
proof -
  let ?its = "[Lit CHR ''x'', Lit CHR ''='', Dec 4 (- 5), Lit CHR '' '', Str 0 ''ok'']"
  have b: "base_digits 10 4 = ''4''" "base_digits 10 5 = ''5''" by code_simp+
  have r: "replicate 2 CHR '' '' = ''  ''" by code_simp
  have e: "concat (map item_format ?its) = ''x=%4d %s''" "concat (map item_args ?its) = [AInt (- 5), AStr ''ok'']"
    by (simp_all add: width_text_def b)
  have x: "concat (map item_text ?its) = ''x=-  5 ok''"
    by (simp add: putdec32_text shown_def padding_def printed_width_def b r)
  have "locked_printf (\<lambda>b d f. []) (concat (map item_format ?its)) (concat (map item_args ?its)) =
      Some (concat (map item_text ?its))" by (rule printf_items) auto
  then show ?thesis unfolding e x .
qed

lemma pf_main_literals:
  "CHR ''%'' \<notin> set t \<Longrightarrow> pf_main dbl (t @ cs) args zp = map_option ((@) t) (pf_main dbl cs args zp)"
proof (induction t)
  case Nil
  then show ?case by (cases "pf_main dbl cs args zp") auto
next
  case (Cons c t)
  then show ?case by (cases "pf_main dbl cs args zp") auto
qed

text \<open>Two per cent signs do not print as one: after any literal text the format \<^verbatim>\<open>%%d\<close> prints a per
cent sign and then, taking the second one again as the start of a conversion, consumes an argument
and prints it in decimal; without an argument left it reads one that was not passed.\<close>

theorem percent_percent:
  assumes "CHR ''%'' \<notin> set t"
  shows "locked_printf dbl (t @ ''%%d'') [AInt v] = Some (t @ ''%'' @ putdec32 False True v 0) \<and>
    locked_printf dbl (t @ ''%%d'') [] = None"
  by (simp add: locked_printf_def pf_main_literals [OF assms] selector_letters conv_arg_def)

theorem percent_percent_witness:
  "locked_printf (\<lambda>b d f. []) ''5%%d'' [AInt 7] = Some (''5'' @ ''%'' @ putdec32 False True 7 0) \<and>
   locked_printf (\<lambda>b d f. []) ''5%%d'' [] = None"
proof -
  have n: "CHR ''%'' \<notin> set ''5''" by simp
  show ?thesis using percent_percent [OF n, of "\<lambda>b d f. []" 7] by simp
qed

end
