(* ===== verification/HostFiles.thy ===== *)
theory HostFiles
  imports Prelude
begin

text \<open>
  The simulator's file backdoor: the table of host files of \<^verbatim>\<open>vhls/src/tenos/io_backdoor.cpp\<close> and the
  four software-interrupt handlers of \<^verbatim>\<open>vhls/src/arm/armisa.cpp\<close> through which the target program
  reaches it.  The host's file system is a map from names to contents; a host file is a name, a mode
  and a position.  Using a null host file or a handle outside the table and overrunning a buffer of the handlers are \<open>None\<close>.
\<close>

section \<open>The table of host files\<close>

datatype hmode = HRead | HWrite

record hfile =
  hname :: string
  hmode :: hmode
  hpos :: nat

record host =
  fs :: "string \<Rightarrow> string option"
  files :: "hfile option list"
  open_files :: int
  curr_idx :: nat

definition MAX_FILES :: nat where "MAX_FILES = 256"

definition host_init :: "(string \<Rightarrow> string option) \<Rightarrow> host" where
  "host_init f = \<lparr> fs = f, files = replicate MAX_FILES None, open_files = 0, curr_idx = 0 \<rparr>"

text \<open>The file behind a handle; a null entry and a handle outside the table are \<open>None\<close>.\<close>

definition slot :: "nat \<Rightarrow> host \<Rightarrow> hfile option" where
  "slot i h = (if i < length (files h) then files h ! i else None)"

lemma slot_in [simp]: "i < length (files h) \<Longrightarrow> slot i h = files h ! i"
  by (simp add: slot_def)

text \<open>The host's \<^verbatim>\<open>fopen\<close> for the modes the target can ask for.\<close>

definition host_fopen :: "string \<Rightarrow> string \<Rightarrow> host \<Rightarrow> (hfile \<times> host) option" where
  "host_fopen name mode h =
     (if mode = ''r'' then
        (if fs h name = None then None else Some (\<lparr>hname = name, hmode = HRead, hpos = 0\<rparr>, h))
      else if mode = ''w'' then
        Some (\<lparr>hname = name, hmode = HWrite, hpos = 0\<rparr>, h\<lparr>fs := (fs h)(name \<mapsto> [])\<rparr>)
      else None)"

definition bd_open :: "string \<Rightarrow> string \<Rightarrow> host \<Rightarrow> int \<times> host" where
  "bd_open name mode h =
     (if int MAX_FILES \<le> open_files h then (-1, h)
      else case host_fopen name mode h of None \<Rightarrow> (-1, h)
        | Some (f, h1) \<Rightarrow>
            let i = (if curr_idx h1 = MAX_FILES then 0 else curr_idx h1)
            in (int i, h1\<lparr>files := (files h1)[i := Some f], curr_idx := i + 1,
                          open_files := open_files h1 + 1\<rparr>))"

text \<open>What \<^verbatim>\<open>fgetc\<close> still delivers from a file.\<close>

definition unread :: "hfile \<Rightarrow> host \<Rightarrow> string" where
  "unread f h = (if hmode f = HRead then (case fs h (hname f) of None \<Rightarrow> [] | Some c \<Rightarrow> drop (hpos f) c)
                 else [])"

definition bd_fill :: "nat \<Rightarrow> nat \<Rightarrow> host \<Rightarrow> (string \<times> host) option" where
  "bd_fill fid n h =
     (case slot fid h of None \<Rightarrow> None
      | Some f \<Rightarrow>
          let cs = take (max 1 n) (unread f h)
          in Some (cs, h\<lparr>files := (files h)[fid := Some (f\<lparr>hpos := hpos f + length cs\<rparr>)]\<rparr>))"

definition write_at :: "nat \<Rightarrow> string \<Rightarrow> string \<Rightarrow> string" where
  "write_at n s c = take n (c @ replicate (n - length c) NUL) @ s @ drop (n + length s) c"

definition bd_flush :: "nat \<Rightarrow> string \<Rightarrow> host \<Rightarrow> (int \<times> host) option" where
  "bd_flush fid buf h =
     (case slot fid h of None \<Rightarrow> None
      | Some f \<Rightarrow>
          Some (int (length buf),
            if hmode f = HRead then h
            else h\<lparr>fs := (fs h)(hname f \<mapsto>
                          write_at (hpos f) buf (case fs h (hname f) of None \<Rightarrow> [] | Some c \<Rightarrow> c)),
                   files := (files h)[fid := Some (f\<lparr>hpos := hpos f + length buf\<rparr>)]\<rparr>))"

definition bd_close :: "nat \<Rightarrow> host \<Rightarrow> (int \<times> host) option" where
  "bd_close fid h =
     (case slot fid h of None \<Rightarrow> None
      | Some f \<Rightarrow> Some (0, h\<lparr>open_files := open_files h - 1, files := (files h)[fid := None]\<rparr>))"

section \<open>The software-interrupt handlers\<close>

text \<open>Opening: the name and the mode are copied into arrays of 256 and 8 bytes.\<close>

definition swi_fopen :: "string \<Rightarrow> string \<Rightarrow> host \<Rightarrow> (int \<times> host) option" where
  "swi_fopen name mode h =
     (if 256 \<le> length name \<or> 8 \<le> length mode then None else Some (bd_open name mode h))"

text \<open>Refilling a buffer: the bytes read, or \<open>[]\<close> and the return value 1 at the end of the file.\<close>

definition swi_refill :: "nat \<Rightarrow> nat \<Rightarrow> host \<Rightarrow> (int \<times> string \<times> host) option" where
  "swi_refill fid sz h =
     map_option (\<lambda>(cs, h1). (if cs \<noteq> [] then 0 else 1, cs, h1)) (bd_fill fid sz h)"

text \<open>Flushing: the target's bytes up to the first zero are copied into a buffer of \<open>sz\<close> bytes,
  zero included, and written.\<close>

definition swi_flush :: "nat \<Rightarrow> string \<Rightarrow> nat \<Rightarrow> host \<Rightarrow> (int \<times> host) option" where
  "swi_flush fid bytes sz h =
     (let s = takeWhile (\<lambda>c. c \<noteq> NUL) bytes
      in if length s < sz \<and> length s < length bytes then bd_flush fid s h else None)"

definition swi_fclose :: "nat \<Rightarrow> host \<Rightarrow> (int \<times> host) option" where
  "swi_fclose fid h = bd_close fid h"

section \<open>Facts about the table\<close>

definition host_ok :: "host \<Rightarrow> bool" where
  "host_ok h \<longleftrightarrow> length (files h) = MAX_FILES \<and> curr_idx h \<le> MAX_FILES"

lemma host_init_ok: "host_ok (host_init f)"
  by (simp add: host_ok_def host_init_def)

lemma bd_open_ok: "host_ok h \<Longrightarrow> host_ok (snd (bd_open name mode h))"
  by (auto simp: bd_open_def host_ok_def host_fopen_def MAX_FILES_def Let_def split: option.split)

lemma bd_open_handle:
  assumes "bd_open name mode h = (r, h')" "0 \<le> r" "host_ok h"
  shows "nat r < length (files h')" "files h' ! nat r = Some \<lparr>hname = name,
      hmode = (if mode = ''r'' then HRead else HWrite), hpos = 0\<rparr>"
  using assms
  by (auto simp: bd_open_def host_ok_def host_fopen_def MAX_FILES_def Let_def split: option.splits if_splits)

text \<open>The table of open files is reused in a circle without looking whether a slot is free: with the
pointer at its end, opening a file replaces the host file of handle 0, although other handles are
closed, so that the program that still holds handle 0 reads and writes the new file.\<close>

theorem open_reuses_busy_slot:
  assumes "curr_idx h = MAX_FILES" "length (files h) = MAX_FILES" "open_files h < 256"
    and "files h ! 0 = Some f" "fs h name = Some c"
  shows "\<exists>h'. bd_open name ''r'' h = (0, h') \<and> files h' ! 0 = Some \<lparr>hname = name, hmode = HRead, hpos = 0\<rparr>"
  using assms by (simp add: bd_open_def host_fopen_def Let_def MAX_FILES_def)

theorem open_reuses_busy_slot_witness:
  "\<exists>h'. bd_open ''b'' ''r''
      \<lparr>fs = [''a'' \<mapsto> ''1'', ''b'' \<mapsto> ''2''],
        files = (replicate 256 None)[0 := Some \<lparr>hname = ''a'', hmode = HRead, hpos = 0\<rparr>],
        open_files = 1, curr_idx = 256\<rparr> = (0, h') \<and>
     files h' ! 0 = Some \<lparr>hname = ''b'', hmode = HRead, hpos = 0\<rparr>"
  by (rule open_reuses_busy_slot) (simp_all add: MAX_FILES_def)

end
