(* ===== verification/Stdio.thy ===== *)
theory Stdio
  imports Format HostFiles CString
begin

text \<open>
  Streams, the console and the printing entry points of \<^verbatim>\<open>vhls/src/crt/prlibc/prlibc.c\<close>, over the
  simulator's file backdoor (theory \<open>HostFiles\<close>).  A stream is the record of \<^verbatim>\<open>prstdio.h\<close>; its pointer
  \<^verbatim>\<open>_p\<close> is an index into its buffer.  Access outside the buffer and a fault of the backdoor are
  \<open>None\<close>.  The locale \<open>byte_sink\<close> is what the formatter needs of an output; the console, a string in
  memory and a stream are its instances.
\<close>

section \<open>Sinks\<close>

fun put_all :: "(char \<Rightarrow> 's \<Rightarrow> 's option) \<Rightarrow> string \<Rightarrow> 's \<Rightarrow> 's option" where
  "put_all put [] s = Some s"
| "put_all put (c # cs) s = (case put c s of None \<Rightarrow> None | Some s1 \<Rightarrow> put_all put cs s1)"

locale byte_sink =
  fixes put :: "char \<Rightarrow> 's \<Rightarrow> 's option"
    and room :: "'s \<Rightarrow> nat \<Rightarrow> bool"
    and good :: "char \<Rightarrow> bool"
    and out :: "'s \<Rightarrow> string"
  assumes put_room: "room s (Suc n) \<Longrightarrow> good c \<Longrightarrow>
    \<exists>s'. put c s = Some s' \<and> out s' = out s @ [c] \<and> room s' n"
begin

lemma put_all_out:
  "room s (length cs) \<Longrightarrow> list_all good cs \<Longrightarrow>
   \<exists>s'. put_all put cs s = Some s' \<and> out s' = out s @ cs \<and> room s' 0"
proof (induction cs arbitrary: s)
  case (Cons c cs)
  then obtain s1 where "put c s = Some s1" "out s1 = out s @ [c]" "room s1 (length cs)"
    using put_room [of s "length cs" c] by auto
  with Cons.IH [of s1] Cons.prems show ?case by auto
qed auto

end

section \<open>Streams\<close>

definition STDIOLEN :: nat where "STDIOLEN = 1024"

definition F_READ :: int where "F_READ = 1"
definition F_WRIT :: int where "F_WRIT = 2"

record FILE =
  f_r :: int
  f_p :: int
  f_handle :: nat
  f_flags :: int
  f_data :: string

definition sflush :: "FILE \<Rightarrow> host \<Rightarrow> (int \<times> FILE \<times> host) option" where
  "sflush fp h =
     (case swi_flush (f_handle fp) (f_data fp) STDIOLEN h of None \<Rightarrow> None
      | Some (r, h1) \<Rightarrow>
          Some (r, fp\<lparr>f_data := replicate STDIOLEN NUL, f_r := int STDIOLEN, f_p := 0\<rparr>, h1))"

text \<open>Reading and writing the byte at the pointer.\<close>

definition in_buf :: "FILE \<Rightarrow> bool" where
  "in_buf fp \<longleftrightarrow> 0 \<le> f_p fp \<and> f_p fp < int (length (f_data fp))"

definition at_p :: "FILE \<Rightarrow> char" where "at_p fp = f_data fp ! nat (f_p fp)"

definition file_put :: "char \<Rightarrow> FILE \<times> host \<Rightarrow> (FILE \<times> host) option" where
  "file_put c x =
     (case (if f_r (fst x) = 0 then map_option (\<lambda>(r, f, h). (f, h)) (sflush (fst x) (snd x)) else Some x)
      of None \<Rightarrow> None
      | Some (f, h) \<Rightarrow>
          if in_buf f
          then Some (f\<lparr>f_data := (f_data f)[nat (f_p f) := c], f_p := f_p f + 1, f_r := f_r f - 1\<rparr>, h)
          else None)"

definition fputs :: "string \<Rightarrow> FILE option \<Rightarrow> host \<Rightarrow> (int \<times> FILE option \<times> host) option" where
  "fputs str stream h =
     (case stream of None \<Rightarrow> Some (-1, None, h)
      | Some f \<Rightarrow>
          (case put_all file_put str (f, h) of None \<Rightarrow> None
           | Some (f1, h1) \<Rightarrow> Some (int (length str), Some f1, h1)))"

definition srefill :: "FILE \<Rightarrow> host \<Rightarrow> (bool \<times> FILE \<times> host) option" where
  "srefill fp h =
     (case swi_refill (f_handle fp) STDIOLEN h of None \<Rightarrow> None
      | Some (r, cs, h1) \<Rightarrow>
          if r = 0
          then Some (False, fp\<lparr>f_p := 0, f_r := int (length cs),
                               f_data := cs @ drop (length cs) (f_data fp)\<rparr>, h1)
          else Some (True, fp\<lparr>f_p := 0\<rparr>, h1))"

definition fgetc :: "FILE \<Rightarrow> host \<Rightarrow> (char \<times> FILE \<times> host) option" where
  "fgetc fp h =
     (case (if f_r fp = 0 then map_option snd (srefill fp h) else Some (fp, h)) of None \<Rightarrow> None
      | Some (f, h1) \<Rightarrow>
          if in_buf f then Some (at_p f, f\<lparr>f_p := f_p f + 1, f_r := f_r f - 1\<rparr>, h1) else None)"

definition ungetc :: "char \<Rightarrow> FILE \<Rightarrow> FILE option" where
  "ungetc c fp =
     (let f = fp\<lparr>f_p := f_p fp - 1\<rparr>
      in if in_buf f then Some (f\<lparr>f_data := (f_data f)[nat (f_p f) := c], f_r := f_r f + 1\<rparr>) else None)"

text \<open>The next \<open>n\<close> bytes of the buffer.\<close>

definition chunk :: "FILE \<Rightarrow> int \<Rightarrow> string option" where
  "chunk fp n =
     (if 0 \<le> f_p fp \<and> 0 \<le> n \<and> f_p fp + n \<le> int (length (f_data fp))
      then Some (take (nat n) (drop (nat (f_p fp)) (f_data fp))) else None)"

definition advance :: "int \<Rightarrow> FILE \<Rightarrow> FILE" where
  "advance n fp = fp\<lparr>f_r := f_r fp - n, f_p := f_p fp + n\<rparr>"

text \<open>\<^verbatim>\<open>fgets\<close>: the text stored before the terminating zero, or nothing (a null pointer).\<close>

partial_function (option) fgets_loop :: "string \<Rightarrow> int \<Rightarrow> FILE \<Rightarrow> host \<Rightarrow> (string option \<times> FILE \<times> host) option" where
  "fgets_loop s n fp h =
     (if n = 0 then Some (Some s, fp, h)
      else
        (case (if f_r fp \<le> 0 then srefill fp h else Some (False, fp, h)) of None \<Rightarrow> None
         | Some (eof, f, h1) \<Rightarrow>
             if eof then Some (if s = [] then None else Some s, f, h1)
             else
               (let len = (if f_r f > n then n else f_r f) in
                case chunk f len of None \<Rightarrow> None
                | Some cs \<Rightarrow>
                    if CHR 0x0A \<in> set cs
                    then (let k = length (takeWhile (\<lambda>c. c \<noteq> CHR 0x0A) cs) + 1
                          in Some (Some (s @ take k cs), advance (int k) f, h1))
                    else fgets_loop (s @ cs) (n - len) (advance len f) h1)))"

definition fgets :: "int \<Rightarrow> FILE \<Rightarrow> host \<Rightarrow> (string option \<times> FILE \<times> host) option" where
  "fgets n fp h = (if n = 0 then Some (None, fp, h) else fgets_loop [] (n - 1) fp h)"

text \<open>\<^verbatim>\<open>fread\<close>: the bytes stored and the number of items returned.\<close>

partial_function (option) fread_loop :: "string \<Rightarrow> int \<Rightarrow> FILE \<Rightarrow> host \<Rightarrow> (string \<times> int \<times> FILE \<times> host) option" where
  "fread_loop p resid fp h =
     (if f_r fp < resid then
        (case chunk fp (f_r fp) of None \<Rightarrow> None
         | Some cs \<Rightarrow>
             (case srefill (fp\<lparr>f_p := f_p fp + f_r fp\<rparr>) h of None \<Rightarrow> None
              | Some (eof, f, h1) \<Rightarrow>
                  if eof then Some (p @ cs, resid - f_r fp, f, h1)
                  else fread_loop (p @ cs) (resid - f_r fp) f h1))
      else (case chunk fp resid of None \<Rightarrow> None
            | Some cs \<Rightarrow> Some (p @ cs, 0, advance resid fp, h)))"

definition fread :: "int \<Rightarrow> int \<Rightarrow> FILE \<Rightarrow> host \<Rightarrow> (string \<times> int \<times> FILE \<times> host) option" where
  "fread sz count fp h =
     (let resid = count * sz in
      if resid = 0 then Some ([], 0, fp, h)
      else
        (case fread_loop [] resid (if f_r fp < 0 then fp\<lparr>f_r := 0\<rparr> else fp) h of None \<Rightarrow> None
         | Some (cs, left, f, h1) \<Rightarrow>
             Some (cs, if left = 0 then count else (resid - left) div sz, f, h1)))"

text \<open>Opening; \<open>g\<close> is what the allocated buffer holds.  The result is \<open>None\<close> for a null pointer.\<close>

definition fopen :: "string \<Rightarrow> string \<Rightarrow> string \<Rightarrow> host \<Rightarrow> (FILE option \<times> host) option" where
  "fopen g filename mode h =
     (if mode \<noteq> ''r'' \<and> mode \<noteq> ''w'' then Some (None, h)
      else
        (case swi_fopen filename mode h of None \<Rightarrow> None
         | Some (fid, h1) \<Rightarrow>
             if fid < 0 then Some (None, h1)
             else
               (let f = \<lparr>f_r = 0, f_p = 0, f_handle = nat fid,
                         f_flags = (if mode = ''r'' then F_READ else F_WRIT), f_data = g\<rparr>
                in if mode = ''r''
                   then map_option (\<lambda>(e, f1, h2). (Some f1, h2)) (srefill f h1)
                   else Some (Some (f\<lparr>f_data := replicate STDIOLEN NUL, f_r := int STDIOLEN\<rparr>), h1))))"

definition fclose :: "FILE \<Rightarrow> host \<Rightarrow> (int \<times> host) option" where
  "fclose fp h =
     (case (if or (f_flags fp) F_WRIT \<noteq> 0 then map_option (\<lambda>(r, f, h1). h1) (sflush fp h) else Some h) of
        None \<Rightarrow> None
      | Some h1 \<Rightarrow> swi_fclose (f_handle fp) h1)"

section \<open>The console and the printing entry points\<close>

text \<open>\<open>console\<close> is what the serial output has received; \<open>streams\<close> are the open streams by address;
  \<open>ffile\<close>, \<open>spf\<close> and \<open>fspf\<close> are the static variables that direct \<^verbatim>\<open>pfputc\<close>.\<close>

record io =
  console :: string
  memory :: mem
  hostf :: host
  streams :: "addr \<Rightarrow> FILE option"
  ffile :: bool
  spf :: addr
  fspf :: addr

definition putchar :: "char \<Rightarrow> io \<Rightarrow> io" where
  "putchar c s = s\<lparr>console := console s @ [c]\<rparr>"

definition pfputc :: "char \<Rightarrow> io \<Rightarrow> io option" where
  "pfputc c s =
     (if ffile s then
        (case streams s (fspf s) of None \<Rightarrow> None
         | Some f \<Rightarrow>
             map_option (\<lambda>(f1, h1). s\<lparr>streams := (streams s)(fspf s \<mapsto> f1), hostf := h1\<rparr>)
               (file_put c (f, hostf s)))
      else if spf s \<noteq> 0 then Some (s\<lparr>memory := (memory s)(spf s := c), spf := spf s + 1\<rparr>)
      else Some (putchar c s))"

definition print_to :: "(bool \<Rightarrow> u64 \<Rightarrow> int \<Rightarrow> string) \<Rightarrow> string \<Rightarrow> parg list \<Rightarrow> io \<Rightarrow> io option" where
  "print_to dbl format poi s =
     (case locked_printf dbl format poi of None \<Rightarrow> None | Some txt \<Rightarrow> put_all pfputc txt s)"

definition printf :: "(bool \<Rightarrow> u64 \<Rightarrow> int \<Rightarrow> string) \<Rightarrow> string \<Rightarrow> parg list \<Rightarrow> io \<Rightarrow> io option" where
  "printf dbl format poi s = print_to dbl format poi (s\<lparr>ffile := False, spf := 0\<rparr>)"

definition fprintf :: "(bool \<Rightarrow> u64 \<Rightarrow> int \<Rightarrow> string) \<Rightarrow> addr \<Rightarrow> string \<Rightarrow> parg list \<Rightarrow> io \<Rightarrow> io option" where
  "fprintf dbl f format poi s =
     (let s1 = s\<lparr>ffile := False, spf := 0\<rparr>;
          s2 = (if f \<noteq> 0 then s1\<lparr>ffile := True, fspf := f\<rparr> else s1)
      in print_to dbl format poi s2)"

definition vfprintf :: "(bool \<Rightarrow> u64 \<Rightarrow> int \<Rightarrow> string) \<Rightarrow> addr \<Rightarrow> string \<Rightarrow> parg list \<Rightarrow> io \<Rightarrow> io option" where
  "vfprintf dbl f format poi s = print_to dbl format poi s"

definition vsnprintf :: "(bool \<Rightarrow> u64 \<Rightarrow> int \<Rightarrow> string) \<Rightarrow> addr \<Rightarrow> int \<Rightarrow> string \<Rightarrow> parg list \<Rightarrow> io \<Rightarrow> io option" where
  "vsnprintf dbl str sz format poi s =
     map_option (\<lambda>s1. s1\<lparr>memory := (memory s1)(spf s1 := NUL)\<rparr>)
       (print_to dbl format poi (s\<lparr>ffile := False, spf := str\<rparr>))"

definition sprintf :: "(bool \<Rightarrow> u64 \<Rightarrow> int \<Rightarrow> string) \<Rightarrow> addr \<Rightarrow> string \<Rightarrow> parg list \<Rightarrow> io \<Rightarrow> io option" where
  "sprintf dbl str format poi s =
     map_option (\<lambda>s1. s1\<lparr>memory := (memory s1)(spf s1 := NUL)\<rparr>)
       (print_to dbl format poi (s\<lparr>ffile := False, spf := str\<rparr>))"

definition snprintf :: "(bool \<Rightarrow> u64 \<Rightarrow> int \<Rightarrow> string) \<Rightarrow> addr \<Rightarrow> int \<Rightarrow> string \<Rightarrow> parg list \<Rightarrow> io \<Rightarrow> io option" where
  "snprintf dbl str ignored format poi s =
     map_option (\<lambda>s1. s1\<lparr>memory := (memory s1)(spf s1 := NUL)\<rparr>)
       (print_to dbl format poi (s\<lparr>ffile := False, spf := str\<rparr>))"

text \<open>The other console writers: the arguments \<^verbatim>\<open>size\<close>, \<^verbatim>\<open>nmemb\<close> and \<^verbatim>\<open>stream\<close> of \<^verbatim>\<open>fwrite\<close> are not used.\<close>

definition fwrite :: "string \<Rightarrow> int \<Rightarrow> int \<Rightarrow> addr \<Rightarrow> io \<Rightarrow> io" where
  "fwrite buf sz nmemb stream s = fold putchar buf s"

definition sa_write :: "string \<Rightarrow> io \<Rightarrow> io" where
  "sa_write buf s =
     fold (\<lambda>c s. if c = CHR 0x0A then putchar c (putchar (CHR 0x0D) s) else putchar c s) buf s"

definition puts :: "string \<Rightarrow> io \<Rightarrow> io" where
  "puts cs s = putchar (CHR 0x0A) (fold putchar cs s)"

definition writes :: "string \<Rightarrow> io \<Rightarrow> io" where
  "writes cs s =
     fold (\<lambda>c s. if c = CHR '' '' then putchar c (putchar (CHR ''!'') s) else putchar c s) cs s"

text \<open>\<^verbatim>\<open>gets\<close> copies from the standard input's text to memory, up to a line feed.\<close>

partial_function (option) gets_loop :: "addr \<Rightarrow> addr \<Rightarrow> mem \<Rightarrow> (addr \<times> mem) option" where
  "gets_loop stdin_addr b m =
     (if m stdin_addr \<noteq> CHR 0x0A then gets_loop (stdin_addr + 1) (b + 1) (m(b := m stdin_addr))
      else Some (stdin_addr + 1, m(b := NUL)))"

end
