(* ===== verification/StdioProps.thy ===== *)
theory StdioProps
  imports Stdio
begin

text \<open>
  Properties of the streams and of the printing entry points: writing a file and reading it back,
  the buffered reads, printing into a string, and the limits of the buffers.
\<close>

section \<open>Writing a stream\<close>

text \<open>The content of the host file behind a handle that is open for writing at its end.\<close>

definition behind :: "nat \<Rightarrow> host \<Rightarrow> string \<Rightarrow> bool" where
  "behind i h c \<longleftrightarrow> i < length (files h) \<and>
     (\<exists>f. files h ! i = Some f \<and> hmode f = HWrite \<and> hpos f = length c \<and> fs h (hname f) = Some c)"

text \<open>A stream open for writing: the written part of the buffer, zeros after it.\<close>

definition writing :: "FILE \<Rightarrow> host \<Rightarrow> string \<Rightarrow> string \<Rightarrow> bool" where
  "writing f h c b \<longleftrightarrow> behind (f_handle f) h c \<and> NUL \<notin> set b \<and> length b \<le> STDIOLEN \<and>
     f_data f = b @ replicate (STDIOLEN - length b) NUL \<and>
     f_p f = int (length b) \<and> f_r f = int (STDIOLEN - length b) \<and> f_flags f = F_WRIT"

lemma writing_put:
  assumes "writing f h c b" "length b < STDIOLEN" "x \<noteq> NUL"
  shows "\<exists>f'. file_put x (f, h) = Some (f', h) \<and> writing f' h c (b @ [x]) \<and> f_handle f' = f_handle f"
proof -
  obtain k where k: "STDIOLEN - length b = Suc k" "STDIOLEN - Suc (length b) = k"
    using assms(2) by (metis Suc_diff_Suc)
  let ?f = "f\<lparr>f_data := (f_data f)[nat (f_p f) := x], f_p := f_p f + 1, f_r := f_r f - 1\<rparr>"
  have "file_put x (f, h) = Some (?f, h)"
    using assms k by (simp add: file_put_def writing_def in_buf_def)
  moreover have "writing ?f h c (b @ [x])"
    using assms k by (simp add: writing_def)
  ultimately show ?thesis by simp
qed

lemma takeWhile_text: "NUL \<notin> set d \<Longrightarrow> takeWhile (\<lambda>c. c \<noteq> NUL) (d @ replicate k NUL) = d"
  by (induction d) (cases k, auto)

lemma writing_buffer: "writing f h c b \<Longrightarrow> takeWhile (\<lambda>c. c \<noteq> NUL) (f_data f) = b"
  by (simp add: writing_def takeWhile_text)

text \<open>A stream with room in its buffer is a sink: the buffer's text is its output.\<close>

interpretation stream: byte_sink file_put
  "\<lambda>x n. snd x = h \<and> f_handle (fst x) = k \<and> (\<exists>b. writing (fst x) h c b \<and> length b + n \<le> STDIOLEN)"
  "\<lambda>ch. ch \<noteq> NUL" "\<lambda>x. takeWhile (\<lambda>ch. ch \<noteq> NUL) (f_data (fst x))" for h c k
proof
  fix x :: "FILE \<times> host" and n ch
  assume "snd x = h \<and> f_handle (fst x) = k \<and> (\<exists>b. writing (fst x) h c b \<and> length b + Suc n \<le> STDIOLEN)"
    and ch: "ch \<noteq> NUL"
  then obtain b where w: "snd x = h" "f_handle (fst x) = k" "writing (fst x) h c b"
      "length b + Suc n \<le> STDIOLEN" by blast
  then obtain f' where f': "file_put ch (fst x, h) = Some (f', h)" "writing f' h c (b @ [ch])" "f_handle f' = k"
    using writing_put [OF w(3) _ ch] by auto
  have x: "x = (fst x, h)" using w(1) by (cases x) simp
  show "\<exists>s'. file_put ch x = Some s' \<and>
      takeWhile (\<lambda>ch. ch \<noteq> NUL) (f_data (fst s')) = takeWhile (\<lambda>ch. ch \<noteq> NUL) (f_data (fst x)) @ [ch] \<and>
      snd s' = h \<and> f_handle (fst s') = k \<and> (\<exists>b. writing (fst s') h c b \<and> length b + n \<le> STDIOLEN)"
  proof (intro exI [of _ "(f', h)"] conjI exI [of _ "b @ [ch]"])
    show "file_put ch x = Some (f', h)" using f'(1) x by metis
  qed (use f' w writing_buffer [OF w(3)] writing_buffer [OF f'(2)] in simp_all)
qed

lemma writing_puts:
  assumes "writing f h c b" "NUL \<notin> set s" "length b + length s \<le> STDIOLEN"
  shows "\<exists>f'. put_all file_put s (f, h) = Some (f', h) \<and> writing f' h c (b @ s) \<and> f_handle f' = f_handle f"
proof -
  have "list_all (\<lambda>ch. ch \<noteq> NUL) s" using assms(2) by (auto simp: list_all_iff)
  then obtain f' where f': "put_all file_put s (f, h) = Some (f', h)"
      "takeWhile (\<lambda>ch. ch \<noteq> NUL) (f_data f') = takeWhile (\<lambda>ch. ch \<noteq> NUL) (f_data f) @ s"
      "\<exists>b. writing f' h c b" "f_handle f' = f_handle f"
    using stream.put_all_out [of "(f, h)" h "f_handle f" c s] assms by auto
  then show ?thesis using writing_buffer assms(1) by fastforce
qed

lemma writing_flush:
  assumes "writing f h c b"
  shows "sflush f h = (if length b = STDIOLEN then None
      else map_option (\<lambda>(r, h1). (r, f\<lparr>f_data := replicate STDIOLEN NUL, f_r := int STDIOLEN, f_p := 0\<rparr>, h1))
             (bd_flush (f_handle f) b h))"
    and "\<exists>h1. bd_flush (f_handle f) b h = Some (int (length b), h1) \<and> behind (f_handle f) h1 (c @ b) \<and>
      hname (the (files h1 ! f_handle f)) = hname (the (files h ! f_handle f))"
proof -
  have tw: "takeWhile (\<lambda>c. c \<noteq> NUL) (f_data f) = b" "length (f_data f) = STDIOLEN"
    using assms by (auto simp: writing_def takeWhile_text)
  show "sflush f h = (if length b = STDIOLEN then None
      else map_option (\<lambda>(r, h1). (r, f\<lparr>f_data := replicate STDIOLEN NUL, f_r := int STDIOLEN, f_p := 0\<rparr>, h1))
             (bd_flush (f_handle f) b h))"
    using assms tw by (auto simp: sflush_def swi_flush_def writing_def Let_def split: option.split)
  show "\<exists>h1. bd_flush (f_handle f) b h = Some (int (length b), h1) \<and> behind (f_handle f) h1 (c @ b) \<and>
      hname (the (files h1 ! f_handle f)) = hname (the (files h ! f_handle f))"
    using assms by (auto simp: writing_def behind_def bd_flush_def write_at_def)
qed

lemma fopen_w:
  assumes "host_ok h" "open_files h < 256" "length name < 256"
  shows "\<exists>f h1. fopen g name ''w'' h = Some (Some f, h1) \<and> writing f h1 [] [] \<and>
     hname (the (files h1 ! f_handle f)) = name \<and> host_ok h1 \<and> open_files h1 = open_files h + 1"
  using assms
  by (auto simp: fopen_def swi_fopen_def bd_open_def host_fopen_def MAX_FILES_def Let_def writing_def
      behind_def host_ok_def STDIOLEN_def)

lemma written_closed:
  assumes "writing f h1 [] []" "NUL \<notin> set s" "length s < 1024"
    and "hname (the (files h1 ! f_handle f)) = name" "host_ok h1" "open_files h1 = n + 1"
  shows "\<exists>f2 h3. put_all file_put s (f, h1) = Some (f2, h1) \<and> fclose f2 h1 = Some (0, h3) \<and>
    fs h3 name = Some s \<and> host_ok h3 \<and> open_files h3 = n"
proof -
  obtain f2 where p: "put_all file_put s (f, h1) = Some (f2, h1)" "writing f2 h1 [] s" "f_handle f2 = f_handle f"
    using writing_puts [OF assms(1,2)] assms(3) by (auto simp: STDIOLEN_def)
  obtain h2 where b: "bd_flush (f_handle f2) s h1 = Some (int (length s), h2)" "behind (f_handle f2) h2 s"
      "hname (the (files h2 ! f_handle f2)) = name" "host_ok h2" "open_files h2 = open_files h1"
    using writing_flush(2) [OF p(2)] assms(4,5) p(3)
    by (auto simp: bd_flush_def host_ok_def split: option.splits if_splits)
  have "or (f_flags f2) F_WRIT \<noteq> 0" using p(2) by (simp add: writing_def F_WRIT_def)
  then have "fclose f2 h1 = bd_close (f_handle f2) h2"
    using writing_flush(1) [OF p(2)] assms(3) b(1)
    by (simp add: fclose_def STDIOLEN_def swi_fclose_def)
  then show ?thesis
    using p b assms(6) by (auto simp: behind_def bd_close_def host_ok_def)
qed

text \<open>A stream cannot hold 1024 characters: after opening a file for writing, putting a text of 1024
or more characters (none of them zero) either faults or makes the close fault, because the flush
looks for a zero that the full buffer does not have.\<close>

theorem file_too_long:
  assumes "host_ok h" "open_files h < 256" "length name < 256"
    and "NUL \<notin> set s" "1024 \<le> length s"
    and "fopen g name ''w'' h = Some (Some f, h1)"
  shows "fputs s (Some f) h1 = None \<or> (\<exists>n f2 h2. fputs s (Some f) h1 = Some (n, Some f2, h2) \<and> fclose f2 h2 = None)"
proof -
  have w: "writing f h1 [] []" using fopen_w [OF assms(1-3), of g] assms(6) by auto
  let ?a = "take STDIOLEN s" and ?b = "drop STDIOLEN s"
  have a: "length ?a = STDIOLEN" "NUL \<notin> set ?a" using assms(4,5) by (auto simp: STDIOLEN_def dest: in_set_takeD)
  obtain f2 where p: "put_all file_put ?a (f, h1) = Some (f2, h1)" "writing f2 h1 [] ?a"
    using writing_puts [OF w a(2)] a(1) by auto
  have full: "sflush f2 h1 = None" using writing_flush(1) [OF p(2)] a(1) by simp
  have app: "put_all file_put (xs @ ys) z = (case put_all file_put xs z of None \<Rightarrow> None | Some z1 \<Rightarrow> put_all file_put ys z1)"
    for xs ys z by (induction xs arbitrary: z) (auto split: option.split)
  show ?thesis
  proof (cases ?b)
    case Nil
    then have "put_all file_put s (f, h1) = Some (f2, h1)" using p(1) by (metis append_Nil2 append_take_drop_id)
    moreover have "or (f_flags f2) F_WRIT \<noteq> 0" using p(2) by (simp add: writing_def F_WRIT_def)
    ultimately show ?thesis using full by (simp add: fputs_def fclose_def)
  next
    case (Cons c cs)
    have "f_r f2 = 0" using p(2) a(1) by (simp add: writing_def)
    then have "put_all file_put ?b (f2, h1) = None" unfolding Cons using full by (simp add: file_put_def)
    then have "put_all file_put s (f, h1) = None" using app [of ?a ?b "(f, h1)"] p(1) by simp
    then show ?thesis by (simp add: fputs_def)
  qed
qed

section \<open>Reading a stream\<close>

text \<open>A stream open for reading with \<open>rest\<close> still to come: some of it in the buffer, the rest behind
  the handle.\<close>

definition reading :: "FILE \<Rightarrow> host \<Rightarrow> string \<Rightarrow> bool" where
  "reading f h rest \<longleftrightarrow> 0 \<le> f_p f \<and> 0 \<le> f_r f \<and> f_p f + f_r f \<le> int STDIOLEN \<and>
     length (f_data f) = STDIOLEN \<and> f_handle f < length (files h) \<and>
     (\<exists>hf. files h ! f_handle f = Some hf \<and>
        rest = take (nat (f_r f)) (drop (nat (f_p f)) (f_data f)) @ unread hf h)"

definition behind_read :: "FILE \<Rightarrow> host \<Rightarrow> string" where
  "behind_read f h = (case files h ! f_handle f of None \<Rightarrow> [] | Some hf \<Rightarrow> unread hf h)"

lemma reading_chunk:
  assumes "reading f h rest" "0 \<le> n" "n \<le> f_r f"
  shows "chunk f n = Some (take (nat n) rest)" "reading (advance n f) h (drop (nat n) rest)"
    "behind_read (advance n f) h = behind_read f h" "nat (f_r f) \<le> length rest"
proof -
  obtain hf where hf: "files h ! f_handle f = Some hf"
    "rest = take (nat (f_r f)) (drop (nat (f_p f)) (f_data f)) @ unread hf h"
    using assms(1) by (auto simp: reading_def)
  define p r k where "p = nat (f_p f)" and "r = nat (f_r f)" and "k = nat n"
  have i: "f_p f = int p" "f_r f = int r" "n = int k"
    using assms(1,2) by (simp_all add: p_def r_def k_def reading_def)
  have l: "p + r \<le> STDIOLEN" "length (f_data f) = STDIOLEN" "k \<le> r"
    using assms(1,3) i by (auto simp: reading_def)
  have rest: "rest = take r (drop p (f_data f)) @ unread hf h" using hf(2) i by simp
  have "k \<le> STDIOLEN - p" using l by linarith
  then show "chunk f n = Some (take (nat n) rest)"
    using l by (simp add: chunk_def i rest min_def)
  show "reading (advance n f) h (drop (nat n) rest)"
    unfolding reading_def
  proof (intro conjI exI [of _ hf])
    have "nat (int r - int k) = r - k" "nat (int p + int k) = k + p" by linarith+
    then show "drop (nat n) rest = take (nat (f_r (advance n f)))
        (drop (nat (f_p (advance n f))) (f_data (advance n f))) @ unread hf h"
      using l by (simp add: rest advance_def i drop_take)
  qed (use assms(1) hf l i in \<open>auto simp: advance_def reading_def\<close>)
  show "behind_read (advance n f) h = behind_read f h" by (simp add: behind_read_def advance_def)
  show "nat (f_r f) \<le> length rest" using l by (simp add: rest i)
qed

lemma srefill_eof:
  assumes "f_handle f < length (files h)" "files h ! f_handle f = Some hf" "unread hf h = []"
  shows "srefill f h = Some (True, f\<lparr>f_p := 0\<rparr>, h)"
  using assms by (simp add: srefill_def swi_refill_def bd_fill_def Let_def list_update_same_conv)

lemma take_min_length: "take (min (length xs) n) xs = take n xs"
  by (cases "length xs \<le> n") simp_all

lemma srefill_more:
  assumes "f_handle f < length (files h)" "files h ! f_handle f = Some hf" "unread hf h = rest" "rest \<noteq> []"
    and "length (f_data f) = STDIOLEN"
  shows "\<exists>f' h'. srefill f h = Some (False, f', h') \<and> reading f' h' rest \<and> 0 < f_r f' \<and>
    length (behind_read f' h') < length rest"
proof -
  let ?cs = "take STDIOLEN rest"
  let ?h = "h\<lparr>files := (files h)[f_handle f := Some (hf\<lparr>hpos := hpos hf + length ?cs\<rparr>)]\<rparr>"
  let ?f = "f\<lparr>f_p := 0, f_r := int (length ?cs), f_data := ?cs @ drop (length ?cs) (f_data f)\<rparr>"
  have "srefill f h = Some (False, ?f, ?h)"
    using assms by (simp add: srefill_def swi_refill_def bd_fill_def Let_def STDIOLEN_def)
  moreover have u: "unread (hf\<lparr>hpos := hpos hf + length ?cs\<rparr>) ?h = drop STDIOLEN rest"
    using assms(3)
    by (auto simp: unread_def min_def add.commute split: option.splits if_splits)
  moreover have "reading ?f ?h rest" using assms u by (auto simp: reading_def take_min_length)
  moreover have "0 < f_r ?f" using assms(4) by (simp add: STDIOLEN_def)
  moreover have "length (behind_read ?f ?h) < length rest"
    using assms u by (simp add: behind_read_def STDIOLEN_def)
  ultimately show ?thesis by blast
qed

lemma fread_loop_reads:
  assumes "reading f h rest" "0 \<le> resid"
  shows "\<exists>f' h'. fread_loop p resid f h =
      Some (p @ take (nat resid) rest, max 0 (resid - int (length rest)), f', h') \<and>
      (nat resid \<le> length rest \<longrightarrow> reading f' h' (drop (nat resid) rest))"
  using assms
proof (induction "length (behind_read f h)" arbitrary: f h rest p resid rule: less_induct)
  case less
  show ?case
  proof (cases "f_r f < resid")
    case False
    have "resid \<le> f_r f" using False by simp
    note c = reading_chunk [OF less.prems(1,2) this]
    have "nat resid \<le> length rest" using c(4) \<open>resid \<le> f_r f\<close> by simp
    then have "max 0 (resid - int (length rest)) = 0" using less.prems(2) by simp
    with c False \<open>nat resid \<le> length rest\<close> show ?thesis by (subst fread_loop.simps) auto
  next
    case True
    have r: "0 \<le> f_r f" "f_handle f < length (files h)" "length (f_data f) = STDIOLEN"
      using less.prems(1) by (simp_all add: reading_def)
    note c = reading_chunk [OF less.prems(1) r(1) order_refl]
    let ?f = "f\<lparr>f_p := f_p f + f_r f\<rparr>"
    obtain hf where hf: "files h ! f_handle f = Some hf"
      "rest = take (nat (f_r f)) (drop (nat (f_p f)) (f_data f)) @ unread hf h"
      using less.prems(1) by (auto simp: reading_def)
    have len: "length (take (nat (f_r f)) (drop (nat (f_p f)) (f_data f))) = nat (f_r f)"
      using less.prems(1) by (auto simp: reading_def)
    have u: "unread hf h = drop (nat (f_r f)) rest" using hf(2) len by simp
    have rr: "int (nat (f_r f)) = f_r f" "nat (f_r f) \<le> nat resid" using r(1) True by simp_all
    show ?thesis
    proof (cases "unread hf h")
      case Nil
      have e: "srefill ?f h = Some (True, ?f\<lparr>f_p := 0\<rparr>, h)"
        using r hf Nil by (intro srefill_eof) simp_all
      have l: "length rest = nat (f_r f)" using Nil u c(4) by simp
      then have "take (nat (f_r f)) rest = rest" "max 0 (resid - int (length rest)) = resid - f_r f"
        "take (nat resid) rest = rest" "\<not> nat resid \<le> length rest"
        using True r(1) by auto
      with c e True show ?thesis by (subst fread_loop.simps) auto
    next
      case (Cons x xs)
      obtain f1 h1 where e: "srefill ?f h = Some (False, f1, h1)" "reading f1 h1 (unread hf h)"
          "length (behind_read f1 h1) < length (unread hf h)"
        using srefill_more [of ?f h hf "unread hf h"] r hf Cons by auto
      have "length (behind_read f1 h1) < length (behind_read f h)"
        using e(3) hf(1) by (simp add: behind_read_def)
      from less.hyps [OF this e(2), of "resid - f_r f" "p @ take (nat (f_r f)) rest"] True
      obtain f' h' where i: "fread_loop (p @ take (nat (f_r f)) rest) (resid - f_r f) f1 h1 =
          Some ((p @ take (nat (f_r f)) rest) @ take (nat (resid - f_r f)) (unread hf h),
                max 0 (resid - f_r f - int (length (unread hf h))), f', h')"
        "nat (resid - f_r f) \<le> length (unread hf h) \<longrightarrow> reading f' h' (drop (nat (resid - f_r f)) (unread hf h))"
        by auto
      have n: "nat (resid - f_r f) = nat resid - nat (f_r f)" using r(1) by (simp add: nat_diff_distrib)
      have t: "take (nat (f_r f)) rest @ take (nat (resid - f_r f)) (unread hf h) = take (nat resid) rest"
        unfolding u n using rr(2) by (metis add.commute le_add_diff_inverse2 take_add)
      have m: "resid - f_r f - int (length (unread hf h)) = resid - int (length rest)"
        unfolding u using c(4) r(1) by simp
      have d: "nat (resid - f_r f) \<le> length (unread hf h) \<longleftrightarrow> nat resid \<le> length rest"
        "drop (nat (resid - f_r f)) (unread hf h) = drop (nat resid) rest"
        unfolding u n using c(4) rr(2) by auto
      show ?thesis using c e(1) i True t m d by (subst fread_loop.simps) simp
    qed
  qed
qed

lemma fread_all:
  assumes "reading f h rest"
  shows "\<exists>f' h'. fread 1 (int (length rest)) f h = Some (rest, int (length rest), f', h')"
proof -
  have r: "\<not> f_r f < 0" using assms by (simp add: reading_def)
  obtain f' h' where "fread_loop [] (int (length rest)) f h = Some (rest, 0, f', h')"
    using fread_loop_reads [OF assms, of "int (length rest)" "[]"] by auto
  with r show ?thesis by (simp add: fread_def Let_def)
qed

text \<open>C33: Buffered reading returns the file's bytes in order: with \<open>rest\<close> still to come, a request for
\<open>n\<close> bytes terminates, delivers the first \<open>n\<close> of them, or all when there are fewer, returns how many
it delivered, and if it was satisfied leaves the stream with what remains.\<close>

theorem fread_reads:
  assumes "reading f h rest"
  shows "\<exists>f' h'. fread 1 (int n) f h = Some (take n rest, int (min n (length rest)), f', h') \<and>
    (n \<le> length rest \<longrightarrow> reading f' h' (drop n rest))"
proof -
  have r: "\<not> f_r f < 0" using assms by (simp add: reading_def)
  obtain f' h' where l: "fread_loop [] (int n) f h = Some (take n rest, max 0 (int n - int (length rest)), f', h')"
    "n \<le> length rest \<longrightarrow> reading f' h' (drop n rest)"
    using fread_loop_reads [OF assms, of "int n" "[]"] by auto
  then show ?thesis using r assms by (cases "n \<le> length rest") (auto simp: fread_def Let_def)
qed

lemma fopen_r:
  assumes "host_ok h" "open_files h < 256" "length name < 256" "fs h name = Some s" "length g = STDIOLEN"
  shows "\<exists>f h1. fopen g name ''r'' h = Some (Some f, h1) \<and> reading f h1 s"
proof -
  let ?i = "if curr_idx h = MAX_FILES then 0 else curr_idx h"
  let ?hf = "\<lparr>hname = name, hmode = HRead, hpos = 0\<rparr>"
  let ?h = "h\<lparr>files := (files h)[?i := Some ?hf], curr_idx := ?i + 1, open_files := open_files h + 1\<rparr>"
  let ?f = "\<lparr>f_r = 0, f_p = 0, f_handle = ?i, f_flags = F_READ, f_data = g\<rparr>"
  have i: "?i < length (files h)" using assms(1) by (auto simp: host_ok_def MAX_FILES_def)
  have o: "swi_fopen name ''r'' h = Some (int ?i, ?h)"
    using assms by (simp add: swi_fopen_def bd_open_def host_fopen_def MAX_FILES_def Let_def)
  have hf: "files ?h ! f_handle ?f = Some ?hf" "f_handle ?f < length (files ?h)" "unread ?hf ?h = s"
    using i assms(4) by (simp_all add: unread_def)
  have op: "fopen g name ''r'' h = map_option (\<lambda>(e, f1, h2). (Some f1, h2)) (srefill ?f ?h)"
    using o by (simp add: fopen_def)
  show ?thesis
  proof (cases s)
    case Nil
    then have "srefill ?f ?h = Some (True, ?f\<lparr>f_p := 0\<rparr>, ?h)"
      using hf by (intro srefill_eof) simp_all
    moreover have "reading (?f\<lparr>f_p := 0\<rparr>) ?h s"
      using hf assms(5) Nil by (simp add: reading_def)
    ultimately show ?thesis using op by simp
  next
    case (Cons c cs)
    then have "s \<noteq> []" by simp
    with srefill_more [OF hf(2,1,3)] assms(5) obtain f1 h1 where
      "srefill ?f ?h = Some (False, f1, h1)" "reading f1 h1 s" by auto
    with op show ?thesis by simp
  qed
qed

text \<open>C30: Round trip: opening a file for writing, putting a text of fewer than 1024 characters (none of
them zero) and closing it leave the host file with exactly that text; opening the file for
reading and reading as many bytes in one request returns the text.\<close>

theorem file_roundtrip:
  assumes "host_ok h" "open_files h < 256" "length name < 256"
    and "NUL \<notin> set s" "length s < 1024" "length g2 = STDIOLEN"
  shows "\<exists>f h1 f2 h2 h3 f4 h4 f5 h5. fopen g1 name ''w'' h = Some (Some f, h1) \<and>
    fputs s (Some f) h1 = Some (int (length s), Some f2, h2) \<and> fclose f2 h2 = Some (0, h3) \<and>
    fs h3 name = Some s \<and> fopen g2 name ''r'' h3 = Some (Some f4, h4) \<and>
    fread 1 (int (length s)) f4 h4 = Some (s, int (length s), f5, h5)"
proof -
  obtain f h1 where o: "fopen g1 name ''w'' h = Some (Some f, h1)" "writing f h1 [] []"
      "hname (the (files h1 ! f_handle f)) = name" "host_ok h1" "open_files h1 = open_files h + 1"
    using fopen_w [OF assms(1-3)] by blast
  obtain f2 h3 where w: "put_all file_put s (f, h1) = Some (f2, h1)" "fclose f2 h1 = Some (0, h3)"
      "fs h3 name = Some s" "host_ok h3" "open_files h3 = open_files h"
    using written_closed [OF o(2) assms(4,5) o(3,4,5)] by blast
  have p: "fputs s (Some f) h1 = Some (int (length s), Some f2, h1)" using w(1) by (simp add: fputs_def)
  have "open_files h3 < 256" using w(5) assms(2) by simp
  then obtain f4 h4 where r: "fopen g2 name ''r'' h3 = Some (Some f4, h4)" "reading f4 h4 s"
    using fopen_r [OF w(4) _ assms(3) w(3) assms(6)] by blast
  obtain f5 h5 where "fread 1 (int (length s)) f4 h4 = Some (s, int (length s), f5, h5)"
    using fread_all [OF r(2)] by blast
  with o(1) p w(2,3) r(1) show ?thesis by blast
qed

text \<open>At the end of a file \<^verbatim>\<open>fgetc\<close> does not report it: it returns the first byte that is left in the
stream's buffer, and makes the count of available bytes negative, so that no later call asks for
more input.\<close>

theorem fgetc_at_end:
  assumes "reading f h []"
  shows "fgetc f h = Some (f_data f ! 0, f\<lparr>f_p := 1, f_r := -1\<rparr>, h)"
proof -
  obtain hf where hf: "files h ! f_handle f = Some hf" "unread hf h = []" "nat (f_r f) = 0"
    using assms by (auto simp: reading_def STDIOLEN_def)
  then have "f_r f = 0" using assms by (simp add: reading_def)
  moreover have "srefill f h = Some (True, f\<lparr>f_p := 0\<rparr>, h)"
    using assms hf by (intro srefill_eof) (simp_all add: reading_def)
  ultimately show ?thesis using assms by (simp add: fgetc_def in_buf_def at_p_def reading_def STDIOLEN_def)
qed

section \<open>Printing into a string\<close>

lemma region_snoc: "region a (Suc n) m = region a n m @ [m (a + n)]"
  by (simp add: region_def)

interpretation strsink: byte_sink pfputc
  "\<lambda>s n. \<not> ffile s \<and> spf s \<noteq> 0 \<and> base \<le> spf s \<and> P = (spf s - base) + n" "\<lambda>c. True"
  "\<lambda>s. region base (spf s - base) (memory s)" for base P
  by unfold_locales (auto simp: pfputc_def Suc_diff_le region_snoc region_upd_out)

interpretation consink: byte_sink pfputc "\<lambda>s n. \<not> ffile s \<and> spf s = 0" "\<lambda>c. True" console
  by unfold_locales (simp add: pfputc_def putchar_def)

lemma pfputc_str:
  "\<not> ffile s \<Longrightarrow> spf s \<noteq> 0 \<Longrightarrow>
   pfputc c s = Some (s\<lparr>memory := (memory s)(spf s := c), spf := spf s + 1\<rparr>)"
  by (simp add: pfputc_def)

text \<open>Only the bytes that are printed change in memory, and only memory changes.\<close>

lemma put_all_frame:
  "put_all pfputc tx s = Some s' \<Longrightarrow> \<not> ffile s \<Longrightarrow> spf s \<noteq> 0 \<Longrightarrow>
   (\<forall>a. a < spf s \<or> spf s' \<le> a \<longrightarrow> memory s' a = memory s a) \<and> spf s \<le> spf s' \<and>
   console s' = console s \<and> hostf s' = hostf s \<and> streams s' = streams s"
proof (induction tx arbitrary: s)
  case (Cons c cs)
  let ?s1 = "s\<lparr>memory := (memory s)(spf s := c), spf := spf s + 1\<rparr>"
  have "put_all pfputc cs ?s1 = Some s'" using Cons.prems by (simp add: pfputc_str del: One_nat_def)
  note ih = Cons.IH [OF this]
  show ?case using ih Cons.prems(2,3) by auto
qed simp

lemma print_string:
  assumes "locked_printf dbl format poi = Some tx" "str \<noteq> 0"
  shows "\<exists>s'. print_to dbl format poi (s\<lparr>ffile := False, spf := str\<rparr>) = Some s' \<and>
    spf s' = str + length tx \<and> region str (length tx) (memory s') = tx \<and>
    (\<forall>a. a < str \<or> str + length tx \<le> a \<longrightarrow> memory s' a = memory s a) \<and> console s' = console s"
proof -
  let ?s = "s\<lparr>ffile := False, spf := str\<rparr>"
  obtain s' where s': "put_all pfputc tx ?s = Some s'" "region str (spf s' - str) (memory s') = tx"
      "str \<le> spf s'" "length tx = spf s' - str"
    using strsink.put_all_out [of ?s str "length tx" tx] assms(2) by (auto simp: list_all_iff)
  then have "spf s' = str + length tx" by simp
  moreover have "print_to dbl format poi ?s = Some s'" using assms(1) s'(1) by (simp add: print_to_def)
  moreover have "(\<forall>a. a < str \<or> spf s' \<le> a \<longrightarrow> memory s' a = memory s a) \<and> console s' = console s"
    using put_all_frame [OF s'(1)] assms(2) by simp
  ultimately show ?thesis using s'(2) by auto
qed

text \<open>\<^verbatim>\<open>vsnprintf\<close> does not look at its size: whatever size it is given, it stores the whole text of
the format and a zero after it at the destination, and changes no other byte, so that it overruns
the destination whenever the text has at least that many characters.\<close>

theorem vsnprintf_ignores_size:
  assumes "locked_printf dbl format poi = Some tx" "str \<noteq> 0"
  shows "\<exists>s'. vsnprintf dbl str n format poi s = Some s' \<and>
    region str (length tx) (memory s') = tx \<and> memory s' (str + length tx) = NUL \<and>
    (\<forall>a. a < str \<or> str + length tx < a \<longrightarrow> memory s' a = memory s a) \<and> console s' = console s"
proof -
  obtain s' where "print_to dbl format poi (s\<lparr>ffile := False, spf := str\<rparr>) = Some s'"
    "spf s' = str + length tx" "region str (length tx) (memory s') = tx"
    "\<forall>a. a < str \<or> str + length tx \<le> a \<longrightarrow> memory s' a = memory s a" "console s' = console s"
    using print_string [OF assms, of s] by blast
  then show ?thesis by (auto simp: vsnprintf_def region_upd_out)
qed

definition io_init :: "mem \<Rightarrow> io" where
  "io_init m = \<lparr>console = [], memory = m, hostf = host_init (\<lambda>_. None), streams = (\<lambda>_. None),
     ffile = False, spf = 0, fspf = 0\<rparr>"

theorem vsnprintf_ignores_size_witness:
  "\<exists>s'. vsnprintf (\<lambda>b d f. []) 16 4 ''longer'' [] (io_init (\<lambda>a. CHR ''#'')) = Some s' \<and>
     region 16 6 (memory s') = ''longer''"
proof -
  have t: "locked_printf (\<lambda>b d f. []) ''longer'' [] = Some ''longer''"
    by (simp add: locked_printf_def)
  have l: "length ''longer'' = 6" by simp
  from vsnprintf_ignores_size [OF t, of 16 4 "io_init (\<lambda>a. CHR ''#'')", unfolded l] show ?thesis by auto
qed

text \<open>C31: Round trip between printing and parsing: for every 32-bit integer, the text that
\<^verbatim>\<open>sprintf\<close> stores for the format \<^verbatim>\<open>%d\<close> is read back by \<^verbatim>\<open>strtol\<close> in base ten as the same integer, with
the end pointer at the terminating zero.\<close>

theorem sprintf_strtol:
  assumes "str \<noteq> 0"
  shows "\<exists>s' w n. sprintf dbl str ''%d'' [AInt v] s = Some s' \<and>
    strtol str 10 (memory s') = Some (w, str + n) \<and> sint w = sint v \<and> memory s' (str + n) = NUL"
proof -
  let ?neg = "sint v < 0"
  let ?sg = "if ?neg then ''-'' else []"
  let ?ds = "base_digits 10 (nat \<bar>sint v\<bar>)"
  let ?tx = "?sg @ ?ds"
  have tx: "locked_printf dbl ''%d'' [AInt v] = Some ?tx"
    by (simp add: locked_printf_def selector_letters conv_arg_def putdec32_text shown_def padding_def)
  obtain s1 where s1: "print_to dbl ''%d'' [AInt v] (s\<lparr>ffile := False, spf := str\<rparr>) = Some s1"
    "spf s1 = str + length ?tx" "region str (length ?tx) (memory s1) = ?tx"
    using print_string [OF tx assms, of s] by blast
  let ?s' = "s1\<lparr>memory := (memory s1)(spf s1 := NUL)\<rparr>"
  have sp: "sprintf dbl str ''%d'' [AInt v] s = Some ?s'" using s1(1) by (simp add: sprintf_def)
  have "NUL \<notin> set ?ds" using base_digits_is_dig(1) [of "nat \<bar>sint v\<bar>"] by (auto simp: list_all_iff)
  then have "cstr (memory ?s') str ?tx"
    using s1(2,3) by (simp add: cstr_iff region_upd_out)
  then have "cstr (memory ?s') str ([] @ ?sg @ ?ds @ [])" by simp
  note cl = strtol_clamps [OF this, of 10]
  have sg: "is_sign ?sg" by (simp add: is_sign_def)
  have "list_all (is_dig 10) ?ds" "?ds \<noteq> []" using base_digits_is_dig [of "nat \<bar>sint v\<bar>"] by auto
  with cl sg obtain w where w: "strtol str 10 (memory ?s') = Some (w, str + length ([] @ ?sg @ ?ds))"
    "sint w = max (- (2 ^ 31)) (min (2 ^ 31 - 1) ((if ?sg = ''-'' then - 1 else 1) * hval 10 0 ?ds))"
    by (auto simp: stops_def)
  have "- (2 ^ 31) \<le> sint v" "sint v < 2 ^ 31" using sint_ge [of v] sint_lt [of v] by simp_all
  then have "sint w = sint v" using w(2) by (simp add: hval_base_digits)
  moreover have "memory ?s' (str + length ?tx) = NUL" using s1(2) by simp
  ultimately show ?thesis using w(1) sp by (intro exI [of _ ?s'] exI [of _ w] exI [of _ "length ?tx"]) simp
qed

section \<open>Witnesses\<close>

lemma host_init_ready: "host_ok (host_init g)" "open_files (host_init g) < 256" "fs (host_init g) = g"
  by (rule host_init_ok) (simp_all add: host_init_def)

theorem file_too_long_witness:
  "\<exists>f h1. fopen [] ''f'' ''w'' (host_init (\<lambda>_. None)) = Some (Some f, h1) \<and>
     (fputs (replicate 1024 (CHR ''x'')) (Some f) h1 = None \<or>
      (\<exists>n f2 h2. fputs (replicate 1024 (CHR ''x'')) (Some f) h1 = Some (n, Some f2, h2) \<and> fclose f2 h2 = None))"
proof -
  have n: "length ''f'' < (256::nat)" by simp
  obtain f h1 where f: "fopen [] ''f'' ''w'' (host_init (\<lambda>_. None)) = Some (Some f, h1)"
    using fopen_w [OF host_init_ready(1,2) n] by blast
  have "NUL \<notin> set (replicate 1024 (CHR ''x''))" "(1024::nat) \<le> length (replicate 1024 (CHR ''x''))"
    by simp_all
  from file_too_long [OF host_init_ready(1,2) n this f] f show ?thesis by blast
qed

theorem fread_reads_witness:
  "\<exists>f h1 f' h'. fopen (replicate STDIOLEN NUL) ''f'' ''r'' (host_init [''f'' \<mapsto> ''abc'']) = Some (Some f, h1) \<and>
     fread 1 (int 2) f h1 = Some (''ab'', 2, f', h')"
proof -
  have n: "length ''f'' < (256::nat)" by simp
  have c: "fs (host_init [''f'' \<mapsto> ''abc'']) ''f'' = Some ''abc''" by (simp add: host_init_def)
  obtain f h1 where f: "fopen (replicate STDIOLEN NUL) ''f'' ''r'' (host_init [''f'' \<mapsto> ''abc'']) = Some (Some f, h1)"
      "reading f h1 ''abc''"
    using fopen_r [OF host_init_ready(1,2) n c length_replicate] by blast
  from fread_reads [OF f(2), of 2] f(1) show ?thesis by (auto simp: numeral_2_eq_2)
qed

theorem fgetc_at_end_witness:
  "\<exists>f h1. fopen (replicate STDIOLEN (CHR ''x'')) ''f'' ''r'' (host_init [''f'' \<mapsto> []]) = Some (Some f, h1) \<and>
     fgetc f h1 = Some (f_data f ! 0, f\<lparr>f_p := 1, f_r := -1\<rparr>, h1)"
proof -
  have n: "length ''f'' < (256::nat)" by simp
  have c: "fs (host_init [''f'' \<mapsto> []]) ''f'' = Some []" by (simp add: host_init_def)
  obtain f h1 where f: "fopen (replicate STDIOLEN (CHR ''x'')) ''f'' ''r'' (host_init [''f'' \<mapsto> []]) = Some (Some f, h1)"
      "reading f h1 []"
    using fopen_r [OF host_init_ready(1,2) n c length_replicate] by blast
  from fgetc_at_end [OF f(2)] f(1) show ?thesis by blast
qed

theorem file_roundtrip_witness:
  "\<exists>f h1 f2 h2 h3 f4 h4 f5 h5. fopen [] ''f'' ''w'' (host_init (\<lambda>_. None)) = Some (Some f, h1) \<and>
    fputs ''abc'' (Some f) h1 = Some (int (length ''abc''), Some f2, h2) \<and> fclose f2 h2 = Some (0, h3) \<and>
    fs h3 ''f'' = Some ''abc'' \<and> fopen (replicate STDIOLEN NUL) ''f'' ''r'' h3 = Some (Some f4, h4) \<and>
    fread 1 (int (length ''abc'')) f4 h4 = Some (''abc'', int (length ''abc''), f5, h5)"
proof -
  have "length ''f'' < (256::nat)" "NUL \<notin> set ''abc''" "length ''abc'' < (1024::nat)" by simp_all
  from file_roundtrip [OF host_init_ready(1,2) this length_replicate] show ?thesis by blast
qed

theorem sprintf_strtol_witness:
  "\<exists>s' w n. sprintf (\<lambda>b d f. []) 16 ''%d'' [AInt (- 120)] (io_init (\<lambda>a. CHR ''#'')) = Some s' \<and>
    strtol 16 10 (memory s') = Some (w, 16 + n) \<and> sint w = - 120 \<and> memory s' (16 + n) = NUL"
proof -
  have a: "(16::nat) \<noteq> 0" by simp
  have "sint (- 120 :: u32) = - 120" by simp
  with sprintf_strtol [OF a, of "\<lambda>b d f. []" "- 120" "io_init (\<lambda>a. CHR ''#'')"] show ?thesis by (auto simp del: One_nat_def)
qed

end
