(* ===== verification/Getopt.thy ===== *)
theory Getopt
  imports Prelude
begin

text \<open>
  The command-line parser \<^verbatim>\<open>getopt\<close> of \<^verbatim>\<open>vhls/src/crt/prlibc/prlibc.c\<close>: its static variables as a
  record, one call as a function, the caller's loop, and an abstract parser of argument vectors that
  the loop refines.  A pointer into an argument is the text left to read there; reading a word that
  the vector does not have is \<open>None\<close>.
\<close>

section \<open>The code\<close>

record getopt_vars =
  nextchar :: "string option"
  optind :: int
  opterr :: int
  optopt :: char
  optarg :: "string option"
  printed :: string

definition getopt_vars0 :: getopt_vars where
  "getopt_vars0 = \<lparr>nextchar = None, optind = 0, opterr = 1, optopt = CHR ''?'', optarg = None, printed = []\<rparr>"

definition arg_at :: "string list \<Rightarrow> int \<Rightarrow> string option" where
  "arg_at argv i = (if 0 \<le> i \<and> i < int (length argv) then Some (argv ! nat i) else None)"

definition getopt_initialize :: "getopt_vars \<Rightarrow> getopt_vars" where
  "getopt_initialize s = s\<lparr>optind := 1, nextchar := None\<rparr>"

text \<open>Moving to the next word: a result for the caller, or the letters to look at.\<close>

definition getopt_word :: "string list \<Rightarrow> getopt_vars \<Rightarrow> ((int + string) \<times> getopt_vars) option" where
  "getopt_word argv s =
     (case nextchar s of
        Some (c # cs) \<Rightarrow> Some (Inr (c # cs), s)
      | _ \<Rightarrow>
          if optind s = int (length argv) then Some (Inl (- 1), s)
          else (case arg_at argv (optind s) of None \<Rightarrow> None
                | Some a \<Rightarrow>
                    if a = [] \<or> hd a \<noteq> CHR ''-'' \<or> tl a = []
                    then Some (Inl 1, s\<lparr>optarg := Some a, optind := optind s + 1\<rparr>)
                    else Some (Inr (tl a), s\<lparr>nextchar := Some (tl a)\<rparr>)))"

definition getopt_report :: "string list \<Rightarrow> string \<Rightarrow> char \<Rightarrow> getopt_vars \<Rightarrow> getopt_vars option" where
  "getopt_report argv txt c s =
     (if opterr s = 0 then Some s
      else (case arg_at argv 0 of None \<Rightarrow> None
            | Some a \<Rightarrow> Some (s\<lparr>printed := printed s @ a @ txt @ [c, CHR 0x0A]\<rparr>)))"

text \<open>One letter \<open>c\<close>, with \<open>cs\<close> after it in the same word.\<close>

definition getopt_letter ::
  "string list \<Rightarrow> string \<Rightarrow> char \<Rightarrow> string \<Rightarrow> getopt_vars \<Rightarrow> (int \<times> getopt_vars) option" where
  "getopt_letter argv optstring c cs s0 =
     (let temp = dropWhile (\<lambda>x. x \<noteq> c) optstring;
          s1 = s0\<lparr>nextchar := Some cs\<rparr>;
          s = (if cs = [] then s1\<lparr>optind := optind s1 + 1\<rparr> else s1)
      in if temp = [] \<or> c = CHR '':'' then
           (case getopt_report argv '': invalid option '' c s of None \<Rightarrow> None
            | Some s2 \<Rightarrow> Some (chr_int CHR ''?'', s2\<lparr>optopt := c\<rparr>))
         else if take 1 (tl temp) = '':'' then
           (if take 1 (tl (tl temp)) = '':'' then
              Some (chr_int c,
                (if cs \<noteq> [] then s\<lparr>optarg := Some cs, optind := optind s + 1, nextchar := None\<rparr>
                 else s\<lparr>optarg := None, nextchar := None\<rparr>))
            else if cs \<noteq> [] then
              Some (chr_int c, s\<lparr>optarg := Some cs, optind := optind s + 1, nextchar := None\<rparr>)
            else if optind s = int (length argv) then
              (case getopt_report argv '': option requires an argument -- '' c s of None \<Rightarrow> None
               | Some s2 \<Rightarrow> Some (chr_int (if hd optstring = CHR '':'' then CHR '':'' else CHR ''?''),
                                  s2\<lparr>optopt := c, nextchar := None\<rparr>))
            else
              (case arg_at argv (optind s) of None \<Rightarrow> None
               | Some a \<Rightarrow>
                   Some (chr_int c, s\<lparr>optarg := Some a, optind := optind s + 1, nextchar := None\<rparr>)))
         else Some (chr_int c, s))"

definition getopt :: "string list \<Rightarrow> string \<Rightarrow> getopt_vars \<Rightarrow> (int \<times> getopt_vars) option" where
  "getopt argv optstring s0 =
     (let s1 = s0\<lparr>optarg := None\<rparr>;
          s = (if optind s1 = 0 then getopt_initialize s1 else s1)
      in (case getopt_word argv s of
            None \<Rightarrow> None
          | Some (Inl r, s2) \<Rightarrow> Some (r, s2)
          | Some (Inr [], s2) \<Rightarrow> None
          | Some (Inr (c # cs), s2) \<Rightarrow> getopt_letter argv optstring c cs s2))"

text \<open>The caller's loop: what each call returned and left in \<^verbatim>\<open>optarg\<close>, up to \<^verbatim>\<open>EOF\<close>.\<close>

partial_function (option) getopt_loop ::
  "string list \<Rightarrow> string \<Rightarrow> getopt_vars \<Rightarrow> ((int \<times> string option) list \<times> getopt_vars) option" where
  "getopt_loop argv optstring s =
     (case getopt argv optstring s of None \<Rightarrow> None
      | Some (r, s1) \<Rightarrow>
          if r = - 1 then Some ([], s1)
          else Option.bind (getopt_loop argv optstring s1)
                 (\<lambda>(es, s2). Some ((r, optarg s1) # es, s2)))"

section \<open>The abstract parser\<close>

datatype opt_event =
    Operand string | Flag char | Valued char "string option" | Unknown char | Missing char

datatype opt_kind = NoOpt | Plain | Required | Optional

definition opt_kind :: "string \<Rightarrow> char \<Rightarrow> opt_kind" where
  "opt_kind optstring c =
     (if c \<notin> set optstring \<or> c = CHR '':'' then NoOpt
      else (case tl (dropWhile (\<lambda>x. x \<noteq> c) optstring) of
              [] \<Rightarrow> Plain
            | d # ds \<Rightarrow> if d \<noteq> CHR '':'' then Plain
                        else if take 1 ds = '':'' then Optional else Required))"

definition is_operand :: "string \<Rightarrow> bool" where
  "is_operand a \<longleftrightarrow> a = [] \<or> hd a \<noteq> CHR ''-'' \<or> a = ''-''"

text \<open>\<open>parse_opts o cs as\<close>: the letters \<open>cs\<close> of the present word, then the words \<open>as\<close>.\<close>

function parse_opts :: "string \<Rightarrow> string \<Rightarrow> string list \<Rightarrow> opt_event list" where
  "parse_opts optstring [] [] = []"
| "parse_opts optstring [] (a # as) =
     (if is_operand a then Operand a # parse_opts optstring [] as else parse_opts optstring (tl a) as)"
| "parse_opts optstring (c # cs) as =
     (case opt_kind optstring c of
        NoOpt \<Rightarrow> Unknown c # parse_opts optstring cs as
      | Plain \<Rightarrow> Flag c # parse_opts optstring cs as
      | Optional \<Rightarrow> Valued c (if cs = [] then None else Some cs) # parse_opts optstring [] as
      | Required \<Rightarrow>
          if cs \<noteq> [] then Valued c (Some cs) # parse_opts optstring [] as
          else (case as of [] \<Rightarrow> [Missing c]
                | b # bs \<Rightarrow> Valued c (Some b) # parse_opts optstring [] bs))"
  by pat_completeness auto
termination
  by (relation "measure (\<lambda>(_, cs, as). length cs + length (concat as) + length as)")
    (auto simp: is_operand_def)

definition seen :: "string \<Rightarrow> opt_event \<Rightarrow> int \<times> string option" where
  "seen optstring e =
     (case e of Operand a \<Rightarrow> (1, Some a)
      | Flag c \<Rightarrow> (chr_int c, None)
      | Valued c v \<Rightarrow> (chr_int c, v)
      | Unknown c \<Rightarrow> (chr_int CHR ''?'', None)
      | Missing c \<Rightarrow> (chr_int (if hd optstring = CHR '':'' then CHR '':'' else CHR ''?''), None))"

definition complaint :: "string \<Rightarrow> opt_event \<Rightarrow> string" where
  "complaint prog e =
     (case e of Unknown c \<Rightarrow> prog @ '': invalid option '' @ [c, CHR 0x0A]
      | Missing c \<Rightarrow> prog @ '': option requires an argument -- '' @ [c, CHR 0x0A]
      | _ \<Rightarrow> [])"

section \<open>Refinement\<close>

text \<open>The variables stand at the letters \<open>cs\<close> before the words \<open>as\<close>.\<close>

definition standing :: "string list \<Rightarrow> getopt_vars \<Rightarrow> string \<Rightarrow> string list \<Rightarrow> bool" where
  "standing argv s cs as \<longleftrightarrow> 0 < optind s \<and> opterr s = 1 \<and>
     (if cs = [] then nextchar s \<in> {None, Some []} \<and> optind s + int (length as) = int (length argv)
      else nextchar s = Some cs \<and> optind s + 1 + int (length as) = int (length argv)) \<and>
     (\<exists>pre. argv = pre @ as)"

lemma arg_at_tail:
  "argv = pre @ a # as \<Longrightarrow> i + 1 + int (length as) = int (length argv) \<Longrightarrow> arg_at argv i = Some a"
proof -
  assume a: "argv = pre @ a # as" "i + 1 + int (length as) = int (length argv)"
  then have "i = int (length pre)" by simp
  with a show "arg_at argv i = Some a" by (simp add: arg_at_def)
qed

lemma arg_at_0: "argv \<noteq> [] \<Longrightarrow> arg_at argv 0 = Some (hd argv)"
  by (cases argv) (simp_all add: arg_at_def)

text \<open>What one call does, seen from the abstract parser that has \<open>e\<close> as its next event.\<close>

definition answers :: "string list \<Rightarrow> string \<Rightarrow> getopt_vars \<Rightarrow> opt_event list \<Rightarrow> (int \<times> getopt_vars) option \<Rightarrow> bool" where
  "answers argv optstring s evs res \<longleftrightarrow>
     (\<exists>e es s' cs as. evs = e # es \<and> res = Some (fst (seen optstring e), s') \<and>
        fst (seen optstring e) \<noteq> - 1 \<and> optarg s' = snd (seen optstring e) \<and>
        printed s' = printed s @ complaint (hd argv) e \<and>
        standing argv s' cs as \<and> es = parse_opts optstring cs as)"

lemma chr_int_not_EOF: "chr_int c \<noteq> - 1"
  using chr_int_range(1) [of c] by linarith

lemma answersI:
  assumes "evs = e # parse_opts optstring cs as" "res = Some (fst (seen optstring e), s')"
    "fst (seen optstring e) \<noteq> - 1" "optarg s' = snd (seen optstring e)"
    "printed s' = printed s @ complaint (hd argv) e" "standing argv s' cs as"
  shows "answers argv optstring s evs res"
  using assms unfolding answers_def by blast

lemma standing_next:
  "0 < optind s \<Longrightarrow> opterr s = 1 \<Longrightarrow> nextchar s = None \<or> nextchar s = Some [] \<Longrightarrow>
   optind s + int (length as) = int (length argv) \<Longrightarrow> argv = pre @ as \<Longrightarrow> standing argv s [] as"
  by (auto simp: standing_def)

lemma standing_letters:
  "0 < optind s \<Longrightarrow> opterr s = 1 \<Longrightarrow> nextchar s = Some cs \<Longrightarrow>
   (if cs = [] then optind s else optind s + 1) + int (length as) = int (length argv) \<Longrightarrow>
   argv = pre @ as \<Longrightarrow> standing argv s cs as"
  by (auto simp: standing_def)

text \<open>The code's look at the option string, by kind.\<close>

lemma kind_temp:
  "opt_kind optstring c = NoOpt \<Longrightarrow> dropWhile (\<lambda>x. x \<noteq> c) optstring = [] \<or> c = CHR '':''"
  "opt_kind optstring c = Plain \<Longrightarrow> dropWhile (\<lambda>x. x \<noteq> c) optstring \<noteq> [] \<and> c \<noteq> CHR '':'' \<and>
     take 1 (tl (dropWhile (\<lambda>x. x \<noteq> c) optstring)) \<noteq> '':''"
  "opt_kind optstring c = Required \<Longrightarrow> dropWhile (\<lambda>x. x \<noteq> c) optstring \<noteq> [] \<and> c \<noteq> CHR '':'' \<and>
     take 1 (tl (dropWhile (\<lambda>x. x \<noteq> c) optstring)) = '':'' \<and>
     take 1 (tl (tl (dropWhile (\<lambda>x. x \<noteq> c) optstring))) \<noteq> '':''"
  "opt_kind optstring c = Optional \<Longrightarrow> dropWhile (\<lambda>x. x \<noteq> c) optstring \<noteq> [] \<and> c \<noteq> CHR '':'' \<and>
     take 1 (tl (dropWhile (\<lambda>x. x \<noteq> c) optstring)) = '':'' \<and>
     take 1 (tl (tl (dropWhile (\<lambda>x. x \<noteq> c) optstring))) = '':''"
  by (auto simp: opt_kind_def dropWhile_eq_Nil_conv split: if_splits list.splits)

lemma letter_answers:
  assumes "0 < optind s" "opterr s = 1" "optarg s = None" "argv \<noteq> []"
    and len: "optind s + 1 + int (length as) = int (length argv)" and pre: "argv = pre @ as"
  shows "answers argv optstring s (parse_opts optstring (c # cs) as) (getopt_letter argv optstring c cs s)"
proof (cases "opt_kind optstring c")
  case NoOpt
  let ?s = "s\<lparr>nextchar := Some cs, optind := (if cs = [] then optind s + 1 else optind s),
        printed := printed s @ hd argv @ '': invalid option '' @ [c, CHR 0x0A], optopt := c\<rparr>"
  have "getopt_letter argv optstring c cs s = Some (chr_int CHR ''?'', ?s)"
    using kind_temp(1) [OF NoOpt] assms(2,4)
    by (cases "cs = []") (auto simp: getopt_letter_def Let_def getopt_report_def arg_at_0 simp del: dropWhile_eq_Nil_conv)
  moreover have "standing argv ?s cs as"
    by (rule standing_letters [OF _ _ _ _ pre]) (use assms(1,2) len in auto)
  ultimately show ?thesis using NoOpt assms(3)
    by (intro answersI [of _ "Unknown c" _ cs as _ ?s]) (simp_all add: seen_def complaint_def)
next
  case Plain
  let ?s = "s\<lparr>nextchar := Some cs, optind := (if cs = [] then optind s + 1 else optind s)\<rparr>"
  have "getopt_letter argv optstring c cs s = Some (chr_int c, ?s)"
    using kind_temp(2) [OF Plain]
    by (cases "cs = []") (simp_all add: getopt_letter_def Let_def del: dropWhile_eq_Nil_conv)
  moreover have "standing argv ?s cs as"
    by (rule standing_letters [OF _ _ _ _ pre]) (use assms(1,2) len in auto)
  ultimately show ?thesis using Plain assms(3) chr_int_not_EOF [of c]
    by (intro answersI [of _ "Flag c" _ cs as _ ?s]) (simp_all add: seen_def complaint_def)
next
  case Optional
  let ?v = "if cs = [] then None else Some cs"
  let ?s = "s\<lparr>nextchar := None, optind := optind s + 1, optarg := ?v\<rparr>"
  have "getopt_letter argv optstring c cs s = Some (chr_int c, ?s)"
    using kind_temp(4) [OF Optional]
    by (cases "cs = []") (simp_all add: getopt_letter_def Let_def del: dropWhile_eq_Nil_conv)
  moreover have "standing argv ?s [] as"
    by (rule standing_next [OF _ _ _ _ pre]) (use assms(1,2) len in auto)
  ultimately show ?thesis using Optional chr_int_not_EOF [of c]
    by (intro answersI [of _ "Valued c ?v" _ "[]" as _ ?s]) (simp_all add: seen_def complaint_def)
next
  case Required
  note k = kind_temp(3) [OF Required]
  consider "cs \<noteq> []" | "cs = []" "as = []" | b bs where "cs = []" "as = b # bs" by (cases as) auto
  then show ?thesis
  proof cases
    case 1
    let ?s = "s\<lparr>nextchar := None, optind := optind s + 1, optarg := Some cs\<rparr>"
    have "getopt_letter argv optstring c cs s = Some (chr_int c, ?s)"
      using k 1 by (simp add: getopt_letter_def Let_def del: dropWhile_eq_Nil_conv)
    moreover have "standing argv ?s [] as"
      by (rule standing_next [OF _ _ _ _ pre]) (use assms(1,2) len in auto)
    ultimately show ?thesis using 1 Required chr_int_not_EOF [of c]
      by (intro answersI [of _ "Valued c (Some cs)" _ "[]" as _ ?s]) (simp_all add: seen_def complaint_def)
  next
    case 2
    let ?r = "chr_int (if hd optstring = CHR '':'' then CHR '':'' else CHR ''?'')"
    let ?s = "s\<lparr>nextchar := None, optind := optind s + 1, optopt := c,
        printed := printed s @ hd argv @ '': option requires an argument -- '' @ [c, CHR 0x0A]\<rparr>"
    have "getopt_letter argv optstring c cs s = Some (?r, ?s)"
      using k 2 assms(2,4) len
      by (simp add: getopt_letter_def Let_def getopt_report_def arg_at_0 del: dropWhile_eq_Nil_conv)
    moreover have "standing argv ?s [] []"
      by (rule standing_next [of _ _ _ argv]) (use assms(1,2) len 2 in auto)
    ultimately show ?thesis using 2 Required assms(3) chr_int_not_EOF
      by (intro answersI [of _ "Missing c" _ "[]" "[]" _ ?s]) (simp_all add: seen_def complaint_def del: of_char_Char)
  next
    case 3
    let ?s = "s\<lparr>nextchar := None, optind := optind s + 2, optarg := Some b\<rparr>"
    have "arg_at argv (optind s + 1) = Some b" by (rule arg_at_tail [of _ pre _ bs]) (use len pre 3 in auto)
    moreover have "optind s + 1 \<noteq> int (length argv)" using len 3 by simp
    ultimately have "getopt_letter argv optstring c cs s = Some (chr_int c, ?s)"
      using k 3 by (simp add: getopt_letter_def Let_def del: dropWhile_eq_Nil_conv)
    moreover have "standing argv ?s [] bs"
      by (rule standing_next [of _ _ _ "pre @ [b]"]) (use assms(1,2) len pre 3 in auto)
    ultimately show ?thesis using 3 Required chr_int_not_EOF [of c]
      by (intro answersI [of _ "Valued c (Some b)" _ "[]" bs _ ?s]) (simp_all add: seen_def complaint_def)
  qed
qed

lemma answers_printed: "printed s1 = printed s \<Longrightarrow> answers argv optstring s1 evs res \<Longrightarrow> answers argv optstring s evs res"
  by (simp add: answers_def)

lemma is_operand_iff: "is_operand a \<longleftrightarrow> a = [] \<or> hd a \<noteq> CHR ''-'' \<or> tl a = []"
  by (cases a) (auto simp: is_operand_def)

lemma getopt_answers:
  assumes st: "standing argv s cs as" and "argv \<noteq> []" "cs \<noteq> [] \<or> as \<noteq> []"
  shows "answers argv optstring s (parse_opts optstring cs as) (getopt argv optstring s)"
proof (cases cs)
  case (Cons c cs')
  let ?s = "s\<lparr>optarg := None\<rparr>"
  obtain pre where pre: "argv = pre @ as" using st by (auto simp: standing_def)
  have g: "getopt argv optstring s = getopt_letter argv optstring c cs' ?s"
    using st Cons by (simp add: getopt_def standing_def getopt_word_def)
  have "0 < optind s" "opterr s = 1" "optind s + 1 + int (length as) = int (length argv)"
    using st Cons by (auto simp: standing_def)
  then have "answers argv optstring ?s (parse_opts optstring (c # cs') as) (getopt_letter argv optstring c cs' ?s)"
    by (intro letter_answers [OF _ _ _ assms(2) _ pre]) simp_all
  from answers_printed [OF _ this, of s] show ?thesis unfolding Cons g by simp
next
  case Nil
  then obtain a as' where as: "as = a # as'" using assms(3) by (cases as) auto
  obtain pre where pre: "argv = pre @ a # as'" using st as by (auto simp: standing_def)
  have i: "0 < optind s" "opterr s = 1" "optind s + 1 + int (length as') = int (length argv)"
    using st Nil as by (simp_all add: standing_def)
  have a: "arg_at argv (optind s) = Some a" "optind s \<noteq> int (length argv)"
    using arg_at_tail [OF pre i(3)] i(3) by auto
  have w: "nextchar s = None \<or> nextchar s = Some []" using st Nil by (simp add: standing_def)
  show ?thesis
  proof (cases "is_operand a")
    case True
    let ?s = "s\<lparr>optarg := Some a, optind := optind s + 1\<rparr>"
    have "getopt argv optstring s = Some (1, ?s)"
    proof -
      have "getopt_word argv (s\<lparr>optarg := None\<rparr>) = Some (Inl 1, ?s)"
        using w True [unfolded is_operand_iff] a by (elim disjE) (simp_all add: getopt_word_def)
      then show ?thesis using i(1) by (simp add: getopt_def)
    qed
    moreover have "standing argv ?s [] as'"
      by (rule standing_next [of _ _ _ "pre @ [a]"]) (use i w pre in auto)
    ultimately show ?thesis using Nil as True
      by (intro answersI [of _ "Operand a" _ "[]" as' _ ?s]) (simp_all add: seen_def complaint_def)
  next
    case False
    let ?s = "s\<lparr>optarg := None, nextchar := Some (tl a)\<rparr>"
    obtain c cs' where tl: "tl a = c # cs'" using False [unfolded is_operand_iff] by (cases "tl a") auto
    have g: "getopt argv optstring s = getopt_letter argv optstring c cs' ?s"
    proof -
      have "getopt_word argv (s\<lparr>optarg := None\<rparr>) = Some (Inr (c # cs'), ?s)"
        using w False [unfolded is_operand_iff] a tl by (elim disjE) (simp_all add: getopt_word_def)
      then show ?thesis using i(1) by (simp add: getopt_def)
    qed
    have "answers argv optstring ?s (parse_opts optstring (c # cs') as') (getopt_letter argv optstring c cs' ?s)"
      by (rule letter_answers [OF _ _ _ assms(2), of _ _ "pre @ [a]"]) (use i pre in simp_all)
    note ans = answers_printed [OF _ this, of s]
    have "parse_opts optstring cs as = parse_opts optstring (c # cs') as'"
      unfolding Nil as tl [symmetric] using False by (simp only: parse_opts.simps if_False)
    moreover have "printed ?s = printed s" by simp
    ultimately show ?thesis using ans unfolding g by simp
  qed
qed

lemma getopt_end:
  "standing argv s [] [] \<Longrightarrow> getopt argv optstring s = Some (- 1, s\<lparr>optarg := None\<rparr>) \<and> optind s = int (length argv)"
  by (auto simp: standing_def getopt_def getopt_word_def)

lemma parse_opts_Nil_iff: "parse_opts optstring cs as = [] \<longleftrightarrow> cs = [] \<and> as = []"
  by (induction optstring cs as rule: parse_opts.induct) (auto simp: is_operand_iff neq_Nil_conv split: opt_kind.splits list.splits)

lemma loop_standing:
  assumes "standing argv s cs as" "argv \<noteq> []"
  shows "\<exists>s'. getopt_loop argv optstring s = Some (map (seen optstring) (parse_opts optstring cs as), s') \<and>
    printed s' = printed s @ concat (map (complaint (hd argv)) (parse_opts optstring cs as)) \<and>
    optind s' = int (length argv)"
  using assms(1)
proof (induction "parse_opts optstring cs as" arbitrary: s cs as)
  case Nil
  then have "cs = []" "as = []" using parse_opts_Nil_iff by metis+
  with getopt_end [of argv s optstring] Nil show ?case by (subst getopt_loop.simps) simp
next
  case (Cons e es)
  then have "cs \<noteq> [] \<or> as \<noteq> []" by auto
  from getopt_answers [OF Cons.prems assms(2) this, of optstring] Cons.hyps(2)
  obtain s1 cs1 as1 where one: "getopt argv optstring s = Some (fst (seen optstring e), s1)"
    "fst (seen optstring e) \<noteq> - 1" "optarg s1 = snd (seen optstring e)"
    "printed s1 = printed s @ complaint (hd argv) e" "standing argv s1 cs1 as1"
    "es = parse_opts optstring cs1 as1"
    unfolding answers_def by (metis list.inject)
  from Cons.hyps(1) [OF one(6,5)] Cons.hyps(2) one show ?case
    by (subst getopt_loop.simps) (auto simp: Cons.hyps(2) [symmetric])
qed

text \<open>C35: Calling \<^verbatim>\<open>getopt\<close> until it returns \<^verbatim>\<open>EOF\<close> terminates for every argument vector with a program name
and every option string, and refines the abstract parser: the results and the values left in
\<^verbatim>\<open>optarg\<close> are those of its events in order, the messages printed are those of its unknown options and
missing arguments, and at the end every word has been consumed.\<close>

theorem getopt_refines:
  assumes "argv \<noteq> []" "optind s = 0" "opterr s = 1"
  shows "\<exists>s'. getopt_loop argv optstring s = Some (map (seen optstring) (parse_opts optstring [] (tl argv)), s') \<and>
    printed s' = printed s @ concat (map (complaint (hd argv)) (parse_opts optstring [] (tl argv))) \<and>
    optind s' = int (length argv)"
proof -
  let ?s = "s\<lparr>optind := 1, nextchar := None\<rparr>"
  have "getopt argv optstring s = getopt argv optstring ?s"
    using assms(2) by (cases s) (simp add: getopt_def getopt_initialize_def)
  then have "getopt_loop argv optstring s = getopt_loop argv optstring ?s"
    by (subst (1 2) getopt_loop.simps) simp
  moreover have "standing argv ?s [] (tl argv)"
    by (rule standing_next [of _ _ _ "[hd argv]"]) (use assms in \<open>auto simp: Suc_le_eq\<close>)
  ultimately show ?thesis using loop_standing [of argv ?s "[]" "tl argv" optstring] assms(1) by simp
qed

theorem getopt_refines_witness:
  "\<exists>s'. getopt_loop [''prog'', ''-xo'', ''out'', ''file'', ''-q''] ''o:x'' getopt_vars0 =
     Some ([(chr_int CHR ''x'', None), (chr_int CHR ''o'', Some ''out''), (1, Some ''file''),
            (chr_int CHR ''?'', None)], s') \<and> optind s' = 5"
proof -
  let ?argv = "[''prog'', ''-xo'', ''out'', ''file'', ''-q'']"
  have h: "?argv \<noteq> []" "optind getopt_vars0 = 0" "opterr getopt_vars0 = 1" by (simp_all add: getopt_vars0_def)
  have p: "parse_opts ''o:x'' [] (tl ?argv) =
      [Flag CHR ''x'', Valued CHR ''o'' (Some ''out''), Operand ''file'', Unknown CHR ''q'']"
    by (simp add: is_operand_def opt_kind_def)
  show ?thesis using getopt_refines [OF h, of "''o:x''", unfolded p] by (auto simp: seen_def)
qed

end
