(* ===== verification/Heap.thy ===== *)
theory Heap
  imports CString
begin

text \<open>
  The allocator of \<^verbatim>\<open>vhls/src/crt/prlibc/prlibc.c\<close>: \<^verbatim>\<open>malloc\<close> moves a pointer upwards and keeps the size of
  each block in the four bytes before it; \<^verbatim>\<open>free\<close> does nothing.  The end of the heap is a constant of
  the build (\<^verbatim>\<open>HEAPEND\<close>), kept in the record; running past it ends the program, the left value of the
  result.  Addresses are unbounded.
\<close>

section \<open>The code\<close>

record heap =
  hmem :: mem
  heapbase :: addr
  heap_end :: addr

definition ld32 :: "addr \<Rightarrow> mem \<Rightarrow> u32" where
  "ld32 a m = word_of_int (chr_int (m a) + 2 ^ 8 * chr_int (m (a + 1)) + 2 ^ 16 * chr_int (m (a + 2)) +
     2 ^ 24 * chr_int (m (a + 3)))"

definition round4 :: "int \<Rightarrow> int" where "round4 sz = and (s32 (sz + 3)) (not 3)"

definition malloc :: "int \<Rightarrow> heap \<Rightarrow> heap + addr \<times> heap" where
  "malloc sz0 h =
     (let sz = round4 sz0 + 4;
          h1 = h\<lparr>hmem := st32 (heapbase h) (word_of_int (sz - 4)) (hmem h)\<rparr>;
          r = heapbase h + 4
      in if r > heap_end h then Inl h1
         else Inr (r, h1\<lparr>heapbase := nat (int (heapbase h) + sz)\<rparr>))"

function zero_loop :: "addr \<Rightarrow> int \<Rightarrow> int \<Rightarrow> mem \<Rightarrow> mem" where
  "zero_loop r i n m = (if i < n then zero_loop r (i + 1) n (m(r + nat i := NUL)) else m)"
  by pat_completeness auto
termination by (relation "measure (\<lambda>(r, i, n, m). nat (n - i))") auto

declare zero_loop.simps [simp del]

definition calloc :: "int \<Rightarrow> int \<Rightarrow> heap \<Rightarrow> heap + addr \<times> heap" where
  "calloc num sz h =
     (let n = s32 (num * sz) in
      case malloc n h of Inl h1 \<Rightarrow> Inl h1
      | Inr (r, h1) \<Rightarrow> Inr (r, h1\<lparr>hmem := zero_loop r 0 n (hmem h1)\<rparr>))"

definition free :: "addr \<Rightarrow> heap \<Rightarrow> heap" where "free x h = h"

definition realloc :: "addr \<Rightarrow> int \<Rightarrow> heap \<Rightarrow> heap + addr \<times> heap" where
  "realloc ptr sz h =
     (if ptr = 0 then malloc sz h
      else
        (let cur = sint (ld32 (ptr - 4) (hmem h)) in
         if cur \<le> sz then Inr (ptr, h)
         else (case malloc sz h of Inl h1 \<Rightarrow> Inl h1
               | Inr (newp, h1) \<Rightarrow> Inr (newp, free ptr (h1\<lparr>hmem := bcopy ptr newp cur (hmem h1)\<rparr>)))))"

text \<open>\<^verbatim>\<open>strdup\<close>: not returning (a text without an end) is \<open>None\<close>.\<close>

definition strdup :: "addr \<Rightarrow> heap \<Rightarrow> (heap + addr \<times> heap) option" where
  "strdup s h =
     (case strlen s (hmem h) of None \<Rightarrow> None
      | Some n \<Rightarrow>
          (case malloc (n + 1) h of Inl h1 \<Rightarrow> Some (Inl h1)
           | Inr (r, h1) \<Rightarrow>
               (case strcpy r s (hmem h1) of None \<Rightarrow> None
                | Some (_, m) \<Rightarrow> Some (Inr (r, h1\<lparr>hmem := m\<rparr>)))))"

section \<open>Headers and rounding\<close>

lemma uint_shift: "uint (drop_bit k w) = uint (w :: u32) div 2 ^ k"
proof -
  have "take_bit LENGTH(32) (uint w) = uint w"
    using unsigned_less [of w, where ?'a = int] by (simp add: take_bit_int_eq_self_iff)
  then show ?thesis by (simp only: unsigned_drop_bit_eq drop_bit_eq_div [where ?'a = int])
qed

lemma bytes_back:
  fixes n :: int
  assumes "0 \<le> n" "n < 2 ^ 32"
  shows "n mod 256 + 2 ^ 8 * (n div 2 ^ 8 mod 256) + 2 ^ 16 * (n div 2 ^ 16 mod 256) +
    2 ^ 24 * (n div 2 ^ 24 mod 256) = n"
proof -
  have p: "(2 :: int) ^ 8 = 256" "(2 :: int) ^ 16 = 65536" "(2 :: int) ^ 24 = 16777216" by simp_all
  define a b c where "a = n div 256" and "b = a div 256" and "c = b div 256"
  have d: "n div 65536 = b" "n div 16777216 = c"
    by (simp_all add: a_def b_def c_def zdiv_zmult2_eq [symmetric])
  have "n = 256 * a + n mod 256" "a = 256 * b + a mod 256" "b = 256 * c + b mod 256"
    by (simp_all add: a_def b_def c_def)
  moreover have "c mod 256 = c" using assms by (simp add: d(2) [symmetric])
  ultimately show ?thesis unfolding p d a_def [symmetric] by linarith
qed

lemma ld32_st32 [mem_simps]: "ld32 a (st32 a w m) = w"
proof -
  let ?m = "st32 a w m" and ?n = "uint w"
  have b: "?m a = int_chr ?n" "?m (a + 1) = int_chr (?n div 2 ^ 8)" "?m (a + 2) = int_chr (?n div 2 ^ 16)"
    "?m (a + 3) = int_chr (?n div 2 ^ 24)"
    by (simp_all add: st32_def uint_shift)
  have c: "chr_int (int_chr i) = i mod 256" for i by simp
  have "0 \<le> ?n" "?n < 2 ^ 32" using unsigned_less [of w, where ?'a = int] by simp_all
  from bytes_back [OF this] show ?thesis unfolding ld32_def b c by (simp only: word_of_int_uint)
qed

lemma ld32_cong: "(\<And>i. i < 4 \<Longrightarrow> m (a + i) = m' (a + i)) \<Longrightarrow> ld32 a m = ld32 a m'"
proof -
  assume e: "\<And>i. i < 4 \<Longrightarrow> m (a + i) = m' (a + i)"
  have "m a = m' a" "m (a + 1) = m' (a + 1)" "m (a + 2) = m' (a + 2)" "m (a + 3) = m' (a + 3)"
    using e [of 0] e [of 1] e [of 2] e [of 3] by simp_all
  then show "ld32 a m = ld32 a m'" by (simp only: ld32_def)
qed

lemma st32_out [mem_simps]: "x < a \<or> a + 4 \<le> x \<Longrightarrow> st32 a w m x = m x"
  by (auto simp: st32_def)

lemma and_not_3: "and a (- 4) = 4 * (a div 4 :: int)"
proof -
  have "Suc (Suc (n - 2)) = n" if "2 \<le> n" for n :: nat using that by simp
  then have "and a (not (mask 2)) = push_bit 2 (drop_bit 2 a)"
    by (intro bit_eqI) (auto simp: bit_simps not_less)
  then show ?thesis by (simp add: mask_eq_exp_minus_1 push_bit_eq_mult drop_bit_eq_div)
qed

lemma round4_bounds:
  assumes "0 \<le> n" "n < 2 ^ 31 - 8"
  shows "n \<le> round4 n" "round4 n < n + 4" "round4 n mod 4 = 0"
proof -
  have "round4 n = 4 * ((n + 3) div 4)" using assms by (simp add: round4_def and_not_3)
  then show "n \<le> round4 n" "round4 n < n + 4" "round4 n mod 4 = 0" by presburger+
qed

section \<open>Blocks\<close>

text \<open>Runs of a program that allocates blocks, writes into them and frees them; \<open>bs\<close> lists the blocks
  handed out and the sizes asked for.\<close>

definition fits :: "int \<Rightarrow> bool" where "fits n \<longleftrightarrow> 0 \<le> n \<and> n < 2 ^ 31 - 8"

inductive heap_run :: "heap \<Rightarrow> heap \<Rightarrow> (addr \<times> int) list \<Rightarrow> bool" for h0 where
  start: "heap_run h0 h0 []"
| alloc: "heap_run h0 h bs \<Longrightarrow> fits n \<Longrightarrow> malloc n h = Inr (p, h') \<Longrightarrow> heap_run h0 h' (bs @ [(p, n)])"
| clear: "heap_run h0 h bs \<Longrightarrow> fits (num * sz) \<Longrightarrow> calloc num sz h = Inr (p, h') \<Longrightarrow>
    heap_run h0 h' (bs @ [(p, num * sz)])"
| store: "heap_run h0 h bs \<Longrightarrow> (p, n) \<in> set bs \<Longrightarrow> i < nat n \<Longrightarrow>
    heap_run h0 (h\<lparr>hmem := (hmem h)(p + i := c)\<rparr>) bs"
| release: "heap_run h0 h bs \<Longrightarrow> heap_run h0 (free p h) bs"

inductive_cases heap_runE: "heap_run h0 h bs"

text \<open>The invariant: each block is aligned, starts after the first header and not behind the end,
  lies below the heap pointer, and has its header; the blocks follow one another.\<close>

definition block_ok :: "heap \<Rightarrow> heap \<Rightarrow> addr \<times> int \<Rightarrow> bool" where
  "block_ok h0 h b = (case b of (p, n) \<Rightarrow> fits n \<and> p mod 4 = 0 \<and> heapbase h0 + 4 \<le> p \<and> p \<le> heap_end h0 \<and>
     p + nat n \<le> heapbase h \<and> ld32 (p - 4) (hmem h) = word_of_int (round4 n))"

definition before :: "addr \<times> int \<Rightarrow> addr \<times> int \<Rightarrow> bool" where
  "before b d \<longleftrightarrow> fst b + nat (snd b) \<le> fst d - 4"

definition heap_inv :: "heap \<Rightarrow> heap \<Rightarrow> (addr \<times> int) list \<Rightarrow> bool" where
  "heap_inv h0 h bs \<longleftrightarrow> heap_end h = heap_end h0 \<and> heapbase h0 \<le> heapbase h \<and> heapbase h mod 4 = 0 \<and>
     (\<forall>b\<in>set bs. block_ok h0 h b) \<and> sorted_wrt before bs"

lemma malloc_Inr:
  assumes "malloc n h = Inr (p, h')" "fits n"
  shows "p = heapbase h + 4" "p \<le> heap_end h" "heap_end h' = heap_end h"
    "heapbase h' = p + nat (round4 n)" "hmem h' = st32 (heapbase h) (word_of_int (round4 n)) (hmem h)"
proof -
  have "0 \<le> round4 n" using round4_bounds(1) [of n] assms(2) by (simp add: fits_def)
  then show "p = heapbase h + 4" "p \<le> heap_end h" "heap_end h' = heap_end h"
    "heapbase h' = p + nat (round4 n)" "hmem h' = st32 (heapbase h) (word_of_int (round4 n)) (hmem h)"
    using assms(1) by (auto simp: malloc_def Let_def split: if_splits)
qed

text \<open>Growing the heap by a block, with its contents changed, keeps the invariant.\<close>

lemma heap_inv_alloc:
  assumes inv: "heap_inv h0 h bs" and m: "malloc n h = Inr (p, h1)" and n: "fits n"
    and out: "\<And>x. x < p \<Longrightarrow> m' x = hmem h1 x"
  shows "heap_inv h0 (h1\<lparr>hmem := m'\<rparr>) (bs @ [(p, n)])"
proof -
  note r = malloc_Inr [OF m n]
  have r4: "n \<le> round4 n" "round4 n mod 4 = 0" "0 \<le> n" using round4_bounds [of n] n by (simp_all add: fits_def)
  have old: "block_ok h0 (h1\<lparr>hmem := m'\<rparr>) b" if "b \<in> set bs" for b
  proof -
    obtain q k where b: "b = (q, k)" by (cases b)
    with inv that have ok: "block_ok h0 h (q, k)" by (simp add: heap_inv_def)
    have "ld32 (q - 4) m' = ld32 (q - 4) (hmem h)"
    proof (rule ld32_cong)
      fix i :: nat
      assume "i < 4"
      then have "q - 4 + i < heapbase h" using ok by (auto simp: block_ok_def)
      then show "m' (q - 4 + i) = hmem h (q - 4 + i)" using r(1,5) by (simp add: out mem_simps)
    qed
    with ok r r4 show ?thesis by (simp add: b block_ok_def)
  qed
  have "ld32 (heapbase h) m' = ld32 (heapbase h) (hmem h1)" by (rule ld32_cong) (use r(1) in \<open>simp add: out\<close>)
  then have new: "block_ok h0 (h1\<lparr>hmem := m'\<rparr>) (p, n)"
    using r inv n r4 by (auto simp: block_ok_def heap_inv_def mem_simps)
  have "before b (p, n)" if "b \<in> set bs" for b
    using inv that r(1) by (auto simp: heap_inv_def block_ok_def before_def split: prod.splits)
  moreover have "heapbase h1 mod 4 = 0"
  proof -
    have "nat (round4 n) mod 4 = 0" using nat_mod_distrib [of "round4 n" 4] r4 by simp
    then show ?thesis using r(1,4) inv by (simp add: heap_inv_def mod_add_eq [symmetric, of "heapbase h + 4"] mod_add_right_eq)
  qed
  ultimately show ?thesis using inv old new r r4
    by (auto simp: heap_inv_def sorted_wrt_append)
qed

lemma zero_loop_out: "0 \<le> i \<Longrightarrow> x < r \<Longrightarrow> zero_loop r i n m x = m x"
proof (induction r i n m rule: zero_loop.induct)
  case (1 r i n m)
  then show ?case by (simp add: zero_loop.simps [of r i n m] del: fun_upd_apply) simp
qed

lemma sorted_wrt_pair: "sorted_wrt R xs \<Longrightarrow> x \<in> set xs \<Longrightarrow> y \<in> set xs \<Longrightarrow> x = y \<or> R x y \<or> R y x"
  by (induction xs) auto

lemma heap_run_inv:
  assumes "heapbase h0 mod 4 = 0"
  shows "heap_run h0 h bs \<Longrightarrow> heap_inv h0 h bs"
proof (induction rule: heap_run.induct)
  case start
  then show ?case using assms by (simp add: heap_inv_def)
next
  case (alloc h bs n p h')
  from heap_inv_alloc [OF alloc.IH alloc.hyps(3,2), of "hmem h'"] show ?case by simp
next
  case (clear h bs num sz p h')
  have n: "s32 (num * sz) = num * sz" using clear.hyps(2) by (intro s32_small) (simp_all add: fits_def)
  then obtain h1 where m: "malloc (num * sz) h = Inr (p, h1)" "h' = h1\<lparr>hmem := zero_loop p 0 (num * sz) (hmem h1)\<rparr>"
    using clear.hyps(3) by (auto simp: calloc_def Let_def split: sum.splits)
  show ?case unfolding m(2)
    by (rule heap_inv_alloc [OF clear.IH m(1) clear.hyps(2)]) (simp add: zero_loop_out)
next
  case (store h bs p n i c)
  let ?h = "h\<lparr>hmem := (hmem h)(p + i := c)\<rparr>"
  have "block_ok h0 ?h b" if b: "b \<in> set bs" for b
  proof -
    obtain q k where q: "b = (q, k)" by (cases b)
    have ok: "block_ok h0 h (q, k)" "block_ok h0 h (p, n)" using store b q by (auto simp: heap_inv_def)
    have "b = (p, n) \<or> before b (p, n) \<or> before (p, n) b"
      using sorted_wrt_pair [of before bs b "(p, n)"] store b by (simp add: heap_inv_def)
    then have far: "p + i < q - 4 \<or> q \<le> p + i" using store.hyps(3) ok by (auto simp: q before_def block_ok_def)
    have "ld32 (q - 4) (hmem ?h) = ld32 (q - 4) (hmem h)"
      by (rule ld32_cong) (use far ok(1) in \<open>auto simp: block_ok_def\<close>)
    then show ?thesis using ok(1) by (simp add: q block_ok_def)
  qed
  then show ?case using store by (simp add: heap_inv_def)
next
  case (release h bs p)
  then show ?case by (simp add: free_def)
qed

section \<open>Properties\<close>

text \<open>C39: In every run of a program that allocates blocks with \<^verbatim>\<open>malloc\<close> and \<^verbatim>\<open>calloc\<close>, writes inside the
blocks it was given and frees them in any order, every block is aligned to four bytes and starts
inside the heap, no block overlaps another one or the header of another one, and the header of every
block still holds its rounded size.\<close>

theorem heap_blocks:
  assumes "heap_run h0 h bs" "heapbase h0 mod 4 = 0"
  shows "(\<forall>(p, n)\<in>set bs. p mod 4 = 0 \<and> heapbase h0 + 4 \<le> p \<and> p \<le> heap_end h0 \<and> p + nat n \<le> heapbase h \<and>
      ld32 (p - 4) (hmem h) = word_of_int (round4 n)) \<and>
    sorted_wrt (\<lambda>(p, n) (q, k). p + nat n \<le> q - 4) bs"
proof -
  have i: "heap_inv h0 h bs" by (rule heap_run_inv [OF assms(2,1)])
  have "before = (\<lambda>(p, n) (q, k). p + nat n \<le> q - 4)" by (auto simp: before_def fun_eq_iff)
  with i show ?thesis by (auto simp: heap_inv_def block_ok_def)
qed

theorem heap_blocks_witness:
  "\<exists>h :: heap. (\<forall>(p, n)\<in>set [(20, 5), (32, 3)]. p mod 4 = 0 \<and> 16 + 4 \<le> p \<and> p \<le> 100 \<and> p + nat n \<le> heapbase h \<and>
      ld32 (p - 4) (hmem h) = word_of_int (round4 n)) \<and>
    sorted_wrt (\<lambda>(p, n) (q, k). p + nat n \<le> q - 4) [(20 :: nat, 5), (32, 3)]"
proof -
  let ?h0 = "\<lparr>hmem = (\<lambda>_. NUL), heapbase = 16, heap_end = 100\<rparr>"
  have f: "fits 5" "fits 3" by (simp_all add: fits_def)
  obtain h1 where m1: "malloc 5 ?h0 = Inr (20, h1)" "heapbase h1 = 28" "heap_end h1 = 100"
    by (simp add: malloc_def round4_def Let_def)
  obtain h2 where m2: "malloc 3 (h1\<lparr>hmem := (hmem h1)(20 + 4 := CHR ''x'')\<rparr>) = Inr (32, h2)"
    using m1 by (simp add: malloc_def round4_def Let_def)
  have "heap_run ?h0 h1 ([] @ [(20, 5)])" by (rule heap_run.alloc [OF heap_run.start f(1) m1(1)])
  then have "heap_run ?h0 (h1\<lparr>hmem := (hmem h1)(20 + 4 := CHR ''x'')\<rparr>) ([] @ [(20, 5)])"
    by (rule heap_run.store [where n = 5]) simp_all
  from heap_run.alloc [OF this f(2) m2] have "heap_run ?h0 h2 [(20, 5), (32, 3)]" by simp
  from heap_blocks [OF this] show ?thesis by (intro exI [of _ h2]) simp
qed

lemma region_st32: "a + n \<le> x \<Longrightarrow> region a n (st32 x w m) = region a n m"
  by (rule region_cong) (simp add: mem_simps)

text \<open>\<^verbatim>\<open>realloc\<close> compares the sizes the wrong way round.  Asked to enlarge a block it returns the block
as it is, with room for no more than before; asked to shrink one it allocates a smaller block and
copies the old number of bytes into it, past the end of the new block and of the allocated heap.\<close>

theorem realloc_inverted:
  assumes "ptr \<noteq> 0" "sint (ld32 (ptr - 4) (hmem h)) = cur" "ptr + nat cur \<le> heapbase h"
    and "fits sz" "heapbase h + 4 \<le> heap_end h"
  shows "if cur \<le> sz then realloc ptr sz h = Inr (ptr, h)
    else \<exists>h'. realloc ptr sz h = Inr (heapbase h + 4, h') \<and>
      region (heapbase h + 4) (nat cur) (hmem h') = region ptr (nat cur) (hmem h) \<and>
      heapbase h' = heapbase h + 4 + nat (round4 sz)"
proof (cases "cur \<le> sz")
  case True
  then show ?thesis using assms(1,2) by (simp add: realloc_def Let_def)
next
  case False
  obtain h1 where m: "malloc sz h = Inr (heapbase h + 4, h1)"
    using assms(5) by (auto simp: malloc_def Let_def)
  note r = malloc_Inr [OF m assms(4)]
  let ?m = "bcopy ptr (heapbase h + 4) cur (hmem h1)"
  have c: "?m = blit (heapbase h + 4) (region ptr (nat cur) (hmem h1)) (hmem h1)"
    using assms(3) by (intro bcopy_blit) simp
  have "region (heapbase h + 4) (nat cur) ?m = region ptr (nat cur) (hmem h1)"
    unfolding c using region_blit [of "heapbase h + 4" "region ptr (nat cur) (hmem h1)" "hmem h1"] by simp
  then show ?thesis
    using False assms(1-3) m r by (simp add: realloc_def Let_def free_def region_st32)
qed

theorem realloc_inverted_witness:
  "realloc 20 9 \<lparr>hmem = (\<lambda>_. NUL)(16 := CHR 0x08), heapbase = 28, heap_end = 100\<rparr> =
     Inr (20, \<lparr>hmem = (\<lambda>_. NUL)(16 := CHR 0x08), heapbase = 28, heap_end = 100\<rparr>) \<and>
   (\<exists>h'. realloc 20 1 \<lparr>hmem = (\<lambda>_. NUL)(16 := CHR 0x08), heapbase = 28, heap_end = 100\<rparr> = Inr (32, h') \<and>
      region 32 8 (hmem h') = region 20 8 ((\<lambda>_. NUL)(16 := CHR 0x08)) \<and> heapbase h' = 36)"
proof -
  let ?h = "\<lparr>hmem = (\<lambda>_. NUL)(16 := CHR 0x08), heapbase = 28, heap_end = 100\<rparr>"
  have h: "(20 :: nat) \<noteq> 0" "sint (ld32 (20 - 4) (hmem ?h)) = 8" "20 + nat 8 \<le> heapbase ?h"
    "heapbase ?h + 4 \<le> heap_end ?h" "fits 9" "fits 1"
    by (simp_all add: ld32_def fits_def)
  have "round4 1 = 4" by (simp add: round4_def)
  then show ?thesis using realloc_inverted [OF h(1,2,3,5,4)] realloc_inverted [OF h(1,2,3,6,4)] by simp
qed

text \<open>\<^verbatim>\<open>strdup\<close> returns a fresh block with a copy of the string.\<close>

lemma strdup_copy:
  assumes "cstr (hmem h) s t" "s + length t < heapbase h" "fits (int (length t) + 1)" "heapbase h + 4 \<le> heap_end h"
  shows "\<exists>h'. strdup s h = Some (Inr (heapbase h + 4, h')) \<and> cstr (hmem h') (heapbase h + 4) t \<and> cstr (hmem h') s t"
proof -
  obtain h1 where m: "malloc (int (length t) + 1) h = Inr (heapbase h + 4, h1)"
    using assms(4) by (auto simp: malloc_def Let_def)
  have c: "cstr (hmem h1) s t"
    unfolding malloc_Inr(5) [OF m assms(3)] using assms(1,2)
    by (subst cstr_cong [of _ _ _ "hmem h"]) (simp_all add: mem_simps)
  let ?m = "blit (heapbase h + 4) (t @ [NUL]) (hmem h1)"
  have "strcpy (heapbase h + 4) s (hmem h1) = Some (heapbase h + 4, ?m)"
    using assms(2) strcpy_loop_cstr [OF c, of "heapbase h + 4"] by (simp add: strcpy_def)
  moreover have "cstr ?m s t" using c assms(2)
    by (subst cstr_cong [of _ _ _ "hmem h1"]) (simp_all add: blit_def)
  ultimately show ?thesis using m strlen_cstr [OF assms(1)] cstr_no_nul [OF assms(1)]
    by (simp add: strdup_def cstr_blit)
qed

end
