(* ===== verification/Scan.thy ===== *)
theory Scan
  imports CNum Heap
begin

text \<open>
  Scanning by a format: \<^verbatim>\<open>vsscanf\<close> of \<^verbatim>\<open>vhls/src/crt/prlibc/scanf.c\<close> and the scan sets of \<^verbatim>\<open>__sccl\<close> in
  \<^verbatim>\<open>prlibc.c\<close>.  The input and the destinations are addresses of the byte memory; the format is the
  text still to be read of it, and reading behind its terminating zero is \<open>None\<close>, as is a missing
  argument.
\<close>

section \<open>Scan sets\<close>

text \<open>The table is a function on characters.  \<open>fill_range\<close> is the inner loop: it stores at the next
  character before it compares.\<close>

function fill_range :: "bool \<Rightarrow> int \<Rightarrow> int \<Rightarrow> (int \<Rightarrow> bool) \<Rightarrow> int \<times> (int \<Rightarrow> bool)" where
  "fill_range v c n tab =
     (let c1 = c + 1; tab1 = tab(c1 := v) in if c1 < n then fill_range v c1 n tab1 else (c1, tab1))"
  by pat_completeness auto
termination by (relation "measure (\<lambda>(v, c, n, tab). nat (n - c))") auto

declare fill_range.simps [simp del]

text \<open>\<open>sccl_next\<close> is the switch on the next character, \<open>sccl_set\<close> the store at the top of the loop.\<close>

fun sccl_next :: "bool \<Rightarrow> int \<Rightarrow> (int \<Rightarrow> bool) \<Rightarrow> string \<Rightarrow> (int \<Rightarrow> bool) \<times> string" where
  "sccl_next v c tab [] = (tab, [])"
| "sccl_next v c tab (n # fmt) =
     (if n = CHR '']'' then (tab, fmt)
      else if n = CHR ''-'' then
        (case fmt of
           [] \<Rightarrow> (tab(45 := v), [])
         | e # fmt1 \<Rightarrow>
             if e = CHR '']'' \<or> chr_int e < c then sccl_next v 45 (tab(45 := v)) (e # fmt1)
             else (case fill_range v c (chr_int e) tab of (c1, tab1) \<Rightarrow> sccl_next v c1 tab1 fmt1))
      else sccl_next v (chr_int n) (tab(chr_int n := v)) fmt)"

definition sccl :: "string \<Rightarrow> (int \<Rightarrow> bool) \<times> string" where
  "sccl fmt =
     (let (neg, fmt1) = (case fmt of c # cs \<Rightarrow> if c = CHR ''^'' then (True, cs) else (False, c # cs) | [] \<Rightarrow> (False, []));
          tab = (\<lambda>_. neg)
      in case fmt1 of [] \<Rightarrow> (tab, [])
         | c # cs \<Rightarrow> sccl_next (\<not> neg) (chr_int c) (tab(chr_int c := \<not> neg)) cs)"

section \<open>Conversion specifications\<close>

record spec =
  sp_width :: u32
  sp_suppress :: bool
  sp_long :: bool
  sp_short :: bool
  sp_longlong :: bool
  sp_shortshort :: bool

definition spec0 :: spec where
  "spec0 = \<lparr>sp_width = 0, sp_suppress = False, sp_long = False, sp_short = False, sp_longlong = False,
     sp_shortshort = False\<rparr>"

text \<open>The label \<open>again\<close>: flags and width, then the conversion letter and the format after it (none when
  the letter was the terminating zero).\<close>

fun scan_spec :: "spec \<Rightarrow> string \<Rightarrow> spec \<times> char \<times> string option" where
  "scan_spec sp [] = (sp, NUL, None)"
| "scan_spec sp (c # fmt) =
     (if c = CHR ''*'' then scan_spec (sp\<lparr>sp_suppress := True\<rparr>) fmt
      else if c = CHR ''l'' then
        scan_spec (if sp_long sp then sp\<lparr>sp_long := False, sp_longlong := True\<rparr> else sp\<lparr>sp_long := True\<rparr>) fmt
      else if c = CHR ''q'' then scan_spec (sp\<lparr>sp_longlong := True\<rparr>) fmt
      else if c = CHR ''h'' then
        scan_spec (if sp_short sp then sp\<lparr>sp_short := False, sp_shortshort := True\<rparr> else sp\<lparr>sp_short := True\<rparr>) fmt
      else if CHR ''0'' \<le> c \<and> c \<le> CHR ''9'' then
        scan_spec (sp\<lparr>sp_width := sp_width sp * 10 + word_of_int (chr_int c - 48)\<rparr>) fmt
      else (sp, c, Some fmt))"

section \<open>Scanning the input\<close>

record scan =
  inp :: addr
  inr :: int
  smem :: mem
  args :: "addr list"
  nassigned :: int
  nconversions :: int
  nread :: int
  sbase :: int
  ccltab :: "int \<Rightarrow> bool"

datatype outcome = Go scan | Input_failure scan | Match_failure scan

text \<open>White space in the format, and before a conversion (which fails at the end of the input).\<close>

function skip_white :: "scan \<Rightarrow> scan" where
  "skip_white s =
     (if inr s > 0 \<and> isspace (chr_int (smem s (inp s)))
      then skip_white (s\<lparr>nread := nread s + 1, inr := inr s - 1, inp := inp s + 1\<rparr>) else s)"
  by pat_completeness auto
termination by (relation "measure (\<lambda>s. nat (inr s))") auto

function skip_leading :: "scan \<Rightarrow> outcome" where
  "skip_leading s =
     (if isspace (chr_int (smem s (inp s))) then
        (if inr s - 1 > 0 then skip_leading (s\<lparr>nread := nread s + 1, inr := inr s - 1, inp := inp s + 1\<rparr>)
         else Input_failure (s\<lparr>nread := nread s + 1, inr := inr s - 1\<rparr>))
      else Go s)"
  by pat_completeness auto
termination by (relation "measure (\<lambda>s. nat (inr s))") auto

declare skip_white.simps [simp del] skip_leading.simps [simp del]

definition literal :: "char \<Rightarrow> scan \<Rightarrow> outcome" where
  "literal c s =
     (if inr s \<le> 0 then Input_failure s
      else if smem s (inp s) \<noteq> c then Match_failure s
      else Go (s\<lparr>inr := inr s - 1, inp := inp s + 1, nread := nread s + 1\<rparr>))"

text \<open>The next argument pointer.\<close>

definition next_arg :: "scan \<Rightarrow> (addr \<times> scan) option" where
  "next_arg s = (case args s of [] \<Rightarrow> None | p # ps \<Rightarrow> Some (p, s\<lparr>args := ps\<rparr>))"

primrec store_le :: "nat \<Rightarrow> addr \<Rightarrow> int \<Rightarrow> mem \<Rightarrow> mem" where
  "store_le 0 a w m = m"
| "store_le (Suc n) a w m = store_le n (a + 1) (w div 256) (m(a := int_chr w))"

definition int_size :: "spec \<Rightarrow> bool \<Rightarrow> nat" where
  "int_size sp pointer =
     (if pointer then 4 else if sp_shortshort sp then 1 else if sp_short sp then 2
      else if sp_long sp then 4 else if sp_longlong sp then 8 else 4)"

definition conv_n :: "spec \<Rightarrow> scan \<Rightarrow> outcome option" where
  "conv_n sp s0 =
     (let s = s0\<lparr>nconversions := nconversions s0 + 1\<rparr> in
      if sp_suppress sp then Some (Go s)
      else (case next_arg s of None \<Rightarrow> None
            | Some (p, s1) \<Rightarrow> Some (Go (s1\<lparr>smem := store_le (int_size sp False) p (nread s1) (smem s1)\<rparr>))))"

definition conv_char :: "spec \<Rightarrow> scan \<Rightarrow> outcome option" where
  "conv_char sp s =
     (let width = (if sp_width sp = 0 then 1 else sint (sp_width sp)) in
      if sp_suppress sp then
        (if inr s < width
         then Some (Go (s\<lparr>inp := inp s + nat (inr s), nread := nread s + inr s, nconversions := nconversions s + 1\<rparr>))
         else Some (Go (s\<lparr>inr := inr s - width, inp := nat (int (inp s) + width), nread := nread s + width,
                          nconversions := nconversions s + 1\<rparr>)))
      else
        (case next_arg s of None \<Rightarrow> None
         | Some (p, s1) \<Rightarrow>
             Some (Go (s1\<lparr>smem := bcopy (inp s1) p width (smem s1), inr := inr s1 - width,
                          inp := nat (int (inp s1) + width), nread := nread s1 + width,
                          nassigned := nassigned s1 + 1, nconversions := nconversions s1 + 1\<rparr>))))"

text \<open>The run of characters in a table, at most \<open>width\<close> of them, stored at \<open>p\<close> unless suppressed;
  \<open>n\<close> counts them.\<close>

function ccl_loop :: "(char \<Rightarrow> bool) \<Rightarrow> u32 \<Rightarrow> addr option \<Rightarrow> int \<Rightarrow> scan \<Rightarrow> int \<times> scan" where
  "ccl_loop tab width p n s =
     (if tab (smem s (inp s)) then
        (let m = (case p of None \<Rightarrow> smem s | Some a \<Rightarrow> (smem s)(a := smem s (inp s)));
             s1 = s\<lparr>inr := inr s - 1, inp := inp s + 1, smem := m\<rparr>
         in if width - 1 = 0 \<or> inr s1 \<le> 0 then (n + 1, s1)
            else ccl_loop tab (width - 1) (map_option Suc p) (n + 1) s1)
      else (n, s))"
  by pat_completeness auto
termination by (relation "measure (\<lambda>(tab, width, p, n, s). nat (inr s))") auto

declare ccl_loop.simps [simp del]

definition conv_run :: "bool \<Rightarrow> (char \<Rightarrow> bool) \<Rightarrow> spec \<Rightarrow> scan \<Rightarrow> outcome option" where
  "conv_run may_be_empty tab sp s =
     (let width = (if sp_width sp = 0 then - 1 else sp_width sp) in
      if sp_suppress sp then
        (case ccl_loop tab width None 0 s of (n, s1) \<Rightarrow>
           Some (if n = 0 \<and> \<not> may_be_empty then Match_failure s1
                 else Go (s1\<lparr>nread := nread s1 + n, nconversions := nconversions s1 + 1\<rparr>)))
      else
        (case next_arg s of None \<Rightarrow> None
         | Some (p, s0) \<Rightarrow>
             (case ccl_loop tab width (Some p) 0 s0 of (n, s1) \<Rightarrow>
                Some (if n = 0 \<and> \<not> may_be_empty then Match_failure s1
                      else Go (s1\<lparr>smem := (smem s1)(p + nat n := NUL), nassigned := nassigned s1 + 1,
                                  nread := nread s1 + n, nconversions := nconversions s1 + 1\<rparr>)))))"

section \<open>Integers\<close>

text \<open>The state of the integer scanner: the base, the flags SIGNOK, PFXOK, NDIGITS and NZDIGITS, and the
  characters stored so far.\<close>

record istate =
  ibase :: int
  signok :: bool
  pfxok :: bool
  ndigits :: bool
  nzdigits :: bool
  ibuf :: string

definition basefix :: "int list" where "basefix = [10, 1, 2, 3, 4, 5, 6, 7, 8, 9, 10, 11, 12, 13, 14, 15, 16]"

definition digit_ok :: "istate \<Rightarrow> istate" where
  "digit_ok i = i\<lparr>signok := False, pfxok := False, ndigits := False\<rparr>"

definition int_char :: "char \<Rightarrow> istate \<Rightarrow> istate option" where
  "int_char c i =
     (let fixed = i\<lparr>ibase := basefix ! nat (ibase i)\<rparr> in
      if c = CHR ''0'' then
        (let j = (if ibase i = 0 then i\<lparr>ibase := 8, pfxok := True\<rparr> else i) in
         Some (if nzdigits j then j\<lparr>signok := False, nzdigits := False, ndigits := False\<rparr> else digit_ok j))
      else if CHR ''1'' \<le> c \<and> c \<le> CHR ''7'' then Some (digit_ok fixed)
      else if c = CHR ''8'' \<or> c = CHR ''9'' then
        (if ibase fixed \<le> 8 then None else Some (digit_ok fixed))
      else if CHR ''A'' \<le> c \<and> c \<le> CHR ''F'' \<or> CHR ''a'' \<le> c \<and> c \<le> CHR ''f'' then
        (if ibase i \<le> 10 then None else Some (digit_ok i))
      else if c = CHR ''+'' \<or> c = CHR ''-'' then
        (if signok i then Some (i\<lparr>signok := False\<rparr>) else None)
      else if c = CHR ''x'' \<or> c = CHR ''X'' then
        (if pfxok i \<and> length (ibuf i) = 1 then Some (i\<lparr>ibase := 16, pfxok := False\<rparr>) else None)
      else None)"

text \<open>At the last character of the input the pointer stays where it is.\<close>

fun int_loop :: "nat \<Rightarrow> istate \<Rightarrow> scan \<Rightarrow> istate \<times> scan" where
  "int_loop 0 i s = (i, s)"
| "int_loop (Suc width) i s =
     (case int_char (smem s (inp s)) i of
        None \<Rightarrow> (i, s)
      | Some j \<Rightarrow>
          (let j1 = j\<lparr>ibuf := ibuf j @ [smem s (inp s)]\<rparr>; s1 = s\<lparr>inr := inr s - 1\<rparr>
           in if inr s1 > 0 then int_loop width j1 (s1\<lparr>inp := inp s1 + 1\<rparr>) else (j1, s1)))"

definition int_width :: "u32 \<Rightarrow> nat" where
  "int_width w = (if w - 1 > 30 then 31 else unat w)"

definition back_one :: "scan \<Rightarrow> scan" where "back_one s = s\<lparr>inp := inp s - 1, inr := inr s + 1\<rparr>"

text \<open>The local buffer of the conversion is a memory of its own.\<close>

definition buf_at :: addr where "buf_at = 1"

definition buf_mem :: "string \<Rightarrow> mem" where "buf_mem cs = blit buf_at (cs @ [NUL]) (\<lambda>_. NUL)"

definition conv_int :: "int \<Rightarrow> bool \<Rightarrow> bool \<Rightarrow> bool \<Rightarrow> spec \<Rightarrow> scan \<Rightarrow> outcome option" where
  "conv_int base is_unsigned pointer pfx sp s0 =
     (case int_loop (int_width (sp_width sp))
             \<lparr>ibase = base, signok = True, pfxok = pfx, ndigits = True, nzdigits = True, ibuf = []\<rparr> s0 of
        (i, s) \<Rightarrow>
         (let s1 = s\<lparr>sbase := ibase i\<rparr> in
          if ndigits i then Some (Match_failure (if ibuf i = [] then s1 else back_one s1))
          else
            (let x = last (ibuf i) = CHR ''x'' \<or> last (ibuf i) = CHR ''X'';
                 buf = (if x then butlast (ibuf i) else ibuf i);
                 s2 = (if x then back_one s1 else s1);
                 done = (\<lambda>t. Go (t\<lparr>nread := nread t + int (length buf), nconversions := nconversions t + 1\<rparr>))
             in if sp_suppress sp then Some (done s2)
                else
                  (case (if is_unsigned then strtouq buf_at (ibase i) (buf_mem buf)
                         else strtoq buf_at (ibase i) (buf_mem buf)) of
                     None \<Rightarrow> None
                   | Some (res, e, err) \<Rightarrow>
                       (case next_arg s2 of None \<Rightarrow> None
                        | Some (p, s3) \<Rightarrow>
                            Some (done (s3\<lparr>smem := store_le (int_size sp pointer) p (uint res) (smem s3),
                                           nassigned := nassigned s3 + 1\<rparr>)))))))"

section \<open>The interpreter\<close>

text \<open>The second switch is on the letter after the first one has replaced it by a conversion type; a
  zero, one, two or three that is the letter itself is taken for a type, with the base and the table
  that the conversion before it has left (\<open>junk\<close> at first for the table, which is not initialised).\<close>

definition white :: "char \<Rightarrow> bool" where "white c = isspace (chr_int c)"

definition convert :: "char \<Rightarrow> spec \<Rightarrow> scan \<Rightarrow> outcome option" where
  "convert c sp s =
     (if inr s \<le> 0 then Some (Input_failure s)
      else if c = CHR ''['' then conv_run False (\<lambda>c. ccltab s (chr_int c)) sp s
      else if c = CHR ''c'' then conv_char sp s
      else
        (case skip_leading s of
           Go s1 \<Rightarrow>
             (if c = CHR ''d'' then conv_int 10 False False False sp s1
              else if c = CHR ''i'' then conv_int 0 False False False sp s1
              else if c = CHR ''o'' then conv_int 8 True False False sp s1
              else if c = CHR ''u'' then conv_int 10 True False False sp s1
              else if c = CHR ''x'' \<or> c = CHR ''X'' then conv_int 16 True False True sp s1
              else if c = CHR ''p'' then conv_int 16 True True True sp s1
              else if c = CHR ''s'' \<or> c = CHR 0x02 then conv_run True (\<lambda>c. \<not> white c) sp s1
              else if c = NUL then conv_char sp s1
              else if c = CHR 0x01 then conv_run False (\<lambda>c. ccltab s1 (chr_int c)) sp s1
              else if c = CHR 0x03 then conv_int (sbase s1) False False False sp s1
              else Some (Go s1))
         | r \<Rightarrow> Some r))"

text \<open>One directive of the format; the second component is the format after it.\<close>

definition directive :: "char \<Rightarrow> string \<Rightarrow> scan \<Rightarrow> (outcome \<times> string option) option" where
  "directive c fmt s =
     (if white c then Some (Go (skip_white s), Some fmt)
      else if c \<noteq> CHR ''%'' then Some (literal c s, Some fmt)
      else
        (case scan_spec spec0 fmt of (sp, d, rest) \<Rightarrow>
           if d = CHR ''%'' then Some (literal d s, rest)
           else if d = CHR ''n'' then map_option (\<lambda>r. (r, rest)) (conv_n sp s)
           else if d = CHR ''['' then
             (case sccl (the rest) of (tab, rest1) \<Rightarrow>
                map_option (\<lambda>r. (r, Some rest1)) (convert d sp (s\<lparr>ccltab := tab\<rparr>)))
           else map_option (\<lambda>r. (r, rest)) (convert d sp s)))"

partial_function (option) scan_loop :: "string option \<Rightarrow> scan \<Rightarrow> (int \<times> scan) option" where
  "scan_loop fmt s =
     (case fmt of None \<Rightarrow> None
      | Some [] \<Rightarrow> Some (nassigned s, s)
      | Some (c # cs) \<Rightarrow>
          (case directive c cs s of None \<Rightarrow> None
           | Some (r, rest) \<Rightarrow>
               (case r of
                  Go s1 \<Rightarrow> scan_loop rest s1
                | Input_failure s1 \<Rightarrow> Some (if nconversions s1 \<noteq> 0 then nassigned s1 else - 1, s1)
                | Match_failure s1 \<Rightarrow> Some (nassigned s1, s1))))"

definition vsscanf :: "(int \<Rightarrow> bool) \<Rightarrow> addr \<Rightarrow> string \<Rightarrow> addr list \<Rightarrow> mem \<Rightarrow> (int \<times> mem) option" where
  "vsscanf junk a fmt ap m =
     (case strlen a m of None \<Rightarrow> None
      | Some n \<Rightarrow> map_option (\<lambda>(r, s). (r, smem s))
          (scan_loop (Some fmt)
             \<lparr>inp = a, inr = n, smem = m, args = ap, nassigned = 0, nconversions = 0, nread = 0,
               sbase = 0, ccltab = junk\<rparr>))"

section \<open>The value of a decimal field\<close>

definition clamp64 :: "int \<Rightarrow> int" where "clamp64 v = max (- (2 ^ 63)) (min (2 ^ 63 - 1) v)"

lemma strtoq_value:
  assumes "cstr m p (sg @ ds @ rest)" "is_sign sg" "list_all (is_dig 10) ds" "ds \<noteq> []" "stops 10 rest"
  shows "\<exists>e err. strtoq p 10 m = Some (word_of_int (clamp64 ((if sg = ''-'' then - 1 else 1) * hval 10 0 ds)), e, err)"
proof -
  let ?q = "p + length sg"
  have q: "cstr m ?q (ds @ rest)" using cstr_append [OF assms(1)] by simp
  then have dq: "is_dig 10 (m (p + length [] + length sg))" using assms(3,4) by (cases ds) auto
  have "10 \<notin> {0, 2, 16 :: int}" "list_all (\<lambda>c. isspace (chr_int c)) []" "cstr m p ([] @ sg @ ds @ rest)"
    using assms(1) by simp_all
  note h = strto_head_plain [OF this(2) assms(2) this(3) dq this(1), of False, simplified]
  define M where "M = (if sg = ''-'' then 2 ^ 63 else 2 ^ 63 - 1 :: int)"
  define co where "co = ((if sg = ''-'' then - 0x8000000000000000 else 0x7FFFFFFFFFFFFFFF) :: u64)"
  have u: "uint co = M" by (simp add: co_def M_def)
  have pos: "0 \<le> hval 10 0 ds" using hval_mono [of 10 0 ds] by simp
  have M: "0 \<le> M" "M < 2 ^ LENGTH(64)" "(10 :: int) < 2 ^ LENGTH(64)" by (simp_all add: M_def)
  have t: "(2 :: int) \<le> 10" "(10 :: int) \<le> 36" by simp_all
  obtain acc any where
    run: "strto_loop (co div ucast (word_of_int 10 :: u32)) (sint (ucast (co mod ucast (word_of_int 10 :: u32)) :: u32))
        10 m (chr_int (m ?q)) (Suc ?q) 0 0 = Some (acc, any, Suc (?q + length ds))"
    and v: "hval 10 0 ds \<le> M \<Longrightarrow> uint acc = hval 10 0 ds \<and> any = 1" "\<not> hval 10 0 ds \<le> M \<Longrightarrow> any = - 1"
    using strto_run [OF t(1) M(3,1,2) limits64 [OF u t] assms(3,4,5) q] by blast
  have s: "\<exists>e err. strtoq p 10 m = Some (if any < 0 then if sg = ''-'' then 0x8000000000000000 else 0x7FFFFFFFFFFFFFFF
      else if sg = ''-'' then - acc else acc, e, err)"
    using run by (simp add: strtoq_def h co_def [symmetric] Let_def)
  show ?thesis
  proof (cases "hval 10 0 ds \<le> M")
    case True
    then have "any = 1" "acc = word_of_int (hval 10 0 ds)" using v(1) word_of_int_uint [of acc] by auto
    moreover have "clamp64 ((if sg = ''-'' then - 1 else 1) * hval 10 0 ds) = (if sg = ''-'' then - 1 else 1) * hval 10 0 ds"
      using True pos by (auto simp: clamp64_def M_def split: if_splits)
    ultimately show ?thesis using s by auto
  next
    case False
    then have "any = - 1" using v(2) by simp
    moreover have "clamp64 ((if sg = ''-'' then - 1 else 1) * hval 10 0 ds) = (if sg = ''-'' then - (2 ^ 63) else 2 ^ 63 - 1)"
      using False pos by (auto simp: clamp64_def M_def split: if_splits)
    ultimately show ?thesis using s by auto
  qed
qed

lemma low_byte: "k + 8 \<le> 32 \<Longrightarrow> int_chr (uint (word_of_int w :: u32) div 2 ^ k) = int_chr (w div 2 ^ k)"
proof -
  assume k: "k + 8 \<le> 32"
  have "uint (word_of_int w :: u32) div 2 ^ k = take_bit (32 - k) (drop_bit k w)"
    by (simp only: drop_bit_eq_div [symmetric] uint_word_of_int_eq drop_bit_take_bit) simp
  then show ?thesis using k by (simp only: char_of_take_bit_eq drop_bit_eq_div)
qed

lemma store_le_4: "store_le 4 a w m = st32 a (word_of_int w) m"
proof -
  have s: "store_le 4 a w m = m(a := int_chr (w div 2 ^ 0), a + 1 := int_chr (w div 2 ^ 8),
      a + 2 := int_chr (w div 2 ^ 16), a + 3 := int_chr (w div 2 ^ 24))"
    by (simp add: numeral_eq_Suc zdiv_zmult2_eq [symmetric])
  have z: "int_chr (uint (word_of_int w :: u32)) = int_chr (w div 2 ^ 0)"
    using low_byte [of 0 w] by (simp only: power_0 div_by_1)
  show ?thesis unfolding s st32_def uint_shift z
    by (simp only: low_byte [of 8 w] low_byte [of 16 w] low_byte [of 24 w])
qed

section \<open>Scanning decimal digits\<close>

lemma digit_cases: "is_dig 10 c \<Longrightarrow> c \<in> set ''0123456789''"
proof -
  assume "is_dig 10 c"
  then have "48 \<le> chr_int c" "chr_int c \<le> 57"
    by (auto simp: is_dig_def digit_val_def ctype_defs split: option.splits if_splits)
  then have "nat (chr_int c) \<in> set [48..<58]" unfolding set_upt atLeastLessThan_iff by linarith
  moreover have "\<forall>n\<in>set [48..<58]. char_of n \<in> set ''0123456789''" by code_simp
  ultimately have "char_of (nat (chr_int c)) \<in> set ''0123456789''" by blast
  moreover have "char_of (nat (chr_int c)) = c"
    by (simp add: of_nat_of_char [of c, where ?'a = int, symmetric])
  ultimately show ?thesis by (simp only:)
qed

text \<open>After a decimal digit: no sign, no prefix, and there has been a digit.\<close>

definition in_decimal :: "istate \<Rightarrow> bool" where
  "in_decimal i \<longleftrightarrow> ibase i = 10 \<and> \<not> signok i \<and> \<not> pfxok i \<and> \<not> ndigits i"

text \<open>The cases of the scanner's switch.\<close>

lemma digit_class:
  assumes "is_dig 10 c"
  shows "c = CHR ''0'' \<or> c \<noteq> CHR ''0'' \<and> CHR ''1'' \<le> c \<and> c \<le> CHR ''7'' \<or> c = CHR ''8'' \<or> c = CHR ''9''"
proof -
  have "\<forall>c\<in>set ''0123456789''. c = CHR ''0'' \<or> c \<noteq> CHR ''0'' \<and> CHR ''1'' \<le> c \<and> c \<le> CHR ''7'' \<or>
      c = CHR ''8'' \<or> c = CHR ''9''" by code_simp
  then show ?thesis using digit_cases [OF assms] by blast
qed

lemma not_digit: "\<not> is_dig 10 c \<Longrightarrow> \<not> (CHR ''0'' \<le> c \<and> c \<le> CHR ''9'')"
proof -
  have "CHR ''0'' \<le> c \<Longrightarrow> c \<le> CHR ''9'' \<Longrightarrow> 48 \<le> chr_int c \<and> chr_int c \<le> 57"
    by (simp add: not_less [symmetric] less_char_int)
  then show "\<not> is_dig 10 c \<Longrightarrow> \<not> (CHR ''0'' \<le> c \<and> c \<le> CHR ''9'')"
    by (auto simp: is_dig_def digit_val_def ctype_defs)
qed

lemma int_char_digit:
  assumes "is_dig 10 c" "ibase i = 10" "\<not> pfxok i"
  shows "\<exists>j. int_char c i = Some j \<and> in_decimal j \<and> ibuf j = ibuf i"
proof -
  have o: "\<not> CHR ''8'' \<le> CHR ''7''" "\<not> CHR ''9'' \<le> CHR ''7''" by code_simp+
  show ?thesis using digit_class [OF assms(1)] assms(2,3) o
    by (elim disjE) (simp_all add: int_char_def in_decimal_def digit_ok_def basefix_def)
qed

lemma int_char_other:
  assumes "\<not> is_dig 10 c" "in_decimal i"
  shows "int_char c i = None"
proof -
  have o: "CHR ''0'' \<le> CHR ''1''" "CHR ''7'' \<le> CHR ''9''" "CHR ''0'' \<le> CHR ''8''" "CHR ''8'' \<le> CHR ''9''"
    "CHR ''0'' \<le> CHR ''9''" by code_simp+
  have t: "CHR ''1'' \<le> c \<Longrightarrow> CHR ''0'' \<le> c" "c \<le> CHR ''7'' \<Longrightarrow> c \<le> CHR ''9''"
    by (rule order_trans [OF o(1)], assumption) (erule order_trans [OF _ o(2)])
  from not_digit [OF assms(1)] have "c \<noteq> CHR ''0''" "\<not> (CHR ''1'' \<le> c \<and> c \<le> CHR ''7'')" "c \<noteq> CHR ''8''" "c \<noteq> CHR ''9''"
    using t o(3,4,5) by blast+
  then show ?thesis using assms(2) by (auto simp: int_char_def in_decimal_def Let_def)
qed

lemma int_loop_stop: "\<not> is_dig 10 (smem s (inp s)) \<Longrightarrow> in_decimal i \<Longrightarrow> int_loop w i s = (i, s)"
  by (cases w) (simp_all add: int_char_other)

text \<open>The pointer after a field of \<open>n\<close> characters of which \<open>k\<close> are left in the input.\<close>

definition moved :: "nat \<Rightarrow> nat \<Rightarrow> scan \<Rightarrow> scan" where
  "moved n k s = s\<lparr>inp := (if k = 0 then inp s + n - 1 else inp s + n), inr := int k\<rparr>"

lemma int_loop_digits:
  "list_all (is_dig 10) ds \<Longrightarrow> ds \<noteq> [] \<Longrightarrow> stops 10 rest \<Longrightarrow> ibase i = 10 \<Longrightarrow> \<not> pfxok i \<Longrightarrow>
   cstr (smem s) (inp s) (ds @ rest) \<Longrightarrow> inr s = int (length (ds @ rest)) \<Longrightarrow> length ds \<le> w \<Longrightarrow>
   \<exists>j. int_loop w i s = (j, moved (length ds) (length rest) s) \<and> in_decimal j \<and> ibuf j = ibuf i @ ds"
proof (induction ds arbitrary: i s w)
  case (Cons c ds)
  obtain w1 where w: "w = Suc w1" using Cons.prems(8) by (cases w) auto
  have c: "is_dig 10 c" "smem s (inp s) = c" "cstr (smem s) (Suc (inp s)) (ds @ rest)" using Cons.prems by simp_all
  obtain j where j: "int_char c i = Some j" "in_decimal j" "ibuf j = ibuf i"
    using int_char_digit [OF c(1) Cons.prems(4,5)] by blast
  let ?j = "j\<lparr>ibuf := ibuf i @ [c]\<rparr>"
  have dj: "in_decimal ?j" "ibase ?j = 10" "\<not> pfxok ?j" using j(2) by (simp_all add: in_decimal_def)
  show ?case
  proof (cases ds)
    case Nil
    show ?thesis
    proof (cases rest)
      case Nil
      then show ?thesis using \<open>ds = []\<close> c j w dj Cons.prems(7) by (simp add: moved_def)
    next
      case (Cons r rs)
      then have "\<not> is_dig 10 (smem s (Suc (inp s)))" using c(3) \<open>ds = []\<close> Cons.prems(3) by (simp add: stops_def)
      then have "int_loop w1 ?j (s\<lparr>inr := inr s - 1, inp := inp s + 1\<rparr>) = (?j, s\<lparr>inr := inr s - 1, inp := inp s + 1\<rparr>)"
        using dj(1) by (intro int_loop_stop) simp_all
      then show ?thesis using \<open>ds = []\<close> \<open>rest = r # rs\<close> c j w dj \<open>inr s = int (length ((c # ds) @ rest))\<close> by (simp add: moved_def)
    qed
  next
    case ds: (Cons d es)
    let ?s = "s\<lparr>inr := inr s - 1, inp := inp s + 1\<rparr>"
    obtain k where k: "int_loop w1 ?j ?s = (k, moved (length ds) (length rest) ?s)" "in_decimal k" "ibuf k = ibuf ?j @ ds"
      using Cons.IH [of ?j ?s w1] Cons.prems w c(3) dj ds by auto
    then show ?thesis using c j w ds Cons.prems(7) by (simp add: moved_def)
  qed
qed simp

section \<open>Fields\<close>

text \<open>A field of the input: white space, a sign, digits, and the address its value goes to.\<close>

datatype field = Field (f_ws: string) (f_sign: string) (f_digits: string) (f_dest: addr)

definition f_text :: "field \<Rightarrow> string" where "f_text f = f_ws f @ f_sign f @ f_digits f"

definition f_value :: "field \<Rightarrow> int" where
  "f_value f = clamp64 ((if f_sign f = ''-'' then - 1 else 1) * hval 10 0 (f_digits f))"

definition field_ok :: "field \<Rightarrow> bool" where
  "field_ok f \<longleftrightarrow> list_all white (f_ws f) \<and> is_sign (f_sign f) \<and> list_all (is_dig 10) (f_digits f) \<and>
     f_digits f \<noteq> [] \<and> length (f_sign f @ f_digits f) \<le> 31"

lemma skip_leading_white:
  "list_all white ws \<Longrightarrow> cstr (smem s) (inp s) (ws @ c # t) \<Longrightarrow> \<not> white c \<Longrightarrow> inr s = int (length (ws @ c # t)) \<Longrightarrow>
   skip_leading s = Go (s\<lparr>nread := nread s + int (length ws), inr := inr s - int (length ws), inp := inp s + length ws\<rparr>)"
proof (induction ws arbitrary: s)
  case Nil
  then show ?case by (subst skip_leading.simps) (simp add: white_def)
next
  case (Cons w ws)
  let ?s = "s\<lparr>nread := nread s + 1, inr := inr s - 1, inp := inp s + 1\<rparr>"
  have "skip_leading s = skip_leading ?s"
    using Cons.prems by (subst skip_leading.simps) (simp add: white_def)
  also have "\<dots> = Go (?s\<lparr>nread := nread ?s + int (length ws), inr := inr ?s - int (length ws), inp := inp ?s + length ws\<rparr>)"
    using Cons.prems by (intro Cons.IH) simp_all
  finally show ?case by (simp add: algebra_simps)
qed

lemma sign_step:
  assumes "is_sign sg" "sg \<noteq> []" "signok i"
  shows "int_char (hd sg) i = Some (i\<lparr>signok := False\<rparr>)"
proof -
  have o: "\<not> CHR ''1'' \<le> CHR ''-''" "\<not> CHR ''A'' \<le> CHR ''-''" "\<not> CHR ''a'' \<le> CHR ''-''"
    "\<not> CHR ''1'' \<le> CHR ''+''" "\<not> CHR ''A'' \<le> CHR ''+''" "\<not> CHR ''a'' \<le> CHR ''+''" by code_simp+
  from assms(1,2) have "sg = ''-'' \<or> sg = ''+''" by (simp add: is_sign_def)
  then show ?thesis using assms(3) o by (elim disjE) (simp_all add: int_char_def Let_def)
qed

text \<open>The integer scanner on a sign and digits.\<close>

lemma int_loop_field:
  assumes "is_sign sg" "list_all (is_dig 10) ds" "ds \<noteq> []" "stops 10 rest" "length (sg @ ds) \<le> w"
    and "cstr (smem s) (inp s) (sg @ ds @ rest)" "inr s = int (length (sg @ ds @ rest))"
    and "ibase i = 10" "signok i" "\<not> pfxok i" "ibuf i = []"
  shows "\<exists>j. int_loop w i s = (j, moved (length (sg @ ds)) (length rest) s) \<and> in_decimal j \<and> ibuf j = sg @ ds"
proof (cases sg)
  case Nil
  then show ?thesis using int_loop_digits [OF assms(2,3,4,8,10), of s w] assms(5,6,7,11) by simp
next
  case (Cons c cs)
  with assms(1) have sg: "sg = [c]" by (auto simp: is_sign_def)
  obtain w1 where w: "w = Suc w1" using assms(5) sg by (cases w) auto
  let ?i = "i\<lparr>signok := False, ibuf := [c]\<rparr>" and ?s = "s\<lparr>inr := inr s - 1, inp := inp s + 1\<rparr>"
  have one: "int_char c i = Some (i\<lparr>signok := False\<rparr>)" using sign_step [OF assms(1) _ assms(9)] sg by simp
  have "smem s (inp s) = c" "cstr (smem ?s) (inp ?s) (ds @ rest)" "inr ?s = int (length (ds @ rest))"
    using assms(6,7) sg by simp_all
  moreover from this obtain j where "int_loop w1 ?i ?s = (j, moved (length ds) (length rest) ?s)" "in_decimal j"
      "ibuf j = [c] @ ds"
    using int_loop_digits [OF assms(2,3,4), of ?i ?s w1] assms(5,8,10) sg w by auto
  moreover have "int (length (ds @ rest)) > 0" using assms(3) by (cases ds) simp_all
  ultimately show ?thesis using one w sg assms(11) by (simp add: moved_def)
qed

lemma conv_int_field:
  assumes f: "is_sign sg" "list_all (is_dig 10) ds" "ds \<noteq> []" "stops 10 rest" "length (sg @ ds) \<le> 31"
    and s: "cstr (smem s) (inp s) (sg @ ds @ rest)" "inr s = int (length (sg @ ds @ rest))" "args s = p # ps"
    and v: "v = clamp64 ((if sg = ''-'' then - 1 else 1) * hval 10 0 ds)"
  shows "\<exists>s'. conv_int 10 False False False spec0 s = Some (Go s') \<and> smem s' = st32 p (word_of_int v) (smem s) \<and>
    inr s' = int (length rest) \<and> (rest \<noteq> [] \<longrightarrow> inp s' = inp s + length (sg @ ds)) \<and> args s' = ps \<and>
    nassigned s' = nassigned s + 1 \<and> nconversions s' = nconversions s + 1"
proof -
  let ?i = "\<lparr>ibase = 10, signok = True, pfxok = False, ndigits = True, nzdigits = True, ibuf = []\<rparr>"
  obtain j where j: "int_loop 31 ?i s = (j, moved (length (sg @ ds)) (length rest) s)" "in_decimal j" "ibuf j = sg @ ds"
    using int_loop_field [OF f s(1,2), of ?i] by auto
  have w: "int_width (sp_width spec0) = 31" by (simp add: int_width_def spec0_def)
  have sp: "\<not> sp_suppress spec0" "int_size spec0 False = 4" by (simp_all add: spec0_def int_size_def)
  have "last (sg @ ds) \<in> set ds" using f(3) by (cases ds rule: rev_cases) auto
  then have "is_dig 10 (last (sg @ ds))" using f(2) by (auto simp: list_all_iff)
  then have x: "last (sg @ ds) \<noteq> CHR ''x''" "last (sg @ ds) \<noteq> CHR ''X''"
    by (auto simp: is_dig_def digit_val_def ctype_defs)
  have nn: "NUL \<notin> set (sg @ ds)" using cstr_no_nul [OF s(1)] by auto
  have "cstr (buf_mem (sg @ ds)) buf_at (sg @ ds @ [])"
    using cstr_blit [OF nn, of buf_at] by (simp add: buf_mem_def)
  from strtoq_value [OF this f(1,2,3)]
  obtain e err where q: "strtoq buf_at 10 (buf_mem (sg @ ds)) = Some (word_of_int v, e, err)"
    by (auto simp: stops_def v)
  have "(word_of_int (take_bit 64 v) :: u32) = word_of_int v" by (simp add: word_of_int_eq_iff)
  then have m: "(ucast (word_of_int v :: u64) :: u32) = word_of_int v" by (simp add: unsigned_of_int)
  show ?thesis
    using j x q f(3) s(3)
    by (simp add: conv_int_def w in_decimal_def Let_def next_arg_def moved_def sp store_le_4 m)
qed

lemma not_white:
  "is_dig 10 c \<Longrightarrow> \<not> white c" "is_sign [c] \<Longrightarrow> \<not> white c"
  using is_dig_cases [of 10 c] by (auto simp: white_def is_sign_def isspace_def)

text \<open>The directive \<^verbatim>\<open>%d\<close> on a field.\<close>

lemma directive_field:
  assumes "field_ok f" "stops 10 rest" "cstr (smem s) (inp s) (f_text f @ rest)"
    and "inr s = int (length (f_text f @ rest))" "args s = f_dest f # ps"
  shows "\<exists>s'. directive (CHR ''%'') (CHR ''d'' # fmt) s = Some (Go s', Some fmt) \<and>
    smem s' = st32 (f_dest f) (word_of_int (f_value f)) (smem s) \<and> inr s' = int (length rest) \<and>
    (rest \<noteq> [] \<longrightarrow> inp s' = inp s + length (f_text f)) \<and> args s' = ps \<and>
    nassigned s' = nassigned s + 1 \<and> nconversions s' = nconversions s + 1"
proof -
  obtain ws sg ds p where f: "f = Field ws sg ds p" by (cases f)
  have ok: "list_all white ws" "is_sign sg" "list_all (is_dig 10) ds" "ds \<noteq> []" "length (sg @ ds) \<le> 31"
    using assms(1) by (simp_all add: field_ok_def f)
  obtain c t where ct: "sg @ ds @ rest = c # t" "\<not> white c"
  proof (cases sg)
    case Nil
    then show ?thesis using that ok(3,4) not_white(1) by (cases ds) auto
  next
    case (Cons x xs)
    then have "is_sign [x]" using ok(2) by (auto simp: is_sign_def)
    then show ?thesis using that Cons not_white(2) by auto
  qed
  let ?s = "s\<lparr>nread := nread s + int (length ws), inr := inr s - int (length ws), inp := inp s + length ws\<rparr>"
  have c: "cstr (smem s) (inp s) (ws @ c # t)" "inr s = int (length (ws @ c # t))"
    using assms(3,4) ct(1) by (simp_all add: f_text_def f)
  have sk: "skip_leading s = Go ?s" by (rule skip_leading_white [OF ok(1) c(1) ct(2) c(2)])
  have "cstr (smem ?s) (inp ?s) (sg @ ds @ rest)" "inr ?s = int (length (sg @ ds @ rest))"
    using cstr_append [OF c(1)] c(2) ct(1) by simp_all
  from conv_int_field [OF ok(2-4) assms(2) ok(5) this, of p ps "f_value f"] assms(5)
  obtain s' where s': "conv_int 10 False False False spec0 ?s = Some (Go s')"
    "smem s' = st32 p (word_of_int (f_value f)) (smem s)" "inr s' = int (length rest)"
    "rest \<noteq> [] \<longrightarrow> inp s' = inp s + length ws + length (sg @ ds)" "args s' = ps"
    "nassigned s' = nassigned s + 1" "nconversions s' = nconversions s + 1"
    by (auto simp: f f_value_def)
  have sp: "scan_spec spec0 (CHR ''d'' # fmt) = (spec0, CHR ''d'', Some fmt)" by simp
  have "inr s > 0" using c(2) by simp
  then have "convert (CHR ''d'') spec0 s = Some (Go s')" using sk s'(1) by (simp add: convert_def)
  then have "directive (CHR ''%'') (CHR ''d'' # fmt) s = Some (Go s', Some fmt)"
    by (simp add: directive_def white_def isspace_def del: scan_spec.simps) (simp add: sp)
  then show ?thesis using s' by (auto simp: f f_text_def)
qed

fun fields_ok :: "nat \<Rightarrow> nat \<Rightarrow> field list \<Rightarrow> bool" where
  "fields_ok a e [] = True"
| "fields_ok a e (f # fs) \<longleftrightarrow> field_ok f \<and> stops 10 (concat (map f_text fs)) \<and>
     (f_dest f + 4 \<le> a \<or> e < f_dest f) \<and> fields_ok a e fs"

definition store_field :: "field \<Rightarrow> mem \<Rightarrow> mem" where
  "store_field f m = st32 (f_dest f) (word_of_int (f_value f)) m"

lemma scan_fields:
  "fields_ok a e fs \<Longrightarrow>
   (fs \<noteq> [] \<Longrightarrow> cstr (smem s) (inp s) (concat (map f_text fs)) \<and> a \<le> inp s \<and> inp s + length (concat (map f_text fs)) \<le> e) \<Longrightarrow>
   inr s = int (length (concat (map f_text fs))) \<Longrightarrow> args s = map f_dest fs @ extra \<Longrightarrow>
   nassigned s = nconversions s \<Longrightarrow> 0 \<le> nconversions s \<Longrightarrow>
   \<exists>s'. scan_loop (Some (concat (replicate (length fs + k) ''%d''))) s =
     Some (if k > 0 \<and> nassigned s + int (length fs) = 0 then - 1 else nassigned s + int (length fs), s') \<and>
     smem s' = fold store_field fs (smem s)"
proof (induction fs arbitrary: s)
  case Nil
  show ?case
  proof (cases k)
    case 0
    then show ?thesis using Nil.prems by (subst scan_loop.simps) simp
  next
    case (Suc n)
    have sp: "scan_spec spec0 (CHR ''d'' # fmt) = (spec0, CHR ''d'', Some fmt)" for fmt by simp
    have "directive (CHR ''%'') (CHR ''d'' # concat (replicate n ''%d'')) s =
        Some (Input_failure s, Some (concat (replicate n ''%d'')))"
      using Nil.prems(3)
      by (simp add: directive_def white_def isspace_def del: scan_spec.simps) (simp add: sp convert_def)
    then show ?thesis using Suc Nil.prems by (subst scan_loop.simps) auto
  qed
next
  case (Cons f fs)
  let ?rest = "concat (map f_text fs)"
  let ?fmt = "concat (replicate (length fs + k) ''%d'')"
  obtain s' where s': "directive (CHR ''%'') (CHR ''d'' # ?fmt) s = Some (Go s', Some ?fmt)"
    "smem s' = store_field f (smem s)" "inr s' = int (length ?rest)"
    "?rest \<noteq> [] \<longrightarrow> inp s' = inp s + length (f_text f)" "args s' = map f_dest fs @ extra"
    "nassigned s' = nassigned s + 1" "nconversions s' = nconversions s + 1"
    using directive_field [of f ?rest s "map f_dest fs @ extra" ?fmt] Cons.prems by (auto simp: store_field_def)
  have ne: "?rest \<noteq> []" if "fs \<noteq> []"
    using that Cons.prems(1) by (cases fs) (auto simp: f_text_def field_ok_def)
  have "cstr (smem s') (inp s') ?rest \<and> a \<le> inp s' \<and> inp s' + length ?rest \<le> e" if "fs \<noteq> []"
  proof -
    have i: "inp s' = inp s + length (f_text f)" using s'(4) ne that by simp
    have c: "cstr (smem s) (inp s) (f_text f @ ?rest)" "a \<le> inp s" "inp s + length (f_text f @ ?rest) \<le> e"
      using Cons.prems(2) by simp_all
    have d: "f_dest f + 4 \<le> a \<or> e < f_dest f" using Cons.prems(1) by simp
    have "cstr (smem s') (inp s') ?rest"
      unfolding s'(2) i using cstr_append [OF c(1)] c(2,3) d
      by (subst cstr_cong [of _ _ _ "smem s"]) (auto simp: store_field_def mem_simps)
    then show ?thesis using i c by simp
  qed
  then obtain s2 where "scan_loop (Some ?fmt) s' =
      Some (if k > 0 \<and> nassigned s' + int (length fs) = 0 then - 1 else nassigned s' + int (length fs), s2)"
    "smem s2 = fold store_field fs (smem s')"
    using Cons.IH [of s'] Cons.prems s' by auto
  then show ?case using s' Cons.prems by (subst scan_loop.simps) auto
qed

text \<open>C40: \<^verbatim>\<open>vsscanf\<close> with a format of \<^verbatim>\<open>%d\<close> directives on a text of decimal fields (each with white space, a
sign and at most 31 characters, followed by something that is not a digit) returns the number of the
fields and stores, at the addresses given, their values, clamped to 64 bits and cut to the low 32; with
more directives than fields it stores the same and returns the number of fields, or \<^verbatim>\<open>-1\<close> when there
is none.  Nothing else in memory changes.\<close>

theorem scanf_integers:
  assumes "cstr m a (concat (map f_text fs))" "fields_ok a (a + length (concat (map f_text fs))) fs"
  shows "vsscanf junk a (concat (replicate (length fs + k) ''%d'')) (map f_dest fs @ extra) m =
    Some (if k > 0 \<and> fs = [] then - 1 else int (length fs), fold store_field fs m)"
proof -
  let ?s = "\<lparr>inp = a, inr = int (length (concat (map f_text fs))), smem = m, args = map f_dest fs @ extra,
    nassigned = 0, nconversions = 0, nread = 0, sbase = 0, ccltab = junk\<rparr>"
  obtain s' where "scan_loop (Some (concat (replicate (length fs + k) ''%d''))) ?s =
     Some (if k > 0 \<and> nassigned ?s + int (length fs) = 0 then - 1 else nassigned ?s + int (length fs), s')"
     "smem s' = fold store_field fs (smem ?s)"
    using scan_fields [OF assms(2), of ?s extra k] assms(1) by auto
  then show ?thesis using strlen_cstr [OF assms(1)] by (simp add: vsscanf_def)
qed

lemma white_eval: "white CHR '' ''"
  by (simp add: white_def isspace_def)

theorem scanf_integers_witness:
  "\<exists>m'. vsscanf (\<lambda>_. False) 8 ''%d%d%d'' [100, 200, 300] (mem_of 8 ''12 -7'') = Some (2, m') \<and>
     ld32 200 m' = - 7"
proof -
  let ?fs = "[Field [] [] ''12'' 100, Field '' '' ''-'' ''7'' 200]"
  have t: "concat (map f_text ?fs) = ''12 -7''" by (simp add: f_text_def)
  have c: "cstr (mem_of 8 ''12 -7'') 8 (concat (map f_text ?fs))" unfolding t by (rule cstr_mem_of) simp
  have ok: "fields_ok 8 (8 + length (concat (map f_text ?fs))) ?fs"
    by (simp add: field_ok_def f_text_def digits_eval white_eval)
  have r: "concat (replicate (length ?fs + 1) ''%d'') = ''%d%d%d''" by (simp add: numeral_eq_Suc)
  have v: "store_field (Field '' '' ''-'' ''7'' 200) m = st32 200 (- 7) m" for m
    by (simp add: store_field_def f_value_def clamp64_def digits_eval)
  from scanf_integers [OF c ok, of "\<lambda>_. False" 1 "[300]", unfolded r] show ?thesis
    by (simp add: v mem_simps)
qed

section \<open>Scan sets\<close>

lemma sccl_next_plain:
  "CHR '']'' \<notin> set cs \<Longrightarrow> CHR ''-'' \<notin> set cs \<Longrightarrow>
   sccl_next v c tab (cs @ CHR '']'' # fmt) = ((\<lambda>i. if i \<in> chr_int ` set cs then v else tab i), fmt)"
  by (induction cs arbitrary: c tab) (auto simp: fun_eq_iff)

text \<open>A set without ranges is the set of its characters, or their complement after a caret; the first
  character may be a bracket.\<close>

lemma sccl_plain:
  assumes "CHR '']'' \<notin> set cs" "CHR ''-'' \<notin> set cs" "c \<noteq> CHR ''^''"
  shows "sccl (c # cs @ CHR '']'' # fmt) = ((\<lambda>i. i \<in> chr_int ` set (c # cs)), fmt)"
    and "sccl (CHR ''^'' # d # cs @ CHR '']'' # fmt) = ((\<lambda>i. i \<notin> chr_int ` set (d # cs)), fmt)"
  using assms by (auto simp: sccl_def sccl_next_plain fun_eq_iff)

text \<open>The range from a character to itself takes in the character after it.\<close>

lemma sccl_degenerate_range: "fst (sccl ''a-a]'') (chr_int CHR ''b'')"
  by (simp add: sccl_def fill_range.simps)

end
