(* ===== verification/Rsp.thy ===== *)
theory Rsp
  imports Prelude
begin

text \<open>
  The remote serial protocol of the debugger stub: the conversions of \<^verbatim>\<open>vhls/src/gdbrsp/Utils.cpp\<close>, the
  packet buffer of \<^verbatim>\<open>RspPacket.cpp\<close>, and the exchange of packets over a connection in
  \<^verbatim>\<open>RspConnection.cpp\<close>.  The socket is the text still to be read, the text sent, and a predicate that
  says after which sent text a write succeeds (the socket's behaviour is not code of the program).
\<close>

section \<open>Conversions\<close>

definition char2Hex :: "char \<Rightarrow> u8" where
  "char2Hex c =
     (if CHR ''a'' \<le> c \<and> c \<le> CHR ''f'' then word_of_int (chr_int c - chr_int CHR ''a'' + 10)
      else if CHR ''0'' \<le> c \<and> c \<le> CHR ''9'' then word_of_int (chr_int c - chr_int CHR ''0'')
      else if CHR ''A'' \<le> c \<and> c \<le> CHR ''F'' then word_of_int (chr_int c - chr_int CHR ''A'' + 10)
      else - 1)"

definition hex2Char :: "u8 \<Rightarrow> char" where
  "hex2Char d = (if d < 16 then ''0123456789abcdef'' ! unat d else NUL)"

text \<open>The loop runs with \<open>n\<close> = 7, 5, 3, 1 and writes two characters, lowest byte first.\<close>

primrec reg2Hex_loop :: "nat \<Rightarrow> u32 \<Rightarrow> string" where
  "reg2Hex_loop 0 val = []"
| "reg2Hex_loop (Suc n) val =
     hex2Char (ucast (drop_bit 4 val AND 0xF)) # hex2Char (ucast (val AND 0xF)) # reg2Hex_loop n (val div 256)"

definition reg2Hex :: "u32 \<Rightarrow> string" where "reg2Hex val = reg2Hex_loop 4 val"

definition hex2Reg :: "string \<Rightarrow> u32" where
  "hex2Reg buf = foldl (\<lambda>val c. val * 16 + ucast (char2Hex c)) 0 (take 8 buf)"

definition ascii2Hex :: "string \<Rightarrow> string" where
  "ascii2Hex src = concat (map (\<lambda>ch. [hex2Char (word_of_int (chr_int ch div 16)), hex2Char (word_of_int (chr_int ch mod 16))]) src)"

fun hex2Ascii :: "string \<Rightarrow> string" where
  "hex2Ascii (a # b # cs) =
     int_chr (uint (push_bit 4 (char2Hex a AND 0xF) OR (char2Hex b AND 0xF))) # hex2Ascii cs"
| "hex2Ascii _ = []"

definition chr_xor :: "char \<Rightarrow> int \<Rightarrow> char" where "chr_xor c k = int_chr (chr_int c XOR k)"

text \<open>Undoing the escapes in place; reading past the buffer is \<open>None\<close>.\<close>

function rspUnescape_loop :: "nat \<Rightarrow> nat \<Rightarrow> nat \<Rightarrow> string \<Rightarrow> (nat \<times> string) option" where
  "rspUnescape_loop len from_off to_off buf =
     (if from_off < len then
        (if length buf \<le> from_off then None
         else if buf ! from_off = CHR 0x7D then
           (if length buf \<le> from_off + 1 then None
            else rspUnescape_loop len (from_off + 2) (to_off + 1) (buf[to_off := chr_xor (buf ! (from_off + 1)) 0x20]))
         else rspUnescape_loop len (from_off + 1) (to_off + 1) (buf[to_off := buf ! from_off]))
      else Some (to_off, buf))"
  by pat_completeness auto
termination by (relation "measure (\<lambda>(len, from_off, _). len - from_off)") auto

declare rspUnescape_loop.simps [simp del]

definition rspUnescape :: "string \<Rightarrow> nat \<Rightarrow> (nat \<times> string) option" where
  "rspUnescape buf len = rspUnescape_loop len 0 0 buf"

section \<open>Packets and the connection\<close>

record rsp_packet =
  pdata :: string
  plen :: nat

definition packStr :: "string \<Rightarrow> rsp_packet \<Rightarrow> rsp_packet option" where
  "packStr str pkt =
     (let slen = (if length str \<ge> length (pdata pkt) then length (pdata pkt) - 1 else length str)
      in if pdata pkt = [] then None
         else Some (pkt\<lparr>pdata := take slen str @ NUL # drop (slen + 1) (pdata pkt), plen := slen\<rparr>))"

record rsp_conn =
  client :: bool
  incoming :: string
  sent :: string
  write_ok :: "string \<Rightarrow> bool"

definition putRspChar :: "char \<Rightarrow> rsp_conn \<Rightarrow> bool \<times> rsp_conn" where
  "putRspChar c k =
     (if \<not> client k \<or> \<not> write_ok k (sent k) then (False, k) else (True, k\<lparr>sent := sent k @ [c]\<rparr>))"

definition getRspChar :: "rsp_conn \<Rightarrow> char option \<times> rsp_conn" where
  "getRspChar k =
     (if \<not> client k then (None, k)
      else (case incoming k of [] \<Rightarrow> (None, k) | c # cs \<Rightarrow> (Some c, k\<lparr>incoming := cs\<rparr>)))"

text \<open>Sending several characters, as long as the writes succeed.\<close>

fun putRspChars :: "string \<Rightarrow> rsp_conn \<Rightarrow> bool \<times> rsp_conn" where
  "putRspChars [] k = (True, k)"
| "putRspChars (c # cs) k =
     (case putRspChar c k of (ok, k1) \<Rightarrow> if ok then putRspChars cs k1 else (False, k1))"

definition escaped :: "char \<Rightarrow> bool" where
  "escaped c \<longleftrightarrow> c = CHR ''$'' \<or> c = CHR 0x23 \<or> c = CHR ''*'' \<or> c = CHR 0x7D"

definition chr_byte :: "char \<Rightarrow> u8" where "chr_byte c = word_of_int (chr_int c)"

text \<open>The body of a packet: the loop sends each character, escaped if need be, and sums up.\<close>

fun put_body :: "string \<Rightarrow> u8 \<Rightarrow> rsp_conn \<Rightarrow> (u8 \<times> rsp_conn) + rsp_conn" where
  "put_body [] checksum k = Inl (checksum, k)"
| "put_body (c # cs) checksum k =
     (if escaped c then
        (case putRspChar (CHR 0x7D) k of (ok, k1) \<Rightarrow>
           if \<not> ok then Inr k1
           else (case putRspChar (chr_xor c 0x20) k1 of (ok, k2) \<Rightarrow>
                   if \<not> ok then Inr k2
                   else put_body cs (checksum + chr_byte (CHR 0x7D) + chr_byte (chr_xor c 0x20)) k2))
      else (case putRspChar c k of (ok, k1) \<Rightarrow>
              if \<not> ok then Inr k1 else put_body cs (checksum + chr_byte c) k1))"

partial_function (option) putPkt :: "rsp_packet \<Rightarrow> rsp_conn \<Rightarrow> (bool \<times> rsp_conn) option" where
  "putPkt pkt k =
     (case putRspChar (CHR ''$'') k of (ok, k1) \<Rightarrow>
        if \<not> ok then Some (False, k1)
        else (case put_body (take (plen pkt) (pdata pkt)) 0 k1 of
                Inr k2 \<Rightarrow> Some (False, k2)
              | Inl (checksum, k2) \<Rightarrow>
                  (case putRspChars [CHR 0x23, hex2Char (drop_bit 4 checksum), hex2Char (checksum mod 16)] k2 of
                     (ok, k3) \<Rightarrow>
                       if \<not> ok then Some (False, k3)
                       else (case getRspChar k3 of
                               (None, k4) \<Rightarrow> Some (False, k4)
                             | (Some ch, k4) \<Rightarrow> if ch \<noteq> CHR ''+'' then putPkt pkt k4 else Some (True, k4)))))"

text \<open>Receiving.  \<open>get_start\<close> skips to a dollar; \<open>get_body\<close> reads up to the hash or a full buffer, and
  starts again at a dollar.  Its result says whether it saw the hash.\<close>

fun get_start :: "string \<Rightarrow> string option" where
  "get_start [] = None"
| "get_start (c # cs) = (if c = CHR ''$'' then Some cs else get_start cs)"

datatype got = Lost string | Ended bool u8 nat string string

fun get_body :: "string \<Rightarrow> nat \<Rightarrow> u8 \<Rightarrow> string \<Rightarrow> got" where
  "get_body buf count checksum [] =
     (if count + 1 < length buf then Lost buf else Ended False checksum count buf [])"
| "get_body buf count checksum (c # cs) =
     (if count + 1 < length buf then
        (if c = CHR ''$'' then get_body buf 0 0 cs
         else if c = CHR 0x23 then Ended True checksum count buf cs
         else get_body (buf[count := c]) (count + 1) (checksum + chr_byte c) cs)
      else Ended False checksum count buf (c # cs))"

partial_function (option) getPkt :: "rsp_packet \<Rightarrow> rsp_conn \<Rightarrow> (bool \<times> rsp_packet \<times> rsp_conn) option" where
  "getPkt pkt k =
     (case (if client k then get_start (incoming k) else None) of
        None \<Rightarrow> Some (False, pkt, if client k then k\<lparr>incoming := []\<rparr> else k)
      | Some cs \<Rightarrow>
          (case get_body (pdata pkt) 0 0 cs of
             Lost buf \<Rightarrow> Some (False, pkt\<lparr>pdata := buf\<rparr>, k\<lparr>incoming := []\<rparr>)
           | Ended hash checksum count buf rest \<Rightarrow>
               if length buf \<le> count then None
               else
                 (let pkt1 = pkt\<lparr>pdata := buf[count := NUL], plen := count\<rparr>;
                      k1 = k\<lparr>incoming := rest\<rparr>
                  in if hash then
                       (case rest of
                          a # b # rest2 \<Rightarrow>
                            (let k2 = k1\<lparr>incoming := rest2\<rparr> in
                             if checksum \<noteq> push_bit 4 (char2Hex a) + char2Hex b then
                               (case putRspChar (CHR ''-'') k2 of (ok, k3) \<Rightarrow>
                                  if ok then getPkt pkt1 k3 else Some (False, pkt1, k3))
                             else
                               (case putRspChar (CHR ''+'') k2 of (ok, k3) \<Rightarrow> Some (ok, pkt1, k3)))
                        | _ \<Rightarrow> Some (False, pkt1, k1\<lparr>incoming := []\<rparr>))
                     else getPkt pkt1 k1)))"

section \<open>The wire format\<close>

text \<open>References: the escaped text, its sum, and the frame around it.\<close>

definition esc :: "string \<Rightarrow> string" where
  "esc d = concat (map (\<lambda>c. if escaped c then [CHR 0x7D, chr_xor c 0x20] else [c]) d)"

definition byte_sum :: "string \<Rightarrow> u8" where "byte_sum cs = sum_list (map chr_byte cs)"

definition wire :: "string \<Rightarrow> char \<Rightarrow> char \<Rightarrow> string" where
  "wire body a b = CHR ''$'' # body @ [CHR 0x23, a, b]"

definition frame :: "string \<Rightarrow> string" where
  "frame d = wire (esc d) (hex2Char (drop_bit 4 (byte_sum (esc d)))) (hex2Char (byte_sum (esc d) mod 16))"

lemma esc_simps [simp]:
  "esc [] = []" "esc (c # d) = (if escaped c then [CHR 0x7D, chr_xor c 0x20] else [c]) @ esc d"
  by (simp_all add: esc_def)

lemma byte_sum_simps [simp]:
  "byte_sum [] = 0" "byte_sum (c # d) = chr_byte c + byte_sum d" "byte_sum (cs @ ds) = byte_sum cs + byte_sum ds"
  by (simp_all add: byte_sum_def)

lemma escaped_xor:
  assumes "escaped c"
  shows "chr_xor (chr_xor c 0x20) 0x20 = c" "chr_xor c 0x20 \<noteq> CHR ''$''" "chr_xor c 0x20 \<noteq> CHR 0x23"
proof -
  have "\<forall>c\<in>set [CHR ''$'', CHR 0x23, CHR ''*'', CHR 0x7D].
      chr_xor (chr_xor c 0x20) 0x20 = c \<and> chr_xor c 0x20 \<noteq> CHR ''$'' \<and> chr_xor c 0x20 \<noteq> CHR 0x23"
    by code_simp
  then show "chr_xor (chr_xor c 0x20) 0x20 = c" "chr_xor c 0x20 \<noteq> CHR ''$''" "chr_xor c 0x20 \<noteq> CHR 0x23"
    using assms by (auto simp: escaped_def)
qed

lemma esc_plain: "CHR ''$'' \<notin> set (esc d)" "CHR 0x23 \<notin> set (esc d)"
  by (induction d) (auto simp: escaped_xor dest: escaped_xor(2,3) [THEN not_sym], auto simp: escaped_def)

lemma length_esc: "length d \<le> length (esc d)"
  by (induction d) auto

lemma hex_digit_back: "d < 16 \<Longrightarrow> char2Hex (hex2Char d) = d"
proof -
  have "\<forall>n\<in>set [0..<16]. char2Hex (''0123456789abcdef'' ! n) = word_of_nat n" by code_simp
  moreover assume d: "d < 16"
  moreover have "unat d < 16" using d by (simp add: word_less_nat_alt)
  ultimately show ?thesis by (simp add: hex2Char_def)
qed

lemma nibbles: "push_bit 4 (drop_bit 4 x) + x mod 16 = (x :: u8)" "drop_bit 4 x < (16 :: u8)" "x mod 16 < (16 :: u8)"
proof -
  have "take_bit 4 x = x mod 16" by (simp add: take_bit_eq_mod)
  then show "push_bit 4 (drop_bit 4 x) + x mod 16 = x" using bits_ident [of 4 x] by (simp only:)
  have "unat x < 256" using unsigned_less [of x, where ?'a = nat] by simp
  then show "drop_bit 4 x < (16 :: u8)" by (simp add: word_less_nat_alt drop_bit_eq_div unat_div)
  show "x mod 16 < (16 :: u8)" by (simp add: word_less_nat_alt unat_mod)
qed

lemma checksum_back:
  "push_bit 4 (char2Hex (hex2Char (drop_bit 4 x))) + char2Hex (hex2Char (x mod 16)) = x"
  by (simp add: hex_digit_back nibbles)

section \<open>Undoing the escapes\<close>

lemma unescape_esc:
  "to_off \<le> from_off \<Longrightarrow> len \<le> length buf \<Longrightarrow> from_off \<le> len \<Longrightarrow> drop from_off (take len buf) = esc d \<Longrightarrow>
   \<exists>buf'. rspUnescape_loop len from_off to_off buf = Some (to_off + length d, buf') \<and>
     take (to_off + length d) buf' = take to_off buf @ d \<and> length buf' = length buf"
proof (induction d arbitrary: from_off to_off buf)
  case Nil
  then show ?case by (subst rspUnescape_loop.simps) auto
next
  case (Cons c d)
  have f: "from_off < len" using Cons.prems by (cases "from_off = len") (auto split: if_splits)
  have hd: "drop from_off (take len buf) = buf ! from_off # drop (Suc from_off) (take len buf)"
    using f Cons.prems(2) Cons_nth_drop_Suc [of from_off "take len buf"] by simp
  show ?case
  proof (cases "escaped c")
    case True
    then have b: "buf ! from_off = CHR 0x7D" "drop (Suc from_off) (take len buf) = chr_xor c 0x20 # esc d"
      using Cons.prems(4) hd by auto
    then have f2: "Suc from_off < len" by (cases "Suc from_off = len") (use f in auto)
    then have b2: "buf ! Suc from_off = chr_xor c 0x20" "drop (from_off + 2) (take len buf) = esc d"
      using b(2) Cons.prems(2) Cons_nth_drop_Suc [of "Suc from_off" "take len buf"] by auto
    let ?buf = "buf[to_off := c]"
    have "drop (from_off + 2) (take len ?buf) = esc d"
      using b2(2) Cons.prems(1) by (simp add: take_update_swap drop_update_cancel)
    from Cons.IH [OF _ _ _ this, of "to_off + 1"] f2 Cons.prems(1,2) show ?thesis
      using f b b2 True escaped_xor(1) [OF True]
      by (subst rspUnescape_loop.simps) (auto simp: take_Suc_conv_app_nth)
  next
    case False
    then have b: "buf ! from_off = c" "drop (Suc from_off) (take len buf) = esc d" "c \<noteq> CHR 0x7D"
      using Cons.prems(4) hd by (auto simp: escaped_def)
    let ?buf = "buf[to_off := c]"
    have "drop (from_off + 1) (take len ?buf) = esc d"
      using b(2) Cons.prems(1) by (simp add: take_update_swap drop_update_cancel)
    from Cons.IH [OF _ _ _ this, of "to_off + 1"] f Cons.prems(1,2) show ?thesis
      using b by (subst rspUnescape_loop.simps) (auto simp: take_Suc_conv_app_nth)
  qed
qed

lemma rspUnescape_esc:
  "length (esc d) \<le> length buf \<Longrightarrow> take (length (esc d)) buf = esc d \<Longrightarrow>
   \<exists>buf'. rspUnescape buf (length (esc d)) = Some (length d, buf') \<and> take (length d) buf' = d"
  using unescape_esc [of 0 0 "length (esc d)" buf d] by (auto simp: rspUnescape_def)

section \<open>Sending\<close>

definition link_up :: "rsp_conn \<Rightarrow> bool" where
  "link_up k \<longleftrightarrow> client k \<and> (\<forall>s. write_ok k s)"

lemma putRspChar_up: "link_up k \<Longrightarrow> putRspChar c k = (True, k\<lparr>sent := sent k @ [c]\<rparr>)"
  by (simp add: link_up_def putRspChar_def)

lemma link_up_sent [simp]: "link_up (k\<lparr>sent := s\<rparr>) = link_up k" "link_up (k\<lparr>incoming := s\<rparr>) = link_up k"
  by (simp_all add: link_up_def)

lemma conn_swap [simp]: "k\<lparr>sent := x, incoming := y\<rparr> = k\<lparr>incoming := y, sent := x\<rparr>"
  by (cases k) simp

lemma putRspChars_up: "link_up k \<Longrightarrow> putRspChars cs k = (True, k\<lparr>sent := sent k @ cs\<rparr>)"
  by (induction cs arbitrary: k) (simp_all add: putRspChar_up)

lemma put_body_up:
  "link_up k \<Longrightarrow> put_body d ck k = Inl (ck + byte_sum (esc d), k\<lparr>sent := sent k @ esc d\<rparr>)"
  by (induction d arbitrary: ck k) (simp_all add: putRspChar_up add.assoc)

lemma putPkt_acks:
  assumes "link_up k" "take (plen pkt) (pdata pkt) = d" "CHR ''+'' \<notin> set acks" "incoming k = acks @ CHR ''+'' # rest"
  shows "putPkt pkt k =
    Some (True, k\<lparr>incoming := rest, sent := sent k @ concat (replicate (Suc (length acks)) (frame d))\<rparr>)"
  using assms
proof (induction acks arbitrary: k)
  case Nil
  have "client k" using Nil.prems(1) by (simp add: link_up_def)
  with Nil show ?case
    by (subst putPkt.simps)
      (simp add: putRspChar_up put_body_up putRspChars_up getRspChar_def frame_def wire_def del: putRspChars.simps)
next
  case (Cons a acks)
  let ?k = "k\<lparr>incoming := acks @ CHR ''+'' # rest, sent := sent k @ frame d\<rparr>"
  have "client k" "a \<noteq> CHR ''+''" using Cons.prems by (auto simp: link_up_def)
  then have "putPkt pkt k = putPkt pkt ?k" using Cons.prems
    by (subst putPkt.simps)
      (simp add: putRspChar_up put_body_up putRspChars_up getRspChar_def frame_def wire_def del: putRspChars.simps)
  also have "\<dots> = Some (True, ?k\<lparr>incoming := rest, sent := sent ?k @ concat (replicate (Suc (length acks)) (frame d))\<rparr>)"
    using Cons.prems by (intro Cons.IH) auto
  finally show ?case by simp
qed

section \<open>Receiving\<close>

lemma get_start_skip: "CHR ''$'' \<notin> set noise \<Longrightarrow> get_start (noise @ cs) = get_start cs"
  by (induction noise) auto

lemma get_body_plain:
  "CHR ''$'' \<notin> set body \<Longrightarrow> CHR 0x23 \<notin> set body \<Longrightarrow> n + length body + 1 < length buf \<Longrightarrow>
   get_body buf n ck (body @ CHR 0x23 # cs) =
     Ended True (ck + byte_sum body) (n + length body)
       (take n buf @ body @ drop (n + length body) buf) cs"
proof (induction body arbitrary: buf n ck)
  case (Cons c body)
  have "get_body (buf[n := c]) (n + 1) (ck + chr_byte c) (body @ CHR 0x23 # cs) =
     Ended True (ck + chr_byte c + byte_sum body) (n + 1 + length body)
       (take (n + 1) (buf[n := c]) @ body @ drop (n + 1 + length body) (buf[n := c])) cs"
    using Cons.prems by (intro Cons.IH) auto
  moreover have "take (Suc n) (buf[n := c]) = take n buf @ [c]"
    using Cons.prems(3) by (simp add: take_Suc_conv_app_nth)
  moreover have "c \<noteq> CHR ''$''" "c \<noteq> CHR 0x23" using Cons.prems by auto
  ultimately show ?case using Cons.prems by (simp add: add.assoc)
qed simp

text \<open>A frame whose checksum is wrong.\<close>

definition spoilt :: "nat \<Rightarrow> string \<times> char \<times> char \<Rightarrow> bool" where
  "spoilt N w = (case w of (body, a, b) \<Rightarrow> CHR ''$'' \<notin> set body \<and> CHR 0x23 \<notin> set body \<and>
     length body + 1 < N \<and> byte_sum body \<noteq> push_bit 4 (char2Hex a) + char2Hex b)"

lemma getPkt_frame:
  assumes "link_up k" "CHR ''$'' \<notin> set noise" "CHR ''$'' \<notin> set body" "CHR 0x23 \<notin> set body"
    and "length body + 1 < length (pdata pkt)" "incoming k = noise @ wire body a b @ rest"
  defines "pkt1 \<equiv> \<lparr>pdata = body @ NUL # drop (length body + 1) (pdata pkt), plen = length body\<rparr>"
  shows "byte_sum body = push_bit 4 (char2Hex a) + char2Hex b \<Longrightarrow>
      getPkt pkt k = Some (True, pkt1, k\<lparr>incoming := rest, sent := sent k @ ''+''\<rparr>)"
    and "byte_sum body \<noteq> push_bit 4 (char2Hex a) + char2Hex b \<Longrightarrow>
      getPkt pkt k = getPkt pkt1 (k\<lparr>incoming := rest, sent := sent k @ ''-''\<rparr>)"
proof -
  have c: "client k" using assms(1) by (simp add: link_up_def)
  have s: "get_start (incoming k) = Some (body @ CHR 0x23 # a # b # rest)"
    using assms(2,6) by (simp add: get_start_skip wire_def)
  have u: "(body @ drop (length body) (pdata pkt))[length body := NUL] = pdata pkt1"
    using assms(5) by (simp add: pkt1_def list_update_append drop_update_cancel Cons_nth_drop_Suc [symmetric])
  have p: "pkt\<lparr>pdata := pdata pkt1, plen := length body\<rparr> = pkt1" by (simp add: pkt1_def)
  note g = get_body_plain [OF assms(3,4), of 0 "pdata pkt" 0, simplified, OF assms(5) [simplified]]
  show "byte_sum body = push_bit 4 (char2Hex a) + char2Hex b \<Longrightarrow>
      getPkt pkt k = Some (True, pkt1, k\<lparr>incoming := rest, sent := sent k @ ''+''\<rparr>)"
    using assms(1,5) c u p by (subst getPkt.simps) (simp add: s g putRspChar_up)
  show "byte_sum body \<noteq> push_bit 4 (char2Hex a) + char2Hex b \<Longrightarrow>
      getPkt pkt k = getPkt pkt1 (k\<lparr>incoming := rest, sent := sent k @ ''-''\<rparr>)"
    using assms(1,5) c u p by (subst getPkt.simps) (simp add: s g putRspChar_up)
qed

text \<open>Any number of spoilt frames and then an intact one.\<close>

lemma getPkt_retries:
  assumes "link_up r" "CHR ''$'' \<notin> set noise" "list_all (spoilt (length (pdata q))) bads"
    and "length (esc d) + 1 < length (pdata q)"
    and "incoming r = noise @ concat (map (\<lambda>(body, a, b). wire body a b) bads) @ frame d @ rest"
  shows "\<exists>q'. getPkt q r = Some (True, q', r\<lparr>incoming := rest,
      sent := sent r @ replicate (length bads) CHR ''-'' @ ''+''\<rparr>) \<and>
    plen q' = length (esc d) \<and> take (length (esc d)) (pdata q') = esc d \<and> length (esc d) \<le> length (pdata q')"
  using assms
proof (induction bads arbitrary: q r noise)
  case Nil
  let ?s = "byte_sum (esc d)"
  have "incoming r = noise @ wire (esc d) (hex2Char (drop_bit 4 ?s)) (hex2Char (?s mod 16)) @ rest"
    using Nil.prems(5) by (simp add: frame_def)
  from getPkt_frame(1) [OF Nil.prems(1,2) esc_plain Nil.prems(4) this checksum_back [symmetric]]
  show ?case using Nil.prems(4) by simp
next
  case (Cons w bads)
  obtain body a b where w: "w = (body, a, b)" by (cases w)
  have sp: "CHR ''$'' \<notin> set body" "CHR 0x23 \<notin> set body" "length body + 1 < length (pdata q)"
    "byte_sum body \<noteq> push_bit 4 (char2Hex a) + char2Hex b"
    using Cons.prems(3) by (simp_all add: w spoilt_def)
  let ?rest = "concat (map (\<lambda>(body, a, b). wire body a b) bads) @ frame d @ rest"
  let ?q = "\<lparr>pdata = body @ NUL # drop (length body + 1) (pdata q), plen = length body\<rparr>"
  let ?r = "r\<lparr>incoming := ?rest, sent := sent r @ ''-''\<rparr>"
  have "incoming r = noise @ wire body a b @ ?rest" using Cons.prems(5) by (simp add: w)
  from getPkt_frame(2) [OF Cons.prems(1,2) sp(1,2,3) this sp(4)] have "getPkt q r = getPkt ?q ?r" .
  moreover have len: "length (pdata ?q) = length (pdata q)" using sp(3) by simp
  have "\<exists>q'. getPkt ?q ?r = Some (True, q', ?r\<lparr>incoming := rest,
      sent := sent ?r @ replicate (length bads) CHR ''-'' @ ''+''\<rparr>) \<and>
    plen q' = length (esc d) \<and> take (length (esc d)) (pdata q') = esc d \<and> length (esc d) \<le> length (pdata q')"
  proof (rule Cons.IH)
    show "list_all (spoilt (length (pdata ?q))) bads" unfolding len using Cons.prems(3) by simp
    show "length (esc d) + 1 < length (pdata ?q)" unfolding len by (rule Cons.prems(4))
    show "incoming ?r = [] @ ?rest" by simp
  qed (use Cons.prems(1) in simp_all)
  ultimately show ?case by simp
qed

text \<open>C36: A packet crosses an unreliable link unchanged.  When any number of its transmissions arrive
spoilt (some body and checksum characters that do not match) and one arrives intact, after noise
without a start character, the receiver answers each spoilt one with a minus and the intact one with
a plus; the sender that reads these answers sends the frame once per answer and both report success;
and undoing the escapes in the receiver's buffer gives the data the sender's packet held, whatever
its bytes are.\<close>

theorem rsp_exchange:
  assumes "link_up k" "link_up r" "take (plen pkt) (pdata pkt) = d"
    and "incoming k = replicate (length bads) CHR ''-'' @ CHR ''+'' # acks"
    and "CHR ''$'' \<notin> set noise" "list_all (spoilt (length (pdata q))) bads"
    and "length (esc d) + 1 < length (pdata q)"
    and "incoming r = noise @ concat (map (\<lambda>(body, a, b). wire body a b) bads) @ frame d @ rest"
  shows "\<exists>q' buf. putPkt pkt k = Some (True, k\<lparr>incoming := acks,
      sent := sent k @ concat (replicate (Suc (length bads)) (frame d))\<rparr>) \<and>
    getPkt q r = Some (True, q', r\<lparr>incoming := rest,
      sent := sent r @ replicate (length bads) CHR ''-'' @ ''+''\<rparr>) \<and>
    rspUnescape (pdata q') (plen q') = Some (length d, buf) \<and> take (length d) buf = d"
proof -
  obtain q' where q: "getPkt q r = Some (True, q', r\<lparr>incoming := rest,
      sent := sent r @ replicate (length bads) CHR ''-'' @ ''+''\<rparr>)"
    "plen q' = length (esc d)" "take (length (esc d)) (pdata q') = esc d" "length (esc d) \<le> length (pdata q')"
    using getPkt_retries [OF assms(2,5-8)] by blast
  have "putPkt pkt k = Some (True, k\<lparr>incoming := acks,
      sent := sent k @ concat (replicate (Suc (length (replicate (length bads) CHR ''-''))) (frame d))\<rparr>)"
    by (rule putPkt_acks [OF assms(1,3) _ assms(4)]) simp
  moreover have "\<exists>buf. rspUnescape (pdata q') (length (esc d)) = Some (length d, buf) \<and> take (length d) buf = d"
    using q(3,4) assms(7) by (intro rspUnescape_esc) simp_all
  ultimately show ?thesis using q(1,2) by auto
qed

theorem rsp_exchange_witness:
  "\<exists>q' buf.
     getPkt \<lparr>pdata = replicate 20 NUL, plen = 0\<rparr>
       \<lparr>client = True, incoming = ''x'' @ wire ''OJ'' CHR ''0'' CHR ''0'' @ frame ''O}K'' @ ''z'', sent = [],
        write_ok = (\<lambda>_. True)\<rparr> =
       Some (True, q', \<lparr>client = True, incoming = ''z'', sent = ''-+'', write_ok = (\<lambda>_. True)\<rparr>) \<and>
     rspUnescape (pdata q') (plen q') = Some (3, buf) \<and> take 3 buf = ''O}K''"
proof -
  let ?k = "\<lparr>client = True, incoming = ''-+'', sent = [], write_ok = (\<lambda>_. True)\<rparr>"
  let ?r = "\<lparr>client = True, incoming = ''x'' @ wire ''OJ'' CHR ''0'' CHR ''0'' @ frame ''O}K'' @ ''z'', sent = [],
        write_ok = (\<lambda>_. True)\<rparr>"
  let ?bads = "[(''OJ'', CHR ''0'', CHR ''0'')]"
  have u: "link_up ?k" "link_up ?r" by (simp_all add: link_up_def)
  have s: "byte_sum ''OJ'' \<noteq> push_bit 4 (char2Hex CHR ''0'') + char2Hex CHR ''0''" by code_simp
  have b: "list_all (spoilt (length (replicate 20 NUL))) ?bads" using s by (simp add: spoilt_def)
  have l: "length (esc ''O}K'') + 1 < length (pdata \<lparr>pdata = replicate 20 NUL, plen = 0\<rparr>)"
    by (simp add: escaped_def)
  have "\<exists>q' buf. putPkt \<lparr>pdata = ''O}K'', plen = 3\<rparr> ?k = Some (True, ?k\<lparr>incoming := [],
      sent := sent ?k @ concat (replicate (Suc (length ?bads)) (frame ''O}K''))\<rparr>) \<and>
    getPkt \<lparr>pdata = replicate 20 NUL, plen = 0\<rparr> ?r = Some (True, q', ?r\<lparr>incoming := ''z'',
      sent := sent ?r @ replicate (length ?bads) CHR ''-'' @ ''+''\<rparr>) \<and>
    rspUnescape (pdata q') (plen q') = Some (length ''O}K'', buf) \<and> take (length ''O}K'') buf = ''O}K''"
    by (rule rsp_exchange [OF u _ _ _ _ l, of _ _ _ "''x''"]) (use b in \<open>simp_all add: wire_def\<close>)
  then show ?thesis by (auto simp: numeral_3_eq_3)
qed

section \<open>Registers and texts\<close>

lemma and_15: "w AND 0xF = w mod (16 :: u32)"
proof -
  have "w AND mask 4 = w mod 2 ^ 4" by (simp only: take_bit_eq_mask [symmetric] take_bit_eq_mod)
  then show ?thesis by (simp add: mask_eq_exp_minus_1)
qed

lemma nibble_back: "ucast (char2Hex (hex2Char (ucast (w AND 0xF :: u32)))) = w AND 0xF"
proof -
  have n: "unat (w mod 16) < 16" by (simp add: unat_mod)
  then have u: "unat (ucast (w mod 16) :: u8) = unat (w mod 16)"
    by (simp add: unsigned_ucast_eq take_bit_eq_mod unat_mod)
  then have "(ucast (w mod 16) :: u8) < 16" using n by (simp add: word_less_nat_alt)
  then have "char2Hex (hex2Char (ucast (w mod 16))) = ucast (w mod 16)" by (rule hex_digit_back)
  moreover have "unat (ucast (ucast (w mod 16) :: u8) :: u32) = unat (w mod 16)"
    using u n by (simp add: unsigned_ucast_eq take_bit_eq_mod unat_mod)
  then have "(ucast (ucast (w mod 16) :: u8) :: u32) = w mod 16" by (simp add: word_unat_eq_iff)
  ultimately show ?thesis unfolding and_15 by simp
qed

lemma nibble_pair: "(drop_bit 4 w AND 0xF) * 16 + (w AND 0xF) = (w mod 256 :: u32)"
proof -
  have m: "unat w div 16 mod 16 * 16 + unat w mod 16 = unat w mod 256"
    using mod_mult2_eq [of "unat w" 16 16] by simp
  have h: "unat (w div 16 mod 16 * 16) = unat w div 16 mod 16 * 16"
    by (simp only: unat_word_ariths(2) unat_mod unat_div) simp
  have "unat (w div 16 mod 16 * 16 + w mod 16) = unat w mod 256"
    by (simp only: unat_word_ariths(1) h unat_mod unat_div) (simp add: m)
  then have "w div 16 mod 16 * 16 + w mod 16 = w mod 256"
    by (intro word_unat_eq_iff [THEN iffD2]) (simp add: unat_mod)
  then show ?thesis by (simp add: and_15 drop_bit_eq_div)
qed

lemma two_nibbles: "(x * 16 + h) * 16 + l = x * 256 + (h * 16 + l :: u32)"
  by (simp add: algebra_simps)

text \<open>The two register conversions are not inverse to each other: \<^verbatim>\<open>reg2Hex\<close> prints the bytes of a word
lowest first and \<^verbatim>\<open>hex2Reg\<close> reads them highest first, so that a register written back as it was read
comes back with its four bytes reversed.\<close>

theorem register_bytes_reversed:
  "hex2Reg (reg2Hex v) =
     ((v mod 256 * 256 + v div 256 mod 256) * 256 + v div 256 div 256 mod 256) * 256 + v div 256 div 256 div 256 mod 256"
proof -
  have d: "reg2Hex v = concat (map (\<lambda>w. [hex2Char (ucast (drop_bit 4 w AND 0xF)), hex2Char (ucast (w AND 0xF))])
      [v, v div 256, v div 256 div 256, v div 256 div 256 div 256])"
    by (simp add: reg2Hex_def numeral_eq_Suc)
  have h: "hex2Reg [a, b, c, d, e, f, g, h] =
      (((ucast (char2Hex a) * 16 + ucast (char2Hex b)) * 256 + (ucast (char2Hex c) * 16 + ucast (char2Hex d))) * 256 +
        (ucast (char2Hex e) * 16 + ucast (char2Hex f))) * 256 + (ucast (char2Hex g) * 16 + ucast (char2Hex h))"
    for a b c d e f g h
    unfolding hex2Reg_def by (simp add: two_nibbles [symmetric] del: add_mult_distrib)
  show ?thesis unfolding d list.map concat.simps append.simps h nibble_back nibble_pair by (rule refl)
qed

end
