(* ===== verification/Predictor.thy ===== *)
theory Predictor
  imports Prelude
begin

text \<open>
  The branch predictor of the simulated processors, \<^verbatim>\<open>vhls/src/tenos/generic_branch_predictor.cpp\<close>: a
  tournament of a local and a global predictor, a table of targets for computed jumps and a circular
  stack of return addresses.  An index outside a table is \<open>None\<close>.  The reports are left out.
\<close>

section \<open>The code\<close>

record predict_entry =
  tornament :: u8
  history_history :: u8
  global_path_prediction :: bool

record predictor_stats =
  computed_jumps :: u64
  computed_jump_mispredicts :: u64
  pop_jumps :: u64
  pop_jump_mispredicts :: u64
  simp_operations :: u64
  simp_mispredicts :: u64
  simp_taken :: u64
  simp_local_misses :: u64
  simp_global_misses :: u64
  simp_torns_glob :: u64
  simp_torns_loc :: u64

record predictor =
  btb_table :: "u32 list"
  history_table :: "predict_entry list"
  global_history :: u16
  local_hist_enabled :: bool
  global_path_enabled :: bool
  uncollected_penalties :: u64
  return_stack_pointer :: nat
  return_stack :: "u32 list"
  stats :: predictor_stats

definition BP_TORNAMENT_MAX :: u8 where "BP_TORNAMENT_MAX = 15"
definition BP_LOCAL_HIST_MASK :: u8 where "BP_LOCAL_HIST_MASK = 3"
definition RSTACK_ENTRIES :: nat where "RSTACK_ENTRIES = 8"

definition stats_reset :: predictor_stats where
  "stats_reset = \<lparr>computed_jumps = 0, computed_jump_mispredicts = 0, pop_jumps = 0, pop_jump_mispredicts = 0,
     simp_operations = 0, simp_mispredicts = 0, simp_taken = 0, simp_local_misses = 0, simp_global_misses = 0,
     simp_torns_glob = 0, simp_torns_loc = 0\<rparr>"

definition new_entry :: predict_entry where
  "new_entry = \<lparr>tornament = BP_TORNAMENT_MAX div 2, history_history = 0, global_path_prediction = False\<rparr>"

text \<open>The constructor; \<open>g\<close> is what the uninitialised return stack holds.\<close>

definition new_predictor :: "nat \<Rightarrow> nat \<Rightarrow> u32 list \<Rightarrow> predictor" where
  "new_predictor logsize history_capacity g =
     \<lparr>btb_table = replicate (2 ^ logsize) 0, history_table = replicate history_capacity new_entry,
       global_history = 0, local_hist_enabled = True, global_path_enabled = True, uncollected_penalties = 0,
       return_stack_pointer = 0, return_stack = g, stats = stats_reset\<rparr>"

definition collect_penalties :: "predictor \<Rightarrow> u64 \<times> predictor" where
  "collect_penalties s = (uncollected_penalties s, s\<lparr>uncollected_penalties := 0\<rparr>)"

text \<open>The pointer is decremented as a signed integer and masked, so that 0 becomes 7.\<close>

definition stack_down :: "predictor \<Rightarrow> predictor" where
  "stack_down s = s\<lparr>return_stack_pointer := (return_stack_pointer s + RSTACK_ENTRIES - 1) mod RSTACK_ENTRIES\<rparr>"

definition penalise :: "predictor \<Rightarrow> predictor" where
  "penalise s = s\<lparr>uncollected_penalties := uncollected_penalties s + 1\<rparr>"

definition upd_stats :: "(predictor_stats \<Rightarrow> predictor_stats) \<Rightarrow> predictor \<Rightarrow> predictor" where
  "upd_stats f s = s\<lparr>stats := f (stats s)\<rparr>"

definition operate_computed :: "u32 \<Rightarrow> u32 \<Rightarrow> predictor \<Rightarrow> predictor option" where
  "operate_computed pc dest s0 =
     (let s = stack_down (upd_stats (\<lambda>t. t\<lparr>computed_jumps := computed_jumps t + 1\<rparr>) s0);
          hash_s = unat (pc AND of_nat (length (btb_table s) - 1))
      in if length (btb_table s) \<le> hash_s then None
         else
           (let prediction = btb_table s ! hash_s;
                s1 = s\<lparr>btb_table := (btb_table s)[hash_s := dest]\<rparr>
            in Some (if prediction = dest then s1
                     else penalise (upd_stats (\<lambda>t. t\<lparr>computed_jump_mispredicts := computed_jump_mispredicts t + 1\<rparr>) s1))))"

definition operate_pop :: "u32 \<Rightarrow> predictor \<Rightarrow> predictor option" where
  "operate_pop dest s0 =
     (let s = stack_down (upd_stats (\<lambda>t. t\<lparr>pop_jumps := pop_jumps t + 1\<rparr>) s0)
      in if length (return_stack s) \<le> return_stack_pointer s then None
         else Some (if return_stack s ! return_stack_pointer s = dest then s
                    else penalise (upd_stats (\<lambda>t. t\<lparr>pop_jump_mispredicts := pop_jump_mispredicts t + 1\<rparr>) s)))"

definition push_return :: "u32 \<Rightarrow> predictor \<Rightarrow> predictor option" where
  "push_return pc s =
     (if length (return_stack s) \<le> return_stack_pointer s then None
      else Some (s\<lparr>return_stack := (return_stack s)[return_stack_pointer s := pc + 1],
                   return_stack_pointer := (return_stack_pointer s + 1) mod RSTACK_ENTRIES\<rparr>))"

text \<open>The direction of a branch: the tournament between the two histories.\<close>

definition adjust :: "bool \<Rightarrow> bool \<Rightarrow> bool \<Rightarrow> u8 \<Rightarrow> u8" where
  "adjust both local_correct global_correct t =
     (if both \<and> local_correct \<and> \<not> global_correct \<and> t > 0 then t - 1
      else if global_correct \<and> \<not> local_correct \<and> t < BP_TORNAMENT_MAX then t + 1
      else t)"

definition branch_stats :: "predictor \<Rightarrow> bool \<Rightarrow> bool \<Rightarrow> bool \<Rightarrow> bool \<Rightarrow> predictor_stats \<Rightarrow> predictor_stats" where
  "branch_stats s taken local_correct global_correct use_global t =
     (let le = local_hist_enabled s; ge = global_path_enabled s;
          t1 = t\<lparr>simp_operations := simp_operations t + 1, simp_taken := simp_taken t + of_bool taken\<rparr>;
          t2 = t1\<lparr>simp_local_misses := simp_local_misses t1 + of_bool (le \<and> \<not> local_correct),
                  simp_global_misses := simp_global_misses t1 + of_bool (ge \<and> \<not> global_correct)\<rparr>
      in if le \<and> ge then
           (if use_global then t2\<lparr>simp_torns_glob := simp_torns_glob t2 + 1\<rparr>
            else t2\<lparr>simp_torns_loc := simp_torns_loc t2 + 1\<rparr>)
         else t2)"

definition operate_branch :: "u32 \<Rightarrow> bool \<Rightarrow> u32 \<Rightarrow> predictor \<Rightarrow> predictor option" where
  "operate_branch pc taken dest s =
     (let mk = (of_nat (length (history_table s) - 1) :: u32);
          hs = pc AND mk;
          hash_s = unat hs;
          hash_d = unat (hs XOR (ucast (global_history s) AND mk))
      in if length (history_table s) \<le> hash_s \<or> length (history_table s) \<le> hash_d then None
         else
           (let le = local_hist_enabled s; ge = global_path_enabled s;
                e = history_table s ! hash_s;
                local_prediction = (history_history e AND BP_LOCAL_HIST_MASK) > BP_LOCAL_HIST_MASK div 2;
                global_prediction = global_path_prediction (history_table s ! hash_d);
                tab1 = (history_table s)[hash_d := (history_table s ! hash_d)\<lparr>global_path_prediction := taken\<rparr>];
                use_global = tornament e > BP_TORNAMENT_MAX div 2;
                prediction = (if \<not> le \<and> \<not> ge then dest \<le> pc
                              else if le \<and> ge then (if use_global then global_prediction else local_prediction)
                              else if le then local_prediction else global_prediction);
                lc = (local_prediction = taken);
                gc = (global_prediction = taken);
                e1 = tab1 ! hash_s;
                e2 = e1\<lparr>tornament := adjust (le \<and> ge) lc gc (tornament e1),
                        history_history := push_bit 1 (history_history e1) OR of_bool taken\<rparr>;
                s1 = (upd_stats (branch_stats s taken lc gc use_global) s)
                       \<lparr>history_table := tab1[hash_s := e2],
                        global_history := push_bit 1 (global_history s) OR of_bool taken\<rparr>
            in Some (if prediction = taken then s1
                     else penalise (upd_stats (\<lambda>t. t\<lparr>simp_mispredicts := simp_mispredicts t + 1\<rparr>) s1))))"

definition operate :: "u32 \<Rightarrow> bool \<Rightarrow> u32 \<Rightarrow> int \<Rightarrow> predictor \<Rightarrow> (u32 \<times> predictor) option" where
  "operate pc taken dest push_pop_style s =
     (if push_pop_style = 100 then map_option (Pair 0xFFFFFFFF) (operate_computed pc dest s)
      else if push_pop_style < 0 then map_option (Pair 0xFFFFFFFF) (operate_pop dest s)
      else
        (case (if taken \<and> push_pop_style > 0 then push_return pc s else Some s) of None \<Rightarrow> None
         | Some s1 \<Rightarrow> map_option (Pair 0xFFFFFFFF) (operate_branch pc taken dest s1)))"

section \<open>The invariant\<close>

definition predictor_ok :: "nat \<Rightarrow> nat \<Rightarrow> predictor \<Rightarrow> bool" where
  "predictor_ok j k s \<longleftrightarrow> length (btb_table s) = 2 ^ j \<and> length (history_table s) = 2 ^ k \<and>
     (\<forall>e\<in>set (history_table s). tornament e \<le> BP_TORNAMENT_MAX) \<and>
     return_stack_pointer s < RSTACK_ENTRIES \<and> length (return_stack s) = RSTACK_ENTRIES"

lemma and_low_bits: "unat (w AND of_nat (2 ^ k - 1) :: u32) < 2 ^ k"
proof -
  have "w AND of_nat (2 ^ k - 1) = take_bit k w"
    by (simp only: mask_eq_exp_minus_1 [symmetric] of_nat_mask_eq take_bit_eq_mask)
  then show ?thesis by (simp add: unsigned_take_bit_eq)
qed

lemma xor_low_bits: "unat ((v AND of_nat (2 ^ k - 1)) XOR (w AND of_nat (2 ^ k - 1)) :: u32) < 2 ^ k"
  using and_low_bits [of "v XOR w" k] by (simp only: and.commute [of _ "of_nat (2 ^ k - 1)"] bit.conj_xor_distrib)

lemma adjust_max: "t \<le> BP_TORNAMENT_MAX \<Longrightarrow> adjust both lc gc t \<le> BP_TORNAMENT_MAX"
  by (auto simp: adjust_def BP_TORNAMENT_MAX_def word_le_nat_alt word_less_nat_alt unat_sub unat_word_ariths)

lemma stats_ok [simp]:
  "predictor_ok j k (upd_stats f s) = predictor_ok j k s" "predictor_ok j k (penalise s) = predictor_ok j k s"
  by (simp_all add: predictor_ok_def upd_stats_def penalise_def)

lemma stack_down_ok [simp]: "predictor_ok j k s \<Longrightarrow> predictor_ok j k (stack_down s)"
  by (simp add: predictor_ok_def stack_down_def RSTACK_ENTRIES_def)

lemma computed_ok:
  "predictor_ok j k s \<Longrightarrow> \<exists>s'. operate_computed pc dest s = Some s' \<and> predictor_ok j k s' \<and>
     return_stack s' = return_stack s \<and> return_stack_pointer s' = (7 + return_stack_pointer s) mod 8 \<and>
     pop_jumps (stats s') = pop_jumps (stats s) \<and> pop_jump_mispredicts (stats s') = pop_jump_mispredicts (stats s)"
  using and_low_bits [of pc j]
  by (auto simp: operate_computed_def Let_def predictor_ok_def stack_down_def upd_stats_def penalise_def RSTACK_ENTRIES_def)

lemma pop_ok:
  "predictor_ok j k s \<Longrightarrow> \<exists>s'. operate_pop dest s = Some s' \<and> predictor_ok j k s' \<and>
     return_stack s' = return_stack s \<and> return_stack_pointer s' = (7 + return_stack_pointer s) mod 8 \<and>
     pop_jumps (stats s') = pop_jumps (stats s) + 1 \<and>
     pop_jump_mispredicts (stats s') = pop_jump_mispredicts (stats s) +
       of_bool (return_stack s ! ((7 + return_stack_pointer s) mod 8) \<noteq> dest)"
  by (auto simp: operate_pop_def Let_def predictor_ok_def stack_down_def upd_stats_def penalise_def RSTACK_ENTRIES_def)

lemma push_ok:
  "predictor_ok j k s \<Longrightarrow> \<exists>s'. push_return pc s = Some s' \<and> predictor_ok j k s' \<and>
     return_stack s' = (return_stack s)[return_stack_pointer s := pc + 1] \<and>
     return_stack_pointer s' = (return_stack_pointer s + 1) mod 8 \<and> stats s' = stats s"
  by (auto simp: push_return_def predictor_ok_def RSTACK_ENTRIES_def)

lemma branch_ok:
  assumes "predictor_ok j k s"
  shows "\<exists>s'. operate_branch pc taken dest s = Some s' \<and> predictor_ok j k s' \<and>
     return_stack s' = return_stack s \<and> return_stack_pointer s' = return_stack_pointer s \<and>
     pop_jumps (stats s') = pop_jumps (stats s) \<and> pop_jump_mispredicts (stats s') = pop_jump_mispredicts (stats s)"
proof -
  have l: "length (history_table s) = 2 ^ k" using assms by (simp add: predictor_ok_def)
  define hs where "hs = pc AND (of_nat (length (history_table s) - 1) :: u32)"
  define hd where "hd = hs XOR (ucast (global_history s) AND of_nat (length (history_table s) - 1))"
  have b: "unat hs < 2 ^ k" "unat hd < 2 ^ k"
    using and_low_bits [of pc k] xor_low_bits [of pc k "ucast (global_history s)"]
    by (simp_all add: hs_def hd_def l)
  define tab where "tab = (history_table s)[unat hd := (history_table s ! unat hd)\<lparr>global_path_prediction := taken\<rparr>]"
  have tab: "length tab = 2 ^ k" "\<forall>e\<in>set tab. tornament e \<le> BP_TORNAMENT_MAX"
    using assms b(2) l by (auto simp: tab_def predictor_ok_def dest!: set_update_subset_insert [THEN subsetD])
  then have t: "tornament (tab ! unat hs) \<le> BP_TORNAMENT_MAX" using b(1) by simp
  have upd: "\<forall>e\<in>set (tab[unat hs := (tab ! unat hs)\<lparr>tornament := adjust x y z (tornament (tab ! unat hs)),
      history_history := w\<rparr>]). tornament e \<le> BP_TORNAMENT_MAX" for x y z w
    using tab(2) adjust_max [OF t] by (auto dest!: set_update_subset_insert [THEN subsetD])
  show ?thesis
    using assms b l tab(1) upd
    unfolding operate_branch_def Let_def hs_def [symmetric] hd_def [symmetric] tab_def [symmetric]
    by (auto simp: predictor_ok_def penalise_def upd_stats_def branch_stats_def Let_def)
qed

text \<open>C38: The predictor never leaves its tables: on a state whose tables have sizes that are powers of
two, whose tournament counters are at most 15 and whose stack pointer is below 8, every operation
with every address, direction, destination and kind returns, with the default result, and leaves a
state of the same kind.\<close>

theorem operate_ok:
  assumes "predictor_ok j k s"
  shows "\<exists>s'. operate pc taken dest style s = Some (0xFFFFFFFF, s') \<and> predictor_ok j k s'"
proof -
  obtain s1 where s1: "(if taken \<and> style > 0 then push_return pc s else Some s) = Some s1" "predictor_ok j k s1"
    using push_ok [OF assms, of pc] assms by (cases "taken \<and> style > 0") auto
  show ?thesis
    using computed_ok [OF assms, of pc dest] pop_ok [OF assms, of dest] branch_ok [OF s1(2), of pc taken dest] s1(1)
    by (auto simp: operate_def)
qed

theorem operate_ok_witness:
  "\<exists>s'. operate 5 True 9 1 (new_predictor 2 4 (replicate 8 0)) = Some (0xFFFFFFFF, s') \<and> predictor_ok 2 2 s'"
  by (rule operate_ok)
    (simp add: predictor_ok_def new_predictor_def new_entry_def BP_TORNAMENT_MAX_def RSTACK_ENTRIES_def)

section \<open>The return stack\<close>

text \<open>A run of branches of the simulated program, and the abstract predictor of returns: a list of the
  return addresses of the at most eight most recent calls.  \<open>returns_missed\<close> counts the returns that
  go elsewhere than to the top of that list; a return to a call that is no longer known is \<open>None\<close>.\<close>

datatype branch =
    Conditional u32 bool u32 | Call u32 bool u32 | Return u32 u32 | Computed u32 u32

fun run_branch :: "branch \<Rightarrow> predictor \<Rightarrow> (u32 \<times> predictor) option" where
  "run_branch (Conditional pc taken dest) s = operate pc taken dest 0 s"
| "run_branch (Call pc taken dest) s = operate pc taken dest 1 s"
| "run_branch (Return pc dest) s = operate pc True dest (- 1) s"
| "run_branch (Computed pc dest) s = operate pc True dest 100 s"

fun run_branches :: "branch list \<Rightarrow> predictor \<Rightarrow> predictor option" where
  "run_branches [] s = Some s"
| "run_branches (b # bs) s = (case run_branch b s of None \<Rightarrow> None | Some (r, s1) \<Rightarrow> run_branches bs s1)"

fun returns_missed :: "u32 list \<Rightarrow> branch list \<Rightarrow> nat option" where
  "returns_missed st [] = Some 0"
| "returns_missed st (Conditional pc taken dest # bs) = returns_missed st bs"
| "returns_missed st (Call pc taken dest # bs) =
     returns_missed (if taken then take 8 ((pc + 1) # st) else st) bs"
| "returns_missed st (Computed pc dest # bs) = returns_missed (tl st) bs"
| "returns_missed [] (Return pc dest # bs) = None"
| "returns_missed (a # st) (Return pc dest # bs) = map_option ((+) (of_bool (a \<noteq> dest))) (returns_missed st bs)"

definition recent_calls :: "predictor \<Rightarrow> u32 list \<Rightarrow> bool" where
  "recent_calls s st \<longleftrightarrow> length st \<le> 8 \<and>
     (\<forall>i<length st. return_stack s ! ((return_stack_pointer s + 7 - i) mod 8) = st ! i)"

text \<open>Arithmetic of the circular index, by evaluation on its eight positions.\<close>

lemma circle:
  "\<forall>p\<in>set [0..<8]. \<forall>i\<in>set [0..<7]. ((7 + p) mod 8 + 7 - i) mod 8 = (p + 7 - Suc i) mod 8 \<and>
     ((p + 1) mod 8 + 7 - Suc i) mod 8 = (p + 7 - i) mod 8 \<and> (p + 7 - i) mod 8 \<noteq> p \<and>
     ((p + 1) mod 8 + 7) mod 8 = (p :: nat)"
  by code_simp

lemma recent_pop:
  assumes "recent_calls s st" "return_stack s' = return_stack s"
    and "return_stack_pointer s' = (7 + return_stack_pointer s) mod 8" "return_stack_pointer s < 8"
  shows "recent_calls s' (tl st)"
proof -
  have "((7 + p) mod 8 + 7 - i) mod 8 = (p + 7 - Suc i) mod 8" if "p < 8" "Suc i < 8" for p i :: nat
    using circle that by simp
  note c = this
  have l: "length st \<le> 8" "\<And>i. i < length st \<Longrightarrow> return_stack s ! ((return_stack_pointer s + 7 - i) mod 8) = st ! i"
    using assms(1) by (simp_all add: recent_calls_def)
  show ?thesis unfolding recent_calls_def
  proof (intro conjI allI impI)
    fix i
    assume i: "i < length (tl st)"
    then have "Suc i < length st" by simp
    with l c [OF assms(4), of i] i show "return_stack s' ! ((return_stack_pointer s' + 7 - i) mod 8) = tl st ! i"
      unfolding assms(2,3) by (simp only: nth_tl)
  qed (use l(1) in simp)
qed

lemma recent_push:
  assumes "recent_calls s st" "return_stack s' = (return_stack s)[return_stack_pointer s := a]"
    and "return_stack_pointer s' = (return_stack_pointer s + 1) mod 8" "return_stack_pointer s < 8"
    and "length (return_stack s) = 8"
  shows "recent_calls s' (take 8 (a # st))"
proof -
  let ?p = "return_stack_pointer s"
  have z: "((p + 1) mod 8 + 7) mod 8 = p" if "p < 8" for p :: nat
    using circle that by force
  have m: "((p + 1) mod 8 + 7 - Suc i) mod 8 = (p + 7 - i) mod 8" "(p + 7 - i) mod 8 \<noteq> p"
    if "p < 8" "i < 7" for p i :: nat using circle that by simp_all
  show ?thesis unfolding recent_calls_def
  proof (intro conjI allI impI)
    fix i
    assume i: "i < length (take 8 (a # st))"
    show "return_stack s' ! ((return_stack_pointer s' + 7 - i) mod 8) = take 8 (a # st) ! i"
      using assms i z [of ?p] m [of ?p "i - 1"] by (cases i) (auto simp: recent_calls_def)
  qed simp
qed

text \<open>C37: The circular stack of eight entries refines the list of the most recent calls: on every run of
branches in which each return belongs to a call still on the list, the predictor counts every return
and as mispredicted exactly those that do not go to the instruction after that call.  Programs that
nest at most eight calls and return to where they came from are thus predicted without a miss,
provided no computed jump intervenes: a computed jump removes an entry.\<close>

theorem return_stack_refines:
  assumes "predictor_ok j k s" "recent_calls s st" "returns_missed st bs = Some n"
  shows "\<exists>s'. run_branches bs s = Some s' \<and>
    pop_jump_mispredicts (stats s') = pop_jump_mispredicts (stats s) + of_nat n \<and>
    pop_jumps (stats s') = pop_jumps (stats s) + of_nat (length [b \<leftarrow> bs. \<exists>pc dest. b = Return pc dest])"
  using assms
proof (induction st bs arbitrary: s n rule: returns_missed.induct)
  case (2 st pc taken dest bs)
  obtain s1 where s1: "operate_branch pc taken dest s = Some s1" "predictor_ok j k s1"
     "return_stack s1 = return_stack s" "return_stack_pointer s1 = return_stack_pointer s"
     "pop_jumps (stats s1) = pop_jumps (stats s)" "pop_jump_mispredicts (stats s1) = pop_jump_mispredicts (stats s)"
    using branch_ok [OF 2(2)] by blast
  have "recent_calls s1 st" using 2(3) s1 by (simp add: recent_calls_def)
  from "2.IH" [OF s1(2) this] 2(4) s1 show ?case by (simp add: operate_def)
next
  case (3 st pc taken dest bs)
  have p: "return_stack_pointer s < 8" "length (return_stack s) = 8"
    using 3(2) by (simp_all add: predictor_ok_def RSTACK_ENTRIES_def)
  define st1 where "st1 = (if taken then take 8 ((pc + 1) # st) else st)"
  obtain s0 where s0: "(if taken then push_return pc s else Some s) = Some s0" "predictor_ok j k s0"
      "stats s0 = stats s" "recent_calls s0 st1"
  proof (cases taken)
    case True
    obtain s0 where "push_return pc s = Some s0" "predictor_ok j k s0" "stats s0 = stats s"
        "return_stack s0 = (return_stack s)[return_stack_pointer s := pc + 1]"
        "return_stack_pointer s0 = (return_stack_pointer s + 1) mod 8"
      using push_ok [OF 3(2)] by blast
    with True recent_push [OF 3(3) _ _ p] that show ?thesis by (simp add: st1_def)
  qed (use 3 that in \<open>simp add: st1_def\<close>)
  obtain s1 where s1: "operate_branch pc taken dest s0 = Some s1" "predictor_ok j k s1"
     "return_stack s1 = return_stack s0" "return_stack_pointer s1 = return_stack_pointer s0"
     "pop_jumps (stats s1) = pop_jumps (stats s0)" "pop_jump_mispredicts (stats s1) = pop_jump_mispredicts (stats s0)"
    using branch_ok [OF s0(2)] by blast
  have "recent_calls s1 st1" using s0(4) s1 by (simp add: recent_calls_def)
  moreover have "run_branch (Call pc taken dest) s = Some (0xFFFFFFFF, s1)"
    using s0(1) s1(1) by (simp add: operate_def)
  ultimately show ?case using "3.IH" [OF s1(2)] 3(4) s1 s0(3) by (simp add: st1_def)
next
  case (4 st pc dest bs)
  obtain s1 where s1: "operate_computed pc dest s = Some s1" "predictor_ok j k s1" "return_stack s1 = return_stack s"
     "return_stack_pointer s1 = (7 + return_stack_pointer s) mod 8"
     "pop_jumps (stats s1) = pop_jumps (stats s)" "pop_jump_mispredicts (stats s1) = pop_jump_mispredicts (stats s)"
    using computed_ok [OF 4(2)] by blast
  have "recent_calls s1 (tl st)"
    by (rule recent_pop [OF 4(3) s1(3,4)]) (use 4(2) in \<open>simp add: predictor_ok_def RSTACK_ENTRIES_def\<close>)
  from "4.IH" [OF s1(2) this] 4(4) s1 show ?case by (simp add: operate_def)
next
  case (6 a st pc dest bs)
  have p: "return_stack_pointer s < 8" using 6(2) by (simp add: predictor_ok_def RSTACK_ENTRIES_def)
  obtain s1 where s1: "operate_pop dest s = Some s1" "predictor_ok j k s1" "return_stack s1 = return_stack s"
     "return_stack_pointer s1 = (7 + return_stack_pointer s) mod 8" "pop_jumps (stats s1) = pop_jumps (stats s) + 1"
     "pop_jump_mispredicts (stats s1) = pop_jump_mispredicts (stats s) +
       of_bool (return_stack s ! ((7 + return_stack_pointer s) mod 8) \<noteq> dest)"
    using pop_ok [OF 6(2)] by blast
  have top: "return_stack s ! ((7 + return_stack_pointer s) mod 8) = a"
    using 6(3) by (auto simp: recent_calls_def add.commute)
  have r: "recent_calls s1 st" using recent_pop [OF 6(3) s1(3,4) p] by simp
  obtain m where m: "returns_missed st bs = Some m" "n = of_bool (a \<noteq> dest) + m" using 6(4) by auto
  have "run_branch (Return pc dest) s = Some (0xFFFFFFFF, s1)" using s1(1) by (simp add: operate_def)
  with "6.IH" [OF s1(2) r m(1)] s1 m(2) top show ?case by (auto simp: add.assoc)
qed auto

theorem return_stack_refines_witness:
  "\<exists>s'. run_branches [Call 10 True 50, Conditional 51 True 60, Call 60 True 80, Return 81 61, Return 62 99]
      (new_predictor 2 4 (replicate 8 0)) = Some s' \<and>
    pop_jump_mispredicts (stats s') = 1 \<and> pop_jumps (stats s') = 2"
proof -
  let ?s = "new_predictor 2 4 (replicate 8 0)"
  let ?bs = "[Call 10 True 50, Conditional 51 True 60, Call 60 True 80, Return 81 61, Return 62 99]"
  have ok: "predictor_ok 2 2 ?s" "recent_calls ?s []" "returns_missed [] ?bs = Some 1"
    by (simp_all add: predictor_ok_def new_predictor_def new_entry_def BP_TORNAMENT_MAX_def RSTACK_ENTRIES_def
        recent_calls_def)
  from return_stack_refines [OF ok] show ?thesis by (simp add: new_predictor_def stats_reset_def)
qed

end
