(* ===== verification/Gic.thy ===== *)
theory Gic
  imports Prelude "HOL-Library.Monad_Syntax"
begin

unbundle bit_operations_syntax

text \<open>
  The generic interrupt controller of the simulated processor (\<^verbatim>\<open>arm/gic_arm_tlm.cpp\<close>): the registers of
  the distributor and of the CPU interfaces, software-generated interrupts, acknowledgement and end of
  interrupt, and the distribution of the requests to the outputs.

  The notification of \<^verbatim>\<open>inputs_have_changed\<close> is a flag; \<open>settle\<close> is the run of the method that is
  sensitive to it.  Accesses outside an array are \<open>None\<close>; arrays the constructor does not initialise
  are 0.
\<close>

section \<open>State\<close>

record gic_cpu =
  CTL :: u32
  PM :: u32
  BP :: "u32 list"
  IA :: "u32 list"
  RP :: "u32 list"
  c_unmasked :: u32
  c_igroup :: u32
  c_actives :: u32
  c_enables :: u32
  c_pendings :: u32
  c_priorities :: "u32 list"
  c_targets :: "u32 list"
  c_configs :: "u32 list"
  sgi_matrix :: "u32 list"

record gic =
  n_cpus :: nat
  EnableGrp0 :: bool
  EnableGrp1 :: bool
  d_unmasked :: "u32 list"
  d_igroup :: "u32 list"
  d_actives :: "u32 list"
  d_enables :: "u32 list"
  d_pendings :: "u32 list"
  d_priorities :: "u32 list"
  d_targets :: "u32 list"
  d_configs :: "u32 list"
  cpustate :: "gic_cpu list"
  IRQ_out :: "bool list"
  FIQ_out :: "bool list"
  notified :: bool

definition GIC_INTERRUPT_LIMIT :: nat where "GIC_INTERRUPT_LIMIT = 1024"
definition GIC_MAX_N_CPUS :: nat where "GIC_MAX_N_CPUS = 32"

definition upd_cpu :: "nat \<Rightarrow> (gic_cpu \<Rightarrow> gic_cpu) \<Rightarrow> gic \<Rightarrow> gic" where
  "upd_cpu n f g = g\<lparr>cpustate := (cpustate g)[n := f (cpustate g ! n)]\<rparr>"

definition notify :: "gic \<Rightarrow> gic" where "notify g = g\<lparr>notified := True\<rparr>"

text \<open>The constructor; the methods it registers run once when the simulation starts.\<close>

definition cpu_new :: "nat \<Rightarrow> nat \<Rightarrow> gic_cpu" where
  "cpu_new limit n =
    \<lparr>CTL = 0, PM = (if n < limit then 1023 else 0), BP = [0, 0], IA = [0, 0], RP = [0, 0], c_unmasked = 0,
     c_igroup = 0, c_actives = 0, c_enables = 0, c_pendings = 0, c_priorities = replicate 4 0,
     c_targets = replicate 4 (if n < limit then push_bit (n mod 8) 0x01010101 else 0),
     c_configs = [0, 0], sgi_matrix = replicate 4 0\<rparr>"

definition gic_new :: "nat \<Rightarrow> gic option" where
  "gic_new n =
    (if n < 1 \<or> n > GIC_MAX_N_CPUS then None
     else Some \<lparr>n_cpus = n, EnableGrp0 = False, EnableGrp1 = False, d_unmasked = replicate 32 0,
       d_igroup = replicate 32 0, d_actives = replicate 32 0, d_enables = replicate 32 0,
       d_pendings = replicate 32 0, d_priorities = replicate 256 0, d_targets = replicate 256 0,
       d_configs = replicate 64 0, cpustate = map (cpu_new n) [0..<GIC_MAX_N_CPUS],
       IRQ_out = replicate GIC_MAX_N_CPUS False, FIQ_out = replicate GIC_MAX_N_CPUS False, notified = True\<rparr>)"

section \<open>The distributor's registers\<close>

text \<open>A register of the distributor is a word of one of its arrays; the first words of each array belong
  to the interrupts private to a core and are banked.\<close>

datatype dist_field = IgroupF | EnablesF | PendingsF | ActivesF | PriorityF | TargetF | ConfigF

datatype location = Banked dist_field nat nat | Shared dist_field nat

fun shared_get :: "dist_field \<Rightarrow> gic \<Rightarrow> u32 list" where
  "shared_get IgroupF g = d_igroup g"
| "shared_get EnablesF g = d_enables g"
| "shared_get PendingsF g = d_pendings g"
| "shared_get ActivesF g = d_actives g"
| "shared_get PriorityF g = d_priorities g"
| "shared_get TargetF g = d_targets g"
| "shared_get ConfigF g = d_configs g"

fun shared_put :: "dist_field \<Rightarrow> u32 list \<Rightarrow> gic \<Rightarrow> gic" where
  "shared_put IgroupF ws g = g\<lparr>d_igroup := ws\<rparr>"
| "shared_put EnablesF ws g = g\<lparr>d_enables := ws\<rparr>"
| "shared_put PendingsF ws g = g\<lparr>d_pendings := ws\<rparr>"
| "shared_put ActivesF ws g = g\<lparr>d_actives := ws\<rparr>"
| "shared_put PriorityF ws g = g\<lparr>d_priorities := ws\<rparr>"
| "shared_put TargetF ws g = g\<lparr>d_targets := ws\<rparr>"
| "shared_put ConfigF ws g = g\<lparr>d_configs := ws\<rparr>"

fun banked_get :: "dist_field \<Rightarrow> gic_cpu \<Rightarrow> u32 list" where
  "banked_get IgroupF c = [c_igroup c]"
| "banked_get EnablesF c = [c_enables c]"
| "banked_get PendingsF c = [c_pendings c]"
| "banked_get ActivesF c = [c_actives c]"
| "banked_get PriorityF c = c_priorities c"
| "banked_get TargetF c = c_targets c"
| "banked_get ConfigF c = c_configs c"

fun banked_put :: "dist_field \<Rightarrow> u32 list \<Rightarrow> gic_cpu \<Rightarrow> gic_cpu" where
  "banked_put IgroupF ws c = c\<lparr>c_igroup := hd ws\<rparr>"
| "banked_put EnablesF ws c = c\<lparr>c_enables := hd ws\<rparr>"
| "banked_put PendingsF ws c = c\<lparr>c_pendings := hd ws\<rparr>"
| "banked_put ActivesF ws c = c\<lparr>c_actives := hd ws\<rparr>"
| "banked_put PriorityF ws c = c\<lparr>c_priorities := ws\<rparr>"
| "banked_put TargetF ws c = c\<lparr>c_targets := ws\<rparr>"
| "banked_put ConfigF ws c = c\<lparr>c_configs := ws\<rparr>"

fun loc_get :: "gic \<Rightarrow> location \<Rightarrow> u32 option" where
  "loc_get g (Banked f cpu n) =
    (let ws = banked_get f (cpustate g ! cpu) in if n < length ws then Some (ws ! n) else None)"
| "loc_get g (Shared f n) =
    (let ws = shared_get f g in if n < length ws then Some (ws ! n) else None)"

text \<open>\<^verbatim>\<open>*rp = u(*rp)\<close>.\<close>

fun loc_upd :: "(u32 \<Rightarrow> u32) \<Rightarrow> gic \<Rightarrow> location \<Rightarrow> gic option" where
  "loc_upd u g (Banked f cpu n) =
    (let ws = banked_get f (cpustate g ! cpu)
     in if n < length ws then Some (upd_cpu cpu (banked_put f (ws[n := u (ws ! n)])) g) else None)"
| "loc_upd u g (Shared f n) =
    (let ws = shared_get f g
     in if n < length ws then Some (shared_put f (ws[n := u (ws ! n)]) g) else None)"

text \<open>\<^verbatim>\<open>dist_addresser\<close>; the null pointer is \<open>None\<close>.\<close>

definition dist_addresser :: "gic \<Rightarrow> u32 \<Rightarrow> int \<Rightarrow> location option" where
  "dist_addresser g reg cpuID =
    (let at = (\<lambda>f n private.
           if n < private
           then if 0 \<le> cpuID \<and> cpuID < int (n_cpus g) then Some (Banked f (nat cpuID) n) else None
           else Some (Shared f n));
         ix = (\<lambda>msk. unat (drop_bit 2 reg AND msk))
     in if 0x80 \<le> reg \<and> reg < 0x100 then at IgroupF (ix 31) 1
        else if 0x100 \<le> reg \<and> reg < 0x200 then at EnablesF (ix 31) 1
        else if 0x200 \<le> reg \<and> reg < 0x300 then at PendingsF (ix 31) 1
        else if 0x300 \<le> reg \<and> reg < 0x400 then at ActivesF (ix 31) 1
        else if 0x400 \<le> reg \<and> reg < 0x800 then at PriorityF (ix 255) 4
        else if 0x800 \<le> reg \<and> reg < 0xC00 then at TargetF (ix 255) 8
        else if 0xC00 \<le> reg \<and> reg < 0xD00 then at ConfigF (ix 63) 2
        else None)"

definition ReadDist :: "gic \<Rightarrow> u32 \<Rightarrow> int \<Rightarrow> u32 option" where
  "ReadDist g reg cpuID =
    (if reg < 0x80 then
       Some (if reg = 0 then push_bit 1 (of_bool (EnableGrp1 g)) OR of_bool (EnableGrp1 g)
             else if reg = 8 then 0x438
             else if reg = 4 then push_bit 5 (of_nat (n_cpus g - 1)) OR 31
             else 0xDEADBEEF)
     else if 0xF10 \<le> reg \<and> reg < 0xF30 then
       Some (if 0 \<le> cpuID \<and> cpuID < int (n_cpus g)
             then sgi_matrix (cpustate g ! nat cpuID) ! unat (drop_bit 2 reg AND 3) else 0xDEADBEEF)
     else case dist_addresser g reg cpuID of None \<Rightarrow> Some 0xDEADBEEF | Some l \<Rightarrow> loc_get g l)"

text \<open>\<^verbatim>\<open>dist_addresser\<close> and \<^verbatim>\<open>*rp = u(*rp)\<close>, asserting that the pointer is not null.\<close>

definition reg_upd :: "(u32 \<Rightarrow> u32) \<Rightarrow> u32 \<Rightarrow> int \<Rightarrow> gic \<Rightarrow> gic option" where
  "reg_upd u reg cpuID g = (case dist_addresser g reg cpuID of None \<Rightarrow> None | Some l \<Rightarrow> loc_upd u g l)"

section \<open>Software-generated interrupts\<close>

text \<open>The shift by \<^verbatim>\<open>src_cpu + 8 * (no % 4)\<close> uses the low five bits of its count, as the host does.\<close>

definition sgi_bit :: "int \<Rightarrow> nat \<Rightarrow> u32" where
  "sgi_bit cpu no = push_bit (nat ((cpu + 8 * int (no mod 4)) mod 32)) 1"

definition clear_sgi :: "nat \<Rightarrow> nat \<Rightarrow> int \<Rightarrow> gic \<Rightarrow> gic" where
  "clear_sgi no cpuID src_cpu g =
    upd_cpu cpuID (\<lambda>c. c\<lparr>sgi_matrix :=
      (sgi_matrix c)[no div 4 := sgi_matrix c ! (no div 4) AND NOT (sgi_bit src_cpu no)]\<rparr>) g"

definition sgi_set_nclear :: "bool \<Rightarrow> nat \<Rightarrow> u32 \<Rightarrow> nat \<Rightarrow> gic \<Rightarrow> gic" where
  "sgi_set_nclear setflag n d cpuID g =
    notify (upd_cpu cpuID (\<lambda>c. c\<lparr>sgi_matrix :=
      (sgi_matrix c)[n := (if setflag then sgi_matrix c ! n OR d else sgi_matrix c ! n AND NOT d)]\<rparr>) g)"

definition write_gic_sgir :: "u32 \<Rightarrow> int \<Rightarrow> gic \<Rightarrow> gic" where
  "write_gic_sgir d cpuID g =
    (let no = unat (d AND 15); targets = drop_bit 16 d AND 0xFF; filter = drop_bit 24 d AND 3
     in if cpuID < 0 \<or> cpuID > int (n_cpus g) then g
        else notify (fold (\<lambda>n g.
          if filter = 0 \<and> bit targets n \<or> filter = 1 \<or> filter = 2 \<and> int n = cpuID
          then upd_cpu n (\<lambda>c. c\<lparr>sgi_matrix :=
                 (sgi_matrix c)[no div 4 := sgi_matrix c ! (no div 4) OR sgi_bit cpuID no]\<rparr>) g
          else g) [0..<n_cpus g] g))"

text \<open>A write.  The registers at 0xF10, 0xF20 index the array of cores with the number of the writer.\<close>

definition WriteDist :: "u32 \<Rightarrow> u32 \<Rightarrow> int \<Rightarrow> gic \<Rightarrow> gic option" where
  "WriteDist reg d cpuID g =
    (let put = (\<lambda>u. reg_upd u reg cpuID);
         set_bits = (\<lambda>w. w OR d); clear_bits = (\<lambda>w. w AND NOT d);
         sgi = (\<lambda>b. if 0 \<le> cpuID \<and> cpuID < int GIC_MAX_N_CPUS
                   then Some (sgi_set_nclear b (unat (drop_bit 2 reg AND 3)) d (nat cpuID) g) else None)
     in if reg < 0x80 then
          Some (if reg = 0 then g\<lparr>EnableGrp0 := bit d 0, EnableGrp1 := bit d 1\<rparr> else g)
        else if reg < 0x100 then put (\<lambda>_. d) g
        else if reg < 0x180 then put set_bits g
        else if reg < 0x200 then put clear_bits g
        else if reg < 0x280 then put set_bits g
        else if reg < 0x300 then
          (if drop_bit 2 reg AND 31 \<noteq> 0 then put clear_bits g
           else if 0 \<le> cpuID \<and> cpuID < int GIC_MAX_N_CPUS then
             put clear_bits (fold (\<lambda>i g. if bit d i then clear_sgi i (nat cpuID) (- 1) g else g) [0..<16] g)
           else None)
        else if reg < 0x380 then put set_bits g
        else if reg < 0x400 then put clear_bits g
        else if reg < 0xD00 then put (\<lambda>_. d) g
        else if 0xF20 \<le> reg \<and> reg < 0xF30 then sgi True
        else if 0xF10 \<le> reg \<and> reg < 0xF20 then sgi False
        else if reg = 0xF00 then Some (write_gic_sgir d cpuID g)
        else Some g)"

section \<open>The CPU interfaces\<close>

definition raw_pending :: "nat \<Rightarrow> gic_cpu \<Rightarrow> u32" where
  "raw_pending no c = drop_bit (8 * (no mod 4)) (sgi_matrix c ! (no div 4)) AND 0xFF"

text \<open>The source of a pending software-generated interrupt: the first core whose bit is set, or the number
  of cores.\<close>

definition sgi_source :: "nat \<Rightarrow> u32 \<Rightarrow> nat" where
  "sgi_source cpus field = length (takeWhile (\<lambda>n. \<not> bit field n) [0..<cpus])"

definition word_reg :: "u32 \<Rightarrow> nat \<Rightarrow> u32" where "word_reg base n = base + of_nat n * 4"

text \<open>The request of an interrupt is taken back when it is acknowledged.\<close>

definition take_request :: "nat \<Rightarrow> nat \<Rightarrow> nat \<Rightarrow> gic \<Rightarrow> gic" where
  "take_request pendID src cpuID g =
    (let b = push_bit (pendID mod 32) 1; nn = pendID div 32
     in if pendID < 16 then clear_sgi pendID cpuID (int src) g
        else if pendID < 32 then upd_cpu cpuID (\<lambda>c. c\<lparr>c_unmasked := c_unmasked c AND NOT b\<rparr>) g
        else if pendID < 1021 then g\<lparr>d_unmasked := (d_unmasked g)[nn := d_unmasked g ! nn AND NOT b]\<rparr>
        else g)"

text \<open>The number is an \<^verbatim>\<open>int\<close>: a negative one is below 16 and indexes the matrix of software-generated interrupts
  out of its bounds.  A number from 1024 on, which a core can write to the acknowledge register, is not
  checked, and its offsets reach the registers behind those meant.\<close>

definition notify_int_acknowledge :: "nat \<Rightarrow> nat \<Rightarrow> gic \<Rightarrow> (u32 \<times> gic) option" where
  "notify_int_acknowledge grp cpuID g =
    (let ia = IA (cpustate g ! cpuID) ! grp; pendID = unat ia; nn = pendID div 32; b = push_bit (pendID mod 32) 1;
         src = (if pendID < 16 then sgi_source (n_cpus g) (raw_pending pendID (cpustate g ! cpuID)) else 0)
     in if bit ia 31 then None
        else do {
          g \<leftarrow> reg_upd (\<lambda>w. w AND b) (word_reg 0x280 nn) (int cpuID) (take_request pendID src cpuID g);
          g \<leftarrow> reg_upd (\<lambda>w. w OR b) (word_reg 0x300 nn) (int cpuID) g;
          Some (of_nat pendID OR push_bit 10 (of_nat src), notify g)
        })"

definition notify_end_of_int :: "nat \<Rightarrow> u32 \<Rightarrow> gic \<Rightarrow> gic option" where
  "notify_end_of_int cpuID wdata g =
    (let pendID = unat (wdata AND 1023); nn = pendID div 32; b = push_bit (pendID mod 32) 1
     in map_option notify (reg_upd (\<lambda>w. w AND NOT b) (word_reg 0x380 nn) (int cpuID) g))"

text \<open>\<^verbatim>\<open>cpu_addresser\<close>: reading and writing the register it points to.\<close>

definition cpu_reg_get :: "u32 \<Rightarrow> gic_cpu \<Rightarrow> u32 option" where
  "cpu_reg_get reg c =
    (if reg = 0 then Some (CTL c)
     else if reg = 4 then Some (PM c)
     else if reg = 8 then Some (BP c ! 0)
     else if reg = 0xC then Some (IA c ! 0)
     else if reg = 0x14 then Some (RP c ! 0)
     else if reg = 0x1C then Some (BP c ! 1)
     else if reg = 0x20 then Some (IA c ! 1)
     else if reg = 0x28 then Some (RP c ! 1)
     else None)"

definition cpu_reg_put :: "u32 \<Rightarrow> u32 \<Rightarrow> gic_cpu \<Rightarrow> gic_cpu" where
  "cpu_reg_put reg d c =
    (if reg = 0 then c\<lparr>CTL := d\<rparr>
     else if reg = 4 then c\<lparr>PM := d\<rparr>
     else if reg = 8 then c\<lparr>BP := (BP c)[0 := d]\<rparr>
     else if reg = 0xC then c\<lparr>IA := (IA c)[0 := d]\<rparr>
     else if reg = 0x14 then c\<lparr>RP := (RP c)[0 := d]\<rparr>
     else if reg = 0x1C then c\<lparr>BP := (BP c)[1 := d]\<rparr>
     else if reg = 0x20 then c\<lparr>IA := (IA c)[1 := d]\<rparr>
     else if reg = 0x28 then c\<lparr>RP := (RP c)[1 := d]\<rparr>
     else c)"

definition ReadCPU :: "u32 \<Rightarrow> nat \<Rightarrow> gic \<Rightarrow> (u32 \<times> gic) option" where
  "ReadCPU reg cpuID g =
    (if reg = 0xC then notify_int_acknowledge 0 cpuID g
     else if reg = 0x20 then notify_int_acknowledge 1 cpuID g
     else case cpu_reg_get reg (cpustate g ! cpuID) of
            Some v \<Rightarrow> Some (v, g) | None \<Rightarrow> Some (0xDEADBEEF, g))"

definition WriteCPU :: "u32 \<Rightarrow> nat \<Rightarrow> u32 \<Rightarrow> gic \<Rightarrow> gic option" where
  "WriteCPU reg cpuID d g =
    (if reg = 0x10 \<or> reg = 0x24 then notify_end_of_int cpuID d g
     else Some (upd_cpu cpuID (cpu_reg_put reg d) g))"

section \<open>Distribution\<close>

definition sgi_flags :: "gic_cpu \<Rightarrow> u32" where
  "sgi_flags c = fold (\<lambda>no w. if raw_pending no c \<noteq> 0 then w OR push_bit no 1 else w) [0..<16] 0"

definition read_requesting_disjunction :: "nat \<Rightarrow> nat \<Rightarrow> gic \<Rightarrow> u32" where
  "read_requesting_disjunction sgi cpuID g =
    (let c = cpustate g ! cpuID
     in if sgi = 0 then sgi_flags c OR c_actives c OR c_unmasked c
        else d_unmasked g ! sgi OR d_actives g ! sgi)"

text \<open>The leader of a group and a core so far: priority and number.\<close>

type_synonym leaders = "nat \<times> nat \<Rightarrow> (u32 \<times> nat) option"

definition offer :: "gic \<Rightarrow> nat \<Rightarrow> nat \<Rightarrow> leaders \<Rightarrow> leaders option" where
  "offer g cpuID no L =
    (if 32 \<le> no \<and> no \<le> 95 \<and> cpuID \<noteq> 0 then Some L
     else do {
       p \<leftarrow> ReadDist g (word_reg 0x400 (no div 4)) (int cpuID);
       q \<leftarrow> ReadDist g (word_reg 0x80 (no div 32)) (int cpuID);
       let pri = drop_bit (8 * (no mod 4)) p AND 0xFF;
       let grp = (if bit q (no mod 32) then 1 else 0);
       let grp_enabled = (if grp = 1 then EnableGrp1 g else EnableGrp0 g);
       let cpu_enabled = bit (CTL (cpustate g ! cpuID)) grp;
       Some (if cpu_enabled \<and> grp_enabled \<and>
                (case L (grp, cpuID) of None \<Rightarrow> True | Some (lopri, _) \<Rightarrow> pri < lopri)
             then L((grp, cpuID) := Some (pri, no)) else L)
     })"

definition offer_word :: "gic \<Rightarrow> nat \<times> nat \<Rightarrow> leaders \<Rightarrow> leaders option" where
  "offer_word g = (\<lambda>(sgi, cpuID) L.
    do {
      en \<leftarrow> ReadDist g (word_reg 0x100 sgi) (int cpuID);
      let req = read_requesting_disjunction sgi cpuID g AND en;
      fold (\<lambda>b L. Option.bind L (\<lambda>L. if bit req b then offer g cpuID (32 * sgi + b) L else Some L)) [0..<32] (Some L)
    })"

definition scan_order :: "gic \<Rightarrow> (nat \<times> nat) list" where
  "scan_order g = List.product [0..<GIC_INTERRUPT_LIMIT div 32] [0..<n_cpus g]"

text \<open>The outputs of one core.  The FIQ enable is read of core 0 and at bit 8, the value of the mask.\<close>

definition take_leader :: "nat \<Rightarrow> (u32 \<times> nat) option \<Rightarrow> gic_cpu \<Rightarrow> gic_cpu" where
  "take_leader grp l c =
    (case l of
       Some (pri, no) \<Rightarrow> c\<lparr>RP := (RP c)[grp := pri], IA := (IA c)[grp := of_nat no]\<rparr>
     | None \<Rightarrow> c\<lparr>IA := (IA c)[grp := 0x3FF]\<rparr>)"

definition drive :: "leaders \<Rightarrow> nat \<Rightarrow> gic \<Rightarrow> gic" where
  "drive L n g =
    (let FIQEn = bit (CTL (cpustate g ! 0)) 8; l0 = L (0, n); l1 = L (1, n);
         g = upd_cpu n (\<lambda>c. take_leader 1 l1 (take_leader 0 l0 c)) g
     in g\<lparr>FIQ_out := (FIQ_out g)[n := l0 \<noteq> None \<and> FIQEn],
          IRQ_out := (IRQ_out g)[n := l0 \<noteq> None \<and> \<not> FIQEn \<or> l1 \<noteq> None]\<rparr>)"

definition leaders_of :: "gic \<Rightarrow> leaders option" where
  "leaders_of g = fold (\<lambda>p L. Option.bind L (offer_word g p)) (scan_order g) (Some (\<lambda>_. None))"

definition distribute :: "gic \<Rightarrow> gic option" where
  "distribute g = map_option (\<lambda>L. fold (drive L) [0..<n_cpus g] g) (leaders_of g)"

definition settle :: "gic \<Rightarrow> gic option" where
  "settle g = (if notified g then distribute (g\<lparr>notified := False\<rparr>) else Some g)"

section \<open>Inputs and the bus\<close>

definition new_spi_word32 :: "nat \<Rightarrow> u32 \<Rightarrow> gic \<Rightarrow> gic" where
  "new_spi_word32 base data g = notify (g\<lparr>d_unmasked := (d_unmasked g)[base div 32 := data]\<rparr>)"

definition line_word :: "bool list \<Rightarrow> u32" where
  "line_word ls = fold (\<lambda>i w. if ls ! i then w OR push_bit i 1 else w) [0..<length ls] 0"

text \<open>The shared lines 32 to 63, 64 to 95 and 96 to 127, and the five private lines of each core.\<close>

definition spi_word :: "nat \<Rightarrow> bool list \<Rightarrow> gic \<Rightarrow> gic" where
  "spi_word base lines g = new_spi_word32 base (line_word lines) g"

definition ppi_changed :: "(nat \<Rightarrow> bool list) \<Rightarrow> gic \<Rightarrow> gic" where
  "ppi_changed ppi g =
    notify (fold (\<lambda>n. upd_cpu n (\<lambda>c. c\<lparr>c_unmasked := (c_unmasked c AND 0xFFFF) OR push_bit 27 (line_word (ppi n))\<rparr>))
      [0..<n_cpus g] g)"

text \<open>A bus access of a core: reads repeat the register in both halves of the bus word; a write takes its
  data from the low half and its register from the byte lanes.\<close>

definition b_read :: "int \<Rightarrow> u64 \<Rightarrow> gic \<Rightarrow> (u64 \<times> gic) option" where
  "b_read cpuID address g =
    (let off = ucast (address AND 0x1FFC) :: u32; both = (\<lambda>r :: u32. ucast r OR push_bit 32 (ucast r))
     in if cpuID \<ge> int (n_cpus g) then None
        else if off \<ge> 0x1000 then map_option (\<lambda>r. (both r, g)) (ReadDist g (off - 0x1000) cpuID)
        else if cpuID < 0 then None
        else map_option (\<lambda>(r, g). (both r, g)) (ReadCPU (off mod 0x100) (nat cpuID) g))"

definition b_write :: "int \<Rightarrow> u64 \<Rightarrow> u64 \<Rightarrow> bool list option \<Rightarrow> gic \<Rightarrow> gic option" where
  "b_write cpuID address data lanes g =
    (let off = ucast (address AND 0x1FFC) :: u32; d = ucast data;
         bad = (case lanes of None \<Rightarrow> False
                | Some l \<Rightarrow> l ! 0 \<noteq> l ! 1 \<or> l ! 1 \<noteq> l ! 2 \<or> l ! 2 \<noteq> l ! 3 \<or>
                           l ! 4 \<noteq> l ! 5 \<or> l ! 5 \<noteq> l ! 6 \<or> l ! 6 \<noteq> l ! 7);
         off = (case lanes of None \<Rightarrow> off | Some l \<Rightarrow> if l ! 4 then off + 4 else off)
     in if cpuID \<ge> int (n_cpus g) \<or> bad then None
        else if off \<ge> 0x1000 then WriteDist (off - 0x1000) d cpuID g
        else if cpuID < 0 then None
        else WriteCPU (off mod 0x100) (nat cpuID) d g)"

end
