(* ===== verification/GicProps.thy ===== *)
theory GicProps
  imports Gic
begin

unbundle bit_operations_syntax

text \<open>
  The interrupt controller: its type invariant, which interrupt the distribution selects, and what it
  drives.
\<close>

section \<open>The type invariant\<close>

definition cpu_ok :: "gic_cpu \<Rightarrow> bool" where
  "cpu_ok c \<longleftrightarrow> length (BP c) = 2 \<and> length (IA c) = 2 \<and> length (RP c) = 2 \<and> length (c_priorities c) = 4
     \<and> length (c_targets c) = 4 \<and> length (c_configs c) = 2 \<and> length (sgi_matrix c) = 4"

definition gic_ok :: "gic \<Rightarrow> bool" where
  "gic_ok g \<longleftrightarrow> 1 \<le> n_cpus g \<and> n_cpus g \<le> 32 \<and> length (d_unmasked g) = 32 \<and> length (d_igroup g) = 32
     \<and> length (d_actives g) = 32 \<and> length (d_enables g) = 32 \<and> length (d_pendings g) = 32
     \<and> length (d_priorities g) = 256 \<and> length (d_targets g) = 256 \<and> length (d_configs g) = 64
     \<and> length (cpustate g) = 32 \<and> length (IRQ_out g) = 32 \<and> length (FIQ_out g) = 32
     \<and> (\<forall>c \<in> set (cpustate g). cpu_ok c)"

lemma gic_ok_lengths:
  assumes "gic_ok g"
  shows "length (cpustate g) = 32" "length (d_unmasked g) = 32" "length (d_actives g) = 32" "length (IRQ_out g) = 32"
    "length (FIQ_out g) = 32" "n_cpus g \<le> 32" "1 \<le> n_cpus g" "length (d_pendings g) = 32" "length (d_enables g) = 32"
    "length (d_igroup g) = 32" "length (d_priorities g) = 256"
  using assms by (simp_all add: gic_ok_def)

lemma gic_ok_cpu: "gic_ok g \<Longrightarrow> n < 32 \<Longrightarrow> cpu_ok (cpustate g ! n)"
  by (simp add: gic_ok_def)

lemma gic_ok_seen [simp]: "gic_ok (g\<lparr>notified := b\<rparr>) = gic_ok g"
  by (simp add: gic_ok_def)

lemma gic_ok_notify [simp]: "gic_ok (notify g) = gic_ok g"
  by (simp add: notify_def gic_ok_def)

lemma gic_ok_upd_cpu:
  assumes "gic_ok g" "\<And>c. cpu_ok c \<Longrightarrow> cpu_ok (f c)"
  shows "gic_ok (upd_cpu n f g)"
proof (cases "n < 32")
  case True
  then have "cpu_ok (f (cpustate g ! n))" using assms gic_ok_cpu by blast
  then have "\<forall>c \<in> set ((cpustate g)[n := f (cpustate g ! n)]). cpu_ok c"
    using assms(1) set_update_subset_insert [of "cpustate g" n] by (fastforce simp: gic_ok_def)
  then show ?thesis using assms(1) by (simp add: gic_ok_def upd_cpu_def)
next
  case False
  then show ?thesis using assms(1) by (simp add: gic_ok_def upd_cpu_def list_update_beyond)
qed

lemma gic_ok_outputs:
  "gic_ok (g\<lparr>FIQ_out := (FIQ_out g)[n := a], IRQ_out := (IRQ_out g)[n := b]\<rparr>) = gic_ok g"
  by (simp add: gic_ok_def)

lemma upd_cpu_sel [simp]:
  "n_cpus (upd_cpu n f g) = n_cpus g" "EnableGrp0 (upd_cpu n f g) = EnableGrp0 g" "EnableGrp1 (upd_cpu n f g) = EnableGrp1 g"
  "d_unmasked (upd_cpu n f g) = d_unmasked g" "d_actives (upd_cpu n f g) = d_actives g" "d_enables (upd_cpu n f g) = d_enables g"
  "d_igroup (upd_cpu n f g) = d_igroup g" "d_priorities (upd_cpu n f g) = d_priorities g" "d_pendings (upd_cpu n f g) = d_pendings g"
  "IRQ_out (upd_cpu n f g) = IRQ_out g" "FIQ_out (upd_cpu n f g) = FIQ_out g" "notified (upd_cpu n f g) = notified g"
  by (simp_all add: upd_cpu_def)

lemma cpustate_upd [simp]:
  assumes "gic_ok g" "m < 32"
  shows "cpustate (upd_cpu n f g) ! m = (if m = n then f (cpustate g ! m) else cpustate g ! m)"
  using assms by (simp add: upd_cpu_def gic_ok_def nth_list_update)

lemma banked_ok: "cpu_ok c \<Longrightarrow> length ws = length (banked_get f c) \<Longrightarrow> cpu_ok (banked_put f ws c)"
  by (cases f) (simp_all add: cpu_ok_def)

lemma shared_ok: "gic_ok g \<Longrightarrow> length ws = length (shared_get f g) \<Longrightarrow> gic_ok (shared_put f ws g)"
  by (cases f) (simp_all add: gic_ok_def)

lemma gic_ok_loc_upd:
  assumes "gic_ok g" "loc_upd u g l = Some g'"
  shows "gic_ok g'"
proof (cases l)
  case (Banked f cpu n)
  let ?c = "cpustate g ! cpu"
  let ?f = "\<lambda>c. banked_put f ((banked_get f ?c)[n := u (banked_get f ?c ! n)]) c"
  show ?thesis
  proof (cases "cpu < 32")
    case True
    have "length (banked_get f c) = length (banked_get f ?c)" if "cpu_ok c" for c
      using that gic_ok_cpu [OF assms(1) True] by (cases f) (simp_all add: cpu_ok_def)
    then have "gic_ok (upd_cpu cpu ?f g)" by (intro gic_ok_upd_cpu assms(1) banked_ok) simp_all
    then show ?thesis using assms(2) Banked by (simp add: Let_def split: if_splits)
  next
    case False
    then show ?thesis using assms Banked
      by (auto simp: Let_def upd_cpu_def gic_ok_def list_update_beyond split: if_splits)
  qed
next
  case (Shared f n)
  then show ?thesis using assms by (auto simp: Let_def intro: shared_ok split: if_splits)
qed

lemma if_SomeE: "(if b then x else y) = Some z \<Longrightarrow> (x = Some z \<Longrightarrow> Q) \<Longrightarrow> (y = Some z \<Longrightarrow> Q) \<Longrightarrow> Q"
  by (cases b) simp_all

lemma gic_ok_reg_upd: "reg_upd u reg cpuID g = Some g' \<Longrightarrow> gic_ok g \<Longrightarrow> gic_ok g'"
  by (auto simp: reg_upd_def split: option.splits intro: gic_ok_loc_upd)

lemma gic_ok_fold: "gic_ok g \<Longrightarrow> (\<And>x g. x \<in> set xs \<Longrightarrow> gic_ok g \<Longrightarrow> gic_ok (f x g)) \<Longrightarrow> gic_ok (fold f xs g)"
  by (induction xs arbitrary: g) auto

lemma gic_ok_sgi:
  assumes "gic_ok g"
  shows "gic_ok (clear_sgi no cpuID src g)" "gic_ok (sgi_set_nclear b n d cpuID g)" "gic_ok (write_gic_sgir d cpu g)"
proof -
  show "gic_ok (clear_sgi no cpuID src g)" "gic_ok (sgi_set_nclear b n d cpuID g)"
    unfolding clear_sgi_def sgi_set_nclear_def gic_ok_notify
    by (intro gic_ok_upd_cpu assms; simp add: cpu_ok_def)+
  show "gic_ok (write_gic_sgir d cpu g)"
    unfolding write_gic_sgir_def Let_def using assms
    by (simp, intro impI gic_ok_fold) (auto intro!: gic_ok_upd_cpu simp: cpu_ok_def)
qed

lemma gic_ok_WriteDist:
  assumes "gic_ok g" "WriteDist reg d cpuID g = Some g'"
  shows "gic_ok g'"
proof -
  have f: "gic_ok (fold (\<lambda>i g. if bit d i then clear_sgi i n (- 1) g else g) [0..<16] g)" for n
    using assms(1) by (intro gic_ok_fold) (simp_all add: gic_ok_sgi)
  have e: "gic_ok (g\<lparr>EnableGrp0 := a, EnableGrp1 := b\<rparr>)" for a b using assms(1) by (simp add: gic_ok_def)
  from assms(2) show ?thesis
    unfolding WriteDist_def Let_def
    by (elim if_SomeE) (use assms(1) f e gic_ok_sgi in \<open>auto dest: gic_ok_reg_upd\<close>)
qed

lemma take_leader_ok: "cpu_ok c \<Longrightarrow> cpu_ok (take_leader grp l c)"
  by (simp add: take_leader_def cpu_ok_def split: option.split)

lemma gic_ok_drive: "gic_ok g \<Longrightarrow> gic_ok (drive L n g)"
proof -
  assume "gic_ok g"
  then have "gic_ok (upd_cpu n (\<lambda>c. take_leader 1 (L (1, n)) (take_leader 0 (L (0, n)) c)) g)"
    by (intro gic_ok_upd_cpu take_leader_ok)
  then show "gic_ok (drive L n g)" unfolding drive_def Let_def by (simp only: gic_ok_outputs)
qed

lemma gic_ok_distribute: "gic_ok g \<Longrightarrow> distribute g = Some g' \<Longrightarrow> gic_ok g'"
  by (auto simp: distribute_def intro!: gic_ok_fold gic_ok_drive)

lemma gic_ok_settle: "gic_ok g \<Longrightarrow> settle g = Some g' \<Longrightarrow> gic_ok g'"
  using gic_ok_distribute [of "g\<lparr>notified := False\<rparr>" g'] by (auto simp: settle_def split: if_splits)

lemma gic_ok_inputs:
  assumes "gic_ok g"
  shows "gic_ok (new_spi_word32 base data g)" "gic_ok (ppi_changed ppi g)"
proof -
  show "gic_ok (new_spi_word32 base data g)" using assms by (simp add: new_spi_word32_def) (simp add: gic_ok_def)
  show "gic_ok (ppi_changed ppi g)"
    unfolding ppi_changed_def gic_ok_notify using assms
    by (intro gic_ok_fold gic_ok_upd_cpu) (simp_all add: cpu_ok_def)
qed

lemma gic_ok_ReadCPU:
  assumes "gic_ok g" "ReadCPU reg cpuID g = Some (v, g')"
  shows "gic_ok g'"
proof -
  have ack: "gic_ok g'" if "notify_int_acknowledge grp cpuID g = Some (v, g')" for grp
  proof -
    have u: "gic_ok (upd_cpu cpuID (\<lambda>c. c\<lparr>c_unmasked := w c\<rparr>) g)" for w
      using assms(1) by (intro gic_ok_upd_cpu) (simp_all add: cpu_ok_def)
    have s: "gic_ok (g\<lparr>d_unmasked := (d_unmasked g)[i := w]\<rparr>)" for i w using assms(1) by (simp add: gic_ok_def)
    have "gic_ok (take_request no src cpuID g)" for no src
      using assms(1) u s by (simp add: take_request_def gic_ok_sgi Let_def)
    note t = this
    from that show ?thesis
      unfolding notify_int_acknowledge_def Let_def
      by (elim if_SomeE) (auto simp: bind_eq_Some_conv dest!: gic_ok_reg_upd intro: t)
  qed
  from assms(2) show ?thesis
    unfolding ReadCPU_def by (elim if_SomeE) (use assms(1) ack in \<open>auto split: option.splits\<close>)
qed

lemma gic_ok_WriteCPU:
  assumes "gic_ok g" "WriteCPU reg cpuID d g = Some g'"
  shows "gic_ok g'"
proof -
  have "gic_ok (upd_cpu cpuID (cpu_reg_put reg d) g)"
    using assms(1) by (intro gic_ok_upd_cpu) (simp_all add: cpu_reg_put_def cpu_ok_def)
  then show ?thesis
    using assms gic_ok_reg_upd by (auto simp: WriteCPU_def notify_end_of_int_def Let_def split: if_splits)
qed

text \<open>Everything that can happen to the controller.\<close>

inductive gic_step :: "gic \<Rightarrow> gic \<Rightarrow> bool" where
  bus_read: "b_read cpuID address g = Some (v, g') \<Longrightarrow> gic_step g g'"
| bus_write: "b_write cpuID address data lanes g = Some g' \<Longrightarrow> gic_step g g'"
| shared_lines: "base \<in> {32, 64, 96} \<Longrightarrow> length lines = 32 \<Longrightarrow> gic_step g (spi_word base lines g)"
| private_lines: "gic_step g (ppi_changed ppi g)"
| settles: "settle g = Some g' \<Longrightarrow> gic_step g g'"

lemma gic_step_ok: "gic_step g g' \<Longrightarrow> gic_ok g \<Longrightarrow> gic_ok g'"
proof (induction rule: gic_step.induct)
  case (bus_read cpuID address g v g')
  from bus_read(1) show ?case
    unfolding b_read_def Let_def by (elim if_SomeE) (use bus_read(2) gic_ok_ReadCPU in auto)
next
  case (bus_write cpuID address data lanes g g')
  from bus_write(1) show ?case
    unfolding b_write_def Let_def
    by (elim if_SomeE) (auto intro: gic_ok_WriteDist [OF bus_write(2)] gic_ok_WriteCPU [OF bus_write(2)])
next
  case (shared_lines base lines g)
  then show ?case by (simp add: spi_word_def gic_ok_inputs)
next
  case (private_lines g ppi)
  then show ?case by (simp add: gic_ok_inputs)
next
  case (settles g g')
  then show ?case using gic_ok_settle by blast
qed

lemma gic_new_ok: "gic_new n = Some g \<Longrightarrow> gic_ok g"
  by (auto simp: gic_new_def gic_ok_def cpu_ok_def cpu_new_def GIC_MAX_N_CPUS_def split: if_splits)

section \<open>The registers the distribution reads\<close>

definition enables_of :: "gic \<Rightarrow> nat \<Rightarrow> nat \<Rightarrow> u32" where
  "enables_of g cpu sgi = (if sgi = 0 then c_enables (cpustate g ! cpu) else d_enables g ! sgi)"

definition group_of :: "gic \<Rightarrow> nat \<Rightarrow> nat \<Rightarrow> nat" where
  "group_of g cpu no =
    (if bit (if no < 32 then c_igroup (cpustate g ! cpu) else d_igroup g ! (no div 32)) (no mod 32) then 1 else 0)"

definition pri_of :: "gic \<Rightarrow> nat \<Rightarrow> nat \<Rightarrow> u32" where
  "pri_of g cpu no =
    drop_bit (8 * (no mod 4)) (if no < 16 then c_priorities (cpustate g ! cpu) ! (no div 4) else d_priorities g ! (no div 4))
    AND 0xFF"

lemma bit_regs:
  assumes "n < 32"
  shows "0x80 \<le> word_reg 0x80 n" "word_reg 0x80 n < 0x100" "unat (drop_bit 2 (word_reg 0x80 n) AND 31) = n"
    "0x100 \<le> word_reg 0x100 n" "word_reg 0x100 n < 0x180" "unat (drop_bit 2 (word_reg 0x100 n) AND 31) = n"
    "0x280 \<le> word_reg 0x280 n" "word_reg 0x280 n < 0x300" "unat (drop_bit 2 (word_reg 0x280 n) AND 31) = n"
    "0x300 \<le> word_reg 0x300 n" "word_reg 0x300 n < 0x380" "unat (drop_bit 2 (word_reg 0x300 n) AND 31) = n"
    "0x380 \<le> word_reg 0x380 n" "word_reg 0x380 n < 0x400" "unat (drop_bit 2 (word_reg 0x380 n) AND 31) = n"
proof -
  have all: "\<forall>n \<in> set [0..<32]. 0x80 \<le> word_reg 0x80 n \<and> word_reg 0x80 n < 0x100 \<and> unat (drop_bit 2 (word_reg 0x80 n) AND 31) = n \<and>
    0x100 \<le> word_reg 0x100 n \<and> word_reg 0x100 n < 0x180 \<and> unat (drop_bit 2 (word_reg 0x100 n) AND 31) = n \<and>
    0x280 \<le> word_reg 0x280 n \<and> word_reg 0x280 n < 0x300 \<and> unat (drop_bit 2 (word_reg 0x280 n) AND 31) = n \<and>
    0x300 \<le> word_reg 0x300 n \<and> word_reg 0x300 n < 0x380 \<and> unat (drop_bit 2 (word_reg 0x300 n) AND 31) = n \<and>
    0x380 \<le> word_reg 0x380 n \<and> word_reg 0x380 n < 0x400 \<and> unat (drop_bit 2 (word_reg 0x380 n) AND 31) = n"
    by code_simp
  have "n \<in> set [0..<32]" using assms by simp
  from bspec [OF all this] show "0x80 \<le> word_reg 0x80 n" "word_reg 0x80 n < 0x100" "unat (drop_bit 2 (word_reg 0x80 n) AND 31) = n"
    "0x100 \<le> word_reg 0x100 n" "word_reg 0x100 n < 0x180" "unat (drop_bit 2 (word_reg 0x100 n) AND 31) = n"
    "0x280 \<le> word_reg 0x280 n" "word_reg 0x280 n < 0x300" "unat (drop_bit 2 (word_reg 0x280 n) AND 31) = n"
    "0x300 \<le> word_reg 0x300 n" "word_reg 0x300 n < 0x380" "unat (drop_bit 2 (word_reg 0x300 n) AND 31) = n"
    "0x380 \<le> word_reg 0x380 n" "word_reg 0x380 n < 0x400" "unat (drop_bit 2 (word_reg 0x380 n) AND 31) = n"
    by blast+
qed

lemma pri_regs:
  assumes "n < 256"
  shows "0x400 \<le> word_reg 0x400 n" "word_reg 0x400 n < 0x800" "unat (drop_bit 2 (word_reg 0x400 n) AND 255) = n"
proof -
  have all: "\<forall>n \<in> set [0..<256]. 0x400 \<le> word_reg 0x400 n \<and> word_reg 0x400 n < 0x800 \<and>
    unat (drop_bit 2 (word_reg 0x400 n) AND 255) = n"
    by code_simp
  have "n \<in> set [0..<256]" using assms by simp
  from bspec [OF all this] show "0x400 \<le> word_reg 0x400 n" "word_reg 0x400 n < 0x800"
    "unat (drop_bit 2 (word_reg 0x400 n) AND 255) = n" by blast+
qed

lemma reg_ranges: "(a :: u32) \<le> r \<Longrightarrow> b \<le> a \<Longrightarrow> \<not> r < b" "(r :: u32) < a \<Longrightarrow> a \<le> b \<Longrightarrow> \<not> b \<le> r"
  by (simp_all add: not_less not_le less_le_trans)

lemma dist_bit_reg:
  assumes "n < 32" "cpu < n_cpus g"
  shows "dist_addresser g (word_reg 0x80 n) (int cpu) = Some (if n = 0 then Banked IgroupF cpu 0 else Shared IgroupF n)"
    "dist_addresser g (word_reg 0x100 n) (int cpu) = Some (if n = 0 then Banked EnablesF cpu 0 else Shared EnablesF n)"
    "dist_addresser g (word_reg 0x280 n) (int cpu) = Some (if n = 0 then Banked PendingsF cpu 0 else Shared PendingsF n)"
    "dist_addresser g (word_reg 0x300 n) (int cpu) = Some (if n = 0 then Banked ActivesF cpu 0 else Shared ActivesF n)"
    "dist_addresser g (word_reg 0x380 n) (int cpu) = Some (if n = 0 then Banked ActivesF cpu 0 else Shared ActivesF n)"
proof -
  note b = bit_regs [OF assms(1)]
  have le: "word_reg 0x100 n < 0x200" "word_reg 0x280 n < 0x300" "0x200 \<le> word_reg 0x280 n"
    "word_reg 0x300 n < 0x400" "0x300 \<le> word_reg 0x380 n"
    using less_le_trans [OF b(5), of "0x200"] b(8) order_trans [OF _ b(7), of "0x200"] less_le_trans [OF b(11), of "0x400"]
      order_trans [OF _ b(13), of "0x300"] by simp_all
  show "dist_addresser g (word_reg 0x80 n) (int cpu) = Some (if n = 0 then Banked IgroupF cpu 0 else Shared IgroupF n)"
    using b(1-3) assms(2) by (simp add: dist_addresser_def Let_def)
  show "dist_addresser g (word_reg 0x100 n) (int cpu) = Some (if n = 0 then Banked EnablesF cpu 0 else Shared EnablesF n)"
    using b(4,6) le(1) reg_ranges(1) [OF b(4)] assms(2) by (simp add: dist_addresser_def Let_def)
  show "dist_addresser g (word_reg 0x280 n) (int cpu) = Some (if n = 0 then Banked PendingsF cpu 0 else Shared PendingsF n)"
    using b(8,9) le(3) reg_ranges(1) [OF b(7)] assms(2) by (simp add: dist_addresser_def Let_def)
  show "dist_addresser g (word_reg 0x300 n) (int cpu) = Some (if n = 0 then Banked ActivesF cpu 0 else Shared ActivesF n)"
    using b(10,12) le(4) reg_ranges(1) [OF b(10)] assms(2) by (simp add: dist_addresser_def Let_def)
  show "dist_addresser g (word_reg 0x380 n) (int cpu) = Some (if n = 0 then Banked ActivesF cpu 0 else Shared ActivesF n)"
    using b(14,15) le(5) reg_ranges(1) [OF b(13)] assms(2) by (simp add: dist_addresser_def Let_def)
qed

lemma read_bit_reg:
  assumes "gic_ok g" "n < 32" "cpu < n_cpus g"
  shows "ReadDist g (word_reg 0x100 n) (int cpu) = Some (enables_of g cpu n)"
    "ReadDist g (word_reg 0x80 n) (int cpu) = Some (if n = 0 then c_igroup (cpustate g ! cpu) else d_igroup g ! n)"
proof -
  note b = bit_regs [OF assms(2)]
  have "\<not> word_reg 0x100 n < 0x80" "\<not> 0xF10 \<le> word_reg 0x100 n" "\<not> word_reg 0x80 n < 0x80" "\<not> 0xF10 \<le> word_reg 0x80 n"
    using reg_ranges(1) [OF b(4), of "0x80"] reg_ranges(2) [OF b(5), of "0xF10"] reg_ranges(1) [OF b(1), of "0x80"]
      reg_ranges(2) [OF b(2), of "0xF10"] by simp_all
  then show "ReadDist g (word_reg 0x100 n) (int cpu) = Some (enables_of g cpu n)"
    "ReadDist g (word_reg 0x80 n) (int cpu) = Some (if n = 0 then c_igroup (cpustate g ! cpu) else d_igroup g ! n)"
    using assms gic_ok_lengths [OF assms(1)] by (simp_all add: ReadDist_def dist_bit_reg enables_of_def)
qed

lemma read_pri_reg:
  assumes "gic_ok g" "no < 1024" "cpu < n_cpus g"
  shows "ReadDist g (word_reg 0x400 (no div 4)) (int cpu) =
    Some (if no < 16 then c_priorities (cpustate g ! cpu) ! (no div 4) else d_priorities g ! (no div 4))"
proof -
  let ?n = "no div 4"
  have n: "?n < 256" "?n < 4 \<longleftrightarrow> no < 16" using assms(2) by auto
  note p = pri_regs [OF n(1)]
  have "\<not> word_reg 0x400 ?n < 0x80" "\<not> 0xF10 \<le> word_reg 0x400 ?n" "\<not> word_reg 0x400 ?n < 0x100" "\<not> word_reg 0x400 ?n < 0x200"
      "\<not> word_reg 0x400 ?n < 0x300" "\<not> word_reg 0x400 ?n < 0x400"
    using reg_ranges(1) [OF p(1)] reg_ranges(2) [OF p(2), of "0xF10"] by simp_all
  moreover have "cpu_ok (cpustate g ! cpu)" using gic_ok_cpu gic_ok_lengths(6) [OF assms(1)] assms by simp
  ultimately show ?thesis
    using assms p n gic_ok_lengths [OF assms(1)]
    by (simp add: ReadDist_def dist_addresser_def cpu_ok_def Let_def)
qed

section \<open>Candidates\<close>

text \<open>An interrupt is a candidate for a core when it is requested or active, enabled, in a group that both
  the distributor and the core enable, and, for the shared interrupts 32 to 95, the core is core 0.\<close>

definition requested :: "gic \<Rightarrow> nat \<Rightarrow> nat \<Rightarrow> bool" where
  "requested g cpu no \<longleftrightarrow>
    bit (read_requesting_disjunction (no div 32) cpu g AND enables_of g cpu (no div 32)) (no mod 32)"

definition eligible :: "gic \<Rightarrow> nat \<Rightarrow> nat \<Rightarrow> nat \<Rightarrow> bool" where
  "eligible g cpu grp no \<longleftrightarrow> group_of g cpu no = grp \<and> (if grp = 1 then EnableGrp1 g else EnableGrp0 g)
     \<and> bit (CTL (cpustate g ! cpu)) grp \<and> (32 \<le> no \<and> no \<le> 95 \<longrightarrow> cpu = 0)"

definition candidate :: "gic \<Rightarrow> nat \<Rightarrow> nat \<Rightarrow> nat \<Rightarrow> bool" where
  "candidate g cpu grp no \<longleftrightarrow> no < 1024 \<and> requested g cpu no \<and> eligible g cpu grp no"

text \<open>The interrupt to be signalled: the least number of the least priority value.\<close>

definition leads :: "gic \<Rightarrow> nat \<Rightarrow> nat \<Rightarrow> nat \<Rightarrow> bool" where
  "leads g cpu grp no \<longleftrightarrow> candidate g cpu grp no \<and>
    (\<forall>k. candidate g cpu grp k \<longrightarrow> pri_of g cpu no < pri_of g cpu k \<or> pri_of g cpu no = pri_of g cpu k \<and> no \<le> k)"

lemma offer_eq:
  assumes "gic_ok g" "cpu < n_cpus g" "no < 1024"
  shows "offer g cpu no L = Some (let grp = group_of g cpu no in
    if eligible g cpu grp no \<and> (case L (grp, cpu) of None \<Rightarrow> True | Some (lopri, _) \<Rightarrow> pri_of g cpu no < lopri)
    then L((grp, cpu) := Some (pri_of g cpu no, no)) else L)"
proof -
  have d: "no div 32 < 32" "no div 32 = 0 \<longleftrightarrow> no < 32" using assms(3) by auto
  note r = read_bit_reg(2) [OF assms(1) d(1) assms(2), unfolded d(2)] read_pri_reg [OF assms(1,3,2)]
  show ?thesis
  proof (cases "32 \<le> no \<and> no \<le> 95 \<and> cpu \<noteq> 0")
    case True
    then show ?thesis by (simp add: offer_def eligible_def Let_def)
  next
    case False
    then have e: "eligible g cpu grp no \<longleftrightarrow> group_of g cpu no = grp \<and> (if grp = 1 then EnableGrp1 g else EnableGrp0 g)
      \<and> bit (CTL (cpustate g ! cpu)) grp" for grp
      by (auto simp: eligible_def)
    show ?thesis
      unfolding offer_def if_not_P [OF False] r e
      by (simp only: Option.bind.simps Let_def group_of_def pri_of_def simp_thms conj_ac)
  qed
qed

section \<open>What the distribution selects\<close>

text \<open>The leaders of the interrupts looked at so far.\<close>

definition leads_in :: "gic \<Rightarrow> (nat \<Rightarrow> nat \<Rightarrow> bool) \<Rightarrow> leaders \<Rightarrow> bool" where
  "leads_in g S L \<longleftrightarrow> (\<forall>grp cpu. case L (grp, cpu) of
      None \<Rightarrow> \<forall>no. S cpu no \<longrightarrow> \<not> candidate g cpu grp no
    | Some (p, no) \<Rightarrow> S cpu no \<and> candidate g cpu grp no \<and> p = pri_of g cpu no \<and>
        (\<forall>k. S cpu k \<longrightarrow> candidate g cpu grp k \<longrightarrow>
           pri_of g cpu no < pri_of g cpu k \<or> pri_of g cpu no = pri_of g cpu k \<and> no \<le> k))"

lemma leads_inD:
  assumes "leads_in g S L"
  shows "L (grp, cpu) = None \<Longrightarrow> S cpu no \<Longrightarrow> \<not> candidate g cpu grp no"
    "L (grp, cpu) = Some (p, no) \<Longrightarrow> S cpu no \<and> candidate g cpu grp no \<and> p = pri_of g cpu no"
    "L (grp, cpu) = Some (p, no) \<Longrightarrow> S cpu k \<Longrightarrow> candidate g cpu grp k \<Longrightarrow>
      pri_of g cpu no < pri_of g cpu k \<or> pri_of g cpu no = pri_of g cpu k \<and> no \<le> k"
  using assms [unfolded leads_in_def, rule_format, of cpu grp] by auto

lemma leads_in_cong:
  assumes "leads_in g S L" "\<And>cpu no. S' cpu no = S cpu no"
  shows "leads_in g S' L"
proof -
  have "S' = S" using assms(2) by (intro ext)
  with assms(1) show ?thesis by simp
qed

text \<open>An interrupt that is no candidate can be skipped, and one that is comes after those before it.\<close>

lemma leads_in_skip:
  assumes "leads_in g S L" "\<And>grp. \<not> candidate g cpu grp no \<or>
      (\<exists>p k. L (grp, cpu) = Some (p, k) \<and> \<not> pri_of g cpu no < p \<and> k \<le> no)"
  shows "leads_in g (\<lambda>c k. S c k \<or> c = cpu \<and> k = no) L"
  unfolding leads_in_def
proof (intro allI)
  fix grp c
  show "case L (grp, c) of
      None \<Rightarrow> \<forall>k. S c k \<or> c = cpu \<and> k = no \<longrightarrow> \<not> candidate g c grp k
    | Some (p, l) \<Rightarrow> (S c l \<or> c = cpu \<and> l = no) \<and> candidate g c grp l \<and> p = pri_of g c l \<and>
        (\<forall>k. S c k \<or> c = cpu \<and> k = no \<longrightarrow> candidate g c grp k \<longrightarrow>
           pri_of g c l < pri_of g c k \<or> pri_of g c l = pri_of g c k \<and> l \<le> k)"
  proof (cases "L (grp, c)")
    case None
    then show ?thesis using leads_inD(1) [OF assms(1) None] assms(2) [of grp] by auto
  next
    case (Some x)
    then obtain p l where L: "L (grp, c) = Some (p, l)" by (cases x) auto
    note d = leads_inD(2) [OF assms(1) L] leads_inD(3) [OF assms(1) L]
    have "pri_of g c l < pri_of g c k \<or> pri_of g c l = pri_of g c k \<and> l \<le> k"
      if "S c k \<or> c = cpu \<and> k = no" "candidate g c grp k" for k
      using that d assms(2) [of grp] L by (cases "S c k") (auto simp: not_less order_le_less)
    then show ?thesis using d L by auto
  qed
qed

lemma leads_in_take:
  assumes "leads_in g S L" "candidate g cpu grp no" "\<And>k. S cpu k \<Longrightarrow> k < no"
    and "\<And>p k. L (grp, cpu) = Some (p, k) \<Longrightarrow> pri_of g cpu no < p"
  shows "leads_in g (\<lambda>c k. S c k \<or> c = cpu \<and> k = no) (L((grp, cpu) := Some (pri_of g cpu no, no)))"
  unfolding leads_in_def
proof (intro allI)
  fix q c
  show "case (L((grp, cpu) := Some (pri_of g cpu no, no))) (q, c) of
      None \<Rightarrow> \<forall>k. S c k \<or> c = cpu \<and> k = no \<longrightarrow> \<not> candidate g c q k
    | Some (p, l) \<Rightarrow> (S c l \<or> c = cpu \<and> l = no) \<and> candidate g c q l \<and> p = pri_of g c l \<and>
        (\<forall>k. S c k \<or> c = cpu \<and> k = no \<longrightarrow> candidate g c q k \<longrightarrow>
           pri_of g c l < pri_of g c k \<or> pri_of g c l = pri_of g c k \<and> l \<le> k)"
  proof (cases "q = grp \<and> c = cpu")
    case True
    have "pri_of g cpu no < pri_of g cpu k" if k: "S cpu k" "candidate g cpu grp k" for k
    proof (cases "L (grp, cpu)")
      case None
      then show ?thesis using leads_inD(1) [OF assms(1) None k(1)] k(2) by simp
    next
      case (Some x)
      then obtain p l where L: "L (grp, cpu) = Some (p, l)" by (cases x) auto
      have "p \<le> pri_of g cpu k" using leads_inD(2) [OF assms(1) L] leads_inD(3) [OF assms(1) L k] by (auto simp: less_imp_le)
      then show ?thesis using assms(4) [OF L] by simp
    qed
    then show ?thesis using True assms(2) by auto
  next
    case False
    then have n: "\<not> (c = cpu \<and> candidate g c q no)" using assms(2) by (auto simp: candidate_def eligible_def)
    have e: "(L((grp, cpu) := Some (pri_of g cpu no, no))) (q, c) = L (q, c)" using False by auto
    show ?thesis
      unfolding e using n assms(1) [unfolded leads_in_def, rule_format, of c q]
      by (cases "L (q, c)") auto
  qed
qed

lemma offer_leads:
  assumes "gic_ok g" "cpu < n_cpus g" "no < 1024" "leads_in g S L" "\<And>k. S cpu k \<Longrightarrow> k < no"
  shows "\<exists>L'. (if requested g cpu no then offer g cpu no L else Some L) = Some L' \<and>
    leads_in g (\<lambda>c k. S c k \<or> c = cpu \<and> k = no) L'"
proof (cases "requested g cpu no")
  case False
  then have "\<not> candidate g cpu grp no" for grp by (simp add: candidate_def)
  then show ?thesis using False leads_in_skip [OF assms(4)] by (intro exI [of _ L]) simp
next
  case True
  let ?grp = "group_of g cpu no"
  have cand: "candidate g cpu grp no \<longleftrightarrow> grp = ?grp \<and> eligible g cpu ?grp no" for grp
    using True assms(3) by (auto simp: candidate_def eligible_def)
  note off = offer_eq [OF assms(1-3), of L, unfolded Let_def]
  show ?thesis
  proof (cases "eligible g cpu ?grp no \<and> (case L (?grp, cpu) of None \<Rightarrow> True | Some (lopri, _) \<Rightarrow> pri_of g cpu no < lopri)")
    case take: True
    have "leads_in g (\<lambda>c k. S c k \<or> c = cpu \<and> k = no) (L((?grp, cpu) := Some (pri_of g cpu no, no)))"
      using take by (intro leads_in_take [OF assms(4)]) (simp_all add: cand assms(5))
    then show ?thesis unfolding off if_P [OF take] if_P [OF True] by (intro exI conjI) (rule refl)
  next
    case skip: False
    have "leads_in g (\<lambda>c k. S c k \<or> c = cpu \<and> k = no) L"
    proof (rule leads_in_skip [OF assms(4)])
      fix grp
      show "\<not> candidate g cpu grp no \<or> (\<exists>p k. L (grp, cpu) = Some (p, k) \<and> \<not> pri_of g cpu no < p \<and> k \<le> no)"
      proof (cases "candidate g cpu grp no")
        case c: True
        then obtain p k where L: "L (?grp, cpu) = Some (p, k)" "\<not> pri_of g cpu no < p"
          using skip cand by (cases "L (?grp, cpu)") auto
        then show ?thesis using c cand assms(5) leads_inD(2) [OF assms(4) L(1)] by (auto intro: less_imp_le)
      qed simp
    qed
    then show ?thesis unfolding off if_not_P [OF skip] if_P [OF True] by (intro exI conjI) (rule refl)
  qed
qed

lemma word_leads:
  assumes "gic_ok g" "cpu < n_cpus g" "sgi < 32" "leads_in g S L" "\<And>k. S cpu k \<Longrightarrow> k < 32 * sgi"
  shows "\<exists>L'. offer_word g (sgi, cpu) L = Some L' \<and> leads_in g (\<lambda>c k. S c k \<or> c = cpu \<and> 32 * sgi \<le> k \<and> k < 32 * sgi + 32) L'"
proof -
  let ?req = "read_requesting_disjunction sgi cpu g AND enables_of g cpu sgi"
  let ?f = "\<lambda>b L. Option.bind L (\<lambda>L. if bit ?req b then offer g cpu (32 * sgi + b) L else Some L)"
  have "\<exists>L'. fold ?f [0..<m] (Some L) = Some L' \<and> leads_in g (\<lambda>c k. S c k \<or> c = cpu \<and> 32 * sgi \<le> k \<and> k < 32 * sgi + m) L'"
    if "m \<le> 32" for m
    using that
  proof (induction m)
    case 0
    show ?case by (intro exI [of _ L] conjI leads_in_cong [OF assms(4)]) auto
  next
    case (Suc m)
    let ?S = "\<lambda>c k. S c k \<or> c = cpu \<and> 32 * sgi \<le> k \<and> k < 32 * sgi + m"
    from Suc obtain L1 where L1: "fold ?f [0..<m] (Some L) = Some L1" "leads_in g ?S L1" by auto
    have lt: "32 * sgi + m < 1024" using Suc.prems assms(3) by simp
    have r: "requested g cpu (32 * sgi + m) \<longleftrightarrow> bit ?req m" using Suc.prems by (simp add: requested_def)
    have b: "k < 32 * sgi + m" if "?S cpu k" for k using that assms(5) [of k] by auto
    from offer_leads [OF assms(1,2) lt L1(2) b, unfolded r] obtain L2 where
      L2: "(if bit ?req m then offer g cpu (32 * sgi + m) L1 else Some L1) = Some L2"
        "leads_in g (\<lambda>c k. ?S c k \<or> c = cpu \<and> k = 32 * sgi + m) L2" by blast
    have "fold ?f [0..<Suc m] (Some L) = Some L2" using L1(1) L2(1) by simp
    moreover have "leads_in g (\<lambda>c k. S c k \<or> c = cpu \<and> 32 * sgi \<le> k \<and> k < 32 * sgi + Suc m) L2"
      by (rule leads_in_cong [OF L2(2)]) auto
    ultimately show ?case by blast
  qed
  from this [of 32] show ?thesis
    using read_bit_reg(1) [OF assms(1,3,2)] by (simp add: offer_word_def Let_def)
qed

lemma row_leads:
  assumes "gic_ok g" "sgi < 32" "leads_in g S L" "\<And>c k. S c k \<Longrightarrow> k < 32 * sgi" "m \<le> n_cpus g"
  shows "\<exists>L'. fold (\<lambda>p L. Option.bind L (offer_word g p)) (map (Pair sgi) [0..<m]) (Some L) = Some L' \<and>
    leads_in g (\<lambda>c k. S c k \<or> c < m \<and> 32 * sgi \<le> k \<and> k < 32 * sgi + 32) L'"
  using assms(5)
proof (induction m)
  case 0
  show ?case by (intro exI [of _ L] conjI leads_in_cong [OF assms(3)]) auto
next
  case (Suc m)
  let ?S = "\<lambda>c k. S c k \<or> c < m \<and> 32 * sgi \<le> k \<and> k < 32 * sgi + 32"
  from Suc obtain L1 where
    L1: "fold (\<lambda>p L. Option.bind L (offer_word g p)) (map (Pair sgi) [0..<m]) (Some L) = Some L1" "leads_in g ?S L1" by auto
  have b: "k < 32 * sgi" if "?S m k" for k using that assms(4) by auto
  have "m < n_cpus g" using Suc.prems by simp
  from word_leads [OF assms(1) this assms(2) L1(2) b] obtain L2 where
    L2: "offer_word g (sgi, m) L1 = Some L2" "leads_in g (\<lambda>c k. ?S c k \<or> c = m \<and> 32 * sgi \<le> k \<and> k < 32 * sgi + 32) L2"
    by blast
  have "leads_in g (\<lambda>c k. S c k \<or> c < Suc m \<and> 32 * sgi \<le> k \<and> k < 32 * sgi + 32) L2"
    by (rule leads_in_cong [OF L2(2)]) auto
  then show ?case using L1(1) L2(1) by simp
qed

lemma leaders_lead:
  assumes "gic_ok g"
  shows "\<exists>L. leaders_of g = Some L \<and> leads_in g (\<lambda>c k. c < n_cpus g \<and> k < 1024) L"
proof -
  let ?F = "\<lambda>p L. Option.bind L (offer_word g p)"
  have "\<exists>L. fold ?F (List.product [0..<t] [0..<n_cpus g]) (Some (\<lambda>_. None)) = Some L \<and>
    leads_in g (\<lambda>c k. c < n_cpus g \<and> k < 32 * t) L" if "t \<le> 32" for t
    using that
  proof (induction t)
    case 0
    then show ?case by (simp add: leads_in_def)
  next
    case (Suc t)
    then obtain L1 where
      L1: "fold ?F (List.product [0..<t] [0..<n_cpus g]) (Some (\<lambda>_. None)) = Some L1" "leads_in g (\<lambda>c k. c < n_cpus g \<and> k < 32 * t) L1"
      by auto
    have t: "t < 32" using Suc.prems by simp
    from row_leads [OF assms t L1(2), of "n_cpus g"] obtain L2 where
      L2: "fold ?F (map (Pair t) [0..<n_cpus g]) (Some L1) = Some L2"
        "leads_in g (\<lambda>c k. c < n_cpus g \<and> k < 32 * t \<or> c < n_cpus g \<and> 32 * t \<le> k \<and> k < 32 * t + 32) L2" by auto
    have "List.product [0..<Suc t] [0..<n_cpus g] = List.product [0..<t] [0..<n_cpus g] @ map (Pair t) [0..<n_cpus g]"
      by (simp add: product_concat_map)
    then have "fold ?F (List.product [0..<Suc t] [0..<n_cpus g]) (Some (\<lambda>_. None)) = Some L2" using L1(1) L2(1) by simp
    moreover have "leads_in g (\<lambda>c k. c < n_cpus g \<and> k < 32 * Suc t) L2"
      by (rule leads_in_cong [OF L2(2)]) auto
    ultimately show ?case by blast
  qed
  from this [of 32] show ?thesis by (simp add: leaders_of_def scan_order_def GIC_INTERRUPT_LIMIT_def)
qed

text \<open>The outputs.\<close>

lemma take_leader_sel [simp]:
  "CTL (take_leader grp l c) = CTL c" "c_unmasked (take_leader grp l c) = c_unmasked c" "c_actives (take_leader grp l c) = c_actives c"
  "c_enables (take_leader grp l c) = c_enables c" "c_igroup (take_leader grp l c) = c_igroup c"
  "c_priorities (take_leader grp l c) = c_priorities c" "sgi_matrix (take_leader grp l c) = sgi_matrix c"
  "c_pendings (take_leader grp l c) = c_pendings c"
  by (simp_all add: take_leader_def split: option.split)

lemma take_leader_nth:
  assumes "cpu_ok c" "q < 2" "grp < 2"
  shows "IA (take_leader grp l c) ! q = (if q = grp then (case l of None \<Rightarrow> 0x3FF | Some (p, no) \<Rightarrow> of_nat no) else IA c ! q)"
  using assms by (auto simp: take_leader_def cpu_ok_def split: option.split)

definition lead_cpu :: "leaders \<Rightarrow> nat \<Rightarrow> gic_cpu \<Rightarrow> gic_cpu" where
  "lead_cpu L n c = take_leader 1 (L (1, n)) (take_leader 0 (L (0, n)) c)"

lemma drive_sel [simp]:
  assumes "gic_ok g"
  shows "n_cpus (drive L n g) = n_cpus g" "EnableGrp0 (drive L n g) = EnableGrp0 g" "EnableGrp1 (drive L n g) = EnableGrp1 g"
    "d_unmasked (drive L n g) = d_unmasked g" "d_actives (drive L n g) = d_actives g" "d_enables (drive L n g) = d_enables g"
    "d_igroup (drive L n g) = d_igroup g" "d_priorities (drive L n g) = d_priorities g" "d_pendings (drive L n g) = d_pendings g"
    "notified (drive L n g) = notified g"
    "m < 32 \<Longrightarrow> cpustate (drive L n g) ! m = (if m = n then lead_cpu L n (cpustate g ! m) else cpustate g ! m)"
    "m < 32 \<Longrightarrow> IRQ_out (drive L n g) ! m = (if m = n then L (0, n) \<noteq> None \<and> \<not> bit (CTL (cpustate g ! 0)) 8 \<or> L (1, n) \<noteq> None
       else IRQ_out g ! m)"
    "m < 32 \<Longrightarrow> FIQ_out (drive L n g) ! m = (if m = n then L (0, n) \<noteq> None \<and> bit (CTL (cpustate g ! 0)) 8 else FIQ_out g ! m)"
  using assms by (simp_all add: drive_def Let_def lead_cpu_def gic_ok_lengths nth_list_update)

text \<open>What has changed once the outputs of the first \<open>t\<close> cores have been driven.\<close>

definition driven :: "leaders \<Rightarrow> nat \<Rightarrow> gic \<Rightarrow> gic \<Rightarrow> bool" where
  "driven L t g g' \<longleftrightarrow> gic_ok g' \<and> n_cpus g' = n_cpus g \<and> EnableGrp0 g' = EnableGrp0 g \<and> EnableGrp1 g' = EnableGrp1 g \<and>
    d_unmasked g' = d_unmasked g \<and> d_actives g' = d_actives g \<and> d_enables g' = d_enables g \<and> d_igroup g' = d_igroup g \<and>
    d_priorities g' = d_priorities g \<and> d_pendings g' = d_pendings g \<and> notified g' = notified g \<and>
    (\<forall>m < 32. cpustate g' ! m = (if m < t then lead_cpu L m (cpustate g ! m) else cpustate g ! m) \<and>
      IRQ_out g' ! m = (if m < t then L (0, m) \<noteq> None \<and> \<not> bit (CTL (cpustate g ! 0)) 8 \<or> L (1, m) \<noteq> None else IRQ_out g ! m) \<and>
      FIQ_out g' ! m = (if m < t then L (0, m) \<noteq> None \<and> bit (CTL (cpustate g ! 0)) 8 else FIQ_out g ! m))"

lemma drives:
  assumes "gic_ok g" "t \<le> 32"
  shows "driven L t g (fold (drive L) [0..<t] g)"
  using assms(2)
proof (induction t)
  case 0
  then show ?case using assms(1) by (simp add: driven_def)
next
  case (Suc t)
  let ?h = "fold (drive L) [0..<t] g"
  have d: "driven L t g ?h" using Suc by simp
  then have h: "gic_ok ?h" by (simp add: driven_def)
  have ctl: "CTL (cpustate ?h ! 0) = CTL (cpustate g ! 0)" using d by (simp add: driven_def lead_cpu_def)
  have "driven L (Suc t) g (drive L t ?h)"
    unfolding driven_def using d [unfolded driven_def] gic_ok_drive [OF h, of L t] ctl h by (simp add: less_Suc_eq)
  then show ?case by simp
qed

lemma sgi_flags_cong: "sgi_matrix c = sgi_matrix c' \<Longrightarrow> sgi_flags c = sgi_flags c'"
  by (simp add: sgi_flags_def raw_pending_def)

lemma driven_same:
  assumes "driven L t g g'" "cpu < 32"
  shows "candidate g' cpu grp no = candidate g cpu grp no" "pri_of g' cpu no = pri_of g cpu no"
    "leads g' cpu grp no = leads g cpu grp no"
proof -
  have s: "sgi_matrix (cpustate g' ! cpu) = sgi_matrix (cpustate g ! cpu)" "c_actives (cpustate g' ! cpu) = c_actives (cpustate g ! cpu)"
    "c_unmasked (cpustate g' ! cpu) = c_unmasked (cpustate g ! cpu)" "c_enables (cpustate g' ! cpu) = c_enables (cpustate g ! cpu)"
    "c_igroup (cpustate g' ! cpu) = c_igroup (cpustate g ! cpu)" "CTL (cpustate g' ! cpu) = CTL (cpustate g ! cpu)"
    "c_priorities (cpustate g' ! cpu) = c_priorities (cpustate g ! cpu)"
    using assms by (simp_all add: driven_def lead_cpu_def)
  have d: "d_unmasked g' = d_unmasked g" "d_actives g' = d_actives g" "d_enables g' = d_enables g" "d_igroup g' = d_igroup g"
    "d_priorities g' = d_priorities g" "EnableGrp0 g' = EnableGrp0 g" "EnableGrp1 g' = EnableGrp1 g"
    using assms(1) by (simp_all add: driven_def)
  have c: "candidate g' cpu q no = candidate g cpu q no" for q no
    unfolding candidate_def requested_def eligible_def read_requesting_disjunction_def enables_of_def group_of_def
      sgi_flags_cong [OF s(1)] s d Let_def by (rule refl)
  have p: "pri_of g' cpu no = pri_of g cpu no" for no unfolding pri_of_def s d by (rule refl)
  show "candidate g' cpu grp no = candidate g cpu grp no" "pri_of g' cpu no = pri_of g cpu no"
    "leads g' cpu grp no = leads g cpu grp no"
    by (simp_all add: leads_def c p)
qed

lemma candidate_group: "candidate g cpu grp no \<Longrightarrow> grp < 2"
  by (auto simp: candidate_def eligible_def group_of_def split: if_splits)

lemma leader_leads:
  assumes "leads_in g (\<lambda>c k. c < n_cpus g \<and> k < 1024) L" "L (grp, cpu) \<noteq> None"
  shows "\<exists>no. leads g cpu grp no \<and> L (grp, cpu) = Some (pri_of g cpu no, no)"
proof -
  from assms(2) obtain p no where l: "L (grp, cpu) = Some (p, no)" by (cases "L (grp, cpu)") auto
  have "cpu < n_cpus g" "k < 1024" if "candidate g cpu grp k" for k
    using leads_inD(2) [OF assms(1) l] that by (auto simp: candidate_def)
  then have "leads g cpu grp no"
    using leads_inD(2) [OF assms(1) l] leads_inD(3) [OF assms(1) l] by (auto simp: leads_def)
  then show ?thesis using l leads_inD(2) [OF assms(1) l] by auto
qed

lemma no_leader:
  assumes "leads_in g (\<lambda>c k. c < n_cpus g \<and> k < 1024) L" "L (grp, cpu) = None" "cpu < n_cpus g"
  shows "\<not> candidate g cpu grp no"
  using leads_inD(1) [OF assms(1,2), of no] assms(3) by (auto simp: candidate_def)

lemma driven_IA:
  assumes "gic_ok g" "driven L (n_cpus g) g g'" "cpu < n_cpus g" "grp < 2"
  shows "IA (cpustate g' ! cpu) ! grp = (case L (grp, cpu) of None \<Rightarrow> 0x3FF | Some (p, no) \<Rightarrow> of_nat no)"
proof -
  have n: "n_cpus g \<le> 32" using gic_ok_lengths [OF assms(1)] by simp
  then have "cpu_ok (cpustate g ! cpu)" using gic_ok_cpu [OF assms(1)] assms(3) by simp
  moreover have "grp = 0 \<or> grp = 1" using assms(4) by auto
  ultimately show ?thesis
    using assms(2,3) n take_leader_ok by (auto simp: driven_def lead_cpu_def take_leader_nth)
qed

lemma driven_out:
  assumes "gic_ok g" "driven L (n_cpus g) g g'" "leads_in g (\<lambda>c k. c < n_cpus g \<and> k < 1024) L" "cpu < n_cpus g"
  shows "FIQ_out g' ! cpu \<longleftrightarrow> (\<exists>no. candidate g cpu 0 no) \<and> bit (CTL (cpustate g ! 0)) 8"
    "IRQ_out g' ! cpu \<longleftrightarrow> (\<exists>no. candidate g cpu 1 no) \<or> (\<exists>no. candidate g cpu 0 no) \<and> \<not> bit (CTL (cpustate g ! 0)) 8"
proof -
  have c: "cpu < 32" using assms(4) gic_ok_lengths(6) [OF assms(1)] by simp
  have l: "(\<exists>no. candidate g cpu grp no) \<longleftrightarrow> L (grp, cpu) \<noteq> None" for grp
    using no_leader [OF assms(3) _ assms(4)] leader_leads [OF assms(3)] leads_def by blast
  show "FIQ_out g' ! cpu \<longleftrightarrow> (\<exists>no. candidate g cpu 0 no) \<and> bit (CTL (cpustate g ! 0)) 8"
    "IRQ_out g' ! cpu \<longleftrightarrow> (\<exists>no. candidate g cpu 1 no) \<or> (\<exists>no. candidate g cpu 0 no) \<and> \<not> bit (CTL (cpustate g ! 0)) 8"
    unfolding l using assms(2,4) c by (auto simp: driven_def)
qed

text \<open>C10: The distribution of the requests always succeeds and signals to every core the right interrupt:
  in each group the acknowledge register holds the enabled, requested or active interrupt of the least
  priority value, and of the least number among those, or 1023 when there is none.  The outputs are exact:
  a candidate of group 1 raises the core's IRQ output, and one of group 0 raises FIQ or IRQ.  Which of the
  two is decided for all cores by bit 8 of the control register of core 0: that is what the code tests,
  although FIQEn is bit 3 of each core's register (the bit number passed is the value 1 << 3), so that
  FIQEn itself has no effect.\<close>

theorem distribute_highest:
  assumes "gic_ok g"
  shows "\<exists>g'. distribute g = Some g' \<and> gic_ok g' \<and> (\<forall>cpu < n_cpus g.
      (\<forall>grp < 2. (\<exists>no. leads g cpu grp no \<and> IA (cpustate g' ! cpu) ! grp = of_nat no) \<or>
         (\<forall>no. \<not> candidate g cpu grp no) \<and> IA (cpustate g' ! cpu) ! grp = 0x3FF) \<and>
      (FIQ_out g' ! cpu \<longleftrightarrow> (\<exists>no. candidate g cpu 0 no) \<and> bit (CTL (cpustate g ! 0)) 8) \<and>
      (IRQ_out g' ! cpu \<longleftrightarrow>
         (\<exists>no. candidate g cpu 1 no) \<or> (\<exists>no. candidate g cpu 0 no) \<and> \<not> bit (CTL (cpustate g ! 0)) 8))"
proof -
  obtain L where L: "leaders_of g = Some L" "leads_in g (\<lambda>c k. c < n_cpus g \<and> k < 1024) L"
    using leaders_lead [OF assms(1)] by blast
  let ?g' = "fold (drive L) [0..<n_cpus g] g"
  have d: "driven L (n_cpus g) g ?g'" using drives [OF assms(1)] gic_ok_lengths(6) [OF assms(1)] by blast
  have "(\<exists>no. leads g cpu grp no \<and> IA (cpustate ?g' ! cpu) ! grp = of_nat no) \<or>
      (\<forall>no. \<not> candidate g cpu grp no) \<and> IA (cpustate ?g' ! cpu) ! grp = 0x3FF" if c: "cpu < n_cpus g" "grp < 2" for cpu grp
  proof (cases "L (grp, cpu) = None")
    case True
    then show ?thesis using no_leader [OF L(2) True c(1)] driven_IA [OF assms(1) d c] by simp
  next
    case False
    then show ?thesis using leader_leads [OF L(2) False] driven_IA [OF assms(1) d c] by auto
  qed
  moreover have "distribute g = Some ?g'" using L(1) by (simp add: distribute_def)
  moreover have "gic_ok ?g'" using d by (simp add: driven_def)
  ultimately show ?thesis using driven_out [OF assms(1) d L(2)] by blast
qed

text \<open>A controller in which core 0 has set FIQEn (bit 3), and line 34 of group 0 is requested: IRQ is raised.\<close>

theorem distribute_highest_witness:
  "\<exists>g'. distribute (upd_cpu 0 (\<lambda>c. c\<lparr>CTL := 9\<rparr>) ((the (gic_new 1))\<lparr>EnableGrp0 := True, d_enables := (replicate 32 0)[1 := 4],
     d_unmasked := (replicate 32 0)[1 := 4]\<rparr>)) = Some g' \<and> IRQ_out g' ! 0 \<and> \<not> FIQ_out g' ! 0"
proof -
  let ?g = "upd_cpu 0 (\<lambda>c. c\<lparr>CTL := 9\<rparr>) ((the (gic_new 1))\<lparr>EnableGrp0 := True, d_enables := (replicate 32 0)[1 := 4],
     d_unmasked := (replicate 32 0)[1 := 4]\<rparr>)"
  have "gic_ok ?g" "\<not> bit (CTL (cpustate ?g ! 0)) 8" "0 < n_cpus ?g" "candidate ?g 0 0 34" by code_simp+
  with distribute_highest [of ?g] show ?thesis by blast
qed

end
