(* ===== verification/GicLife.thy ===== *)
theory GicLife
  imports GicProps
begin

unbundle bit_operations_syntax

text \<open>
  The life of an interrupt: requested, acknowledged by a read of the acknowledge register, active, and
  ended by a write of the end-of-interrupt register.
\<close>

section \<open>The register updates\<close>

lemma bit_exp32 [simp]: "bit (2 ^ (no mod 32) :: u32) i \<longleftrightarrow> i = no mod 32"
  by (auto simp: bit_exp_iff possible_bit_def)

lemma banked_bits [simp]:
  "banked_put PendingsF [x] = (\<lambda>c. c\<lparr>c_pendings := x\<rparr>)" "banked_put ActivesF [x] = (\<lambda>c. c\<lparr>c_actives := x\<rparr>)"
  by (simp_all add: fun_eq_iff)

lemma upd_cpu_cong: "f (cpustate g ! n) = h (cpustate g ! n) \<Longrightarrow> upd_cpu n f g = upd_cpu n h g"
  by (simp add: upd_cpu_def)

lemma upd_cpu_upd:
  "gic_ok g \<Longrightarrow> n < 32 \<Longrightarrow> upd_cpu n f (upd_cpu n h g) = upd_cpu n (\<lambda>c. f (h c)) g"
  by (simp add: upd_cpu_def gic_ok_lengths)

lemma reg_upd_pending:
  assumes "gic_ok g" "nn < 32" "cpu < n_cpus g"
  shows "reg_upd u (word_reg 0x280 nn) (int cpu) g = Some (if nn = 0
      then upd_cpu cpu (\<lambda>c. c\<lparr>c_pendings := u (c_pendings c)\<rparr>) g
      else g\<lparr>d_pendings := (d_pendings g)[nn := u (d_pendings g ! nn)]\<rparr>)"
  using assms by (simp add: reg_upd_def dist_bit_reg gic_ok_lengths Let_def) (auto intro: upd_cpu_cong)

lemma reg_upd_active:
  assumes "gic_ok g" "nn < 32" "cpu < n_cpus g" "base = 0x300 \<or> base = 0x380"
  shows "reg_upd u (word_reg base nn) (int cpu) g = Some (if nn = 0
      then upd_cpu cpu (\<lambda>c. c\<lparr>c_actives := u (c_actives c)\<rparr>) g
      else g\<lparr>d_actives := (d_actives g)[nn := u (d_actives g ! nn)]\<rparr>)"
proof -
  have "reg_upd u (word_reg base nn) (int cpu) g = loc_upd u g (if nn = 0 then Banked ActivesF cpu 0 else Shared ActivesF nn)"
    using assms(4) by (elim disjE) (simp_all add: reg_upd_def dist_bit_reg assms(2,3))
  then show ?thesis
    using assms(1-3) by (simp add: gic_ok_lengths Let_def) (auto intro: upd_cpu_cong)
qed

text \<open>The state after an acknowledgement of a private or shared interrupt, and after its end.\<close>

definition acked :: "nat \<Rightarrow> nat \<Rightarrow> gic \<Rightarrow> gic" where
  "acked no cpu g =
    (let nn = no div 32; b = 2 ^ (no mod 32)
     in if no < 32
        then upd_cpu cpu (\<lambda>c. c\<lparr>c_unmasked := c_unmasked c AND NOT b, c_pendings := c_pendings c AND b,
               c_actives := c_actives c OR b\<rparr>) g
        else g\<lparr>d_unmasked := (d_unmasked g)[nn := d_unmasked g ! nn AND NOT b],
               d_pendings := (d_pendings g)[nn := d_pendings g ! nn AND b],
               d_actives := (d_actives g)[nn := d_actives g ! nn OR b]\<rparr>)"

definition ended :: "nat \<Rightarrow> nat \<Rightarrow> gic \<Rightarrow> gic" where
  "ended no cpu g =
    (let nn = no div 32; b = 2 ^ (no mod 32)
     in if no < 32 then upd_cpu cpu (\<lambda>c. c\<lparr>c_actives := c_actives c AND NOT b\<rparr>) g
        else g\<lparr>d_actives := (d_actives g)[nn := d_actives g ! nn AND NOT b]\<rparr>)"

lemma acked_ok: "gic_ok g \<Longrightarrow> gic_ok (acked no cpu g)"
  unfolding acked_def Let_def
  by (cases "no < 32", simp only: if_True, rule gic_ok_upd_cpu, assumption, simp add: cpu_ok_def, simp add: gic_ok_def)

lemma acknowledge_private:
  assumes "gic_ok g" "cpu < n_cpus g" "16 \<le> no" "no < 32"
  shows "Option.bind (reg_upd (\<lambda>w. w AND 2 ^ (no mod 32)) (word_reg 0x280 (no div 32)) (int cpu) (take_request no src cpu g))
     (reg_upd (\<lambda>w. w OR 2 ^ (no mod 32)) (word_reg 0x300 (no div 32)) (int cpu)) = Some (acked no cpu g)"
proof -
  let ?b = "2 ^ (no mod 32) :: u32"
  let ?g1 = "upd_cpu cpu (\<lambda>c. c\<lparr>c_unmasked := c_unmasked c AND NOT ?b\<rparr>) g"
  let ?g2 = "upd_cpu cpu (\<lambda>c. c\<lparr>c_pendings := c_pendings c AND ?b\<rparr>) ?g1"
  have c: "cpu < 32" using assms(2) gic_ok_lengths(6) [OF assms(1)] by simp
  have ok1: "gic_ok ?g1" by (rule gic_ok_upd_cpu [OF assms(1)]) (simp add: cpu_ok_def)
  have ok2: "gic_ok ?g2" by (rule gic_ok_upd_cpu [OF ok1]) (simp add: cpu_ok_def)
  have "take_request no src cpu g = ?g1" using assms(3,4) by (simp add: take_request_def Let_def)
  moreover have "reg_upd (\<lambda>w. w AND ?b) (word_reg 0x280 0) (int cpu) ?g1 = Some ?g2"
    using reg_upd_pending [OF ok1, of 0 cpu] assms(2) by simp
  moreover have "reg_upd (\<lambda>w. w OR ?b) (word_reg 0x300 0) (int cpu) ?g2 =
      Some (upd_cpu cpu (\<lambda>c. c\<lparr>c_actives := c_actives c OR ?b\<rparr>) ?g2)"
    using reg_upd_active [OF ok2, of 0 cpu "0x300"] assms(2) by simp
  moreover have "upd_cpu cpu (\<lambda>c. c\<lparr>c_actives := c_actives c OR ?b\<rparr>) ?g2 = acked no cpu g"
    using assms(4) by (simp add: acked_def upd_cpu_upd [OF assms(1) c] upd_cpu_upd [OF ok1 c] Let_def)
  moreover have "no div 32 = 0" using assms(4) by simp
  ultimately show ?thesis by simp
qed

lemma acknowledge_shared:
  assumes "gic_ok g" "cpu < n_cpus g" "32 \<le> no" "no < 1021"
  shows "Option.bind (reg_upd (\<lambda>w. w AND 2 ^ (no mod 32)) (word_reg 0x280 (no div 32)) (int cpu) (take_request no src cpu g))
     (reg_upd (\<lambda>w. w OR 2 ^ (no mod 32)) (word_reg 0x300 (no div 32)) (int cpu)) = Some (acked no cpu g)"
proof -
  let ?b = "2 ^ (no mod 32) :: u32" and ?nn = "no div 32"
  let ?g1 = "g\<lparr>d_unmasked := (d_unmasked g)[?nn := d_unmasked g ! ?nn AND NOT ?b]\<rparr>"
  let ?g2 = "?g1\<lparr>d_pendings := (d_pendings g)[?nn := d_pendings g ! ?nn AND ?b]\<rparr>"
  have nn: "?nn < 32" "?nn \<noteq> 0" using assms(3,4) by auto
  have ok: "gic_ok ?g1" "gic_ok ?g2" using assms(1) by (simp_all add: gic_ok_def)
  have "take_request no src cpu g = ?g1" using assms(3,4) by (simp add: take_request_def Let_def)
  moreover have "reg_upd (\<lambda>w. w AND ?b) (word_reg 0x280 ?nn) (int cpu) ?g1 = Some ?g2"
    using reg_upd_pending [OF ok(1) nn(1), of cpu] assms(2) nn(2) by simp
  moreover have "reg_upd (\<lambda>w. w OR ?b) (word_reg 0x300 ?nn) (int cpu) ?g2 =
      Some (?g2\<lparr>d_actives := (d_actives g)[?nn := d_actives g ! ?nn OR ?b]\<rparr>)"
    using reg_upd_active [OF ok(2) nn(1), of cpu "0x300"] assms(2) nn(2) by simp
  moreover have "?g2\<lparr>d_actives := (d_actives g)[?nn := d_actives g ! ?nn OR ?b]\<rparr> = acked no cpu g"
    using assms(3) by (simp add: acked_def Let_def)
  ultimately show ?thesis by simp
qed

lemma small_not_negative: "no < 1024 \<Longrightarrow> \<not> bit (of_nat no :: u32) 31"
proof -
  assume "no < 1024"
  then have "unat (of_nat no :: u32) = no" "\<not> bit no 31" by (simp_all add: unat_of_nat bit_iff_odd)
  moreover have "bit (of_nat no :: u32) 31 \<longleftrightarrow> bit (unat (of_nat no :: u32)) 31" by (simp only: bit_unsigned_iff) simp
  ultimately show ?thesis by simp
qed

lemma acknowledge_eq:
  assumes "gic_ok g" "cpu < n_cpus g" "IA (cpustate g ! cpu) ! grp = of_nat no" "16 \<le> no" "no < 1021"
  shows "notify_int_acknowledge grp cpu g = Some (of_nat no, notify (acked no cpu g))"
proof -
  have u: "unat (of_nat no :: u32) = no" using assms(5) by (simp add: unat_of_nat)
  have s: "\<not> bit (of_nat no :: u32) 31" using assms(5) by (intro small_not_negative) simp
  have ack: "Option.bind (reg_upd (\<lambda>w. w AND 2 ^ (no mod 32)) (word_reg 0x280 (no div 32)) (int cpu) (take_request no 0 cpu g))
     (reg_upd (\<lambda>w. w OR 2 ^ (no mod 32)) (word_reg 0x300 (no div 32)) (int cpu)) = Some (acked no cpu g)"
    using acknowledge_private acknowledge_shared assms(1,2,4,5) by (meson leI)
  show ?thesis
    using assms(4,5) arg_cong [OF ack, of "\<lambda>r. Option.bind r (\<lambda>g. Some (of_nat no :: u32, notify g))"]
    by (simp add: notify_int_acknowledge_def assms(3) u s Let_def bind_assoc)
qed

lemma unat_low10: "no < 1024 \<Longrightarrow> unat (of_nat no AND 1023 :: u32) = no"
proof -
  assume n: "no < 1024"
  have "(1023 :: u32) = mask 10" by (simp add: mask_eq_exp_minus_1)
  then have "unat (of_nat no AND 1023 :: u32) = unat (take_bit 10 (of_nat no :: u32))" by (simp only: take_bit_eq_mask)
  also have "\<dots> = take_bit 10 (unat (of_nat no :: u32))" by (rule unsigned_take_bit_eq)
  also have "\<dots> = no" using n by (simp add: unat_of_nat take_bit_eq_mod)
  finally show ?thesis .
qed

lemma end_eq:
  assumes "gic_ok g" "cpu < n_cpus g" "no < 1024"
  shows "notify_end_of_int cpu (of_nat no) g = Some (notify (ended no cpu g))"
proof -
  have "no div 32 < 32" "no div 32 = 0 \<longleftrightarrow> no < 32" using assms(3) by auto
  then show ?thesis
    using assms by (simp add: notify_end_of_int_def ended_def reg_upd_active unat_low10 Let_def)
qed

section \<open>What an acknowledgement and an end of interrupt change\<close>

text \<open>The interrupt \<open>k\<close> of core \<open>c\<close> is the interrupt \<open>no\<close> of core \<open>cpu\<close>: private interrupts are banked.\<close>

definition same_int :: "nat \<Rightarrow> nat \<Rightarrow> nat \<Rightarrow> nat \<Rightarrow> bool" where
  "same_int no cpu k c \<longleftrightarrow> k = no \<and> (no < 32 \<longrightarrow> c = cpu)"

lemma sgi_flags_bits: "bit (sgi_flags c) k \<Longrightarrow> k < 16"
proof -
  have "bit (fold (\<lambda>no w. if raw_pending no c \<noteq> 0 then w OR push_bit no 1 else w) ns w) k \<Longrightarrow>
    \<not> bit (w :: u32) k \<Longrightarrow> k \<in> set ns" for ns w
  proof (induction ns arbitrary: w)
    case (Cons n ns)
    show ?case
    proof (cases "k = n")
      case False
      then have "\<not> bit (if raw_pending n c \<noteq> 0 then w OR push_bit n 1 else w) k"
        using Cons.prems(2) by (auto simp: bit_or_iff bit_exp_iff)
      then show ?thesis using Cons.IH Cons.prems(1) by simp
    qed simp
  qed simp
  from this [of "[0..<16]" 0] show "bit (sgi_flags c) k \<Longrightarrow> k < 16" by (simp add: sgi_flags_def)
qed

lemma div_mod_32: "k div 32 = n div 32 \<Longrightarrow> k mod 32 = n mod 32 \<Longrightarrow> k = (n :: nat)"
  by (metis div_mult_mod_eq)

lemma unchanged_fields:
  assumes "gic_ok g" "c < n_cpus g"
  shows "sgi_matrix (cpustate (acked no cpu g) ! c) = sgi_matrix (cpustate g ! c)"
    "c_enables (cpustate (acked no cpu g) ! c) = c_enables (cpustate g ! c)"
    "c_igroup (cpustate (acked no cpu g) ! c) = c_igroup (cpustate g ! c)"
    "CTL (cpustate (acked no cpu g) ! c) = CTL (cpustate g ! c)"
    "d_enables (acked no cpu g) = d_enables g" "d_igroup (acked no cpu g) = d_igroup g"
    "EnableGrp0 (acked no cpu g) = EnableGrp0 g" "EnableGrp1 (acked no cpu g) = EnableGrp1 g" "n_cpus (acked no cpu g) = n_cpus g"
    "sgi_matrix (cpustate (ended no cpu g) ! c) = sgi_matrix (cpustate g ! c)"
    "c_enables (cpustate (ended no cpu g) ! c) = c_enables (cpustate g ! c)"
    "c_igroup (cpustate (ended no cpu g) ! c) = c_igroup (cpustate g ! c)"
    "CTL (cpustate (ended no cpu g) ! c) = CTL (cpustate g ! c)"
    "d_enables (ended no cpu g) = d_enables g" "d_igroup (ended no cpu g) = d_igroup g"
    "EnableGrp0 (ended no cpu g) = EnableGrp0 g" "EnableGrp1 (ended no cpu g) = EnableGrp1 g" "n_cpus (ended no cpu g) = n_cpus g"
  using assms gic_ok_lengths(6) [OF assms(1)] by (simp_all add: acked_def ended_def Let_def)

lemma eligible_same:
  assumes "gic_ok g" "c < n_cpus g"
  shows "eligible (acked no cpu g) c q k = eligible g c q k" "enables_of (acked no cpu g) c i = enables_of g c i"
    "eligible (ended no cpu g) c q k = eligible g c q k" "enables_of (ended no cpu g) c i = enables_of g c i"
  by (simp_all add: eligible_def group_of_def enables_of_def unchanged_fields [OF assms])

lemma notify_sel [simp]:
  "candidate (notify g) c q k = candidate g c q k" "n_cpus (notify g) = n_cpus g" "cpustate (notify g) = cpustate g"
  by (simp_all add: notify_def candidate_def requested_def eligible_def group_of_def enables_of_def
      read_requesting_disjunction_def Let_def)

text \<open>The request bits.\<close>

definition req_bit :: "gic \<Rightarrow> nat \<Rightarrow> nat \<Rightarrow> bool" where
  "req_bit g c k = bit (read_requesting_disjunction (k div 32) c g) (k mod 32)"

lemma requested_bits: "requested g c k \<longleftrightarrow> req_bit g c k \<and> bit (enables_of g c (k div 32)) (k mod 32)"
  by (simp add: requested_def req_bit_def bit_and_iff)

lemma acked_words:
  assumes "gic_ok g" "c < 32" "i < 32"
  shows "c_actives (cpustate (acked no cpu g) ! c) =
      (if no < 32 \<and> c = cpu then c_actives (cpustate g ! c) OR 2 ^ (no mod 32) else c_actives (cpustate g ! c))"
    "c_unmasked (cpustate (acked no cpu g) ! c) =
      (if no < 32 \<and> c = cpu then c_unmasked (cpustate g ! c) AND NOT (2 ^ (no mod 32)) else c_unmasked (cpustate g ! c))"
    "d_actives (acked no cpu g) ! i =
      (if \<not> no < 32 \<and> i = no div 32 then d_actives g ! i OR 2 ^ (no mod 32) else d_actives g ! i)"
    "d_unmasked (acked no cpu g) ! i =
      (if \<not> no < 32 \<and> i = no div 32 then d_unmasked g ! i AND NOT (2 ^ (no mod 32)) else d_unmasked g ! i)"
    "c_actives (cpustate (ended no cpu g) ! c) =
      (if no < 32 \<and> c = cpu then c_actives (cpustate g ! c) AND NOT (2 ^ (no mod 32)) else c_actives (cpustate g ! c))"
    "c_unmasked (cpustate (ended no cpu g) ! c) = c_unmasked (cpustate g ! c)"
    "d_actives (ended no cpu g) ! i =
      (if \<not> no < 32 \<and> i = no div 32 then d_actives g ! i AND NOT (2 ^ (no mod 32)) else d_actives g ! i)"
    "d_unmasked (ended no cpu g) ! i = d_unmasked g ! i"
  using assms by (simp_all add: acked_def ended_def gic_ok_lengths nth_list_update Let_def)

lemma req_bit_eq:
  "req_bit g c k \<longleftrightarrow> (if k < 32
     then bit (sgi_flags (cpustate g ! c)) k \<or> bit (c_actives (cpustate g ! c)) k \<or> bit (c_unmasked (cpustate g ! c)) k
     else bit (d_unmasked g ! (k div 32)) (k mod 32) \<or> bit (d_actives g ! (k div 32)) (k mod 32))"
proof (cases "k < 32")
  case False
  then have "k div 32 \<noteq> 0" by auto
  then show ?thesis using False by (simp add: req_bit_def read_requesting_disjunction_def Let_def bit_or_iff)
qed (simp add: req_bit_def read_requesting_disjunction_def Let_def bit_or_iff)

lemma req_bit_acked:
  assumes "gic_ok g" "c < n_cpus g" "no < 1021" "k < 1024"
  shows "req_bit (acked no cpu g) c k \<longleftrightarrow> same_int no cpu k c \<or> req_bit g c k"
proof -
  have c: "c < 32" "k div 32 < 32" using assms(2,4) gic_ok_lengths(6) [OF assms(1)] by auto
  have f: "sgi_flags (cpustate (acked no cpu g) ! c) = sgi_flags (cpustate g ! c)"
    by (rule sgi_flags_cong) (rule unchanged_fields(1) [OF assms(1,2)])
  note w = acked_words(1-4) [OF assms(1) c, of no cpu]
  show ?thesis
    unfolding req_bit_eq f w using div_mod_32 [of k no] by (cases "k < 32") (auto simp: same_int_def bit_or_iff bit_and_iff bit_not_iff
      bit_exp_iff possible_bit_def)
qed

lemma req_bit_ended:
  assumes "gic_ok g" "c < n_cpus g" "16 \<le> no" "no < 1021" "k < 1024"
  shows "req_bit (ended no cpu (notify (acked no cpu g))) c k \<longleftrightarrow> \<not> same_int no cpu k c \<and> req_bit g c k"
proof -
  let ?h = "notify (acked no cpu g)"
  have h: "gic_ok ?h" "c < n_cpus ?h" using acked_ok [OF assms(1)] unchanged_fields(9) [OF assms(1,2)] assms(2) by simp_all
  have c: "c < 32" "k div 32 < 32" using assms(2,5) gic_ok_lengths(6) [OF assms(1)] by auto
  have f: "sgi_flags (cpustate (ended no cpu ?h) ! c) = sgi_flags (cpustate g ! c)"
    using unchanged_fields(10) [OF h, of no cpu] unchanged_fields(1) [OF assms(1,2), of no cpu]
    by (intro sgi_flags_cong) simp
  have n: "cpustate ?h = cpustate (acked no cpu g)" "d_actives ?h = d_actives (acked no cpu g)"
    "d_unmasked ?h = d_unmasked (acked no cpu g)" by (simp_all add: notify_def)
  note w = acked_words(5-8) [OF h(1) c, of no cpu, unfolded n] acked_words(1-4) [OF assms(1) c, of no cpu]
  have "\<not> bit (sgi_flags (cpustate g ! c)) no" using sgi_flags_bits [of "cpustate g ! c" no] assms(3) by auto
  then show ?thesis
    unfolding req_bit_eq f w using div_mod_32 [of k no] by (cases "k < 32") (auto simp: same_int_def bit_or_iff bit_and_iff bit_not_iff
      bit_exp_iff possible_bit_def)
qed

section \<open>Properties\<close>

lemma candidates_acked:
  assumes "gic_ok g" "c < n_cpus g" "cpu < n_cpus g" "16 \<le> no" "no < 1021" "requested g cpu no"
  shows "candidate (acked no cpu g) c q k \<longleftrightarrow> candidate g c q k"
    "candidate (ended no cpu (notify (acked no cpu g))) c q k \<longleftrightarrow> candidate g c q k \<and> \<not> same_int no cpu k c"
proof -
  let ?h = "notify (acked no cpu g)"
  have h: "gic_ok ?h" "c < n_cpus ?h" using acked_ok [OF assms(1)] unchanged_fields(9) [OF assms(1,2)] assms(2) by simp_all
  have n: "enables_of ?h c i = enables_of (acked no cpu g) c i" "eligible ?h c q k = eligible (acked no cpu g) c q k" for i
    by (simp_all add: notify_def enables_of_def eligible_def group_of_def)
  have s: "requested g c k" if "same_int no cpu k c"
  proof (cases "no < 32")
    case True
    then show ?thesis using that assms(6) by (simp add: same_int_def)
  next
    case False
    then have "no div 32 \<noteq> 0" by auto
    then show ?thesis
      using that assms(6) False by (simp add: same_int_def requested_def read_requesting_disjunction_def enables_of_def)
  qed
  show "candidate (acked no cpu g) c q k \<longleftrightarrow> candidate g c q k"
    using s req_bit_acked [OF assms(1,2,5), of k cpu] eligible_same(1,2) [OF assms(1,2)]
    by (auto simp: candidate_def requested_bits)
  show "candidate (ended no cpu ?h) c q k \<longleftrightarrow> candidate g c q k \<and> \<not> same_int no cpu k c"
    using req_bit_ended [OF assms(1,2,4,5), of k cpu] eligible_same(3,4) [OF h] eligible_same(1,2) [OF assms(1,2)]
    by (auto simp: candidate_def requested_bits n)
qed

text \<open>The two accesses of a core that services an interrupt.\<close>

lemma reads_ack:
  assumes "gic_ok g" "cpu < n_cpus g" "IA (cpustate g ! cpu) ! 0 = of_nat no" "16 \<le> no" "no < 1021"
  shows "ReadCPU 0xC cpu g = Some (of_nat no, notify (acked no cpu g))"
  using acknowledge_eq [OF assms] by (simp add: ReadCPU_def)

lemma writes_end:
  assumes "gic_ok g" "cpu < n_cpus g" "no < 1021"
  shows "WriteCPU 0x10 cpu (of_nat no) (notify (acked no cpu g)) = Some (notify (ended no cpu (notify (acked no cpu g))))"
proof -
  have "gic_ok (notify (acked no cpu g))" "cpu < n_cpus (notify (acked no cpu g))"
    using acked_ok [OF assms(1)] unchanged_fields(9) [OF assms(1,2)] assms(2) by simp_all
  from end_eq [OF this, of no] assms(3) show ?thesis by (simp add: WriteCPU_def)
qed

text \<open>A controller of two cores whose line 34 is raised, enabled and shown to core 0.\<close>

definition line34 :: gic where
  "line34 = (case gic_new 2 of
     Some g \<Rightarrow> upd_cpu 0 (\<lambda>c. c\<lparr>CTL := 1, IA := [34, 0x3FF]\<rparr>)
       (g\<lparr>EnableGrp0 := True, d_enables := (d_enables g)[1 := 4], d_unmasked := (d_unmasked g)[1 := 4]\<rparr>))"

lemma line34_facts:
  "gic_ok line34" "0 < n_cpus line34" "IA (cpustate line34 ! 0) ! 0 = of_nat 34" "requested line34 0 34"
  "candidate line34 0 0 34" "\<not> bit (CTL (cpustate line34 ! 0)) 8"
  by code_simp+

text \<open>C11: An interrupt is serviced once: when core \<open>cpu\<close> reads the acknowledge register that shows the
  requested private or shared interrupt \<open>no\<close>, it is given \<open>no\<close> and the distribution is run again; the
  acknowledgement replaces the request by the active state, so that every core has the candidates it had.
  When the core then writes \<open>no\<close> to the end-of-interrupt register, exactly this interrupt ceases to be a
  candidate (of this core, when it is private) and every other one remains.\<close>

theorem interrupt_serviced:
  assumes "gic_ok g" "cpu < n_cpus g" "IA (cpustate g ! cpu) ! 0 = of_nat no" "16 \<le> no" "no < 1021" "requested g cpu no"
  shows "\<exists>g1 g2. ReadCPU 0xC cpu g = Some (of_nat no, g1) \<and> notified g1 \<and>
    WriteCPU 0x10 cpu (of_nat no) g1 = Some g2 \<and> notified g2 \<and>
    (\<forall>c < n_cpus g. \<forall>q k. candidate g1 c q k = candidate g c q k \<and>
       candidate g2 c q k = (candidate g c q k \<and> \<not> same_int no cpu k c))"
proof -
  let ?g1 = "notify (acked no cpu g)"
  let ?g2 = "notify (ended no cpu ?g1)"
  have "ReadCPU 0xC cpu g = Some (of_nat no, ?g1)" "WriteCPU 0x10 cpu (of_nat no) ?g1 = Some ?g2"
    using reads_ack [OF assms(1-5)] writes_end [OF assms(1,2,5)] by simp_all
  moreover have "notified ?g1" "notified ?g2" by (simp_all add: notify_def)
  moreover have "\<forall>c < n_cpus g. \<forall>q k. candidate ?g1 c q k = candidate g c q k \<and>
       candidate ?g2 c q k = (candidate g c q k \<and> \<not> same_int no cpu k c)"
    using candidates_acked [OF assms(1) _ assms(2,4-6)] by simp
  ultimately show ?thesis by blast
qed

theorem interrupt_serviced_witness:
  "\<exists>g1 g2. ReadCPU 0xC 0 line34 = Some (34, g1) \<and> candidate g1 0 0 34 \<and> WriteCPU 0x10 0 34 g1 = Some g2 \<and>
     \<not> candidate g2 0 0 34"
proof -
  obtain g1 g2 where "ReadCPU 0xC 0 line34 = Some (of_nat 34, g1)" "WriteCPU 0x10 0 (of_nat 34) g1 = Some g2"
    "\<forall>c < n_cpus line34. \<forall>q k. candidate g1 c q k = candidate line34 c q k \<and>
       candidate g2 c q k = (candidate line34 c q k \<and> \<not> same_int 34 0 k c)"
    using interrupt_serviced [OF line34_facts(1-3) _ _ line34_facts(4)] by auto
  then show ?thesis using line34_facts(2,5) by (auto simp: same_int_def)
qed

text \<open>The controller never faults on its own and keeps the sizes of its register files: whatever sequence
  of bus accesses, changes of the interrupt lines and runs of the distribution follows the construction
  with any legal number of cores, the state is well formed and the next distribution succeeds.\<close>

lemma gic_reachable_ok:
  assumes "gic_new n = Some g0" "gic_step\<^sup>*\<^sup>* g0 g"
  shows "gic_ok g \<and> distribute g \<noteq> None"
proof -
  from assms(2) have ok: "gic_ok g"
    by (induction rule: rtranclp_induct) (use assms(1) gic_new_ok gic_step_ok in blast)+
  then show ?thesis using leaders_lead [OF ok] by (auto simp: distribute_def)
qed

text \<open>A spurious acknowledgement is not neutral: reading the acknowledge register while it shows 1023
  returns 1023, and leaves the interrupt number 1023 active and its line of pending bits reduced to that
  bit.\<close>

theorem spurious_acknowledge:
  assumes "gic_ok g" "cpu < n_cpus g" "IA (cpustate g ! cpu) ! 0 = 0x3FF"
  shows "\<exists>g1. ReadCPU 0xC cpu g = Some (0x3FF, g1) \<and> bit (d_actives g1 ! 31) 31 \<and>
    d_pendings g1 ! 31 = d_pendings g ! 31 AND 0x80000000 \<and> d_unmasked g1 = d_unmasked g"
proof -
  let ?g1 = "g\<lparr>d_pendings := (d_pendings g)[31 := d_pendings g ! 31 AND 0x80000000]\<rparr>"
  have ok: "gic_ok ?g1" using assms(1) by (simp add: gic_ok_def)
  have "take_request 1023 0 cpu g = g" by (simp add: take_request_def)
  moreover have "reg_upd (\<lambda>w. w AND 0x80000000) (word_reg 0x280 31) (int cpu) g = Some ?g1"
    using reg_upd_pending [OF assms(1), of 31 cpu] assms(2) by simp
  moreover have "reg_upd (\<lambda>w. w OR 0x80000000) (word_reg 0x300 31) (int cpu) ?g1 =
      Some (?g1\<lparr>d_actives := (d_actives g)[31 := d_actives g ! 31 OR 0x80000000]\<rparr>)"
    using reg_upd_active [OF ok, of 31 cpu "0x300"] assms(2) by simp
  ultimately have r: "ReadCPU 0xC cpu g =
      Some (0x3FF, notify (?g1\<lparr>d_actives := (d_actives g)[31 := d_actives g ! 31 OR 0x80000000]\<rparr>))"
    by (simp add: ReadCPU_def notify_int_acknowledge_def assms(3) Let_def)
  have b: "bit (0x80000000 :: u32) 31" by code_simp
  show ?thesis
    unfolding r by (simp add: notify_def gic_ok_lengths(3,8) [OF assms(1)] bit_or_iff b del: bit_numeral_iff)
qed


theorem spurious_acknowledge_witness:
  "\<exists>g1. ReadCPU 0xC 0 (upd_cpu 0 (\<lambda>c. c\<lparr>IA := [0x3FF, 0x3FF]\<rparr>) line34) = Some (0x3FF, g1) \<and> bit (d_actives g1 ! 31) 31"
proof -
  let ?g = "upd_cpu 0 (\<lambda>c. c\<lparr>IA := [0x3FF, 0x3FF]\<rparr>) line34"
  have "gic_ok ?g" "0 < n_cpus ?g" "IA (cpustate ?g ! 0) ! 0 = 0x3FF" by code_simp+
  from spurious_acknowledge [OF this] show ?thesis by blast
qed

end
