(* ===== verification/GicSgi.thy ===== *)
theory GicSgi
  imports GicLife
begin

unbundle bit_operations_syntax

text \<open>
  The life of a software-generated interrupt: numbers 0 to 15, requested by writes of the cores and kept as
  one bit for each target, number and source.  Its acknowledgement takes back the request of one source.
\<close>

section \<open>Requests and their sources\<close>

lemma bit_low_byte: "bit (w AND 0xFF :: u32) t \<longleftrightarrow> t < 8 \<and> bit w t"
proof -
  have "w AND 0xFF = take_bit 8 w" by (simp add: take_bit_eq_mask mask_eq_exp_minus_1)
  then show ?thesis by (simp add: bit_take_bit_iff)
qed

lemma bit_raw_pending:
  "bit (raw_pending m c) t \<longleftrightarrow> t < 8 \<and> bit (sgi_matrix c ! (m div 4)) (8 * (m mod 4) + t)"
  unfolding raw_pending_def bit_low_byte by (simp add: bit_drop_bit_eq)

lemma sgi_flags_exact: "k < 32 \<Longrightarrow> bit (sgi_flags c) k \<longleftrightarrow> k < 16 \<and> raw_pending k c \<noteq> 0"
proof -
  assume k: "k < 32"
  have "bit (fold (\<lambda>no w. if raw_pending no c \<noteq> 0 then w OR push_bit no 1 else w) ns w) k \<longleftrightarrow>
    bit (w :: u32) k \<or> k \<in> set ns \<and> raw_pending k c \<noteq> 0" for ns w
    using k by (induction ns arbitrary: w) (auto simp: bit_or_iff bit_exp_iff possible_bit_def)
  from this [of "[0..<16]" 0] show ?thesis by (auto simp: sgi_flags_def)
qed

lemma word_pending_zero: "w = 0 \<longleftrightarrow> (\<forall>t. \<not> bit (w :: u32) t)"
  by (metis bit_0_eq bit_eqI bot_apply bot_bool_def)

text \<open>Source \<open>t\<close> has requested the software-generated interrupt \<open>m\<close> of core \<open>c\<close>.\<close>

definition sgi_pending :: "gic \<Rightarrow> nat \<Rightarrow> nat \<Rightarrow> nat \<Rightarrow> bool" where
  "sgi_pending g c m t \<longleftrightarrow> bit (raw_pending m (cpustate g ! c)) t"

lemma sgi_pending_source: "sgi_pending g c m t \<Longrightarrow> t < 8"
  by (simp add: sgi_pending_def bit_raw_pending)

text \<open>The first source that has requested it.\<close>

definition first_source :: "gic \<Rightarrow> nat \<Rightarrow> nat \<Rightarrow> nat \<Rightarrow> bool" where
  "first_source g c m s \<longleftrightarrow> sgi_pending g c m s \<and> (\<forall>t < s. \<not> sgi_pending g c m t)"

lemma sgi_source_first:
  assumes "first_source g c m s" "s < n_cpus g"
  shows "sgi_source (n_cpus g) (raw_pending m (cpustate g ! c)) = s"
proof -
  let ?P = "\<lambda>n. \<not> bit (raw_pending m (cpustate g ! c)) n"
  have "[0..<n_cpus g] = [0..<s] @ s # [Suc s..<n_cpus g]"
    using assms(2) upt_add_eq_append [of 0 s "n_cpus g - s"] by (simp add: upt_conv_Cons)
  moreover have "takeWhile ?P ([0..<s] @ s # [Suc s..<n_cpus g]) = [0..<s] @ takeWhile ?P (s # [Suc s..<n_cpus g])"
    by (rule takeWhile_append2) (use assms(1) in \<open>simp add: first_source_def sgi_pending_def\<close>)
  ultimately have "takeWhile ?P [0..<n_cpus g] = [0..<s]"
    using assms(1) by (simp add: first_source_def sgi_pending_def)
  then show ?thesis by (simp add: sgi_source_def)
qed

text \<open>The states after the acknowledgement of a software-generated interrupt and after its end.\<close>

definition sgi_taken :: "nat \<Rightarrow> nat \<Rightarrow> gic_cpu \<Rightarrow> gic_cpu" where
  "sgi_taken no s c = c\<lparr>sgi_matrix := (sgi_matrix c)[no div 4 := sgi_matrix c ! (no div 4) AND NOT (sgi_bit (int s) no)],
     c_pendings := c_pendings c AND 2 ^ no, c_actives := c_actives c OR 2 ^ no\<rparr>"

definition sgi_ended :: "nat \<Rightarrow> gic_cpu \<Rightarrow> gic_cpu" where
  "sgi_ended no c = c\<lparr>c_actives := c_actives c AND NOT (2 ^ no)\<rparr>"

lemma sgi_ack_eq:
  assumes "gic_ok g" "cpu < n_cpus g" "IA (cpustate g ! cpu) ! 0 = of_nat no" "no < 16"
    and "first_source g cpu no s" "s < n_cpus g"
  shows "ReadCPU 0xC cpu g = Some (of_nat no OR push_bit 10 (of_nat s), notify (upd_cpu cpu (sgi_taken no s) g))"
proof -
  let ?f1 = "\<lambda>c. c\<lparr>sgi_matrix := (sgi_matrix c)[no div 4 := sgi_matrix c ! (no div 4) AND NOT (sgi_bit (int s) no)]\<rparr>"
  let ?f2 = "\<lambda>c. c\<lparr>c_pendings := c_pendings c AND 2 ^ no\<rparr>"
  let ?f3 = "\<lambda>c. c\<lparr>c_actives := c_actives c OR 2 ^ no\<rparr>"
  let ?g1 = "upd_cpu cpu ?f1 g" and ?g2 = "upd_cpu cpu ?f2 (upd_cpu cpu ?f1 g)"
  have c: "cpu < 32" using assms(2) gic_ok_lengths(6) [OF assms(1)] by simp
  have ok: "gic_ok ?g1" by (rule gic_ok_upd_cpu [OF assms(1)]) (simp add: cpu_ok_def)
  have ok2: "gic_ok ?g2" by (rule gic_ok_upd_cpu [OF ok]) (simp add: cpu_ok_def)
  have u: "unat (of_nat no :: u32) = no" "\<not> bit (of_nat no :: u32) 31"
    using assms(4) small_not_negative [of no] by (simp_all add: unat_of_nat)
  have n: "no div 32 = 0" "no mod 32 = no" using assms(4) by simp_all
  have "take_request no s cpu g = ?g1" using assms(4) by (simp add: take_request_def clear_sgi_def Let_def)
  moreover have "reg_upd (\<lambda>w. w AND 2 ^ no) (word_reg 0x280 0) (int cpu) ?g1 = Some ?g2"
    using reg_upd_pending [OF ok, of 0 cpu] assms(2) by simp
  moreover have "reg_upd (\<lambda>w. w OR 2 ^ no) (word_reg 0x300 0) (int cpu) ?g2 = Some (upd_cpu cpu ?f3 ?g2)"
    using reg_upd_active [OF ok2, of 0 cpu "0x300"] assms(2) by simp
  moreover have "upd_cpu cpu ?f3 ?g2 = upd_cpu cpu (sgi_taken no s) g"
    by (simp add: upd_cpu_upd [OF assms(1) c] upd_cpu_upd [OF ok c] sgi_taken_def [abs_def])
  ultimately show ?thesis
    using assms(4) by (simp add: ReadCPU_def notify_int_acknowledge_def assms(3) u n sgi_source_first [OF assms(5,6)] Let_def)
qed

lemma sgi_taken_ok: "gic_ok g \<Longrightarrow> gic_ok (upd_cpu cpu (sgi_taken no s) g)"
  by (rule gic_ok_upd_cpu) (simp_all add: cpu_ok_def sgi_taken_def)

lemma ack_number:
  assumes "no < 16" "s < 32"
  shows "unat ((of_nat no OR push_bit 10 (of_nat s)) AND 1023 :: u32) = no"
proof -
  have "\<forall>no \<in> set [0..<16]. \<forall>s \<in> set [0..<32]. unat ((of_nat no OR push_bit 10 (of_nat s)) AND 1023 :: u32) = no"
    by code_simp
  then show ?thesis using assms by simp
qed

lemma sgi_end_eq:
  assumes "gic_ok g" "cpu < n_cpus g" "no < 16" "s < 32"
  shows "WriteCPU 0x10 cpu (of_nat no OR push_bit 10 (of_nat s)) g = Some (notify (upd_cpu cpu (sgi_ended no) g))"
proof -
  have n: "no div 32 = 0" "no mod 32 = no" using assms(3) by simp_all
  show ?thesis
    using reg_upd_active [OF assms(1), of 0 cpu "0x380"] assms(2)
    by (simp add: WriteCPU_def notify_end_of_int_def ack_number [OF assms(3,4)] n sgi_ended_def [abs_def] Let_def)
qed

lemma bit_cleared: "q < 32 \<Longrightarrow> bit (w AND NOT (push_bit q 1) :: u32) p \<longleftrightarrow> bit w p \<and> p \<noteq> q"
  by (auto simp: bit_and_iff bit_not_iff bit_exp_iff possible_bit_def dest: bit_imp_le_length)

lemma small_count: "q < 32 \<Longrightarrow> nat (int q mod 32) = q"
  by (simp add: nat_mod_distrib)

lemma taken_pending:
  assumes "gic_ok g" "c < 32" "m < 16" "no < 16" "s < 8"
  shows "sgi_pending (upd_cpu cpu (sgi_taken no s) g) c m t \<longleftrightarrow> sgi_pending g c m t \<and> \<not> (c = cpu \<and> m = no \<and> t = s)"
proof (cases "c = cpu")
  case True
  let ?q = "s + 8 * (no mod 4)" and ?p = "8 * (m mod 4) + t" and ?ws = "sgi_matrix (cpustate g ! c)"
  have l: "m div 4 < 4" "length ?ws = 4" using assms(3) gic_ok_cpu [OF assms(1,2)] by (auto simp: cpu_ok_def)
  have q: "?q < 32" using assms(5) mod_less_divisor [of 4 no] by linarith
  have "int s + 8 * int (no mod 4) = int ?q" by (simp only: of_nat_add of_nat_mult of_nat_numeral)
  then have "nat ((int s + 8 * int (no mod 4)) mod 32) = ?q" using small_count [OF q] by (simp only:)
  then have b: "sgi_bit (int s) no = push_bit ?q 1" by (simp only: sgi_bit_def)
  have "sgi_matrix (sgi_taken no s (cpustate g ! c)) ! (m div 4) =
      (if m div 4 = no div 4 then ?ws ! (m div 4) AND NOT (push_bit ?q 1) else ?ws ! (m div 4))"
    using l by (simp add: sgi_taken_def b nth_list_update del: push_bit_of_1)
  then have "bit (sgi_matrix (sgi_taken no s (cpustate g ! c)) ! (m div 4)) ?p \<longleftrightarrow>
      bit (?ws ! (m div 4)) ?p \<and> \<not> (m div 4 = no div 4 \<and> ?p = ?q)"
    using bit_cleared [OF q] by (simp del: push_bit_of_1)
  moreover have "m div 4 = no div 4 \<and> ?p = ?q \<longleftrightarrow> m = no \<and> t = s" if "t < 8"
  proof -
    have r: "?p div 8 = m mod 4" "?p mod 8 = t" "?q div 8 = no mod 4" "?q mod 8 = s" using that assms(5) by simp_all
    have "m mod 4 = no mod 4 \<and> t = s" if e: "?p = ?q"
      using arg_cong [OF e, of "\<lambda>x. x div 8"] arg_cong [OF e, of "\<lambda>x. x mod 8"] unfolding r by blast
    then have "?p = ?q \<longleftrightarrow> m mod 4 = no mod 4 \<and> t = s" by auto
    then show ?thesis by (metis div_mult_mod_eq)
  qed
  ultimately show ?thesis
    using True assms(1,2) by (auto simp: sgi_pending_def bit_raw_pending)
qed (use assms in \<open>simp add: sgi_pending_def\<close>)

section \<open>What the distribution then sees\<close>

definition sgi_pending_any :: "gic \<Rightarrow> nat \<Rightarrow> nat \<Rightarrow> bool" where
  "sgi_pending_any g c m \<longleftrightarrow> (\<exists>t. sgi_pending g c m t)"

lemma req_bit_sgi:
  "k < 16 \<Longrightarrow> req_bit g c k \<longleftrightarrow> sgi_pending_any g c k \<or> bit (c_actives (cpustate g ! c)) k \<or> bit (c_unmasked (cpustate g ! c)) k"
  by (simp add: req_bit_eq sgi_flags_exact sgi_pending_any_def sgi_pending_def word_pending_zero)

lemma req_bit_other:
  "16 \<le> k \<Longrightarrow> req_bit g c k \<longleftrightarrow> (if k < 32 then bit (c_actives (cpustate g ! c)) k \<or> bit (c_unmasked (cpustate g ! c)) k
     else bit (d_unmasked g ! (k div 32)) (k mod 32) \<or> bit (d_actives g ! (k div 32)) (k mod 32))"
  using sgi_flags_bits [of "cpustate g ! c" k] by (auto simp: req_bit_eq)

lemma same_rest:
  assumes "gic_ok g" "c < 32"
  shows "eligible (upd_cpu cpu (sgi_taken no s) g) c q k = eligible g c q k" "eligible (upd_cpu cpu (sgi_ended no) g) c q k = eligible g c q k"
    "enables_of (upd_cpu cpu (sgi_taken no s) g) c i = enables_of g c i" "enables_of (upd_cpu cpu (sgi_ended no) g) c i = enables_of g c i"
    "c_unmasked (cpustate (upd_cpu cpu (sgi_taken no s) g) ! c) = c_unmasked (cpustate g ! c)"
    "c_unmasked (cpustate (upd_cpu cpu (sgi_ended no) g) ! c) = c_unmasked (cpustate g ! c)"
    "sgi_pending (upd_cpu cpu (sgi_ended no) g) c m t = sgi_pending g c m t"
  using assms by (simp_all add: eligible_def group_of_def enables_of_def sgi_taken_def sgi_ended_def sgi_pending_def raw_pending_def)

lemma same_actives:
  assumes "gic_ok g" "c < 32" "no < 16"
  shows "bit (c_actives (cpustate (upd_cpu cpu (sgi_taken no s) g) ! c)) k \<longleftrightarrow> bit (c_actives (cpustate g ! c)) k \<or> c = cpu \<and> k = no"
    "bit (c_actives (cpustate (upd_cpu cpu (sgi_ended no) g) ! c)) k \<longleftrightarrow> bit (c_actives (cpustate g ! c)) k \<and> \<not> (c = cpu \<and> k = no)"
  using assms by (auto simp: sgi_taken_def sgi_ended_def bit_or_iff bit_and_iff bit_not_iff bit_exp_iff possible_bit_def dest: bit_imp_le_length)

text \<open>The requests before and after, of every core.\<close>

lemma req_bit_taken:
  assumes "gic_ok g" "c < n_cpus g" "k < 1024" "no < 16" "s < 8" "sgi_pending g cpu no s"
  shows "req_bit (upd_cpu cpu (sgi_taken no s) g) c k = req_bit g c k"
proof -
  have c: "c < 32" using assms(2) gic_ok_lengths(6) [OF assms(1)] by simp
  show ?thesis
  proof (cases "k < 16")
    case True
    have "sgi_pending (upd_cpu cpu (sgi_taken no s) g) c k t \<longleftrightarrow> sgi_pending g c k t \<and> \<not> (c = cpu \<and> k = no \<and> t = s)" for t
      by (rule taken_pending [OF assms(1) c True assms(4,5)])
    then show ?thesis
      using assms(6) unfolding req_bit_sgi [OF True] same_actives(1) [OF assms(1) c assms(4)] same_rest(5) [OF assms(1) c] sgi_pending_any_def
      by auto
  next
    case False
    then have "16 \<le> k" "k \<noteq> no" using assms(4) by simp_all
    then show ?thesis
      by (simp only: req_bit_other same_actives(1) [OF assms(1) c assms(4)] same_rest(5) [OF assms(1) c] upd_cpu_sel) simp
  qed
qed

lemma req_bit_finished:
  assumes "gic_ok g" "c < n_cpus g" "k < 1024" "no < 16" "s < 8" "\<not> bit (c_unmasked (cpustate g ! cpu)) no" "sgi_pending g cpu no s"
  shows "req_bit (upd_cpu cpu (sgi_ended no) (notify (upd_cpu cpu (sgi_taken no s) g))) c k \<longleftrightarrow>
    req_bit g c k \<and> (c = cpu \<and> k = no \<longrightarrow> (\<exists>t. t \<noteq> s \<and> sgi_pending g cpu no t))"
proof -
  let ?h = "notify (upd_cpu cpu (sgi_taken no s) g)"
  have c: "c < 32" using assms(2) gic_ok_lengths(6) [OF assms(1)] by simp
  have h: "gic_ok ?h" using sgi_taken_ok [OF assms(1)] by simp
  have n: "sgi_pending ?h c k t = sgi_pending (upd_cpu cpu (sgi_taken no s) g) c k t" for t by (simp add: sgi_pending_def)
  have d: "d_unmasked ?h = d_unmasked g" "d_actives ?h = d_actives g" by (simp_all add: notify_def)
  note a = same_actives(2) [OF h c assms(4)] same_rest(6,7) [OF h c] n notify_sel(3) same_actives(1) [OF assms(1) c assms(4)]
    same_rest(5) [OF assms(1) c]
  show ?thesis
  proof (cases "k < 16")
    case True
    show ?thesis
      using assms(6,7) unfolding req_bit_sgi [OF True] sgi_pending_any_def a taken_pending [OF assms(1) c True assms(4,5)]
      by auto
  next
    case False
    then have "16 \<le> k" "k \<noteq> no" using assms(4) by simp_all
    then show ?thesis by (simp only: req_bit_other a upd_cpu_sel d) simp
  qed
qed

lemma candidate_req: "candidate g c q k \<longleftrightarrow> k < 1024 \<and> req_bit g c k \<and> bit (enables_of g c (k div 32)) (k mod 32) \<and> eligible g c q k"
  by (simp add: candidate_def requested_bits)

section \<open>Servicing\<close>

text \<open>C12: A software-generated interrupt is serviced once for each core that sent it: in a well-formed
  controller let \<open>s\<close> be the first core whose request for interrupt \<open>no\<close> (below 16) is pending at core
  \<open>cpu\<close>, and let the acknowledge register show \<open>no\<close>, with no interrupt line behind that number (the lines
  have the numbers from 27 on).  Reading the register gives the number together with the source \<open>s\<close> and
  clears the request of \<open>s\<close>, no other one of any core; the interrupt stays a candidate, as active.  When
  the core writes the value back to the end-of-interrupt register, no request changes, and \<open>no\<close> remains a
  candidate of the core exactly when another source has requested it; all other candidates of all cores
  remain.\<close>

theorem sgi_serviced:
  assumes "gic_ok g" "cpu < n_cpus g" "IA (cpustate g ! cpu) ! 0 = of_nat no" "no < 16"
    and "first_source g cpu no s" "s < n_cpus g" "\<not> bit (c_unmasked (cpustate g ! cpu)) no"
  shows "\<exists>g1 g2 r. r = of_nat no OR push_bit 10 (of_nat s) \<and>
    ReadCPU 0xC cpu g = Some (r, g1) \<and> notified g1 \<and> WriteCPU 0x10 cpu r g1 = Some g2 \<and> notified g2 \<and>
    (\<forall>c < n_cpus g. \<forall>m < 16. \<forall>t. sgi_pending g2 c m t = sgi_pending g1 c m t \<and>
       sgi_pending g1 c m t = (sgi_pending g c m t \<and> \<not> (c = cpu \<and> m = no \<and> t = s))) \<and>
    (\<forall>c < n_cpus g. \<forall>q k. candidate g1 c q k = candidate g c q k \<and>
       candidate g2 c q k = (candidate g c q k \<and> \<not> (c = cpu \<and> k = no \<and> (\<forall>t. t = s \<or> \<not> sgi_pending g cpu no t))))"
proof -
  let ?r = "of_nat no OR push_bit 10 (of_nat s) :: u32"
  let ?g1 = "notify (upd_cpu cpu (sgi_taken no s) g)"
  let ?g2 = "notify (upd_cpu cpu (sgi_ended no) ?g1)"
  have p: "sgi_pending g cpu no s" "s < 8" using assms(5) sgi_pending_source by (auto simp: first_source_def)
  have g1: "gic_ok ?g1" "cpu < n_cpus ?g1" using sgi_taken_ok [OF assms(1)] assms(2) by simp_all
  have c32: "c < 32" if "c < n_cpus g" for c using that gic_ok_lengths(6) [OF assms(1)] by simp
  have n: "enables_of (notify h) c i = enables_of h c i" "eligible (notify h) c q k = eligible h c q k"
    "req_bit (notify h) c k = req_bit h c k" "sgi_pending (notify h) c k t = sgi_pending h c k t" for h c i q k t
    by (simp_all add: notify_def enables_of_def eligible_def group_of_def req_bit_def read_requesting_disjunction_def sgi_pending_def Let_def)
  have A: "ReadCPU 0xC cpu g = Some (?r, ?g1)" by (rule sgi_ack_eq [OF assms(1-6)])
  have B: "WriteCPU 0x10 cpu ?r ?g1 = Some ?g2" using sgi_end_eq [OF g1 assms(4), of s] p(2) by simp
  have C: "sgi_pending ?g2 c m t = sgi_pending ?g1 c m t \<and>
      sgi_pending ?g1 c m t = (sgi_pending g c m t \<and> \<not> (c = cpu \<and> m = no \<and> t = s))" if "c < n_cpus g" "m < 16" for c m t
    using taken_pending [OF assms(1) c32 [OF that(1)] that(2) assms(4) p(2), of cpu t] same_rest(7) [OF g1(1) c32 [OF that(1)], of cpu no m t]
    by (simp only: n simp_thms)
  have D: "candidate ?g1 c q k = candidate g c q k \<and>
      candidate ?g2 c q k = (candidate g c q k \<and> \<not> (c = cpu \<and> k = no \<and> (\<forall>t. t = s \<or> \<not> sgi_pending g cpu no t)))"
    if c: "c < n_cpus g" for c q k
    using req_bit_taken [OF assms(1) c _ assms(4) p(2,1), of k] req_bit_finished [OF assms(1) c _ assms(4) p(2) assms(7) p(1), of k]
    unfolding candidate_req n same_rest(1,3) [OF assms(1) c32 [OF c]] same_rest(2,4) [OF g1(1) c32 [OF c]]
    by blast
  have E: "notified ?g1" "notified ?g2" by (simp_all add: notify_def)
  show ?thesis
    by (rule exI [of _ ?g1], rule exI [of _ ?g2], rule exI [of _ ?r]) (intro conjI allI impI refl A B E C [THEN conjunct1] C [THEN conjunct2] D [THEN conjunct1] D [THEN conjunct2])
qed

text \<open>Cores 0 and 1 have both sent interrupt 5 to core 1, which is shown it.\<close>

definition sgi5 :: gic where
  "sgi5 = (case gic_new 2 of
     Some g \<Rightarrow> upd_cpu 1 (\<lambda>c. c\<lparr>CTL := 1, IA := [5, 0x3FF], c_enables := 0x20\<rparr>)
       (write_gic_sgir 0x00020005 1 (write_gic_sgir 0x00020005 0 (g\<lparr>EnableGrp0 := True\<rparr>))))"

lemma sgi5_facts:
  "gic_ok sgi5" "1 < n_cpus sgi5" "IA (cpustate sgi5 ! 1) ! 0 = of_nat 5" "sgi_pending sgi5 1 5 0" "sgi_pending sgi5 1 5 1"
  "\<not> bit (c_unmasked (cpustate sgi5 ! 1)) 5" "candidate sgi5 1 0 5"
  by code_simp+

theorem sgi_serviced_witness:
  "\<exists>g1 g2. ReadCPU 0xC 1 sgi5 = Some (5, g1) \<and> WriteCPU 0x10 1 5 g1 = Some g2 \<and> candidate g2 1 0 5 \<and>
     \<not> sgi_pending g2 1 5 0 \<and> sgi_pending g2 1 5 1"
proof -
  have f: "first_source sgi5 1 5 0" using sgi5_facts(4) by (simp add: first_source_def)
  have "0 < n_cpus sgi5" using sgi5_facts(2) by simp
  from sgi_serviced [OF sgi5_facts(1-3) _ f this sgi5_facts(6)] obtain g1 g2 where
    "ReadCPU 0xC 1 sgi5 = Some (5, g1)" "WriteCPU 0x10 1 5 g1 = Some g2"
    "\<forall>c < n_cpus sgi5. \<forall>m < 16. \<forall>t. sgi_pending g2 c m t = sgi_pending g1 c m t \<and>
       sgi_pending g1 c m t = (sgi_pending sgi5 c m t \<and> \<not> (c = 1 \<and> m = 5 \<and> t = 0))"
    "\<forall>c < n_cpus sgi5. \<forall>q k. candidate g1 c q k = candidate sgi5 c q k \<and>
       candidate g2 c q k = (candidate sgi5 c q k \<and> \<not> (c = 1 \<and> k = 5 \<and> (\<forall>t. t = 0 \<or> \<not> sgi_pending sgi5 1 5 t)))"
    by auto
  then show ?thesis using sgi5_facts(2,5,7) by fastforce
qed

end
