(* ===== verification/ArmProps.thy ===== *)
theory ArmProps
  imports ArmCore
begin

unbundle bit_operations_syntax

text \<open>
  What programs can rely on when the ARM core runs them: block transfers save and restore registers,
  an interrupt returns to where it was taken, and a loop computes what its instructions say, for any
  bus that behaves like a memory of words (\<open>arm_bus\<close>) and then for the flat memory.
\<close>

section \<open>Register lists\<close>

definition slot_no :: "u16 \<Rightarrow> nat \<Rightarrow> nat" where
  "slot_no regs r = length (filter (bit regs) [0..<r])"

lemma slot_no_Suc: "slot_no regs (Suc r) = slot_no regs r + of_bool (bit regs r)"
  by (simp add: slot_no_def)

lemma slot_no_mono: "r \<le> s \<Longrightarrow> slot_no regs r \<le> slot_no regs s"
  by (induction s rule: dec_induct) (auto simp: slot_no_Suc)

lemma slot_no_less: "bit regs r \<Longrightarrow> r < s \<Longrightarrow> slot_no regs r < slot_no regs s"
  using slot_no_mono [of "Suc r" s regs] by (simp add: slot_no_Suc)

lemma slot_no_le: "slot_no regs r \<le> r"
  by (induction r) (auto simp: slot_no_Suc slot_no_def)

lemma reg_count_slot: "reg_count regs = slot_no regs 16"
  by (simp add: reg_count_def slot_no_def)

lemma slot_no_gap: "r \<le> s \<Longrightarrow> (\<And>q. r \<le> q \<Longrightarrow> q < s \<Longrightarrow> \<not> bit regs q) \<Longrightarrow> slot_no regs s = slot_no regs r"
  by (induction s rule: dec_induct) (auto simp: slot_no_Suc)

lemma reg_from_Some:
  assumes "reg_from regs r = Some s"
  shows "r \<le> s" "s < 16" "bit regs s" "slot_no regs s = slot_no regs r"
    "\<And>q. r \<le> q \<Longrightarrow> q < s \<Longrightarrow> \<not> bit regs q"
proof -
  from assms obtain i where i: "i < 16 - r" "bit regs (r + i)" "\<forall>j<i. \<not> bit regs (r + j)" "s = r + i"
    by (auto simp: reg_from_def find_Some_iff)
  then show "r \<le> s" "s < 16" "bit regs s" by auto
  show gap: "\<not> bit regs q" if "r \<le> q" "q < s" for q
    using i(3,4) that by (metis add_less_cancel_left le_iff_add)
  then show "slot_no regs s = slot_no regs r" using i(4) by (intro slot_no_gap) auto
qed

lemma reg_from_None: "reg_from regs r = None \<Longrightarrow> r \<le> q \<Longrightarrow> q < 16 \<Longrightarrow> \<not> bit regs q"
  by (auto simp: reg_from_def find_None_iff)

lemma reg_from_exists:
  assumes "slot_no regs r < slot_no regs 16" "r \<le> 16"
  obtains s where "reg_from regs r = Some s"
proof (cases "reg_from regs r")
  case None
  then have "slot_no regs 16 = slot_no regs r"
    using assms(2) reg_from_None [OF None] by (intro slot_no_gap) auto
  with assms show ?thesis by simp
qed

section \<open>Word addresses\<close>

definition word_addr :: "u32 \<Rightarrow> nat \<Rightarrow> u32" where
  "word_addr a i = a + 4 * of_nat i"

lemma word_addr_inj: "i < 2 ^ 30 \<Longrightarrow> j < 2 ^ 30 \<Longrightarrow> word_addr a i = word_addr a j \<longleftrightarrow> i = j"
proof -
  assume ij: "i < 2 ^ 30" "j < 2 ^ 30"
  have u: "unat (4 * of_nat n :: u32) = 4 * n" if "n < 2 ^ 30" for n
    using that by (simp add: unat_word_ariths unat_of_nat)
  have "(4 * of_nat i :: u32) = 4 * of_nat j \<longleftrightarrow> i = j"
    using u [OF ij(1)] u [OF ij(2)] by (metis mult_cancel1 zero_neq_numeral)
  then show ?thesis by (simp add: word_addr_def)
qed

lemma word_addr_aligned:
  assumes "a AND 3 = 0"
  shows "word_addr a i AND 3 = 0"
proof -
  have "word_addr a i = of_nat (unat a + 4 * i)" by (simp add: word_addr_def)
  then have "unat (word_addr a i) = (unat a + 4 * i) mod 2 ^ 32" by (simp only: unat_of_nat) simp
  then have "unat (word_addr a i) mod 4 = (unat a + 4 * i) mod 4"
    by (simp only: mod_mod_cancel [of 4 "2 ^ 32"]) (simp add: mod_mod_cancel)
  with assms show ?thesis by (simp only: aligned_mod mod_mult_self2)
qed

lemma word_addr_Suc: "word_addr a (Suc i) = word_addr a i + 4"
  by (simp add: word_addr_def algebra_simps)

section \<open>Block transfers\<close>

text \<open>The fields that a block transfer leaves alone.\<close>

definition same_run :: "arm \<Rightarrow> arm \<Rightarrow> bool" where
  "same_run k k' \<longleftrightarrow> currentBank k' = currentBank k \<and> currentMode k' = currentMode k
     \<and> stop_after_ins_count k' = stop_after_ins_count k \<and> instruction_grace k' = instruction_grace k
     \<and> pc_breakpoints k' = pc_breakpoints k"

text \<open>In the middle of a transfer of the registers \<open>regs\<close> from the address \<open>a\<close> on.\<close>

definition in_block :: "u16 \<Rightarrow> u32 \<Rightarrow> arm \<Rightarrow> bool" where
  "in_block regs a k \<longleftrightarrow>
    runstate k = MidMultiple2S \<and> insDecodeT k = BlockT \<and> \<not> insS k \<and> \<not> insEXCF k \<and> \<not> insSUser k
    \<and> insSizeCode k = 2 \<and> insMultRegisters k = regs \<and> \<not> bit regs 15 \<and> insRd k < 15 \<and> bit regs (insRd k)
    \<and> insDataAddress k = word_addr a (slot_no regs (insRd k))
    \<and> insMultCount k = slot_no regs 16 - slot_no regs (insRd k)
    \<and> insRn k < 15"

definition block_next :: "arm \<Rightarrow> arm" where
  "block_next k = k\<lparr>insDataAddress := insDataAddress k + 4,
     insRd := the (reg_from (insMultRegisters k) (insRd k + 1)), insMultCount := insMultCount k - 1\<rparr>"

definition block_end :: "arm \<Rightarrow> arm" where
  "block_end k = (if insW k then wr (insRn k) (insMultWriteback k) k else k)\<lparr>runstate := RunningS\<rparr>"

lemma block_done_last:
  assumes "in_block regs a k" "insMultCount k = 1"
  shows "block_done k = Some (block_end k)"
  using assms by (simp add: block_done_def DecodeMultiple2_def in_block_def block_end_def Let_def)

lemma block_done_more:
  assumes "in_block regs a k" "insMultCount k \<noteq> 1"
  shows "block_done k = Some (block_next k)" "in_block regs a (block_next k)"
    "insRd k < insRd (block_next k)"
    "\<And>q. insRd k < q \<Longrightarrow> q < insRd (block_next k) \<Longrightarrow> \<not> bit regs q"
proof -
  note k = assms(1) [unfolded in_block_def]
  have s: "slot_no regs (Suc (insRd k)) = Suc (slot_no regs (insRd k))" using k by (simp add: slot_no_Suc)
  have "slot_no regs (insRd k) < slot_no regs 16" using k by (intro slot_no_less) auto
  then have "slot_no regs (insRd k + 1) < slot_no regs 16" using k assms(2) s by simp
  then obtain r where r: "reg_from regs (insRd k + 1) = Some r"
    using k by (elim reg_from_exists) simp_all
  note f = reg_from_Some [OF r]
  have "r \<noteq> 15" using f(3) k by auto
  then have r15: "r < 15" using f(2) by simp
  have nx: "insRd (block_next k) = r" using k r by (simp add: block_next_def)
  show "block_done k = Some (block_next k)"
    using k r assms(2) by (simp add: block_done_def DecodeMultiple2_def block_next_def Let_def)
  show "in_block regs a (block_next k)"
    using k r r15 f s by (simp add: in_block_def block_next_def word_addr_Suc)
  show "insRd k < insRd (block_next k)" using f(1) nx by simp
  show "\<not> bit regs q" if "insRd k < q" "q < insRd (block_next k)" for q
    using f(5) that nx by simp
qed

lemma in_block_cong:
  assumes "in_block regs a k"
  shows "in_block regs a (latch_thumb k)" "in_block regs a (raw_wr i v k)"
    "in_block regs a (k\<lparr>insAluResult := x, insAluResultHi := y\<rparr>)" "in_block regs a (k\<lparr>read_data64 := z\<rparr>)"
  using assms by (simp_all add: in_block_def latch_thumb_def raw_wr_def)

text \<open>The state that one transfer of a store leaves to \<open>DecodeMultiple2\<close>.\<close>

definition stored :: "arm \<Rightarrow> arm" where
  "stored k = (latch_thumb k)\<lparr>insAluResult := rd k (insRd k), insAluResultHi := 0\<rparr>"

lemma stored_sel [simp]:
  "raw_reg (stored k) = raw_reg k" "currentBank (stored k) = currentBank k" "insRd (stored k) = insRd k" "insMultCount (stored k) = insMultCount k"
  "insW (stored k) = insW k" "insL (stored k) = insL k" "insRn (stored k) = insRn k" "insMultWriteback (stored k) = insMultWriteback k"
  "same_run k (stored k)" "insMultRegisters (stored k) = insMultRegisters k"
  by (simp_all add: stored_def latch_thumb_def same_run_def)

text \<open>The state that one transfer of a load leaves to \<open>DecodeMultiple2\<close>.\<close>

definition loaded :: "u32 \<Rightarrow> arm \<Rightarrow> arm" where
  "loaded w k = wr (insRd k) w ((latch_thumb k)\<lparr>read_data64 := ucast w\<rparr>)"

lemma loaded_sel [simp]:
  "raw_reg (loaded w k) = (raw_reg k)(reg_ix (currentBank k) (insRd k) := w)"
  "currentBank (loaded w k) = currentBank k" "insRd (loaded w k) = insRd k"
  "insMultCount (loaded w k) = insMultCount k" "insW (loaded w k) = insW k" "insL (loaded w k) = insL k"
  "insRn (loaded w k) = insRn k" "insMultWriteback (loaded w k) = insMultWriteback k" "same_run k (loaded w k)"
  by (simp_all add: loaded_def latch_thumb_def same_run_def wr_def)

lemma same_run_sel:
  "same_run k k' \<Longrightarrow> currentBank k' = currentBank k"
  by (simp add: same_run_def)

lemma same_run_trans: "same_run k k1 \<Longrightarrow> same_run k1 k2 \<Longrightarrow> same_run k k2"
  by (simp add: same_run_def)

lemma block_next_sel [simp]:
  "raw_reg (block_next k) = raw_reg k" "insL (block_next k) = insL k" "insW (block_next k) = insW k"
  "insRn (block_next k) = insRn k" "insMultWriteback (block_next k) = insMultWriteback k"
  "insMultCount (block_next k) = insMultCount k - 1" "currentBank (block_next k) = currentBank k"
  "same_run k (block_next k)"
  by (simp_all add: block_next_def same_run_def)

lemma block_end_sel [simp]:
  "raw_reg (block_end k) =
    (if insW k then (raw_reg k)(reg_ix (currentBank k) (insRn k) := insMultWriteback k) else raw_reg k)"
  "same_run k (block_end k)" "runstate (block_end k) = RunningS" "currentBank (block_end k) = currentBank k"
  by (simp_all add: block_end_def same_run_def wr_def)

lemma in_block_count:
  assumes "in_block regs a k"
  shows "insMultCount k = slot_no regs 16 - slot_no regs (insRd k)" "slot_no regs (insRd k) < slot_no regs 16"
    "slot_no regs 16 \<le> 16" "insRd k < 15" "bit regs (insRd k)"
    "insDataAddress k = word_addr a (slot_no regs (insRd k))"
  using assms slot_no_less [of regs "insRd k" 16] slot_no_le [of regs 16] by (simp_all add: in_block_def)

lemma in_block_last:
  assumes "in_block regs a k" "insMultCount k = 1" "insRd k \<le> r" "r < 15" "bit regs r"
  shows "r = insRd k"
proof (rule ccontr)
  assume "r \<noteq> insRd k"
  then have "slot_no regs (insRd k) < slot_no regs r" "slot_no regs r < slot_no regs 16"
    using assms(3-5) in_block_count(5) [OF assms(1)] by (auto intro!: slot_no_less)
  then show False using assms(2) in_block_count(1) [OF assms(1)] by linarith
qed

lemma in_block_next_slot:
  assumes "in_block regs a k" "insMultCount k \<noteq> 1"
  shows "slot_no regs (insRd (block_next k)) = Suc (slot_no regs (insRd k))"
proof -
  note b = block_done_more [OF assms]
  have "slot_no regs (insRd (block_next k)) = slot_no regs (Suc (insRd k))"
    using b(3,4) by (intro slot_no_gap) auto
  then show ?thesis using in_block_count(5) [OF assms(1)] by (simp add: slot_no_Suc)
qed

context arm_bus
begin

lemma store_clock:
  assumes k: "in_block regs a k" "\<not> insL k" and a: "a AND 3 = 0" "backed (insDataAddress k)"
  shows "\<exists>m'. execute bus ext k m = map_option (\<lambda>k. (k, m')) (block_done (stored k)) \<and>
    word_at m' (insDataAddress k) = rd k (insRd k) \<and>
    (\<forall>b. b AND 3 = 0 \<longrightarrow> b \<noteq> insDataAddress k \<longrightarrow> word_at m' b = word_at m b)"
proof -
  have al: "insDataAddress k AND 3 = 0" using k(1) word_addr_aligned [OF a(1)] by (simp add: in_block_def)
  obtain m' where m': "write1 bus m (insDataAddress k) (ucast (rd k (insRd k))) 2 False = Some (True, 0, m')"
    "word_at m' (insDataAddress k) = rd k (insRd k)"
    "\<forall>b. b AND 3 = 0 \<longrightarrow> b \<noteq> insDataAddress k \<longrightarrow> word_at m' b = word_at m b"
    using store_word [OF al a(2), of m "ucast (rd k (insRd k))"] by auto
  have "exec_mem_operand_instr bus (latch_thumb k) m = Some (True, stored k, m')"
    using k m'(1) by (simp add: exec_mem_operand_instr_def mem_store_def in_block_def latch_thumb_def user_slot_def
        write_value_narrow mem_writeback_def stored_def rd_def Let_def)
  then have "execute bus ext k m = map_option (\<lambda>k. (k, m')) (block_done (stored k))"
    using k(1) by (simp add: execute_def bodystate_clock_def in_block_def latch_thumb_def transfer_def)
  with m' show ?thesis by blast
qed

lemma store_block:
  assumes "in_block regs a k" "\<not> insL k" "a AND 3 = 0" "\<forall>i < slot_no regs 16. backed (word_addr a i)"
  shows "\<exists>k' m'. run_clocks (insMultCount k) bus ext k m = Some (k', m') \<and>
    raw_reg k' = (if insW k then (raw_reg k)(reg_ix (currentBank k) (insRn k) := insMultWriteback k) else raw_reg k) \<and>
    same_run k k' \<and> runstate k' = RunningS \<and>
    (\<forall>r. insRd k \<le> r \<longrightarrow> r < 15 \<longrightarrow> bit regs r \<longrightarrow> word_at m' (word_addr a (slot_no regs r)) = rd k r) \<and>
    (\<forall>b. b AND 3 = 0 \<longrightarrow> (\<forall>i. slot_no regs (insRd k) \<le> i \<longrightarrow> i < slot_no regs 16 \<longrightarrow> b \<noteq> word_addr a i) \<longrightarrow>
       word_at m' b = word_at m b)"
  using assms(1,2)
proof (induction "insMultCount k" arbitrary: k m)
  case 0
  then have "slot_no regs (insRd k) < slot_no regs 16" by (intro slot_no_less) (simp_all add: in_block_def)
  with 0 show ?case by (simp add: in_block_def)
next
  case (Suc n)
  note k = Suc.prems(1)
  let ?r = "insRd k" and ?A = "insDataAddress k"
  have addr: "?A = word_addr a (slot_no regs ?r)" using k by (simp add: in_block_def)
  have lt: "slot_no regs ?r < slot_no regs 16" using k by (intro slot_no_less) (simp_all add: in_block_def)
  then have "backed ?A" using assms(4) addr by simp
  from store_clock [OF k Suc.prems(2) assms(3) this, of ext m] obtain m1 where
    clock: "execute bus ext k m = map_option (\<lambda>k. (k, m1)) (block_done (stored k))"
    and here: "word_at m1 ?A = rd k ?r"
    and rest: "\<And>b. b AND 3 = 0 \<Longrightarrow> b \<noteq> ?A \<Longrightarrow> word_at m1 b = word_at m b"
    by auto
  have st: "in_block regs a (stored k)"
    unfolding stored_def by (intro in_block_cong k)
  show ?case
  proof (cases "insMultCount k = 1")
    case True
    then have n: "n = 0" using Suc.hyps(2) by simp
    have run: "run_clocks (insMultCount k) bus ext k m = Some (block_end (stored k), m1)"
      using clock block_done_last [OF st] True by simp
    have "word_at m1 (word_addr a (slot_no regs r)) = rd k r" if "?r \<le> r" "r < 15" "bit regs r" for r
      using in_block_last [OF k True that] here addr by simp
    moreover have "word_at m1 b = word_at m b"
      if "b AND 3 = 0" "\<forall>i. slot_no regs ?r \<le> i \<longrightarrow> i < slot_no regs 16 \<longrightarrow> b \<noteq> word_addr a i" for b
      using rest that lt addr by simp
    ultimately show ?thesis
      using run same_run_trans [of k "stored k" "block_end (stored k)"]
      by (intro exI [of _ "block_end (stored k)"] exI [of _ m1] conjI) simp_all
  next
    case False
    let ?n = "block_next (stored k)"
    have ms: "insMultCount (stored k) \<noteq> 1" using False by simp
    note more = block_done_more [OF st ms]
    have sl: "slot_no regs (insRd ?n) = Suc (slot_no regs ?r)" using in_block_next_slot [OF st ms] by simp
    have n: "n = insMultCount ?n" "\<not> insL ?n" using Suc.hyps(2) Suc.prems(2) by simp_all
    from Suc.hyps(1) [OF n(1) more(2) n(2), of m1] obtain k' m' where
      run: "run_clocks n bus ext ?n m1 = Some (k', m')"
      and raw: "raw_reg k' = (if insW k then (raw_reg k)(reg_ix (currentBank ?n) (insRn k) := insMultWriteback k) else raw_reg k)"
      and same: "same_run ?n k'" "runstate k' = RunningS"
      and regs: "\<And>r. insRd ?n \<le> r \<Longrightarrow> r < 15 \<Longrightarrow> bit regs r \<Longrightarrow> word_at m' (word_addr a (slot_no regs r)) = rd ?n r"
      and frame: "\<And>b. b AND 3 = 0 \<Longrightarrow> (\<And>i. slot_no regs (insRd ?n) \<le> i \<Longrightarrow> i < slot_no regs 16 \<Longrightarrow> b \<noteq> word_addr a i)
        \<Longrightarrow> word_at m' b = word_at m1 b"
      unfolding n(1) by auto
    have bank: "currentBank ?n = currentBank k" by simp
    have "word_at m' (word_addr a (slot_no regs r)) = rd k r" if r: "?r \<le> r" "r < 15" "bit regs r" for r
    proof (cases "r = ?r")
      case True
      have "word_at m' ?A = word_at m1 ?A"
        using word_addr_aligned [OF assms(3)] in_block_count(3) [OF k] sl lt
        by (intro frame) (simp_all add: addr word_addr_inj)
      then show ?thesis using True here addr by simp
    next
      case False
      then have "insRd ?n \<le> r" using r more(4) [of r] by (cases "r < insRd ?n") auto
      then show ?thesis using regs [of r] r by (simp add: rd_def bank)
    qed
    moreover have "word_at m' b = word_at m b"
      if "b AND 3 = 0" "\<forall>i. slot_no regs ?r \<le> i \<longrightarrow> i < slot_no regs 16 \<longrightarrow> b \<noteq> word_addr a i" for b
      using frame [of b] rest [of b] that sl lt addr by simp
    moreover have "run_clocks (insMultCount k) bus ext k m = Some (k', m')"
      using run clock more(1) Suc.hyps(2) by (simp flip: Suc.hyps(2))
    moreover have "same_run k k'"
      using same_run_trans [OF same_run_trans [of k "stored k" ?n] same(1)] by simp
    ultimately show ?thesis
      using raw same(2) bank by (intro exI [of _ k'] exI [of _ m'] conjI) simp_all
  qed
qed

lemma load_clock:
  assumes k: "in_block regs a k" "insL k" and a: "a AND 3 = 0" "backed (insDataAddress k)"
  shows "execute bus ext k m = map_option (\<lambda>k. (k, m)) (block_done (loaded (word_at m (insDataAddress k)) k))"
proof -
  have al: "insDataAddress k AND 3 = 0" using k(1) word_addr_aligned [OF a(1)] by (simp add: in_block_def)
  note rw = load_word [OF al a(2), where opf = False and m = m]
  have "exec_mem_operand_instr bus (latch_thumb k) m = Some (True, loaded (word_at m (insDataAddress k)) k, m)"
    using k rw by (simp add: exec_mem_operand_instr_def mem_load_def in_block_def latch_thumb_def user_slot_def
        mem_writeback_def loaded_def raw_wr_def wr_def rd_def Let_def)
  then show ?thesis
    using k(1) by (simp add: execute_def bodystate_clock_def in_block_def latch_thumb_def transfer_def)
qed

lemma load_block:
  assumes "in_block regs a k" "insL k" "a AND 3 = 0" "\<forall>i < slot_no regs 16. backed (word_addr a i)"
  shows "\<exists>k'. run_clocks (insMultCount k) bus ext k m = Some (k', m) \<and> same_run k k' \<and> runstate k' = RunningS \<and>
    (\<forall>r < 17. rd k' r =
      (if insW k \<and> r = insRn k then insMultWriteback k
       else if insRd k \<le> r \<and> r < 15 \<and> bit regs r then word_at m (word_addr a (slot_no regs r))
       else rd k r))"
  using assms(1,2)
proof (induction "insMultCount k" arbitrary: k)
  case 0
  then have "slot_no regs (insRd k) < slot_no regs 16" by (intro slot_no_less) (simp_all add: in_block_def)
  with 0 show ?case by (simp add: in_block_def)
next
  case (Suc n)
  note k = Suc.prems(1)
  let ?r = "insRd k" and ?A = "insDataAddress k"
  let ?l = "loaded (word_at m ?A) k"
  note c = in_block_count [OF k]
  have Rn: "insRn k < 15" using k by (simp add: in_block_def)
  have "backed ?A" using assms(4) c by simp
  note clock = load_clock [OF k Suc.prems(2) assms(3) this, of ext m]
  have ld: "in_block regs a ?l"
    using in_block_cong(1,4) [OF k] by (simp add: loaded_def wr_def in_block_def latch_thumb_def)
  show ?case
  proof (cases "insMultCount k = 1")
    case True
    have run: "run_clocks (insMultCount k) bus ext k m = Some (block_end ?l, m)"
      using clock block_done_last [OF ld] True by simp
    have one: "?r \<le> r \<and> r < 15 \<and> bit regs r \<longleftrightarrow> r = ?r" for r
      using in_block_last [OF k True] c by auto
    have "rd (block_end ?l) r = (if insW k \<and> r = insRn k then insMultWriteback k
         else if r = ?r then word_at m ?A else rd k r)" if "r < 17" for r
      using that Rn c(4) by (simp add: rd_def)
    then have "rd (block_end ?l) r = (if insW k \<and> r = insRn k then insMultWriteback k
         else if ?r \<le> r \<and> r < 15 \<and> bit regs r then word_at m (word_addr a (slot_no regs r)) else rd k r)"
      if "r < 17" for r using that unfolding one by (simp add: c(6))
    then show ?thesis
      using run same_run_trans [of k ?l "block_end ?l"]
      by (intro exI [of _ "block_end ?l"] conjI allI impI) simp_all
  next
    case False
    let ?n = "block_next ?l"
    have ms: "insMultCount ?l \<noteq> 1" using False by simp
    note more = block_done_more [OF ld ms]
    have n: "n = insMultCount ?n" "insL ?n" using Suc.hyps(2) Suc.prems(2) by simp_all
    from Suc.hyps(1) [OF n(1) more(2) n(2)] obtain k' where
      run: "run_clocks n bus ext ?n m = Some (k', m)" and same: "same_run ?n k'" "runstate k' = RunningS"
      and regs: "\<And>r. r < 17 \<Longrightarrow> rd k' r =
        (if insW k \<and> r = insRn k then insMultWriteback k
         else if insRd ?n \<le> r \<and> r < 15 \<and> bit regs r then word_at m (word_addr a (slot_no regs r))
         else rd ?n r)"
      unfolding n(1) by auto
    have nxt: "?r \<le> r \<and> r < 15 \<and> bit regs r \<longleftrightarrow> r = ?r \<or> insRd ?n \<le> r \<and> r < 15 \<and> bit regs r" for r
      using more(3) more(4) [of r] more(2) c(4,5)
      by (cases "insRd ?n \<le> r"; cases "r = ?r") auto
    have "rd ?n r = (if r = ?r then word_at m ?A else rd k r)" if "r < 17" for r
      using that c(4) by (simp add: rd_def)
    then have "rd k' r =
        (if insW k \<and> r = insRn k then insMultWriteback k
         else if ?r \<le> r \<and> r < 15 \<and> bit regs r then word_at m (word_addr a (slot_no regs r))
         else rd k r)" if "r < 17" for r
      using regs [OF that] more(3) that unfolding nxt by (auto simp: c(6))
    moreover have "run_clocks (insMultCount k) bus ext k m = Some (k', m)"
      using run clock more(1) Suc.hyps(2) by (simp flip: Suc.hyps(2))
    moreover have "same_run k k'"
      using same_run_trans [OF same_run_trans [of k ?l ?n] same(1)] by simp
    ultimately show ?thesis using same(2) by (intro exI [of _ k'] conjI allI impI)
  qed
qed

end

section \<open>Saving and restoring registers\<close>

text \<open>\<^verbatim>\<open>push {regs}\<close> (STMDB sp!) and \<^verbatim>\<open>pop {regs}\<close> (LDMIA sp!).\<close>

definition push_ins :: "u16 \<Rightarrow> u32" where "push_ins regs = 0xE92D0000 OR ucast regs"
definition pop_ins :: "u16 \<Rightarrow> u32" where "pop_ins regs = 0xE8BD0000 OR ucast regs"

lemma drop_bit_low: "16 \<le> n \<Longrightarrow> drop_bit n (c OR ucast (regs :: u16) :: u32) = drop_bit n c"
  by (rule bit_word_eqI) (auto simp: bit_drop_bit_eq bit_or_iff bit_ucast_iff dest: bit_imp_le_length)

lemma zero_half: "(0xE92D0000 :: u16) = 0" "(0xE8BD0000 :: u16) = 0"
  by simp_all

lemma low_half: "(ucast (0xE92D0000 OR ucast regs :: u32) :: u16) = regs" "(ucast (0xE8BD0000 OR ucast regs :: u32) :: u16) = regs"
proof -
  have "(ucast (ucast regs :: u32) :: u16) = regs" by (rule bit_word_eqI) (simp add: bit_ucast_iff)
  moreover have "(ucast (c OR ucast regs :: u32) :: u16) = ucast c OR ucast (ucast regs :: u32)" for c
    by (rule bit_word_eqI) (simp add: bit_ucast_iff bit_or_iff)
  ultimately show "(ucast (0xE92D0000 OR ucast regs :: u32) :: u16) = regs"
    "(ucast (0xE8BD0000 OR ucast regs :: u32) :: u16) = regs"
    by (simp_all add: zero_half)
qed

text \<open>What the decoder makes of them.\<close>

definition block_decoded :: "bool \<Rightarrow> u16 \<Rightarrow> arm \<Rightarrow> arm" where
  "block_decoded popping regs k =
    k\<lparr>insDecodeT := BlockT, insSUser := False, insCcodeTest := True, insP := \<not> popping, insU := popping,
      insB := False, insW := True, insL := popping, insS := False, insRn := 13, insRd := ireg k 12,
      insEXCF := False, insMultRegisters := regs, runstate := MidMultipleS\<rparr>"

lemma decode_block:
  assumes "instruction k = (if popping then pop_ins regs else push_ins regs)"
  shows "DecodeArmInstruction ext k m = Some (True, block_decoded popping regs k, m)"
proof -
  let ?w = "instruction k"
  have w: "drop_bit n ?w = drop_bit n (if popping then 0xE8BD0000 else 0xE92D0000)" if "16 \<le> n" for n
    using drop_bit_low [OF that] assms by (simp add: push_ins_def pop_ins_def)
  have u: "ucast ?w = regs" using assms low_half [of regs] by (simp add: push_ins_def pop_ins_def)
  have c: "unat (drop_bit 28 ?w) = 14" "Bits ?w 25 3 = 4" "Bit ?w 24 = (\<not> popping)" "Bit ?w 23 = popping"
      "Bit ?w 22 = False" "Bit ?w 21 = True" "Bit ?w 20 = popping" "Bits4 ?w 16 = 13" "ucast ?w = regs"
    by (simp_all add: w Bits_def Bit_def Bits4_def u mask_eq_exp_minus_1)
  let ?k1 = "k\<lparr>insDecodeT := UnknownT, insSUser := False, insCcodeTest := True\<rparr>"
  have "decode_major ext (decode_fields ?k1) m = Some (block_decoded popping regs k, m)"
    by (simp add: decode_major_def decode_fields_def block_decoded_def c Let_def)
  then show ?thesis by (simp add: DecodeArmInstruction_def DecodeCcode_def c Let_def)
qed

context arm_bus
begin

text \<open>Fetch and decode: two clocks lead from between two instructions into the transfer.\<close>

lemma block_start:
  assumes k: "ready k" "(rd k 15 - 4) AND 3 = 0" "backed (rd k 15 - 4)"
    and w: "word_at m (rd k 15 - 4) = (if popping then pop_ins regs else push_ins regs)"
    and regs: "regs \<noteq> 0" "\<not> bit regs 15"
    and a: "a = (if popping then rd k 13 else rd k 13 - 4 * of_nat (slot_no regs 16))"
  shows "\<exists>k'. run_clocks 2 bus ext k m = Some (k', m) \<and> in_block regs a k' \<and> insL k' = popping \<and> insW k' \<and>
    insRn k' = 13 \<and> insMultCount k' = slot_no regs 16 \<and>
    insMultWriteback k' = (if popping then a + 4 * of_nat (slot_no regs 16) else a) \<and>
    (\<forall>q < insRd k'. \<not> bit regs q) \<and> same_run k k' \<and> raw_reg k' = (raw_reg k)(15 := raw_reg k 15 + 4)"
proof -
  let ?w = "if popping then pop_ins regs else push_ins regs"
  let ?f = "fetch_state ?w k"
  let ?d = "block_decoded popping regs ?f"
  have "instruction ?f = ?w" using k(1) by simp
  note dec = decode_block [OF this, of ext m]
  have one: "execute bus ext k m = Some (?d, m)"
    unfolding execute_ready [OF k w] dec by (simp add: execute_decoded_def finish_transfer_def block_decoded_def)
  have "\<exists>r<16. bit regs r"
    using regs(1) bit_word_eqI [of regs 0] by auto
  then have "0 < slot_no regs 16" using slot_no_less [of regs _ 16] by (metis gr0I less_zeroE)
  then have "slot_no regs 0 < slot_no regs 16" by (simp add: slot_no_def)
  then obtain r where r: "reg_from regs 0 = Some r" by (elim reg_from_exists) simp_all
  note f = reg_from_Some [OF r]
  have r15: "r < 15" using f(2,3) regs(2) by (cases "r = 15") auto
  have sp: "rd ?f 13 = rd k 13" using k(1) by (simp add: rd_def reg_ix_def)
  let ?e = "(latch_thumb ?d)\<lparr>insMultCount := slot_no regs 16,
      insMultWriteback := (if popping then a + 4 * of_nat (slot_no regs 16) else a), insDataAddress := a, insRd := r,
      insSUser := False, insSizeCode := 2, insEXCF := False, insSigned := False, runstate := MidMultiple2S\<rparr>"
  have "execute bus ext ?d m = Some (?e, m)"
    using r sp by (simp add: execute_def bodystate_clock_def DecodeMultiple_def block_decoded_def latch_thumb_def
        reg_count_slot rd_def a Let_def)
  then have "run_clocks 2 bus ext k m = Some (?e, m)" using one by (simp add: numeral_2_eq_2)
  moreover have "in_block regs a ?e"
    using f(3,4) regs r15 by (simp add: in_block_def latch_thumb_def block_decoded_def slot_no_def word_addr_def)
  moreover have "same_run k ?e" "raw_reg ?e = (raw_reg k)(15 := raw_reg k 15 + 4)"
    using k(1) by (simp_all add: same_run_def latch_thumb_def block_decoded_def ready_def)
  ultimately show ?thesis
    using f(5) by (intro exI [of _ ?e]) (simp add: latch_thumb_def block_decoded_def)
qed

end

context arm_bus
begin

lemma push_runs:
  assumes k: "ready k" "(rd k 15 - 4) AND 3 = 0" "backed (rd k 15 - 4)"
    and w: "word_at m (rd k 15 - 4) = push_ins regs"
    and regs: "regs \<noteq> 0" "\<not> bit regs 15"
    and a: "a = rd k 13 - 4 * of_nat (slot_no regs 16)" "a AND 3 = 0"
    and b: "\<forall>i < slot_no regs 16. backed (word_addr a i)"
  shows "\<exists>k' m'. run_clocks (2 + slot_no regs 16) bus ext k m = Some (k', m') \<and> ready k' \<and> rd k' 13 = a \<and>
    rd k' 15 = rd k 15 + 4 \<and> (\<forall>r < 15. r \<noteq> 13 \<longrightarrow> rd k' r = rd k r) \<and>
    (\<forall>r < 15. bit regs r \<longrightarrow> word_at m' (word_addr a (slot_no regs r)) = rd k r) \<and>
    (\<forall>c. c AND 3 = 0 \<longrightarrow> (\<forall>i < slot_no regs 16. c \<noteq> word_addr a i) \<longrightarrow> word_at m' c = word_at m c)"
proof -
  have "word_at m (rd k 15 - 4) = (if False then pop_ins regs else push_ins regs)" using w by simp
  from block_start [OF k this regs, of a ext] a(1) obtain k1 where
    run: "run_clocks 2 bus ext k m = Some (k1, m)" and i: "in_block regs a k1" "\<not> insL k1"
    and f: "insW k1" "insRn k1 = 13" "insMultCount k1 = slot_no regs 16" "insMultWriteback k1 = a"
      "\<And>q. q < insRd k1 \<Longrightarrow> \<not> bit regs q" "same_run k k1" "raw_reg k1 = (raw_reg k)(15 := raw_reg k 15 + 4)"
    by auto
  have all: "bit regs r \<Longrightarrow> insRd k1 \<le> r" for r using f(5) [of r] by (cases "r < insRd k1") auto
  then have s0: "slot_no regs (insRd k1) = 0" using f(5) by (simp add: slot_no_def)
  have bank: "currentBank k1 = currentBank k" using same_run_sel [OF f(6)] .
  from store_block [OF i a(2) b, of ext m] obtain k' m' where
    run2: "run_clocks (insMultCount k1) bus ext k1 m = Some (k', m')"
    and raw: "raw_reg k' = (raw_reg k1)(reg_ix (currentBank k1) 13 := a)"
    and same: "same_run k1 k'" "runstate k' = RunningS"
    and st: "\<And>r. insRd k1 \<le> r \<Longrightarrow> r < 15 \<Longrightarrow> bit regs r \<Longrightarrow> word_at m' (word_addr a (slot_no regs r)) = rd k1 r"
    and fr: "\<And>b. b AND 3 = 0 \<Longrightarrow> (\<And>i. i < slot_no regs 16 \<Longrightarrow> b \<noteq> word_addr a i) \<Longrightarrow> word_at m' b = word_at m b"
    using f s0 by auto
  have bank': "currentBank k' = currentBank k" using same_run_sel [OF same(1)] bank by simp
  have rd1: "rd k1 r = rd k r" if "r < 15" for r using that by (simp add: rd_def bank f(7))
  have "run_clocks (2 + slot_no regs 16) bus ext k m = Some (k', m')"
    unfolding run_clocks_add using run run2 f(3) by simp
  moreover have "ready k'"
    using k(1) same f(6) by (simp add: ready_def same_run_def raw f(7))
  moreover have "rd k' 13 = a" "rd k' 15 = rd k 15 + 4"
    by (simp_all add: rd_def bank' raw bank f(7))
  moreover have "rd k' r = rd k r" if "r < 15" "r \<noteq> 13" for r
    using that by (simp add: rd_def bank' raw bank f(7))
  ultimately show ?thesis
    using st all rd1 fr by (intro exI [of _ k'] exI [of _ m'] conjI allI impI) simp_all
qed

lemma pop_runs:
  assumes k: "ready k" "(rd k 15 - 4) AND 3 = 0" "backed (rd k 15 - 4)"
    and w: "word_at m (rd k 15 - 4) = pop_ins regs"
    and regs: "regs \<noteq> 0" "\<not> bit regs 15"
    and a: "a = rd k 13" "a AND 3 = 0"
    and b: "\<forall>i < slot_no regs 16. backed (word_addr a i)"
  shows "\<exists>k'. run_clocks (2 + slot_no regs 16) bus ext k m = Some (k', m) \<and> ready k' \<and>
    rd k' 15 = rd k 15 + 4 \<and>
    (\<forall>r < 15. rd k' r = (if r = 13 then a + 4 * of_nat (slot_no regs 16)
       else if bit regs r then word_at m (word_addr a (slot_no regs r)) else rd k r))"
proof -
  have "word_at m (rd k 15 - 4) = (if True then pop_ins regs else push_ins regs)" using w by simp
  from block_start [OF k this regs, of a ext] a(1) obtain k1 where
    run: "run_clocks 2 bus ext k m = Some (k1, m)" and i: "in_block regs a k1" "insL k1"
    and f: "insW k1" "insRn k1 = 13" "insMultCount k1 = slot_no regs 16"
      "insMultWriteback k1 = a + 4 * of_nat (slot_no regs 16)"
      "\<And>q. q < insRd k1 \<Longrightarrow> \<not> bit regs q" "same_run k k1" "raw_reg k1 = (raw_reg k)(15 := raw_reg k 15 + 4)"
    by auto
  have all: "bit regs r \<Longrightarrow> insRd k1 \<le> r" for r using f(5) [of r] by (cases "r < insRd k1") auto
  have bank: "currentBank k1 = currentBank k" using same_run_sel [OF f(6)] .
  from load_block [OF i a(2) b, of ext m] obtain k' where
    run2: "run_clocks (insMultCount k1) bus ext k1 m = Some (k', m)"
    and same: "same_run k1 k'" "runstate k' = RunningS"
    and ld: "\<And>r. r < 17 \<Longrightarrow> rd k' r = (if r = 13 then a + 4 * of_nat (slot_no regs 16)
       else if insRd k1 \<le> r \<and> r < 15 \<and> bit regs r then word_at m (word_addr a (slot_no regs r)) else rd k1 r)"
    using f by auto
  have rd1: "rd k1 r = (if r = 15 then rd k 15 + 4 else rd k r)" if "r < 17" for r
    using that by (cases "r < 15"; cases "r = 15"; cases "r = 16") (simp_all add: rd_def bank f(7))
  have cp: "raw_reg k' CpsrReg = raw_reg k CpsrReg" "rd k' 15 = rd k 15 + 4"
    using ld [of 16] ld [of 15] by (simp_all add: rd_def f(7))
  have "run_clocks (2 + slot_no regs 16) bus ext k m = Some (k', m)"
    unfolding run_clocks_add using run run2 f(3) by simp
  moreover have "ready k'"
    using k(1) same f(6) cp by (simp add: ready_def same_run_def)
  ultimately show ?thesis
    using ld all rd1 cp by (intro exI [of _ k'] conjI allI impI) auto
qed

end

text \<open>C7: Registers survive a push and a pop.  Let \<open>regs\<close> be a nonempty register list without the program
  counter (a \<^verbatim>\<open>pop\<close> into the program counter, the usual form of a return, is a jump and is not covered), let
  the stack pointer be aligned to words, and let the words pushed and the instructions, which are aligned
  too, lie within the flat memory.  A core that executes \<^verbatim>\<open>push {regs}\<close> between two instructions lowers the
  stack pointer by four bytes per register, keeps the other registers, and writes only the words from the
  new stack pointer on; whatever runs then, once the core is about to execute \<^verbatim>\<open>pop {regs}\<close> with that stack
  pointer and those words still in memory, the pop gives every register of the list and the stack pointer
  the value it had before the push, and keeps all the others.\<close>

theorem push_pop_roundtrip:
  assumes k: "ready k" "(rd k 15 - 4) AND 3 = 0" "flat_backed (rd k 15 - 4)"
    and w: "flat_word m (rd k 15 - 4) = push_ins regs"
    and regs: "regs \<noteq> 0" "\<not> bit regs 15" "n = reg_count regs"
    and a: "a = rd k 13 - 4 * of_nat n" "a AND 3 = 0" "\<forall>i < n. flat_backed (word_addr a i)"
  shows "\<exists>k1 m1. run_clocks (2 + n) (fast_bus p) ext k m = Some (k1, m1) \<and> ready k1 \<and> rd k1 13 = a \<and>
    rd k1 15 = rd k 15 + 4 \<and> (\<forall>r < 15. r \<noteq> 13 \<longrightarrow> rd k1 r = rd k r) \<and>
    (\<forall>c. c AND 3 = 0 \<longrightarrow> (\<forall>i < n. c \<noteq> word_addr a i) \<longrightarrow> flat_word m1 c = flat_word m c) \<and>
    (\<forall>k2 m2. ready k2 \<longrightarrow> rd k2 13 = a \<longrightarrow> (rd k2 15 - 4) AND 3 = 0 \<longrightarrow> flat_backed (rd k2 15 - 4) \<longrightarrow>
       flat_word m2 (rd k2 15 - 4) = pop_ins regs \<longrightarrow>
       (\<forall>i < n. flat_word m2 (word_addr a i) = flat_word m1 (word_addr a i)) \<longrightarrow>
       (\<exists>k3. run_clocks (2 + n) (fast_bus p) ext k2 m2 = Some (k3, m2) \<and> ready k3 \<and> rd k3 15 = rd k2 15 + 4 \<and>
          (\<forall>r < 15. rd k3 r = (if r = 13 \<or> bit regs r then rd k r else rd k2 r))))"
proof -
  have n: "n = slot_no regs 16" using regs(3) by (simp add: reg_count_slot)
  note a' = a [unfolded n]
  from fast.push_runs [OF k w regs(1,2) a', of p ext] obtain k1 m1 where
    push: "run_clocks (2 + n) (fast_bus p) ext k m = Some (k1, m1)" "ready k1" "rd k1 13 = a"
      "rd k1 15 = rd k 15 + 4" "\<forall>r < 15. r \<noteq> 13 \<longrightarrow> rd k1 r = rd k r"
      "\<forall>c. c AND 3 = 0 \<longrightarrow> (\<forall>i < n. c \<noteq> word_addr a i) \<longrightarrow> flat_word m1 c = flat_word m c"
    and saved: "\<forall>r < 15. bit regs r \<longrightarrow> flat_word m1 (word_addr a (slot_no regs r)) = rd k r"
    unfolding n by auto
  have "\<exists>k3. run_clocks (2 + n) (fast_bus p) ext k2 m2 = Some (k3, m2) \<and> ready k3 \<and> rd k3 15 = rd k2 15 + 4 \<and>
          (\<forall>r < 15. rd k3 r = (if r = 13 \<or> bit regs r then rd k r else rd k2 r))"
    if k2: "ready k2" "rd k2 13 = a" "(rd k2 15 - 4) AND 3 = 0" "flat_backed (rd k2 15 - 4)"
      "flat_word m2 (rd k2 15 - 4) = pop_ins regs"
      "\<forall>i < n. flat_word m2 (word_addr a i) = flat_word m1 (word_addr a i)" for k2 m2
  proof -
    from fast.pop_runs [OF k2(1,3-5) regs(1,2) k2(2) [symmetric] a'(2,3), of p ext] obtain k3 where
      pop: "run_clocks (2 + n) (fast_bus p) ext k2 m2 = Some (k3, m2)" "ready k3" "rd k3 15 = rd k2 15 + 4"
      and ld: "\<And>r. r < 15 \<Longrightarrow> rd k3 r = (if r = 13 then a + 4 * of_nat n
         else if bit regs r then flat_word m2 (word_addr a (slot_no regs r)) else rd k2 r)"
      unfolding n by auto
    have "slot_no regs r < n" if "r < 15" "bit regs r" for r
      unfolding n using that by (intro slot_no_less) simp_all
    then have "\<forall>r < 15. rd k3 r = (if r = 13 \<or> bit regs r then rd k r else rd k2 r)"
      using ld saved k2(6) a(1) by simp
    with pop show ?thesis by blast
  qed
  with push show ?thesis by blast
qed

text \<open>A core about to execute the instruction at 0x2000, with the stack pointer 0x1000 and 7 in register 4,
  and a memory with \<^verbatim>\<open>push {r4, lr}\<close> there and \<^verbatim>\<open>pop {r4, lr}\<close> at 0x3000.\<close>

definition calling_core :: arm where
  "calling_core = (arm_new 0)\<lparr>runstate := RunningS, raw_reg := (\<lambda>_. 0)(13 := 0x1000, 4 := 7, 15 := 0x2004)\<rparr>"

definition calling_memory :: flat where
  "calling_memory = \<lparr>flat_data = (\<lambda>_. 0)(0x2000 := 0x10, 0x2001 := 0x40, 0x2002 := 0x2D, 0x2003 := 0xE9,
      0x3000 := 0x10, 0x3001 := 0x40, 0x3002 := 0xBD, 0x3003 := 0xE8), llsc_addrs = Map.empty\<rparr>"

definition no_external :: "flat external" where
  "no_external = \<lparr>thumb_ins = (\<lambda>_ _. None), copro_ins = (\<lambda>_ _. None), float_ins = (\<lambda>_ _. None),
     arm_swi_backdoor = (\<lambda>_ _ _. None)\<rparr>"

lemma list_0x4010: "reg_count 0x4010 = 2" "\<not> bit (0x4010 :: u16) 15" "(0x4010 :: u16) \<noteq> 0" "bit (0x4010 :: u16) 4"
  by code_simp+

theorem push_pop_roundtrip_witness:
  "\<exists>k1 m1 k3. run_clocks 4 (fast_bus 0) no_external calling_core calling_memory = Some (k1, m1) \<and>
     rd k1 13 = 0xFF8 \<and>
     run_clocks 4 (fast_bus 0) no_external (k1\<lparr>raw_reg := (raw_reg k1)(15 := 0x3004, 4 := 0)\<rparr>) m1
       = Some (k3, m1) \<and> rd k3 4 = 7 \<and> rd k3 13 = 0x1000"
proof -
  have reg: "rd calling_core 15 = 0x2004" "rd calling_core 13 = 0x1000" "rd calling_core 4 = 7" "ready calling_core"
    by (simp_all add: calling_core_def arm_new_def rd_def reg_ix_def ready_def Bit_def)
  have mem: "flat_word calling_memory 0x2000 = push_ins 0x4010" "flat_word calling_memory 0x3000 = pop_ins 0x4010"
    by (simp_all add: flat_word_def calling_memory_def push_ins_def pop_ins_def Let_def)
  have bk: "flat_backed 0x2000" "flat_backed 0x3000" "\<forall>i < 2. flat_backed (word_addr 0xFF8 i)"
    by (auto simp: flat_backed_def mem_size_bytes_def word_addr_def less_2_cases_iff)
  have "\<exists>k1 m1. run_clocks (2 + 2) (fast_bus 0) no_external calling_core calling_memory = Some (k1, m1) \<and> ready k1 \<and>
    rd k1 13 = 0xFF8 \<and> rd k1 15 = rd calling_core 15 + 4 \<and> (\<forall>r < 15. r \<noteq> 13 \<longrightarrow> rd k1 r = rd calling_core r) \<and>
    (\<forall>c. c AND 3 = 0 \<longrightarrow> (\<forall>i < 2. c \<noteq> word_addr 0xFF8 i) \<longrightarrow> flat_word m1 c = flat_word calling_memory c) \<and>
    (\<forall>k2 m2. ready k2 \<longrightarrow> rd k2 13 = 0xFF8 \<longrightarrow> (rd k2 15 - 4) AND 3 = 0 \<longrightarrow> flat_backed (rd k2 15 - 4) \<longrightarrow>
       flat_word m2 (rd k2 15 - 4) = pop_ins 0x4010 \<longrightarrow>
       (\<forall>i < 2. flat_word m2 (word_addr 0xFF8 i) = flat_word m1 (word_addr 0xFF8 i)) \<longrightarrow>
       (\<exists>k3. run_clocks (2 + 2) (fast_bus 0) no_external k2 m2 = Some (k3, m2) \<and> ready k3 \<and> rd k3 15 = rd k2 15 + 4 \<and>
          (\<forall>r < 15. rd k3 r = (if r = 13 \<or> bit (0x4010 :: u16) r then rd calling_core r else rd k2 r))))"
    by (rule push_pop_roundtrip [of calling_core calling_memory]) (simp_all add: reg mem bk list_0x4010)
  then obtain k1 m1 where
    one: "run_clocks (2 + 2) (fast_bus 0) no_external calling_core calling_memory = Some (k1, m1)" "ready k1" "rd k1 13 = 0xFF8"
    and frame: "\<forall>c. c AND 3 = 0 \<longrightarrow> (\<forall>i < 2. c \<noteq> word_addr 0xFF8 i) \<longrightarrow> flat_word m1 c = flat_word calling_memory c"
    and two: "\<forall>k2 m2. ready k2 \<longrightarrow> rd k2 13 = 0xFF8 \<longrightarrow> (rd k2 15 - 4) AND 3 = 0 \<longrightarrow> flat_backed (rd k2 15 - 4) \<longrightarrow>
       flat_word m2 (rd k2 15 - 4) = pop_ins 0x4010 \<longrightarrow>
       (\<forall>i < 2. flat_word m2 (word_addr 0xFF8 i) = flat_word m1 (word_addr 0xFF8 i)) \<longrightarrow>
       (\<exists>k3. run_clocks (2 + 2) (fast_bus 0) no_external k2 m2 = Some (k3, m2) \<and> ready k3 \<and> rd k3 15 = rd k2 15 + 4 \<and>
          (\<forall>r < 15. rd k3 r = (if r = 13 \<or> bit (0x4010 :: u16) r then rd calling_core r else rd k2 r)))"
    by blast
  let ?k2 = "k1\<lparr>raw_reg := (raw_reg k1)(15 := 0x3004, 4 := 0)\<rparr>"
  have "\<forall>i < 2. (0x3000 :: u32) \<noteq> word_addr 0xFF8 i" by (auto simp: word_addr_def less_2_cases_iff)
  then have "flat_word m1 0x3000 = pop_ins 0x4010" using frame mem(2) by simp
  moreover have "ready ?k2" "rd ?k2 13 = 0xFF8" "rd ?k2 15 = 0x3004"
    using one by (simp_all add: ready_def rd_def) (simp_all add: reg_ix_def)
  ultimately obtain k3 where "run_clocks (2 + 2) (fast_bus 0) no_external ?k2 m1 = Some (k3, m1)"
      "\<forall>r < 15. rd k3 r = (if r = 13 \<or> bit (0x4010 :: u16) r then rd calling_core r else rd ?k2 r)"
    using two [rule_format, of ?k2 m1] bk(2) by auto
  then show ?thesis using one reg list_0x4010 by (intro exI [of _ k1] exI [of _ m1] exI [of _ k3]) simp
qed

section \<open>Interrupts\<close>

text \<open>\<^verbatim>\<open>subs pc, lr, #4\<close>, by which an interrupt handler returns.\<close>

definition irq_return_ins :: u32 where "irq_return_ins = 0xE25EF004"

definition irq_decoded :: "arm \<Rightarrow> arm" where
  "irq_decoded k =
    k\<lparr>insDecodeT := AluT, insSUser := False, insCcodeTest := True, insP := False, insU := False, insB := True,
      insW := False, insL := True, insS := True, insRn := 14, insRd := 15, insEXCF := False,
      insShiftCarryOut := False, insAluOperand2 := 4, insALUOpcode := 2, insAluOperand1 := rd k 14\<rparr>"

lemma decode_irq_return:
  assumes "instruction k = irq_return_ins"
  shows "DecodeArmInstruction ext k m = Some (True, irq_decoded k, m)"
proof -
  let ?k1 = "k\<lparr>insDecodeT := UnknownT, insSUser := False, insCcodeTest := True\<rparr>"
  have c: "unat (drop_bit 28 irq_return_ins) = 14" "Bits irq_return_ins 25 3 = 1"
      "irq_return_ins AND 0xFB00000 \<noteq> 0x3200000" "irq_return_ins AND 0xFF00000 \<noteq> 0x3400000"
      "irq_return_ins AND 0xFEF0FF0 \<noteq> 0x1A00060" "Bits irq_return_ins 23 5 = 4"
      "Bit irq_return_ins 25" "Bits irq_return_ins 0 8 = 4" "Bits4 irq_return_ins 8 = 0"
      "Bits4 irq_return_ins 21 = 2" "\<not> Bit irq_return_ins 24" "\<not> Bit irq_return_ins 23" "Bit irq_return_ins 22"
      "\<not> Bit irq_return_ins 21" "Bit irq_return_ins 20" "Bits4 irq_return_ins 16 = 14" "Bits4 irq_return_ins 12 = 15"
    by (simp_all add: irq_return_ins_def Bits_def Bits4_def Bit_def mask_eq_exp_minus_1)
  have "decode_data (decode_fields ?k1) = Some (irq_decoded k)"
    by (simp add: decode_data_def decode_alu_def decode_fields_def irq_decoded_def assms c Ror_def rd_def Let_def)
  then have "decode_major ext (decode_fields ?k1) m = Some (irq_decoded k, m)"
    by (simp add: decode_major_def decode_fields_def assms c Let_def)
  then show ?thesis by (simp add: DecodeArmInstruction_def DecodeCcode_def assms c Let_def)
qed

lemma set_mode_back:
  assumes "raw_reg k CpsrReg AND 31 = mode_bits M" "M \<noteq> IrqMode"
  shows "DecodeSetModeFromCpsr k = k\<lparr>prev_thumb_mode := thumb_mode k, thumb_mode := False, currentMode := M,
    currentBank := mode_bank M\<rparr>"
proof -
  let ?s = "raw_reg k CpsrReg"
  have d: "DecodeSetModeFromCpsr k = SetMode M False k"
    using assms(1) by (cases M) (simp_all add: DecodeSetModeFromCpsr_def rd_def)
  have "(?s AND 0xFFFFFFE0) OR (?s AND 31) = ?s AND (0xFFFFFFE0 OR 31)"
    by (simp only: bit.conj_disj_distrib)
  also have "(0xFFFFFFE0 OR 31 :: u32) = - 1" by simp
  finally have s: "(?s AND 0xFFFFFFE0) OR mode_bits M = ?s" using assms(1) by simp
  show ?thesis unfolding d SetMode_def s using assms(2) by (simp add: Let_def)
qed

context arm_bus
begin

lemma irq_return_clock:
  assumes k: "ready k" "currentBank k = IrqBank" "(rd k 15 - 4) AND 3 = 0" "backed (rd k 15 - 4)"
    and w: "word_at m (rd k 15 - 4) = irq_return_ins"
    and s: "spsr k = Some s" "s AND 31 = mode_bits M" "M \<noteq> IrqMode"
  shows "\<exists>k'. execute bus ext k m = Some (k', m) \<and> runstate k' = RunningS \<and> currentMode k' = M \<and>
    currentBank k' = mode_bank M \<and> raw_reg k' = (raw_reg k)(15 := rd k 14, 16 := s) \<and>
    stop_after_ins_count k' = stop_after_ins_count k \<and> \<not> instruction_grace k' \<and> pc_breakpoints k' = []"
proof -
  let ?f = "fetch_state irq_return_ins k"
  let ?d = "irq_decoded ?f"
  have "instruction ?f = irq_return_ins" using k(1) by simp
  note dec = decode_irq_return [OF this, of ext m]
  have lr: "rd ?f 14 = rd k 14" using k(1) by (simp add: rd_def)
  have sp: "raw_reg k (reg_ix IrqBank 17) = s" using s(1) k(2) by (simp add: spsr_def reg_slot_def)
  have "\<exists>k'. exec_alu_operand_instr ?d = Some k' \<and> runstate k' = RunningS \<and> currentMode k' = M \<and>
    currentBank k' = mode_bank M \<and> raw_reg k' = (raw_reg k)(15 := rd k 14, 16 := s) \<and>
    stop_after_ins_count k' = stop_after_ins_count k \<and> \<not> instruction_grace k' \<and> pc_breakpoints k' = []"
  proof -
    let ?k1 = "?d\<lparr>insAluResult := rd k 14 - 4, insWBdefault := True, raw_reg := (raw_reg k)(15 := rd k 14, 16 := s)\<rparr>"
    have ix: "reg_ix IrqBank 17 = 89" "reg_ix IrqBank 14 = 86" by (simp_all add: reg_ix_def)
    have e: "exec_alu_operand_instr ?d = Some (DecodeSetModeFromCpsr ?k1)"
      using k(1,2) lr sp
      by (simp add: exec_alu_operand_instr_def alu_op_def irq_decoded_def updateFlags_def alu_writeback_def
          spsr_def reg_slot_def wr_def rd_def ARM_PC_CORRECTION_def fun_upd_twist ix Let_def)
    have "raw_reg ?k1 CpsrReg AND 31 = mode_bits M" using s(2) by simp
    from set_mode_back [OF this s(3)] show ?thesis unfolding e using k(1) by (simp add: irq_decoded_def)
  qed
  then obtain k' where k': "exec_alu_operand_instr ?d = Some k'" "runstate k' = RunningS" "currentMode k' = M"
    "currentBank k' = mode_bank M" "raw_reg k' = (raw_reg k)(15 := rd k 14, 16 := s)"
    "stop_after_ins_count k' = stop_after_ins_count k" "\<not> instruction_grace k'" "pc_breakpoints k' = []" by blast
  have "insDecodeT ?d = AluT" by (simp add: irq_decoded_def)
  then have "execute bus ext k m = Some (k', m)"
    unfolding execute_ready [OF k(1,3,4) w] dec using k'(1,2) by (simp add: execute_decoded_def finish_transfer_def)
  with k' show ?thesis by (intro exI [of _ k']) simp
qed

end

text \<open>What taking an interrupt does.\<close>

lemma interrupt_taken:
  assumes "ready k" "\<not> thumb_mode k" "currentMode k \<noteq> IrqMode" "currentMode k \<noteq> FiqMode" "\<not> IRQFlag k"
  shows "\<exists>k1. hw_interrupt k = Some (True, k1) \<and> currentMode k1 = IrqMode \<and> currentBank k1 = IrqBank \<and> IRQFlag k1 \<and>
    rd k1 15 = vector_address IrqVector + vectorBase k + 4 \<and> rd k1 14 = rd k 15 \<and> spsr k1 = Some (rd k 16) \<and>
    ready k1 \<and> (\<forall>i. i \<notin> {15, 16, 86, 89} \<longrightarrow> raw_reg k1 i = raw_reg k i)"
proof -
  have e: "reg_ix IrqBank 17 = 89" "reg_ix IrqBank 14 = 86" by (simp_all add: reg_ix_def)
  have "bit ((x AND 0xFFFFFFE0 OR 18) OR 0x80 :: u32) 7" for x by (simp add: bit_or_iff)
  moreover have i: "x AND 0x80 \<noteq> 0 \<longleftrightarrow> bit x 7" for x :: u32
    using and_exp_eq_0_iff_not_bit [of x 7] by simp
  moreover have "IRQFlag j \<longleftrightarrow> bit (raw_reg j 16) 7" for j by (simp add: IRQFlag_def i)
  moreover have "bit ((x AND 0xFFFFFFE0 OR 18) OR 0x80 :: u32) 5 \<longleftrightarrow> bit x 5" "bit (x AND 0xFFFFFFE0 OR 18 :: u32) 5 \<longleftrightarrow> bit x 5" for x
    by (simp_all add: bit_or_iff bit_and_iff)
  ultimately show ?thesis
    using assms by (simp add: ready_def Bit_iff hw_interrupt_def DecodeTrap_def SetMode_def wr_def rd_def raw_wr_def spsr_def
        reg_slot_def e ARM_PC_CORRECTION_def Let_def)
qed

text \<open>C8: An interrupt that is taken is transparent to the code it interrupts.  Between two instructions in
  ARM state, with interrupts enabled and outside IRQ and FIQ mode, \<^verbatim>\<open>hw_interrupt\<close> enters IRQ mode at the
  vector with further interrupts masked; whatever the handler does on the flat memory, once it is about to
  execute \<^verbatim>\<open>subs pc, lr, #4\<close> in IRQ mode with its own link and saved status register and the general
  registers of the interrupted mode as they were, one clock brings back the mode, the bank, the status
  register, the program counter and every register.\<close>

theorem interrupt_roundtrip:
  assumes "ready k" "\<not> thumb_mode k" "currentMode k \<noteq> IrqMode" "currentMode k \<noteq> FiqMode" "\<not> IRQFlag k"
    and mode: "rd k CpsrReg AND 31 = mode_bits (currentMode k)" "currentBank k = mode_bank (currentMode k)"
  shows "\<exists>k1. hw_interrupt k = Some (True, k1) \<and> currentMode k1 = IrqMode \<and>
    rd k1 PcReg = vector_address IrqVector + vectorBase k + 4 \<and> hw_interrupt k1 = Some (False, k1) \<and>
    ready k1 \<and> currentBank k1 = IrqBank \<and> (\<forall>r < 15. raw_reg k1 (reg_ix (currentBank k) r) = rd k r) \<and>
    (\<forall>k2 m. ready k2 \<longrightarrow> currentBank k2 = IrqBank \<longrightarrow> rd k2 LrReg = rd k1 LrReg \<longrightarrow> spsr k2 = spsr k1 \<longrightarrow>
       (\<forall>r < 15. raw_reg k2 (reg_ix (currentBank k) r) = rd k r) \<longrightarrow>
       (rd k2 PcReg - 4) AND 3 = 0 \<longrightarrow> flat_backed (rd k2 PcReg - 4) \<longrightarrow>
       flat_word m (rd k2 PcReg - 4) = irq_return_ins \<longrightarrow>
       (\<exists>k3. execute (fast_bus p) ext k2 m = Some (k3, m) \<and> ready k3 \<and> currentMode k3 = currentMode k \<and>
          currentBank k3 = currentBank k \<and> (\<forall>r < 17. rd k3 r = rd k r)))"
proof -
  obtain k1 where k1: "hw_interrupt k = Some (True, k1)" "currentMode k1 = IrqMode" "IRQFlag k1"
    "rd k1 15 = vector_address IrqVector + vectorBase k + 4" "rd k1 14 = rd k 15" "spsr k1 = Some (rd k 16)"
    "ready k1" "currentBank k1 = IrqBank" "\<And>i. i \<notin> {15, 16, 86, 89} \<Longrightarrow> raw_reg k1 i = raw_reg k i"
    using interrupt_taken [OF assms(1-5)] by blast
  have other: "reg_ix (currentBank k) r \<notin> {15, 16, 86, 89}" if "r < 15" for r
    unfolding mode(2) using that assms(3) by (cases "currentMode k") (auto simp: reg_ix_def)
  have "\<exists>k3. execute (fast_bus p) ext k2 m = Some (k3, m) \<and> ready k3 \<and> currentMode k3 = currentMode k \<and>
          currentBank k3 = currentBank k \<and> (\<forall>r < 17. rd k3 r = rd k r)"
    if k2: "ready k2" "currentBank k2 = IrqBank" "rd k2 14 = rd k1 14" "spsr k2 = spsr k1"
      "\<forall>r < 15. raw_reg k2 (reg_ix (currentBank k) r) = rd k r"
      "(rd k2 15 - 4) AND 3 = 0" "flat_backed (rd k2 15 - 4)" "flat_word m (rd k2 15 - 4) = irq_return_ins" for k2 m
  proof -
    have sp: "spsr k2 = Some (rd k 16)" using k2(4) k1(6) by simp
    from fast.irq_return_clock [OF k2(1,2,6-8) sp mode(1) assms(3), of p ext] obtain k3 where
      k3: "execute (fast_bus p) ext k2 m = Some (k3, m)" "runstate k3 = RunningS" "currentMode k3 = currentMode k"
        "currentBank k3 = currentBank k" "raw_reg k3 = (raw_reg k2)(15 := rd k2 14, 16 := rd k 16)"
        "stop_after_ins_count k3 = stop_after_ins_count k2" "\<not> instruction_grace k3" "pc_breakpoints k3 = []"
      using mode(2) by auto
    have "rd k3 r = rd k r" if "r < 15" for r using that k2(5) by (simp add: rd_def k3)
    moreover have "rd k3 15 = rd k 15" "rd k3 16 = rd k 16" using k2(3) k1(5) by (simp_all add: rd_def k3)
    ultimately have "rd k3 r = rd k r" if "r < 17" for r
      using that by (cases "r < 15"; cases "r = 15"; cases "r = 16") simp_all
    moreover have "ready k3" using assms(1) k2(1) k3 by (simp add: ready_def rd_def)
    ultimately show ?thesis using k3 by blast
  qed
  moreover have "hw_interrupt k1 = Some (False, k1)" using k1(2) by (simp add: hw_interrupt_def)
  moreover have "\<forall>r < 15. raw_reg k1 (reg_ix (currentBank k) r) = rd k r"
    using k1(9) [OF other] by (simp add: rd_def)
  ultimately show ?thesis using k1 by blast
qed

theorem interrupt_roundtrip_witness:
  "\<exists>k1 k3. hw_interrupt (calling_core\<lparr>raw_reg := (raw_reg calling_core)(16 := 0x10)\<rparr>) = Some (True, k1) \<and>
     execute (fast_bus 0) no_external (k1\<lparr>raw_reg := (raw_reg k1)(15 := 0x5004)\<rparr>)
       \<lparr>flat_data = (\<lambda>_. 0)(0x5000 := 0x04, 0x5001 := 0xF0, 0x5002 := 0x5E, 0x5003 := 0xE2), llsc_addrs = Map.empty\<rparr>
       = Some (k3, \<lparr>flat_data = (\<lambda>_. 0)(0x5000 := 0x04, 0x5001 := 0xF0, 0x5002 := 0x5E, 0x5003 := 0xE2), llsc_addrs = Map.empty\<rparr>) \<and>
     currentMode k3 = UserMode \<and> rd k3 15 = 0x2004 \<and> rd k3 4 = 7"
proof -
  let ?k = "calling_core\<lparr>raw_reg := (raw_reg calling_core)(16 := 0x10)\<rparr>"
  let ?m = "\<lparr>flat_data = (\<lambda>_. 0)(0x5000 := 0x04, 0x5001 := 0xF0, 0x5002 := 0x5E, 0x5003 := 0xE2), llsc_addrs = Map.empty\<rparr> :: flat"
  have k: "ready ?k" "\<not> thumb_mode ?k" "currentMode ?k \<noteq> IrqMode" "currentMode ?k \<noteq> FiqMode" "\<not> IRQFlag ?k"
      "rd ?k CpsrReg AND 31 = mode_bits (currentMode ?k)" "currentBank ?k = mode_bank (currentMode ?k)"
      "rd ?k 15 = 0x2004" "rd ?k 4 = 7" "currentMode ?k = UserMode"
    by (simp_all add: calling_core_def arm_new_def ready_def Bit_def IRQFlag_def rd_def reg_ix_def)
  have m: "flat_word ?m 0x5000 = irq_return_ins" "flat_backed 0x5000"
    by (simp_all add: flat_word_def irq_return_ins_def flat_backed_def mem_size_bytes_def Let_def)
  obtain k1 where k1: "hw_interrupt ?k = Some (True, k1)" "ready k1" "currentBank k1 = IrqBank"
      "\<forall>r < 15. raw_reg k1 (reg_ix (currentBank ?k) r) = rd ?k r"
    and ret: "\<And>k2 m. ready k2 \<Longrightarrow> currentBank k2 = IrqBank \<Longrightarrow> rd k2 14 = rd k1 14 \<Longrightarrow> spsr k2 = spsr k1 \<Longrightarrow>
       \<forall>r < 15. raw_reg k2 (reg_ix (currentBank ?k) r) = rd ?k r \<Longrightarrow>
       (rd k2 15 - 4) AND 3 = 0 \<Longrightarrow> flat_backed (rd k2 15 - 4) \<Longrightarrow> flat_word m (rd k2 15 - 4) = irq_return_ins \<Longrightarrow>
       \<exists>k3. execute (fast_bus 0) no_external k2 m = Some (k3, m) \<and> ready k3 \<and> currentMode k3 = currentMode ?k \<and>
          currentBank k3 = currentBank ?k \<and> (\<forall>r < 17. rd k3 r = rd ?k r)"
    using interrupt_roundtrip [OF k(1-7), of 0 no_external] by blast
  let ?k2 = "k1\<lparr>raw_reg := (raw_reg k1)(15 := 0x5004)\<rparr>"
  have "ready ?k2" "rd ?k2 14 = rd k1 14" "rd ?k2 15 = 0x5004" "spsr ?k2 = spsr k1" "currentBank ?k2 = IrqBank"
    using k1(2,3) by (simp_all add: ready_def rd_def spsr_def reg_slot_def reg_ix_def)
  moreover have "\<forall>r < 15. raw_reg ?k2 (reg_ix (currentBank ?k) r) = rd ?k r" using k1(4) by simp
  ultimately obtain k3 where k3: "execute (fast_bus 0) no_external ?k2 ?m = Some (k3, ?m)" "currentMode k3 = currentMode ?k"
      "\<forall>r < 17. rd k3 r = rd ?k r"
    using ret [of ?k2 ?m] m by auto
  have "rd k3 15 = 0x2004" "rd k3 4 = 7" "currentMode k3 = UserMode" using k3(2,3) k(8-10) by simp_all
  with k1(1) k3(1) show ?thesis by blast
qed

section \<open>Two departures from the architecture\<close>

lemma bit_swap_by:
  "bit (swap_by n lo hi d) i \<longleftrightarrow>
    bit lo i \<and> bit d (n + i) \<or> bit hi i \<and> n \<le> i \<and> i < 32 \<and> bit d (i - n)"
  by (auto simp: swap_by_def bit_or_iff bit_and_iff bit_drop_bit_eq bit_push_bit_iff)

lemma high_nibbles: "i < 32 \<Longrightarrow> bit (0xF0F0F0F0 :: u32) i \<longleftrightarrow> 4 \<le> i mod 8"
  "i < 32 \<Longrightarrow> bit (0x33333333 :: u32) i \<longleftrightarrow> i mod 4 < 2" "i < 32 \<Longrightarrow> bit (0xCCCCCCCC :: u32) i \<longleftrightarrow> 2 \<le> i mod 4"
  "i < 32 \<Longrightarrow> bit (0x55555555 :: u32) i \<longleftrightarrow> even i" "i < 32 \<Longrightarrow> bit (0xAAAAAAAA :: u32) i \<longleftrightarrow> odd i"
proof -
  have "\<forall>i \<in> set [0..<32]. (bit (0xF0F0F0F0 :: u32) i \<longleftrightarrow> 4 \<le> i mod 8) \<and> (bit (0x33333333 :: u32) i \<longleftrightarrow> i mod 4 < 2) \<and>
    (bit (0xCCCCCCCC :: u32) i \<longleftrightarrow> 2 \<le> i mod 4) \<and> (bit (0x55555555 :: u32) i \<longleftrightarrow> even i) \<and>
    (bit (0xAAAAAAAA :: u32) i \<longleftrightarrow> odd i)" by code_simp
  then show "i < 32 \<Longrightarrow> bit (0xF0F0F0F0 :: u32) i \<longleftrightarrow> 4 \<le> i mod 8"
    "i < 32 \<Longrightarrow> bit (0x33333333 :: u32) i \<longleftrightarrow> i mod 4 < 2" "i < 32 \<Longrightarrow> bit (0xCCCCCCCC :: u32) i \<longleftrightarrow> 2 \<le> i mod 4"
    "i < 32 \<Longrightarrow> bit (0x55555555 :: u32) i \<longleftrightarrow> even i" "i < 32 \<Longrightarrow> bit (0xAAAAAAAA :: u32) i \<longleftrightarrow> odd i" by simp_all
qed

definition only_high :: "u32 \<Rightarrow> bool" where "only_high d \<longleftrightarrow> (\<forall>i. bit d i \<longrightarrow> 4 \<le> i mod 8)"

lemma only_high_bit: "only_high d \<Longrightarrow> bit d i \<Longrightarrow> 4 \<le> i mod 8"
  by (simp add: only_high_def)

lemma only_high_swap:
  shows "only_high (swap_by 4 0xF0F0F0F0 0xF0F0F0F0 d)"
    "only_high d \<Longrightarrow> only_high (swap_by 2 0x33333333 0xCCCCCCCC d)"
    "only_high d \<Longrightarrow> only_high (swap_by 1 0x55555555 0xAAAAAAAA d)"
proof -
  show "only_high (swap_by 4 0xF0F0F0F0 0xF0F0F0F0 d)"
    unfolding only_high_def
  proof (intro allI impI)
    fix i assume b: "bit (swap_by 4 0xF0F0F0F0 0xF0F0F0F0 d) i"
    then have "i < 32" using bit_imp_le_length by fastforce
    with b show "4 \<le> i mod 8" unfolding bit_swap_by using high_nibbles(1) by blast
  qed
  show "only_high (swap_by 2 0x33333333 0xCCCCCCCC d)" if "only_high d"
    unfolding only_high_def
  proof (intro allI impI)
    fix i assume b: "bit (swap_by 2 0x33333333 0xCCCCCCCC d) i"
    then have "i < 32" using bit_imp_le_length by fastforce
    with b have "i mod 4 < 2 \<and> bit d (2 + i) \<or> 2 \<le> i mod 4 \<and> 2 \<le> i \<and> bit d (i - 2)"
      unfolding bit_swap_by high_nibbles [OF \<open>i < 32\<close>] by (simp only: add.commute) blast
    then have "i mod 4 < 2 \<and> 4 \<le> (2 + i) mod 8 \<or> 2 \<le> i mod 4 \<and> 2 \<le> i \<and> 4 \<le> (i - 2) mod 8"
      using only_high_bit [OF that] by blast
    moreover have "\<forall>i \<in> set [0..<32]. i mod 4 < 2 \<and> 4 \<le> (2 + i) mod 8 \<or> 2 \<le> i mod 4 \<and> 2 \<le> i \<and> 4 \<le> (i - 2) mod 8
        \<longrightarrow> 4 \<le> i mod 8" by code_simp
    moreover have "i \<in> set [0..<32]" using \<open>i < 32\<close> by simp
    ultimately show "4 \<le> i mod 8" by blast
  qed
  show "only_high (swap_by 1 0x55555555 0xAAAAAAAA d)" if "only_high d"
    unfolding only_high_def
  proof (intro allI impI)
    fix i assume b: "bit (swap_by 1 0x55555555 0xAAAAAAAA d) i"
    then have "i < 32" using bit_imp_le_length by fastforce
    with b have "even i \<and> bit d (1 + i) \<or> odd i \<and> bit d (i - 1)"
      unfolding bit_swap_by high_nibbles [OF \<open>i < 32\<close>] by (simp only: add.commute) blast
    then have "even i \<and> 4 \<le> (1 + i) mod 8 \<or> odd i \<and> 4 \<le> (i - 1) mod 8"
      using only_high_bit [OF that] by blast
    moreover have "\<forall>i \<in> set [0..<32]. even i \<and> 4 \<le> (1 + i) mod 8 \<or> odd i \<and> 4 \<le> (i - 1) mod 8 \<longrightarrow> 4 \<le> i mod 8"
      by code_simp
    moreover have "i \<in> set [0..<32]" using \<open>i < 32\<close> by simp
    ultimately show "4 \<le> i mod 8" by blast
  qed
qed

lemma reverse_bytes_bit:
  assumes "i < 32"
  shows "bit (byte_reverse 0 d) i \<longleftrightarrow> bit d (8 * (3 - i div 8) + i mod 8)"
proof -
  have "\<forall>i \<in> set [0..<32]. (bit (0xFF :: u32) i \<longleftrightarrow> i < 8) \<and> (bit (0xFF00 :: u32) i \<longleftrightarrow> 8 \<le> i \<and> i < 16) \<and>
    (bit (0xFF0000 :: u32) i \<longleftrightarrow> 16 \<le> i \<and> i < 24) \<and> (bit (0xFF000000 :: u32) i \<longleftrightarrow> 24 \<le> i)" by code_simp
  then have m: "bit (0xFF :: u32) i \<longleftrightarrow> i < 8" "bit (0xFF00 :: u32) i \<longleftrightarrow> 8 \<le> i \<and> i < 16"
    "bit (0xFF0000 :: u32) i \<longleftrightarrow> 16 \<le> i \<and> i < 24" "bit (0xFF000000 :: u32) i \<longleftrightarrow> 24 \<le> i" using assms by simp_all
  have r: "bit (byte_reverse 0 d) i \<longleftrightarrow> bit d (24 + i) \<and> i < 8 \<or> bit d (8 + i) \<and> (8 \<le> i \<and> i < 16) \<or>
      bit d (i - 8) \<and> (16 \<le> i \<and> i < 24) \<or> bit d (i - 24) \<and> 24 \<le> i"
    unfolding byte_reverse_def if_P [OF refl]
    by (simp only: bit_or_iff bit_and_iff bit_drop_bit_eq bit_push_bit_iff comp_def m) (use assms in auto)
  from assms show ?thesis
  proof (cases rule: split8)
    case (1 r) then show ?thesis unfolding r by simp
  next
    case (2 q) then have "i div 8 = 1" "i mod 8 = q" by simp_all
    then show ?thesis unfolding r using 2 by (simp add: add.commute)
  next
    case (3 q) then have "i div 8 = 2" "i mod 8 = q" by simp_all
    then show ?thesis unfolding r using 3 by (simp add: add.commute)
  next
    case (4 q) then have "i div 8 = 3" "i mod 8 = q" by simp_all
    then show ?thesis unfolding r using 4 by (simp add: add.commute)
  qed
qed

text \<open>REV reverses the bytes of a word exactly, but RBIT does not reverse the bits: its third exchange
  uses the mask 0xF0F0F0F0 where 0x0F0F0F0F is meant, so that its result never has a bit in the low half
  of a byte, and 0x80000000, whose reversal is 1, gives 0.\<close>

theorem reversals:
  "(\<forall>i < 32. bit (byte_reverse 0 d) i \<longleftrightarrow> bit d (8 * (3 - i div 8) + i mod 8)) \<and>
   byte_reverse 2 d AND 0x0F0F0F0F = 0 \<and> byte_reverse 2 0x80000000 = 0"
proof -
  have "only_high (byte_reverse 2 d)"
    using only_high_swap by (simp add: byte_reverse_def del: One_nat_def)
  moreover have "\<forall>i \<in> set [0..<32]. bit (0x0F0F0F0F :: u32) i \<longleftrightarrow> i mod 8 < 4" by code_simp
  ultimately have "byte_reverse 2 d AND 0x0F0F0F0F = 0"
    by (intro bit_word_eqI) (auto simp: bit_and_iff dest: only_high_bit)
  moreover have "byte_reverse 2 0x80000000 = 0" by (simp add: byte_reverse_def swap_by_def)
  ultimately show ?thesis using reverse_bytes_bit by blast
qed

theorem reversals_witness:
  "bit (byte_reverse 0 0x80) 31 \<and> byte_reverse 2 0x80 AND 0x0F0F0F0F = 0"
proof -
  note r = reversals [of "0x80"]
  have "bit (byte_reverse 0 0x80) 31 \<longleftrightarrow> bit (0x80 :: u32) (8 * (3 - 31 div 8) + 31 mod 8)"
    using r [THEN conjunct1, rule_format, of 31] by simp
  then show ?thesis using r by simp
qed

text \<open>\<^verbatim>\<open>msr cpsr_c, r0\<close>.\<close>

definition msr_ins :: u32 where "msr_ins = 0xE121F000"

lemma set_mode_any:
  assumes "raw_reg k CpsrReg AND 31 = mode_bits M"
  shows "DecodeSetModeFromCpsr k = SetMode M False k"
  using assms by (cases M) (simp_all add: DecodeSetModeFromCpsr_def rd_def)

lemma decode_msr:
  assumes "instruction k = msr_ins"
  shows "\<exists>k'. DecodeArmInstruction ext k m = Some (True, DecodeSetModeFromCpsr k', m) \<and>
    raw_reg k' = (raw_reg k)(16 := (rd k 0 AND 0xFF) OR (rd k 16 AND NOT 0xFF)) \<and> insDecodeT k' = UnknownT \<and> runstate k' = runstate k"
proof -
  let ?k1 = "k\<lparr>insDecodeT := UnknownT, insSUser := False, insCcodeTest := True\<rparr>"
  have c: "unat (drop_bit 28 msr_ins) = 14" "Bits msr_ins 25 3 = 0" "msr_ins AND 0xF900010 = 0x1000000"
      "\<not> Bit msr_ins 22" "Bit msr_ins 21" "\<not> Bit msr_ins 25" "Bits4 msr_ins 0 = 0" "Bits4 msr_ins 16 = 1"
    by (simp_all add: msr_ins_def Bits_def Bits4_def Bit_def mask_eq_exp_minus_1)
  show ?thesis
    by (simp add: DecodeArmInstruction_def DecodeCcode_def decode_major_def decode_misc_def decode_fields_def
        DecodeMsr_def psr_mask_def assms c rd_def wr_def Let_def)
      (rule exI, rule conjI, rule refl, simp add: raw_wr_def)
qed

lemma set_mode_runs [simp]:
  "insDecodeT (SetMode M th k) = insDecodeT k" "runstate (SetMode M th k) = runstate k"
  "currentMode (SetMode M th k) = M" "currentBank (SetMode M th k) = mode_bank M"
  by (simp_all add: SetMode_def Let_def)

text \<open>C21: A write of the status register is not checked against the mode.  A core in user mode that
  executes \<^verbatim>\<open>msr cpsr_c, r0\<close> on the flat memory is in whatever mode the low bits of register 0 name one
  clock later, with every general register of every bank unchanged.\<close>

theorem msr_unprivileged:
  assumes "ready k" "currentMode k = UserMode" "(rd k PcReg - 4) AND 3 = 0" "flat_backed (rd k PcReg - 4)"
    and "flat_word m (rd k PcReg - 4) = msr_ins" "rd k 0 AND 31 = mode_bits M"
  shows "\<exists>k'. execute (fast_bus p) ext k m = Some (k', m) \<and> currentMode k' = M \<and> currentBank k' = mode_bank M \<and>
    runstate k' = RunningS \<and> (\<forall>i. i \<noteq> PcReg \<longrightarrow> i \<noteq> CpsrReg \<longrightarrow> raw_reg k' i = raw_reg k i)"
proof -
  let ?f = "fetch_state msr_ins k"
  have "instruction ?f = msr_ins" using assms(1) by simp
  from decode_msr [OF this, of ext m] obtain k1 where
    d: "DecodeArmInstruction ext ?f m = Some (True, DecodeSetModeFromCpsr k1, m)"
    and r: "raw_reg k1 = (raw_reg ?f)(16 := (rd ?f 0 AND 0xFF) OR (rd ?f 16 AND NOT 0xFF))"
    and t: "insDecodeT k1 = UnknownT" "runstate k1 = runstate ?f" by blast
  have "rd ?f 0 = rd k 0" using assms(1) by (simp add: rd_def reg_ix_def)
  moreover have "((x AND 0xFF) OR (y AND NOT 0xFF)) AND 31 = x AND 31" for x y :: u32
  proof -
    have c: "(0xFF AND 31 :: u32) = 31" "(NOT 0xFF AND 31 :: u32) = 0" by simp_all
    show ?thesis by (simp only: bit.conj_disj_distrib2 and.assoc c bit.conj_zero_right or.right_neutral)
  qed
  ultimately have "raw_reg k1 16 AND 31 = mode_bits M" using assms(6) by (simp add: r)
  note sm = set_mode_any [OF this]
  have "execute (fast_bus p) ext k m = Some (SetMode M False k1, m)"
    unfolding fast.execute_ready [OF assms(1,3-5)] d sm using assms(1) t
    by (simp add: execute_decoded_def finish_transfer_def)
  then show ?thesis
    using assms(1) t r by (intro exI [of _ "SetMode M False k1"]) (simp add: SetMode_def Let_def)
qed

theorem msr_unprivileged_witness:
  "\<exists>k'. execute (fast_bus 0) no_external (calling_core\<lparr>raw_reg := (raw_reg calling_core)(16 := 0x10, 0 := 0x13)\<rparr>)
     \<lparr>flat_data = (\<lambda>_. 0)(0x2001 := 0xF0, 0x2002 := 0x21, 0x2003 := 0xE1), llsc_addrs = Map.empty\<rparr>
     = Some (k', \<lparr>flat_data = (\<lambda>_. 0)(0x2001 := 0xF0, 0x2002 := 0x21, 0x2003 := 0xE1), llsc_addrs = Map.empty\<rparr>) \<and>
     currentMode k' = SupervisorMode"
proof -
  let ?k = "calling_core\<lparr>raw_reg := (raw_reg calling_core)(16 := 0x10, 0 := 0x13)\<rparr>"
  let ?m = "\<lparr>flat_data = (\<lambda>_. 0)(0x2001 := 0xF0, 0x2002 := 0x21, 0x2003 := 0xE1), llsc_addrs = Map.empty\<rparr> :: flat"
  have k: "ready ?k" "currentMode ?k = UserMode" "rd ?k 15 = 0x2004" "rd ?k 0 AND 31 = mode_bits SupervisorMode"
    by (simp_all add: calling_core_def arm_new_def ready_def Bit_def rd_def reg_ix_def)
  have m: "flat_word ?m 0x2000 = msr_ins" "flat_backed 0x2000"
    by (simp_all add: flat_word_def msr_ins_def flat_backed_def mem_size_bytes_def Let_def)
  show ?thesis
    using msr_unprivileged [OF k(1,2) _ _ _ k(4), of ?m 0 no_external] k(3) m by auto
qed

end
