(* ===== verification/TlmProps.thy ===== *)
theory TlmProps
  imports TlmMem
begin

unbundle bit_operations_syntax

text \<open>
  The platform memory as an array of bytes: what the bus access unit promises over any target that
  behaves as such an array (the interface \<open>tlm_target\<close>), and the paged memory as such a target, through
  its transport and through its direct memory pointers.
\<close>

section \<open>Words of bytes\<close>

definition is_word :: "(nat \<Rightarrow> u8) \<Rightarrow> nat \<Rightarrow> u64 \<Rightarrow> bool" where
  "is_word f n w \<longleftrightarrow> (\<forall>i. bit w i \<longleftrightarrow> i < 64 \<and> bit (f (n + i div 8)) (i mod 8))"

text \<open>The bytes after a write of the doubleword \<open>d\<close> at \<open>n\<close> with the byte enables \<open>ls\<close>.\<close>

definition lane_put :: "nat \<Rightarrow> bool list \<Rightarrow> u64 \<Rightarrow> (nat \<Rightarrow> u8) \<Rightarrow> nat \<Rightarrow> u8" where
  "lane_put n ls d f = (\<lambda>i. if n \<le> i \<and> i < n + 8 \<and> ls ! (i - n) then ucast (drop_bit (8 * (i - n)) d) else f i)"

definition lanes_of :: "bool list option \<Rightarrow> bool list" where
  "lanes_of ls = (case ls of None \<Rightarrow> replicate 8 True | Some l \<Rightarrow> l)"

lemma bit_page_word: "bit (page_word p n) i \<longleftrightarrow> i < 64 \<and> bit (p (n + i div 8)) (i mod 8)"
proof -
  have b: "bit (fold (\<lambda>i w. w OR push_bit (8 * i) (ucast (p (n + i)))) [0..<k] 0 :: u64) i \<longleftrightarrow>
      i < 8 * k \<and> bit (p (n + i div 8)) (i mod 8)" if "k \<le> 8" for k
    using that
  proof (induction k)
    case (Suc k)
    have out: "\<not> bit (p (n + k)) j" if "8 \<le> j" for j using that by (auto dest: bit_imp_le_length)
    have new: "bit (push_bit (8 * k) (ucast (p (n + k))) :: u64) i \<longleftrightarrow> i div 8 = k \<and> bit (p (n + k)) (i mod 8)"
    proof (cases "i div 8 = k")
      case True
      then have "8 * k \<le> i" "i - 8 * k = i mod 8" "i < 64" "i mod 8 < 64" using Suc.prems minus_mult_div_eq_mod [of i 8] by auto
      then show ?thesis using True by (simp add: bit_push_bit_iff bit_ucast_iff)
    next
      case False
      then have "\<not> 8 * k \<le> i \<or> 8 \<le> i - 8 * k" by presburger
      then show ?thesis using False out by (auto simp: bit_push_bit_iff bit_ucast_iff)
    qed
    have "i < 8 * Suc k \<longleftrightarrow> i < 8 * k \<or> i div 8 = k" by presburger
    then show ?case using Suc new by (auto simp: bit_or_iff)
  qed simp
  show ?thesis using b [of 8] by (simp add: page_word_def)
qed

section \<open>The memory as bytes\<close>

definition mem_byte :: "generic_tlm_mem \<Rightarrow> nat \<Rightarrow> u8" where
  "mem_byte m n = (if n < 2 ^ 32 then page_at m (of_nat (n div 4096 * 4096)) (n mod 4096) else 0)"

lemma unat_mask: "unat (a AND mask k :: u64) = unat a mod 2 ^ k"
proof -
  have "unat (a AND mask k) = unat (take_bit k a)" by (simp only: take_bit_eq_mask)
  also have "\<dots> = take_bit k (unat a)" by (rule unsigned_take_bit_eq)
  finally show ?thesis by (simp add: take_bit_eq_mod)
qed

lemma unat_not_mask: "unat (a AND NOT (mask k) :: u64) = unat a div 2 ^ k * 2 ^ k"
proof -
  have "(a AND NOT (mask k)) + (a AND mask k) = (a AND NOT (mask k)) OR (a AND mask k)"
    by (rule disjunctive_add) (auto simp: bit_simps)
  also have "\<dots> = a" by (rule bit_word_eqI) (auto simp: bit_simps)
  finally have "a AND NOT (mask k) = a - (a AND mask k)" by (simp add: algebra_simps)
  moreover have "a AND mask k \<le> a" by (rule word_and_le2)
  ultimately have "unat (a AND NOT (mask k)) = unat a - unat (a AND mask k)" by (simp add: unat_sub)
  then show ?thesis by (simp add: unat_mask minus_mod_eq_div_mult)
qed

lemma masks: "(7 :: u64) = mask 3" "(0xFFF :: u64) = mask 12" "(3 :: u64) = mask 2"
  by (simp_all add: mask_eq_exp_minus_1)

lemma page_split: "page_off a = unat a mod 4096" "unat (page_of a) = unat a div 4096 * 4096"
  unfolding page_off_def page_of_def masks(2) by (simp_all add: unat_mask unat_not_mask del: mask_numeral)

lemma page_of_eq: "page_of a = of_nat (unat a div 4096 * 4096)"
proof -
  have "of_nat (unat (page_of a)) = page_of a" by simp
  then show ?thesis by (simp only: page_split)
qed

lemma mem_byte_page: "unat a < 2 ^ 32 \<Longrightarrow> page_at m (page_of a) (page_off a) = mem_byte m (unat a)"
  by (simp add: mem_byte_def page_of_eq page_split)

text \<open>Pages of distinct numbers are distinct as long as the addresses are.\<close>

lemma page_eq: "n < 2 ^ 32 \<Longrightarrow> page_of a = of_nat (n div 4096 * 4096) \<longleftrightarrow> unat a div 4096 = n div 4096"
proof -
  assume n: "n < 2 ^ 32"
  have "n div 4096 * 4096 < 2 ^ 64" using n le_less_trans [OF div_times_less_eq_dividend [of n 4096] n] by simp
  then have "unat (of_nat (n div 4096 * 4096) :: u64) = n div 4096 * 4096"
    by (simp only: unat_of_nat take_bit_eq_mod) simp
  then show ?thesis using page_split(2) [of a] by (metis mult_right_cancel page_of_eq zero_neq_numeral)
qed

text \<open>A write to the page of \<open>a\<close>.\<close>

lemma mem_byte_put:
  "mem_byte (put_page (page_of a) p m) n =
    (if n < 2 ^ 32 \<and> unat a div 4096 = n div 4096 then p (n mod 4096) else mem_byte m n)"
  using page_eq [of n a] by (auto simp: mem_byte_def put_page_def page_at_def)

lemma ip_write8_bytes:
  assumes "unat a < 2 ^ 32"
  shows "mem_byte (ip_write8 a d m) = (mem_byte m)(unat a := d)"
proof
  fix n
  have "n = unat a" if "unat a div 4096 = n div 4096" "n mod 4096 = unat a mod 4096"
    using that by (metis div_mult_mod_eq)
  moreover have "mem_byte m n = page_at m (page_of a) (n mod 4096)" if "n < 2 ^ 32" "unat a div 4096 = n div 4096"
    using that by (simp add: mem_byte_def page_of_eq)
  ultimately show "mem_byte (ip_write8 a d m) n = ((mem_byte m)(unat a := d)) n"
    unfolding ip_write8_def mem_byte_put page_split(1) using assms by (auto simp: fun_upd_def)
qed

lemma in_page:
  fixes n i :: nat
  assumes "n mod 8 = 0" "i < 8"
  shows "(n + i) div 4096 = n div 4096" "(n + i) mod 4096 = n mod 4096 + i"
proof -
  define q r where "q = n div 4096" and "r = n mod 4096"
  have "r mod 8 = 0" unfolding r_def using assms(1) by (simp add: mod_mod_cancel)
  then obtain c where c: "r = 8 * c" by (auto simp: mod_eq_0_iff_dvd)
  have "8 * c < 4096" by (simp add: r_def flip: c)
  then have "c \<le> 511" by simp
  then have ri: "r + i < 4096" using c assms(2) by linarith
  have "n = r + q * 4096" by (simp add: q_def r_def)
  then have n: "n + i = (r + i) + q * 4096" by simp
  show "(n + i) div 4096 = n div 4096" unfolding n using ri by (simp add: q_def)
  show "(n + i) mod 4096 = n mod 4096 + i" unfolding n using ri by (simp add: r_def)
qed

lemma ip_write64_bytes:
  assumes "unat a mod 8 = 0" "unat a + 8 \<le> 2 ^ 32"
  shows "ip_write64 a d m \<noteq> None"
    "ip_write64 a d m = Some m' \<Longrightarrow> mem_byte m' = lane_put (unat a) (replicate 8 True) d (mem_byte m)"
proof -
  have off: "page_off a mod 8 = 0" unfolding page_split using assms(1) by (simp add: mod_mod_cancel)
  then show "ip_write64 a d m \<noteq> None" by (simp add: ip_write64_def)
  assume "ip_write64 a d m = Some m'"
  then have m': "m' = put_page (page_of a) (page_put d (page_off a) (page_at m (page_of a))) m"
    using off by (simp add: ip_write64_def)
  show "mem_byte m' = lane_put (unat a) (replicate 8 True) d (mem_byte m)"
  proof
    fix n
    show "mem_byte m' n = lane_put (unat a) (replicate 8 True) d (mem_byte m) n"
    proof (cases "unat a \<le> n \<and> n < unat a + 8")
      case True
      then obtain i where i: "i < 8" "n = unat a + i" by (metis add_less_cancel_left le_Suc_ex)
      note p = in_page [OF assms(1) i(1)]
      show ?thesis
        unfolding m' mem_byte_put page_split(1) using True assms(2) p i
        by (simp add: page_put_def lane_put_def)
    next
      case False
      have "mem_byte m n = page_at m (page_of a) (n mod 4096)" if "n < 2 ^ 32" "unat a div 4096 = n div 4096"
        using that by (simp add: mem_byte_def page_of_eq)
      moreover have "\<not> (unat a mod 4096 \<le> n mod 4096 \<and> n mod 4096 < unat a mod 4096 + 8)"
        if "unat a div 4096 = n div 4096"
        using False that div_mult_mod_eq [of n 4096] div_mult_mod_eq [of "unat a" 4096] by linarith
      ultimately show ?thesis
        unfolding m' mem_byte_put page_split(1) using False by (auto simp: page_put_def lane_put_def)
    qed
  qed
qed

lemma page_word_is_word:
  assumes "n mod 8 = 0" "n + 8 \<le> 2 ^ 32" "p = page_at m (of_nat (n div 4096 * 4096))"
  shows "is_word (mem_byte m) n (page_word p (n mod 4096))"
proof -
  have "p (n mod 4096 + i div 8) = mem_byte m (n + i div 8)" if "i < 64" for i
  proof -
    have "i div 8 < 8" using that by simp
    from in_page [OF assms(1) this] show ?thesis using assms(2,3) \<open>i div 8 < 8\<close> by (simp add: mem_byte_def)
  qed
  then show ?thesis by (auto simp: is_word_def bit_page_word)
qed

lemma page_word_0: "page_word (\<lambda>_. 0) n = 0"
  by (rule bit_word_eqI) (simp add: bit_page_word)

lemma ip_read64_bytes:
  assumes "unat a mod 8 = 0" "unat a + 8 \<le> 2 ^ 32"
  shows "\<exists>w m'. ip_read64 a m = Some (w, m') \<and> is_word (mem_byte m) (unat a) w \<and> mem_byte m' = mem_byte m \<and>
    (m' = m \<or> m' = m\<lparr>last_page := Some (page_of a)\<rparr>)"
proof -
  have off: "page_off a mod 8 = 0" unfolding page_split using assms(1) by (simp add: mod_mod_cancel)
  have w: "is_word (mem_byte m) (unat a) (page_word (page_at m (page_of a)) (page_off a))"
    using page_word_is_word [OF assms refl] by (simp add: page_split(1) page_of_eq)
  have "mem_byte (m\<lparr>last_page := l\<rparr>) = mem_byte m" for l by (auto simp: mem_byte_def page_at_def)
  then show ?thesis
    using off w by (cases "pages m (page_of a)") (simp_all add: ip_read64_def page_at_def page_word_0)
qed

section \<open>The interface of a target\<close>

text \<open>A target is an array of bytes: a doubleword can be read through any socket, a write changes the enabled
  bytes, and every direct memory pointer it hands out stays a window on its bytes.\<close>

locale tlm_target =
  fixes sk :: "'t sockets" and byte_at :: "'t \<Rightarrow> nat \<Rightarrow> u8" and inv :: "'t \<Rightarrow> bool" and limit :: nat
    and good_ptr :: "u64 \<Rightarrow> u64 \<Rightarrow> u64 \<Rightarrow> bool"
  assumes transport_read: "inv t \<Longrightarrow> unat a mod 8 = 0 \<Longrightarrow> unat a + 8 \<le> limit \<Longrightarrow>
      \<exists>w dmi t'. b_transport sk s (read_payload a 8 None) t = Some (TLM_OK, [w], dmi, t') \<and>
        is_word (byte_at t) (unat a) w \<and> byte_at t' = byte_at t \<and> inv t'"
    and transport_write: "inv t \<Longrightarrow> unat a mod 8 = 0 \<Longrightarrow> unat a + 8 \<le> limit \<Longrightarrow> length (lanes_of ls) = 8 \<Longrightarrow>
      \<exists>ws dmi t'. b_transport sk s (write_payload a d ls None) t = Some (TLM_OK, ws, dmi, t') \<and>
        byte_at t' = lane_put (unat a) (lanes_of ls) d (byte_at t) \<and> inv t'"
    and dmi_good: "inv t \<Longrightarrow> dmi_request sk t = Some (lo, hi, p) \<Longrightarrow> good_ptr lo hi p"
    and dmi_reads: "inv t \<Longrightarrow> good_ptr lo hi p \<Longrightarrow> unat a mod 8 = 0 \<Longrightarrow> unat a + 8 \<le> limit \<Longrightarrow> lo \<le> a \<Longrightarrow> a \<le> hi - 8 \<Longrightarrow>
      is_word (byte_at t) (unat a) (dmi_word sk t p (unat (drop_bit 3 (a - lo))))"
    and in_space: "inv t \<Longrightarrow> limit \<le> 2 ^ 31"
begin

definition rec_ok :: "dmi_record \<Rightarrow> bool" where
  "rec_ok d \<longleftrightarrow> (\<forall>p. dmi_ptr d = Some p \<longrightarrow> good_ptr (dmi_start d) (dmi_end d) p)"

definition bus_ok :: "'t cpu_busaccess \<Rightarrow> bool" where
  "bus_ok b \<longleftrightarrow> inv (target b) \<and> ENDIAN_FLIP b = 0 \<and> atomics b = 0 \<and> rec_ok (DMI_data b) \<and> rec_ok (DMI_insn b)"

lemma rec_ok_update: "inv t \<Longrightarrow> rec_ok d \<Longrightarrow> rec_ok (dmi_update sk encouraged t d)"
  using dmi_good by (fastforce simp: rec_ok_def dmi_update_def Let_def split: option.split)

lemma bus_ok_get: "bus_ok b \<Longrightarrow> rec_ok (dmi_get skt b)"
  by (simp add: bus_ok_def dmi_get_def)

lemma bus_ok_put: "bus_ok b \<Longrightarrow> rec_ok d \<Longrightarrow> bus_ok (dmi_put skt d b)"
  by (simp add: bus_ok_def dmi_put_def)

lemma put_target [simp]: "target (dmi_put skt d b) = target b" "disable_dmi (dmi_put skt d b) = disable_dmi b"
  by (simp_all add: dmi_put_def)

lemma mem_read_ok:
  assumes "bus_ok b" "unat a mod 8 = 0" "unat a + 8 \<le> limit"
  shows "\<exists>w b'. mem_read sk a False skt 3 b = Some (Some w, b') \<and> is_word (byte_at (target b)) (unat a) w \<and>
    byte_at (target b') = byte_at (target b) \<and> bus_ok b'"
proof -
  obtain measure sw where sw: "measurement_needed (read_latency (dmi_get skt b)) = (measure, sw)" by force
  let ?d = "(dmi_get skt b)\<lparr>read_latency := sw\<rparr>"
  let ?b = "dmi_put skt ?d b"
  have d: "rec_ok ?d" using bus_ok_get [OF assms(1), of skt] by (simp add: rec_ok_def)
  have b: "bus_ok ?b" by (rule bus_ok_put [OF assms(1) d])
  have inv: "inv (target b)" using assms(1) by (simp add: bus_ok_def)
  show ?thesis
  proof (cases "if \<not> measure \<and> dmi_covers a ?d then dmi_ptr ?d else None")
    case (Some p)
    then have "good_ptr (dmi_start ?d) (dmi_end ?d) p" "dmi_start ?d \<le> a" "a \<le> dmi_end ?d - 8"
      using d by (auto simp: rec_ok_def dmi_covers_def split: if_splits)
    from dmi_reads [OF inv this(1) assms(2,3) this(2,3)] Some b show ?thesis
      by (simp add: mem_read_def sw Let_def)
  next
    case None
    obtain w dmi t' where t: "b_transport sk (if harvardf ?b then skt else 0) (read_payload a 8 None) (target b) =
        Some (TLM_OK, [w], dmi, t')" "is_word (byte_at (target b)) (unat a) w" "byte_at t' = byte_at (target b)" "inv t'"
      using transport_read [OF inv assms(2,3)] by blast
    have b': "bus_ok (?b\<lparr>target := t'\<rparr>)" using b t(4) by (simp add: bus_ok_def)
    have "bus_ok (dmi_put skt (dmi_update sk e t' ?d) (?b\<lparr>target := t'\<rparr>))" for e
      by (rule bus_ok_put [OF b' rec_ok_update [OF t(4) d]])
    moreover have "mem_read sk a False skt 3 b = Some (Some w,
        dmi_put skt (dmi_update sk (\<not> disable_dmi b \<and> dmi) t' ?d) (?b\<lparr>target := t'\<rparr>))"
      using None t(1) by (simp add: mem_read_def sw Let_def)
    ultimately show ?thesis using t(2,3) by simp
  qed
qed

lemma mem_write_ok:
  assumes "bus_ok b" "unat a mod 8 = 0" "unat a + 8 \<le> limit"
  shows "\<exists>b'. mem_write sk a msk d b = Some (True, b') \<and> bus_ok b' \<and>
    byte_at (target b') = lane_put (unat a) (if msk = 0 then replicate 8 True else map (bit msk) [0..<8]) d (byte_at (target b))"
proof -
  have inv: "inv (target b)" "ENDIAN_FLIP b = 0" using assms(1) by (simp_all add: bus_ok_def)
  have lanes: "mask_lanes 0 msk = map (bit msk) [0..<8]" unfolding mask_lanes_def
    by (rule map_cong) (auto simp: unat_of_nat)
  let ?ls = "if msk = 0 then None else Some (mask_lanes 0 msk)"
  have "length (lanes_of ?ls) = 8" by (simp add: lanes_of_def mask_lanes_def)
  from transport_write [OF inv(1) assms(2,3) this, of 0 d]
  obtain ws dmi t' where t: "b_transport sk 0 (write_payload a d ?ls None) (target b) = Some (TLM_OK, ws, dmi, t')" "inv t'"
    "byte_at t' = lane_put (unat a) (lanes_of ?ls) d (byte_at (target b))"
    by blast
  have "lanes_of ?ls = (if msk = 0 then replicate 8 True else map (bit msk) [0..<8])"
    by (simp add: lanes_of_def lanes del: upt.simps)
  moreover have "mem_write sk a msk d b = Some (True, b\<lparr>target := t'\<rparr>)"
    using inv(2) t(1) by (cases "msk = 0") (simp_all add: mem_write_def)
  ultimately show ?thesis using assms(1) t(2,3) by (simp add: bus_ok_def)
qed

end

section \<open>The paged memory is a target\<close>

definition mem_ok :: "nat \<Rightarrow> generic_tlm_mem \<Rightarrow> bool" where
  "mem_ok limit m \<longleftrightarrow> mem_base m = 0 \<and> limit \<le> 2 ^ 31 \<and> unat (mem_bytes m) = limit \<and>
    (\<forall>p. last_page m = Some p \<longrightarrow> (\<exists>a. p = page_of a \<and> unat a < 2 ^ 31))"

definition page_ptr :: "u64 \<Rightarrow> u64 \<Rightarrow> u64 \<Rightarrow> bool" where
  "page_ptr lo hi p \<longleftrightarrow> (\<exists>a. p = page_of a \<and> unat a < 2 ^ 31) \<and> lo = p \<and> hi = p + 4095"

lemma page_base_small: "unat a < 2 ^ 31 \<Longrightarrow> page_base (page_of a) = page_of a"
proof -
  assume "unat a < 2 ^ 31"
  then have p: "unat (page_of a) < 2 ^ 31" unfolding page_split by (rule le_less_trans [OF div_times_less_eq_dividend])
  have b: "\<not> bit (page_of a) i" if "31 \<le> i" for i
  proof -
    have "unat (page_of a) < 2 ^ i" using p that by (meson less_le_trans one_le_numeral power_increasing)
    then have "\<not> bit (unat (page_of a)) i" by (simp add: bit_iff_odd)
    then show ?thesis by (simp add: bit_unsigned_iff)
  qed
  show ?thesis
    unfolding page_base_def
  proof (rule bit_word_eqI)
    fix i assume "i < LENGTH(64)"
    then show "bit (scast (ucast (page_of a) :: u32) :: u64) i = bit (page_of a) i"
      using b [of 31] b [of i] by (auto simp: bit_signed_iff bit_ucast_iff min_def)
  qed
qed

lemma mem_ok_space: "mem_ok limit m \<Longrightarrow> unat a + 8 \<le> limit \<Longrightarrow> unat (a :: u64) < 2 ^ 31 \<and> unat a + 8 \<le> 2 ^ 32 \<and> \<not> a \<ge> mem_bytes m"
  by (auto simp: mem_ok_def word_le_nat_alt)

lemma mem_ok_put_page: "mem_ok limit m \<Longrightarrow> unat a < 2 ^ 31 \<Longrightarrow> mem_ok limit (put_page (page_of a) p m)"
  by (auto simp: mem_ok_def put_page_def)

lemma mem_access_read:
  assumes "mem_ok limit m" "unat a mod 8 = 0" "unat a + 8 \<le> limit"
  shows "\<exists>w dmi m'. mem_access (read_payload a 8 None) m = Some (TLM_OK, [w], dmi, m') \<and>
    is_word (mem_byte m) (unat a) w \<and> mem_byte m' = mem_byte m \<and> mem_ok limit m'"
proof -
  note s = mem_ok_space [OF assms(1,3)]
  obtain w m' where r: "ip_read64 a m = Some (w, m')" "is_word (mem_byte m) (unat a) w" "mem_byte m' = mem_byte m"
    "m' = m \<or> m' = m\<lparr>last_page := Some (page_of a)\<rparr>"
    using ip_read64_bytes [OF assms(2), of m] s by blast
  have "mem_ok limit m'" using r(4) assms(1) s by (auto simp: mem_ok_def)
  moreover have "mem_base m = 0" using assms(1) by (simp add: mem_ok_def)
  ultimately show ?thesis
    using r s by (intro exI [of _ w] exI [of _ True] exI [of _ m']) (simp add: mem_access_def read_payload_def read_words_def Let_def)
qed

text \<open>A partial write stores the enabled bytes one by one.\<close>

lemma byte_writes:
  assumes "unat a mod 8 = 0" "unat a + 8 \<le> 2 ^ 31" "mem_ok limit m" "k \<le> 8" "length ls = 8"
  shows "mem_byte (fold (\<lambda>l m. if ls ! l then ip_write8 (a + of_nat l) (ucast (drop_bit (8 * l) d)) m else m) [0..<k] m) =
      (\<lambda>i. if unat a \<le> i \<and> i < unat a + k \<and> ls ! (i - unat a) then ucast (drop_bit (8 * (i - unat a)) d) else mem_byte m i)
    \<and> mem_ok limit (fold (\<lambda>l m. if ls ! l then ip_write8 (a + of_nat l) (ucast (drop_bit (8 * l) d)) m else m) [0..<k] m)"
  using assms(4)
proof (induction k)
  case 0
  then show ?case using assms(3) by (auto simp: fun_eq_iff)
next
  case (Suc k)
  have u: "unat (a + of_nat k) = unat a + k"
    using assms(2) Suc.prems by (simp add: unat_word_ariths unat_of_nat)
  then have "unat (a + of_nat k) < 2 ^ 31" using assms(2) Suc.prems by simp
  then show ?case
    using Suc ip_write8_bytes [of "a + of_nat k"] mem_ok_put_page
    by (auto simp: u fun_eq_iff less_Suc_eq ip_write8_def)
qed

lemma mem_access_write:
  assumes "mem_ok limit m" "unat a mod 8 = 0" "unat a + 8 \<le> limit" "length (lanes_of ls) = 8"
  shows "\<exists>ws dmi m'. mem_access (write_payload a d ls None) m = Some (TLM_OK, ws, dmi, m') \<and>
    mem_byte m' = lane_put (unat a) (lanes_of ls) d (mem_byte m) \<and> mem_ok limit m'"
proof -
  note s = mem_ok_space [OF assms(1,3)]
  have s31: "unat a + 8 \<le> 2 ^ 31" using assms(1,3) by (simp add: mem_ok_def)
  have base: "mem_base m = 0" using assms(1) by (simp add: mem_ok_def)
  have "\<exists>m'. write_word (write_payload a d ls None) a 0 m = Some m' \<and>
      mem_byte m' = lane_put (unat a) (lanes_of ls) d (mem_byte m) \<and> mem_ok limit m'"
  proof (cases "\<forall>l \<in> set [0..<8]. lanes_of ls ! l")
    case True
    then have all: "lanes_of ls = replicate 8 True" using assms(4) by (intro nth_equalityI) simp_all
    obtain m' where m': "ip_write64 a d m = Some m'" using ip_write64_bytes(1) [OF assms(2)] s by blast
    have "write_word (write_payload a d ls None) a 0 m = ip_write64 a d m"
      using True assms(4) by (cases ls) (auto simp: write_word_def write_payload_def lanes_of_def Let_def)
    moreover have "mem_ok limit m'"
      using m' mem_ok_put_page [OF assms(1)] s by (auto simp: ip_write64_def split: if_splits)
    ultimately show ?thesis using ip_write64_bytes(2) [OF assms(2) _ m'] s m' all by simp
  next
    case False
    then obtain l where l: "ls = Some l" "length l = 8" "lanes_of ls = l" using assms(4) by (cases ls) (auto simp: lanes_of_def)
    have "fold (\<lambda>i m. if l ! ((0 + i) mod 8) then ip_write8 (a + of_nat (i + 0)) (ucast (drop_bit (8 * i) d)) m else m) [0..<8] m
        = fold (\<lambda>i m. if l ! i then ip_write8 (a + of_nat i) (ucast (drop_bit (8 * i) d)) m else m) [0..<8] m"
      by (rule fold_cong) auto
    then have "write_word (write_payload a d ls None) a 0 m =
        Some (fold (\<lambda>i m. if l ! i then ip_write8 (a + of_nat i) (ucast (drop_bit (8 * i) d)) m else m) [0..<8] m)"
      using False l by (auto simp: write_word_def write_payload_def Let_def)
    then show ?thesis
      using byte_writes [OF assms(2) s31 assms(1) le_refl l(2), of d] l(3) by (auto simp: lane_put_def)
  qed
  then show ?thesis
    using s base by (auto simp: mem_access_def write_payload_def Let_def)
qed

lemma dmi_page_word:
  assumes "page_ptr lo hi p" "unat a mod 8 = 0" "unat a + 8 \<le> 2 ^ 31" "lo \<le> a" "a \<le> hi - 8"
  shows "is_word (mem_byte m) (unat a) (page_word (page_at m p) (8 * unat (drop_bit 3 (a - lo))))"
proof -
  obtain x where x: "p = page_of x" "unat x < 2 ^ 31" "lo = p" "hi = p + 4095" using assms(1) by (auto simp: page_ptr_def)
  have p: "unat p = unat x div 4096 * 4096" unfolding x(1) page_split ..
  then have p31: "unat p < 2 ^ 31" using x(2) le_less_trans [OF div_times_less_eq_dividend] by metis
  have "hi - 8 = p + 4087" by (simp add: x)
  then have "unat a \<le> unat (p + 4087)" using assms(5) by (simp only: word_le_nat_alt)
  also have "\<dots> = unat p + 4087" using p31 by (simp add: unat_word_ariths)
  finally have r: "unat p \<le> unat a" "unat a \<le> unat p + 4087" using assms(4) by (simp_all only: word_le_nat_alt x(3))
  define k d where "k = unat x div 4096" and "d = unat a - unat p"
  have "d < 4096" using r(2) by (simp add: d_def)
  moreover have "unat a = d + k * 4096" using r(1) p by (simp add: d_def k_def)
  ultimately have q: "unat a div 4096 * 4096 = unat p" "unat a mod 4096 = unat a - unat p"
    using p by (simp_all add: k_def)
  have "unat (a - lo) = unat a - unat p" using assms(4) by (simp add: unat_sub x(3))
  then have "unat (drop_bit 3 (a - lo)) = (unat a - unat p) div 8"
    by (simp only: unat_drop_bit_eq) (simp add: drop_bit_eq_div)
  moreover have "(unat a - unat p) mod 8 = 0" unfolding q(2) [symmetric] using assms(2) by (simp add: mod_mod_cancel)
  ultimately have "8 * unat (drop_bit 3 (a - lo)) = unat a mod 4096" using q(2) by auto
  moreover have "p = of_nat (unat a div 4096 * 4096)" unfolding q by simp
  ultimately show ?thesis
    using page_word_is_word [OF assms(2) _ refl, of m] assms(3) by simp
qed

interpretation mem: tlm_target mem_sockets mem_byte "mem_ok limit" limit page_ptr for limit
proof
  fix t :: generic_tlm_mem and a d :: u64 and s ls lo hi p
  show "mem_ok limit t \<Longrightarrow> limit \<le> 2 ^ 31" by (simp add: mem_ok_def)
  show "\<exists>w dmi t'. b_transport mem_sockets s (read_payload a 8 None) t = Some (TLM_OK, [w], dmi, t') \<and>
        is_word (mem_byte t) (unat a) w \<and> mem_byte t' = mem_byte t \<and> mem_ok limit t'"
    if "mem_ok limit t" "unat a mod 8 = 0" "unat a + 8 \<le> limit"
    using mem_access_read [OF that] by (simp add: mem_sockets_def)
  show "\<exists>ws dmi t'. b_transport mem_sockets s (write_payload a d ls None) t = Some (TLM_OK, ws, dmi, t') \<and>
        mem_byte t' = lane_put (unat a) (lanes_of ls) d (mem_byte t) \<and> mem_ok limit t'"
    if "mem_ok limit t" "unat a mod 8 = 0" "unat a + 8 \<le> limit" "length (lanes_of ls) = 8"
    using mem_access_write [OF that] by (simp add: mem_sockets_def)
  show "page_ptr lo hi p" if "mem_ok limit t" "dmi_request mem_sockets t = Some (lo, hi, p)"
    using that by (auto simp: mem_sockets_def get_direct_mem_ptr_def mem_ok_def page_ptr_def page_base_small)
  show "is_word (mem_byte t) (unat a) (dmi_word mem_sockets t p (unat (drop_bit 3 (a - lo))))"
    if "mem_ok limit t" "page_ptr lo hi p" "unat a mod 8 = 0" "unat a + 8 \<le> limit" "lo \<le> a" "a \<le> hi - 8"
    using dmi_page_word [OF that(2,3) _ that(5,6), of t] that(1,4) by (simp add: mem_sockets_def mem_ok_def)
qed

end
