(* ===== verification/ByteBus.thy ===== *)
theory ByteBus
  imports TlmProps ArmTlm
begin

unbundle bit_operations_syntax

text \<open>
  Loads and stores of every size as reads and writes of bytes: first for the bus access unit over a target
  that is an array of bytes, then as the interface \<open>byte_bus\<close> of the core's bus, which the wrapped core of
  the platform and the stand-alone simulator both provide.
\<close>

section \<open>Values in bytes\<close>

definition is_value :: "(nat \<Rightarrow> u8) \<Rightarrow> nat \<Rightarrow> nat \<Rightarrow> 'a::len word \<Rightarrow> bool" where
  "is_value f n k v \<longleftrightarrow> (\<forall>i. bit v i \<longleftrightarrow> i < 8 * k \<and> bit (f (n + i div 8)) (i mod 8))"

definition put_value :: "nat \<Rightarrow> nat \<Rightarrow> u64 \<Rightarrow> (nat \<Rightarrow> u8) \<Rightarrow> nat \<Rightarrow> u8" where
  "put_value n k v f = (\<lambda>i. if n \<le> i \<and> i < n + k then ucast (drop_bit (8 * (i - n)) v) else f i)"

lemma addr_7: "unat (a AND 7 :: u64) = unat a mod 8" "unat (a AND NOT 7 :: u64) = unat a div 8 * 8"
  unfolding masks(1) by (simp_all add: unat_mask unat_not_mask del: mask_numeral)

lemma no_low:
  assumes "unat (a :: u64) mod 2 ^ k = 0" "7 = m OR mask k"
  shows "a AND 7 = a AND m" "a AND NOT 7 = a AND NOT m"
proof -
  have "a AND mask k = 0" using assms(1) by (simp add: unat_eq_zero flip: unat_mask)
  then have z: "\<not> (bit a i \<and> i < k)" if "i < 64" for i using that by (auto simp: bit_eq_iff bit_simps)
  show "a AND 7 = a AND m" "a AND NOT 7 = a AND NOT m"
    unfolding assms(2) by (rule bit_word_eqI; use z in \<open>auto simp: bit_simps\<close>)+
qed

lemma low_4: "unat (a :: u64) mod 4 = 0 \<Longrightarrow> a AND 7 = a AND 4" "unat a mod 4 = 0 \<Longrightarrow> a AND NOT 7 = a AND NOT 4"
  using no_low [of a 2 4] by (simp_all add: mask_eq_exp_minus_1)

lemma low_2: "unat (a :: u64) mod 2 = 0 \<Longrightarrow> a AND 7 = a AND 6" "unat a mod 2 = 0 \<Longrightarrow> a AND NOT 7 = a AND NOT 6"
  using no_low [of a 1 6] by (simp_all add: mask_eq_exp_minus_1)

text \<open>A value inside a doubleword.\<close>

lemma word_bit:
  assumes "is_word f (n div 8 * 8) w" "8 * (n mod 8) + i < 64"
  shows "bit w (8 * (n mod 8) + i) \<longleftrightarrow> bit (f (n + i div 8)) (i mod 8)"
proof -
  have "n div 8 * 8 + (8 * (n mod 8) + i) div 8 = n + i div 8" by simp
  then show ?thesis using assms by (simp only: is_word_def) simp
qed

lemma in_word: "n + 8 \<le> limit \<Longrightarrow> n div 8 * 8 + 8 \<le> (limit :: nat)" "n div 8 * 8 mod 8 = (0 :: nat)"
  by simp_all

lemma not_low_7: "NOT a AND 7 = 7 - (a AND 7 :: u64)"
proof -
  have "(NOT a AND 7) + (a AND 7) = (NOT a AND 7) OR (a AND 7)"
    by (rule disjunctive_add) (auto simp: bit_simps)
  also have "\<dots> = 7" by (rule bit_word_eqI) (auto simp: bit_and_iff bit_or_iff bit_not_iff)
  finally show ?thesis by (simp add: algebra_simps)
qed

lemma word_value:
  fixes w :: u64
  assumes "\<And>i. 8 * (n mod 8) + i < 64 \<Longrightarrow> bit w (8 * (n mod 8) + i) = bit (f (n + i div 8)) (i mod 8)"
    and "n mod 8 + k \<le> 8" "LENGTH('a) = 8 * k"
  shows "is_value f n k (ucast (drop_bit (8 * (n mod 8)) w) :: 'a::len word)"
  unfolding is_value_def
proof (intro allI)
  fix i
  have "i < 8 * k \<Longrightarrow> 8 * (n mod 8) + i < 64" using assms(2) by linarith
  then show "bit (ucast (drop_bit (8 * (n mod 8)) (w :: u64)) :: 'a word) i \<longleftrightarrow> i < 8 * k \<and> bit (f (n + i div 8)) (i mod 8)"
    using assms(1) [of i] assms(3) by (auto simp: bit_ucast_iff bit_drop_bit_eq)
qed

context tlm_target
begin

lemma read_around:
  assumes "bus_ok b" "unat a + 8 \<le> limit"
  shows "\<exists>w b'. mem_read sk (a AND NOT 7) False 0 3 b = Some (Some w, b') \<and>
    (\<forall>i. 8 * (unat a mod 8) + i < 64 \<longrightarrow>
      bit w (8 * (unat a mod 8) + i) = bit (byte_at (target b) (unat a + i div 8)) (i mod 8)) \<and>
    byte_at (target b') = byte_at (target b) \<and> bus_ok b'"
proof -
  have "unat (a AND NOT 7) mod 8 = 0" "unat (a AND NOT 7) + 8 \<le> limit" unfolding addr_7 using assms(2) by simp_all
  from mem_read_ok [OF assms(1) this, of 0] show ?thesis unfolding addr_7 using word_bit by blast
qed

lemma cached:
  assumes "bus_ok b" "unat a + 8 \<le> limit"
  shows "\<not> UNCACHED_ADDRESS_SPACE64 a" "atomics b = 0" "ENDIAN_FLIP b = 0"
proof -
  have "limit \<le> 2 ^ 31" using in_space assms(1) by (auto simp: bus_ok_def)
  then show "\<not> UNCACHED_ADDRESS_SPACE64 a" using assms(2) by (simp add: UNCACHED_ADDRESS_SPACE64_def word_le_nat_alt)
qed (use assms(1) in \<open>simp_all add: bus_ok_def\<close>)

lemma eval8:
  assumes "bus_ok b" "unat a + 8 \<le> limit"
  shows "\<exists>r b'. ba_eval_mem8 sk a False b = Some (Some r, b') \<and> r = byte_at (target b) (unat a) \<and>
    byte_at (target b') = byte_at (target b) \<and> bus_ok b'"
proof -
  obtain w b' where w: "mem_read sk (a AND NOT 7) False 0 3 b = Some (Some w, b')"
    "\<And>i. 8 * (unat a mod 8) + i < 64 \<Longrightarrow>
      bit w (8 * (unat a mod 8) + i) = bit (byte_at (target b) (unat a + i div 8)) (i mod 8)"
    "byte_at (target b') = byte_at (target b)" "bus_ok b'"
    using read_around [OF assms] by blast
  have "ucast (drop_bit (8 * (unat a mod 8)) w) = byte_at (target b) (unat a)"
    by (rule bit_word_eqI) (use w(2) in \<open>simp add: bit_ucast_iff bit_drop_bit_eq\<close>)
  then show ?thesis using w(1,3,4) cached [OF assms] by (simp add: ba_eval_mem8_def addr_7)
qed

lemma eval16:
  assumes "bus_ok b" "unat a + 8 \<le> limit" "unat a mod 2 = 0"
  shows "\<exists>r b'. ba_eval_mem16 sk a False b = Some (Some r, b') \<and> is_value (byte_at (target b)) (unat a) 2 r \<and>
    byte_at (target b') = byte_at (target b) \<and> bus_ok b'"
proof -
  let ?o = "unat a mod 8"
  obtain w b' where w: "mem_read sk (a AND NOT 7) False 0 3 b = Some (Some w, b')"
    "\<And>i. 8 * ?o + i < 64 \<Longrightarrow> bit w (8 * ?o + i) = bit (byte_at (target b) (unat a + i div 8)) (i mod 8)"
    "byte_at (target b') = byte_at (target b)" "bus_ok b'"
    using read_around [OF assms(1,2)] by blast
  have o: "?o \<le> 6" using assms(3) by presburger
  have "a AND 7 \<noteq> 7"
  proof
    assume "a AND 7 = 7"
    then have "?o = 7" using addr_7(1) [of a] by simp
    then show False using o by simp
  qed
  moreover have "(a XOR NOT 0) AND 7 = 7 - (a AND 7)" by (simp add: not_low_7)
  moreover have "unat (7 - (a AND 7)) - 1 = 6 - ?o" using o by (simp add: unat_sub addr_7 word_le_nat_alt)
  moreover have "is_value (byte_at (target b)) (unat a) 2 (ucast (drop_bit 48 (push_bit ((6 - ?o) * 8) w)) :: u16)"
    unfolding is_value_def
  proof (intro allI)
    fix i
    have "(48 + i) - (6 - ?o) * 8 = 8 * ?o + i" "(6 - ?o) * 8 \<le> 48 + i" "i < 16 \<Longrightarrow> 8 * ?o + i < 64"
      using o by (simp_all add: diff_mult_distrib)
    then show "bit (ucast (drop_bit 48 (push_bit ((6 - ?o) * 8) w)) :: u16) i \<longleftrightarrow>
        i < 8 * 2 \<and> bit (byte_at (target b) (unat a + i div 8)) (i mod 8)"
      using w(2) by (auto simp: bit_ucast_iff bit_drop_bit_eq bit_push_bit_iff)
  qed
  ultimately show ?thesis using w(1,3,4) cached [OF assms(1,2)] by (simp add: ba_eval_mem16_def)
qed

lemma eval32:
  assumes "bus_ok b" "unat a + 8 \<le> limit" "unat a mod 4 = 0"
  shows "\<exists>r b'. ba_eval_mem32 sk a False b = Some (Some r, b') \<and> is_value (byte_at (target b)) (unat a) 4 r \<and>
    byte_at (target b') = byte_at (target b) \<and> bus_ok b'"
proof -
  obtain w b' where w: "mem_read sk (a AND NOT 7) False 0 3 b = Some (Some w, b')"
    "\<And>i. 8 * (unat a mod 8) + i < 64 \<Longrightarrow>
      bit w (8 * (unat a mod 8) + i) = bit (byte_at (target b) (unat a + i div 8)) (i mod 8)"
    "byte_at (target b') = byte_at (target b)" "bus_ok b'"
    using read_around [OF assms(1,2)] by blast
  have "unat a mod 8 + 4 \<le> 8" using assms(3) by presburger
  from word_value [OF w(2) this, where 'a = 32] show ?thesis
    using w(1,3,4) cached [OF assms(1,2)]
    by (simp add: ba_eval_mem32_def low_4(1) [OF assms(3), symmetric] addr_7 Let_def)
qed

lemma eval64:
  assumes "bus_ok b" "unat a + 8 \<le> limit" "unat a mod 8 = 0"
  shows "\<exists>r b'. ba_eval_mem64 sk a False b = Some (Some r, b') \<and> is_value (byte_at (target b)) (unat a) 8 r \<and>
    byte_at (target b') = byte_at (target b) \<and> bus_ok b'"
  using mem_read_ok [OF assms(1,3,2), of 0] cached [OF assms(1,2)]
  by (auto simp: ba_eval_mem64_def is_word_def is_value_def)

text \<open>A store of \<open>k\<close> bytes inside a doubleword; the data repeat the value.\<close>

lemma write_around:
  assumes "bus_ok b" "unat a + 8 \<le> limit" "unat a mod 8 + k \<le> 8"
    and msk: "msk \<noteq> 0" "\<And>j. j < 8 \<Longrightarrow> bit msk j \<longleftrightarrow> unat a mod 8 \<le> j \<and> j < unat a mod 8 + k"
    and data: "\<And>j. j < k \<Longrightarrow> ucast (drop_bit (8 * (unat a mod 8 + j)) d) = (ucast (drop_bit (8 * j) v) :: u8)"
  shows "\<exists>b'. mem_write sk (a AND NOT 7) msk d b = Some (True, b') \<and> bus_ok b' \<and>
    byte_at (target b') = put_value (unat a) k v (byte_at (target b))"
proof -
  let ?n = "unat a" and ?f = "byte_at (target b)"
  have "unat (a AND NOT 7) mod 8 = 0" "unat (a AND NOT 7) + 8 \<le> limit" unfolding addr_7 using assms(2) by simp_all
  from mem_write_ok [OF assms(1) this, of msk d] obtain b' where
    b': "mem_write sk (a AND NOT 7) msk d b = Some (True, b')" "bus_ok b'"
    "byte_at (target b') = lane_put (?n div 8 * 8) (map (bit msk) [0..<8]) d ?f"
    using msk(1) unfolding addr_7 by auto
  have "lane_put (?n div 8 * 8) (map (bit msk) [0..<8]) d ?f = put_value ?n k v ?f"
  proof
    fix i
    show "lane_put (?n div 8 * 8) (map (bit msk) [0..<8]) d ?f i = put_value ?n k v ?f i"
    proof (cases "?n \<le> i \<and> i < ?n + k")
      case True
      then obtain j where j: "i = ?n + j" "j < k" by (metis add_less_cancel_left le_Suc_ex)
      have n: "?n = ?n div 8 * 8 + ?n mod 8" by simp
      have i: "i - ?n div 8 * 8 = ?n mod 8 + j" "?n div 8 * 8 \<le> i" "i < ?n div 8 * 8 + 8" "?n mod 8 + j < 8" "i - ?n = j"
        using j assms(3) n by linarith+
      show ?thesis
        unfolding lane_put_def put_value_def i(1,5) using i(2-4) True j(2) msk(2) [OF i(4)] data [OF j(2)] by simp
    next
      case False
      have "?n = ?n div 8 * 8 + ?n mod 8" by simp
      then have "\<not> (?n mod 8 \<le> i - ?n div 8 * 8 \<and> i - ?n div 8 * 8 < ?n mod 8 + k)" if "?n div 8 * 8 \<le> i"
        using False that by linarith
      then show ?thesis
        using False msk(2) [of "i - ?n div 8 * 8"] by (auto simp: lane_put_def put_value_def)
    qed
  qed
  with b' show ?thesis by auto
qed

end

lemma dup_bits:
  assumes "\<And>n. bit (w :: u64) n \<longleftrightarrow> n < m \<and> g (n mod p)" "p dvd m" "2 * m \<le> 64"
  shows "bit (push_bit m w OR w) n \<longleftrightarrow> n < 2 * m \<and> g (n mod p)"
proof -
  have "(n - m) mod p = n mod p" if "m \<le> n" using that assms(2) by (metis dvd_imp_mod_0 le_add_diff_inverse mod_add_left_eq add_0)
  then show ?thesis using assms(3) by (auto simp: bit_or_iff bit_push_bit_iff assms(1) not_less)
qed

lemma ucast_low: "LENGTH('a) < 64 \<Longrightarrow> bit (ucast (ucast (v :: u64) :: 'a::len word) :: u64) i \<longleftrightarrow>
    i < LENGTH('a) \<and> bit v (i mod LENGTH('a))"
  by (auto simp: bit_ucast_iff)

lemma repeats:
  fixes v :: u64
  shows "bit (push_bit 32 (ucast (ucast v :: u32)) OR ucast (ucast v :: u32) :: u64) n \<longleftrightarrow> n < 64 \<and> bit v (n mod 32)"
    "let w = push_bit 16 (ucast (ucast v :: u16)) OR ucast (ucast v :: u16) :: u64
     in bit (w OR push_bit 32 w) n \<longleftrightarrow> n < 64 \<and> bit v (n mod 16)"
    "let w = push_bit 8 (ucast (ucast v :: u8)) OR ucast (ucast v :: u8) :: u64; w = w OR push_bit 16 w
     in bit (w OR push_bit 32 w) n \<longleftrightarrow> n < 64 \<and> bit v (n mod 8)"
proof -
  note b32 = ucast_low [where 'a = 32, of v, simplified] and b16 = ucast_low [where 'a = 16, of v, simplified]
    and b8 = ucast_low [where 'a = 8, of v, simplified]
  show "bit (push_bit 32 (ucast (ucast v :: u32)) OR ucast (ucast v :: u32) :: u64) n \<longleftrightarrow> n < 64 \<and> bit v (n mod 32)"
    using dup_bits [OF b32, of n] by simp
  note h = dup_bits [OF b16, simplified]
  show "let w = push_bit 16 (ucast (ucast v :: u16)) OR ucast (ucast v :: u16) :: u64
     in bit (w OR push_bit 32 w) n \<longleftrightarrow> n < 64 \<and> bit v (n mod 16)"
    using dup_bits [OF h, of n] by (simp add: or.commute Let_def)
  note q = dup_bits [OF b8, simplified]
  note q2 = dup_bits [OF q, simplified]
  show "let w = push_bit 8 (ucast (ucast v :: u8)) OR ucast (ucast v :: u8) :: u64; w = w OR push_bit 16 w
     in bit (w OR push_bit 32 w) n \<longleftrightarrow> n < 64 \<and> bit v (n mod 8)"
    using dup_bits [OF q2, of n] by (simp add: or.commute Let_def)
qed

lemma repeated_byte:
  assumes "\<And>n. bit d n \<longleftrightarrow> n < 64 \<and> bit (v :: u64) (n mod (8 * k))" "k dvd s" "s + k \<le> 8" "j < k"
  shows "ucast (drop_bit (8 * (s + j)) (d :: u64)) = (ucast (drop_bit (8 * j) v) :: u8)"
proof (rule bit_word_eqI)
  fix i assume "i < LENGTH(8)"
  then have i: "i < 8" by simp
  have "8 * j + i < 8 * k" using i assms(4) by linarith
  moreover have "8 * (s + j) + i = (8 * j + i) + 8 * s" by simp
  moreover have "8 * k dvd 8 * s" using assms(2) by simp
  ultimately have "(8 * (s + j) + i) mod (8 * k) = 8 * j + i"
    by (metis mod_add_right_eq dvd_imp_mod_0 add_0_right mod_less)
  moreover have "s + j \<le> 7" using assms(3,4) by linarith
  then have "8 * (s + j) + i < 64" using i mult_le_mono2 [of "s + j" 7 8] by linarith
  ultimately show "bit (ucast (drop_bit (8 * (s + j)) d) :: u8) i = bit (ucast (drop_bit (8 * j) v) :: u8) i"
    using i by (simp add: bit_ucast_iff bit_drop_bit_eq assms(1))
qed

lemma mask_lane:
  assumes "s + k \<le> 8" "0 < k"
  shows "push_bit s (mask k) \<noteq> (0 :: u8)" "j < 8 \<Longrightarrow> bit (push_bit s (mask k) :: u8) j \<longleftrightarrow> s \<le> j \<and> j < s + k"
proof -
  show b: "bit (push_bit s (mask k) :: u8) j \<longleftrightarrow> s \<le> j \<and> j < s + k" if "j < 8" for j
    using that by (auto simp: bit_push_bit_iff bit_mask_iff)
  show "push_bit s (mask k) \<noteq> (0 :: u8)"
  proof
    assume "push_bit s (mask k) = (0 :: u8)"
    then show False using b [of s] assms by simp
  qed
qed

lemma mask_numerals8: "(1 :: u8) = mask 1" "(3 :: u8) = mask 2" "(15 :: u8) = mask 4"
  by (simp_all add: mask_eq_exp_minus_1)

context tlm_target
begin

lemma set_around:
  assumes "bus_ok b" "unat a + 8 \<le> limit" "k dvd unat a mod 8" "0 < k" "k \<le> 4" "k dvd 8"
    "\<And>n. bit d n \<longleftrightarrow> n < 64 \<and> bit v (n mod (8 * k))"
  shows "\<exists>b'. mem_write sk (a AND NOT 7) (push_bit (unat a mod 8) (mask k)) d b = Some (True, b') \<and> bus_ok b' \<and>
    byte_at (target b') = put_value (unat a) k v (byte_at (target b))"
proof -
  obtain q where q: "8 = k * q" using assms(6) by (rule dvdE)
  obtain r where r: "unat a mod 8 = k * r" using assms(3) by (rule dvdE)
  note qr = q r
  have "k * r < k * q" using qr mod_less_divisor [of 8 "unat a"] by simp
  then have "r + 1 \<le> q" by simp
  then have "k * (r + 1) \<le> k * q" by (rule mult_le_mono2)
  then have le: "unat a mod 8 + k \<le> 8" using qr by simp
  show ?thesis
    by (rule write_around [OF assms(1,2) le mask_lane [OF le assms(4)]])
      (use repeated_byte [OF assms(7,3) le] in auto)
qed

lemma set8:
  assumes "bus_ok b" "unat a + 8 \<le> limit"
  shows "\<exists>b'. ba_set_mem8 sk a (ucast v) b = Some (True, b') \<and> bus_ok b' \<and>
    byte_at (target b') = put_value (unat a) 1 v (byte_at (target b))"
  using set_around [OF assms, of 1 _ v] repeats(3) [of v]
  by (simp add: ba_set_mem8_def addr_7 mask_numerals8(1) Let_def del: mask_Suc_0 One_nat_def)

lemma set16:
  assumes "bus_ok b" "unat a + 8 \<le> limit" "unat a mod 2 = 0"
  shows "\<exists>b'. ba_set_mem16 sk a (ucast v) b = Some (True, b') \<and> bus_ok b' \<and>
    byte_at (target b') = put_value (unat a) 2 v (byte_at (target b))"
proof -
  have "2 dvd unat a mod 8" using assms(3) by presburger
  from set_around [OF assms(1,2) this, of _ v] repeats(2) [of v] show ?thesis
    by (simp only: ba_set_mem16_def addr_7 low_2 [OF assms(3), symmetric] mask_numerals8(2) Let_def) simp
qed

lemma set32:
  assumes "bus_ok b" "unat a + 8 \<le> limit" "unat a mod 4 = 0"
  shows "\<exists>b'. ba_set_mem32 sk a (ucast v) b = Some (True, b') \<and> bus_ok b' \<and>
    byte_at (target b') = put_value (unat a) 4 v (byte_at (target b))"
proof -
  have "4 dvd unat a mod 8" using assms(3) by presburger
  from set_around [OF assms(1,2) this, of _ v] repeats(1) [of v] show ?thesis
    using cached [OF assms(1,2)]
    by (simp only: ba_set_mem32_def addr_7 low_4 [OF assms(3), symmetric] mask_numerals8(3) Let_def) simp
qed

lemma set64:
  assumes "bus_ok b" "unat a + 8 \<le> limit" "unat a mod 8 = 0"
  shows "\<exists>b'. ba_set_mem64 sk a v b = Some (True, b') \<and> bus_ok b' \<and>
    byte_at (target b') = put_value (unat a) 8 v (byte_at (target b))"
proof -
  have "lane_put (unat a) (replicate 8 True) v f = put_value (unat a) 8 v f" for f
    by (auto simp: lane_put_def put_value_def fun_eq_iff)
  then show ?thesis
    using mem_write_ok [OF assms(1,3,2), of 0 v] cached [OF assms(1,2)] by (simp add: ba_set_mem64_def)
qed

end

lemma value_ucast: "is_value f n k (v :: 'a::len word) \<Longrightarrow> 8 * k \<le> LENGTH('b::len) \<Longrightarrow> is_value f n k (ucast v :: 'b word)"
  unfolding is_value_def bit_ucast_iff by (meson less_le_trans)

lemma value_byte: "is_value f n 1 (ucast (f n) :: u64)"
  unfolding is_value_def
proof (intro allI)
  fix i
  show "bit (ucast (f n) :: u64) i \<longleftrightarrow> i < 8 * 1 \<and> bit (f (n + i div 8)) (i mod 8)"
    by (cases "i < 8") (auto simp: bit_ucast_iff dest: bit_imp_le_length)
qed

text \<open>Joining two values that follow each other.\<close>

lemma value_join:
  assumes "is_value f n k (v :: u64)" "is_value f (n + k) j (w :: u64)" "8 * (k + j) \<le> 64"
  shows "is_value f n (k + j) (push_bit (8 * k) w OR v)"
  unfolding is_value_def
proof (intro allI)
  fix i
  have hi: "n + k + (i - 8 * k) div 8 = n + i div 8" "(i - 8 * k) mod 8 = i mod 8" if "8 * k \<le> i"
    using sub_div8 [OF that] by simp_all
  have "8 * k + 8 * j \<le> 64" using assms(3) by (simp only: distrib_left)
  then have "i < 8 * k + 8 * j \<Longrightarrow> i < 64" by (rule less_le_trans [rotated])
  note small = this
  note v = assms(1) [unfolded is_value_def, THEN spec, of i] and w = assms(2) [unfolded is_value_def, THEN spec, of "i - 8 * k"]
  show "bit (push_bit (8 * k) w OR v) i \<longleftrightarrow> i < 8 * (k + j) \<and> bit (f (n + i div 8)) (i mod 8)"
  proof (cases "8 * k \<le> i")
    case True
    have "i - 8 * k < 8 * j \<longleftrightarrow> i < 8 * k + 8 * j" using True by linarith
    then show ?thesis
      unfolding bit_or_iff bit_push_bit_iff v w hi [OF True] distrib_left using True small by auto
  next
    case False
    then show ?thesis unfolding bit_or_iff bit_push_bit_iff v distrib_left by simp
  qed
qed

lemma put_join: "put_value (n + k) j (drop_bit (8 * k) v) (put_value n k v f) = put_value n (k + j) v f"
proof
  fix i
  have "8 * (i - (n + k)) + 8 * k = 8 * (i - n)" if "n + k \<le> i" using that by (simp add: diff_mult_distrib2)
  then show "put_value (n + k) j (drop_bit (8 * k) v) (put_value n k v f) i = put_value n (k + j) v f i"
    by (auto simp: put_value_def)
qed

lemma u64_step: "unat a + 16 \<le> 2 ^ 32 \<Longrightarrow> j < 16 \<Longrightarrow> unat (a + of_nat j :: u64) = unat a + j"
  by (simp add: unat_word_ariths unat_of_nat)

lemma low_bits: "bit (a :: u64) 0 \<longleftrightarrow> odd (unat a)" "bit a 2 \<longleftrightarrow> odd (unat a div 4)" "a AND 3 \<noteq> 0 \<longleftrightarrow> unat a mod 4 \<noteq> 0"
    "unat (a AND 3) = unat a mod 4" "unat (a AND NOT 3) = unat a div 4 * 4"
proof -
  have b: "bit a i \<longleftrightarrow> bit (unat a) i" for i by (simp add: bit_unsigned_iff)
  show "bit (a :: u64) 0 \<longleftrightarrow> odd (unat a)" "bit a 2 \<longleftrightarrow> odd (unat a div 4)" unfolding b by (simp_all add: bit_iff_odd)
  show "unat (a AND 3) = unat a mod 4" "unat (a AND NOT 3) = unat a div 4 * 4"
    unfolding masks(3) by (simp_all add: unat_mask unat_not_mask del: mask_numeral)
  then show "a AND 3 \<noteq> 0 \<longleftrightarrow> unat a mod 4 \<noteq> 0" by (metis unat_eq_zero)
qed

context tlm_target
begin

lemma bytes_written:
  assumes "bus_ok b" "unat a + length ds + 8 \<le> limit"
  shows "\<exists>b'. tlm_write_bytes sk a ds b = Some (True, b') \<and> bus_ok b' \<and>
    byte_at (target b') = (\<lambda>i. if unat a \<le> i \<and> i < unat a + length ds then ds ! (i - unat a) else byte_at (target b) i)"
  using assms
proof (induction ds arbitrary: a b)
  case Nil
  then show ?case by (auto simp: fun_eq_iff)
next
  case (Cons d ds)
  have lim: "limit \<le> 2 ^ 31" using in_space Cons.prems(1) by (auto simp: bus_ok_def)
  have "ucast (ucast d :: u64) = d" by (rule bit_word_eqI) (simp add: bit_ucast_iff)
  then obtain b1 where b1: "ba_set_mem8 sk a d b = Some (True, b1)" "bus_ok b1"
    "byte_at (target b1) = put_value (unat a) 1 (ucast d) (byte_at (target b))"
    using set8 [OF Cons.prems(1), of a "ucast d"] Cons.prems(2) by auto
  have a1: "unat (a + 1) = unat a + 1" using u64_step [of a 1] Cons.prems(2) lim by simp
  obtain b' where b': "tlm_write_bytes sk (a + 1) ds b1 = Some (True, b')" "bus_ok b'"
    "byte_at (target b') = (\<lambda>i. if unat a + 1 \<le> i \<and> i < unat a + 1 + length ds then ds ! (i - (unat a + 1))
       else byte_at (target b1) i)"
    using Cons.IH [OF b1(2), of "a + 1"] Cons.prems(2) unfolding a1 by auto
  have "ucast (drop_bit 0 (ucast d :: u64)) = d" using \<open>ucast (ucast d) = d\<close> by simp
  then have "byte_at (target b') = (\<lambda>i. if unat a \<le> i \<and> i < unat a + length (d # ds) then (d # ds) ! (i - unat a)
      else byte_at (target b) i)"
    unfolding b'(3) b1(3) put_value_def by (auto simp: fun_eq_iff nth_Cons' le_less Suc_le_eq)
  then show ?case using b1(1) b'(1,2) by simp
qed

lemma value_written:
  assumes "bus_ok b" "unat a + 16 \<le> limit" "k \<le> 8"
  shows "\<exists>b'. tlm_write_bytes sk a (map (\<lambda>i. ucast (drop_bit (8 * i) v)) [0..<k]) b = Some (True, b') \<and> bus_ok b' \<and>
    byte_at (target b') = put_value (unat a) k v (byte_at (target b))"
  using bytes_written [OF assms(1), of a "map (\<lambda>i. ucast (drop_bit (8 * i) v)) [0..<k]"] assms(2,3)
  by (auto simp: put_value_def fun_eq_iff)

end

text \<open>A word that straddles two aligned words.\<close>

lemma value_straddle:
  assumes "is_value f (n div 4 * 4) 4 (p1 :: u32)" "is_value f (n div 4 * 4 + 4) 4 (p2 :: u32)" "n mod 4 \<noteq> 0"
  shows "is_value f n 4 (drop_bit (8 * (n mod 4)) p1 OR push_bit (32 - 8 * (n mod 4)) p2 :: u32)"
proof -
  have r: "0 < n mod 4" "n mod 4 < 4" using assms(3) by simp_all
  have "bit p1 i \<longleftrightarrow> i < 32 \<and> bit (f (n div 4 * 4 + i div 8)) (i mod 8)"
    "bit p2 i \<longleftrightarrow> i < 32 \<and> bit (f (n div 4 * 4 + 4 + i div 8)) (i mod 8)" for i
    using assms(1,2) by (simp_all only: is_value_def) simp_all
  from misaligned_bits [of p1 f "n div 4 * 4" p2, OF this r] show ?thesis by (simp add: is_value_def)
qed

definition access_ok :: "nat \<Rightarrow> nat \<Rightarrow> nat \<Rightarrow> bool" where
  "access_ok limit n sf \<longleftrightarrow> sf < 4 \<and> n + 16 \<le> limit \<and> (sf = 3 \<longrightarrow> n mod 4 = 0)"

context tlm_target
begin

lemma bus_limit: "bus_ok b \<Longrightarrow> limit \<le> 2 ^ 31"
  using in_space by (auto simp: bus_ok_def)

lemma joined:
  assumes "\<exists>r b1. first_read = Some (Some r, b1) \<and> P r \<and> byte_at (target b1) = f \<and> bus_ok b1"
    and "\<forall>b1. bus_ok b1 \<longrightarrow> byte_at (target b1) = f \<longrightarrow>
      (\<exists>r b2. second_read b1 = Some (Some r, b2) \<and> Q r \<and> byte_at (target b2) = f \<and> bus_ok b2)"
  shows "\<exists>r1 r2 b2. join_reads first_read second_read g = Some (Some (g r1 r2), b2) \<and> P r1 \<and> Q r2 \<and>
    byte_at (target b2) = f \<and> bus_ok b2"
  using assms by (fastforce simp: join_reads_def)

lemma load_byte:
  assumes "bus_ok b" "unat a + 8 \<le> limit"
  shows "\<exists>v b'. map_option (\<lambda>(r, b). (map_option ucast r, b)) (ba_eval_mem8 sk a False b) = Some (Some v, b') \<and>
    is_value (byte_at (target b)) (unat a) 1 (v :: u64) \<and> byte_at (target b') = byte_at (target b) \<and> bus_ok b'"
  using eval8 [OF assms] value_byte by fastforce

lemma load_half:
  assumes "bus_ok b" "unat a + 16 \<le> limit"
  shows "\<exists>v b'. tlm_read sk a 1 False b = Some (Some v, b') \<and> is_value (byte_at (target b)) (unat a) 2 v \<and>
    byte_at (target b') = byte_at (target b) \<and> bus_ok b'"
proof (cases "bit a 0")
  case True
  let ?f = "byte_at (target b)"
  have a1: "unat (a + 1) = unat a + 1" using u64_step [of a 1] assms(2) bus_limit [OF assms(1)] by simp
  have one: "\<exists>r b1. ba_eval_mem8 sk a False b = Some (Some r, b1) \<and> r = ?f (unat a) \<and>
      byte_at (target b1) = ?f \<and> bus_ok b1"
    using eval8 [OF assms(1), of a] assms(2) by fastforce
  have two: "\<forall>b1. bus_ok b1 \<longrightarrow> byte_at (target b1) = ?f \<longrightarrow>
      (\<exists>r b2. ba_eval_mem8 sk (a + 1) False b1 = Some (Some r, b2) \<and> r = ?f (unat a + 1) \<and>
      byte_at (target b2) = ?f \<and> bus_ok b2)"
  proof (intro allI impI)
    fix b1 assume "bus_ok b1" "byte_at (target b1) = ?f"
    with eval8 [OF this(1), of "a + 1", unfolded a1] assms(2)
    show "\<exists>r b2. ba_eval_mem8 sk (a + 1) False b1 = Some (Some r, b2) \<and> r = ?f (unat a + 1) \<and>
      byte_at (target b2) = ?f \<and> bus_ok b2" by simp
  qed
  have "\<exists>r1 r2 b2. join_reads (ba_eval_mem8 sk a False b) (ba_eval_mem8 sk (a + 1) False)
      (\<lambda>r1 r2. push_bit 8 (ucast r2) OR ucast r1 :: u64) = Some (Some (push_bit 8 (ucast r2) OR ucast r1), b2) \<and>
      r1 = ?f (unat a) \<and> r2 = ?f (unat a + 1) \<and> byte_at (target b2) = ?f \<and> bus_ok b2"
    using joined [where P = "\<lambda>r. r = ?f (unat a)" and Q = "\<lambda>r. r = ?f (unat a + 1)"
        and second_read = "ba_eval_mem8 sk (a + 1) False" and g = "\<lambda>r1 r2. push_bit 8 (ucast r2) OR ucast r1 :: u64",
        OF one two] by blast
  moreover have "is_value ?f (unat a) 2 (push_bit 8 (ucast (?f (unat a + 1))) OR ucast (?f (unat a)) :: u64)"
    using value_join [OF value_byte value_byte, of ?f "unat a"] by (simp add: numeral_2_eq_2)
  ultimately show ?thesis using True by (auto simp: tlm_read_def Let_def)
next
  case False
  then have "unat a mod 2 = 0" by (simp add: low_bits(1))
  from eval16 [OF assms(1) _ this] value_ucast [where 'b = 64] assms(2) False show ?thesis
    by (fastforce simp: tlm_read_def Let_def)
qed

lemma load_word:
  assumes "bus_ok b" "unat a + 16 \<le> limit"
  shows "\<exists>v b'. tlm_read sk a 2 False b = Some (Some v, b') \<and> is_value (byte_at (target b)) (unat a) 4 v \<and>
    byte_at (target b') = byte_at (target b) \<and> bus_ok b'"
proof (cases "unat a mod 4 = 0")
  case True
  then have "a AND 3 = 0" using low_bits(3) [of a] by simp
  then show ?thesis
    using eval32 [OF assms(1) _ True] value_ucast [where 'b = 64] assms(2) by (fastforce simp: tlm_read_def Let_def)
next
  case False
  let ?f = "byte_at (target b)" and ?base = "a AND NOT 3" and ?off = "unat (a AND 3)"
  have base: "unat ?base = unat a div 4 * 4" by (rule low_bits(5))
  then have b16: "unat ?base + 16 \<le> limit" using assms(2) by (simp add: le_trans [OF add_right_mono])
  then have b4: "unat (?base + 4) = unat a div 4 * 4 + 4"
    using u64_step [of ?base 4] bus_limit [OF assms(1)] base by simp
  have first_read: "\<exists>r b1. ba_eval_mem32 sk ?base False b = Some (Some r, b1) \<and> is_value ?f (unat a div 4 * 4) 4 r \<and>
      byte_at (target b1) = ?f \<and> bus_ok b1"
    using eval32 [OF assms(1), of ?base] b16 base by simp
  have second_read: "\<forall>b1. bus_ok b1 \<longrightarrow> byte_at (target b1) = ?f \<longrightarrow>
      (\<exists>r b2. ba_eval_mem32 sk (?base + 4) False b1 = Some (Some r, b2) \<and> is_value ?f (unat a div 4 * 4 + 4) 4 r \<and>
      byte_at (target b2) = ?f \<and> bus_ok b2)"
  proof (intro allI impI)
    fix b1 assume "bus_ok b1" "byte_at (target b1) = ?f"
    with eval32 [OF this(1), of "?base + 4", unfolded b4] b16 base
    show "\<exists>r b2. ba_eval_mem32 sk (?base + 4) False b1 = Some (Some r, b2) \<and>
      is_value ?f (unat a div 4 * 4 + 4) 4 r \<and> byte_at (target b2) = ?f \<and> bus_ok b2" by simp
  qed
  obtain p1 p2 :: u32 and b2 where j: "join_reads (ba_eval_mem32 sk ?base False b) (ba_eval_mem32 sk (?base + 4) False)
      (\<lambda>part1 part2. ucast (drop_bit (8 * ?off) part1 OR push_bit (32 - 8 * ?off) part2) :: u64) =
      Some (Some (ucast (drop_bit (8 * ?off) p1 OR push_bit (32 - 8 * ?off) p2)), b2)"
    "is_value ?f (unat a div 4 * 4) 4 p1" "is_value ?f (unat a div 4 * 4 + 4) 4 p2" "byte_at (target b2) = ?f" "bus_ok b2"
    using joined [where P = "is_value ?f (unat a div 4 * 4) 4" and Q = "is_value ?f (unat a div 4 * 4 + 4) 4"
        and second_read = "ba_eval_mem32 sk (?base + 4) False"
        and g = "\<lambda>part1 part2. ucast (drop_bit (8 * ?off) part1 OR push_bit (32 - 8 * ?off) part2) :: u64",
        OF first_read second_read] by blast
  have "is_value ?f (unat a) 4 (ucast (drop_bit (8 * ?off) p1 OR push_bit (32 - 8 * ?off) p2) :: u64)"
    using value_ucast [OF value_straddle [OF j(2,3) False], where 'b = 64] unfolding low_bits(4) by simp
  then show ?thesis using j(1,4,5) False by (auto simp: tlm_read_def Let_def low_bits(4))
qed

lemma load_double:
  assumes "bus_ok b" "unat a + 16 \<le> limit" "unat a mod 4 = 0"
  shows "\<exists>v b'. tlm_read sk a 3 False b = Some (Some v, b') \<and> is_value (byte_at (target b)) (unat a) 8 v \<and>
    byte_at (target b') = byte_at (target b) \<and> bus_ok b'"
proof (cases "bit a 2")
  case True
  let ?f = "byte_at (target b)"
  have a4: "unat (a + 4) = unat a + 4" using u64_step [of a 4] assms(2) bus_limit [OF assms(1)] by simp
  have z: "a AND 3 = 0" using low_bits(3) [of a] assms(3) by simp
  have one: "\<exists>r b1. ba_eval_mem32 sk a False b = Some (Some r, b1) \<and> is_value ?f (unat a) 4 r \<and>
      byte_at (target b1) = ?f \<and> bus_ok b1"
    using eval32 [OF assms(1), of a] assms(2,3) by simp
  have two: "\<forall>b1. bus_ok b1 \<longrightarrow> byte_at (target b1) = ?f \<longrightarrow>
      (\<exists>r b2. ba_eval_mem32 sk (a + 4) False b1 = Some (Some r, b2) \<and> is_value ?f (unat a + 4) 4 r \<and>
      byte_at (target b2) = ?f \<and> bus_ok b2)"
  proof (intro allI impI)
    fix b1 assume "bus_ok b1" "byte_at (target b1) = ?f"
    with eval32 [OF this(1), of "a + 4", unfolded a4] assms(2,3)
    show "\<exists>r b2. ba_eval_mem32 sk (a + 4) False b1 = Some (Some r, b2) \<and>
      is_value ?f (unat a + 4) 4 r \<and> byte_at (target b2) = ?f \<and> bus_ok b2" by simp
  qed
  have "\<exists>(r1 :: u32) (r2 :: u32) b2. join_reads (ba_eval_mem32 sk a False b) (ba_eval_mem32 sk (a + 4) False)
      (\<lambda>r0 r1. ucast r0 OR push_bit 32 (ucast r1) :: u64) = Some (Some (ucast r1 OR push_bit 32 (ucast r2)), b2) \<and>
      is_value ?f (unat a) 4 r1 \<and> is_value ?f (unat a + 4) 4 r2 \<and> byte_at (target b2) = ?f \<and> bus_ok b2"
    using joined [where P = "is_value ?f (unat a) 4" and Q = "is_value ?f (unat a + 4) 4"
        and second_read = "ba_eval_mem32 sk (a + 4) False" and g = "\<lambda>r0 r1. ucast r0 OR push_bit 32 (ucast r1) :: u64",
        OF one two] by blast
  moreover have "is_value ?f (unat a) 8 (ucast r1 OR push_bit 32 (ucast r2) :: u64)"
    if "is_value ?f (unat a) 4 (r1 :: u32)" "is_value ?f (unat a + 4) 4 (r2 :: u32)" for r1 r2
    using value_join [OF value_ucast [OF that(1)] value_ucast [OF that(2)]] by (simp add: or.commute)
  ultimately show ?thesis using True z by (fastforce simp: tlm_read_def Let_def)
next
  case False
  then have "unat a mod 8 = 0" using assms(3) unfolding low_bits(2) by presburger
  from eval64 [OF assms(1) _ this] assms(2) False show ?thesis by (simp add: tlm_read_def Let_def)
qed

lemma tlm_load:
  assumes "bus_ok b" "access_ok limit (unat a) sf"
  shows "\<exists>v b'. tlm_read sk a sf False b = Some (Some v, b') \<and> is_value (byte_at (target b)) (unat a) (2 ^ sf) v \<and>
    byte_at (target b') = byte_at (target b) \<and> bus_ok b'"
proof -
  have a: "unat a + 16 \<le> limit" "unat a + 8 \<le> limit" using assms(2) by (simp_all add: access_ok_def)
  have sf: "sf < 4" "sf = 3 \<Longrightarrow> unat a mod 4 = 0" using assms(2) by (simp_all add: access_ok_def)
  from sf(1) consider "sf = 0" | "sf = 1" | "sf = 2" | "sf = 3" by linarith
  then show ?thesis
  proof cases
    case 1
    then show ?thesis using load_byte [OF assms(1) a(2)] by (simp add: tlm_read_def Let_def)
  qed (use load_half load_word load_double assms(1) a(1) sf(2) in simp_all)
qed

lemma tlm_store:
  assumes "bus_ok b" "access_ok limit (unat a) sf"
  shows "\<exists>b'. tlm_write sk a v sf False b = Some (True, 0, b') \<and> bus_ok b' \<and>
    byte_at (target b') = put_value (unat a) (2 ^ sf) v (byte_at (target b))"
proof -
  have a: "unat a + 16 \<le> limit" "unat a + 8 \<le> limit" using assms(2) by (simp_all add: access_ok_def)
  note bytes = value_written [OF assms(1) a(1)]
  have sf: "sf < 4" "sf = 3 \<Longrightarrow> unat a mod 4 = 0" using assms(2) by (simp_all add: access_ok_def)
  from sf(1) consider "sf = 0" | "sf = 1" | "sf = 2" | "sf = 3" by linarith
  then show ?thesis
  proof cases
    case 1
    then show ?thesis using set8 [OF assms(1) a(2), of v] by (auto simp: tlm_write_def Let_def)
  next
    case 2
    then show ?thesis
      using bytes [of 2 v] set16 [OF assms(1) a(2), of v] by (cases "bit a 0") (auto simp: tlm_write_def Let_def low_bits(1))
  next
    case 3
    then show ?thesis
      using bytes [of 4 v] set32 [OF assms(1) a(2), of v] low_bits(3) [of a]
      by (cases "a AND 3 = 0") (auto simp: tlm_write_def Let_def)
  next
    case (4)
    note 4 = 4 sf(2) [OF 4]
    have z: "a AND 3 = 0" using low_bits(3) [of a] 4(2) by simp
    show ?thesis
    proof (cases "bit a 2")
      case True
      have a4: "unat (a + 4) = unat a + 4" using u64_step [of a 4] a(1) bus_limit [OF assms(1)] by simp
      obtain b1 where b1: "ba_set_mem32 sk a (ucast v) b = Some (True, b1)" "bus_ok b1"
        "byte_at (target b1) = put_value (unat a) 4 v (byte_at (target b))"
        using set32 [OF assms(1) a(2) 4(2)] by blast
      obtain b2 where b2: "ba_set_mem32 sk (a + 4) (ucast (drop_bit 32 v)) b1 = Some (True, b2)" "bus_ok b2"
        "byte_at (target b2) = put_value (unat a + 4) 4 (drop_bit 32 v) (byte_at (target b1))"
        using set32 [OF b1(2), of "a + 4" "drop_bit 32 v"] a(1) 4(2) unfolding a4 by auto
      have "byte_at (target b2) = put_value (unat a) 8 v (byte_at (target b))"
        unfolding b2(3) b1(3) using put_join [of "unat a" 4 4 v] by simp
      then show ?thesis using True z 4(1) b1(1) b2(1,2) by (simp add: tlm_write_def Let_def)
    next
      case False
      then have "unat a mod 8 = 0" using 4(2) unfolding low_bits(2) by presburger
      from set64 [OF assms(1) a(2) this, of v] 4(1) False show ?thesis by (auto simp: tlm_write_def Let_def)
    qed
  qed
qed

end


section \<open>The interface of a memory of bytes\<close>

text \<open>What a program that only loads and stores can rely on: a load returns the bytes at its address, a store
  changes those bytes and no other.\<close>

definition below :: "nat \<Rightarrow> (nat \<Rightarrow> u8) \<Rightarrow> nat \<Rightarrow> u8" where
  "below limit f = (\<lambda>n. if n < limit then f n else 0)"

locale byte_bus =
  fixes bus :: "'m bus" and bytes :: "'m \<Rightarrow> nat \<Rightarrow> u8" and inv :: "'m \<Rightarrow> bool" and limit :: nat
  assumes load: "inv m \<Longrightarrow> access_ok limit (unat a) sf \<Longrightarrow>
      \<exists>v m'. read1 bus m a sf False False = Some (Some v, m') \<and> is_value (bytes m) (unat a) (2 ^ sf) v \<and>
        bytes m' = bytes m \<and> inv m'"
    and store: "inv m \<Longrightarrow> access_ok limit (unat a) sf \<Longrightarrow>
      \<exists>m'. write1 bus m a v sf False = Some (True, 0, m') \<and> bytes m' = put_value (unat a) (2 ^ sf) v (bytes m) \<and> inv m'"

datatype access = Load u32 nat | Store u32 nat u64

fun accesses :: "'m bus \<Rightarrow> access list \<Rightarrow> 'm \<Rightarrow> (u64 list \<times> 'm) option" where
  "accesses bus [] m = Some ([], m)"
| "accesses bus (Load a sf # xs) m =
    do { (r, m) \<leftarrow> read1 bus m a sf False False; v \<leftarrow> r; (vs, m) \<leftarrow> accesses bus xs m; Some (v # vs, m) }"
| "accesses bus (Store a sf v # xs) m =
    do { (ok, _, m) \<leftarrow> write1 bus m a v sf False; if ok then accesses bus xs m else None }"

fun fits :: "nat \<Rightarrow> access \<Rightarrow> bool" where
  "fits limit (Load a sf) = access_ok limit (unat a) sf"
| "fits limit (Store a sf v) = access_ok limit (unat a) sf"

text \<open>The same accesses on an array of bytes.\<close>

definition value_at :: "(nat \<Rightarrow> u8) \<Rightarrow> nat \<Rightarrow> nat \<Rightarrow> u64" where
  "value_at f n k = take_bit (8 * k) (page_word f n)"

fun byte_accesses :: "access list \<Rightarrow> (nat \<Rightarrow> u8) \<Rightarrow> u64 list \<times> (nat \<Rightarrow> u8)" where
  "byte_accesses [] f = ([], f)"
| "byte_accesses (Load a sf # xs) f = (let (vs, f') = byte_accesses xs f in (value_at f (unat a) (2 ^ sf) # vs, f'))"
| "byte_accesses (Store a sf v # xs) f = byte_accesses xs (put_value (unat a) (2 ^ sf) v f)"

lemma value_at: "k \<le> 8 \<Longrightarrow> is_value f n k v \<longleftrightarrow> v = value_at f n k"
proof -
  assume k: "k \<le> 8"
  have "8 * k \<le> 64" using k by simp
  then have b: "bit (value_at f n k) i \<longleftrightarrow> i < 8 * k \<and> bit (f (n + i div 8)) (i mod 8)" for i
    by (auto simp: value_at_def bit_take_bit_iff bit_page_word)
  show ?thesis unfolding is_value_def b [symmetric] by (auto intro: bit_word_eqI)
qed

lemma size_bytes: "access_ok limit n sf \<Longrightarrow> (2 :: nat) ^ sf \<le> 8" "access_ok limit n sf \<Longrightarrow> n + 2 ^ sf \<le> limit"
proof -
  assume a: "access_ok limit n sf"
  then have "sf \<le> 3" by (simp add: access_ok_def)
  then have "(2 :: nat) ^ sf \<le> 2 ^ 3" by (rule power_increasing) simp
  then show "(2 :: nat) ^ sf \<le> 8" by simp
  with a show "n + 2 ^ sf \<le> limit" by (simp add: access_ok_def)
qed

lemma value_below:
  assumes "n + k \<le> limit"
  shows "is_value (below limit f) n k v \<longleftrightarrow> is_value f n k v"
proof -
  have "below limit f (n + i div 8) = f (n + i div 8)" if "i < 8 * k" for i
  proof -
    have "i div 8 < k" using that by (simp add: div_less_iff_less_mult mult.commute)
    then show ?thesis using assms by (simp add: below_def)
  qed
  then show ?thesis unfolding is_value_def by (metis (no_types))
qed

lemma put_below: "n + k \<le> limit \<Longrightarrow> below limit (put_value n k v f) = put_value n k v (below limit f)"
  by (auto simp: below_def put_value_def fun_eq_iff)

context byte_bus
begin

lemma accesses_bytes:
  "inv m \<Longrightarrow> \<forall>x \<in> set xs. fits limit x \<Longrightarrow>
    \<exists>m'. accesses bus xs m = Some (fst (byte_accesses xs (bytes m)), m') \<and>
      bytes m' = snd (byte_accesses xs (bytes m)) \<and> inv m'"
proof (induction xs arbitrary: m)
  case (Cons x xs)
  show ?case
  proof (cases x)
    case (Load a sf)
    then have ok: "access_ok limit (unat a) sf" using Cons.prems(2) by simp
    from load [OF Cons.prems(1) ok] obtain v m1 where m1: "read1 bus m a sf False False = Some (Some v, m1)"
      "is_value (bytes m) (unat a) (2 ^ sf) v" "bytes m1 = bytes m" "inv m1" by blast
    then have "v = value_at (bytes m) (unat a) (2 ^ sf)" using value_at [OF size_bytes(1) [OF ok]] by blast
    with Cons.IH [OF m1(4)] Cons.prems(2) m1(1,3) Load show ?thesis by (auto simp: case_prod_beta)
  next
    case (Store a sf v)
    then have ok: "access_ok limit (unat a) sf" using Cons.prems(2) by simp
    from store [OF Cons.prems(1) ok, of v] obtain m1 where m1: "write1 bus m a v sf False = Some (True, 0, m1)"
      "bytes m1 = put_value (unat a) (2 ^ sf) v (bytes m)" "inv m1" by blast
    with Cons.IH [OF m1(3)] Cons.prems(2) Store show ?thesis by auto
  qed
qed simp

end


section \<open>The two memories\<close>

text \<open>The memory of the stand-alone simulator.\<close>

definition flat_bytes :: "flat \<Rightarrow> nat \<Rightarrow> u8" where
  "flat_bytes m = below mem_size_bytes (flat_data m)"

lemma start_ok: "access_ok limit (unat a) sf \<Longrightarrow> flat_start a sf = unat a"
  by (auto simp: access_ok_def flat_start_def)

interpretation flat: byte_bus "fast_bus q" flat_bytes "\<lambda>_. True" mem_size_bytes for q
proof
  fix m :: flat and a :: u32 and sf :: nat and v :: u64
  assume ok: "access_ok mem_size_bytes (unat a) sf"
  then have a: "sf < 4" "unat a + 8 \<le> mem_size_bytes" by (simp_all add: access_ok_def)
  note fit = size_bytes(2) [OF ok]
  obtain x where x: "fast_read1 q m a sf False False = Some (Some x, m)" "reads a sf m x"
    using fast_read_bytes [OF a] by blast
  have "is_value (flat_data m) (unat a) (2 ^ sf) x"
    using x(2) unfolding reads_def is_value_def start_ok [OF ok] .
  then have "is_value (flat_bytes m) (unat a) (2 ^ sf) x" unfolding flat_bytes_def value_below [OF fit] .
  with x(1) show "\<exists>v m'. read1 (fast_bus q) m a sf False False = Some (Some v, m') \<and>
      is_value (flat_bytes m) (unat a) (2 ^ sf) v \<and> flat_bytes m' = flat_bytes m \<and> True"
    by (simp add: fast_bus_def)
  obtain m' where m': "fast_write1 q m a v sf False = Some (True, 0, m')" "writes a sf v m m'"
    using fast_write_bytes [OF a, of q m v False] by auto
  have "flat_data m' = put_value (unat a) (2 ^ sf) v (flat_data m)"
    using m'(2) unfolding writes_def start_ok [OF ok] put_value_def by (simp add: fun_eq_iff)
  then have "flat_bytes m' = put_value (unat a) (2 ^ sf) v (flat_bytes m)"
    unfolding flat_bytes_def by (simp only: put_below [OF fit])
  with m'(1) show "\<exists>m'. write1 (fast_bus q) m a v sf False = Some (True, 0, m') \<and>
      flat_bytes m' = put_value (unat a) (2 ^ sf) v (flat_bytes m) \<and> True"
    by (simp add: fast_bus_def)
qed

text \<open>The memory of the platform seen by one core, whatever its bus access unit has learnt about it.\<close>

definition platform_bytes :: "nat \<Rightarrow> generic_tlm_mem tlm_side \<Rightarrow> nat \<Rightarrow> u8" where
  "platform_bytes limit s = below limit (mem_byte (target (busaccess s)))"

definition dmi_ok :: "dmi_record \<Rightarrow> bool" where
  "dmi_ok d \<longleftrightarrow> (\<forall>p. dmi_ptr d = Some p \<longrightarrow> page_ptr (dmi_start d) (dmi_end d) p)"

definition platform_ok :: "nat \<Rightarrow> generic_tlm_mem tlm_side \<Rightarrow> bool" where
  "platform_ok limit s \<longleftrightarrow>
    (let b = busaccess s
     in mem_ok limit (target b) \<and> ENDIAN_FLIP b = 0 \<and> atomics b = 0 \<and> dmi_ok (DMI_data b) \<and> dmi_ok (DMI_insn b))"

lemma platform_bus: "platform_ok limit s \<longleftrightarrow> mem.bus_ok limit (busaccess s)"
  by (simp add: platform_ok_def mem.bus_ok_def mem.rec_ok_def dmi_ok_def Let_def)

lemma platform_new:
  assumes "generic_mem_new 0 n w = Some m" "unat (mem_bytes m) = limit" "limit \<le> 2 ^ 31"
  shows "platform_ok limit (tlm_side_new (cpu_busaccess_new N 0 idx harvard nodmi m))"
  using assms by (auto simp: platform_ok_def tlm_side_new_def cpu_busaccess_new_def dmi_ok_def dmi_new_def mem_ok_def
      generic_mem_new_def Let_def split: if_splits)

definition on_memory :: "generic_tlm_mem platform \<Rightarrow> generic_tlm_mem platform" where
  "on_memory p = p\<lparr>sockets := mem_sockets\<rparr>"

text \<open>Addresses of the memory are no backdoors.\<close>

lemma no_backdoor:
  assumes "unat (a :: u32) < 2 ^ 31"
  shows "backdoor_write a v s = Some (False, s)" "backdoor_read p a sf s = None" "a \<noteq> 0xFFFFFFFC" "unat (ucast a :: u64) = unat a"
proof -
  have top: "\<not> bit a 31"
  proof
    assume "bit a 31"
    then have "bit (unat a) 31" by (simp add: bit_unsigned_iff)
    then show False using assms by (simp add: bit_iff_odd)
  qed
  have neq: "a AND m \<noteq> c" if "bit c 31" for m c :: u32
    using top that by (auto simp: bit_and_iff)
  have "bit (0xFFFD0000 :: u32) 31" "bit (0xFFFE0000 :: u32) 31" "bit (0xFFFD4000 :: u32) 31" "bit (0xFFFFFF00 :: u32) 31"
    by simp_all
  note n = this [THEN neq]
  show "backdoor_read p a sf s = None" using n by (simp add: backdoor_read_def Let_def)
  show "a \<noteq> 0xFFFFFFFC" using top by auto
  have "a \<noteq> 0xFFFFFF90" "a \<noteq> 0xFFFFFFF0" using top by auto
  then show "backdoor_write a v s = Some (False, s)" by (simp add: backdoor_write_def)
  show "unat (ucast a :: u64) = unat a" using assms by (simp add: unsigned_ucast_eq take_bit_nat_eq_self)
qed

interpretation plat: byte_bus "tlm_bus (on_memory p)" "platform_bytes limit" "platform_ok limit" limit for p limit
proof
  fix s :: "generic_tlm_mem tlm_side" and a :: u32 and sf :: nat and v :: u64
  assume s: "platform_ok limit s" and ok: "access_ok limit (unat a) sf"
  note b = s [unfolded platform_bus] and fit = size_bytes(2) [OF ok]
  have a: "unat a < 2 ^ 31" using mem.bus_limit [OF b] ok by (simp add: access_ok_def)
  note n = no_backdoor [OF a]
  have ok': "access_ok limit (unat (ucast a :: u64)) sf" using ok n(4) by simp
  obtain x b1 where x: "tlm_read mem_sockets (ucast a) sf False (busaccess s) = Some (Some x, b1)"
    "is_value (mem_byte (target (busaccess s))) (unat a) (2 ^ sf) x"
    "mem_byte (target b1) = mem_byte (target (busaccess s))" "mem.bus_ok limit b1"
    using mem.tlm_load [OF b ok'] unfolding n(4) by blast
  have "read1 (tlm_bus (on_memory p)) s a sf False False = Some (Some x, s\<lparr>busaccess := b1\<rparr>)"
    using x(1) by (simp add: n tlm_bus_def armisa_read1_def on_memory_def)
  with x(2-4) show "\<exists>v m'. read1 (tlm_bus (on_memory p)) s a sf False False = Some (Some v, m') \<and>
      is_value (platform_bytes limit s) (unat a) (2 ^ sf) v \<and> platform_bytes limit m' = platform_bytes limit s \<and> platform_ok limit m'"
    by (simp add: platform_bytes_def value_below [OF fit] platform_bus)
  obtain b2 where b2: "tlm_write mem_sockets (ucast a) v sf False (busaccess s) = Some (True, 0, b2)" "mem.bus_ok limit b2"
    "mem_byte (target b2) = put_value (unat a) (2 ^ sf) v (mem_byte (target (busaccess s)))"
    using mem.tlm_store [OF b ok', of v] unfolding n(4) by blast
  have "write1 (tlm_bus (on_memory p)) s a v sf False = Some (True, 0, s\<lparr>busaccess := b2\<rparr>)"
    using b2(1) by (simp add: n tlm_bus_def armisa_write1_def on_memory_def)
  with b2(2,3) show "\<exists>m'. write1 (tlm_bus (on_memory p)) s a v sf False = Some (True, 0, m') \<and>
      platform_bytes limit m' = put_value (unat a) (2 ^ sf) v (platform_bytes limit s) \<and> platform_ok limit m'"
    by (simp add: platform_bytes_def put_below [OF fit] platform_bus)
qed

end
