(* ===== verification/ArmPlatform.thy ===== *)
theory ArmPlatform
  imports GicLife ArmProps ByteBus
begin

unbundle bit_operations_syntax

text \<open>
  The parts of the ARM platform together: programs see the same memory on the platform and in the
  stand-alone simulator, load-linked and store-conditional share one lock, the instruction mini-cache is
  not coherent, and an interrupt line reaches the handler of the core.
\<close>

section \<open>One memory\<close>

text \<open>C13: A sequence of loads and stores of any sizes and alignments within the first 64 MB (doublewords at
  multiples of four) cannot tell the platform from the stand-alone simulator: from equal contents, the
  bus access unit over the paged memory, with any state of its direct memory pointers and latency
  measurements, succeeds on every access and returns the values that the flat memory returns, which are
  those of an array of bytes, and the contents stay equal.\<close>

theorem memories_agree:
  assumes "platform_ok mem_size_bytes s" "platform_bytes mem_size_bytes s = flat_bytes m"
    and "\<forall>x \<in> set xs. fits mem_size_bytes x"
  shows "\<exists>vs s' m'. accesses (tlm_bus (on_memory p)) xs s = Some (vs, s') \<and> accesses (fast_bus q) xs m = Some (vs, m') \<and>
    vs = fst (byte_accesses xs (flat_bytes m)) \<and> platform_bytes mem_size_bytes s' = flat_bytes m' \<and> platform_ok mem_size_bytes s'"
  using plat.accesses_bytes [OF assms(1,3), of p] flat.accesses_bytes [where q = q and m = m and xs = xs] assms(2,3) by auto

theorem memories_agree_witness:
  "\<exists>m vs s' m'. generic_mem_new 0 (2 ^ 26) 8 = Some m \<and>
    accesses (tlm_bus (on_memory \<lparr>sockets = mem_sockets, stdin_read32 = (\<lambda>_ t. (0, t)), argv_read32 = (\<lambda>_. 0),
        argc_value = 0, sim_ticks = (\<lambda>_. 0)\<rparr>))
      [Store 5 2 0x11223344, Load 4 3] (tlm_side_new (cpu_busaccess_new 3 0 0 False False m)) = Some (vs, s') \<and>
    accesses (fast_bus 0) [Store 5 2 0x11223344, Load 4 3] \<lparr>flat_data = (\<lambda>_. 0), llsc_addrs = Map.empty\<rparr> = Some (vs, m')"
proof -
  obtain m where m: "generic_mem_new 0 (2 ^ 26) 8 = Some m" by (simp add: generic_mem_new_def Let_def)
  then have b: "unat (mem_bytes m) = mem_size_bytes" and p: "pages m = Map.empty"
    by (auto simp: generic_mem_new_def mem_size_bytes_def Let_def)
  have ok: "platform_ok mem_size_bytes (tlm_side_new (cpu_busaccess_new 3 0 0 False False m))"
    by (rule platform_new [OF m b]) (simp add: mem_size_bytes_def)
  have "mem_byte m n = 0" for n using p by (simp add: mem_byte_def page_at_def)
  then have e: "platform_bytes mem_size_bytes (tlm_side_new (cpu_busaccess_new 3 0 0 False False m)) =
      flat_bytes \<lparr>flat_data = (\<lambda>_. 0), llsc_addrs = Map.empty\<rparr>"
    by (simp add: platform_bytes_def flat_bytes_def below_def tlm_side_new_def cpu_busaccess_new_def fun_eq_iff)
  have "\<forall>x \<in> set [Store 5 2 0x11223344, Load 4 3]. fits mem_size_bytes x"
    by (simp add: access_ok_def mem_size_bytes_def)
  from memories_agree [OF ok e this] m show ?thesis by blast
qed

section \<open>One lock\<close>

datatype llsc_op = LoadLinked nat u64 | StoreCond nat u64

fun llsc_run :: "llsc_op list \<Rightarrow> llsc_locks_t \<Rightarrow> bool list" where
  "llsc_run [] l = []"
| "llsc_run (LoadLinked i a # xs) l = llsc_run xs (loadlocked i a l)"
| "llsc_run (StoreCond i a # xs) l = (let (failed, l) = storeconditional_fail i a l in (\<not> failed) # llsc_run xs l)"

text \<open>The specification: one reservation, held by the last core that loaded.\<close>

fun reservation_run :: "llsc_op list \<Rightarrow> (nat \<times> u64) option \<Rightarrow> bool list" where
  "reservation_run [] r = []"
| "reservation_run (LoadLinked i a # xs) r = reservation_run xs (Some (i, a))"
| "reservation_run (StoreCond i a # xs) r =
    (if r = Some (i, a) then True # reservation_run xs None else False # reservation_run xs r)"

definition reserved :: "llsc_locks_t \<Rightarrow> (nat \<times> u64) option \<Rightarrow> bool" where
  "reserved l r \<longleftrightarrow> llsc0_a l = - 1 \<and>
    (case r of None \<Rightarrow> llsc1_a l = - 1 | Some (i, a) \<Rightarrow> llsc1_a l = a \<and> llsc1_id l = i \<and> unat a < 2 ^ 32)"

fun op_address :: "llsc_op \<Rightarrow> u64" where
  "op_address (LoadLinked i a) = a" | "op_address (StoreCond i a) = a"

lemma cut_address: "unat (a :: u64) < 2 ^ 32 \<Longrightarrow> ucast (ucast a :: u32) = a" "unat (a :: u64) < 2 ^ 32 \<Longrightarrow> a \<noteq> - 1"
proof -
  assume a: "unat a < 2 ^ 32"
  have "ucast (ucast a :: u32) = take_bit 32 a"
    by (rule bit_word_eqI) (auto simp: bit_ucast_iff bit_take_bit_iff min_def)
  moreover have "unat (take_bit 32 a) = unat a"
    unfolding unsigned_take_bit_eq using a by (simp add: take_bit_nat_eq_self)
  ultimately show "ucast (ucast a :: u32) = a" by (simp only: word_unat_eq_iff)
  have "unat (- 1 :: u64) = 2 ^ 64 - 1" by (simp add: unsigned_minus_1_eq_mask mask_eq_exp_minus_1)
  then show "a \<noteq> - 1" using a by auto
qed

lemma loadlocked_reserves: "reserved l r \<Longrightarrow> unat a < 2 ^ 32 \<Longrightarrow> reserved (loadlocked i a l) (Some (i, a))"
  using cut_address [of a] by (auto simp: reserved_def loadlocked_def Let_def)

lemma storeconditional_tests:
  assumes "reserved l r" "unat a < 2 ^ 32"
  shows "storeconditional_fail i a l = (r \<noteq> Some (i, a), snd (storeconditional_fail i a l))"
    "reserved (snd (storeconditional_fail i a l)) (if r = Some (i, a) then None else r)"
  using assms cut_address(2) [OF assms(2)] by (auto simp: reserved_def storeconditional_fail_def split: option.splits)

text \<open>C14: The two locks of a target behave as a single one: from the construction on, in any sequence of
  load-linked and store-conditional accesses of any cores below 4 GB, a store-conditional succeeds exactly
  when its core made the last load-linked of all cores, at the same address, and has not stored since.
  The second lock is never used.\<close>

theorem llsc_one_reservation:
  assumes "\<forall>x \<in> set xs. unat (op_address x) < 2 ^ 32"
  shows "llsc_run xs llsc_new = reservation_run xs None"
proof -
  have "llsc_run xs l = reservation_run xs r" if "reserved l r" for l r
    using assms that
  proof (induction xs arbitrary: l r)
    case (Cons x xs)
    show ?case
    proof (cases x)
      case (LoadLinked i a)
      then show ?thesis using Cons loadlocked_reserves by simp
    next
      case (StoreCond i a)
      then have a: "unat a < 2 ^ 32" using Cons.prems(1) by simp
      note t = storeconditional_tests [OF Cons.prems(2) a, of i]
      have "llsc_run xs (snd (storeconditional_fail i a l)) = reservation_run xs (if r = Some (i, a) then None else r)"
        using Cons.IH [OF _ t(2)] Cons.prems(1) by simp
      then show ?thesis using StoreCond by (subst StoreCond, simp only: llsc_run.simps, subst t(1)) (simp add: Let_def)
    qed
  qed simp
  moreover have "reserved llsc_new None" by (simp add: reserved_def llsc_new_def)
  ultimately show ?thesis by blast
qed

theorem llsc_one_reservation_witness:
  "llsc_run [LoadLinked 0 8, LoadLinked 1 16, StoreCond 0 8, StoreCond 1 16, StoreCond 1 16] llsc_new = [False, True, False]"
  using llsc_one_reservation [of "[LoadLinked 0 8, LoadLinked 1 16, StoreCond 0 8, StoreCond 1 16, StoreCond 1 16]"] by simp


lemma lock_lost: "fst (storeconditional_fail i a l) \<Longrightarrow> storeconditional_fail i a l = (True, l)"
  by (auto simp: storeconditional_fail_def split: if_splits)

text \<open>At the memory: between the load-linked of a core and its store-conditional, the load-linked of another
  core takes the lock away wherever it goes.\<close>

lemma linked_read:
  assumes "mem_ok limit m" "unat a mod 8 = 0" "unat a + 8 \<le> limit" "target b = m"
  shows "\<exists>w b'. mem_read mem_sockets a True 0 3 b = Some (Some w, b') \<and> mem_ok limit (target b') \<and>
    procID b' = procID b \<and> mem_byte (target b') = mem_byte m \<and>
    llsc_locks (target b') = loadlocked (procID b) a (llsc_locks m)"
proof -
  let ?m = "m\<lparr>llsc_locks := loadlocked (procID b) a (llsc_locks m)\<rparr>"
  have m: "mem_ok limit ?m" using assms(1) by (simp add: mem_ok_def)
  have bytes: "mem_byte ?m = mem_byte m" by (auto simp: mem_byte_def page_at_def)
  note s = mem_ok_space [OF assms(1,3)]
  obtain w m' where r: "ip_read64 a ?m = Some (w, m')" "mem_byte m' = mem_byte ?m"
    "m' = ?m \<or> m' = ?m\<lparr>last_page := Some (page_of a)\<rparr>"
    using ip_read64_bytes [OF assms(2), of ?m] s by blast
  have "mem_ok limit m'" using r(3) m s by (auto simp: mem_ok_def)
  moreover have "llsc_locks m' = loadlocked (procID b) a (llsc_locks m)" using r(3) by auto
  moreover have "mem_base m = 0" using assms(1) by (simp add: mem_ok_def)
  ultimately show ?thesis
    using r(1,2) s assms(4) bytes
    by (auto simp: mem_read_def mem_sockets_def mem_access_def read_payload_def read_words_def dmi_put_def dmi_get_def
        Let_def split: prod.split)
qed

text \<open>Load-linked addresses compete even when they differ: while core \<open>b1\<close> holds the only reservation at
  \<open>x\<close>, a load-linked of another core at any other doubleword \<open>y\<close> of the same memory makes the
  store-conditional of \<open>b1\<close> at \<open>x\<close> fail (outcome 0), and the memory keeps its bytes.\<close>

theorem reservation_stolen:
  assumes "mem_ok limit m" "llsc0_a (llsc_locks m) = - 1" "unat x mod 8 = 0" "unat x + 8 \<le> limit" "unat y mod 8 = 0" "unat y + 8 \<le> limit"
    and "x \<noteq> y" "target b1 = m"
  shows "\<exists>w1 c1 w2 c2 c3. mem_read mem_sockets x True 0 3 b1 = Some (Some w1, c1) \<and>
    mem_read mem_sockets y True 0 3 (b2\<lparr>target := target c1\<rparr>) = Some (Some w2, c2) \<and>
    cpu_mem_store_conditional mem_sockets x v 64 (c1\<lparr>target := target c2\<rparr>) = Some (0, c3) \<and>
    mem_byte (target c3) = mem_byte m"
proof -
  obtain w1 c1 where 1: "mem_read mem_sockets x True 0 3 b1 = Some (Some w1, c1)" "mem_ok limit (target c1)"
    "mem_byte (target c1) = mem_byte m" "llsc_locks (target c1) = loadlocked (procID b1) x (llsc_locks m)"
    using linked_read [OF assms(1,3,4,8)] by blast
  obtain w2 c2 where 2: "mem_read mem_sockets y True 0 3 (b2\<lparr>target := target c1\<rparr>) = Some (Some w2, c2)" "mem_ok limit (target c2)"
    "mem_byte (target c2) = mem_byte (target c1)"
    "llsc_locks (target c2) = loadlocked (procID b2) y (llsc_locks (target c1))"
    using linked_read [OF 1(2) assms(5,6), of "b2\<lparr>target := target c1\<rparr>"] by auto
  have x: "unat x < 2 ^ 32" and y: "unat y < 2 ^ 32"
    using mem_ok_space [OF assms(1,4)] mem_ok_space [OF assms(1,6)] by auto
  have "unat (x AND NOT 7) = unat x" unfolding addr_7 using assms(3) by auto
  then have al: "x AND NOT 7 = x" by (simp only: word_unat_eq_iff)
  have "fst (storeconditional_fail i x (llsc_locks (target c2)))" for i
    unfolding 2(4) 1(4)
    using cut_address [OF x] cut_address [OF y] assms(2,7) by (auto simp: storeconditional_fail_def loadlocked_def Let_def)
  then have lost: "storeconditional_fail i x (llsc_locks (target c2)) = (True, llsc_locks (target c2))" for i
    by (rule lock_lost)
  have "\<not> x \<ge> mem_bytes (target c2)" "mem_base (target c2) = 0"
    using mem_ok_space [OF 2(2) assms(4)] 2(2) by (simp_all add: mem_ok_def)
  then have "cpu_mem_store_conditional mem_sockets x v 64 (c1\<lparr>target := target c2\<rparr>) =
      Some (0, c1\<lparr>target := target c2\<rparr>)"
    unfolding cpu_mem_store_conditional_def al by (simp add: mem_sockets_def mem_access_def write_payload_def lost Let_def)
  then show ?thesis using 1 2 by auto
qed

theorem reservation_stolen_witness:
  "\<exists>m w1 c1 w2 c2 c3. generic_mem_new 0 (2 ^ 26) 8 = Some m \<and>
    mem_read mem_sockets 8 True 0 3 (cpu_busaccess_new 3 0 0 False False m) = Some (Some w1, c1) \<and>
    mem_read mem_sockets 64 True 0 3 (cpu_busaccess_new 3 0 1 False False (target c1)) = Some (Some w2, c2) \<and>
    cpu_mem_store_conditional mem_sockets 8 5 64 (c1\<lparr>target := target c2\<rparr>) = Some (0, c3)"
proof -
  obtain m where m: "generic_mem_new 0 (2 ^ 26) 8 = Some m" by (simp add: generic_mem_new_def Let_def)
  then have "mem_ok (2 ^ 26) m" "llsc0_a (llsc_locks m) = - 1"
    by (auto simp: generic_mem_new_def mem_ok_def llsc_new_def Let_def)
  from reservation_stolen [OF this, of 8 64 "cpu_busaccess_new 3 0 0 False False m" "cpu_busaccess_new 3 0 1 False False m" 5] m
  show ?thesis by (auto simp: cpu_busaccess_new_def)
qed

section \<open>Instructions and data\<close>

lemma write_keeps_cache:
  "armisa_write1 p s a v sf scp = Some (ok, r, s') \<Longrightarrow> cached_adr s' = cached_adr s \<and> cached_ins s' = cached_ins s"
  by (auto simp: armisa_write1_def backdoor_write_def bind_eq_Some_conv split: if_splits)

lemma value_put: "k \<le> 8 \<Longrightarrow> value_at (put_value n k v f) n k = take_bit (8 * k) v"
proof -
  assume k: "k \<le> 8"
  have "is_value (put_value n k v f) n k (take_bit (8 * k) v)"
    unfolding is_value_def
  proof (intro allI)
    fix i
    show "bit (take_bit (8 * k) v) i \<longleftrightarrow> i < 8 * k \<and> bit (put_value n k v f (n + i div 8)) (i mod 8)"
    proof (cases "i < 8 * k")
      case True
      then have "i div 8 < k" by (simp add: div_less_iff_less_mult mult.commute)
      then show ?thesis using True by (simp add: put_value_def bit_take_bit_iff bit_ucast_iff bit_drop_bit_eq)
    qed (simp add: bit_take_bit_iff)
  qed
  then show ?thesis by (simp add: value_at [OF k])
qed

text \<open>C15: The instruction mini-cache of the wrapped core is never invalidated: after a store of a
  word to an address in the doubleword that was fetched last, a load from there returns what was stored,
  and a fetch still returns the old instruction.\<close>

theorem stale_fetch:
  assumes "platform_ok limit s" "access_ok limit (unat a) 2" "cached_adr s = ucast (a AND NOT 7)"
  shows "\<exists>s1 s2. write1 (tlm_bus (on_memory p)) s a v 2 False = Some (True, 0, s1) \<and>
    read1 (tlm_bus (on_memory p)) s1 a 2 True False =
      Some (Some (ucast (ucast (if bit a 2 then drop_bit 32 (cached_ins s) else cached_ins s) :: u32)), s1) \<and>
    read1 (tlm_bus (on_memory p)) s1 a 2 False False = Some (Some (take_bit 32 v), s2)"
proof -
  obtain s1 where s1: "write1 (tlm_bus (on_memory p)) s a v 2 False = Some (True, 0, s1)"
    "platform_bytes limit s1 = put_value (unat a) (2 ^ 2) v (platform_bytes limit s)" "platform_ok limit s1"
    using plat.store [OF assms(1,2)] by blast
  then have c: "cached_adr s1 = cached_adr s" "cached_ins s1 = cached_ins s"
    using write_keeps_cache by (fastforce simp: tlm_bus_def)+
  obtain w s2 where s2: "read1 (tlm_bus (on_memory p)) s1 a 2 False False = Some (Some w, s2)"
    "is_value (platform_bytes limit s1) (unat a) (2 ^ 2) w"
    using plat.load [OF s1(3) assms(2)] by blast
  then have w: "w = take_bit 32 v" using value_put [of 4 "unat a" v] value_at [of 4 "platform_bytes limit s1" "unat a" w] s1(2) by simp
  have "unat a < 2 ^ 31"
    using mem.bus_limit [OF assms(1) [unfolded platform_bus]] assms(2) by (simp add: access_ok_def)
  from no_backdoor(3) [OF this] have "read1 (tlm_bus (on_memory p)) s1 a 2 True False =
      Some (Some (ucast (ucast (if bit a 2 then drop_bit 32 (cached_ins s) else cached_ins s) :: u32)), s1)"
    by (simp add: tlm_bus_def armisa_read1_def eval_insn_def ins_fetch_def c assms(3) Let_def)
  then show ?thesis using s1(1) s2(1) w by blast
qed

theorem stale_fetch_witness:
  "\<exists>m s1 s2. generic_mem_new 0 (2 ^ 26) 8 = Some m \<and>
    (let bus = tlm_bus (on_memory \<lparr>sockets = mem_sockets, stdin_read32 = (\<lambda>_ t. (0, t)), argv_read32 = (\<lambda>_. 0),
           argc_value = 0, sim_ticks = (\<lambda>_. 0)\<rparr>);
         s = (tlm_side_new (cpu_busaccess_new 3 0 0 False False m))\<lparr>cached_adr := 0x1000, cached_ins := 0xE3A00001\<rparr>
     in write1 bus s 0x1000 0xE3A00002 2 False = Some (True, 0, s1) \<and>
        read1 bus s1 0x1000 2 True False = Some (Some 0xE3A00001, s1) \<and>
        read1 bus s1 0x1000 2 False False = Some (Some 0xE3A00002, s2))"
proof -
  obtain m where m: "generic_mem_new 0 (2 ^ 26) 8 = Some m" by (simp add: generic_mem_new_def Let_def)
  then have b: "unat (mem_bytes m) = 2 ^ 26" by (auto simp: generic_mem_new_def Let_def)
  let ?s = "(tlm_side_new (cpu_busaccess_new 3 0 0 False False m))\<lparr>cached_adr := 0x1000, cached_ins := 0xE3A00001\<rparr>"
  have "platform_ok (2 ^ 26) (tlm_side_new (cpu_busaccess_new 3 0 0 False False m))" by (rule platform_new [OF m b]) simp
  then have ok: "platform_ok (2 ^ 26) ?s" by (simp add: platform_ok_def)
  have a: "access_ok (2 ^ 26) (unat (0x1000 :: u32)) 2" by (simp add: access_ok_def)
  have c: "cached_adr ?s = ucast ((0x1000 :: u32) AND NOT 7)" by simp
  have n: "\<not> bit (0x1000 :: u32) 2" "take_bit 32 (0xE3A00002 :: u64) = 0xE3A00002" "ucast (ucast (0xE3A00001 :: u64) :: u32) = (0xE3A00001 :: u64)"
    by code_simp+
  from stale_fetch [OF ok a c, of "\<lparr>sockets = mem_sockets, stdin_read32 = (\<lambda>_ t. (0, t)), argv_read32 = (\<lambda>_. 0),
      argc_value = 0, sim_ticks = (\<lambda>_. 0)\<rparr>" "0xE3A00002"] m n
  show ?thesis by (auto simp: Let_def)
qed

section \<open>Writes of the debugger\<close>

text \<open>A byte write of the debugger is a word write: on an idle channel, \<^verbatim>\<open>writeMem8\<close> at an address that is
  a multiple of four stores the byte there, clears the three bytes after it, changes no other byte of the
  memory, and leaves the channel idle.\<close>

theorem debugger_byte_write:
  assumes "platform_ok limit (side c)" "dc_cmd (debug_cmd c) = Idle" "unat a + 8 \<le> limit" "unat a mod 4 = 0"
  shows "\<exists>c'. writeMem8 mem_sockets a v c = Some c' \<and> dc_cmd (debug_cmd c') = Idle \<and> platform_ok limit (side c') \<and>
    mem_byte (target (busaccess (side c'))) =
      (mem_byte (target (busaccess (side c))))(unat a := v, unat a + 1 := 0, unat a + 2 := 0, unat a + 3 := 0)"
proof -
  have cast: "ucast (ucast v :: u64) = (ucast v :: u32)" by (rule bit_word_eqI) (auto simp: bit_ucast_iff)
  obtain b where b: "ba_set_mem32 mem_sockets a (ucast (ucast v :: u64)) (busaccess (side c)) = Some (True, b)" "mem.bus_ok limit b"
    "mem_byte (target b) = put_value (unat a) 4 (ucast v) (mem_byte (target (busaccess (side c))))"
    using mem.set32 [OF assms(1) [unfolded platform_bus] assms(3,4), of "ucast v"] by blast
  have z: "(ucast (drop_bit n (ucast v :: u64)) :: u8) = 0" if "8 \<le> n" for n
    using that by (intro bit_word_eqI) (auto simp: bit_ucast_iff bit_drop_bit_eq bit8_out)
  have v: "(ucast (ucast v :: u64) :: u8) = v" by (rule bit_word_eqI) (simp add: bit_ucast_iff)
  have "mem_byte (target b) = (mem_byte (target (busaccess (side c))))(unat a := v, unat a + 1 := 0, unat a + 2 := 0, unat a + 3 := 0)"
    unfolding b(3) put_value_def near_cases(1) by (auto simp: fun_eq_iff z v)
  moreover have "\<exists>c'. writeMem8 mem_sockets a v c = Some c' \<and> dc_cmd (debug_cmd c') = Idle \<and> busaccess (side c') = b"
    using b(1) assms(2) by (simp add: writeMem8_def debug_call_def debug_request_def serve_debugger_def wait_ack_def
        core_bus_def Let_def cast)
  ultimately show ?thesis using b(2) by (auto simp: platform_bus)
qed

theorem debugger_byte_write_witness:
  "\<exists>m c'. generic_mem_new 0 (2 ^ 26) 8 = Some m \<and>
    writeMem8 mem_sockets 0x100 0xAB (armcore_tlm_new 0 (cpu_busaccess_new 3 0 0 False False m)) = Some c' \<and>
    mem_byte (target (busaccess (side c'))) 0x100 = 0xAB \<and> mem_byte (target (busaccess (side c'))) 0x101 = 0"
proof -
  obtain m where m: "generic_mem_new 0 (2 ^ 26) 8 = Some m" by (simp add: generic_mem_new_def Let_def)
  then have b: "unat (mem_bytes m) = 2 ^ 26" by (auto simp: generic_mem_new_def Let_def)
  let ?c = "armcore_tlm_new 0 (cpu_busaccess_new 3 0 0 False False m)"
  have "platform_ok (2 ^ 26) (side ?c)" "dc_cmd (debug_cmd ?c) = Idle"
    using platform_new [OF m b] by (simp_all add: armcore_tlm_new_def)
  from debugger_byte_write [OF this, of "0x100" "0xAB"] m show ?thesis by auto
qed

section \<open>From the line to the handler\<close>

lemma leads_unique: "leads g cpu grp i \<Longrightarrow> leads g cpu grp k \<Longrightarrow> i = k"
  by (fastforce simp: leads_def)

lemma poll_wakes:
  assumes "ready k" "\<not> thumb_mode k" "currentMode k \<noteq> IrqMode" "currentMode k \<noteq> FiqMode" "\<not> IRQFlag k"
  shows "\<exists>k1. poll_interrupt True k = Some k1 \<and> \<not> wait_for_interrupt k1 \<and> \<not> wait_for_event k1 \<and> currentMode k1 = IrqMode \<and> IRQFlag k1 \<and>
    rd k1 15 = vector_address IrqVector + vectorBase k + 4 \<and> rd k1 14 = rd k 15 \<and> spsr k1 = Some (rd k 16)"
proof -
  let ?k = "k\<lparr>wait_for_interrupt := False, wait_for_event := False\<rparr>"
  have s: "ready ?k = ready k" "thumb_mode ?k = thumb_mode k" "IRQFlag ?k = IRQFlag k" "rd ?k r = rd k r" for r
    by (simp_all add: ready_def IRQFlag_def rd_def)
  obtain k1 where k1: "hw_interrupt ?k = Some (True, k1)" "currentMode k1 = IrqMode" "IRQFlag k1"
    "rd k1 15 = vector_address IrqVector + vectorBase k + 4" "rd k1 14 = rd k 15" "spsr k1 = Some (rd k 16)"
    using interrupt_taken [of ?k] assms by (auto simp: s)
  have "wait_for_interrupt k1 = wait_for_interrupt ?k" "wait_for_event k1 = wait_for_event ?k"
    using k1(1) by (auto simp: hw_interrupt_def DecodeTrap_def SetMode_def wr_def raw_wr_def Let_def bind_eq_Some_conv split: if_splits)
  moreover have "poll_interrupt True k = map_option snd (hw_interrupt ?k)"
    using assms(5) by (cases k) (simp add: poll_interrupt_def IRQFlag_def Let_def)
  ultimately show ?thesis using k1 by simp
qed

text \<open>C9: An interrupt line reaches the program: let \<open>no\<close> be a private or shared interrupt (16 to 1020; the
  software-generated ones, which are acknowledged together with their source, are excluded) that is
  requested and leads group 0 of core \<open>cpu\<close> in a well-formed controller.  Bit 8 of the control register of
  core 0 is clear: that is the bit the code tests for the choice between IRQ and FIQ, so that the interrupt
  comes as IRQ even when FIQEn (bit 3) is set.  Let the core be in ARM state between two instructions, in a
  mode other than IRQ and FIQ and with interrupts enabled, perhaps asleep.  The distribution raises the
  core's IRQ output, the core's next poll wakes it and enters the handler at the IRQ vector with the return
  address and the status saved, the acknowledge register gives the handler \<open>no\<close>, and after the end of
  interrupt \<open>no\<close> is no longer a candidate.\<close>

theorem interrupt_delivered:
  assumes "gic_ok g" "\<not> bit (CTL (cpustate g ! 0)) 8" "cpu < n_cpus g" "leads g cpu 0 no" "16 \<le> no" "no < 1021"
    and "ready k" "\<not> thumb_mode k" "currentMode k \<noteq> IrqMode" "currentMode k \<noteq> FiqMode" "\<not> IRQFlag k"
  shows "\<exists>g1 k1 g2 g3. distribute g = Some g1 \<and> poll_interrupt (IRQ_out g1 ! cpu) k = Some k1 \<and>
    \<not> wait_for_interrupt k1 \<and> \<not> wait_for_event k1 \<and> currentMode k1 = IrqMode \<and> IRQFlag k1 \<and>
    rd k1 15 = vector_address IrqVector + vectorBase k + 4 \<and> rd k1 14 = rd k 15 \<and> spsr k1 = Some (rd k 16) \<and>
    ReadCPU 0xC cpu g1 = Some (of_nat no, g2) \<and> WriteCPU 0x10 cpu (of_nat no) g2 = Some g3 \<and>
    \<not> candidate g3 cpu 0 no"
proof -
  obtain L where L: "leaders_of g = Some L" "leads_in g (\<lambda>c k. c < n_cpus g \<and> k < 1024) L"
    using leaders_lead [OF assms(1)] by blast
  let ?g1 = "fold (drive L) [0..<n_cpus g] g"
  have n: "n_cpus g \<le> 32" using gic_ok_lengths(6) [OF assms(1)] by simp
  have d: "driven L (n_cpus g) g ?g1" using drives [OF assms(1) n] .
  then have g1: "gic_ok ?g1" "cpu < n_cpus ?g1" using assms(3) by (simp_all add: driven_def)
  have cand: "candidate g cpu 0 no" using assms(4) by (simp add: leads_def)
  then have "L (0, cpu) \<noteq> None" using no_leader [OF L(2) _ assms(3)] by blast
  then have "L (0, cpu) = Some (pri_of g cpu no, no)"
    using leader_leads [OF L(2)] leads_unique [OF assms(4)] by blast
  then have ia: "IA (cpustate ?g1 ! cpu) ! 0 = of_nat no" using driven_IA [OF assms(1) d assms(3), of 0] by simp
  have irq: "IRQ_out ?g1 ! cpu" using driven_out(2) [OF assms(1) d L(2) assms(3)] assms(2) cand by blast
  have cand1: "candidate ?g1 cpu 0 no" using driven_same(1) [OF d, of cpu] assms(3) n cand by simp
  then have "requested ?g1 cpu no" by (simp add: candidate_def)
  from candidates_acked(2) [OF g1(1,2,2) assms(5,6) this] have "\<not> candidate (ended no cpu (notify (acked no cpu ?g1))) cpu 0 no"
    by (simp add: same_int_def)
  moreover have "distribute g = Some ?g1" using L(1) by (simp add: distribute_def)
  ultimately show ?thesis
    using poll_wakes [OF assms(7-11)] reads_ack [OF g1 ia assms(5,6)] writes_end [OF g1 assms(6)] irq by auto
qed

lemma line34_leads: "leads line34 0 0 34"
proof -
  have "d_enables line34 = (replicate 32 0)[1 := 4]" "c_enables (cpustate line34 ! 0) = 0"
    by (simp_all add: line34_def gic_new_def cpu_new_def upd_cpu_def GIC_MAX_N_CPUS_def del: upt.simps replicate_Suc)
  then have e: "enables_of line34 0 i = (if i = 1 then 4 else 0)" if "i < 32" for i
    using that by (simp add: enables_of_def nth_list_update del: replicate_Suc)
  have b: "\<forall>i \<in> set [0..<32]. bit (4 :: u32) i \<longrightarrow> i = 2" by code_simp
  have "k = 34" if "candidate line34 0 0 k" for k
  proof -
    have "k < 1024" "requested line34 0 k" using that by (simp_all add: candidate_def)
    then have k: "k div 32 < 32" "bit (enables_of line34 0 (k div 32)) (k mod 32)" by (simp_all add: requested_bits)
    then have d: "k div 32 = 1" by (cases "k div 32 = 1") (simp_all add: e)
    then have "bit (4 :: u32) (k mod 32)" using k by (simp add: e)
    moreover have "k mod 32 \<in> set [0..<32]" unfolding set_upt by simp
    ultimately have "k mod 32 = 2" using b by blast
    with d show "k = 34" using div_mult_mod_eq [of k 32] by simp
  qed
  then show ?thesis using line34_facts(5) unfolding leads_def by blast
qed

theorem interrupt_delivered_witness:
  "\<exists>g1 k1 g2 g3. distribute line34 = Some g1 \<and>
    poll_interrupt (IRQ_out g1 ! 0) ((arm_new 0)\<lparr>currentMode := SystemMode, runstate := RunningS, wait_for_interrupt := True\<rparr>) = Some k1 \<and>
    currentMode k1 = IrqMode \<and> \<not> wait_for_interrupt k1 \<and> ReadCPU 0xC 0 g1 = Some (34, g2)"
proof -
  let ?k = "(arm_new 0)\<lparr>currentMode := SystemMode, runstate := RunningS, wait_for_interrupt := True\<rparr>"
  have k: "ready ?k" "\<not> thumb_mode ?k" "currentMode ?k \<noteq> IrqMode" "currentMode ?k \<noteq> FiqMode" "\<not> IRQFlag ?k"
    by (simp_all add: ready_def arm_new_def IRQFlag_def Bit_iff)
  from interrupt_delivered [OF line34_facts(1,6,2) line34_leads _ _ k] show ?thesis by fastforce
qed

end
