(* ===== verification/Spec2Isabelle.thy ===== *)
theory Spec2Isabelle
  imports MatMulArm CString CNum Or32Props Uart DjgProps StdioProps Getopt Heap Scan Rsp Predictor GicSgi ArmPlatform
begin

text \<open>
  \<^bold>\<open>A verification development of fpga-matrix-mult\<close>

  The repository multiplies two 2x2 matrices on an FPGA beside an ARM processor.  The device exists
  three times: as plain C (\<^verbatim>\<open>pure/\<close>), as a SystemC module (\<^verbatim>\<open>tlm/\<close>) and behind memory-mapped registers
  driven by a C program (\<^verbatim>\<open>prazor-tests/\<close>).  Everything below \<^verbatim>\<open>vhls/\<close> is the Prazor simulator on which
  that program runs: simulated processors and devices in C and C++, and the target's run-time
  library \<^verbatim>\<open>prlibc\<close>, thread package \<^verbatim>\<open>djgthreads\<close> and device drivers in C.

  \<^bold>\<open>How the parts interact.\<close>  A target program calls \<^verbatim>\<open>prlibc\<close>.  Its formatter writes characters to a
  sink: a string in memory, the buffer of a stream, or the console.  A stream is flushed and refilled
  by software interrupts of the simulated processor, which reach a table of host files.  The console
  is the UART device, polled directly or through an interrupt-driven driver with two ring buffers.
  Threads are served by the cores of the simulated machine.  An ARM core fetches, decodes and executes
  its instructions over a bus: the flat memory of the stand-alone simulator, or, on the SystemC
  platform, a bus access unit that reaches a paged memory by transactions and direct memory pointers.
  The interrupt controller collects the interrupt lines and software interrupts and drives the
  interrupt inputs that the cores poll.  A debugger reaches a core through a one-place channel, and
  the debugger's client through packets over a connection.  The OpenRISC instructions are decoded by an
  automaton built at start-up from a table of opcodes.

  \<^bold>\<open>Theories and what they model\<close>

  \<^item> \<open>Prelude\<close>: the byte memory (a map from addresses to characters), blocks and zero-terminated
    strings in it, the characters and digits of the target, and the rule collections the other
    theories use (\<open>mem_simps\<close>, \<open>cstr_intros\<close>).
  \<^item> \<open>MatMul\<close>: the device as a C array and as a SystemC module, the C program \<^verbatim>\<open>pure/matMul.c\<close> and the
    test bench \<^verbatim>\<open>tlm/matMul.cpp\<close>.  The interface \<open>mm_device\<close> states what a driver needs of the
    registers; it is interpreted on the C array and on the transactions of the test bench, and the
    agreement of the two programs follows from it.
  \<^item> \<open>MatMulArm\<close>: the C program \<^verbatim>\<open>prazor-tests/matMul.c\<close> over the loads and stores of a simulated core.
    Here the interface is not kept, since the device ignores byte enables: both operands reach the
    first register.
  \<^item> \<open>CString\<close> and \<open>CNum\<close>: \<^verbatim>\<open>prlibc.c\<close> (character classes, memory blocks, strings, \<^verbatim>\<open>atoi\<close>, \<^verbatim>\<open>atol\<close>),
    \<^verbatim>\<open>strtol.c\<close> and the two quad-word parsers of \<^verbatim>\<open>scanf.c\<close>.
  \<^item> \<open>Format\<close>, \<open>HostFiles\<close>, \<open>Stdio\<close>, \<open>StdioProps\<close>: the number printers and the interpreter of
    \<^verbatim>\<open>printf\<close> formats, the file table of \<^verbatim>\<open>tenos/io_backdoor.cpp\<close> with the interrupt handlers of
    \<^verbatim>\<open>arm/armisa.cpp\<close>, and the streams between them.  The interface \<open>byte_sink\<close> is interpreted on
    streams, on strings in memory and on the console.
  \<^item> \<open>Ring\<close>, \<open>UartDev\<close>, \<open>Uart\<close>: the driver's ring buffer (interface \<open>byte_fifo\<close>), the UART device of
    \<^verbatim>\<open>io/uart64_cbg.cpp\<close>, and the driver over a device port (interface \<open>uart_port\<close>) that is
    interpreted on that device.
  \<^item> \<open>Djgthreads\<close>, \<open>DjgBarrier\<close>, \<open>DjgProps\<close>: thread control blocks, creation and joining, mutexes,
    condition variables, barriers, thread-specific data and accounting.  Barriers are a step relation
    over any number of interleaved threads.
  \<^item> \<open>Or32Table\<close>, \<open>Or32\<close>, \<open>Or32Decode\<close>, \<open>Or32Run\<close>, \<open>Or32Props\<close>: the opcode table of
    \<^verbatim>\<open>or1k/fastiss/or32.c\<close>, the construction of the decoding automaton and of the operand descriptors,
    decoding and disassembly; a general correctness proof of the construction and its evaluation on
    the actual table.
  \<^item> \<open>Getopt\<close>, \<open>Heap\<close>, \<open>Scan\<close>: \<^verbatim>\<open>getopt\<close>, the allocator and \<^verbatim>\<open>vsscanf\<close> of \<^verbatim>\<open>prlibc\<close>.
  \<^item> \<open>Rsp\<close>: the packets of the debugger's serial protocol (\<^verbatim>\<open>gdbrsp/RspConnection.cpp\<close>,
    \<^verbatim>\<open>RspPacket.cpp\<close>, \<^verbatim>\<open>Utils.cpp\<close>).  \<open>Predictor\<close>: the branch predictor of \<^verbatim>\<open>tenos\<close>.
  \<^item> \<open>ArmState\<close>, \<open>ArmAlu\<close>, \<open>ArmMem\<close>, \<open>ArmCore\<close>, \<open>ArmProps\<close>: the ARM core of \<^verbatim>\<open>arm/armisa.cpp\<close>:
    registers, modes, traps and interrupts; data processing; loads, stores and the flat memory of
    \<^verbatim>\<open>arm/fastiss.cpp\<close>; the decoder and the clock; and what programs can rely on.  The interface
    \<open>arm_bus\<close> states what block transfers and fetches need of a bus and is interpreted on the flat
    memory.
  \<^item> \<open>Gic\<close>, \<open>GicProps\<close>, \<open>GicLife\<close>, \<open>GicSgi\<close>: the interrupt controller of \<^verbatim>\<open>arm/gic_arm_tlm.cpp\<close>, the
    sizes of its register files as an invariant of the step relation \<open>gic_step\<close>, what the distribution
    signals, and the life of private and shared interrupts and of software-generated ones.
  \<^item> \<open>TlmMem\<close>, \<open>TlmProps\<close>, \<open>ByteBus\<close>: the locks of \<^verbatim>\<open>tenos/llsc_extension.h\<close>, the paged memory of
    \<^verbatim>\<open>memories/generic_tlm_mem.cpp\<close> and the bus access unit of \<^verbatim>\<open>tenos/cpu_busaccess.cpp\<close>.  The interface
    \<open>tlm_target\<close> states what the unit needs of the memory behind it and is interpreted on the paged
    memory; the interface \<open>byte_bus\<close> states what a program sees and is interpreted on the flat memory and
    on the wrapped core over the paged memory.
  \<^item> \<open>ArmTlm\<close>, \<open>ArmPlatform\<close>: the SystemC wrapper of the core (\<^verbatim>\<open>arm/armcore_tlm.cpp\<close>, with the backdoor
    addresses) and the debugger's channel (\<^verbatim>\<open>gdbrsp/vhls_soc_debug.cpp\<close>), and the properties of core,
    memory and interrupt controller together.

  \<^bold>\<open>Conventions.\<close>  The target is the 32-bit little-endian ARM configuration: \<^verbatim>\<open>int\<close>, \<^verbatim>\<open>long\<close>, \<^verbatim>\<open>size_t\<close> and
  pointers have 32 bits, \<^verbatim>\<open>char\<close> is unsigned and \<^verbatim>\<open>size_t\<close> is \<^verbatim>\<open>int\<close>, as \<^verbatim>\<open>prlibc\<close> declares it.  Integers
  that can wrap are words; lengths and flags that cannot are \<^verbatim>\<open>int\<close> or \<^verbatim>\<open>nat\<close>.  A loop over memory that
  may never meet its end is a partial function, so that not returning is \<open>None\<close>; faults (null or
  stray accesses) are \<open>None\<close> as well.  Theorems about such functions state that they return.
  The recursion of the decoder's construction has a fuel, and \<open>cover_insn_terminates\<close> shows that 33
  levels are enough for every table.  Addresses of \<^verbatim>\<open>prlibc\<close>'s memory are unbounded; those of the
  simulated processor are words.  The simulator's own code runs on a 64-bit little-endian host; arrays
  and fields that it leaves indeterminate are 0; simulated time, power, statistics and tracing are left
  out.  What the core needs of code outside the model (the Thumb decoder, floating point, coprocessors)
  is the record \<open>external\<close>.  Code between the operations that take and release a lock is one step.

  \<^bold>\<open>What the lemmas show.\<close>  The products computed by the device, exactly and modulo the width of its
  accumulators; that the pure C program and the SystemC test bench agree, and that the program for the
  simulated platform computes zeros on a new device; the functional behaviour of every string, memory and number
  routine on every input it returns on; printing and parsing as inverses, through memory and through
  files; the first-in first-out behaviour of the UART path in every interleaving with its interrupt
  routine; mutual exclusion, rendezvous and freedom from deadlock of barriers; that the opcode
  automaton decodes exactly what the table says; that the ARM core's arithmetic, conditions and shifts
  are those of the integers, that block transfers and interrupts restore what they save; that the
  interrupt controller signals the leading interrupt of each group, gives it to the core that polls it and
  serves each source of a software-generated one; that loads and stores cannot tell the platform's memory from the flat one.  Theorems about errors record where the code departs
  from what it means to do.

  \<^bold>\<open>Not modelled.\<close>  Floating point (\<^verbatim>\<open>putdouble\<close>, \<^verbatim>\<open>strtod.c\<close>, \<^verbatim>\<open>atof\<close>, \<^verbatim>\<open>drand48\<close>), whose printing is a
  parameter of the formatter; the third-party code in the tree (uClibc, PTLsim under \<^verbatim>\<open>x86\<close>, the
  OpenRISC core translated from Verilog, DRAMSim2); the OpenRISC and MIPS instruction-set simulators and
  the Thumb decoder; the ARM coprocessors, memory management, timers and second-level cache; buses,
  caches and memories that add timing between the bus access unit and the memory; the construction of
  platforms; assembly start-up code; host input and output (terminals, sockets).
\<close>

end
